(* ===== verification/Prelude.thy ===== *)
theory Prelude
  imports Main "HOL-Library.Code_Target_Numeral" "HOL-Library.Char_ord" "HOL-Library.List_Lexorder" "HOL-Library.Product_Lexorder"
begin

text \<open>
  Shared vocabulary of the development: the character classes and text functions of the C and
  C++ standard library that the sources of \<open>xdebug/src\<close> call (\<open>isspace\<close>, \<open>tolower\<close>, \<open>atoi\<close>,
  \<open>strtoull\<close>, \<open>std::string::find\<close>, \<open>std::to_string\<close>), numbers written in a base, and the
  generic lemmas and fact collections the component theories share.  A \<open>std::string\<close> is a HOL
  \<open>string\<close>, a list of bytes; the locale is the C locale.
\<close>

named_theorems char_simps \<open>unfolding rules of the character classes\<close>
named_theorems num_simps \<open>value laws of digit strings\<close>

section \<open>Characters\<close>

abbreviation char_code :: "char \<Rightarrow> nat" where
  "char_code c \<equiv> of_char c"

lemma char_code_less: "char_code c < 256"
  by (rule nat_of_char_less_256)

definition c_isspace :: "char \<Rightarrow> bool" where
  "c_isspace c \<longleftrightarrow> char_code c = 32 \<or> (9 \<le> char_code c \<and> char_code c \<le> 13)"

definition c_isdigit :: "char \<Rightarrow> bool" where
  "c_isdigit c \<longleftrightarrow> 48 \<le> char_code c \<and> char_code c \<le> 57"

definition c_isupper :: "char \<Rightarrow> bool" where
  "c_isupper c \<longleftrightarrow> 65 \<le> char_code c \<and> char_code c \<le> 90"

definition c_islower :: "char \<Rightarrow> bool" where
  "c_islower c \<longleftrightarrow> 97 \<le> char_code c \<and> char_code c \<le> 122"

definition c_isalpha :: "char \<Rightarrow> bool" where
  "c_isalpha c \<longleftrightarrow> c_isupper c \<or> c_islower c"

definition c_isalnum :: "char \<Rightarrow> bool" where
  "c_isalnum c \<longleftrightarrow> c_isalpha c \<or> c_isdigit c"

definition c_tolower :: "char \<Rightarrow> char" where
  "c_tolower c = (if c_isupper c then char_of (char_code c + 32) else c)"

lemmas [char_simps] = c_isspace_def c_isdigit_def c_isupper_def c_islower_def c_isalpha_def
  c_isalnum_def c_tolower_def

text \<open>The value of a decimal digit character, and of a digit of any base up to 36.\<close>

definition digit_value :: "char \<Rightarrow> nat" where
  "digit_value c = char_code c - 48"

definition base_digit :: "char \<Rightarrow> nat" where
  "base_digit c =
     (if c_isdigit c then char_code c - 48
      else if c_islower c then char_code c - 87
      else if c_isupper c then char_code c - 55 else 36)"

definition digit_char :: "nat \<Rightarrow> char" where
  "digit_char d = char_of (48 + d)"

lemma code_digit_char [simp]: "d < 208 \<Longrightarrow> char_code (digit_char d) = 48 + d"
  by (simp add: digit_char_def)

lemma digit_value_digit_char [simp]: "d < 10 \<Longrightarrow> digit_value (digit_char d) = d"
  by (simp add: digit_value_def)

lemma c_isdigit_digit_char [simp]: "d < 10 \<Longrightarrow> c_isdigit (digit_char d)"
  by (simp add: c_isdigit_def)

lemma digit_value_less: "c_isdigit c \<Longrightarrow> digit_value c < 10"
  by (auto simp: c_isdigit_def digit_value_def)

lemma digit_char_digit_value [simp]: "c_isdigit c \<Longrightarrow> digit_char (digit_value c) = c"
  by (simp add: c_isdigit_def digit_char_def digit_value_def)

lemma digit_value_bound: "digit_value c < 208"
  unfolding digit_value_def using char_code_less [of c] by linarith

lemma halve_bound: "c \<le> 1 \<Longrightarrow> (c * 10 + digit_value d) div 2 < 208"
  using digit_value_bound [of d] by linarith

lemma digit_char_inject: "a < 208 \<Longrightarrow> b < 208 \<Longrightarrow> digit_char a = digit_char b \<longleftrightarrow> a = b"
  by (metis add_left_imp_eq code_digit_char)

lemma digit_char_0: "digit_char 0 = CHR ''0''"
  by code_simp

lemma digit_char_eq_0 [simp]: "d < 10 \<Longrightarrow> digit_char d = CHR ''0'' \<longleftrightarrow> d = 0"
  using digit_char_inject [of d 0] digit_char_0 by simp

lemma c_isdigit_0 [simp]: "c_isdigit CHR ''0''"
  by (simp add: c_isdigit_def)

lemma digit_value_0 [simp]: "digit_value CHR ''0'' = 0"
  by (simp add: digit_value_def)

lemma digit_value_eq_0: "c_isdigit c \<Longrightarrow> digit_value c = 0 \<longleftrightarrow> c = CHR ''0''"
  by (metis digit_char_digit_value digit_char_eq_0 digit_value_less)

section \<open>Text\<close>

text \<open>\<open>c_str\<close>: the C string a \<open>std::string\<close> shows, up to its first NUL byte.\<close>

definition c_str :: "string \<Rightarrow> string" where
  "c_str s = takeWhile (\<lambda>c. c \<noteq> CHR 0x00) s"

text \<open>\<open>find\<close> and \<open>find_first_of\<close>: the index of the first character that satisfies a test.\<close>

fun str_index :: "(char \<Rightarrow> bool) \<Rightarrow> string \<Rightarrow> nat option" where
  "str_index P [] = None"
| "str_index P (c # cs) = (if P c then Some 0 else map_option Suc (str_index P cs))"

abbreviation str_find :: "char \<Rightarrow> string \<Rightarrow> nat option" where
  "str_find c \<equiv> str_index (\<lambda>d. d = c)"

text \<open>Removing white space at both ends, as the \<open>trim\<close> helpers of the sources do.\<close>

definition str_trim :: "string \<Rightarrow> string" where
  "str_trim s = rev (dropWhile c_isspace (rev (dropWhile c_isspace s)))"

definition str_prefix :: "string \<Rightarrow> string \<Rightarrow> bool" where
  "str_prefix p s \<longleftrightarrow> take (length p) s = p"

fun str_contains :: "string \<Rightarrow> string \<Rightarrow> bool" where
  "str_contains p [] = (p = [])"
| "str_contains p (c # cs) = (str_prefix p (c # cs) \<or> str_contains p cs)"

text \<open>\<open>std::to_string\<close> of an unsigned number.\<close>

fun dec_digits :: "nat \<Rightarrow> string" where
  "dec_digits n = (if n < 10 then [digit_char n] else dec_digits (n div 10) @ [digit_char (n mod 10)])"

declare dec_digits.simps [simp del]

text \<open>
  \<open>strtol\<close> in base 10 saturates at the 64-bit bounds; \<open>atoi\<close> is its value narrowed to a 32-bit
  \<open>int\<close> (glibc).  \<open>strtoull\<close> gives the value and the text after the number, the whole text when
  there is no digit.
\<close>

definition split_sign :: "string \<Rightarrow> bool \<times> string" where
  "split_sign t =
     (case t of [] \<Rightarrow> (False, t)
      | c # r \<Rightarrow> if c = CHR ''-'' then (True, r) else if c = CHR ''+'' then (False, r) else (False, t))"

definition c_strtol :: "string \<Rightarrow> int" where
  "c_strtol s =
     (let (neg, u) = split_sign (dropWhile c_isspace (c_str s));
          n = int (foldl (\<lambda>n c. 10 * n + digit_value c) 0 (takeWhile c_isdigit u))
      in if neg then max (- (2 ^ 63)) (- n) else min (2 ^ 63 - 1) n)"

definition c_atoi :: "string \<Rightarrow> int" where
  "c_atoi s = (c_strtol s + 2 ^ 31) mod 2 ^ 32 - 2 ^ 31"

definition c_strtoull :: "nat \<Rightarrow> string \<Rightarrow> nat \<times> string" where
  "c_strtoull base s =
     (let t = c_str s;
          (neg, u) = split_sign (dropWhile c_isspace t);
          w = (if base = 16 \<and> 2 < length u \<and> u ! 0 = CHR ''0'' \<and> c_tolower (u ! 1) = CHR ''x''
                   \<and> base_digit (u ! 2) < 16 then drop 2 u else u);
          ds = takeWhile (\<lambda>c. base_digit c < base) w;
          n = foldl (\<lambda>n c. base * n + base_digit c) 0 ds
      in if ds = [] then (0, t)
         else (if n > 2 ^ 64 - 1 then 2 ^ 64 - 1 else if neg then (2 ^ 64 - n) mod 2 ^ 64 else n,
               drop (length ds) w))"

text \<open>Stripping the leading zeros of a digit string; the empty result is written \<open>0\<close>.\<close>

definition strip_zeros :: "string \<Rightarrow> string" where
  "strip_zeros s = (let r = dropWhile (\<lambda>c. c = CHR ''0'') s in if r = [] then ''0'' else r)"

lemma str_index_None: "str_index P s = None \<longleftrightarrow> (\<forall>c\<in>set s. \<not> P c)"
  by (induction s) auto

lemma str_index_Some:
  "str_index P s = Some i \<Longrightarrow> i < length s \<and> P (s ! i) \<and> (\<forall>j<i. \<not> P (s ! j))"
  by (induction s arbitrary: i) (auto simp: nth_Cons split: if_splits nat.splits)

lemma str_index_append:
  "\<forall>c\<in>set xs. \<not> P c \<Longrightarrow> str_index P (xs @ ys) = map_option ((+) (length xs)) (str_index P ys)"
proof (induction xs)
  case Nil
  show ?case by (cases "str_index P ys") simp_all
next
  case (Cons x xs)
  then show ?case by (cases "str_index P ys") simp_all
qed

lemma length_str_trim: "length (str_trim s) \<le> length s"
proof -
  have "length (str_trim s) \<le> length (rev (dropWhile c_isspace s))"
    unfolding str_trim_def length_rev by (rule length_dropWhile_le [THEN order_trans]) simp
  also have "\<dots> \<le> length s" by (simp add: length_dropWhile_le)
  finally show ?thesis .
qed

lemma str_trim_no_space: "\<forall>c\<in>set s. \<not> c_isspace c \<Longrightarrow> str_trim s = s"
proof -
  assume *: "\<forall>c\<in>set s. \<not> c_isspace c"
  have drop: "dropWhile c_isspace t = t" if "set t \<subseteq> set s" for t
    using that * by (cases t) auto
  show "str_trim s = s" unfolding str_trim_def by (simp add: drop)
qed

lemma str_prefix_append [simp]: "str_prefix p (p @ s)"
  by (simp add: str_prefix_def)

section \<open>Numbers written in a base\<close>

definition dec_value :: "string \<Rightarrow> nat" where
  "dec_value s = foldl (\<lambda>n c. 10 * n + digit_value c) 0 s"

text \<open>Every character other than \<open>1\<close> counts as a zero bit, as in the loops of the sources.\<close>

definition bit_of :: "char \<Rightarrow> nat" where
  "bit_of c = (if c = CHR ''1'' then 1 else 0)"

definition bits_value :: "string \<Rightarrow> nat" where
  "bits_value s = foldl (\<lambda>n c. 2 * n + bit_of c) 0 s"

lemma bit_of_le: "bit_of c \<le> 1"
  by (simp add: bit_of_def)

lemma bit_of_simps [simp]: "bit_of CHR ''0'' = 0" "bit_of CHR ''1'' = 1"
  by (simp_all add: bit_of_def)

lemma foldl_bits_shift:
  "foldl (\<lambda>n c. 2 * n + bit_of c) a s = a * 2 ^ length s + foldl (\<lambda>n c. 2 * n + bit_of c) 0 s"
proof (induction s arbitrary: a)
  case Nil
  show ?case by simp
next
  case (Cons c s)
  show ?case
    using Cons [of "2 * a + bit_of c"] Cons [of "bit_of c"]
    by (simp add: algebra_simps)
qed

lemma foldl_dec_shift:
  "foldl (\<lambda>n c. 10 * n + digit_value c) a s
     = a * 10 ^ length s + foldl (\<lambda>n c. 10 * n + digit_value c) 0 s"
proof (induction s arbitrary: a)
  case Nil
  show ?case by simp
next
  case (Cons c s)
  show ?case
    using Cons [of "10 * a + digit_value c"] Cons [of "digit_value c"]
    by (simp add: algebra_simps)
qed

lemma bits_value_Nil [simp]: "bits_value [] = 0"
  by (simp add: bits_value_def)

lemma dec_value_Nil [simp]: "dec_value [] = 0"
  by (simp add: dec_value_def)

lemma bits_value_Cons [num_simps]: "bits_value (c # s) = bit_of c * 2 ^ length s + bits_value s"
  unfolding bits_value_def using foldl_bits_shift [of "bit_of c" s] by simp

lemma dec_value_Cons [num_simps]: "dec_value (c # s) = digit_value c * 10 ^ length s + dec_value s"
  unfolding dec_value_def using foldl_dec_shift [of "digit_value c" s] by simp

lemma bits_value_append [num_simps]:
  "bits_value (s @ t) = bits_value s * 2 ^ length t + bits_value t"
  unfolding bits_value_def foldl_append by (rule foldl_bits_shift)

lemma dec_value_append [num_simps]:
  "dec_value (s @ t) = dec_value s * 10 ^ length t + dec_value t"
  unfolding dec_value_def foldl_append by (rule foldl_dec_shift)

lemma bits_value_snoc: "bits_value (s @ [c]) = 2 * bits_value s + bit_of c"
  by (simp add: num_simps)

lemma dec_value_snoc: "dec_value (s @ [c]) = 10 * dec_value s + digit_value c"
  by (simp add: num_simps)

lemma bits_value_less: "bits_value s < 2 ^ length s"
proof (induction s)
  case Nil
  show ?case by simp
next
  case (Cons c s)
  then show ?case using bit_of_le [of c] by (auto simp: num_simps bit_of_def)
qed

lemma dec_value_less: "\<forall>c\<in>set s. c_isdigit c \<Longrightarrow> dec_value s < 10 ^ length s"
proof (induction s)
  case Nil
  show ?case by simp
next
  case (Cons c s)
  then have "digit_value c \<le> 9" using digit_value_less [of c] by simp
  then have "digit_value c * 10 ^ length s \<le> 9 * 10 ^ length s" by (rule mult_right_mono) simp
  moreover have "dec_value s < 10 ^ length s" using Cons by simp
  ultimately show ?case unfolding dec_value_Cons length_Cons power_Suc by linarith
qed

lemma bits_value_replicate_0 [simp]: "bits_value (replicate n CHR ''0'' @ s) = bits_value s"
  by (induction n) (simp_all add: num_simps)

lemma bits_value_zeros [simp]: "\<forall>c\<in>set s. c = CHR ''0'' \<Longrightarrow> bits_value s = 0"
  by (induction s) (simp_all add: num_simps)

lemma bits_value_strip_zeros [simp]: "bits_value (strip_zeros s) = bits_value s"
proof -
  have "bits_value (dropWhile (\<lambda>c. c = CHR ''0'') s) = bits_value s"
    by (induction s) (simp_all add: num_simps)
  then show ?thesis by (auto simp: strip_zeros_def Let_def num_simps)
qed

lemma dec_value_strip_zeros [simp]: "dec_value (strip_zeros s) = dec_value s"
proof -
  have drop: "dec_value (dropWhile (\<lambda>c. c = CHR ''0'') s) = dec_value s"
    by (induction s) (simp_all add: dec_value_Cons)
  show ?thesis
  proof (cases "dropWhile (\<lambda>c. c = CHR ''0'') s = []")
    case True
    with drop show ?thesis by (simp add: strip_zeros_def dec_value_Cons)
  next
    case False
    then have "strip_zeros s = dropWhile (\<lambda>c. c = CHR ''0'') s"
      unfolding strip_zeros_def Let_def by (simp only: if_False)
    with drop show ?thesis by simp
  qed
qed

subsection \<open>Uniqueness of canonical numerals in any base\<close>

definition base_value :: "nat \<Rightarrow> (char \<Rightarrow> nat) \<Rightarrow> string \<Rightarrow> nat" where
  "base_value B f s = foldl (\<lambda>n c. B * n + f c) 0 s"

lemma base_value_snoc: "base_value B f (s @ [c]) = B * base_value B f s + f c"
  by (simp add: base_value_def)

lemma base_value_Cons: "base_value B f (c # s) = f c * B ^ length s + base_value B f s"
proof (induction s rule: rev_induct)
  case Nil
  show ?case by (simp add: base_value_def)
next
  case (snoc d s)
  then show ?case
    using base_value_snoc [of B f "c # s" d] base_value_snoc [of B f s d]
    by (simp add: algebra_simps)
qed

lemma base_value_Nil [simp]: "base_value B f [] = 0"
  by (simp add: base_value_def)

lemma base_value_less:
  "\<forall>c\<in>set s. f c < B \<Longrightarrow> base_value B f s < B ^ length s"
proof (induction s)
  case Nil
  show ?case by simp
next
  case (Cons c s)
  then have "f c + 1 \<le> B" by simp
  then have "(f c + 1) * B ^ length s \<le> B * B ^ length s" by (rule mult_right_mono) simp
  moreover have "base_value B f s < B ^ length s" using Cons by simp
  ultimately show ?case by (simp add: base_value_Cons)
qed

lemma base_value_inj:
  "length s = length t \<Longrightarrow> \<forall>c\<in>set s \<union> set t. f c < B \<Longrightarrow> inj_on f (set s \<union> set t) \<Longrightarrow>
     base_value B f s = base_value B f t \<Longrightarrow> s = t"
proof (induction s t rule: list_induct2)
  case Nil
  show ?case ..
next
  case (Cons c s d t)
  let ?P = "B ^ length s"
  have lt: "base_value B f s < ?P" "base_value B f t < ?P"
    using base_value_less [of s f B] base_value_less [of t f B] Cons by simp_all
  have eq: "f c * ?P + base_value B f s = f d * ?P + base_value B f t"
    using Cons.prems(3) Cons.hyps by (simp add: base_value_Cons)
  have "(f c * ?P + base_value B f s) div ?P = f c" using lt(1)
    by (metis add.right_neutral div_less div_mult_self3 less_nat_zero_code)
  moreover have "(f d * ?P + base_value B f t) div ?P = f d" using lt(2)
    by (metis add.right_neutral div_less div_mult_self3 less_nat_zero_code)
  moreover note eq
  ultimately have "f c = f d" by metis
  then have "c = d" by (rule inj_onD [OF Cons.prems(2)]) simp_all
  moreover have "base_value B f s = base_value B f t" using eq \<open>f c = f d\<close> by simp
  moreover have "inj_on f (set s \<union> set t)" using Cons.prems(2) by (rule inj_on_subset) auto
  ultimately show ?case using Cons by simp
qed

lemma base_value_ge: "s \<noteq> [] \<Longrightarrow> f (hd s) \<noteq> 0 \<Longrightarrow> B ^ (length s - 1) \<le> base_value B f s"
  by (cases s) (auto simp: base_value_Cons intro: trans_le_add1)

lemma base_value_length_le:
  assumes "1 < B" "\<forall>c\<in>set t. f c < B" "s \<noteq> []" "f (hd s) \<noteq> 0"
    and "base_value B f s = base_value B f t"
  shows "length s \<le> length t"
proof -
  have "B ^ (length s - 1) < B ^ length t"
  proof -
    have "B ^ (length s - 1) \<le> base_value B f t" using base_value_ge [of s f B] assms by simp
    also have "\<dots> < B ^ length t" by (rule base_value_less [OF assms(2)])
    finally show ?thesis .
  qed
  then have "length s - 1 < length t" using assms(1) by (rule power_less_imp_less_exp [rotated])
  then show ?thesis by simp
qed

end
