(* ===== verification/Json_Value.thy ===== *)
theory Json_Value
  imports Prelude
begin

text \<open>
  The part of \<open>nlohmann::ordered_json\<close> that the sources build and inspect: a value is null, a
  Boolean, an integer, a string, an array or an object, an object being the list of its members in
  insertion order.  Numbers with a fraction do not occur in the code modelled.
\<close>

datatype json =
    JNull
  | JBool bool
  | JInt int
  | JString string
  | JArray "json list"
  | JObject "(string \<times> json) list"

text \<open>\<open>object[key] = value\<close>: an existing member keeps its place, a new one is appended.\<close>

fun members_set :: "string \<Rightarrow> json \<Rightarrow> (string \<times> json) list \<Rightarrow> (string \<times> json) list" where
  "members_set k v [] = [(k, v)]"
| "members_set k v ((k', v') # ms) = (if k' = k then (k, v) # ms else (k', v') # members_set k v ms)"

lemma map_of_members_set [simp]: "map_of (members_set k v ms) = (map_of ms)(k \<mapsto> v)"
  by (induction k v ms rule: members_set.induct) auto

lemma members_set_keys: "fst ` set (members_set k v ms) = insert k (fst ` set ms)"
  by (induction k v ms rule: members_set.induct) auto

lemma distinct_members_set:
  "distinct (map fst ms) \<Longrightarrow> distinct (map fst (members_set k v ms))"
  by (induction k v ms rule: members_set.induct) (auto simp: members_set_keys image_iff)

end
