(* ===== verification/Logic_Value.thy ===== *)
theory Logic_Value
  imports Json_Value
begin

text \<open>
  Four-state logic values, \<open>core/value/logic_value.cpp\<close>: the conversions between decimal, binary
  and hexadecimal digit strings, the values read from an FSDB database or written by a user, their
  width, knownness and canonical comparison key, and their JSON rendering.
\<close>

section \<open>Digit strings\<close>

definition clean_lower :: "string \<Rightarrow> string" where
  "clean_lower text = map c_tolower (filter (\<lambda>c. c \<noteq> CHR ''_'' \<and> \<not> c_isspace c) text)"

definition decimal_only :: "string \<Rightarrow> bool" where
  "decimal_only text \<longleftrightarrow> text \<noteq> [] \<and> list_all c_isdigit text"

text \<open>One pass of the long division by two: the quotient digits so far and the carry.\<close>

fun halve_digits :: "string \<Rightarrow> string \<Rightarrow> nat \<Rightarrow> string \<times> nat" where
  "halve_digits [] quot carry = (quot, carry)"
| "halve_digits (digit # ds) quot carry =
     (let v = carry * 10 + digit_value digit; q = v div 2
      in halve_digits ds (if quot \<noteq> [] \<or> q \<noteq> 0 then quot @ [digit_char q] else quot)
           (v mod 2))"

lemma halve_digits_value:
  "halve_digits ds q c = (q', c') \<Longrightarrow> c \<le> 1 \<Longrightarrow>
     2 * dec_value q' + c' = (2 * dec_value q + c) * 10 ^ length ds + dec_value ds \<and> c' \<le> 1"
proof (induction ds q c rule: halve_digits.induct)
  case (1 q c)
  then show ?case by simp
next
  case (2 d ds q c)
  define v where "v = c * 10 + digit_value d"
  define q1 where "q1 = (if q \<noteq> [] \<or> v div 2 \<noteq> 0 then q @ [digit_char (v div 2)] else q)"
  have bound: "v div 2 < 208" using 2(3) halve_bound by (simp add: v_def)
  have q1: "dec_value q1 = 10 * dec_value q + v div 2"
    using bound by (auto simp: q1_def dec_value_snoc digit_value_def)
  have "halve_digits ds q1 (v mod 2) = (q', c')"
    using 2(2) by (auto simp: v_def q1_def Let_def split: if_splits)
  then have "2 * dec_value q' + c' = (2 * dec_value q1 + v mod 2) * 10 ^ length ds + dec_value ds
      \<and> c' \<le> 1"
    unfolding q1_def by (rule 2(1) [OF v_def refl]) simp
  moreover have "2 * dec_value q1 + v mod 2 = (2 * dec_value q + c) * 10 + digit_value d"
    unfolding q1 by (simp add: v_def)
  ultimately have "2 * dec_value q' + c' =
      ((2 * dec_value q + c) * 10 + digit_value d) * 10 ^ length ds + dec_value ds \<and> c' \<le> 1"
    by (simp only:)
  then show ?case by (simp add: dec_value_Cons algebra_simps)
qed

lemma halve_digits_nonzero:
  "halve_digits ds q c = (q', c') \<Longrightarrow> c \<le> 1 \<Longrightarrow> q \<noteq> [] \<longrightarrow> 0 < dec_value q \<Longrightarrow>
     q' \<noteq> [] \<longrightarrow> 0 < dec_value q'"
proof (induction ds q c rule: halve_digits.induct)
  case (1 q c)
  then show ?case by simp
next
  case (2 d ds q c)
  define v where "v = c * 10 + digit_value d"
  define q1 where "q1 = (if q \<noteq> [] \<or> v div 2 \<noteq> 0 then q @ [digit_char (v div 2)] else q)"
  have "v div 2 < 208" using 2(3) halve_bound by (simp add: v_def)
  then have "q1 \<noteq> [] \<longrightarrow> 0 < dec_value q1"
    using 2(4) by (auto simp: q1_def dec_value_snoc digit_value_def)
  moreover have "halve_digits ds q1 (v mod 2) = (q', c')"
    using 2(2) by (auto simp: v_def q1_def Let_def split: if_splits)
  ultimately show ?case
    unfolding q1_def by (intro 2(1) [OF v_def refl]) simp_all
qed

function dec_bits_loop :: "string \<Rightarrow> string \<Rightarrow> string" where
  "dec_bits_loop clean bits =
     (if clean = ''0'' then bits
      else let (quot, carry) = halve_digits clean [] 0
           in dec_bits_loop (if quot = [] then ''0'' else quot)
                (bits @ [if carry \<noteq> 0 then CHR ''1'' else CHR ''0'']))"
  by pat_completeness auto

termination
proof (relation "measure (\<lambda>(clean, bits). if clean = ''0'' then 0 else Suc (dec_value clean))", goal_cases)
  case 1
  show ?case by simp
next
  case (2 clean bits p quot carry)
  then have "halve_digits clean [] 0 = (quot, carry)" by simp
  from halve_digits_value [OF this] halve_digits_nonzero [OF this]
  have "2 * dec_value quot + carry = dec_value clean" "quot \<noteq> [] \<longrightarrow> 0 < dec_value quot"
    by simp_all
  with 2 show ?case by auto
qed

declare dec_bits_loop.simps [simp del]

definition dec_to_bits :: "string \<Rightarrow> string" where
  "dec_to_bits text =
     (let clean = clean_lower text
      in if \<not> decimal_only clean then []
         else case str_index (\<lambda>c. c \<noteq> CHR ''0'') clean of
                None \<Rightarrow> ''0''
              | Some first \<Rightarrow> rev (dec_bits_loop (drop first clean) []))"

definition bin_to_bits :: "string \<Rightarrow> string" where
  "bin_to_bits text =
     (let out = clean_lower text
      in if \<not> list_all (\<lambda>c. c \<in> set ''01xz'') out then []
         else if out = [] then ''0'' else out)"

definition nibble_bits :: "nat \<Rightarrow> string" where
  "nibble_bits v = map (\<lambda>k. if odd (v div 2 ^ k) then CHR ''1'' else CHR ''0'') [3, 2, 1, 0]"

text \<open>The loop of \<open>hex_to_bits\<close> over the cleaned text; \<open>None\<close> is its early return.\<close>

fun hex_bits_loop :: "string \<Rightarrow> string \<Rightarrow> string option" where
  "hex_bits_loop [] out = Some out"
| "hex_bits_loop (c # cs) out =
     (if c = CHR ''x'' \<or> c = CHR ''z'' then hex_bits_loop cs (out @ replicate 4 c)
      else if c_isdigit c then hex_bits_loop cs (out @ nibble_bits (char_code c - 48))
      else if 97 \<le> char_code c \<and> char_code c \<le> 102
           then hex_bits_loop cs (out @ nibble_bits (10 + char_code c - 97))
      else None)"

definition hex_to_bits :: "string \<Rightarrow> string" where
  "hex_to_bits text =
     (case hex_bits_loop (clean_lower text) [] of
        None \<Rightarrow> [] | Some out \<Rightarrow> if out = [] then ''0'' else out)"

definition hex_char :: "nat \<Rightarrow> char" where
  "hex_char v = ''0123456789abcdef'' ! v"

definition nibble_hex :: "string \<Rightarrow> char" where
  "nibble_hex g =
     (if CHR ''x'' \<in> set g then CHR ''x''
      else if CHR ''z'' \<in> set g then CHR ''z''
      else hex_char (foldl (\<lambda>v c. v * 2 + bit_of c) 0 g))"

fun hex_groups :: "string \<Rightarrow> string" where
  "hex_groups (a # b # c # d # rest) = nibble_hex [a, b, c, d] # hex_groups rest"
| "hex_groups _ = []"

definition bits_to_hex :: "string \<Rightarrow> string" where
  "bits_to_hex bits0 =
     (let bits = clean_lower bits0
      in if bits = [] then ''0''
         else let out = hex_groups (replicate ((4 - length bits mod 4) mod 4) CHR ''0'' @ bits)
              in if out = [] then ''0'' else out)"

text \<open>Doubling a decimal number in place, from its last digit; the list is the reversed number.\<close>

fun double_digits :: "string \<Rightarrow> nat \<Rightarrow> string" where
  "double_digits [] carry = (if carry \<noteq> 0 then [digit_char carry] else [])"
| "double_digits (d # ds) carry =
     (let v = digit_value d * 2 + carry in digit_char (v mod 10) # double_digits ds (v div 10))"

definition bits_to_decimal :: "string \<Rightarrow> string" where
  "bits_to_decimal bits =
     strip_zeros
       (foldl (\<lambda>decimal b. rev (double_digits (rev decimal) (if b = CHR ''1'' then 1 else 0)))
          ''0'' bits)"

section \<open>Logic values\<close>

record logic_value =
  lv_raw :: string
  lv_display :: string
  lv_bits :: string
  lv_width :: int
  lv_width_reliable :: bool
  lv_known :: bool
  lv_has_x :: bool
  lv_has_z :: bool
  lv_valid :: bool
  lv_error :: string

datatype render_format = Hex | Bin | Dec

definition lv_default :: logic_value where
  "lv_default = \<lparr>lv_raw = [], lv_display = [], lv_bits = [], lv_width = 0,
     lv_width_reliable = False, lv_known = True, lv_has_x = False, lv_has_z = False,
     lv_valid = True, lv_error = []\<rparr>"

definition parse_value_render_format :: "string \<Rightarrow> render_format option" where
  "parse_value_render_format text =
     (let normalized = clean_lower text
      in if normalized = ''h'' \<or> normalized = ''hex'' then Some Hex
         else if normalized = ''b'' \<or> normalized = ''bin'' \<or> normalized = ''binary'' then Some Bin
         else if normalized = ''d'' \<or> normalized = ''dec'' \<or> normalized = ''decimal'' then Some Dec
         else None)"

fun value_render_format_text :: "render_format \<Rightarrow> string" where
  "value_render_format_text Hex = ''hex''"
| "value_render_format_text Bin = ''bin''"
| "value_render_format_text Dec = ''dec''"

definition sv_literal :: "logic_value \<Rightarrow> char \<Rightarrow> string \<Rightarrow> string" where
  "sv_literal v radix body =
     (if lv_width_reliable v \<and> lv_width v > 0 then dec_digits (nat (lv_width v)) else [])
       @ [CHR 0x27] @ [radix] @ body"

definition apply_width :: "logic_value \<Rightarrow> int \<Rightarrow> logic_value" where
  "apply_width v width_hint =
     (if width_hint \<le> 0 then v
      else let v1 = v\<lparr>lv_width := width_hint, lv_width_reliable := True\<rparr>; n = length (lv_bits v)
           in if lv_bits v = [] then v1
              else if int n < width_hint
              then v1\<lparr>lv_bits := replicate (nat width_hint - n) CHR ''0'' @ lv_bits v\<rparr>
              else if int n > width_hint
              then v1\<lparr>lv_bits := drop (n - nat width_hint) (lv_bits v)\<rparr>
              else v1)"

definition finalize :: "logic_value \<Rightarrow> string \<Rightarrow> logic_value" where
  "finalize v body =
     (let x = CHR ''x'' \<in> set (lv_bits v) \<or> CHR ''x'' \<in> set body;
          z = CHR ''z'' \<in> set (lv_bits v) \<or> CHR ''z'' \<in> set body;
          w = (if lv_width_reliable v \<and> lv_width v \<le> 0 \<and> lv_bits v \<noteq> []
               then int (length (lv_bits v)) else lv_width v);
          hex0 = (if lv_bits v = [] then clean_lower body else bits_to_hex (lv_bits v));
          hex = (if hex0 = [] then ''0'' else hex0)
      in v\<lparr>lv_has_x := x, lv_has_z := z, lv_known := \<not> x \<and> \<not> z, lv_width := w,
           lv_display := (if lv_width_reliable v \<and> w > 0
                          then dec_digits (nat w) @ [CHR 0x27] @ ''h'' @ hex
                          else [CHR 0x27] @ ''h'' @ hex)\<rparr>)"

definition invalid_literal :: "string \<Rightarrow> string \<Rightarrow> logic_value" where
  "invalid_literal raw err =
     lv_default\<lparr>lv_raw := raw, lv_valid := False, lv_known := False, lv_error := err\<rparr>"

text \<open>
  The scan over the members of an aggregate literal; the accumulators are \<open>member_has_bit\<close>,
  \<open>has_x\<close> and \<open>has_z\<close>.
\<close>

fun aggregate_loop :: "string \<Rightarrow> bool \<Rightarrow> bool \<Rightarrow> bool \<Rightarrow> (bool \<times> bool) option" where
  "aggregate_loop [] member x z = (if member then Some (x, z) else None)"
| "aggregate_loop (ch # cs) member x z =
     (let c = c_tolower ch
      in if c \<in> set ''01xz'' then aggregate_loop cs True (x \<or> c = CHR ''x'') (z \<or> c = CHR ''z'')
         else if c = CHR ''_'' \<or> c_isspace c then aggregate_loop cs member x z
         else if c = CHR '','' then (if \<not> member then None else aggregate_loop cs False x z)
         else None)"

definition parse_fsdb_binary_aggregate :: "string \<Rightarrow> (bool \<times> bool) option" where
  "parse_fsdb_binary_aggregate text =
     (let literal = str_trim text
      in case str_find (CHR 0x27) literal of
           None \<Rightarrow> None
         | Some tick \<Rightarrow>
             if tick + 3 \<ge> length literal then None
             else if \<not> list_all c_isdigit (take tick literal) then None
             else if c_tolower (literal ! (tick + 1)) \<noteq> CHR ''b'' then None
             else let body = str_trim (drop (tick + 2) literal)
                  in if length body < 3 \<or> hd body \<noteq> CHR ''{'' \<or> last body \<noteq> CHR ''}'' then None
                     else aggregate_loop (butlast (tl body)) False False False)"

definition fsdb_binary_aggregate :: "string \<Rightarrow> bool \<Rightarrow> bool \<Rightarrow> logic_value" where
  "fsdb_binary_aggregate raw x z =
     lv_default\<lparr>lv_raw := raw, lv_display := str_trim raw, lv_known := \<not> x \<and> \<not> z,
       lv_has_x := x, lv_has_z := z\<rparr>"

definition from_body :: "string \<Rightarrow> char \<Rightarrow> string \<Rightarrow> int \<Rightarrow> bool \<Rightarrow> logic_value" where
  "from_body raw radix body width_hint explicit_width =
     (let v = lv_default\<lparr>lv_raw := raw, lv_width := (if explicit_width then width_hint else 0),
                lv_width_reliable := explicit_width \<and> width_hint > 0\<rparr>;
          r = c_tolower radix;
          clean = clean_lower body
      in if r = CHR ''d'' \<and> (CHR ''x'' \<in> set clean \<or> CHR ''z'' \<in> set clean)
         then invalid_literal raw ''decimal logic literal cannot contain x or z''
         else
           let v1 = (if r = CHR ''b''
                     then let bs = bin_to_bits clean
                          in if \<not> lv_width_reliable v
                             then v\<lparr>lv_bits := bs, lv_width := int (length bs),
                                    lv_width_reliable := bs \<noteq> []\<rparr>
                             else v\<lparr>lv_bits := bs\<rparr>
                     else if r = CHR ''d'' then v\<lparr>lv_bits := dec_to_bits clean\<rparr>
                     else v\<lparr>lv_bits := hex_to_bits clean\<rparr>)
           in if lv_bits v1 = [] then invalid_literal raw (''invalid logic value literal: '' @ raw)
              else finalize (apply_width v1 width_hint) clean)"

definition has_c_hex_prefix :: "string \<Rightarrow> bool" where
  "has_c_hex_prefix text =
     (let s = str_trim text
      in length s > 2 \<and> s ! 0 = CHR ''0'' \<and> (s ! 1 = CHR ''x'' \<or> s ! 1 = CHR ''X''))"

definition value_format_invalid_message :: "string \<Rightarrow> string" where
  "value_format_invalid_message v =
     ''invalid value literal: '' @ v @
     ''; 0x prefix is not accepted in xdebug JSON requests; use SystemVerilog literal such as 32''
     @ [CHR 0x27] @ ''h22 or '' @ [CHR 0x27] @ ''h22''"

text \<open>The explicit width, the radix and the body of an FSDB literal.\<close>

definition fsdb_literal_parts :: "string \<Rightarrow> char \<Rightarrow> int \<times> char \<times> string" where
  "fsdb_literal_parts s radix =
     (let r = (if radix \<noteq> CHR 0x00 then radix else CHR ''h'')
      in case str_find (CHR 0x27) s of
           Some tick \<Rightarrow>
             if tick + 1 < length s
             then (if tick > 0 then c_atoi (take tick s) else 0, s ! (tick + 1), drop (tick + 2) s)
             else if has_c_hex_prefix s then (0, CHR ''h'', drop 2 s)
             else if length s > 2 \<and> s ! 0 = CHR ''0'' \<and> (s ! 1 = CHR ''b'' \<or> s ! 1 = CHR ''B'')
             then (0, CHR ''b'', drop 2 s) else (0, r, s)
         | None \<Rightarrow>
             if has_c_hex_prefix s then (0, CHR ''h'', drop 2 s)
             else if length s > 2 \<and> s ! 0 = CHR ''0'' \<and> (s ! 1 = CHR ''b'' \<or> s ! 1 = CHR ''B'')
             then (0, CHR ''b'', drop 2 s) else (0, r, s))"

definition logic_value_from_fsdb_raw :: "string \<Rightarrow> char \<Rightarrow> int \<Rightarrow> logic_value" where
  "logic_value_from_fsdb_raw raw radix width_hint =
     (let s = str_trim raw
      in if s = [] then invalid_literal raw ''empty logic value''
         else case parse_fsdb_binary_aggregate s of
                Some (x, z) \<Rightarrow> fsdb_binary_aggregate raw x z
              | None \<Rightarrow>
                  let (explicit_width, r, body) = fsdb_literal_parts s radix;
                      width = (if width_hint > 0 then width_hint else explicit_width);
                      v = from_body raw r body width (width > 0)
                  in if lv_valid v \<and> width \<le> 0
                     then v\<lparr>lv_width := 0, lv_width_reliable := False,
                            lv_display := [CHR 0x27] @ ''h'' @ bits_to_hex (lv_bits v)\<rparr>
                     else v)"

definition logic_value_from_bits :: "string \<Rightarrow> int \<Rightarrow> logic_value" where
  "logic_value_from_bits bits width_hint =
     (let bs = bin_to_bits bits;
          v = lv_default\<lparr>lv_raw := bits, lv_bits := bs\<rparr>
      in if bs = [] then invalid_literal bits ''invalid bit string''
         else let width = (if width_hint > 0 then width_hint else int (length bs));
                  v1 = apply_width v width
              in finalize v1 (lv_bits v1))"

definition user_literal_message :: "string \<Rightarrow> string" where
  "user_literal_message text =
     ''invalid value literal: '' @ text @ ''; use SystemVerilog literal such as 32'' @ [CHR 0x27]
       @ ''h22 or '' @ [CHR 0x27] @ ''h22''"

definition parse_user_logic_literal :: "string \<Rightarrow> logic_value" where
  "parse_user_logic_literal text =
     (let s = str_trim text;
          plain = (if \<not> decimal_only (clean_lower s)
                   then invalid_literal text (user_literal_message text)
                   else from_body text (CHR ''d'') s 0 False)
      in if s = [] then invalid_literal text ''empty value literal''
         else if has_c_hex_prefix s then invalid_literal text (value_format_invalid_message text)
         else case str_find (CHR 0x27) s of
                Some tick \<Rightarrow>
                  if tick + 1 < length s
                  then let width = (if tick > 0 then c_atoi (take tick s) else 0)
                       in from_body text (s ! (tick + 1)) (drop (tick + 2) s) width (width > 0)
                  else plain
              | None \<Rightarrow> plain)"

definition logic_value_compact_string :: "logic_value \<Rightarrow> string" where
  "logic_value_compact_string v = (if lv_display v = [] then str_trim (lv_raw v) else lv_display v)"

definition logic_value_compare_key :: "logic_value \<Rightarrow> string" where
  "logic_value_compare_key v =
     (if \<not> lv_valid v \<or> \<not> lv_known v then []
      else if lv_bits v = [] \<and> parse_fsdb_binary_aggregate (logic_value_compact_string v) \<noteq> None
      then []
      else strip_zeros
             (if lv_bits v = [] then logic_value_compact_string v else bits_to_hex (lv_bits v)))"

definition logic_value_has_xz :: "logic_value \<Rightarrow> bool" where
  "logic_value_has_xz v \<longleftrightarrow> \<not> lv_known v \<or> lv_has_x v \<or> lv_has_z v"

text \<open>The \<open>value\<close> member of the JSON rendering and, for a refused decimal, the members that say so.\<close>

definition rendered_value :: "logic_value \<Rightarrow> render_format \<Rightarrow> (string \<times> json) list" where
  "rendered_value v format =
     (let compact = logic_value_compact_string v;
          bin = sv_literal v (CHR ''b'') (if lv_bits v = [] then compact else lv_bits v)
      in if lv_valid v \<and> lv_bits v = [] \<and> parse_fsdb_binary_aggregate compact \<noteq> None
         then [(''value'', JString compact)]
         else if format = Bin then [(''value'', JString bin)]
         else if format = Dec \<and> lv_known v \<and> lv_bits v \<noteq> []
         then [(''value'', JString (sv_literal v (CHR ''d'') (bits_to_decimal (lv_bits v))))]
         else if format = Dec \<and> \<not> lv_known v
         then [(''value'', JString bin), (''requested_value_format'', JString ''dec''),
               (''effective_value_format'', JString ''bin''),
               (''value_format_reason'', JString ''decimal cannot preserve per-bit X/Z'')]
         else [(''value'', JString compact)])"

definition logic_value_json :: "logic_value \<Rightarrow> render_format \<Rightarrow> json" where
  "logic_value_json v format =
     JObject (rendered_value v format @ [(''known'', JBool (lv_known v))]
       @ (if lv_width_reliable v \<and> lv_width v > 0 then [(''width'', JInt (lv_width v))] else [])
       @ (if lv_width_reliable v \<and> lv_bits v \<noteq> [] then [(''bits'', JString (lv_bits v))] else [])
       @ (if \<not> lv_known v
          then [(''has_x'', JBool (lv_has_x v)), (''has_z'', JBool (lv_has_z v))] else []))"

definition render_logic_value :: "logic_value \<Rightarrow> render_format \<Rightarrow> string" where
  "render_logic_value v format =
     (case logic_value_json v format of
        JObject ms \<Rightarrow> (case map_of ms ''value'' of
                        Some (JString s) \<Rightarrow> s | _ \<Rightarrow> logic_value_compact_string v)
      | _ \<Rightarrow> logic_value_compact_string v)"

section \<open>Properties of the digit conversions\<close>

abbreviation binary :: "string \<Rightarrow> bool" where
  "binary s \<equiv> set s \<subseteq> {CHR ''0'', CHR ''1''}"

abbreviation four_state :: "string \<Rightarrow> bool" where
  "four_state s \<equiv> set s \<subseteq> {CHR ''0'', CHR ''1'', CHR ''x'', CHR ''z''}"

text \<open>A number without superfluous leading zeros.\<close>

definition canonical :: "string \<Rightarrow> bool" where
  "canonical s \<longleftrightarrow> s = ''0'' \<or> (s \<noteq> [] \<and> hd s \<noteq> CHR ''0'')"

lemma canonical_strip_zeros [simp]: "canonical (strip_zeros s)"
proof (cases "dropWhile (\<lambda>c. c = CHR ''0'') s = []")
  case True
  then show ?thesis by (simp add: strip_zeros_def canonical_def)
next
  case False
  then have "strip_zeros s = dropWhile (\<lambda>c. c = CHR ''0'') s"
    unfolding strip_zeros_def Let_def by (simp only: if_False)
  with False hd_dropWhile [OF False] show ?thesis by (simp add: canonical_def)
qed

lemma set_strip_zeros: "set (strip_zeros s) \<subseteq> insert CHR ''0'' (set s)"
  by (auto simp: strip_zeros_def Let_def dest: set_dropWhileD)

lemma canonical_strip_eq: "canonical s \<Longrightarrow> strip_zeros s = s"
  by (cases s) (auto simp: canonical_def strip_zeros_def)

lemma bits_value_ge: "s \<noteq> [] \<Longrightarrow> hd s = CHR ''1'' \<Longrightarrow> 2 ^ (length s - 1) \<le> bits_value s"
  by (cases s) (simp_all add: bits_value_Cons)

lemma canonical_bits_length:
  assumes "binary s" "binary t" "canonical s" "canonical t" "bits_value s = bits_value t"
  shows "length s = length t"
proof -
  have le: "length u \<le> length v"
    if "binary u" "canonical u" "bits_value u = bits_value v" "v \<noteq> []" for u v :: string
  proof (cases "u = ''0''")
    case True
    with that(4) show ?thesis by (cases v) simp_all
  next
    case False
    with that(1,2) have u: "u \<noteq> []" "hd u = CHR ''1''"
      by (auto simp: canonical_def dest: hd_in_set)
    from bits_value_ge [OF this] bits_value_less [of v] that(3)
    have "(2::nat) ^ (length u - 1) < 2 ^ length v" by linarith
    then have "length u - 1 < length v" by (rule power_less_imp_less_exp [rotated]) simp
    then show ?thesis by simp
  qed
  from assms have "s \<noteq> []" "t \<noteq> []" by (auto simp: canonical_def)
  then show ?thesis using assms le [of s t] le [of t s] by simp
qed

lemma bits_value_inj:
  "length s = length t \<Longrightarrow> binary s \<Longrightarrow> binary t \<Longrightarrow> bits_value s = bits_value t \<Longrightarrow> s = t"
proof (induction s t rule: list_induct2)
  case Nil
  show ?case ..
next
  case (Cons c s d t)
  from Cons.hyps bits_value_less [of s] bits_value_less [of t] Cons.prems(3)
  have "bit_of c = bit_of d"
    by (auto simp: bits_value_Cons bit_of_def split: if_splits)
  moreover from this Cons have "c = d" by (auto simp: bit_of_def split: if_splits)
  ultimately show ?case using Cons by (simp add: bits_value_Cons)
qed

lemma canonical_bits_unique:
  "binary s \<Longrightarrow> binary t \<Longrightarrow> canonical s \<Longrightarrow> canonical t \<Longrightarrow> bits_value s = bits_value t \<Longrightarrow> s = t"
  using bits_value_inj canonical_bits_length by blast

lemma dec_bits_loop_done: "dec_bits_loop ''0'' bits = bits"
  by (simp add: dec_bits_loop.simps)

lemma dec_bits_loop_step:
  "clean \<noteq> ''0'' \<Longrightarrow> halve_digits clean [] 0 = (q, c) \<Longrightarrow>
     dec_bits_loop clean bits = dec_bits_loop (if q = [] then ''0'' else q)
       (bits @ [if c \<noteq> 0 then CHR ''1'' else CHR ''0''])"
  by (subst dec_bits_loop.simps) simp

lemma dec_bits_loop_value:
  "bits_value (rev (dec_bits_loop clean bits))
     = dec_value clean * 2 ^ length bits + bits_value (rev bits)"
proof (induction clean bits rule: dec_bits_loop.induct)
  case (1 clean bits)
  show ?case
  proof (cases "clean = ''0''")
    case True
    then show ?thesis by (simp add: dec_bits_loop_done dec_value_Cons)
  next
    case False
    obtain q c where h: "halve_digits clean [] 0 = (q, c)" by fastforce
    define bits' where "bits' = bits @ [if c \<noteq> 0 then CHR ''1'' else CHR ''0'']"
    define q' where "q' = (if q = [] then ''0'' else q)"
    have eq: "2 * dec_value q + c = dec_value clean" and "c \<le> 1"
      using halve_digits_value [OF h] by simp_all
    have "dec_value q' = dec_value q" by (simp add: q'_def dec_value_Cons)
    moreover have "bits_value (rev bits') = c * 2 ^ length bits + bits_value (rev bits)"
      using \<open>c \<le> 1\<close> by (auto simp: bits'_def bits_value_Cons)
    moreover have "bits_value (rev (dec_bits_loop q' bits'))
        = dec_value q' * 2 ^ length bits' + bits_value (rev bits')"
      using "1.IH" [OF False h [symmetric] refl] by (simp add: q'_def bits'_def)
    moreover have "dec_bits_loop clean bits = dec_bits_loop q' bits'"
      using dec_bits_loop_step [OF False h] by (simp add: q'_def bits'_def)
    moreover have "length bits' = Suc (length bits)" by (simp add: bits'_def)
    ultimately have "bits_value (rev (dec_bits_loop clean bits))
        = (2 * dec_value q + c) * 2 ^ length bits + bits_value (rev bits)"
      by (simp add: algebra_simps)
    then show ?thesis unfolding eq .
  qed
qed

lemma dec_bits_loop_binary: "binary bits \<Longrightarrow> binary (dec_bits_loop clean bits)"
proof (induction clean bits rule: dec_bits_loop.induct)
  case (1 clean bits)
  show ?case
  proof (cases "clean = ''0''")
    case True
    with 1 show ?thesis by (simp add: dec_bits_loop_done)
  next
    case False
    obtain q c where h: "halve_digits clean [] 0 = (q, c)" by fastforce
    have "binary (bits @ [if c \<noteq> 0 then CHR ''1'' else CHR ''0''])" using "1.prems" by simp
    from "1.IH" [OF False h [symmetric] refl this] show ?thesis
      unfolding dec_bits_loop_step [OF False h] .
  qed
qed

lemma dec_bits_loop_canonical:
  "clean \<noteq> ''0'' \<Longrightarrow> 0 < dec_value clean \<Longrightarrow>
     last (dec_bits_loop clean bits) = CHR ''1'' \<and> dec_bits_loop clean bits \<noteq> []"
proof (induction clean bits rule: dec_bits_loop.induct)
  case (1 clean bits)
  obtain q c where h: "halve_digits clean [] 0 = (q, c)" by fastforce
  have eq: "2 * dec_value q + c = dec_value clean" and "c \<le> 1"
    using halve_digits_value [OF h] by simp_all
  show ?case
  proof (cases "dec_value q = 0")
    case True
    with halve_digits_nonzero [OF h] have "q = []" by auto
    with True eq "1.prems" have "c \<noteq> 0" by simp
    with \<open>q = []\<close> show ?thesis
      by (simp add: dec_bits_loop_step [OF "1.prems"(1) h] dec_bits_loop_done)
  next
    case False
    then have "q \<noteq> []" "q \<noteq> ''0''" by (auto simp: dec_value_Cons)
    with "1.IH" [OF "1.prems"(1) h [symmetric] refl] False
    show ?thesis by (simp add: dec_bits_loop_step [OF "1.prems"(1) h])
  qed
qed

lemma dec_value_drop_zeros:
  "str_index (\<lambda>c. c \<noteq> CHR ''0'') s = Some k \<Longrightarrow> dec_value (drop k s) = dec_value s"
  by (induction s arbitrary: k) (auto simp: dec_value_Cons split: if_splits)

lemma dec_value_pos: "list_all c_isdigit s \<Longrightarrow> s \<noteq> [] \<Longrightarrow> hd s \<noteq> CHR ''0'' \<Longrightarrow> 0 < dec_value s"
  by (cases s) (auto simp: dec_value_Cons digit_value_eq_0 zero_less_iff_neq_zero)

lemma dec_value_all_zeros: "\<forall>c\<in>set s. c = CHR ''0'' \<Longrightarrow> dec_value s = 0"
  by (induction s) (auto simp: dec_value_Cons)

text \<open>
  The decimal to binary conversion is exact at any length: the bits have the value of the digits,
  they are binary, and they carry no leading zero.
\<close>

lemma dec_to_bits_correct:
  assumes "decimal_only (clean_lower s)"
  shows "bits_value (dec_to_bits s) = dec_value (clean_lower s)"
    and "binary (dec_to_bits s)" and "canonical (dec_to_bits s)"
proof -
  let ?c = "clean_lower s"
  have digits: "list_all c_isdigit ?c" "?c \<noteq> []" using assms by (auto simp: decimal_only_def)
  have "bits_value (dec_to_bits s) = dec_value ?c \<and> binary (dec_to_bits s)
     \<and> canonical (dec_to_bits s)"
  proof (cases "str_index (\<lambda>c. c \<noteq> CHR ''0'') ?c")
    case None
    then have all: "\<forall>c\<in>set ?c. c = CHR ''0''" by (simp add: str_index_None)
    have eq: "dec_to_bits s = ''0''" using assms None by (simp add: dec_to_bits_def)
    show ?thesis by (simp add: eq dec_value_all_zeros [OF all] canonical_def bits_value_Cons)
  next
    case (Some k)
    let ?d = "drop k ?c"
    from str_index_Some [OF Some] have k: "k < length ?c" "?c ! k \<noteq> CHR ''0''" by auto
    then have d: "hd ?d \<noteq> CHR ''0''" "?d \<noteq> []" by (simp_all add: hd_drop_conv_nth)
    then have d0: "?d \<noteq> ''0''" by (metis list.sel(1))
    have pos: "0 < dec_value ?d"
      using digits(1) d by (intro dec_value_pos) (simp_all add: list_all_iff in_set_dropD)
    have eq: "dec_to_bits s = rev (dec_bits_loop ?d [])"
      using assms Some by (simp add: dec_to_bits_def)
    from dec_bits_loop_canonical [OF d0 pos, of "[]"]
    have "canonical (dec_to_bits s)" by (simp add: eq canonical_def hd_rev)
    with dec_bits_loop_value [of ?d "[]"] dec_bits_loop_binary [of "[]" ?d]
    show ?thesis by (simp add: eq dec_value_drop_zeros [OF Some])
  qed
  then show "bits_value (dec_to_bits s) = dec_value ?c" "binary (dec_to_bits s)"
    "canonical (dec_to_bits s)" by simp_all
qed

lemma double_digits_value:
  "list_all c_isdigit ds \<Longrightarrow> c \<le> 1 \<Longrightarrow>
     dec_value (rev (double_digits ds c)) = 2 * dec_value (rev ds) + c
     \<and> list_all c_isdigit (double_digits ds c)"
proof (induction ds c rule: double_digits.induct)
  case (1 carry)
  then show ?case by (auto simp: dec_value_Cons)
next
  case (2 d ds carry)
  define v where "v = digit_value d * 2 + carry"
  have "v \<le> 19" using 2 digit_value_less [of d] by (simp add: v_def)
  then have "v div 10 \<le> 1" by linarith
  with 2 have IH: "dec_value (rev (double_digits ds (v div 10))) = 2 * dec_value (rev ds) + v div 10"
    "list_all c_isdigit (double_digits ds (v div 10))"
    by (simp_all add: v_def Let_def)
  have eq: "double_digits (d # ds) carry = digit_char (v mod 10) # double_digits ds (v div 10)"
    by (simp add: v_def Let_def)
  have "10 * (v div 10) + v mod 10 = digit_value d * 2 + carry" by (simp add: v_def)
  then show ?case unfolding eq using IH by (simp add: dec_value_snoc)
qed

lemma bits_to_decimal_fold:
  "list_all c_isdigit d0 \<Longrightarrow>
     (let d = foldl (\<lambda>d b. rev (double_digits (rev d) (if b = CHR ''1'' then 1 else 0))) d0 bits
      in list_all c_isdigit d \<and> dec_value d = dec_value d0 * 2 ^ length bits + bits_value bits)"
proof (induction bits arbitrary: d0)
  case Nil
  then show ?case by simp
next
  case (Cons b bits)
  let ?d1 = "rev (double_digits (rev d0) (if b = CHR ''1'' then 1 else 0))"
  have "list_all c_isdigit (rev d0)" using Cons.prems by simp
  from double_digits_value [OF this, of "if b = CHR ''1'' then 1 else 0"]
  have d1: "list_all c_isdigit ?d1" "dec_value ?d1 = 2 * dec_value d0 + bit_of b"
    by (simp_all add: bit_of_def)
  from Cons.IH [OF d1(1)] show ?case
    unfolding foldl.simps d1(2) by (simp add: Let_def bits_value_Cons algebra_simps)
qed

text \<open>The binary to decimal conversion is its exact inverse.\<close>

lemma bits_to_decimal_correct:
  "dec_value (bits_to_decimal bits) = bits_value bits"
  "list_all c_isdigit (bits_to_decimal bits)"
  "canonical (bits_to_decimal bits)"
proof -
  let ?d = "foldl (\<lambda>d b. rev (double_digits (rev d) (if b = CHR ''1'' then 1 else 0))) ''0'' bits"
  have d: "list_all c_isdigit ?d" "dec_value ?d = bits_value bits"
    using bits_to_decimal_fold [of "''0''" bits] by (simp_all add: Let_def dec_value_Cons)
  then show "dec_value (bits_to_decimal bits) = bits_value bits"
    "canonical (bits_to_decimal bits)"
    by (simp_all add: bits_to_decimal_def)
  show "list_all c_isdigit (bits_to_decimal bits)"
    using d(1) set_strip_zeros [of ?d] by (auto simp: bits_to_decimal_def list_all_iff)
qed

lemma length_nibble_bits [simp]: "length (nibble_bits v) = 4"
  by (simp add: nibble_bits_def)

lemma binary_nibble_bits: "binary (nibble_bits v)"
  by (auto simp: nibble_bits_def)

lemma hex_bits_loop_append:
  "hex_bits_loop cs out = map_option ((@) out) (hex_bits_loop cs [])"
proof (induction cs arbitrary: out)
  case Nil
  show ?case by simp
next
  case (Cons c cs)
  have step: "hex_bits_loop cs (o1 @ o2) = map_option ((@) o1) (hex_bits_loop cs o2)" for o1 o2
    by (subst (1 2) Cons.IH) (cases "hex_bits_loop cs []"; simp)
  show ?case
    using step [of out] by simp
qed

lemma hex_bits_loop_four_state:
  "hex_bits_loop cs out = Some r \<Longrightarrow> four_state out \<Longrightarrow> four_state r"
proof (induction cs arbitrary: out)
  case Nil
  then show ?case by simp
next
  case (Cons c cs)
  have nib: "four_state (out @ nibble_bits n)" for n
    using Cons.prems(2) binary_nibble_bits [of n] by auto
  consider "c = CHR ''x'' \<or> c = CHR ''z''" | n where "hex_bits_loop cs (out @ nibble_bits n) = Some r"
    using Cons.prems(1) by (auto split: if_splits)
  then show ?case
  proof cases
    case 1
    with Cons.prems have "hex_bits_loop cs (out @ replicate 4 c) = Some r"
      "four_state (out @ replicate 4 c)" by auto
    then show ?thesis by (rule Cons.IH)
  next
    case 2
    then show ?thesis using nib by (rule Cons.IH)
  qed
qed

lemma hex_bits_loop_length:
  "hex_bits_loop cs out = Some r \<Longrightarrow> length r = length out + 4 * length cs"
  by (induction cs out rule: hex_bits_loop.induct) (auto split: if_splits)

lemma hex_to_bits_four_state: "four_state (hex_to_bits s)"
proof (cases "hex_bits_loop (clean_lower s) []")
  case None
  then show ?thesis by (simp add: hex_to_bits_def)
next
  case (Some r)
  from hex_bits_loop_four_state [OF Some] show ?thesis by (simp add: hex_to_bits_def Some)
qed

lemma bin_to_bits_four_state: "four_state (bin_to_bits s)"
  by (auto simp: bin_to_bits_def Let_def list_all_iff)

lemma dec_to_bits_binary: "binary (dec_to_bits s)"
proof (cases "decimal_only (clean_lower s)")
  case True
  then show ?thesis by (rule dec_to_bits_correct)
next
  case False
  then show ?thesis by (simp add: dec_to_bits_def)
qed

section \<open>Width and knownness\<close>

text \<open>The bits after a width has been applied: zero extension or truncation at the left.\<close>

definition fit_bits :: "int \<Rightarrow> string \<Rightarrow> string" where
  "fit_bits w bits =
     (if w \<le> 0 \<or> bits = [] then bits
      else replicate (nat w - length bits) CHR ''0'' @ drop (length bits - nat w) bits)"

lemma lv_bits_apply_width: "lv_bits (apply_width v w) = fit_bits w (lv_bits v)"
  by (auto simp: apply_width_def fit_bits_def Let_def)

lemma apply_width_fields [simp]:
  "lv_raw (apply_width v w) = lv_raw v" "lv_valid (apply_width v w) = lv_valid v"
  "lv_error (apply_width v w) = lv_error v" "lv_known (apply_width v w) = lv_known v"
  by (simp_all add: apply_width_def Let_def)

lemma lv_width_apply_width: "lv_width (apply_width v w) = (if w > 0 then w else lv_width v)"
  by (simp add: apply_width_def Let_def)

lemma lv_reliable_apply_width:
  "lv_width_reliable (apply_width v w) = (w > 0 \<or> lv_width_reliable v)"
  by (simp add: apply_width_def Let_def)

lemma length_fit_bits: "w > 0 \<Longrightarrow> bits \<noteq> [] \<Longrightarrow> length (fit_bits w bits) = nat w"
  by (simp add: fit_bits_def)

lemma set_fit_bits: "set (fit_bits w bits) \<subseteq> insert CHR ''0'' (set bits)"
  by (auto simp: fit_bits_def dest: in_set_dropD)

lemma fit_bits_Nil [simp]: "fit_bits w bits = [] \<longleftrightarrow> bits = []"
  by (auto simp: fit_bits_def)

lemma bits_value_drop: "bits_value (drop k s) = bits_value s mod 2 ^ (length s - k)"
proof -
  have "bits_value s = bits_value (take k s) * 2 ^ length (drop k s) + bits_value (drop k s)"
    using bits_value_append [of "take k s" "drop k s"] by simp
  moreover have "bits_value (drop k s) < 2 ^ length (drop k s)" by (rule bits_value_less)
  ultimately show ?thesis by simp
qed

lemma bits_value_fit_bits:
  "w > 0 \<Longrightarrow> bits \<noteq> [] \<Longrightarrow> bits_value (fit_bits w bits) = bits_value bits mod 2 ^ nat w"
proof -
  assume a: "w > 0" "bits \<noteq> []"
  have "bits_value bits < 2 ^ nat w" if "length bits \<le> nat w"
    using bits_value_less [of bits] power_increasing [OF that, of "2::nat"] by linarith
  then show ?thesis using a
    by (cases "length bits \<le> nat w") (simp_all add: fit_bits_def bits_value_drop)
qed

lemma finalize_fields [simp]:
  "lv_raw (finalize v b) = lv_raw v" "lv_bits (finalize v b) = lv_bits v"
  "lv_valid (finalize v b) = lv_valid v" "lv_error (finalize v b) = lv_error v"
  "lv_width_reliable (finalize v b) = lv_width_reliable v"
  by (simp_all add: finalize_def Let_def)

lemma finalize_known:
  "lv_has_x (finalize v b) = (CHR ''x'' \<in> set (lv_bits v) \<or> CHR ''x'' \<in> set b)"
  "lv_has_z (finalize v b) = (CHR ''z'' \<in> set (lv_bits v) \<or> CHR ''z'' \<in> set b)"
  "lv_known (finalize v b) = (\<not> lv_has_x (finalize v b) \<and> \<not> lv_has_z (finalize v b))"
  by (simp_all add: finalize_def Let_def)

lemma finalize_width: "0 < lv_width v \<Longrightarrow> lv_width (finalize v b) = lv_width v"
  by (simp add: finalize_def Let_def)

lemmas lv_frame = lv_bits_apply_width lv_width_apply_width lv_reliable_apply_width finalize_known

text \<open>
  The invariant of a logic value: an invalid value carries no bits and is not known; a valid one
  has four-state bits, is known exactly when neither flag is set, flags every x and z it holds,
  and a reliable width is the number of its bits.
\<close>

definition lv_wf :: "logic_value \<Rightarrow> bool" where
  "lv_wf v \<longleftrightarrow>
     (if lv_valid v
      then four_state (lv_bits v) \<and> (lv_known v \<longleftrightarrow> \<not> lv_has_x v \<and> \<not> lv_has_z v)
         \<and> (CHR ''x'' \<in> set (lv_bits v) \<longrightarrow> lv_has_x v)
         \<and> (CHR ''z'' \<in> set (lv_bits v) \<longrightarrow> lv_has_z v)
         \<and> (lv_width_reliable v \<longrightarrow> lv_bits v \<noteq> [] \<and> lv_width v = int (length (lv_bits v)))
      else \<not> lv_known v \<and> lv_bits v = [] \<and> lv_error v \<noteq> [])"

lemma lv_wf_invalid: "err \<noteq> [] \<Longrightarrow> lv_wf (invalid_literal raw err)"
  by (simp add: lv_wf_def invalid_literal_def lv_default_def)

lemma lv_wf_aggregate: "lv_wf (fsdb_binary_aggregate raw x z)"
  by (auto simp: lv_wf_def fsdb_binary_aggregate_def lv_default_def)

lemma lv_wf_finalize:
  assumes "four_state (lv_bits v)" "lv_valid v"
    and "lv_width_reliable v \<longrightarrow> lv_bits v \<noteq> [] \<and> lv_width v = int (length (lv_bits v))"
  shows "lv_wf (finalize v b)"
proof -
  have "lv_width (finalize v b) = lv_width v" if "lv_width_reliable v"
    using that assms(3) by (intro finalize_width) simp
  then show ?thesis using assms by (simp add: lv_wf_def finalize_known)
qed

lemma lv_wf_sized:
  assumes "four_state (lv_bits v)" "lv_valid v" "lv_bits v \<noteq> []"
    and "lv_width_reliable v \<longrightarrow> w > 0 \<or> lv_width v = int (length (lv_bits v))"
  shows "lv_wf (finalize (apply_width v w) b)"
proof (rule lv_wf_finalize)
  show "four_state (lv_bits (apply_width v w))"
    using assms(1) set_fit_bits [of w "lv_bits v"] by (auto simp: lv_bits_apply_width)
  show "lv_valid (apply_width v w)" using assms(2) by simp
  show "lv_width_reliable (apply_width v w) \<longrightarrow> lv_bits (apply_width v w) \<noteq> []
      \<and> lv_width (apply_width v w) = int (length (lv_bits (apply_width v w)))"
    using assms(3,4) length_fit_bits [of w "lv_bits v"]
    by (cases "w > 0") (auto simp: lv_frame fit_bits_def)
qed

text \<open>The bits \<open>from_body\<close> reads before a width is applied.\<close>

definition body_bits :: "char \<Rightarrow> string \<Rightarrow> string" where
  "body_bits radix body =
     (let r = c_tolower radix; clean = clean_lower body
      in if r = CHR ''b'' then bin_to_bits clean
         else if r = CHR ''d'' then dec_to_bits clean else hex_to_bits clean)"

lemma body_bits_four_state: "four_state (body_bits r b)"
proof -
  have "four_state (dec_to_bits c)" for c using dec_to_bits_binary [of c] by blast
  then show ?thesis
    using bin_to_bits_four_state hex_to_bits_four_state by (simp add: body_bits_def Let_def)
qed

text \<open>The value \<open>from_body\<close> has built when it applies the width.\<close>

definition body_value :: "string \<Rightarrow> char \<Rightarrow> string \<Rightarrow> int \<Rightarrow> bool \<Rightarrow> logic_value" where
  "body_value raw r b w e =
     (let v = lv_default\<lparr>lv_raw := raw, lv_width := (if e then w else 0),
                lv_width_reliable := e \<and> w > 0, lv_bits := body_bits r b\<rparr>
      in if c_tolower r = CHR ''b'' \<and> \<not> (e \<and> w > 0)
         then v\<lparr>lv_width := int (length (body_bits r b)), lv_width_reliable := body_bits r b \<noteq> []\<rparr>
         else v)"

lemma from_body_eq:
  "from_body raw r b w e =
     (if c_tolower r = CHR ''d'' \<and> (CHR ''x'' \<in> set (clean_lower b) \<or> CHR ''z'' \<in> set (clean_lower b))
      then invalid_literal raw ''decimal logic literal cannot contain x or z''
      else if body_bits r b = [] then invalid_literal raw (''invalid logic value literal: '' @ raw)
      else finalize (apply_width (body_value raw r b w e) w) (clean_lower b))"
proof -
  consider "c_tolower r = CHR ''b''" | "c_tolower r = CHR ''d''"
    | "c_tolower r \<noteq> CHR ''b''" "c_tolower r \<noteq> CHR ''d''" by blast
  then show ?thesis
    by cases (simp_all add: from_body_def body_value_def body_bits_def Let_def lv_default_def)
qed

lemma body_value_fields [simp]:
  "lv_bits (body_value raw r b w e) = body_bits r b" "lv_valid (body_value raw r b w e)"
  "lv_raw (body_value raw r b w e) = raw"
  by (simp_all add: body_value_def lv_default_def Let_def)

lemma body_value_width:
  "lv_width_reliable (body_value raw r b w e) \<Longrightarrow> \<not> (e \<and> w > 0) \<Longrightarrow>
     lv_width (body_value raw r b w e) = int (length (body_bits r b))"
  by (auto simp: body_value_def lv_default_def Let_def split: if_splits)

lemma lv_wf_from_body:
  assumes "e = (w > 0)"
  shows "lv_wf (from_body raw r b w e)"
  unfolding from_body_eq
  using body_bits_four_state [of r b] body_value_width [of raw r b w e] assms
  by (auto simp: lv_wf_invalid intro!: lv_wf_sized)

lemma lv_wf_fsdb_raw: "lv_wf (logic_value_from_fsdb_raw raw radix hint)"
proof -
  have unsized: "lv_wf (v\<lparr>lv_width := 0, lv_width_reliable := False, lv_display := d\<rparr>)"
    if "lv_wf v" "lv_valid v" for v :: logic_value and d
    using that by (simp add: lv_wf_def)
  show ?thesis
    unfolding logic_value_from_fsdb_raw_def Let_def
    by (auto simp: lv_wf_invalid lv_wf_aggregate
        split: option.split prod.split intro!: unsized lv_wf_from_body)
qed

lemma lv_wf_from_bits: "lv_wf (logic_value_from_bits bits hint)"
proof (cases "bin_to_bits bits = []")
  case True
  then show ?thesis by (simp add: logic_value_from_bits_def lv_wf_invalid)
next
  case False
  let ?v = "lv_default\<lparr>lv_raw := bits, lv_bits := bin_to_bits bits\<rparr>"
  let ?w = "if hint > 0 then hint else int (length (bin_to_bits bits))"
  have "lv_wf (finalize (apply_width ?v ?w) (lv_bits (apply_width ?v ?w)))"
    using bin_to_bits_four_state [of bits] False by (intro lv_wf_sized) (simp_all add: lv_default_def)
  with False show ?thesis by (simp add: logic_value_from_bits_def Let_def)
qed

lemma lv_wf_user: "lv_wf (parse_user_logic_literal text)"
proof -
  have msg: "user_literal_message text \<noteq> []" "value_format_invalid_message text \<noteq> []"
    by (simp_all add: user_literal_message_def value_format_invalid_message_def)
  show ?thesis
    unfolding parse_user_logic_literal_def Let_def
    by (auto simp: lv_wf_invalid msg split: option.split intro!: lv_wf_from_body)
qed

section \<open>Hexadecimal text\<close>

lemma base_value_strip_zeros [simp]:
  assumes "f CHR ''0'' = 0"
  shows "base_value B f (strip_zeros s) = base_value B f s"
proof -
  have drop: "base_value B f (dropWhile (\<lambda>c. c = CHR ''0'') s) = base_value B f s"
    by (induction s) (simp_all add: base_value_Cons assms)
  show ?thesis
  proof (cases "dropWhile (\<lambda>c. c = CHR ''0'') s = []")
    case True
    with drop show ?thesis by (simp add: strip_zeros_def base_value_Cons assms)
  next
    case False
    then have "strip_zeros s = dropWhile (\<lambda>c. c = CHR ''0'') s"
      unfolding strip_zeros_def Let_def by (simp only: if_False)
    with drop show ?thesis by simp
  qed
qed

lemma base_canonical_unique:
  assumes "1 < B" and f: "\<forall>c\<in>set s \<union> set t. f c < B" "inj_on f (insert CHR ''0'' (set s \<union> set t))"
    and z: "f CHR ''0'' = 0"
    and "canonical s" "canonical t" "base_value B f s = base_value B f t"
  shows "s = t"
proof -
  have len: "length u \<le> length v"
    if "canonical u" "canonical v" "base_value B f u = base_value B f v" "\<forall>c\<in>set v. f c < B"
      "set u \<subseteq> set s \<union> set t" for u v
  proof (cases "u = ''0''")
    case True
    with that(2) show ?thesis by (cases v) (auto simp: canonical_def)
  next
    case False
    with that(1) have u: "u \<noteq> []" "hd u \<noteq> CHR ''0''" by (auto simp: canonical_def)
    with that(5) have "hd u \<in> set s \<union> set t" by (auto dest: hd_in_set)
    with u f(2) z have "f (hd u) \<noteq> 0" by (metis inj_onD insertCI)
    from base_value_length_le [OF assms(1) that(4) u(1) this that(3)] show ?thesis .
  qed
  have "length s = length t" using len [of s t] len [of t s] assms by simp
  moreover have "inj_on f (set s \<union> set t)" using f(2) by (rule inj_on_subset) auto
  ultimately show ?thesis using f(1) assms(7) base_value_inj by blast
qed

definition hex_alphabet :: "char set" where
  "hex_alphabet = set ''0123456789abcdef''"

lemma base_digit_hex: "\<forall>c\<in>hex_alphabet. base_digit c < 16"
  by (simp add: hex_alphabet_def base_digit_def char_simps)

lemma inj_base_digit_hex: "inj_on base_digit hex_alphabet"
  by (simp add: hex_alphabet_def base_digit_def char_simps inj_on_def)

lemma base_digit_0 [simp]: "base_digit CHR ''0'' = 0"
  by (simp add: base_digit_def char_simps)

lemma nibble_hex_value:
  "binary [a, b, c, d] \<Longrightarrow>
     base_digit (nibble_hex [a, b, c, d]) = 8 * bit_of a + 4 * bit_of b + 2 * bit_of c + bit_of d
     \<and> nibble_hex [a, b, c, d] \<in> hex_alphabet"
proof -
  assume "binary [a, b, c, d]"
  then have "a = CHR ''0'' \<or> a = CHR ''1''" "b = CHR ''0'' \<or> b = CHR ''1''"
    "c = CHR ''0'' \<or> c = CHR ''1''" "d = CHR ''0'' \<or> d = CHR ''1''" by auto
  then show ?thesis by (elim disjE; hypsubst; code_simp)
qed

lemma hex_groups_value:
  "binary p \<Longrightarrow> length p mod 4 = 0 \<Longrightarrow>
     base_value 16 base_digit (hex_groups p) = bits_value p \<and> set (hex_groups p) \<subseteq> hex_alphabet
     \<and> length (hex_groups p) = length p div 4"
proof (induction p rule: hex_groups.induct)
  case (1 a b c d rest)
  have rest: "binary rest" "length rest mod 4 = 0" using 1 by auto
  have "(16::nat) ^ (length rest div 4) = 2 ^ length rest"
    using rest(2) by (auto simp: power_mult [symmetric] mod_eq_0_iff_dvd dvd_def
        power_mult [of 2 4, simplified])
  moreover have "binary [a, b, c, d]" using 1 by auto
  note nibble_hex_value [OF this]
  ultimately show ?case using "1.IH" [OF rest]
    by (simp add: base_value_Cons bits_value_Cons algebra_simps)
qed (simp_all)

lemma c_tolower_four_state: "c \<in> {CHR ''0'', CHR ''1'', CHR ''x'', CHR ''z''} \<Longrightarrow> c_tolower c = c"
  by (auto simp: char_simps)

lemma clean_lower_four_state: "four_state s \<Longrightarrow> clean_lower s = s"
proof -
  assume s: "four_state s"
  then have "filter (\<lambda>c. c \<noteq> CHR ''_'' \<and> \<not> c_isspace c) s = s"
    by (auto simp: filter_id_conv char_simps)
  moreover have "map c_tolower s = s" using s c_tolower_four_state by (intro map_idI) blast
  ultimately show ?thesis by (simp add: clean_lower_def)
qed

text \<open>The hexadecimal text of binary digits has their value.\<close>

lemma bits_to_hex_value:
  assumes "binary b" "b \<noteq> []"
  shows "base_value 16 base_digit (bits_to_hex b) = bits_value b"
    and "set (bits_to_hex b) \<subseteq> hex_alphabet"
proof -
  let ?p = "replicate ((4 - length b mod 4) mod 4) CHR ''0'' @ b"
  have "((4 - n mod 4) mod 4 + n) mod 4 = 0" for n :: nat
  proof -
    have "n mod 4 = 0 \<or> n mod 4 = 1 \<or> n mod 4 = 2 \<or> n mod 4 = 3" by linarith
    then show ?thesis by (elim disjE; simp; presburger)
  qed
  from this [of "length b"] have len: "length ?p mod 4 = 0" by (simp only: length_append length_replicate)
  have "set (replicate n CHR ''0'') \<subseteq> {CHR ''0''}" for n by auto
  with assms(1) have "binary ?p" by (simp only: set_append) blast
  note p = this len
  have "0 < length ?p" using assms(2) by simp
  then have "length ?p div 4 \<noteq> 0" using p(2) by (metis add_0 div_mult_mod_eq mult_0 nat_less_le)
  moreover have "length (hex_groups ?p) = length ?p div 4" using hex_groups_value [OF p] by simp
  ultimately have ne: "hex_groups ?p \<noteq> []" by (metis length_0_conv)
  have "four_state b" using assms(1) by auto
  then have eq: "bits_to_hex b = hex_groups ?p"
    using ne assms(2) by (simp add: bits_to_hex_def clean_lower_four_state Let_def)
  show "base_value 16 base_digit (bits_to_hex b) = bits_value b"
    "set (bits_to_hex b) \<subseteq> hex_alphabet"
    unfolding eq using hex_groups_value [OF p] by simp_all
qed

lemma known_binary: "lv_wf v \<Longrightarrow> lv_valid v \<Longrightarrow> lv_known v \<Longrightarrow> binary (lv_bits v)"
  by (auto simp: lv_wf_def)

lemma compare_key_eq:
  assumes "lv_valid v" "lv_known v" "lv_bits v \<noteq> []"
  shows "logic_value_compare_key v = strip_zeros (bits_to_hex (lv_bits v))"
  using assms by (simp add: logic_value_compare_key_def)

lemma hex_key_unique:
  assumes "binary b" "b \<noteq> []" "binary c" "c \<noteq> []"
  shows "strip_zeros (bits_to_hex b) = strip_zeros (bits_to_hex c) \<longleftrightarrow> bits_value b = bits_value c"
    (is "?k = ?l \<longleftrightarrow> _")
proof -
  have k: "base_value 16 base_digit ?k = bits_value b" "base_value 16 base_digit ?l = bits_value c"
    using bits_to_hex_value(1) assms by simp_all
  have z: "CHR ''0'' \<in> hex_alphabet" by (simp add: hex_alphabet_def)
  have sub: "set ?k \<union> set ?l \<subseteq> hex_alphabet"
    using set_strip_zeros [of "bits_to_hex b"] set_strip_zeros [of "bits_to_hex c"]
      bits_to_hex_value(2) assms z by blast
  show ?thesis
  proof
    assume "?k = ?l"
    then show "bits_value b = bits_value c" using k by simp
  next
    assume "bits_value b = bits_value c"
    then show "?k = ?l"
      using k sub z base_digit_hex inj_on_subset [OF inj_base_digit_hex, of "insert CHR ''0'' (set ?k \<union> set ?l)"]
      by (intro base_canonical_unique [of 16 ?k ?l base_digit]) auto
  qed
qed

section \<open>Properties\<close>

text \<open>
  C1: converting binary digits to decimal text and back is exact at any width: it gives the same
  number again, with its leading zeros removed.
\<close>

theorem decimal_binary_roundtrip:
  assumes "set b \<subseteq> {CHR ''0'', CHR ''1''}" "b \<noteq> []"
  shows "dec_to_bits (bits_to_decimal b) = strip_zeros b"
proof -
  let ?d = "bits_to_decimal b"
  have digits: "list_all c_isdigit ?d" and val: "dec_value ?d = bits_value b"
    and "canonical ?d" using bits_to_decimal_correct by simp_all
  have "clean_lower ?d = ?d"
  proof -
    have f: "filter (\<lambda>c. c \<noteq> CHR ''_'' \<and> \<not> c_isspace c) ?d = ?d"
      using digits by (auto simp: filter_id_conv list_all_iff char_simps)
    have "map c_tolower ?d = ?d"
      using digits by (intro map_idI) (auto simp: list_all_iff char_simps)
    with f show ?thesis by (simp add: clean_lower_def)
  qed
  moreover have "?d \<noteq> []" using \<open>canonical ?d\<close> by (auto simp: canonical_def)
  ultimately have "decimal_only (clean_lower ?d)" using digits by (simp add: decimal_only_def)
  from dec_to_bits_correct [OF this] \<open>clean_lower ?d = ?d\<close> val
  have "bits_value (dec_to_bits ?d) = bits_value (strip_zeros b)" "binary (dec_to_bits ?d)"
    "canonical (dec_to_bits ?d)" by simp_all
  moreover have "binary (strip_zeros b)" using set_strip_zeros [of b] assms(1) by auto
  ultimately show ?thesis by (intro canonical_bits_unique) simp_all
qed

theorem decimal_binary_roundtrip_witness:
  "dec_to_bits (bits_to_decimal ''0011010'') = ''11010''"
proof -
  have "dec_to_bits (bits_to_decimal ''0011010'') = strip_zeros ''0011010''"
    by (rule decimal_binary_roundtrip) simp_all
  also have "\<dots> = ''11010''" by code_simp
  finally show ?thesis .
qed

text \<open>
  C2: every logic value the program builds, from an FSDB text, from a bit string or from a user
  literal, satisfies the invariant of logic values: an invalid one carries an error and no bits;
  a valid one has four-state bits, is known exactly when it is flagged neither x nor z, flags every
  x and z it holds, and where its width is reliable the width is the number of its bits.
\<close>

theorem logic_values_well_formed:
  "lv_wf (logic_value_from_fsdb_raw raw radix hint) \<and> lv_wf (logic_value_from_bits bits hint')
     \<and> lv_wf (parse_user_logic_literal literal)"
  by (simp add: lv_wf_fsdb_raw lv_wf_from_bits lv_wf_user)

text \<open>
  C3: the comparison key is canonical: two known scalar values have the same key exactly when they
  are the same number, whatever their widths.
\<close>

theorem compare_key_numeric:
  assumes "lv_wf u" "lv_wf v" "lv_valid u" "lv_valid v" "lv_known u" "lv_known v"
    and "lv_bits u \<noteq> []" "lv_bits v \<noteq> []"
  shows "logic_value_compare_key u = logic_value_compare_key v
     \<longleftrightarrow> bits_value (lv_bits u) = bits_value (lv_bits v)"
  using hex_key_unique [of "lv_bits u" "lv_bits v"] known_binary [of u] known_binary [of v] assms
  by (simp add: compare_key_eq)

theorem compare_key_numeric_witness:
  "logic_value_compare_key (logic_value_from_bits ''0101'' 0)
     = logic_value_compare_key (logic_value_from_bits ''101'' 8)"
proof -
  have "logic_value_compare_key (logic_value_from_bits ''0101'' 0)
     = logic_value_compare_key (logic_value_from_bits ''101'' 8)
     \<longleftrightarrow> bits_value (lv_bits (logic_value_from_bits ''0101'' 0))
        = bits_value (lv_bits (logic_value_from_bits ''101'' 8))"
    by (rule compare_key_numeric; (rule lv_wf_from_bits | code_simp))
  then show ?thesis by code_simp
qed

text \<open>
  C4: a literal with a declared width has exactly that width: the bits read are extended with
  zeros or cut at the left, so a known literal's value is reduced modulo the width's power of two.
\<close>

theorem declared_width_truncates:
  assumes "w > 0" "lv_valid (from_body raw r body w True)"
  shows "length (lv_bits (from_body raw r body w True)) = nat w
     \<and> lv_width (from_body raw r body w True) = w \<and> lv_width_reliable (from_body raw r body w True)
     \<and> bits_value (lv_bits (from_body raw r body w True)) = bits_value (body_bits r body) mod 2 ^ nat w"
proof -
  have nv: "\<not> lv_valid (invalid_literal raw e)" for e by (simp add: invalid_literal_def lv_default_def)
  with assms(2) have eq: "from_body raw r body w True
      = finalize (apply_width (body_value raw r body w True) w) (clean_lower body)"
    and ne: "body_bits r body \<noteq> []" by (auto simp: from_body_eq split: if_splits)
  have "lv_width (apply_width (body_value raw r body w True) w) = w"
    using assms(1) by (simp add: lv_width_apply_width)
  with assms(1) finalize_width [of "apply_width (body_value raw r body w True) w"] ne
  show ?thesis by (simp add: eq lv_bits_apply_width length_fit_bits bits_value_fit_bits lv_reliable_apply_width)
qed

theorem declared_width_truncates_witness:
  "bits_value (lv_bits (from_body ''x'' (CHR ''h'') ''1ff'' 8 True)) = 255"
proof -
  have "bits_value (lv_bits (from_body ''x'' (CHR ''h'') ''1ff'' 8 True))
     = bits_value (body_bits (CHR ''h'') ''1ff'') mod 2 ^ nat 8"
    using declared_width_truncates [of 8 "''x''" "CHR ''h''" "''1ff''"] by code_simp
  also have "\<dots> = 255" by code_simp
  finally show ?thesis .
qed

end
