(* ===== verification/Value_Filter.thy ===== *)
theory Value_Filter
  imports Logic_Value
begin

text \<open>
  Value filters, \<open>waveform/filter/value_filter.cpp\<close>, and reset levels,
  \<open>waveform/common/reset_config.cpp\<close>: parsing a filter from its JSON description, matching a
  four-state value against it with the verdicts no, yes and unresolved, and the conjunction of
  verdicts.  The interface \<open>verdict_conj\<close> states the laws of such a conjunction; the loops that
  stop at the first refusal rest on it.
\<close>

section \<open>Verdicts and their conjunction\<close>

datatype filter_match = No | Yes | Unresolved

fun value_filter_and :: "filter_match \<Rightarrow> filter_match \<Rightarrow> filter_match" where
  "value_filter_and lhs rhs =
     (if lhs = No \<or> rhs = No then No
      else if lhs = Unresolved \<or> rhs = Unresolved then Unresolved else Yes)"

text \<open>
  The verdicts are ordered by how much they accept; the conjunction is the minimum of the order.
\<close>

fun match_rank :: "filter_match \<Rightarrow> nat" where
  "match_rank No = 0"
| "match_rank Unresolved = 1"
| "match_rank Yes = 2"

instantiation filter_match :: linorder
begin
definition "x \<le> (y :: filter_match) \<longleftrightarrow> match_rank x \<le> match_rank y"
definition "x < (y :: filter_match) \<longleftrightarrow> match_rank x < match_rank y"
instance
proof
  fix x y z :: filter_match
  show "(x < y) = (x \<le> y \<and> \<not> y \<le> x)"
    by (auto simp: less_eq_filter_match_def less_filter_match_def)
  show "x \<le> x" by (simp add: less_eq_filter_match_def)
  show "x \<le> y \<Longrightarrow> y \<le> z \<Longrightarrow> x \<le> z" by (simp add: less_eq_filter_match_def)
  show "x \<le> y \<Longrightarrow> y \<le> x \<Longrightarrow> x = y"
    by (cases x; cases y) (simp_all add: less_eq_filter_match_def)
  show "x \<le> y \<or> y \<le> x" by (auto simp: less_eq_filter_match_def)
qed
end

lemma value_filter_and_min: "value_filter_and a b = min a b"
  by (cases a; cases b) (simp_all add: min_def less_eq_filter_match_def)

text \<open>A loop that combines verdicts and returns as soon as the result is the refusing one.\<close>

fun verdict_loop :: "('v \<Rightarrow> 'v \<Rightarrow> 'v) \<Rightarrow> 'v \<Rightarrow> 'v \<Rightarrow> 'v list \<Rightarrow> 'v" where
  "verdict_loop combine refuse acc [] = acc"
| "verdict_loop combine refuse acc (r # rs) =
     (let c = combine acc r in if c = refuse then c else verdict_loop combine refuse c rs)"

locale verdict_conj =
  fixes combine :: "'v \<Rightarrow> 'v \<Rightarrow> 'v"
    and accept :: 'v
    and refuse :: 'v
  assumes conj_assoc: "combine (combine a b) c = combine a (combine b c)"
    and conj_comm: "combine a b = combine b a"
    and conj_accept: "combine accept a = a"
    and conj_refuse: "combine refuse a = refuse"
begin

lemma foldl_refuse: "foldl combine refuse rs = refuse"
  by (induction rs) (simp_all add: conj_refuse)

lemma verdict_loop_foldl: "verdict_loop combine refuse acc rs = foldl combine acc rs"
  by (induction rs arbitrary: acc) (simp_all add: Let_def foldl_refuse)

lemma foldl_conj: "foldl combine (combine a b) rs = combine a (foldl combine b rs)"
  by (induction rs arbitrary: b) (simp_all add: conj_assoc)

lemma foldl_Cons: "foldl combine acc (r # rs) = combine r (foldl combine acc rs)"
  using foldl_conj [of r acc rs] by (simp add: conj_comm)

lemma foldl_in_refuse: "refuse \<in> set rs \<Longrightarrow> foldl combine acc rs = refuse"
  by (induction rs arbitrary: acc) (auto simp: conj_comm [of _ refuse] conj_refuse foldl_refuse)

lemma foldl_accept: "\<forall>r\<in>set rs. r = accept \<Longrightarrow> foldl combine accept rs = accept"
  by (induction rs) (simp_all add: conj_accept)

lemma foldl_remove1:
  "r \<in> set rs \<Longrightarrow> foldl combine acc rs = combine r (foldl combine acc (remove1 r rs))"
proof (induction rs)
  case Nil
  then show ?case by simp
next
  case (Cons x rs)
  show ?case
  proof (cases "x = r")
    case True
    then have "remove1 r (x # rs) = rs" by simp
    with True show ?thesis by (simp only: foldl_Cons)
  next
    case False
    with Cons have "foldl combine acc rs = combine r (foldl combine acc (remove1 r rs))" by simp
    then have "foldl combine acc (x # rs) = combine x (combine r (foldl combine acc (remove1 r rs)))"
      by (simp only: foldl_Cons)
    also have "\<dots> = combine r (combine x (foldl combine acc (remove1 r rs)))"
      by (metis conj_assoc conj_comm)
    also have "\<dots> = combine r (foldl combine acc (x # remove1 r rs))" by (simp only: foldl_Cons)
    also have "x # remove1 r rs = remove1 r (x # rs)" using False by simp
    finally show ?thesis .
  qed
qed

end

interpretation filter_conj: verdict_conj value_filter_and Yes No
proof
  fix a b c :: filter_match
  show "value_filter_and (value_filter_and a b) c = value_filter_and a (value_filter_and b c)"
    by (simp add: value_filter_and_min min.assoc del: value_filter_and.simps)
  show "value_filter_and a b = value_filter_and b a"
    by (simp add: value_filter_and_min min.commute del: value_filter_and.simps)
  show "value_filter_and Yes a = a" "value_filter_and No a = No" by (cases a; simp)+
qed

section \<open>Filters\<close>

datatype filter_mode = Exact | Range | Mask

record value_filter =
  vf_mode :: filter_mode
  vf_values :: "string list"
  vf_begin :: string
  vf_end :: string
  vf_value :: string
  vf_mask :: string

record filter_parse_options =
  max_bits :: nat
  require_nonzero_mask :: bool

record value_filter_error =
  invalid_arg :: string
  message :: string
  expected :: string

text \<open>A parse fails with an error of its own, or with the exception of the JSON library where a
  member has another type than the code reads it with.\<close>

datatype filter_failure = FilterError value_filter_error | JsonTypeError

definition vf_default :: value_filter where
  "vf_default = \<lparr>vf_mode = Exact, vf_values = [], vf_begin = [], vf_end = [], vf_value = [],
     vf_mask = []\<rparr>"

definition filter_error :: "string \<Rightarrow> string \<Rightarrow> string \<Rightarrow> filter_failure + 'a" where
  "filter_error arg msg expect =
     Inl (FilterError \<lparr>invalid_arg = arg, message = msg, expected = expect\<rparr>)"

definition trim_unsigned_bits :: "string \<Rightarrow> string" where
  "trim_unsigned_bits bits = strip_zeros bits"

text \<open>\<open>spec.value(key, std::string())\<close>.\<close>

fun json_string_member :: "json \<Rightarrow> string \<Rightarrow> filter_failure + string" where
  "json_string_member (JObject ms) key =
     (case map_of ms key of
        None \<Rightarrow> Inr []
      | Some (JString s) \<Rightarrow> Inr s
      | Some _ \<Rightarrow> Inl JsonTypeError)"
| "json_string_member _ key = Inl JsonTypeError"

definition parse_filter_literal ::
  "string \<Rightarrow> string \<Rightarrow> filter_parse_options \<Rightarrow> filter_failure + string" where
  "parse_filter_literal text path options =
     (let v = parse_user_logic_literal text; kind = ''known integer, hexadecimal, or SystemVerilog literal''
      in if \<not> lv_valid v then filter_error path (lv_error v) kind
         else if logic_value_has_xz v
         then filter_error path (''value literal must not contain X/Z: '' @ text) kind
         else if max_bits options > 0 \<and> length (lv_bits v) > max_bits options
         then filter_error path
                (''value literal must be at most '' @ dec_digits (max_bits options) @ '' bits: '' @ text)
                (''known literal up to '' @ dec_digits (max_bits options) @ '' bits'')
         else Inr (lv_bits v))"

definition mask_is_zero :: "string \<Rightarrow> bool" where
  "mask_is_zero bits \<longleftrightarrow> CHR ''1'' \<notin> set bits"

text \<open>\<open>compare_unsigned_filter_bits\<close>: -1, 0 or 1.\<close>

definition compare_unsigned_filter_bits :: "string \<Rightarrow> string \<Rightarrow> int" where
  "compare_unsigned_filter_bits lhs rhs =
     (let a = trim_unsigned_bits lhs; b = trim_unsigned_bits rhs
      in if length a \<noteq> length b then (if length a < length b then - 1 else 1)
         else if a = b then 0
         else if a < b then - 1 else 1)"

text \<open>The loop over the values of an exact filter, with the values kept and the numbers seen.\<close>

fun exact_loop ::
  "json list \<Rightarrow> nat \<Rightarrow> string \<Rightarrow> filter_parse_options \<Rightarrow> string list \<Rightarrow> string list
     \<Rightarrow> filter_failure + string list" where
  "exact_loop [] index path options seen out = Inr out"
| "exact_loop (JString text # js) index path options seen out =
     (case parse_filter_literal text (path @ ''.values['' @ dec_digits index @ '']'') options of
        Inl e \<Rightarrow> Inl e
      | Inr bits \<Rightarrow>
          let normalized = trim_unsigned_bits bits
          in if normalized \<in> set seen
             then filter_error (path @ ''.values'')
                    ''values must remain unique after numeric normalization''
                    ''non-empty queue of numerically distinct known literals''
             else exact_loop js (Suc index) path options (normalized # seen) (out @ [bits]))"
| "exact_loop (_ # js) index path options seen out = Inl JsonTypeError"

definition parse_exact_filter :: "json \<Rightarrow> string \<Rightarrow> filter_parse_options \<Rightarrow> filter_failure + value_filter" where
  "parse_exact_filter spec path options =
     (let refused = filter_error (path @ ''.values'') ''exact filter requires a non-empty values queue''
                      ''non-empty queue of numerically distinct known literals''
      in case spec of
           JObject ms \<Rightarrow>
             (case map_of ms ''values'' of
                Some (JArray (j # js)) \<Rightarrow>
                  (case exact_loop (j # js) 0 path options [] [] of
                     Inl e \<Rightarrow> Inl e
                   | Inr vs \<Rightarrow> Inr (vf_default\<lparr>vf_mode := Exact, vf_values := vs\<rparr>))
              | _ \<Rightarrow> refused)
         | _ \<Rightarrow> Inl JsonTypeError)"

definition literal_member ::
  "json \<Rightarrow> string \<Rightarrow> string \<Rightarrow> filter_parse_options \<Rightarrow> filter_failure + string" where
  "literal_member spec key path options =
     (case json_string_member spec key of
        Inl e \<Rightarrow> Inl e
      | Inr text \<Rightarrow> parse_filter_literal text (path @ ''.'' @ key) options)"

definition parse_range_filter :: "json \<Rightarrow> string \<Rightarrow> filter_parse_options \<Rightarrow> filter_failure + value_filter" where
  "parse_range_filter spec path options =
     (case literal_member spec ''begin'' path options of
        Inl e \<Rightarrow> Inl e
      | Inr b \<Rightarrow>
          (case literal_member spec ''end'' path options of
             Inl e \<Rightarrow> Inl e
           | Inr e \<Rightarrow>
               if compare_unsigned_filter_bits b e > 0
               then filter_error (path @ ''.end'') ''range begin must not exceed end''
                      ''inclusive range with begin <= end''
               else Inr (vf_default\<lparr>vf_mode := Range, vf_begin := b, vf_end := e\<rparr>)))"

definition parse_mask_filter :: "json \<Rightarrow> string \<Rightarrow> filter_parse_options \<Rightarrow> filter_failure + value_filter" where
  "parse_mask_filter spec path options =
     (case literal_member spec ''value'' path options of
        Inl e \<Rightarrow> Inl e
      | Inr v \<Rightarrow>
          (case literal_member spec ''mask'' path options of
             Inl e \<Rightarrow> Inl e
           | Inr m \<Rightarrow>
               if require_nonzero_mask options \<and> mask_is_zero m
               then filter_error (path @ ''.mask'') ''mask must be non-zero'' ''non-zero mask''
               else Inr (vf_default\<lparr>vf_mode := Mask, vf_value := v, vf_mask := m\<rparr>)))"

definition parse_value_filter :: "json \<Rightarrow> string \<Rightarrow> filter_parse_options \<Rightarrow> filter_failure + value_filter" where
  "parse_value_filter spec path options =
     (case json_string_member spec ''mode'' of
        Inl e \<Rightarrow> Inl e
      | Inr mode \<Rightarrow>
          if mode = ''exact'' then parse_exact_filter spec path options
          else if mode = ''range'' then parse_range_filter spec path options
          else if mode = ''mask'' then parse_mask_filter spec path options
          else filter_error (path @ ''.mode'') ''filter mode must be exact, range, or mask''
                 ''one of exact, range, or mask'')"

text \<open>The bit at an offset from the least significant end, zero beyond the text.\<close>

definition from_lsb :: "nat \<Rightarrow> string \<Rightarrow> char" where
  "from_lsb offset bits =
     (if offset < length bits then bits ! (length bits - 1 - offset) else CHR ''0'')"

fun mask_loop :: "nat list \<Rightarrow> string \<Rightarrow> string \<Rightarrow> string \<Rightarrow> filter_match" where
  "mask_loop [] bits value msk = Yes"
| "mask_loop (k # ks) bits value msk =
     (if from_lsb k msk \<noteq> CHR ''1'' then mask_loop ks bits value msk
      else let actual = from_lsb k bits
           in if actual \<noteq> CHR ''0'' \<and> actual \<noteq> CHR ''1'' then Unresolved
              else if actual \<noteq> from_lsb k value then No
              else mask_loop ks bits value msk)"

definition match_value_filter :: "value_filter \<Rightarrow> logic_value \<Rightarrow> filter_match" where
  "match_value_filter f v =
     (if vf_mode f = Mask
      then mask_loop [0..<max (length (lv_bits v)) (max (length (vf_value f)) (length (vf_mask f)))]
             (lv_bits v) (vf_value f) (vf_mask f)
      else if \<not> lv_valid v \<or> logic_value_has_xz v then Unresolved
      else if vf_mode f = Exact
      then (if list_ex (\<lambda>e. compare_unsigned_filter_bits (lv_bits v) e = 0) (vf_values f)
            then Yes else No)
      else if compare_unsigned_filter_bits (lv_bits v) (vf_begin f) \<ge> 0
              \<and> compare_unsigned_filter_bits (lv_bits v) (vf_end f) \<le> 0
      then Yes else No)"

definition filter_bits_to_uint64 :: "string \<Rightarrow> nat option" where
  "filter_bits_to_uint64 bits =
     (if length bits > 64 \<or> (\<exists>c\<in>set bits. c \<notin> set ''01'') then None
      else Some (foldl (\<lambda>out b. (2 * out) mod 2 ^ 64 + (if b = CHR ''1'' then 1 else 0)) 0 bits))"

section \<open>Reset levels\<close>

datatype reset_polarity = ActiveLow | ActiveHigh

record reset_config =
  reset_signal :: string
  reset_polarity :: reset_polarity

text \<open>The scan of a level; \<open>None\<close> is the early return at an x or z digit.\<close>

fun level_bits :: "string \<Rightarrow> string option" where
  "level_bits [] = Some []"
| "level_bits (c # cs) =
     (if c = CHR ''0'' \<or> c = CHR ''1'' then map_option ((#) c) (level_bits cs)
      else if c \<in> set ''xXzZ'' then None else level_bits cs)"

definition known_level :: "string \<Rightarrow> bool option" where
  "known_level raw_value =
     (let payload = (case str_find (CHR 0x27) raw_value of
                       None \<Rightarrow> raw_value | Some q \<Rightarrow> drop (q + 1) raw_value)
      in case level_bits payload of
           None \<Rightarrow> None
         | Some bits \<Rightarrow> if length bits \<noteq> 1 then None else Some (bits = ''1''))"

definition reset_is_active :: "reset_config \<Rightarrow> string \<Rightarrow> bool" where
  "reset_is_active config raw_value =
     (case known_level raw_value of
        None \<Rightarrow> True
      | Some high \<Rightarrow> if reset_polarity config = ActiveHigh then high else \<not> high)"

definition parse_reset_config :: "json \<Rightarrow> string + reset_config" where
  "parse_reset_config v =
     (case v of
        JObject ms \<Rightarrow>
          (case (length ms, map_of ms ''signal'', map_of ms ''polarity'') of
             (n, Some (JString signal), Some (JString polarity)) \<Rightarrow>
               if n \<noteq> 2 \<or> signal = [] then Inl ''reset requires exactly non-empty signal and polarity''
               else if polarity = ''active_low''
               then Inr \<lparr>reset_signal = signal, reset_polarity = ActiveLow\<rparr>
               else if polarity = ''active_high''
               then Inr \<lparr>reset_signal = signal, reset_polarity = ActiveHigh\<rparr>
               else Inl ''reset.polarity must be active_low or active_high''
           | _ \<Rightarrow> Inl ''reset requires exactly non-empty signal and polarity'')
      | _ \<Rightarrow> Inl ''reset must be an object with signal and polarity'')"

definition reset_config_json :: "reset_config \<Rightarrow> json" where
  "reset_config_json c =
     JObject [(''signal'', JString (reset_signal c)),
              (''polarity'', JString (if reset_polarity c = ActiveLow
                                      then ''active_low'' else ''active_high''))]"

section \<open>Numeric meaning of the comparisons\<close>

lemma canonical_length_less:
  assumes "binary s" "binary t" "canonical s" "canonical t" "length s < length t"
  shows "bits_value s < bits_value t"
proof -
  have "t \<noteq> ''0''" "t \<noteq> []" using assms by (auto simp: canonical_def)
  with assms(2,4) have "hd t = CHR ''1''" by (auto simp: canonical_def dest: hd_in_set)
  with \<open>t \<noteq> []\<close> have "2 ^ (length t - 1) \<le> bits_value t" by (intro bits_value_ge)
  moreover have "(2::nat) ^ length s \<le> 2 ^ (length t - 1)" using assms(5) by (intro power_increasing) auto
  ultimately show ?thesis using bits_value_less [of s] by linarith
qed

lemma binary_lex_value:
  "length s = length t \<Longrightarrow> binary s \<Longrightarrow> binary t \<Longrightarrow> s < t \<longleftrightarrow> bits_value s < bits_value t"
proof (induction s t rule: list_induct2)
  case Nil
  show ?case by simp
next
  case (Cons c s d t)
  have b: "bits_value s < 2 ^ length t" "bits_value t < 2 ^ length t"
    using bits_value_less [of s] bits_value_less [of t] Cons.hyps by simp_all
  have "c = CHR ''0'' \<or> c = CHR ''1''" "d = CHR ''0'' \<or> d = CHR ''1''" using Cons.prems by auto
  moreover have "CHR ''0'' < CHR ''1''" "\<not> CHR ''1'' < CHR ''0''" by (simp_all add: less_char_def)
  ultimately show ?case using Cons b by (auto simp: bits_value_Cons)
qed

lemma binary_strip_zeros: "binary s \<Longrightarrow> binary (strip_zeros s)"
  using set_strip_zeros [of s] by auto

text \<open>The comparison of filters is the comparison of the numbers.\<close>

lemma compare_unsigned_numeric:
  assumes "binary s" "binary t"
  shows "compare_unsigned_filter_bits s t
     = (if bits_value s < bits_value t then - 1 else if bits_value s = bits_value t then 0 else 1)"
proof -
  let ?a = "strip_zeros s" and ?b = "strip_zeros t"
  have c: "binary ?a" "binary ?b" "canonical ?a" "canonical ?b"
    using assms binary_strip_zeros by simp_all
  have v: "bits_value ?a = bits_value s" "bits_value ?b = bits_value t" by simp_all
  consider "length ?a < length ?b" | "length ?b < length ?a" | "length ?a = length ?b" by linarith
  then show ?thesis
  proof cases
    case 1
    with canonical_length_less [OF c] show ?thesis
      by (simp add: compare_unsigned_filter_bits_def trim_unsigned_bits_def Let_def)
  next
    case 2
    with canonical_length_less [OF c(2,1,4,3)] show ?thesis
      by (simp add: compare_unsigned_filter_bits_def trim_unsigned_bits_def Let_def)
  next
    case 3
    have "?a = ?b \<longleftrightarrow> bits_value s = bits_value t"
      using bits_value_inj [OF 3 c(1,2)] v by metis
    moreover have "?a < ?b \<longleftrightarrow> bits_value s < bits_value t"
      using binary_lex_value [OF 3 c(1,2)] v by simp
    ultimately show ?thesis using 3
      by (simp add: compare_unsigned_filter_bits_def trim_unsigned_bits_def Let_def)
  qed
qed

lemma from_lsb_snoc: "from_lsb k (s @ [c]) = (case k of 0 \<Rightarrow> c | Suc j \<Rightarrow> from_lsb j s)"
proof (cases k)
  case 0
  then show ?thesis by (simp add: from_lsb_def)
next
  case (Suc j)
  then show ?thesis by (auto simp: from_lsb_def nth_append Suc_diff_Suc)
qed

lemma bit_bits_value: "bit (bits_value s) k \<longleftrightarrow> from_lsb k s = CHR ''1''"
proof (induction s arbitrary: k rule: rev_induct)
  case Nil
  show ?case by (simp add: from_lsb_def)
next
  case (snoc c s)
  show ?case
  proof (cases k)
    case 0
    then show ?thesis by (simp add: bits_value_snoc from_lsb_snoc bit_0 bit_of_def)
  next
    case (Suc j)
    have "(2 * bits_value s + bit_of c) div 2 = bits_value s" using bit_of_le [of c] by linarith
    with Suc snoc.IH [of j] show ?thesis by (simp add: bits_value_snoc from_lsb_snoc bit_Suc)
  qed
qed

lemma from_lsb_binary: "binary s \<Longrightarrow> from_lsb k s = CHR ''0'' \<or> from_lsb k s = CHR ''1''"
  unfolding from_lsb_def using nth_mem [of "length s - 1 - k" s] by force

lemma mask_loop_known:
  "binary bits \<Longrightarrow> binary val \<Longrightarrow>
     mask_loop ks bits val m =
       (if \<forall>k\<in>set ks. bit (bits_value m) k \<longrightarrow> (bit (bits_value bits) k \<longleftrightarrow> bit (bits_value val) k)
        then Yes else No)"
proof (induction ks)
  case Nil
  show ?case by simp
next
  case (Cons k ks)
  have "from_lsb k bits = CHR ''0'' \<or> from_lsb k bits = CHR ''1''"
    "from_lsb k val = CHR ''0'' \<or> from_lsb k val = CHR ''1''"
    using Cons.prems from_lsb_binary by blast+
  with Cons show ?case by (auto simp: bit_bits_value Let_def)
qed

text \<open>Where a parse succeeds the literal is known and within the bit limit.\<close>

lemma parse_filter_literal_ok:
  assumes "parse_filter_literal t path opt = Inr bits"
  shows "binary bits" "bits \<noteq> []" "max_bits opt = 0 \<or> length bits \<le> max_bits opt"
proof -
  let ?v = "parse_user_logic_literal t"
  from assms have v: "lv_valid ?v" "\<not> logic_value_has_xz ?v" "bits = lv_bits ?v"
    "max_bits opt = 0 \<or> length bits \<le> max_bits opt"
    by (auto simp: parse_filter_literal_def filter_error_def Let_def split: if_splits)
  then show "max_bits opt = 0 \<or> length bits \<le> max_bits opt" by simp
  show "binary bits"
    using known_binary [OF lv_wf_user v(1)] v(2,3) by (simp add: logic_value_has_xz_def)
  have ne: "lv_valid (from_body t r b w e) \<Longrightarrow> lv_bits (from_body t r b w e) \<noteq> []" for r b w e
    by (auto simp: from_body_eq lv_bits_apply_width invalid_literal_def lv_default_def
        split: if_splits)
  show "bits \<noteq> []"
    using v(1) ne unfolding v(3)
    by (auto simp: parse_user_logic_literal_def Let_def invalid_literal_def lv_default_def
        split: option.splits if_splits)
qed

lemma exact_loop_ok:
  "exact_loop js i path opt seen out = Inr vs \<Longrightarrow>
     set seen = strip_zeros ` set out \<Longrightarrow> distinct (map strip_zeros out) \<Longrightarrow>
     (\<forall>v\<in>set out. binary v \<and> v \<noteq> [] \<and> (max_bits opt = 0 \<or> length v \<le> max_bits opt)) \<Longrightarrow>
     (\<forall>v\<in>set vs. binary v \<and> v \<noteq> [] \<and> (max_bits opt = 0 \<or> length v \<le> max_bits opt))
     \<and> distinct (map strip_zeros vs) \<and> length vs = length out + length js"
proof (induction js i path opt seen out rule: exact_loop.induct)
  case (2 t js i path opt seen out)
  then obtain bits where bits: "parse_filter_literal t (path @ ''.values['' @ dec_digits i @ '']'') opt = Inr bits"
    by (auto split: sum.splits)
  with 2(2) have new: "strip_zeros bits \<notin> set seen"
    and rest: "exact_loop js (Suc i) path opt (strip_zeros bits # seen) (out @ [bits]) = Inr vs"
    by (auto simp: Let_def filter_error_def trim_unsigned_bits_def split: if_splits)
  have "(\<forall>v\<in>set vs. binary v \<and> v \<noteq> [] \<and> (max_bits opt = 0 \<or> length v \<le> max_bits opt))
     \<and> distinct (map strip_zeros vs) \<and> length vs = length (out @ [bits]) + length js"
  proof (rule 2(1) [OF bits refl, unfolded trim_unsigned_bits_def])
    show "strip_zeros bits \<notin> set seen" by (rule new)
    show "exact_loop js (Suc i) path opt (strip_zeros bits # seen) (out @ [bits]) = Inr vs" by (rule rest)
    show "set (strip_zeros bits # seen) = strip_zeros ` set (out @ [bits])" using 2(3) by auto
    show "distinct (map strip_zeros (out @ [bits]))" using 2(3,4) new by auto
    show "\<forall>v\<in>set (out @ [bits]). binary v \<and> v \<noteq> [] \<and> (max_bits opt = 0 \<or> length v \<le> max_bits opt)"
      using 2(5) parse_filter_literal_ok [OF bits] by simp
  qed
  then show ?case by simp
qed simp_all

text \<open>
  The invariant of a parsed filter: its literals are non-empty known bit strings within the limit;
  the values of an exact filter are distinct numbers, a range is not empty, a mask that must be
  non-zero is.
\<close>

definition filter_literal_ok :: "filter_parse_options \<Rightarrow> string \<Rightarrow> bool" where
  "filter_literal_ok opt v \<longleftrightarrow>
     set v \<subseteq> {CHR ''0'', CHR ''1''} \<and> v \<noteq> [] \<and> (max_bits opt = 0 \<or> length v \<le> max_bits opt)"

definition filter_wf :: "filter_parse_options \<Rightarrow> value_filter \<Rightarrow> bool" where
  "filter_wf opt f \<longleftrightarrow>
     (case vf_mode f of
        Exact \<Rightarrow> vf_values f \<noteq> [] \<and> list_all (filter_literal_ok opt) (vf_values f)
          \<and> distinct (map bits_value (vf_values f))
      | Range \<Rightarrow> filter_literal_ok opt (vf_begin f) \<and> filter_literal_ok opt (vf_end f)
          \<and> bits_value (vf_begin f) \<le> bits_value (vf_end f)
      | Mask \<Rightarrow> filter_literal_ok opt (vf_value f) \<and> filter_literal_ok opt (vf_mask f)
          \<and> (require_nonzero_mask opt \<longrightarrow> 0 < bits_value (vf_mask f)))"

lemma filter_literal_parsed:
  "parse_filter_literal t path opt = Inr bits \<Longrightarrow> filter_literal_ok opt bits"
  using parse_filter_literal_ok by (simp add: filter_literal_ok_def)

lemma literal_member_ok: "literal_member spec key path opt = Inr bits \<Longrightarrow> filter_literal_ok opt bits"
  by (auto simp: literal_member_def filter_literal_parsed split: sum.splits)

lemma bits_value_pos: "CHR ''1'' \<in> set s \<Longrightarrow> 0 < bits_value s"
  by (induction s) (auto simp: bits_value_Cons)

lemma distinct_bits_values:
  "\<forall>v\<in>set vs. binary v \<Longrightarrow> distinct (map strip_zeros vs) \<Longrightarrow> distinct (map bits_value vs)"
proof -
  assume b: "\<forall>v\<in>set vs. binary v" and d: "distinct (map strip_zeros vs)"
  have eq: "strip_zeros u = strip_zeros v"
    if u: "u \<in> set vs" and v: "v \<in> set vs" and e: "bits_value u = bits_value v" for u v
  proof (rule canonical_bits_unique)
    show "binary (strip_zeros u)" "binary (strip_zeros v)"
      by (rule binary_strip_zeros, rule b [rule_format], rule u,
          rule binary_strip_zeros, rule b [rule_format], rule v)
  qed (simp_all add: e)
  have "distinct vs" and inj: "inj_on strip_zeros (set vs)" using d by (simp_all add: distinct_map)
  moreover have "inj_on bits_value (set vs)"
  proof (rule inj_onI)
    fix u v
    assume "u \<in> set vs" "v \<in> set vs" "bits_value u = bits_value v"
    then show "u = v" using eq inj_onD [OF inj] by metis
  qed
  ultimately show ?thesis by (simp add: distinct_map)
qed

lemma parse_exact_wf: "parse_exact_filter spec path opt = Inr f \<Longrightarrow> filter_wf opt f"
proof -
  assume p: "parse_exact_filter spec path opt = Inr f"
  then obtain ms j js where ms: "spec = JObject ms" "map_of ms ''values'' = Some (JArray (j # js))"
    by (auto simp: parse_exact_filter_def filter_error_def Let_def
        split: json.splits option.splits list.splits)
  with p obtain vs where vs: "exact_loop (j # js) 0 path opt [] [] = Inr vs"
    and f: "f = vf_default\<lparr>vf_mode := Exact, vf_values := vs\<rparr>"
    by (auto simp: parse_exact_filter_def Let_def split: sum.splits)
  have "(\<forall>v\<in>set vs. binary v \<and> v \<noteq> [] \<and> (max_bits opt = 0 \<or> length v \<le> max_bits opt))
     \<and> distinct (map strip_zeros vs) \<and> length vs = length ([] :: string list) + length (j # js)"
    by (rule exact_loop_ok [OF vs]) simp_all
  with distinct_bits_values [of vs] show ?thesis
    by (auto simp: filter_wf_def f filter_literal_ok_def list_all_iff)
qed

lemma parse_range_wf: "parse_range_filter spec path opt = Inr f \<Longrightarrow> filter_wf opt f"
proof -
  assume p: "parse_range_filter spec path opt = Inr f"
  then obtain b e where "literal_member spec ''begin'' path opt = Inr b"
    "literal_member spec ''end'' path opt = Inr e"
    and c: "\<not> compare_unsigned_filter_bits b e > 0"
    and f: "f = vf_default\<lparr>vf_mode := Range, vf_begin := b, vf_end := e\<rparr>"
    by (auto simp: parse_range_filter_def filter_error_def split: sum.splits if_splits)
  then have ok: "filter_literal_ok opt b" "filter_literal_ok opt e" by (blast dest: literal_member_ok)+
  with c have "bits_value b \<le> bits_value e"
    by (simp add: compare_unsigned_numeric filter_literal_ok_def split: if_splits)
  with ok show ?thesis by (simp add: filter_wf_def f)
qed

lemma parse_mask_wf: "parse_mask_filter spec path opt = Inr f \<Longrightarrow> filter_wf opt f"
proof -
  assume p: "parse_mask_filter spec path opt = Inr f"
  then obtain v m where "literal_member spec ''value'' path opt = Inr v"
    "literal_member spec ''mask'' path opt = Inr m"
    and c: "\<not> (require_nonzero_mask opt \<and> mask_is_zero m)"
    and f: "f = vf_default\<lparr>vf_mode := Mask, vf_value := v, vf_mask := m\<rparr>"
    by (auto simp: parse_mask_filter_def filter_error_def split: sum.splits if_splits)
  then show ?thesis
    using bits_value_pos [of m]
    by (auto simp: filter_wf_def mask_is_zero_def dest: literal_member_ok)
qed

lemmas parse_filter_wf = parse_exact_wf parse_range_wf parse_mask_wf

text \<open>What a filter promises on known values, over the numbers its literals denote.\<close>

definition filter_accepts :: "value_filter \<Rightarrow> nat \<Rightarrow> bool" where
  "filter_accepts f n \<longleftrightarrow>
     (case vf_mode f of
        Exact \<Rightarrow> n \<in> bits_value ` set (vf_values f)
      | Range \<Rightarrow> bits_value (vf_begin f) \<le> n \<and> n \<le> bits_value (vf_end f)
      | Mask \<Rightarrow> and n (bits_value (vf_mask f)) = and (bits_value (vf_value f)) (bits_value (vf_mask f)))"

lemma bit_beyond: "length s \<le> k \<Longrightarrow> \<not> bit (bits_value s) k"
  by (simp add: bit_bits_value from_lsb_def)

lemma masked_eq_iff:
  "max (length b) (max (length v) (length m)) \<le> n \<Longrightarrow>
     (\<forall>k\<in>set [0..<n]. bit (bits_value m) k \<longrightarrow> (bit (bits_value b) k \<longleftrightarrow> bit (bits_value v) k))
     \<longleftrightarrow> and (bits_value b) (bits_value m) = and (bits_value v) (bits_value m)"
proof -
  assume n: "max (length b) (max (length v) (length m)) \<le> n"
  have "(\<forall>k\<in>set [0..<n]. bit (bits_value m) k \<longrightarrow> (bit (bits_value b) k \<longleftrightarrow> bit (bits_value v) k))
     \<longleftrightarrow> (\<forall>k. bit (bits_value m) k \<longrightarrow> (bit (bits_value b) k \<longleftrightarrow> bit (bits_value v) k))"
  proof
    assume in_range:
      "\<forall>k\<in>set [0..<n]. bit (bits_value m) k \<longrightarrow> (bit (bits_value b) k \<longleftrightarrow> bit (bits_value v) k)"
    show "\<forall>k. bit (bits_value m) k \<longrightarrow> (bit (bits_value b) k \<longleftrightarrow> bit (bits_value v) k)"
    proof (intro allI impI)
      fix k
      assume "bit (bits_value m) k"
      then have "k < n" using bit_beyond [of m k] n by (metis linorder_not_le max.bounded_iff order.trans)
      with in_range \<open>bit (bits_value m) k\<close> show "bit (bits_value b) k \<longleftrightarrow> bit (bits_value v) k" by simp
    qed
  qed simp
  also have "\<dots> \<longleftrightarrow> and (bits_value b) (bits_value m) = and (bits_value v) (bits_value m)"
    by (simp add: bit_eq_iff bit_and_iff) blast
  finally show ?thesis .
qed

lemma match_mask_known:
  "vf_mode f = Mask \<Longrightarrow> binary (lv_bits v) \<Longrightarrow> binary (vf_value f) \<Longrightarrow>
     match_value_filter f v = (if filter_accepts f (bits_value (lv_bits v)) then Yes else No)"
  using masked_eq_iff [of "lv_bits v" "vf_value f" "vf_mask f"
      "max (length (lv_bits v)) (max (length (vf_value f)) (length (vf_mask f)))"]
  by (simp add: match_value_filter_def filter_accepts_def mask_loop_known del: set_upt)

lemma match_numeric_modes:
  assumes "vf_mode f \<noteq> Mask" "lv_valid v" "\<not> logic_value_has_xz v" "binary (lv_bits v)" "filter_wf opt f"
  shows "match_value_filter f v = (if filter_accepts f (bits_value (lv_bits v)) then Yes else No)"
proof (cases "vf_mode f")
  case Exact
  then have "list_all (filter_literal_ok opt) (vf_values f)" using assms(5) by (simp add: filter_wf_def)
  then have "\<forall>e\<in>set (vf_values f). binary e" by (simp add: list_all_iff filter_literal_ok_def)
  then have "list_ex (\<lambda>e. compare_unsigned_filter_bits (lv_bits v) e = 0) (vf_values f)
     \<longleftrightarrow> bits_value (lv_bits v) \<in> bits_value ` set (vf_values f)"
    using compare_unsigned_numeric [OF assms(4)] by (auto simp: list_ex_iff image_iff)
  with Exact assms show ?thesis by (simp add: match_value_filter_def filter_accepts_def)
next
  case Range
  then have "binary (vf_begin f)" "binary (vf_end f)"
    using assms(5) by (simp_all add: filter_wf_def filter_literal_ok_def)
  with Range assms show ?thesis
    by (simp add: match_value_filter_def filter_accepts_def compare_unsigned_numeric)
qed (use assms in simp)

text \<open>
  One value refines another when it decides unknown bits and changes no other: this is what the
  same signal may turn out to be.
\<close>

abbreviation bit_refines :: "char \<Rightarrow> char \<Rightarrow> bool" where
  "bit_refines c d \<equiv> d = c \<or> (c \<noteq> CHR ''0'' \<and> c \<noteq> CHR ''1'')"

definition value_refines :: "logic_value \<Rightarrow> logic_value \<Rightarrow> bool" where
  "value_refines u v \<longleftrightarrow>
     list_all2 bit_refines (lv_bits u) (lv_bits v)
     \<and> lv_valid v = lv_valid u \<and> (logic_value_has_xz v \<longrightarrow> logic_value_has_xz u)"

lemma from_lsb_refines:
  assumes "list_all2 bit_refines s t"
  shows "from_lsb k t = from_lsb k s \<or> (from_lsb k s \<noteq> CHR ''0'' \<and> from_lsb k s \<noteq> CHR ''1'')"
  using list_all2_nthD [OF assms, of "length s - 1 - k"] list_all2_lengthD [OF assms]
  by (auto simp: from_lsb_def)

lemma mask_loop_refines:
  "list_all2 bit_refines s t \<Longrightarrow>
     mask_loop ks s val m \<noteq> Unresolved \<Longrightarrow> mask_loop ks t val m = mask_loop ks s val m"
proof (induction ks)
  case (Cons k ks)
  have r: "from_lsb k t = from_lsb k s \<or> (from_lsb k s \<noteq> CHR ''0'' \<and> from_lsb k s \<noteq> CHR ''1'')"
    by (rule from_lsb_refines [OF Cons.prems(1)])
  have IH: "mask_loop ks s val m \<noteq> Unresolved \<Longrightarrow> mask_loop ks t val m = mask_loop ks s val m"
    by (rule Cons.IH [OF Cons.prems(1)])
  from Cons.prems(2) r show ?case
    by (auto simp: Let_def IH split: if_splits)
qed simp

lemma binary_refines_eq:
  "list_all2 bit_refines s t \<Longrightarrow> binary s \<Longrightarrow> t = s"
  by (induction rule: list_all2_induct) auto

text \<open>The level scan keeps the binary digits of the payload and gives up at an unknown one.\<close>

lemma level_bits_eq:
  "level_bits cs = (if \<exists>c\<in>set cs. c \<in> {CHR ''x'', CHR ''X'', CHR ''z'', CHR ''Z''} then None
     else Some (filter (\<lambda>c. c \<in> {CHR ''0'', CHR ''1''}) cs))"
  by (induction cs) auto

definition level_payload :: "string \<Rightarrow> string" where
  "level_payload raw = (if CHR 0x27 \<in> set raw then tl (dropWhile (\<lambda>c. c \<noteq> CHR 0x27) raw) else raw)"

lemma drop_after_find:
  "str_find c s = Some q \<Longrightarrow> drop (q + 1) s = tl (dropWhile (\<lambda>d. d \<noteq> c) s)"
  by (induction s arbitrary: q) (auto split: if_splits)

lemma known_level_payload:
  "known_level raw =
     (case level_bits (level_payload raw) of
        None \<Rightarrow> None | Some bits \<Rightarrow> if length bits \<noteq> 1 then None else Some (bits = ''1''))"
proof (cases "str_find (CHR 0x27) raw")
  case None
  then have "CHR 0x27 \<notin> set raw" by (auto simp: str_index_None)
  with None show ?thesis by (simp add: known_level_def level_payload_def)
next
  case (Some q)
  then have "CHR 0x27 \<in> set raw" using str_index_Some [OF Some] nth_mem by metis
  moreover have "drop (q + 1) raw = tl (dropWhile (\<lambda>c. c \<noteq> CHR 0x27) raw)"
    by (rule drop_after_find [OF Some])
  ultimately show ?thesis using Some by (simp add: known_level_def level_payload_def)
qed

lemma one_binary_digit:
  "length (filter (\<lambda>c. c \<in> {CHR ''0'', CHR ''1''}) s) = 1 \<longleftrightarrow>
     filter (\<lambda>c. c \<in> {CHR ''0'', CHR ''1''}) s = ''0'' \<or> filter (\<lambda>c. c \<in> {CHR ''0'', CHR ''1''}) s = ''1''"
proof -
  define t where "t = filter (\<lambda>c. c \<in> {CHR ''0'', CHR ''1''}) s"
  have "set t \<subseteq> {CHR ''0'', CHR ''1''}" unfolding t_def by auto
  then have "length t = 1 \<longleftrightarrow> t = ''0'' \<or> t = ''1''" by (cases t) auto
  then show ?thesis unfolding t_def .
qed

section \<open>Properties\<close>

text \<open>
  A filter that parses is well formed: its literals are non-empty known bit strings within the
  bit limit, the values of an exact filter are a non-empty list of distinct numbers, a range does
  not end before it begins, and a mask is non-zero where the caller requires it.
\<close>

theorem parsed_filter_well_formed:
  assumes "parse_value_filter spec path opt = Inr f"
  shows "filter_wf opt f"
  using assms parse_filter_wf
  by (auto simp: parse_value_filter_def filter_error_def split: sum.splits if_splits)

theorem parsed_filter_well_formed_witness:
  "filter_wf \<lparr>max_bits = 8, require_nonzero_mask = True\<rparr>
     (vf_default\<lparr>vf_mode := Range, vf_begin := ''0101'', vf_end := ''1100''\<rparr>)"
proof (rule parsed_filter_well_formed)
  show "parse_value_filter
      (JObject [(''mode'', JString ''range''), (''begin'', JString (''4'' @ [CHR 0x27] @ ''h5'')),
                (''end'', JString (''4'' @ [CHR 0x27] @ ''b1100''))])
      ''filter'' \<lparr>max_bits = 8, require_nonzero_mask = True\<rparr>
     = Inr (vf_default\<lparr>vf_mode := Range, vf_begin := ''0101'', vf_end := ''1100''\<rparr>)"
    by code_simp
qed

text \<open>
  C5: on a known value a well-formed filter decides by number: an exact filter accepts the values
  listed, a range the numbers between its bounds, a mask the values that agree with its value in
  every bit of the mask, whatever the widths of the texts.
\<close>

theorem filter_match_numeric:
  assumes "lv_wf v" "lv_valid v" "lv_known v" "filter_wf opt f"
  shows "match_value_filter f v = (if filter_accepts f (bits_value (lv_bits v)) then Yes else No)"
proof (cases "vf_mode f = Mask")
  case True
  then have "binary (vf_value f)" using assms(4) by (simp add: filter_wf_def filter_literal_ok_def)
  with True show ?thesis using known_binary [OF assms(1,2,3)] by (intro match_mask_known)
next
  case False
  have "\<not> logic_value_has_xz v" using assms(1,2,3) by (simp add: lv_wf_def logic_value_has_xz_def)
  then show ?thesis
    using match_numeric_modes [OF False assms(2) _ known_binary [OF assms(1,2,3)] assms(4)] by simp
qed

theorem filter_match_numeric_witness:
  "match_value_filter (vf_default\<lparr>vf_mode := Mask, vf_value := ''0110'', vf_mask := ''1100''\<rparr>)
     (logic_value_from_bits ''00101'' 0) = Yes"
proof -
  let ?f = "vf_default\<lparr>vf_mode := Mask, vf_value := ''0110'', vf_mask := ''1100''\<rparr>"
  let ?v = "logic_value_from_bits ''00101'' 0"
  have "match_value_filter ?f ?v = (if filter_accepts ?f (bits_value (lv_bits ?v)) then Yes else No)"
    by (rule filter_match_numeric [of _ "\<lparr>max_bits = 8, require_nonzero_mask = True\<rparr>"];
        (rule lv_wf_from_bits | code_simp))
  then show ?thesis by code_simp
qed

text \<open>
  C6: a decided verdict is final: where a filter answers yes or no on a value with unknown bits, it
  gives the same answer on every value that replaces unknown bits by others.
\<close>

theorem filter_match_sound_unknown:
  assumes "match_value_filter f u \<noteq> Unresolved" "value_refines u v" "lv_wf u"
  shows "match_value_filter f v = match_value_filter f u"
proof (cases "vf_mode f = Mask")
  case True
  have r: "list_all2 bit_refines (lv_bits u) (lv_bits v)"
    using assms(2) by (simp add: value_refines_def)
  then have "length (lv_bits v) = length (lv_bits u)" using list_all2_lengthD by fastforce
  with True show ?thesis
    using mask_loop_refines [OF r] assms(1) by (simp add: match_value_filter_def del: set_upt)
next
  case False
  with assms(1) have u: "lv_valid u" "\<not> logic_value_has_xz u"
    by (auto simp: match_value_filter_def split: if_splits)
  then have "binary (lv_bits u)" using known_binary [OF assms(3)] by (simp add: logic_value_has_xz_def)
  then have "lv_bits v = lv_bits u"
    using binary_refines_eq assms(2) by (simp add: value_refines_def)
  moreover have "lv_valid v" "\<not> logic_value_has_xz v" using assms(2) u by (auto simp: value_refines_def)
  ultimately show ?thesis using False u by (simp add: match_value_filter_def)
qed

theorem filter_match_sound_unknown_witness:
  "match_value_filter (vf_default\<lparr>vf_mode := Mask, vf_value := ''0110'', vf_mask := ''1100''\<rparr>)
     (logic_value_from_bits ''0111'' 0) = Yes"
proof -
  let ?f = "vf_default\<lparr>vf_mode := Mask, vf_value := ''0110'', vf_mask := ''1100''\<rparr>"
  have "match_value_filter ?f (logic_value_from_bits ''0111'' 0)
     = match_value_filter ?f (logic_value_from_bits ''01xx'' 0)"
    by (rule filter_match_sound_unknown; (rule lv_wf_from_bits | code_simp))
  also have "\<dots> = Yes" by code_simp
  finally show ?thesis .
qed

text \<open>
  C7: a reset counts as released only on proof: the reset is inactive exactly when the level's text
  after the radix mark holds no x or z and its binary digits are the single inactive digit of the
  polarity; every other text, an unreadable one included, counts as an active reset.
\<close>

theorem reset_inactive_iff:
  "\<not> reset_is_active config raw \<longleftrightarrow>
     set (level_payload raw) \<inter> {CHR ''x'', CHR ''X'', CHR ''z'', CHR ''Z''} = {}
     \<and> filter (\<lambda>c. c \<in> {CHR ''0'', CHR ''1''}) (level_payload raw)
        = (if reset_polarity config = ActiveHigh then ''0'' else ''1'')"
  using one_binary_digit [of "level_payload raw"]
  by (auto simp: reset_is_active_def known_level_payload level_bits_eq split: if_splits)

text \<open>
  A reset configuration survives the trip through JSON: parsing its description gives it back.
\<close>

theorem reset_config_roundtrip:
  assumes "reset_signal c \<noteq> []"
  shows "parse_reset_config (reset_config_json c) = Inr c"
  using assms by (cases c; cases "reset_polarity c") (simp_all add: parse_reset_config_def reset_config_json_def)

theorem reset_config_roundtrip_witness:
  "parse_reset_config (reset_config_json \<lparr>reset_signal = ''top.rst_n'', reset_polarity = ActiveLow\<rparr>)
     = Inr \<lparr>reset_signal = ''top.rst_n'', reset_polarity = ActiveLow\<rparr>"
  by (rule reset_config_roundtrip) simp

end
