(* ===== verification/Stream_Expr.thy ===== *)
theory Stream_Expr
  imports Value_Filter "HOL-Library.Monad_Syntax"
begin

text \<open>
  Logic expressions over sampled signals, \<open>waveform/stream/stream_expr.cpp\<close>: the four-state values
  they compute with, the literals, the evaluation of an expression tree and the parser.  A
  \<open>std::set\<close> of names is the sorted list of its elements; the parser's position is the text that
  is left from it.  A parser that would run out of fuel gives \<open>None\<close>; the fuel the entry point
  passes is shown to be enough for every text.
\<close>

section \<open>Values\<close>

record stream_value =
  sv_bits :: string
  sv_known :: bool
  sv_width_reliable :: bool

abbreviation StreamValue :: "string \<Rightarrow> bool \<Rightarrow> bool \<Rightarrow> stream_value" where
  "StreamValue bits known reliable \<equiv>
     \<lparr>sv_bits = bits, sv_known = known, sv_width_reliable = reliable\<rparr>"

text \<open>\<open>StreamValue{"x", false}\<close>.\<close>

definition unknown_value :: stream_value where
  "unknown_value = StreamValue ''x'' False True"

definition lower_bits :: "string \<Rightarrow> string" where
  "lower_bits text =
     map c_tolower (filter (\<lambda>c. c \<noteq> CHR ''_'' \<and> \<not> c_isspace c \<and> c \<in> set ''01xXzZ'') text)"

definition has_xz_bits :: "string \<Rightarrow> bool" where
  "has_xz_bits bits \<longleftrightarrow> list_ex (\<lambda>c. c \<in> set ''xzXZ'') bits"

fun expr_hex_loop :: "string \<Rightarrow> string \<Rightarrow> string option" where
  "expr_hex_loop [] out = Some out"
| "expr_hex_loop (c # cs) out =
     (if c = CHR ''_'' \<or> c_isspace c then expr_hex_loop cs out
      else if c \<in> set ''xXzZ'' then expr_hex_loop cs (out @ replicate 4 (c_tolower c))
      else if base_digit c < 16 then expr_hex_loop cs (out @ nibble_bits (base_digit c))
      else None)"

definition expr_hex_to_bits :: "string \<Rightarrow> string" where
  "expr_hex_to_bits text =
     (case expr_hex_loop text [] of None \<Rightarrow> [] | Some out \<Rightarrow> if out = [] then ''0'' else out)"

text \<open>The binary digits of a number, the lowest first.\<close>

fun low_bits :: "nat \<Rightarrow> string" where
  "low_bits v =
     (if v = 0 then [] else (if v mod 2 = 1 then CHR ''1'' else CHR ''0'') # low_bits (v div 2))"

declare low_bits.simps [simp del]

definition expr_dec_to_bits :: "string \<Rightarrow> string" where
  "expr_dec_to_bits text =
     (let (v, rest) = c_strtoull 10 (filter (\<lambda>c. c \<noteq> CHR ''_'') text)
      in if rest \<noteq> [] then [] else if v = 0 then ''0'' else rev (low_bits v))"

text \<open>The declared width and the bits of a literal; an unreadable one has no bits.\<close>

definition unbased_bits :: "string \<Rightarrow> string" where
  "unbased_bits s =
     (if 2 < length s \<and> s ! 0 = CHR ''0'' \<and> s ! 1 \<in> set ''xX'' then expr_hex_to_bits (drop 2 s)
      else if 2 < length s \<and> s ! 0 = CHR ''0'' \<and> s ! 1 \<in> set ''bB'' then lower_bits (drop 2 s)
      else expr_dec_to_bits s)"

definition based_bits :: "char \<Rightarrow> string \<Rightarrow> string" where
  "based_bits base body =
     (if base = CHR ''b'' then lower_bits body
      else if base = CHR ''h'' then expr_hex_to_bits body
      else if base = CHR ''d'' then expr_dec_to_bits body else [])"

definition literal_bits :: "string \<Rightarrow> int \<times> string" where
  "literal_bits s =
     (case str_find (CHR 0x27) s of
        Some tick \<Rightarrow>
          if tick + 1 < length s
          then (if tick > 0 then c_atoi (take tick s) else 0,
                based_bits (c_tolower (s ! (tick + 1))) (drop (tick + 2) s))
          else (0, unbased_bits s)
      | None \<Rightarrow> (0, unbased_bits s))"

definition literal_value :: "string \<Rightarrow> stream_value" where
  "literal_value s =
     (let (width, bits0) = literal_bits s;
          bits = fit_bits width (if bits0 = [] then ''x'' else bits0)
      in StreamValue bits (\<not> has_xz_bits bits) (width > 0))"

definition align_left :: "stream_value \<Rightarrow> nat \<Rightarrow> stream_value" where
  "align_left v width =
     v\<lparr>sv_bits := replicate (width - length (sv_bits v)) CHR ''0'' @ sv_bits v\<rparr>"

fun unsigned_loop :: "string \<Rightarrow> nat \<Rightarrow> nat option" where
  "unsigned_loop [] out = Some out"
| "unsigned_loop (c # cs) out =
     (if c = CHR ''1'' then unsigned_loop cs (2 * out + 1)
      else if c = CHR ''0'' then unsigned_loop cs (2 * out) else None)"

text \<open>A value of at most 63 bits does not overflow the 64-bit accumulator.\<close>

definition unsigned_value :: "stream_value \<Rightarrow> nat option" where
  "unsigned_value v =
     (if \<not> sv_known v \<or> length (sv_bits v) > 63 then None else unsigned_loop (sv_bits v) 0)"

definition one_bit :: "bool \<Rightarrow> stream_value" where
  "one_bit b = StreamValue (if b then ''1'' else ''0'') True True"

definition stream_value_truthy :: "stream_value \<Rightarrow> bool \<Rightarrow> bool" where
  "stream_value_truthy v unknown_default =
     (if \<not> sv_known v then unknown_default else list_ex (\<lambda>c. c = CHR ''1'') (sv_bits v))"

definition stream_value_has_xz :: "stream_value \<Rightarrow> bool" where
  "stream_value_has_xz v \<longleftrightarrow> \<not> sv_known v \<or> has_xz_bits (sv_bits v)"

definition stream_logic :: "stream_value \<Rightarrow> logic_value" where
  "stream_logic v =
     logic_value_from_fsdb_raw (sv_bits v) (CHR ''b'')
       (if sv_width_reliable v then int (length (sv_bits v)) else 0)"

definition stream_value_json :: "stream_value \<Rightarrow> render_format \<Rightarrow> json" where
  "stream_value_json v format = logic_value_json (stream_logic v) format"

definition stream_value_hex :: "stream_value \<Rightarrow> string" where
  "stream_value_hex v = render_logic_value (stream_logic v) Hex"

section \<open>Expression trees and their evaluation\<close>

text \<open>The parser builds the two unary operators only.\<close>

datatype unary_op = Bang | Tilde

datatype node =
    Literal string
  | Signal string
  | Select int int node
  | Concat "node list"
  | Unary unary_op node
  | Binary string node node

type_synonym signal_values = "string \<rightharpoonup> stream_value"

definition eval_select :: "stream_value \<Rightarrow> int \<Rightarrow> int \<Rightarrow> stream_value option" where
  "eval_select base left right =
     (let hi = max left right; lo = min left right; n = length (sv_bits base)
      in if lo < 0 \<or> hi < 0 \<or> hi \<ge> int n then None
         else let first = n - 1 - nat hi; last = n - 1 - nat lo;
                  bits = take (last - first + 1) (drop first (sv_bits base))
              in Some (StreamValue bits (\<not> has_xz_bits bits) True))"

definition invert_bit :: "char \<Rightarrow> char" where
  "invert_bit c = (if c = CHR ''0'' then CHR ''1'' else if c = CHR ''1'' then CHR ''0'' else CHR ''x'')"

definition eval_unary :: "unary_op \<Rightarrow> stream_value \<Rightarrow> stream_value" where
  "eval_unary opr v =
     (case opr of
        Bang \<Rightarrow> if \<not> sv_known v then unknown_value else one_bit (\<not> stream_value_truthy v False)
      | Tilde \<Rightarrow> let bits = map invert_bit (sv_bits v)
                in StreamValue bits (\<not> has_xz_bits bits) (sv_width_reliable v))"

definition bit_gate :: "string \<Rightarrow> char \<Rightarrow> char \<Rightarrow> char" where
  "bit_gate opr l r =
     (if l \<notin> set ''01'' \<or> r \<notin> set ''01'' then CHR ''x''
      else let lv = (l = CHR ''1''); rv = (r = CHR ''1'');
               out = (if opr = ''&'' then lv \<and> rv else if opr = ''|'' then lv \<or> rv else lv \<noteq> rv)
           in if out then CHR ''1'' else CHR ''0'')"

definition gate_bits :: "string \<Rightarrow> string \<Rightarrow> string \<Rightarrow> string" where
  "gate_bits opr l r = map2 (bit_gate opr) l r"

definition compare_numbers :: "string \<Rightarrow> nat \<Rightarrow> nat \<Rightarrow> bool" where
  "compare_numbers opr l r =
     (if opr = ''=='' then l = r else if opr = ''!='' then l \<noteq> r else if opr = ''>'' then l > r
      else if opr = ''>='' then l \<ge> r else if opr = ''<'' then l < r else l \<le> r)"

definition eval_logical :: "string \<Rightarrow> stream_value \<Rightarrow> stream_value \<Rightarrow> stream_value" where
  "eval_logical opr lhs rhs =
     (if \<not> sv_known lhs \<or> \<not> sv_known rhs then unknown_value
      else let l = stream_value_truthy lhs False; r = stream_value_truthy rhs False
           in one_bit (if opr = ''&&'' then l \<and> r else l \<or> r))"

definition eval_gate :: "string \<Rightarrow> stream_value \<Rightarrow> stream_value \<Rightarrow> stream_value" where
  "eval_gate opr lhs rhs =
     (let width = max (length (sv_bits lhs)) (length (sv_bits rhs));
          bits = gate_bits opr (sv_bits (align_left lhs width)) (sv_bits (align_left rhs width))
      in StreamValue bits (\<not> has_xz_bits bits) (sv_width_reliable lhs \<and> sv_width_reliable rhs))"

definition eval_compare :: "string \<Rightarrow> stream_value \<Rightarrow> stream_value \<Rightarrow> stream_value" where
  "eval_compare opr lhs rhs =
     (case (unsigned_value lhs, unsigned_value rhs) of
        (Some l, Some r) \<Rightarrow> one_bit (compare_numbers opr l r)
      | _ \<Rightarrow> unknown_value)"

definition eval_binary :: "string \<Rightarrow> stream_value \<Rightarrow> stream_value \<Rightarrow> stream_value option" where
  "eval_binary opr lhs rhs =
     (if opr \<in> {''&&'', ''||''} then Some (eval_logical opr lhs rhs)
      else if opr \<in> {''&'', ''|'', ''^''} then Some (eval_gate opr lhs rhs)
      else if opr \<in> {''=='', ''!='', ''>'', ''>='', ''<'', ''<=''} then Some (eval_compare opr lhs rhs)
      else None)"

text \<open>
  \<open>eval_node\<close> with its \<open>error\<close> reference as a state; the loop over the items of a concatenation
  keeps the bits, the knownness and the width's reliability.
\<close>

fun eval_node :: "node \<Rightarrow> signal_values \<Rightarrow> string \<Rightarrow> stream_value \<times> string"
  and eval_items :: "node list \<Rightarrow> signal_values \<Rightarrow> string \<Rightarrow> string \<Rightarrow> bool \<Rightarrow> bool \<Rightarrow> stream_value \<times> string"
where
  "eval_node (Literal t) values err = (literal_value t, err)"
| "eval_node (Signal t) values err =
     (case values t of
        None \<Rightarrow> (unknown_value, ''signal value not available: '' @ t)
      | Some v \<Rightarrow> (v, err))"
| "eval_node (Select left right a) values err =
     (let (base, err) = eval_node a values err
      in if err \<noteq> [] then (unknown_value, err)
         else case eval_select base left right of
                None \<Rightarrow> (unknown_value, ''select out of range in expression'')
              | Some v \<Rightarrow> (v, err))"
| "eval_node (Concat items) values err = eval_items items values err [] True True"
| "eval_node (Unary opr a) values err =
     (let (v, err) = eval_node a values err
      in if err \<noteq> [] then (unknown_value, err) else (eval_unary opr v, err))"
| "eval_node (Binary opr a b) values err =
     (let (lhs, err) = eval_node a values err
      in if err \<noteq> [] then (unknown_value, err)
         else let (rhs, err) = eval_node b values err
              in if err \<noteq> [] then (unknown_value, err)
                 else case eval_binary opr lhs rhs of
                        None \<Rightarrow> (unknown_value, ''unsupported operator: '' @ opr)
                      | Some v \<Rightarrow> (v, err))"
| "eval_items [] values err bits known reliable =
     (let bits = (if bits = [] then ''0'' else bits)
      in (StreamValue bits (known \<and> \<not> has_xz_bits bits) reliable, err))"
| "eval_items (n # ns) values err bits known reliable =
     (let (v, err) = eval_node n values err
      in if err \<noteq> [] then (unknown_value, err)
         else eval_items ns values err (bits @ sv_bits v) (known \<and> sv_known v)
                (reliable \<and> sv_width_reliable v))"

section \<open>The parser\<close>

record parser =
  ps_rest :: string
  ps_signals :: "string list"
  ps_error :: string

type_synonym 'a parse = "parser \<Rightarrow> ('a \<times> parser) option"

definition ps_skip :: "parser \<Rightarrow> parser" where
  "ps_skip s = s\<lparr>ps_rest := dropWhile c_isspace (ps_rest s)\<rparr>"

definition ps_peek :: "string \<Rightarrow> parser \<Rightarrow> bool" where
  "ps_peek token s = str_prefix token (ps_rest s)"

definition ps_eat :: "string \<Rightarrow> parser \<Rightarrow> bool \<times> parser" where
  "ps_eat token s =
     (let s = ps_skip s
      in if ps_peek token s then (True, s\<lparr>ps_rest := drop (length token) (ps_rest s)\<rparr>) else (False, s))"

definition ps_fail :: "string \<Rightarrow> parser \<Rightarrow> parser" where
  "ps_fail msg s = s\<lparr>ps_error := msg\<rparr>"

text \<open>
  The loop of the binary levels: read an operator with \<open>next_op\<close>, then its right operand, while
  no error is set.  The fuel is the length of the text, of which every iteration consumes some.
\<close>

fun chain_loop :: "nat \<Rightarrow> (parser \<Rightarrow> string option \<times> parser) \<Rightarrow> node parse \<Rightarrow> node \<Rightarrow> node parse" where
  "chain_loop k next_op operand lhs s =
     (if ps_error s \<noteq> [] then Some (lhs, s)
      else case next_op s of
             (None, s) \<Rightarrow> Some (lhs, s)
           | (Some opr, s) \<Rightarrow>
               (case k of
                  0 \<Rightarrow> None
                | Suc k \<Rightarrow>
                    do { (rhs, s) \<leftarrow> operand s; chain_loop k next_op operand (Binary opr lhs rhs) s }))"

declare chain_loop.simps [simp del]

definition chain :: "(parser \<Rightarrow> string option \<times> parser) \<Rightarrow> node parse \<Rightarrow> node parse" where
  "chain next_op operand s =
     do { (lhs, t) \<leftarrow> operand s; chain_loop (length (ps_rest t)) next_op operand lhs t }"

text \<open>The operators of a level: the first token of a list that can be eaten.\<close>

fun eat_first :: "string list \<Rightarrow> parser \<Rightarrow> string option \<times> parser" where
  "eat_first [] s = (None, s)"
| "eat_first (t # ts) s = (case ps_eat t s of (True, s) \<Rightarrow> (Some t, s) | (False, s) \<Rightarrow> eat_first ts s)"

definition eat_unless :: "string \<Rightarrow> string \<Rightarrow> parser \<Rightarrow> string option \<times> parser" where
  "eat_unless longer t s = (let s = ps_skip s in if ps_peek longer s then (None, s) else eat_first [t] s)"

fun parse_unary :: "nat \<Rightarrow> node parse \<Rightarrow> node parse" where
  "parse_unary k primary s =
     (case ps_eat ''!'' s of
        (True, s) \<Rightarrow>
          (case k of 0 \<Rightarrow> None
           | Suc k \<Rightarrow> do { (a, s) \<leftarrow> parse_unary k primary s; Some (Unary Bang a, s) })
      | (False, s) \<Rightarrow>
          (case ps_eat ''~'' s of
             (True, s) \<Rightarrow>
               (case k of 0 \<Rightarrow> None
                | Suc k \<Rightarrow> do { (a, s) \<leftarrow> parse_unary k primary s; Some (Unary Tilde a, s) })
           | (False, s) \<Rightarrow> primary s))"

declare parse_unary.simps [simp del]

definition parse_compare :: "node parse \<Rightarrow> node parse" where
  "parse_compare primary =
     chain (eat_first [''=='', ''!='', ''>='', ''<='', ''>'', ''<''])
       (\<lambda>s. parse_unary (length (ps_rest s)) primary s)"

definition parse_bitand :: "node parse \<Rightarrow> node parse" where
  "parse_bitand primary = chain (eat_unless ''&&'' ''&'') (parse_compare primary)"

definition parse_bitxor :: "node parse \<Rightarrow> node parse" where
  "parse_bitxor primary = chain (eat_first [''^'']) (parse_bitand primary)"

definition parse_bitor :: "node parse \<Rightarrow> node parse" where
  "parse_bitor primary = chain (eat_unless ''||'' ''|'') (parse_bitxor primary)"

definition parse_and :: "node parse \<Rightarrow> node parse" where
  "parse_and primary = chain (eat_first [''&&'']) (parse_bitor primary)"

definition parse_or :: "node parse \<Rightarrow> node parse" where
  "parse_or primary = chain (eat_first [''||'']) (parse_and primary)"

definition parse_literal :: "parser \<Rightarrow> node \<times> parser" where
  "parse_literal s =
     (let in_literal = (\<lambda>c. c_isalnum c \<or> c = CHR ''_'' \<or> c = CHR 0x27)
      in (Literal (takeWhile in_literal (ps_rest s)), s\<lparr>ps_rest := dropWhile in_literal (ps_rest s)\<rparr>))"

definition parse_int :: "parser \<Rightarrow> int \<times> parser" where
  "parse_int s =
     (let s = ps_skip s; digits = takeWhile c_isdigit (ps_rest s)
      in if digits = [] then (0, ps_fail ''expected integer index'' s)
         else (c_atoi digits, s\<lparr>ps_rest := dropWhile c_isdigit (ps_rest s)\<rparr>))"

definition quoted :: "string \<Rightarrow> string" where
  "quoted t = [CHR 0x27] @ t @ [CHR 0x27]"

text \<open>The length of the signal name at the front of a text.\<close>

function name_length :: "string \<Rightarrow> nat" where
  "name_length [] = 0"
| "name_length (c # cs) =
     (if c_isalnum c \<or> c \<in> set [CHR ''_'', CHR ''.'', CHR ''$'', CHR 0x5C] then Suc (name_length cs)
      else if c = CHR ''['' then
        (case str_find (CHR '']'') (c # cs) of
           None \<Rightarrow> 0
         | Some rb \<Rightarrow>
             if rb + 1 < length (c # cs) \<and> (c # cs) ! (rb + 1) = CHR ''.''
             then rb + 1 + name_length (drop (rb + 1) (c # cs)) else 0)
      else 0)"
  by pat_completeness auto
termination by (relation "measure length") auto

text \<open>What follows a name: nothing, or an index or a range in brackets.\<close>

definition close_bracket :: "parser \<Rightarrow> parser" where
  "close_bracket s =
     (if ps_error s \<noteq> [] then s
      else case ps_eat '']'' s of
             (True, s) \<Rightarrow> s
           | (False, s) \<Rightarrow> ps_fail (''missing '' @ quoted '']'') s)"

definition select_after :: "string \<Rightarrow> parser \<Rightarrow> node \<times> parser" where
  "select_after name s =
     (case ps_eat ''['' s of
        (False, s) \<Rightarrow> (Signal name, s)
      | (True, s) \<Rightarrow>
          (let (left, s) = parse_int s;
               (colon, s) = ps_eat '':'' s;
               (right, s) = (if colon then parse_int s else (left, s))
           in (Select left right (Signal name), close_bracket s)))"

definition starts_name :: "string \<Rightarrow> bool" where
  "starts_name t \<longleftrightarrow>
     t \<noteq> [] \<and> (c_isalpha (hd t) \<or> hd t = CHR ''_'' \<or> hd t = CHR 0x5C)"

definition signal_or_select :: "parser \<Rightarrow> node \<times> parser" where
  "signal_or_select s0 =
     (let s = ps_skip s0; k = name_length (ps_rest s); name = take k (ps_rest s)
      in if \<not> starts_name (ps_rest s)
         then (Literal [], ps_fail ''expected signal, literal, concat, or parenthesized expression'' s)
         else select_after name
                (s\<lparr>ps_rest := drop k (ps_rest s), ps_signals := insort_insert name (ps_signals s)\<rparr>))"

text \<open>The items of a concatenation after its opening brace.\<close>

fun parse_items :: "nat \<Rightarrow> node parse \<Rightarrow> node list \<Rightarrow> node list parse" where
  "parse_items k item items s =
     (if ps_error s \<noteq> [] then Some (items, s)
      else do {
        (n, s) \<leftarrow> item s;
        (case ps_eat ''}'' s of
           (True, s) \<Rightarrow> Some (items @ [n], s)
         | (False, s) \<Rightarrow>
             (case ps_eat '','' s of
                (False, s) \<Rightarrow> Some (items @ [n], ps_fail (''missing '' @ quoted '','' @ '' or '' @ quoted ''}'' @ '' in concat'') s)
              | (True, s) \<Rightarrow> (case k of 0 \<Rightarrow> None | Suc k \<Rightarrow> parse_items k item (items @ [n]) s))) })"

declare parse_items.simps [simp del]

text \<open>The fuel of \<open>parse_primary\<close> is the depth of nested parentheses and braces.\<close>

fun parse_primary :: "nat \<Rightarrow> node parse" where
  "parse_primary k s0 =
     (let s = ps_skip s0; (paren, s) = ps_eat ''('' s
      in if paren then
           (case k of 0 \<Rightarrow> None
            | Suc k \<Rightarrow>
                do { (n, s) \<leftarrow> parse_or (parse_primary k) s;
                     Some (n, if ps_error s \<noteq> [] then s
                              else let (close, s) = ps_eat '')'' s
                                   in if close then s else ps_fail (''missing '' @ quoted '')'') s) })
         else
           (case ps_eat ''{'' s of
              (True, s) \<Rightarrow>
                (case k of 0 \<Rightarrow> None
                 | Suc k \<Rightarrow>
                     do { (ns, s) \<leftarrow> parse_items (length (ps_rest s)) (parse_or (parse_primary k)) [] s;
                          Some (Concat ns, s) })
            | (False, s) \<Rightarrow>
                if ps_rest s \<noteq> [] \<and> (c_isdigit (hd (ps_rest s)) \<or> hd (ps_rest s) = CHR 0x27)
                then Some (parse_literal s) else Some (signal_or_select s)))"

declare parse_primary.simps [simp del]

definition parser_parse :: "string \<Rightarrow> string \<Rightarrow> (node \<times> parser) option" where
  "parser_parse text err =
     do { (n, s) \<leftarrow> parse_or (parse_primary (length text))
                    \<lparr>ps_rest = text, ps_signals = [], ps_error = err\<rparr>;
          let s = ps_skip s in
          Some (n, if ps_error s = [] \<and> ps_rest s \<noteq> []
                   then ps_fail (''unexpected token near: '' @ ps_rest s) s else s) }"

section \<open>Stream expressions\<close>

record stream_expression =
  se_text :: string
  se_root :: "node option"
  se_signals :: "string list"
  se_plain_signal :: bool

definition se_empty :: stream_expression where
  "se_empty = \<lparr>se_text = [], se_root = None, se_signals = [], se_plain_signal = False\<rparr>"

text \<open>\<open>StreamExpression::parse\<close>: the expression and the error, empty on success.\<close>

definition stream_parse :: "string \<Rightarrow> string \<Rightarrow> (stream_expression \<times> string) option" where
  "stream_parse text err =
     do { (n, s) \<leftarrow> parser_parse text err;
          Some (\<lparr>se_text = text, se_root = Some n, se_signals = ps_signals s,
                  se_plain_signal = (length (ps_signals s) = 1
                    \<and> \<not> list_ex (\<lambda>c. c \<in> set ''!~&|^=<>({'') text \<and> CHR ''['' \<notin> set text)\<rparr>,
                ps_error s) }"

definition stream_evaluate :: "stream_expression \<Rightarrow> signal_values \<Rightarrow> string \<Rightarrow> (stream_value option) \<times> string" where
  "stream_evaluate e values err =
     (case se_root e of
        None \<Rightarrow> (None, ''expression not parsed'')
      | Some n \<Rightarrow> (case eval_node n values err of (v, err) \<Rightarrow> (Some v, err)))"

section \<open>The parser returns on every text\<close>

text \<open>What the parser builds: the names a tree reads, and the shape of its trees.\<close>

fun node_signals :: "node \<Rightarrow> string set" where
  "node_signals (Literal t) = {}"
| "node_signals (Signal t) = {t}"
| "node_signals (Select l r a) = node_signals a"
| "node_signals (Concat ns) = \<Union> (set (map node_signals ns))"
| "node_signals (Unary u a) = node_signals a"
| "node_signals (Binary b l r) = node_signals l \<union> node_signals r"

definition binary_ops :: "string set" where
  "binary_ops = {''||'', ''&&'', ''|'', ''^'', ''&'', ''=='', ''!='', ''>='', ''<='', ''>'', ''<''}"

fun parsed_node :: "node \<Rightarrow> bool" where
  "parsed_node (Literal t) = True"
| "parsed_node (Signal t) = True"
| "parsed_node (Select l r a) = (\<exists>t. a = Signal t)"
| "parsed_node (Concat ns) = list_all parsed_node ns"
| "parsed_node (Unary u a) = parsed_node a"
| "parsed_node (Binary b l r) = (b \<in> binary_ops \<and> parsed_node l \<and> parsed_node r)"

abbreviation ps_len :: "parser \<Rightarrow> nat" where
  "ps_len s \<equiv> length (ps_rest s)"

named_theorems ps_simps \<open>frame rules of the parser's steps\<close>

lemma ps_skip_frame [ps_simps, simp]:
  "ps_signals (ps_skip s) = ps_signals s" "ps_error (ps_skip s) = ps_error s"
  "ps_len (ps_skip s) \<le> ps_len s"
  by (simp_all add: ps_skip_def length_dropWhile_le)

lemma ps_fail_frame [ps_simps, simp]:
  "ps_signals (ps_fail m s) = ps_signals s" "ps_rest (ps_fail m s) = ps_rest s"
  "ps_error (ps_fail m s) = m"
  by (simp_all add: ps_fail_def)

lemma str_prefix_length: "str_prefix p s \<Longrightarrow> length p \<le> length s"
  by (auto simp: str_prefix_def dest: arg_cong [of _ _ length])

lemma ps_eat_cases:
  assumes "ps_eat token s = (b, t)"
  obtains "b" "str_prefix token (ps_rest (ps_skip s))"
      "t = (ps_skip s)\<lparr>ps_rest := drop (length token) (ps_rest (ps_skip s))\<rparr>"
    | "\<not> b" "t = ps_skip s"
  using assms by (auto simp: ps_eat_def ps_peek_def Let_def split: if_splits)

lemma ps_eat_frame:
  assumes "ps_eat token s = (b, t)"
  shows "ps_signals t = ps_signals s" "ps_error t = ps_error s" "ps_len t \<le> ps_len s"
  using assms by (cases rule: ps_eat_cases; simp; use ps_skip_frame(3) [of s] in linarith)+

lemma ps_eat_less:
  assumes "ps_eat token s = (True, t)" "token \<noteq> []"
  shows "ps_len t < ps_len s"
  using assms(1)
proof (cases rule: ps_eat_cases)
  case 1
  have "0 < length token" using assms(2) by simp
  moreover have "ps_len t = ps_len (ps_skip s) - length token" by (simp add: 1(3))
  ultimately show ?thesis using str_prefix_length [OF 1(2)] ps_skip_frame(3) [of s] by linarith
qed simp

text \<open>A reader of operators: it consumes text when it reads one, which is then one of a set.\<close>

definition op_reader :: "(parser \<Rightarrow> string option \<times> parser) \<Rightarrow> bool" where
  "op_reader next_op \<longleftrightarrow>
     (\<forall>s opr t. next_op s = (opr, t) \<longrightarrow>
        ps_signals t = ps_signals s \<and> ps_len t \<le> ps_len s
        \<and> (\<forall>b. opr = Some b \<longrightarrow> b \<in> binary_ops \<and> ps_len t < ps_len s))"

lemma op_reader_eat_first: "set ts \<subseteq> binary_ops \<Longrightarrow> op_reader (eat_first ts)"
proof (induction ts)
  case Nil
  show ?case by (simp add: op_reader_def)
next
  case (Cons tok ts)
  then have IH: "op_reader (eat_first ts)" and tok: "tok \<in> binary_ops" by simp_all
  then have ne: "tok \<noteq> []" by (auto simp: binary_ops_def)
  show ?case unfolding op_reader_def
  proof (intro allI impI)
    fix s opr t
    assume e: "eat_first (tok # ts) s = (opr, t)"
    obtain b u where u: "ps_eat tok s = (b, u)" by fastforce
    note f = ps_eat_frame [OF u]
    show "ps_signals t = ps_signals s \<and> ps_len t \<le> ps_len s
        \<and> (\<forall>b. opr = Some b \<longrightarrow> b \<in> binary_ops \<and> ps_len t < ps_len s)"
    proof (cases b)
      case True
      with u have "ps_eat tok s = (True, u)" by simp
      then have "ps_len u < ps_len s" using ne by (rule ps_eat_less)
      with True e u f(1) tok show ?thesis by auto
    next
      case False
      with e u have "eat_first ts u = (opr, t)" by simp
      with IH have "ps_signals t = ps_signals u \<and> ps_len t \<le> ps_len u
        \<and> (\<forall>b. opr = Some b \<longrightarrow> b \<in> binary_ops \<and> ps_len t < ps_len u)"
        unfolding op_reader_def by blast
      with f show ?thesis by auto
    qed
  qed
qed

lemma op_reader_eat_unless: "t \<in> binary_ops \<Longrightarrow> op_reader (eat_unless longer t)"
proof -
  assume t: "t \<in> binary_ops"
  then have r: "op_reader (eat_first [t])" by (intro op_reader_eat_first) simp
  show ?thesis unfolding op_reader_def
  proof (intro allI impI)
    fix s opr u
    assume e: "eat_unless longer t s = (opr, u)"
    show "ps_signals u = ps_signals s \<and> ps_len u \<le> ps_len s
        \<and> (\<forall>b. opr = Some b \<longrightarrow> b \<in> binary_ops \<and> ps_len u < ps_len s)"
    proof (cases "ps_peek longer (ps_skip s)")
      case True
      with e show ?thesis by (auto simp: eat_unless_def Let_def)
    next
      case False
      with e have "eat_first [t] (ps_skip s) = (opr, u)" by (simp add: eat_unless_def Let_def)
      with r have "ps_signals u = ps_signals (ps_skip s) \<and> ps_len u \<le> ps_len (ps_skip s)
        \<and> (\<forall>b. opr = Some b \<longrightarrow> b \<in> binary_ops \<and> ps_len u < ps_len (ps_skip s))"
        unfolding op_reader_def by blast
      with ps_skip_frame [of s] show ?thesis by (auto intro: order_trans less_le_trans)
    qed
  qed
qed

text \<open>
  What a parser promises of its input and output states and its tree: it never gives text back, its
  tree has the shape above, and exactly the names that the tree reads are added to the names, which
  stay sorted and distinct.
\<close>

definition names_ok :: "string list \<Rightarrow> bool" where
  "names_ok xs \<longleftrightarrow> sorted xs \<and> distinct xs"

definition parse_post :: "parser \<Rightarrow> node \<Rightarrow> parser \<Rightarrow> bool" where
  "parse_post s n t \<longleftrightarrow>
     ps_len t \<le> ps_len s \<and> parsed_node n \<and> set (ps_signals t) = set (ps_signals s) \<union> node_signals n
     \<and> (names_ok (ps_signals s) \<longrightarrow> names_ok (ps_signals t))"

lemma parse_post_frame:
  "parse_post s n t \<Longrightarrow> ps_len s \<le> ps_len s' \<Longrightarrow> ps_signals s = ps_signals s' \<Longrightarrow>
     ps_len t' \<le> ps_len t \<Longrightarrow> ps_signals t' = ps_signals t \<Longrightarrow> parse_post s' n t'"
  by (simp add: parse_post_def)

lemma parse_post_len: "parse_post s n t \<Longrightarrow> ps_len t \<le> ps_len s"
  by (simp add: parse_post_def)

text \<open>
  The interface between the levels of the grammar: on a text of at most \<open>m\<close> characters a parser of
  operands returns and keeps that promise.
\<close>

locale operand_parser =
  fixes operand :: "node parse" and m :: nat
  assumes operand_returns: "ps_len s \<le> m \<Longrightarrow> \<exists>n t. operand s = Some (n, t) \<and> parse_post s n t"
begin

lemma chain_loop_returns:
  assumes "op_reader next_op"
  shows "ps_len s \<le> k \<Longrightarrow> ps_len s \<le> m \<Longrightarrow> parse_post s0 lhs s \<Longrightarrow>
     \<exists>n t. chain_loop k next_op operand lhs s = Some (n, t) \<and> parse_post s0 n t"
proof (induction k arbitrary: lhs s)
  case 0
  obtain opr u where u: "next_op s = (opr, u)" by fastforce
  have "opr = None" using assms u 0 unfolding op_reader_def by fastforce
  moreover have "ps_signals u = ps_signals s" "ps_len u \<le> ps_len s"
    using assms u unfolding op_reader_def by blast+
  ultimately show ?case using u 0 parse_post_frame [of s0 lhs s s0 u]
    by (simp add: chain_loop.simps [of 0])
next
  case (Suc k)
  obtain opr u where u: "next_op s = (opr, u)" by fastforce
  have f: "ps_signals u = ps_signals s" "ps_len u \<le> ps_len s"
    "\<And>b. opr = Some b \<Longrightarrow> b \<in> binary_ops \<and> ps_len u < ps_len s"
    using assms u unfolding op_reader_def by blast+
  show ?case
  proof (cases "ps_error s = [] \<and> opr \<noteq> None")
    case True
    then obtain b where b: "opr = Some b" by auto
    from f(2) Suc.prems(2) have "ps_len u \<le> m" by simp
    from operand_returns [OF this] obtain rhs t where
      t: "operand u = Some (rhs, t)" "parse_post u rhs t" by blast
    have eq: "chain_loop (Suc k) next_op operand lhs s = chain_loop k next_op operand (Binary b lhs rhs) t"
      using True b u t(1) by (simp add: chain_loop.simps [of "Suc k"])
    have "ps_len t < ps_len s" using f(3) [OF b] parse_post_len [OF t(2)] by simp
    moreover have "parse_post s0 (Binary b lhs rhs) t"
      using f t(2) Suc.prems(3) b by (auto simp: parse_post_def)
    ultimately show ?thesis unfolding eq using Suc.prems by (intro Suc.IH) auto
  next
    case False
    then show ?thesis using u f Suc.prems parse_post_frame [OF Suc.prems(3), of s0 u]
      by (auto simp: chain_loop.simps [of "Suc k"])
  qed
qed

lemma chain_returns:
  assumes "op_reader next_op" "ps_len s \<le> m"
  shows "\<exists>n t. chain next_op operand s = Some (n, t) \<and> parse_post s n t"
proof -
  from operand_returns [OF assms(2)] obtain lhs t where
    t: "operand s = Some (lhs, t)" "parse_post s lhs t" by blast
  then have "ps_len t \<le> m" using parse_post_len assms(2) order_trans by blast
  from chain_loop_returns [OF assms(1) order_refl this t(2)] t(1) show ?thesis
    by (simp add: chain_def)
qed

end

text \<open>Every level of the grammar above the primaries keeps the interface.\<close>

lemma parse_unary_returns:
  assumes "operand_parser primary m"
  shows "ps_len s \<le> k \<Longrightarrow> ps_len s \<le> m \<Longrightarrow>
     \<exists>n t. parse_unary k primary s = Some (n, t) \<and> parse_post s n t"
proof (induction k arbitrary: s rule: less_induct)
  case (less k)
  have prefix: "\<exists>n t. (case k of 0 \<Rightarrow> None
        | Suc k \<Rightarrow> do { (a, s) \<leftarrow> parse_unary k primary u; Some (Unary opr a, s) }) = Some (n, t)
      \<and> parse_post s n t" if u: "ps_eat tok v = (True, u)" "tok \<noteq> []" and
      v: "ps_len v \<le> ps_len s" "ps_signals v = ps_signals s" for tok u v opr
  proof -
    have lt: "ps_len u < ps_len s" using ps_eat_less [OF u] v by simp
    with less.prems obtain j where j: "k = Suc j" by (cases k) auto
    have "\<exists>n t. parse_unary j primary u = Some (n, t) \<and> parse_post u n t"
      using lt less.prems j by (intro less.IH) auto
    then obtain n t where n: "parse_unary j primary u = Some (n, t)" "parse_post u n t" by blast
    have "parse_post s (Unary opr n) t"
      using n(2) lt v ps_eat_frame(1) [OF u(1)] by (simp add: parse_post_def)
    with n(1) j show ?thesis by simp
  qed
  obtain b u where u: "ps_eat ''!'' s = (b, u)" by fastforce
  obtain c v where v: "ps_eat ''~'' u = (c, v)" by fastforce
  note fu = ps_eat_frame [OF u] and fv = ps_eat_frame [OF v]
  consider b | "\<not> b" c | "\<not> b" "\<not> c" by blast
  then show ?case
  proof cases
    case 1
    with u prefix [of "''!''" s u Bang] show ?thesis by (simp add: parse_unary.simps [of k])
  next
    case 2
    with u v fu prefix [of "''~''" u v Tilde] show ?thesis by (simp add: parse_unary.simps [of k])
  next
    case 3
    have "ps_len v \<le> m" using fu fv less.prems by simp
    from operand_parser.operand_returns [OF assms this] obtain n t where
      n: "primary v = Some (n, t)" "parse_post v n t" by blast
    have "parse_post s n t" using parse_post_frame [OF n(2)] fu fv by simp
    with 3 u v n(1) show ?thesis by (simp add: parse_unary.simps [of k])
  qed
qed

lemma operand_unary:
  "operand_parser primary m \<Longrightarrow> operand_parser (\<lambda>s. parse_unary (ps_len s) primary s) m"
  by unfold_locales (rule parse_unary_returns, simp_all)

lemma operand_chain:
  "operand_parser p m \<Longrightarrow> op_reader next_op \<Longrightarrow> operand_parser (chain next_op p) m"
  by unfold_locales (rule operand_parser.chain_returns)

lemma operand_parse_or:
  assumes "operand_parser primary m"
  shows "operand_parser (parse_or primary) m"
  unfolding parse_or_def parse_and_def parse_bitor_def parse_bitxor_def parse_bitand_def
    parse_compare_def
  by (intro operand_chain operand_unary assms op_reader_eat_first op_reader_eat_unless)
    (simp_all add: binary_ops_def)

lemma parse_literal_post: "parse_literal s = (n, t) \<Longrightarrow> parse_post s n t"
  by (auto simp: parse_literal_def parse_post_def Let_def length_dropWhile_le)

lemma parse_int_frame:
  "parse_int s = (i, t) \<Longrightarrow> ps_signals t = ps_signals s \<and> ps_len t \<le> ps_len s"
  using order_trans [OF length_dropWhile_le [of c_isdigit "ps_rest (ps_skip s)"] ps_skip_frame(3)]
  by (auto simp: parse_int_def Let_def split: if_splits)

lemma names_insort:
  "set (insort_insert x xs) = insert x (set xs)"
  "names_ok xs \<longrightarrow> names_ok (insort_insert x xs)"
  by (auto simp: names_ok_def set_insort_insert sorted_insort_insert distinct_insort_insert)

lemma close_bracket_frame: "ps_signals (close_bracket s) = ps_signals s \<and> ps_len (close_bracket s) \<le> ps_len s"
proof -
  obtain b u where u: "ps_eat '']'' s = (b, u)" by fastforce
  then show ?thesis using ps_eat_frame [OF u] by (cases b) (simp_all add: close_bracket_def)
qed

lemma select_after_frame:
  assumes "select_after name s = (n, t)"
  shows "ps_len t \<le> ps_len s \<and> ps_signals t = ps_signals s \<and> parsed_node n \<and> node_signals n = {name}"
proof -
  obtain b u where u: "ps_eat ''['' s = (b, u)" by fastforce
  note fu = ps_eat_frame [OF u]
  show ?thesis
  proof (cases b)
    case True
    obtain l v where v: "parse_int u = (l, v)" by fastforce
    obtain c w where w: "ps_eat '':'' v = (c, w)" by fastforce
    obtain r x where x: "(if c then parse_int w else (l, w)) = (r, x)" by fastforce
    have fx: "ps_signals x = ps_signals w \<and> ps_len x \<le> ps_len w"
      using x parse_int_frame [of w r x] by (auto split: if_splits)
    have "n = Select l r (Signal name)" "t = close_bracket x"
      using assms True u v w x by (simp_all add: select_after_def)
    then show ?thesis
      using fu fx parse_int_frame [OF v] ps_eat_frame [OF w] close_bracket_frame [of x] by simp
  next
    case False
    with assms u fu show ?thesis by (auto simp: select_after_def)
  qed
qed

lemma signal_or_select_post: "signal_or_select s = (n, t) \<Longrightarrow> parse_post s n t"
proof -
  assume e: "signal_or_select s = (n, t)"
  let ?u = "ps_skip s"
  let ?k = "name_length (ps_rest ?u)"
  let ?name = "take ?k (ps_rest ?u)"
  let ?v = "?u\<lparr>ps_rest := drop ?k (ps_rest ?u), ps_signals := insort_insert ?name (ps_signals ?u)\<rparr>"
  show ?thesis
  proof (cases "starts_name (ps_rest ?u)")
    case True
    with e have "select_after ?name ?v = (n, t)" by (simp add: signal_or_select_def Let_def)
    note f = select_after_frame [OF this]
    have "ps_len ?v \<le> ps_len s" using le_trans [OF diff_le_self ps_skip_frame(3)] by simp
    with f have "ps_len t \<le> ps_len s" using le_trans by blast
    with f show ?thesis
      using names_insort [where x = ?name and xs = "ps_signals s"]
      by (simp add: parse_post_def)
  next
    case False
    with e have "n = Literal []" "ps_signals t = ps_signals s" "ps_len t \<le> ps_len s"
      by (auto simp: signal_or_select_def Let_def)
    then show ?thesis by (simp add: parse_post_def)
  qed
qed

text \<open>The items of a concatenation, each of them read on a text of at most \<open>m\<close> characters.\<close>

context operand_parser
begin

lemma parse_items_returns:
  "ps_len s \<le> k \<Longrightarrow> ps_len s \<le> m \<Longrightarrow> parse_post s0 (Concat items) s \<Longrightarrow>
     \<exists>ns t. parse_items k operand items s = Some (ns, t) \<and> parse_post s0 (Concat ns) t"
proof (induction k arbitrary: items s rule: less_induct)
  case (less k)
  show ?case
  proof (cases "ps_error s = []")
    case False
    then show ?thesis using less.prems by (simp add: parse_items.simps [of k])
  next
    case True
    from operand_returns [OF less.prems(2)] obtain n u where
      u: "operand s = Some (n, u)" "parse_post s n u" by blast
    obtain b v where v: "ps_eat ''}'' u = (b, v)" by fastforce
    obtain c w where w: "ps_eat '','' v = (c, w)" by fastforce
    note fv = ps_eat_frame [OF v] and fw = ps_eat_frame [OF w]
    have post_u: "parse_post s0 (Concat (items @ [n])) u"
      using u(2) less.prems(3) by (auto simp: parse_post_def)
    have post_v: "parse_post s0 (Concat (items @ [n])) v"
      by (rule parse_post_frame [OF post_u]) (simp_all add: fv)
    have post_w: "parse_post s0 (Concat (items @ [n])) (ps_fail msg w)"
      "parse_post s0 (Concat (items @ [n])) w" for msg
      by (rule parse_post_frame [OF post_v]; simp add: fw)+
    consider b | "\<not> b" "\<not> c" | "\<not> b" c by blast
    then show ?thesis
    proof cases
      case 3
      have "ps_len w < ps_len v" using w 3 by (intro ps_eat_less [of "'',''"]) simp_all
      with fv(3) parse_post_len [OF u(2)] have lt: "ps_len w < ps_len s" by simp
      with less.prems obtain j where j: "k = Suc j" by (cases k) auto
      have "parse_items k operand items s = parse_items j operand (items @ [n]) w"
        using True u(1) v w 3 j by (simp add: parse_items.simps [of "Suc j"])
      with lt less.prems j post_w(2) show ?thesis by (auto intro: less.IH)
    qed (use True u(1) v w post_v post_w in \<open>auto simp: parse_items.simps [of k]\<close>)
  qed
qed

end

lemma parse_primary_returns:
  "ps_len s \<le> k \<Longrightarrow> \<exists>n t. parse_primary k s = Some (n, t) \<and> parse_post s n t"
proof (induction k arbitrary: s rule: less_induct)
  case (less k)
  obtain b u where u: "ps_eat ''('' (ps_skip s) = (b, u)" by fastforce
  obtain c v where v: "ps_eat ''{'' u = (c, v)" by fastforce
  note fu = ps_eat_frame [OF u] and fv = ps_eat_frame [OF v]
  have len: "ps_len u \<le> ps_len s" "ps_len v \<le> ps_len s"
    using fu(3) fv(3) ps_skip_frame(3) le_trans by blast+
  have sig: "ps_signals u = ps_signals s" "ps_signals v = ps_signals s" using fu(1) fv(1) by simp_all
  have inner: "operand_parser (parse_or (parse_primary j)) j" if "j < k" for j
    by (rule operand_parse_or, unfold_locales, rule less.IH [OF that])
  consider b | "\<not> b" c | "\<not> b" "\<not> c" by blast
  then show ?case
  proof cases
    case 1
    with u have "ps_len u < ps_len (ps_skip s)" by (intro ps_eat_less [of "''(''"]) simp_all
    with ps_skip_frame(3) [of s] have "ps_len u < ps_len s" by linarith
    with less.prems obtain j where j: "k = Suc j" "ps_len u \<le> j" by (cases k) auto
    from operand_parser.operand_returns [OF inner j(2)] j obtain n t where
      t: "parse_or (parse_primary j) u = Some (n, t)" "parse_post u n t" by auto
    obtain d w where w: "ps_eat '')'' t = (d, w)" by fastforce
    note fw = ps_eat_frame [OF w]
    have "parse_primary k s = Some (n, if ps_error t \<noteq> [] then t else if d then w else ps_fail (''missing '' @ quoted '')'') w)"
      using 1 u t(1) w j by (simp add: parse_primary.simps [of "Suc j"])
    moreover have "parse_post s n t" "parse_post s n w" "parse_post s n (ps_fail msg w)" for msg
      by (rule parse_post_frame [OF t(2)]; simp add: fw len sig)+
    ultimately show ?thesis by simp
  next
    case 2
    with v have "ps_len v < ps_len u" by (intro ps_eat_less [of "''{''"]) simp_all
    with len(1) have "ps_len v < ps_len s" by linarith
    with less.prems obtain j where j: "k = Suc j" "ps_len v \<le> j" by (cases k) auto
    have "parse_post v (Concat []) v" by (simp add: parse_post_def)
    from operand_parser.parse_items_returns [OF inner order_refl j(2) this] j obtain ns t where
      t: "parse_items (ps_len v) (parse_or (parse_primary j)) [] v = Some (ns, t)" "parse_post v (Concat ns) t"
      by auto
    have "parse_primary k s = Some (Concat ns, t)"
      using 2 u v t(1) j by (simp add: parse_primary.simps [of "Suc j"])
    moreover have "parse_post s (Concat ns) t" by (rule parse_post_frame [OF t(2)]) (simp_all add: len sig)
    ultimately show ?thesis by simp
  next
    case 3
    let ?n = "if ps_rest v \<noteq> [] \<and> (c_isdigit (hd (ps_rest v)) \<or> hd (ps_rest v) = CHR 0x27)
      then parse_literal v else signal_or_select v"
    have "parse_primary k s = Some ?n"
      using 3 u v by (simp add: parse_primary.simps [of k])
    moreover obtain n t where n: "?n = (n, t)" by fastforce
    moreover have "parse_post v n t"
      using n parse_literal_post signal_or_select_post by (simp split: if_splits)
    then have "parse_post s n t" by (rule parse_post_frame) (simp_all add: len sig)
    ultimately show ?thesis by simp
  qed
qed

text \<open>The grammar provides the interface that its levels rest on.\<close>

interpretation grammar: operand_parser "parse_or (parse_primary k)" k for k
  by (rule operand_parse_or, unfold_locales, rule parse_primary_returns)

lemma parser_parse_returns:
  "\<exists>n t. parser_parse text err = Some (n, t) \<and> parsed_node n \<and> set (ps_signals t) = node_signals n
     \<and> names_ok (ps_signals t)"
proof -
  let ?s = "\<lparr>ps_rest = text, ps_signals = [], ps_error = err\<rparr>"
  have "ps_len ?s \<le> length text" by simp
  from grammar.operand_returns [OF this] obtain n t where
    t: "parse_or (parse_primary (length text)) ?s = Some (n, t)" "parse_post ?s n t" by blast
  have "names_ok []" by (simp add: names_ok_def)
  with t show ?thesis by (auto simp: parser_parse_def parse_post_def Let_def)
qed

section \<open>Evaluation\<close>

text \<open>
  A value is consistent when its bits are four-state and it is known exactly when they are binary.
\<close>

definition sv_ok :: "stream_value \<Rightarrow> bool" where
  "sv_ok v \<longleftrightarrow> four_state (sv_bits v) \<and> (sv_known v \<longleftrightarrow> binary (sv_bits v))"

definition values_ok :: "signal_values \<Rightarrow> bool" where
  "values_ok values \<longleftrightarrow> (\<forall>t v. values t = Some v \<longrightarrow> sv_ok v)"

lemma has_xz_four_state: "four_state b \<Longrightarrow> has_xz_bits b \<longleftrightarrow> \<not> binary b"
  by (induction b) (auto simp: has_xz_bits_def)

lemma sv_ok_bits: "four_state b \<Longrightarrow> sv_ok (StreamValue b (\<not> has_xz_bits b) r)"
  by (simp add: sv_ok_def has_xz_four_state)

lemma sv_ok_unknown [simp]: "sv_ok unknown_value"
  by (simp add: sv_ok_def unknown_value_def)

lemma sv_ok_one_bit [simp]: "sv_ok (one_bit b)"
  by (simp add: sv_ok_def one_bit_def)

lemma four_state_lower_bits: "four_state (lower_bits t)"
proof
  fix d
  assume "d \<in> set (lower_bits t)"
  then obtain c where "c \<in> set ''01xXzZ''" "d = c_tolower c" by (auto simp: lower_bits_def)
  then show "d \<in> {CHR ''0'', CHR ''1'', CHR ''x'', CHR ''z''}"
    by (simp, elim disjE) (hypsubst; code_simp)+
qed

lemma four_state_hex_loop:
  "expr_hex_loop t out = Some b \<Longrightarrow> four_state out \<Longrightarrow> four_state b"
proof (induction t out rule: expr_hex_loop.induct)
  case (2 c cs out)
  have xz: "four_state (replicate 4 (c_tolower c))" if "c \<in> set ''xXzZ''"
    using that by (simp, elim disjE) (hypsubst; code_simp)+
  have nib: "four_state (nibble_bits d)" for d using binary_nibble_bits [of d] by auto
  have split: "four_state (out @ s)" if "four_state s" for s using that 2(5) by simp
  show ?case
  proof (cases "c = CHR ''_'' \<or> c_isspace c")
    case True
    with 2 show ?thesis by simp
  next
    case sep: False
    show ?thesis
    proof (cases "c \<in> set ''xXzZ''")
      case True
      then have "expr_hex_loop cs (out @ replicate 4 (c_tolower c)) = Some b" using sep 2(4) by simp
      with 2(2) [OF sep True] split [OF xz [OF True]] show ?thesis by blast
    next
      case False
      then have "base_digit c < 16" "expr_hex_loop cs (out @ nibble_bits (base_digit c)) = Some b"
        using sep 2(4) by (auto split: if_splits)
      with 2(3) [OF sep False] split [OF nib] show ?thesis by blast
    qed
  qed
qed simp

lemma four_state_hex: "four_state (expr_hex_to_bits t)"
proof (cases "expr_hex_loop t []")
  case None
  then show ?thesis by (simp add: expr_hex_to_bits_def)
next
  case (Some out)
  then have "four_state out" using four_state_hex_loop [of t "[]"] by simp
  with Some show ?thesis by (simp add: expr_hex_to_bits_def)
qed

lemma binary_low_bits: "binary (low_bits v)"
  by (induction v rule: low_bits.induct) (subst low_bits.simps, auto)

lemma four_state_dec: "four_state (expr_dec_to_bits t)"
  using binary_low_bits by (auto simp: expr_dec_to_bits_def split: prod.splits)

lemma four_state_literal_bits: "literal_bits s = (w, b) \<Longrightarrow> four_state b"
proof -
  assume e: "literal_bits s = (w, b)"
  have based: "based_bits c t \<in> {lower_bits t, expr_hex_to_bits t, expr_dec_to_bits t, []}" for c t
    by (simp add: based_bits_def)
  have unbased: "unbased_bits s \<in> {lower_bits (drop 2 s), expr_hex_to_bits (drop 2 s), expr_dec_to_bits s}"
    by (simp add: unbased_bits_def)
  have "b = unbased_bits s \<or> (\<exists>c t. b = based_bits c t)"
    using e unfolding literal_bits_def by (auto split: option.splits if_split_asm)
  then have "b \<in> range lower_bits \<union> range expr_hex_to_bits \<union> range expr_dec_to_bits \<union> {[]}"
    using based unbased by blast
  then show ?thesis using four_state_lower_bits four_state_hex four_state_dec by fastforce
qed

lemma sv_ok_literal: "sv_ok (literal_value s)"
proof -
  obtain w b where b: "literal_bits s = (w, b)" by fastforce
  have "four_state (if b = [] then ''x'' else b)" using four_state_literal_bits [OF b] by simp
  then have "four_state (fit_bits w (if b = [] then ''x'' else b))"
    using set_fit_bits [of w "if b = [] then ''x'' else b"] by auto
  from sv_ok_bits [OF this] show ?thesis by (simp add: literal_value_def b Let_def)
qed

lemma sv_ok_select: "sv_ok base \<Longrightarrow> eval_select base l r = Some v \<Longrightarrow> sv_ok v"
proof -
  assume ok: "sv_ok base" and e: "eval_select base l r = Some v"
  have "four_state (take k (drop j (sv_bits base)))" for k j
    using ok set_take_subset [of k "drop j (sv_bits base)"] set_drop_subset [of j "sv_bits base"]
    by (simp add: sv_ok_def) blast
  with e show ?thesis by (auto simp: eval_select_def Let_def sv_ok_bits split: if_splits)
qed

lemma sv_ok_unary: "sv_ok (eval_unary opr v)"
proof (cases opr)
  case Tilde
  have "four_state (map invert_bit (sv_bits v))" by (auto simp: invert_bit_def)
  from sv_ok_bits [OF this] show ?thesis by (simp add: eval_unary_def Tilde Let_def)
qed (simp add: eval_unary_def)

lemma bit_gate_cases: "bit_gate opr l r \<in> {CHR ''0'', CHR ''1'', CHR ''x''}"
  by (simp add: bit_gate_def Let_def)

lemma four_state_gate: "four_state (gate_bits opr a b)"
  unfolding gate_bits_def using bit_gate_cases [of opr] by fastforce

lemma sv_ok_operators:
  "sv_ok (eval_logical opr l r)" "sv_ok (eval_gate opr l r)" "sv_ok (eval_compare opr l r)"
  by (simp_all add: eval_logical_def eval_gate_def eval_compare_def Let_def sv_ok_bits four_state_gate
      split: option.split del: insert_iff)

lemma sv_ok_binary: "eval_binary opr l r = Some v \<Longrightarrow> sv_ok v"
  using sv_ok_operators unfolding eval_binary_def by (metis option.distinct(1) option.inject)

lemma eval_ok:
  "values_ok vals \<Longrightarrow> sv_ok (fst (eval_node n vals err))"
  "values_ok vals \<Longrightarrow> four_state bits \<Longrightarrow> (known \<longleftrightarrow> binary bits) \<Longrightarrow>
     sv_ok (fst (eval_items ns vals err bits known reliable))"
proof (induction n vals err and ns vals err bits known reliable rule: eval_node_eval_items.induct)
  case (1 t vals err)
  show ?case by (simp add: sv_ok_literal)
next
  case (2 t vals err)
  then show ?case by (auto simp: values_ok_def split: option.splits)
next
  case (3 l r a vals err)
  obtain v e where v: "eval_node a vals err = (v, e)" by fastforce
  have "sv_ok v" using 3(1) [OF 3(2)] v by simp
  then show ?case using v sv_ok_select [of v l r] by (cases "eval_select v l r") simp_all
next
  case (4 items vals err)
  then show ?case by simp
next
  case (5 opr a vals err)
  obtain v e where v: "eval_node a vals err = (v, e)" by fastforce
  then show ?case by (simp add: sv_ok_unary)
next
  case (6 opr a b vals err)
  obtain v e where v: "eval_node a vals err = (v, e)" by fastforce
  obtain w f where w: "eval_node b vals e = (w, f)" by fastforce
  show ?case using v w sv_ok_binary [of opr v w]
    by (cases "e = []"; cases "f = []"; cases "eval_binary opr v w") simp_all
next
  case (7 vals err bits known reliable)
  then show ?case by (auto simp: sv_ok_def Let_def has_xz_four_state)
next
  case (8 n ns vals err bits known reliable)
  obtain v e where v: "eval_node n vals err = (v, e)" by fastforce
  show ?case
  proof (cases "e = []")
    case True
    have "sv_ok v" using 8(1) [OF 8(3)] v by simp
    with 8(4,5) have "four_state (bits @ sv_bits v)" "known \<and> sv_known v \<longleftrightarrow> binary (bits @ sv_bits v)"
      by (auto simp: sv_ok_def)
    with 8(2) [OF v [symmetric] refl] True 8(3) v show ?thesis by simp
  qed (simp add: v)
qed

subsection \<open>Unknown bits\<close>

text \<open>One value refines another when it decides unknown bits and changes nothing else.\<close>

definition sv_refines :: "stream_value \<Rightarrow> stream_value \<Rightarrow> bool" where
  "sv_refines u v \<longleftrightarrow> list_all2 bit_refines (sv_bits u) (sv_bits v)
     \<and> sv_width_reliable v = sv_width_reliable u"

definition values_refine :: "signal_values \<Rightarrow> signal_values \<Rightarrow> bool" where
  "values_refine us vs \<longleftrightarrow> (\<forall>t. rel_option sv_refines (us t) (vs t))"

lemma bit_refines_refl: "list_all2 bit_refines s s"
  by (simp add: list_all2_same)

lemma sv_refines_refl [simp]: "sv_refines v v"
  by (simp add: sv_refines_def bit_refines_refl)

lemma sv_refines_length: "sv_refines u v \<Longrightarrow> length (sv_bits v) = length (sv_bits u)"
  by (auto simp: sv_refines_def dest: list_all2_lengthD)

lemma sv_refines_known: "sv_refines u v \<Longrightarrow> sv_ok u \<Longrightarrow> sv_ok v \<Longrightarrow> sv_known u \<Longrightarrow> v = u"
  using binary_refines_eq [of "sv_bits u" "sv_bits v"]
  by (cases u; cases v) (simp add: sv_refines_def sv_ok_def)

lemma unknown_refined [simp]: "sv_refines unknown_value (one_bit b)"
  by (simp add: sv_refines_def unknown_value_def one_bit_def)

lemma gate_refines:
  "bit_refines a b \<Longrightarrow> bit_refines c d \<Longrightarrow> bit_refines (bit_gate opr a c) (bit_gate opr b d)"
  by (auto simp: bit_gate_def)

lemma gate_bits_refine:
  "list_all2 bit_refines a b \<Longrightarrow> list_all2 bit_refines c d \<Longrightarrow>
     list_all2 bit_refines (gate_bits opr a c) (gate_bits opr b d)"
proof (induction a b arbitrary: c d rule: list_all2_induct)
  case Nil
  then show ?case by (simp add: gate_bits_def)
next
  case (Cons x xs y ys)
  show ?case
  proof (cases c)
    case Nil
    with Cons.prems show ?thesis by (simp add: gate_bits_def)
  next
    case (Cons z zs)
    then obtain w ws where d: "d = w # ws" "bit_refines z w" "list_all2 bit_refines zs ws"
      using Cons.prems by (auto simp: list_all2_Cons1)
    have "bit_refines (bit_gate opr x z) (bit_gate opr y w)"
      by (rule gate_refines [OF Cons.hyps(1) d(2)])
    with Cons.IH [OF d(3)] show ?thesis unfolding Cons d(1) gate_bits_def
      by (simp only: zip_Cons_Cons list.map prod.case list_all2_Cons)
  qed
qed

lemma align_refines:
  "sv_refines u v \<Longrightarrow> list_all2 bit_refines (sv_bits (align_left u w)) (sv_bits (align_left v w))"
  using sv_refines_length [of u v]
  by (simp add: align_left_def sv_refines_def list_all2_appendI bit_refines_refl)

lemma eval_select_refine:
  "sv_refines u v \<Longrightarrow> rel_option sv_refines (eval_select u l r) (eval_select v l r)"
  using sv_refines_length [of u v]
  by (auto simp: eval_select_def Let_def sv_refines_def intro!: list_all2_takeI list_all2_dropI)

lemma eval_unary_refine:
  assumes "sv_refines u v" "sv_ok u" "sv_ok v"
  shows "sv_refines (eval_unary opr u) (eval_unary opr v)"
proof (cases opr)
  case Bang
  show ?thesis
  proof (cases "sv_known u")
    case True
    with sv_refines_known [OF assms] show ?thesis by simp
  next
    case False
    then show ?thesis by (simp add: eval_unary_def Bang)
  qed
next
  case Tilde
  have "list_all2 bit_refines (map invert_bit (sv_bits u)) (map invert_bit (sv_bits v))"
    using assms(1) unfolding sv_refines_def list.rel_map
    by (auto simp: invert_bit_def elim!: list_all2_mono)
  with assms(1) show ?thesis by (simp add: eval_unary_def Tilde Let_def sv_refines_def)
qed

lemma eval_logical_refine:
  assumes "sv_refines u v" "sv_refines x y" "sv_ok u" "sv_ok v" "sv_ok x" "sv_ok y"
  shows "sv_refines (eval_logical opr u x) (eval_logical opr v y)"
proof (cases "sv_known u \<and> sv_known x")
  case True
  then have "v = u" "y = x" using sv_refines_known assms by blast+
  then show ?thesis by simp
next
  case False
  then have "eval_logical opr u x = unknown_value" by (auto simp: eval_logical_def)
  then show ?thesis by (simp add: eval_logical_def Let_def)
qed

lemma eval_compare_refine:
  assumes "sv_refines u v" "sv_refines x y" "sv_ok u" "sv_ok v" "sv_ok x" "sv_ok y"
  shows "sv_refines (eval_compare opr u x) (eval_compare opr v y)"
proof (cases "sv_known u \<and> sv_known x")
  case True
  then have "v = u" "y = x" using sv_refines_known assms by blast+
  then show ?thesis by simp
next
  case False
  then have "eval_compare opr u x = unknown_value"
    by (auto simp: eval_compare_def unsigned_value_def split: option.split)
  then show ?thesis by (simp add: eval_compare_def split: option.split)
qed

lemma eval_gate_refine:
  assumes "sv_refines u v" "sv_refines x y"
  shows "sv_refines (eval_gate opr u x) (eval_gate opr v y)"
proof -
  have len: "length (sv_bits v) = length (sv_bits u)" "length (sv_bits y) = length (sv_bits x)"
    using assms sv_refines_length by blast+
  show ?thesis
    using gate_bits_refine [OF align_refines [OF assms(1)] align_refines [OF assms(2)]] assms
    by (simp add: eval_gate_def Let_def len sv_refines_def)
qed

lemma eval_binary_refine:
  assumes "sv_refines u v" "sv_refines x y" "sv_ok u" "sv_ok v" "sv_ok x" "sv_ok y"
  shows "rel_option sv_refines (eval_binary opr u x) (eval_binary opr v y)"
  unfolding eval_binary_def
  using eval_logical_refine [OF assms] eval_gate_refine [OF assms(1,2)] eval_compare_refine [OF assms]
  by (cases "opr \<in> {''&&'', ''||''}"; cases "opr \<in> {''&'', ''|'', ''^''}";
      cases "opr \<in> {''=='', ''!='', ''>'', ''>='', ''<'', ''<=''}";
      simp only: if_True if_False option.rel_inject simp_thms)

text \<open>
  Evaluation is monotone: on refined values it ends with the same error, or without one, and its
  value is refined.
\<close>

definition result_refines :: "stream_value \<times> string \<Rightarrow> stream_value \<times> string \<Rightarrow> bool" where
  "result_refines p q \<longleftrightarrow> snd q = snd p \<and> sv_refines (fst p) (fst q)"

lemma result_refinesE:
  assumes "result_refines p q" "p = (u, e)"
  obtains v where "q = (v, e)" "sv_refines u v"
  using assms by (cases q) (auto simp: result_refines_def)

lemma eval_refines:
  "values_ok us \<Longrightarrow> values_ok vs \<Longrightarrow> values_refine us vs \<Longrightarrow>
     result_refines (eval_node n us err) (eval_node n vs err)"
  "values_ok us \<Longrightarrow> values_ok vs \<Longrightarrow> values_refine us vs \<Longrightarrow> list_all2 bit_refines bits bits' \<Longrightarrow>
     result_refines (eval_items ns us err bits known reliable) (eval_items ns vs err bits' known' reliable)"
proof (induction n us err and ns us err bits known reliable arbitrary: and bits' known'
    rule: eval_node_eval_items.induct)
  case (1 t us err)
  show ?case by (simp add: result_refines_def)
next
  case (2 t us err)
  then have "rel_option sv_refines (us t) (vs t)" by (simp add: values_refine_def)
  then show ?case by (cases "us t"; cases "vs t") (simp_all add: result_refines_def)
next
  case (3 l r a us err)
  obtain u e where u: "eval_node a us err = (u, e)" by fastforce
  from 3(1) [OF 3(2-4)] u obtain v where v: "eval_node a vs err = (v, e)" "sv_refines u v"
    by (rule result_refinesE)
  from eval_select_refine [OF v(2), of l r] show ?case
    by (cases "eval_select u l r"; cases "eval_select v l r") (simp_all add: u v(1) result_refines_def)
next
  case (4 items us err)
  then show ?case by simp
next
  case (5 opr a us err)
  obtain u e where u: "eval_node a us err = (u, e)" by fastforce
  from 5(1) [OF 5(2-4)] u obtain v where v: "eval_node a vs err = (v, e)" "sv_refines u v"
    by (rule result_refinesE)
  have "sv_ok u" "sv_ok v" using eval_ok(1) [OF 5(2), of a err] eval_ok(1) [OF 5(3), of a err] u v by simp_all
  from eval_unary_refine [OF v(2) this] show ?case by (simp add: u v(1) result_refines_def)
next
  case (6 opr a b us err)
  obtain u e where u: "eval_node a us err = (u, e)" by fastforce
  from 6(1) [OF 6(3-5)] u obtain v where v: "eval_node a vs err = (v, e)" "sv_refines u v"
    by (rule result_refinesE)
  show ?case
  proof (cases "e = []")
    case True
    obtain x f where x: "eval_node b us e = (x, f)" by fastforce
    from 6(2) [OF u [symmetric] refl _ 6(3-5)] True x obtain y where
      y: "eval_node b vs e = (y, f)" "sv_refines x y" by (auto elim: result_refinesE)
    have "sv_ok u" "sv_ok v" "sv_ok x" "sv_ok y"
      using eval_ok(1) [OF 6(3), of a err] eval_ok(1) [OF 6(4), of a err] u v
        eval_ok(1) [OF 6(3), of b e] eval_ok(1) [OF 6(4), of b e] x y by simp_all
    from eval_binary_refine [OF v(2) y(2) this, of opr] u v(1) x y(1) True show ?thesis
      by (cases "f = []"; cases "eval_binary opr u x"; cases "eval_binary opr v y")
        (simp_all add: result_refines_def)
  qed (simp add: u v(1) result_refines_def)
next
  case (7 us err bits known reliable)
  then have "bits' = [] \<longleftrightarrow> bits = []" by auto
  with 7 show ?case by (auto simp: result_refines_def sv_refines_def Let_def)
next
  case (8 n ns us err bits known reliable)
  obtain u e where u: "eval_node n us err = (u, e)" by fastforce
  from 8(1) [OF 8(3-5)] u obtain v where v: "eval_node n vs err = (v, e)" "sv_refines u v"
    by (rule result_refinesE)
  show ?case
  proof (cases "e = []")
    case True
    have "list_all2 bit_refines (bits @ sv_bits u) (bits' @ sv_bits v)"
      using 8(6) v(2) by (simp add: sv_refines_def list_all2_appendI)
    from 8(2) [OF u [symmetric] refl _ 8(3-5) this] True u v show ?thesis
      by (simp add: sv_refines_def)
  qed (simp add: u v(1) result_refines_def)
qed

subsection \<open>Numbers\<close>

text \<open>
  The reference meaning of an expression: a width and an unsigned number, over the widths and the
  numbers of the signals.
\<close>

definition num_unary :: "unary_op \<Rightarrow> nat \<times> nat \<Rightarrow> nat \<times> nat" where
  "num_unary opr p =
     (case opr of Bang \<Rightarrow> (1, if snd p = 0 then 1 else 0) | Tilde \<Rightarrow> (fst p, 2 ^ fst p - 1 - snd p))"

definition num_binary :: "string \<Rightarrow> nat \<times> nat \<Rightarrow> nat \<times> nat \<Rightarrow> nat \<times> nat" where
  "num_binary opr p q =
     (let w = max (fst p) (fst q); a = snd p; b = snd q; truth = (\<lambda>t. (1, if t then 1 else 0))
      in if opr = ''&&'' then truth (a \<noteq> 0 \<and> b \<noteq> 0)
         else if opr = ''||'' then truth (a \<noteq> 0 \<or> b \<noteq> 0)
         else if opr = ''&'' then (w, and a b)
         else if opr = ''|'' then (w, or a b)
         else if opr = ''^'' then (w, xor a b)
         else truth (compare_numbers opr a b))"

fun denote :: "node \<Rightarrow> (string \<Rightarrow> nat \<times> nat) \<Rightarrow> nat \<times> nat" where
  "denote (Literal t) env = (length (sv_bits (literal_value t)), bits_value (sv_bits (literal_value t)))"
| "denote (Signal t) env = env t"
| "denote (Select l r a) env =
     (let hi = nat (max l r); lo = nat (min l r)
      in (hi - lo + 1, (snd (denote a env) div 2 ^ lo) mod 2 ^ (hi - lo + 1)))"
| "denote (Concat ns) env =
     (let (w, v) = foldl (\<lambda>(w, v) (x, y). (w + x, v * 2 ^ x + y)) (0, 0) (map (\<lambda>n. denote n env) ns)
      in if w = 0 then (1, 0) else (w, v))"
| "denote (Unary opr a) env = num_unary opr (denote a env)"
| "denote (Binary opr a b) env = num_binary opr (denote a env) (denote b env)"

definition sv_number :: "stream_value \<Rightarrow> nat \<times> nat" where
  "sv_number v = (length (sv_bits v), bits_value (sv_bits v))"

definition signal_numbers :: "signal_values \<Rightarrow> string \<Rightarrow> nat \<times> nat" where
  "signal_numbers vals t = (case vals t of None \<Rightarrow> (0, 0) | Some v \<Rightarrow> sv_number v)"

lemma list_ex_one: "list_ex (\<lambda>c. c = CHR ''1'') b \<longleftrightarrow> bits_value b \<noteq> 0"
proof (induction b)
  case (Cons c b)
  then show ?case by (auto simp: bits_value_Cons bit_of_def)
qed simp

lemma unsigned_loop_value: "binary b \<Longrightarrow> unsigned_loop b n = Some (n * 2 ^ length b + bits_value b)"
  by (induction b arbitrary: n) (auto simp: bits_value_Cons algebra_simps)

lemma unsigned_value_number:
  "sv_ok v \<Longrightarrow> unsigned_value v = Some k \<Longrightarrow> sv_known v \<and> k = bits_value (sv_bits v)"
  using unsigned_loop_value [of "sv_bits v" 0] by (auto simp: unsigned_value_def sv_ok_def split: if_splits)

lemma number_one_bit: "sv_number (one_bit b) = (1, if b then 1 else 0)"
  by (simp add: sv_number_def one_bit_def bits_value_Cons)

lemma bits_value_invert: "binary b \<Longrightarrow> bits_value (map invert_bit b) + bits_value b = 2 ^ length b - 1"
proof (induction b)
  case (Cons c b)
  have "bit_of (invert_bit c) + bit_of c = 1" using Cons.prems by (auto simp: invert_bit_def bit_of_def)
  then have "bit_of (invert_bit c) * 2 ^ length b + bit_of c * 2 ^ length b = 2 ^ length b"
    by (metis add_mult_distrib mult_1)
  moreover have "bits_value (map invert_bit b) + bits_value b = 2 ^ length b - 1"
    using Cons by simp
  moreover have "(1::nat) \<le> 2 ^ length b" by simp
  ultimately show ?case unfolding list.map bits_value_Cons length_map list.size power_Suc
    by simp
qed simp

lemma binary_invert: "binary (map invert_bit b) \<longleftrightarrow> binary b"
proof (induction b)
  case (Cons c b)
  have "invert_bit c \<in> {CHR ''0'', CHR ''1''} \<longleftrightarrow> c \<in> {CHR ''0'', CHR ''1''}"
    by (simp add: invert_bit_def)
  with Cons show ?case by simp
qed simp

lemma number_unary:
  assumes "sv_ok v" "sv_known (eval_unary opr v)"
  shows "sv_known v \<and> sv_number (eval_unary opr v) = num_unary opr (sv_number v)"
proof (cases opr)
  case Bang
  with assms have "sv_known v" by (auto simp: eval_unary_def unknown_value_def split: if_splits)
  then show ?thesis
    by (simp add: eval_unary_def Bang num_unary_def stream_value_truthy_def list_ex_one sv_number_def
        one_bit_def bits_value_Cons)
next
  case Tilde
  have four: "four_state (map invert_bit (sv_bits v))" by (auto simp: invert_bit_def)
  have "binary (map invert_bit (sv_bits v))"
    using assms(2) has_xz_four_state [OF four] by (simp add: eval_unary_def Tilde Let_def)
  then have b: "binary (sv_bits v)" using binary_invert by blast
  then have "sv_known v" using assms(1) by (simp add: sv_ok_def)
  with bits_value_invert [OF b] show ?thesis
    by (simp add: eval_unary_def Tilde Let_def num_unary_def sv_number_def)
qed

text \<open>A gate works on the binary digits of two texts of the same length.\<close>

lemma bit_gate_known: "bit_gate opr l r \<in> {CHR ''0'', CHR ''1''} \<longleftrightarrow> l \<in> {CHR ''0'', CHR ''1''} \<and> r \<in> {CHR ''0'', CHR ''1''}"
  by (simp add: bit_gate_def Let_def)

lemma gate_bits_known:
  "length a = length b \<Longrightarrow> binary (gate_bits opr a b) \<longleftrightarrow> binary a \<and> binary b"
proof (induction a b rule: list_induct2)
  case (Cons x xs y ys)
  then show ?case using bit_gate_known [of opr x y] by (simp add: gate_bits_def del: insert_iff) blast
qed (simp add: gate_bits_def)

lemma from_lsb_gate:
  assumes "length a = length b" "k < length a"
  shows "from_lsb k (gate_bits opr a b) = bit_gate opr (from_lsb k a) (from_lsb k b)"
  using assms by (simp add: from_lsb_def gate_bits_def)

lemma bit_of_gate:
  assumes "length a = length b" "binary a" "binary b"
  shows "bit (bits_value (gate_bits ''&'' a b)) k \<longleftrightarrow> bit (bits_value a) k \<and> bit (bits_value b) k"
    and "bit (bits_value (gate_bits ''|'' a b)) k \<longleftrightarrow> bit (bits_value a) k \<or> bit (bits_value b) k"
    and "bit (bits_value (gate_bits ''^'' a b)) k \<longleftrightarrow> bit (bits_value a) k \<noteq> bit (bits_value b) k"
proof -
  have g: "bit (bits_value (gate_bits opr a b)) k
      \<longleftrightarrow> k < length a \<and> bit_gate opr (from_lsb k a) (from_lsb k b) = CHR ''1''" for opr
  proof (cases "k < length a")
    case True
    with assms(1) show ?thesis by (simp add: bit_bits_value from_lsb_gate)
  next
    case False
    then have "\<not> bit (bits_value (gate_bits opr a b)) k"
      using assms(1) by (intro bit_beyond) (simp add: gate_bits_def)
    with False show ?thesis by simp
  qed
  have far: "\<not> bit (bits_value a) k \<and> \<not> bit (bits_value b) k" if "\<not> k < length a"
    using that assms(1) bit_beyond [of a k] bit_beyond [of b k] by simp
  have ab: "from_lsb k a = CHR ''0'' \<or> from_lsb k a = CHR ''1''"
    "from_lsb k b = CHR ''0'' \<or> from_lsb k b = CHR ''1''"
    using from_lsb_binary assms by blast+
  show "bit (bits_value (gate_bits ''&'' a b)) k \<longleftrightarrow> bit (bits_value a) k \<and> bit (bits_value b) k"
    using g [of "''&''"] far ab unfolding bit_bits_value [of a] bit_bits_value [of b] by (auto simp: bit_gate_def)
  show "bit (bits_value (gate_bits ''|'' a b)) k \<longleftrightarrow> bit (bits_value a) k \<or> bit (bits_value b) k"
    using g [of "''|''"] far ab unfolding bit_bits_value [of a] bit_bits_value [of b] by (auto simp: bit_gate_def)
  show "bit (bits_value (gate_bits ''^'' a b)) k \<longleftrightarrow> bit (bits_value a) k \<noteq> bit (bits_value b) k"
    using g [of "''^''"] far ab unfolding bit_bits_value [of a] bit_bits_value [of b] by (auto simp: bit_gate_def)
qed

lemma bits_value_gate:
  assumes "length a = length b" "binary a" "binary b"
  shows "bits_value (gate_bits ''&'' a b) = and (bits_value a) (bits_value b)"
    and "bits_value (gate_bits ''|'' a b) = or (bits_value a) (bits_value b)"
    and "bits_value (gate_bits ''^'' a b) = xor (bits_value a) (bits_value b)"
  by (rule bit_eqI; simp add: bit_of_gate [OF assms] bit_and_iff bit_or_iff bit_xor_iff)+

lemma align_left_bits:
  "length (sv_bits (align_left v w)) = max w (length (sv_bits v))"
  "bits_value (sv_bits (align_left v w)) = bits_value (sv_bits v)"
  "binary (sv_bits (align_left v w)) \<longleftrightarrow> binary (sv_bits v)"
  by (auto simp: align_left_def)

lemma number_gate:
  assumes "sv_ok l" "sv_ok r" "opr \<in> {''&'', ''|'', ''^''}" "sv_known (eval_gate opr l r)"
  shows "sv_known l \<and> sv_known r \<and> sv_number (eval_gate opr l r) = num_binary opr (sv_number l) (sv_number r)"
proof -
  let ?w = "max (length (sv_bits l)) (length (sv_bits r))"
  let ?a = "sv_bits (align_left l ?w)" and ?b = "sv_bits (align_left r ?w)"
  have len: "length ?a = ?w" "length ?b = ?w" by (simp_all add: align_left_bits)
  then have len': "length ?a = length ?b" by (simp only:)
  have bits: "sv_bits (eval_gate opr l r) = gate_bits opr ?a ?b" by (simp add: eval_gate_def Let_def)
  have "binary (gate_bits opr ?a ?b)"
    using assms(4) has_xz_four_state [OF four_state_gate] by (simp add: eval_gate_def Let_def)
  then have ab: "binary ?a" "binary ?b" using gate_bits_known [OF len'] by blast+
  then have known: "sv_known l" "sv_known r" using assms(1,2) by (simp_all add: align_left_bits sv_ok_def)
  have "length (gate_bits opr ?a ?b) = ?w" using len by (simp add: gate_bits_def)
  moreover have "bits_value (gate_bits opr ?a ?b) = snd (num_binary opr (sv_number l) (sv_number r))"
    using assms(3) bits_value_gate [OF len' ab]
    by (auto simp: num_binary_def Let_def sv_number_def align_left_bits)
  moreover have "fst (num_binary opr (sv_number l) (sv_number r)) = ?w"
    using assms(3) by (auto simp: num_binary_def Let_def sv_number_def)
  ultimately show ?thesis using known bits by (simp add: sv_number_def prod_eq_iff)
qed

lemma number_binary:
  assumes "sv_ok l" "sv_ok r" "eval_binary opr l r = Some v" "sv_known v"
  shows "sv_known l \<and> sv_known r \<and> sv_number v = num_binary opr (sv_number l) (sv_number r)"
proof -
  have not_known: "\<not> sv_known unknown_value" by (simp add: unknown_value_def)
  consider "opr \<in> {''&&'', ''||''}" "v = eval_logical opr l r"
    | "opr \<in> {''&'', ''|'', ''^''}" "v = eval_gate opr l r"
    | "opr \<in> {''=='', ''!='', ''>'', ''>='', ''<'', ''<=''}" "v = eval_compare opr l r"
    using assms(3) unfolding eval_binary_def by (metis option.distinct(1) option.inject)
  then show ?thesis
  proof cases
    case 1
    with assms(4) not_known have "sv_known l" "sv_known r"
      by (auto simp: eval_logical_def split: if_splits)
    with 1 show ?thesis
      by (auto simp: eval_logical_def num_binary_def stream_value_truthy_def list_ex_one
          sv_number_def one_bit_def bits_value_Cons Let_def)
  next
    case 2
    with assms number_gate show ?thesis by blast
  next
    case 3
    with assms(4) not_known obtain a b where ab: "unsigned_value l = Some a" "unsigned_value r = Some b"
      by (auto simp: eval_compare_def split: option.splits)
    then have v: "v = one_bit (compare_numbers opr a b)" using 3 by (simp add: eval_compare_def)
    have "opr \<notin> {''&&'', ''||'', ''&'', ''|'', ''^''}" using 3(1) by auto
    then have "num_binary opr (sv_number l) (sv_number r)
        = (1, if compare_numbers opr (bits_value (sv_bits l)) (bits_value (sv_bits r)) then 1 else 0)"
      by (simp add: num_binary_def sv_number_def)
    with v unsigned_value_number [OF assms(1) ab(1)] unsigned_value_number [OF assms(2) ab(2)]
    show ?thesis by (simp add: number_one_bit)
  qed
qed

lemma number_select:
  assumes "eval_select base l r = Some v"
  shows "sv_number v = (let hi = nat (max l r); lo = nat (min l r)
      in (hi - lo + 1, (bits_value (sv_bits base) div 2 ^ lo) mod 2 ^ (hi - lo + 1)))"
proof -
  let ?s = "sv_bits base" and ?hi = "nat (max l r)" and ?lo = "nat (min l r)"
  have range: "0 \<le> min l r" "max l r < int (length ?s)"
    and v: "sv_bits v = take ((length ?s - 1 - ?lo) - (length ?s - 1 - ?hi) + 1) (drop (length ?s - 1 - ?hi) ?s)"
    using assms by (auto simp: eval_select_def Let_def split: if_splits)
  have le: "?lo \<le> ?hi" "?hi < length ?s" using range by linarith+
  define k where "k = ?hi - ?lo + 1"
  define p where "p = length ?s - 1 - ?hi"
  have k: "(length ?s - 1 - ?lo) - p + 1 = k" "length ?s = p + (k + ?lo)"
    using le by (simp_all add: k_def p_def)
  have sv: "sv_bits v = take k (drop p ?s)" using v k(1) by (simp only: p_def)
  have post: "length (drop k (drop p ?s)) = ?lo" and mid: "length (take k (drop p ?s)) = k"
    using k(2) by simp_all
  have "?s = take p ?s @ take k (drop p ?s) @ drop k (drop p ?s)" by (simp only: append_take_drop_id)
  then have "bits_value ?s = bits_value (take p ?s) * 2 ^ (k + ?lo)
      + (bits_value (take k (drop p ?s)) * 2 ^ ?lo + bits_value (drop k (drop p ?s)))"
    using bits_value_append [of "take p ?s" "take k (drop p ?s) @ drop k (drop p ?s)"]
      bits_value_append [of "take k (drop p ?s)" "drop k (drop p ?s)"] post mid
    by (simp only: length_append)
  then have eq: "bits_value ?s = (bits_value (take p ?s) * 2 ^ k + bits_value (take k (drop p ?s))) * 2 ^ ?lo
      + bits_value (drop k (drop p ?s))"
    by (simp only: power_add add_mult_distrib mult.assoc add.assoc)
  have "bits_value (drop k (drop p ?s)) < 2 ^ ?lo" using bits_value_less [of "drop k (drop p ?s)"] post by simp
  then have "bits_value ?s div 2 ^ ?lo = bits_value (take p ?s) * 2 ^ k + bits_value (take k (drop p ?s))"
    unfolding eq by simp
  moreover have "bits_value (take k (drop p ?s)) < 2 ^ k" using bits_value_less [of "take k (drop p ?s)"] mid by simp
  ultimately have "bits_value ?s div 2 ^ ?lo mod 2 ^ k = bits_value (take k (drop p ?s))" by simp
  moreover have "sv_number v = (k, bits_value (take k (drop p ?s)))"
    unfolding sv_number_def sv mid ..
  ultimately show ?thesis unfolding Let_def k_def [symmetric] by simp
qed

text \<open>
  The number of a known result is the one the reference meaning gives; the two halves speak of
  expressions and of the items of a concatenation.
\<close>

lemma eval_number:
  "values_ok vals \<Longrightarrow> parsed_node n \<Longrightarrow> eval_node n vals err = (v, []) \<Longrightarrow> sv_known v \<Longrightarrow>
     sv_number v = denote n (signal_numbers vals)"
  "values_ok vals \<Longrightarrow> list_all parsed_node ns \<Longrightarrow> eval_items ns vals err bits known reliable = (v, []) \<Longrightarrow>
     sv_known v \<Longrightarrow>
     known \<and> sv_number v =
       (case foldl (\<lambda>(w, v) (x, y). (w + x, v * 2 ^ x + y)) (length bits, bits_value bits)
               (map (\<lambda>n. denote n (signal_numbers vals)) ns)
        of (w, v) \<Rightarrow> if w = 0 then (1, 0) else (w, v))"
proof (induction n vals err and ns vals err bits known reliable arbitrary: v and v
    rule: eval_node_eval_items.induct)
  case (1 t vals err)
  then show ?case by (auto simp: sv_number_def)
next
  case (2 t vals err)
  then show ?case by (auto simp: signal_numbers_def split: option.splits)
next
  case (3 l r a vals err)
  then obtain t where a: "a = Signal t" by auto
  obtain u where u: "vals t = Some u" "eval_select u l r = Some v"
    using 3(4) a by (auto split: option.splits if_splits)
  from number_select [OF u(2)] show ?case
    by (simp add: a signal_numbers_def u(1) sv_number_def [of u])
next
  case (4 items vals err)
  then show ?case by (auto split: prod.splits)
next
  case (5 opr a vals err)
  obtain u e where u: "eval_node a vals err = (u, e)" by fastforce
  have e: "e = []" "v = eval_unary opr u" using 5(4) u by (auto split: if_splits)
  have ok: "sv_ok u" using eval_ok(1) [OF 5(2), of a err] u by simp
  from number_unary [OF ok] 5(5) e(2)
  have n: "sv_known u" "sv_number v = num_unary opr (sv_number u)" by simp_all
  have "sv_number u = denote a (signal_numbers vals)" using 5(1) [OF 5(2)] 5(3) u e(1) n(1) by simp
  with n(2) show ?case by simp
next
  case (6 opr a b vals err)
  obtain u e where u: "eval_node a vals err = (u, e)" by fastforce
  have e: "e = []" using 6(5) u by (auto split: if_splits)
  obtain x f where x: "eval_node b vals e = (x, f)" by fastforce
  have f: "f = []" using 6(5) u x e by (auto split: if_splits)
  have v: "eval_binary opr u x = Some v" using 6(5) u x e f by (auto split: option.splits)
  have ok: "sv_ok u" "sv_ok x"
    using eval_ok(1) [OF 6(3), of a err] eval_ok(1) [OF 6(3), of b e] u x by simp_all
  from number_binary [OF ok v 6(6)]
  have n: "sv_known u" "sv_known x" "sv_number v = num_binary opr (sv_number u) (sv_number x)" by simp_all
  have "sv_number u = denote a (signal_numbers vals)" using 6(1) [OF 6(3)] 6(4) u e n(1) by simp
  moreover have "sv_number x = denote b (signal_numbers vals)"
    using 6(2) [OF u [symmetric] refl] 6(3,4) x e f n(2) by simp
  ultimately show ?case using n(3) by simp
next
  case (7 vals err bits known reliable)
  then show ?case by (auto simp: sv_number_def Let_def bits_value_Cons)
next
  case (8 n ns vals err bits known reliable)
  obtain u e where u: "eval_node n vals err = (u, e)" by fastforce
  have e: "e = []" using 8(5) u by (auto split: if_splits)
  have rest: "eval_items ns vals e (bits @ sv_bits u) (known \<and> sv_known u)
      (reliable \<and> sv_width_reliable u) = (v, [])" using 8(5) u e by simp
  have r: "(known \<and> sv_known u) \<and> sv_number v =
       (case foldl (\<lambda>(w, v) (x, y). (w + x, v * 2 ^ x + y)) (length (bits @ sv_bits u), bits_value (bits @ sv_bits u))
               (map (\<lambda>n. denote n (signal_numbers vals)) ns)
        of (w, v) \<Rightarrow> if w = 0 then (1, 0) else (w, v))"
    using 8(2) [OF u [symmetric] refl _ 8(3) _ rest 8(6)] 8(4) e by simp
  then have "sv_number u = denote n (signal_numbers vals)" using 8(1) [OF 8(3)] 8(4) u e by simp
  then have "denote n (signal_numbers vals) = (length (sv_bits u), bits_value (sv_bits u))"
    by (simp add: sv_number_def)
  with r show ?case by (simp add: bits_value_append)
qed

subsection \<open>Errors\<close>

lemma eval_binary_ops: "opr \<in> binary_ops \<Longrightarrow> eval_binary opr l r \<noteq> None"
  unfolding eval_binary_def binary_ops_def by (simp only: insert_iff empty_iff) auto

lemma eval_errors:
  "parsed_node n \<Longrightarrow> node_signals n \<subseteq> dom vals \<Longrightarrow> err = [] \<Longrightarrow>
     snd (eval_node n vals err) \<in> {[], ''select out of range in expression''}"
  "list_all parsed_node ns \<Longrightarrow> \<Union> (set (map node_signals ns)) \<subseteq> dom vals \<Longrightarrow> err = [] \<Longrightarrow>
     snd (eval_items ns vals err bits known reliable) \<in> {[], ''select out of range in expression''}"
proof (induction n vals err and ns vals err bits known reliable rule: eval_node_eval_items.induct)
  case (3 l r a vals err)
  then obtain t v where a: "a = Signal t" "vals t = Some v" by auto
  show ?case using 3(4) a by (cases "eval_select v l r") simp_all
next
  case (5 opr a vals err)
  obtain u e where u: "eval_node a vals err = (u, e)" by fastforce
  with 5 have "e \<in> {[], ''select out of range in expression''}" by simp
  then show ?case by (auto simp: u)
next
  case (6 opr a b vals err)
  obtain u e where u: "eval_node a vals err = (u, e)" by fastforce
  obtain x f where x: "eval_node b vals e = (x, f)" by fastforce
  have e: "e \<in> {[], ''select out of range in expression''}" using 6(1) 6(3-5) u by simp
  show ?case
  proof (cases "e = []")
    case True
    have f: "f \<in> {[], ''select out of range in expression''}"
      using 6(2) [OF u [symmetric] refl _ _ _ True] 6(3,4) True x by simp
    obtain v where "eval_binary opr u x = Some v" using eval_binary_ops [of opr u x] 6(3) by auto
    with f True show ?thesis by (cases "f = []") (simp_all add: u x [unfolded True])
  next
    case False
    with e show ?thesis by (simp add: u)
  qed
next
  case (8 n ns vals err bits known reliable)
  obtain u e where u: "eval_node n vals err = (u, e)" by fastforce
  have e: "e \<in> {[], ''select out of range in expression''}" using 8(1) 8(3-5) u by simp
  show ?case
  proof (cases "e = []")
    case True
    have "snd (eval_items ns vals e (bits @ sv_bits u) (known \<and> sv_known u) (reliable \<and> sv_width_reliable u))
        \<in> {[], ''select out of range in expression''}"
      using 8(2) [OF u [symmetric] refl _ _ _ True] 8(3,4) True by simp
    with True u show ?thesis by simp
  next
    case False
    with e show ?thesis by (simp add: u)
  qed
qed (auto simp: Let_def split: option.splits)

subsection \<open>Decimal literals\<close>

lemma bits_value_low_bits: "bits_value (rev (low_bits v)) = v"
proof (induction v rule: low_bits.induct)
  case (1 v)
  have parity: "v mod 2 = 1 \<longrightarrow> Suc (2 * (v div 2)) = v" "v mod 2 \<noteq> 1 \<longrightarrow> 2 * (v div 2) = v" by presburger+
  show ?case
  proof (cases "v = 0")
    case True
    then show ?thesis by (simp add: low_bits.simps [of 0])
  next
    case False
    with 1 parity show ?thesis by (simp add: low_bits.simps [of v] bits_value_snoc)
  qed
qed

lemma base_digit_decimal: "base_digit c < 10 \<longleftrightarrow> c_isdigit c" "c_isdigit c \<Longrightarrow> base_digit c = digit_value c"
  by (auto simp: base_digit_def c_isdigit_def c_islower_def c_isupper_def digit_value_def)

lemma digits_c_strtoull:
  assumes "list_all c_isdigit t" "t \<noteq> []"
  shows "c_strtoull 10 t = (min (dec_value t) (2 ^ 64 - 1), [])"
proof -
  have d: "\<forall>c\<in>set t. c_isdigit c" using assms(1) by (simp add: list_all_iff)
  have nz: "c \<noteq> CHR 0x00 \<and> \<not> c_isspace c \<and> c \<noteq> CHR ''-'' \<and> c \<noteq> CHR ''+''" if "c_isdigit c" for c
    using that by (auto simp: c_isdigit_def c_isspace_def)
  have cs: "c_str t = t" unfolding c_str_def using d nz by (simp add: takeWhile_eq_all_conv)
  obtain c r where t: "t = c # r" using assms(2) by (cases t) auto
  have dw: "dropWhile c_isspace t = t" using d nz by (simp add: t)
  have sg: "split_sign t = (False, t)" using d nz by (simp add: t split_sign_def)
  have tw: "takeWhile (\<lambda>c. base_digit c < 10) t = t"
    using d by (simp add: takeWhile_eq_all_conv base_digit_decimal)
  have "foldl (\<lambda>n c. 10 * n + base_digit c) 0 t = foldl (\<lambda>n c. 10 * n + digit_value c) 0 t"
    using d by (intro foldl_cong) (simp_all add: base_digit_decimal)
  then have fv: "foldl (\<lambda>n c. 10 * n + base_digit c) 0 t = dec_value t" by (simp add: dec_value_def)
  show ?thesis unfolding c_strtoull_def cs dw sg Let_def prod.case using assms(2) by (simp add: tw fv)
qed

section \<open>Properties\<close>

text \<open>
  C8: the parser returns on every text, whatever the error it starts with: the fuel of its loops
  and of its nesting is always enough.  The expression it gives has a tree, of the shape the grammar
  describes, and its set of signals is exactly the set of the names the tree reads, sorted and
  without duplicates.
\<close>

theorem stream_parse_total:
  "\<exists>e n err'. stream_parse text err = Some (e, err') \<and> se_text e = text \<and> se_root e = Some n
     \<and> parsed_node n \<and> set (se_signals e) = node_signals n
     \<and> sorted (se_signals e) \<and> distinct (se_signals e)"
proof -
  obtain n t where t: "parser_parse text err = Some (n, t)" "parsed_node n"
    "set (ps_signals t) = node_signals n" "names_ok (ps_signals t)"
    using parser_parse_returns [of "text" err] by blast
  have "sorted (ps_signals t)" "distinct (ps_signals t)" using t(4) by (simp_all add: names_ok_def)
  with t(1-3) show ?thesis by (simp add: stream_parse_def)
qed

text \<open>
  C9: evaluation is sound for unknown bits: whatever values the unknown bits of the signals turn
  out to have, the evaluation ends with the same error or without one, every bit of its result that
  was decided stays as it was, and a known result is the result.
\<close>

theorem stream_evaluate_sound_unknown:
  assumes "values_ok us" "values_ok vs" "values_refine us vs"
    and "stream_evaluate e us [] = (Some u, err)"
  shows "\<exists>v. stream_evaluate e vs [] = (Some v, err) \<and> sv_refines u v \<and> (sv_known u \<longrightarrow> v = u)"
proof -
  obtain n where n: "se_root e = Some n" "eval_node n us [] = (u, err)"
    using assms(4) by (auto simp: stream_evaluate_def split: option.splits prod.splits)
  from eval_refines(1) [OF assms(1-3)] n(2) obtain v where
    v: "eval_node n vs [] = (v, err)" "sv_refines u v" by (rule result_refinesE)
  have "sv_ok u" "sv_ok v"
    using eval_ok(1) [OF assms(1), of n "[]"] eval_ok(1) [OF assms(2), of n "[]"] n(2) v(1) by simp_all
  with sv_refines_known [OF v(2)] n v show ?thesis by (simp add: stream_evaluate_def)
qed

definition xz_values :: signal_values where
  "xz_values = map_of [(''valid'', StreamValue ''1'' True True), (''data'', StreamValue ''1x01'' False True)]"

definition decided_values :: signal_values where
  "decided_values = map_of [(''valid'', StreamValue ''1'' True True), (''data'', StreamValue ''1101'' True True)]"

lemma sample_values_ok: "values_ok xz_values" "values_ok decided_values" "values_refine xz_values decided_values"
  by (auto simp: values_ok_def sv_ok_def xz_values_def decided_values_def values_refine_def sv_refines_def)

definition sample_expression :: stream_expression where
  "sample_expression = se_empty\<lparr>se_root :=
     Some (Binary ''&&'' (Signal ''valid'') (Binary ''=='' (Select 1 0 (Signal ''data'')) (Literal ''1'')))\<rparr>"

theorem stream_evaluate_sound_unknown_witness:
  "stream_evaluate sample_expression decided_values [] = (Some (StreamValue ''1'' True True), [])"
proof -
  have "stream_evaluate sample_expression xz_values [] = (Some (StreamValue ''1'' True True), [])"
    by code_simp
  from stream_evaluate_sound_unknown [OF sample_values_ok this] show ?thesis by auto
qed

text \<open>
  C10: where the evaluation of a parsed text gives a known value, that value is the unsigned number
  of its reference meaning, with its width: selects cut out bits of the number, concatenations shift
  and add, the gates are the bitwise operations and the comparisons compare numbers.
\<close>

theorem stream_evaluate_numeric:
  assumes "stream_parse text [] = Some (e, [])" "se_root e = Some n" "values_ok vals"
    and "stream_evaluate e vals [] = (Some v, [])" "sv_known v"
  shows "(length (sv_bits v), bits_value (sv_bits v)) = denote n (signal_numbers vals)"
proof -
  have "parsed_node n" using stream_parse_total [of "text" "[]"] assms(1,2) by auto
  moreover have "eval_node n vals [] = (v, [])"
    using assms(2,4) by (simp add: stream_evaluate_def split: prod.splits)
  ultimately show ?thesis using eval_number(1) [OF assms(3) _ _ assms(5)] by (simp add: sv_number_def)
qed

theorem stream_evaluate_numeric_witness:
  "bits_value ''1001'' = 9 \<and> denote (Concat [Signal ''a'', Select 2 1 (Signal ''b'')])
     (signal_numbers (map_of [(''a'', StreamValue ''10'' True True), (''b'', StreamValue ''0010'' True True)])) = (4, 9)"
proof -
  let ?n = "Concat [Signal ''a'', Select 2 1 (Signal ''b'')]"
  let ?vals = "map_of [(''a'', StreamValue ''10'' True True), (''b'', StreamValue ''0010'' True True)]"
  let ?e = "\<lparr>se_text = ''{a, b[2:1]}'', se_root = Some ?n, se_signals = [''a'', ''b''], se_plain_signal = False\<rparr>"
  have "(length (sv_bits (StreamValue ''1001'' True True)), bits_value (sv_bits (StreamValue ''1001'' True True)))
      = denote ?n (signal_numbers ?vals)"
  proof (rule stream_evaluate_numeric)
    show "stream_parse ''{a, b[2:1]}'' [] = Some (?e, [])" by code_simp
    show "values_ok ?vals" by (auto simp: values_ok_def sv_ok_def)
    show "stream_evaluate ?e ?vals [] = (Some (StreamValue ''1001'' True True), [])" by code_simp
  qed simp_all
  moreover have n: "bits_value ''1001'' = 9" by code_simp
  moreover have "(length (sv_bits (StreamValue ''1001'' True True)), bits_value (sv_bits (StreamValue ''1001'' True True)))
      = (4, 9)" using n by simp
  ultimately show ?thesis by (simp only: simp_thms)
qed

text \<open>
  C11: the evaluation of a parsed text can fail in one way only, by a select outside its signal,
  once every signal of the expression has a value.
\<close>

theorem stream_evaluate_errors:
  assumes "stream_parse text [] = Some (e, [])" "set (se_signals e) \<subseteq> dom vals"
    and "stream_evaluate e vals [] = (v, err)"
  shows "err = [] \<or> err = ''select out of range in expression''"
proof -
  obtain n where n: "se_root e = Some n" "parsed_node n" "set (se_signals e) = node_signals n"
    using stream_parse_total [of "text" "[]"] assms(1) by auto
  then have "snd (eval_node n vals []) = err" using assms(3) by (auto simp: stream_evaluate_def split: prod.splits)
  with eval_errors(1) [OF n(2) _ refl, of vals] assms(2) n(3) show ?thesis by auto
qed

theorem stream_evaluate_errors_witness:
  "snd (stream_evaluate (fst (the (stream_parse ''a[4]'' []))) [''a'' \<mapsto> StreamValue ''0110'' True True] [])
     = ''select out of range in expression''"
proof -
  let ?e = "\<lparr>se_text = ''a[4]'', se_root = Some (Select 4 4 (Signal ''a'')), se_signals = [''a''],
    se_plain_signal = False\<rparr>"
  let ?vals = "[''a'' \<mapsto> StreamValue ''0110'' True True]"
  have p: "stream_parse ''a[4]'' [] = Some (?e, [])" by code_simp
  have "snd (stream_evaluate ?e ?vals []) = [] \<or>
     snd (stream_evaluate ?e ?vals []) = ''select out of range in expression''"
    by (rule stream_evaluate_errors [OF p _ prod.collapse [symmetric]]) simp
  moreover have "snd (stream_evaluate ?e ?vals []) \<noteq> []" by code_simp
  ultimately show ?thesis by (simp add: p)
qed

text \<open>
  A decimal literal of an expression is its number up to 64 bits and the largest 64-bit number
  beyond: unlike the decimal literals of \<open>logic_value.cpp\<close>, it saturates.
\<close>

theorem decimal_literal_saturates:
  assumes "t \<noteq> []" "list_all c_isdigit t"
  shows "bits_value (expr_dec_to_bits t) = min (dec_value t) (2 ^ 64 - 1)"
proof -
  have "filter (\<lambda>c. c \<noteq> CHR ''_'') t = t"
    using assms(2) by (auto simp: filter_id_conv list_all_iff c_isdigit_def)
  then show ?thesis
    using digits_c_strtoull [OF assms(2,1)] bits_value_low_bits [of "min (dec_value t) (2 ^ 64 - 1)"]
    by (simp add: expr_dec_to_bits_def bits_value_Cons)
qed

theorem decimal_literal_saturates_witness:
  "bits_value (expr_dec_to_bits ''18446744073709551617'') = 18446744073709551615"
proof -
  have "bits_value (expr_dec_to_bits ''18446744073709551617'')
      = min (dec_value ''18446744073709551617'') (2 ^ 64 - 1)"
    by (rule decimal_literal_saturates; code_simp)
  also have "\<dots> = 18446744073709551615" by code_simp
  finally show ?thesis .
qed

end
