(* ===== verification/Expression.thy ===== *)
theory Expression
  imports Stream_Expr
begin

text \<open>
  Expressions over named raw values, \<open>waveform/common/expression.cpp\<close>, and the truth of a raw
  value, \<open>waveform/event/event_expr.cpp\<close>: the wrapper that gives a result with an error code, the
  conversion of raw signal text, the three-valued outcome of an event expression.  The class
  \<open>ExprParser\<close> of \<open>event_expr.cpp\<close> has no caller, since \<open>eval_event_expression\<close> delegates to the
  evaluator below, and is not modelled.
\<close>

section \<open>Values and results\<close>

datatype expr_tri = TriFalse | TriTrue | TriUnknown

record expression_value =
  ev_bits :: string
  ev_known :: bool

record expression_result =
  er_ok :: bool
  er_value :: expression_value
  er_error_code :: string
  er_message :: string

abbreviation ExpressionValue :: "string \<Rightarrow> bool \<Rightarrow> expression_value" where
  "ExpressionValue bits known \<equiv> \<lparr>ev_bits = bits, ev_known = known\<rparr>"

definition to_stream_value :: "expression_value \<Rightarrow> stream_value" where
  "to_stream_value v = StreamValue (ev_bits v) (ev_known v) True"

definition from_stream_value :: "stream_value \<Rightarrow> expression_value" where
  "from_stream_value v = ExpressionValue (sv_bits v) (sv_known v)"

definition has_value_prefix :: "string \<Rightarrow> bool" where
  "has_value_prefix t \<longleftrightarrow> 2 \<le> length t \<and> t ! 0 = CHR 0x27 \<and> t ! 1 \<in> set ''bBhHdD''"

text \<open>The loop of \<open>is_raw_bit_string\<close> with its flag \<open>has_bit\<close>.\<close>

fun raw_bit_loop :: "string \<Rightarrow> bool \<Rightarrow> bool" where
  "raw_bit_loop [] has_bit = has_bit"
| "raw_bit_loop (c # cs) has_bit =
     (if c = CHR ''_'' \<or> c_isspace c then raw_bit_loop cs has_bit
      else if c \<notin> set ''01xXzZ'' then False
      else raw_bit_loop cs True)"

definition is_raw_bit_string :: "string \<Rightarrow> bool" where
  "is_raw_bit_string t \<longleftrightarrow>
     \<not> has_value_prefix t \<and> CHR 0x27 \<notin> set t \<and> raw_bit_loop t False"

definition raw_filtered_value :: "string \<Rightarrow> expression_value" where
  "raw_filtered_value raw =
     (let out0 = lower_bits raw; out = (if out0 = [] then ''x'' else out0)
      in ExpressionValue out (\<not> stream_value_has_xz (StreamValue out True True)))"

definition expression_value_from_raw :: "string \<Rightarrow> expression_value" where
  "expression_value_from_raw raw =
     (let parsed = parse_user_logic_literal raw
      in if \<not> is_raw_bit_string raw \<and> lv_valid parsed \<and> lv_bits parsed \<noteq> []
         then ExpressionValue (lv_bits parsed) (lv_known parsed)
         else raw_filtered_value raw)"

section \<open>Evaluation with error codes\<close>

definition expression_error_code_from_message :: "string \<Rightarrow> string" where
  "expression_error_code_from_message msg =
     (if str_prefix ''signal value not available:'' msg then ''MISSING_SIGNAL_VALUE''
      else if str_contains ''select out of range'' msg then ''SELECT_OUT_OF_RANGE''
      else if str_prefix ''unsupported operator:'' msg then ''UNSUPPORTED_OPERATOR''
      else if str_contains ''expression not parsed'' msg then ''EXPRESSION_NOT_PARSED''
      else ''EXPRESSION_PARSE_ERROR'')"

definition expression_evaluate :: "stream_expression \<Rightarrow> (string \<rightharpoonup> expression_value) \<Rightarrow> expression_result" where
  "expression_evaluate e values =
     (case stream_evaluate e (map_option to_stream_value \<circ> values) [] of
        (None, err) \<Rightarrow>
          \<lparr>er_ok = False, er_value = ExpressionValue ''x'' False,
           er_error_code = expression_error_code_from_message err, er_message = err\<rparr>
      | (Some out, err) \<Rightarrow>
          if err \<noteq> []
          then \<lparr>er_ok = False, er_value = ExpressionValue ''x'' False,
                er_error_code = expression_error_code_from_message err, er_message = err\<rparr>
          else if stream_value_has_xz out
          then \<lparr>er_ok = True, er_value = from_stream_value out, er_error_code = ''UNKNOWN_VALUE'',
                er_message = ''expression result contains X/Z''\<rparr>
          else \<lparr>er_ok = True, er_value = from_stream_value out, er_error_code = [], er_message = []\<rparr>)"

definition expression_alias_name_is_simple :: "string \<Rightarrow> bool" where
  "expression_alias_name_is_simple a \<longleftrightarrow>
     a \<noteq> [] \<and> (c_isalpha (hd a) \<or> hd a = CHR ''_'') \<and> list_all (\<lambda>c. c_isalnum c \<or> c = CHR ''_'') a"

definition expression_aliases_that_look_like_paths :: "string list \<Rightarrow> string list" where
  "expression_aliases_that_look_like_paths aliases =
     filter (\<lambda>a. \<not> expression_alias_name_is_simple a) aliases"

definition expression_stream_values_from_raw :: "(string \<rightharpoonup> string) \<Rightarrow> (string \<rightharpoonup> expression_value)" where
  "expression_stream_values_from_raw values = map_option expression_value_from_raw \<circ> values"

definition expression_tri_from_value :: "expression_value \<Rightarrow> expr_tri" where
  "expression_tri_from_value v =
     (let s = to_stream_value v
      in if stream_value_has_xz s then TriUnknown
         else if stream_value_truthy s False then TriTrue else TriFalse)"

text \<open>
  \<open>expression_evaluate_tri\<close> with its \<open>error\<close> reference: the outcome, and the error if it fails.
\<close>

definition expression_evaluate_tri ::
  "string \<Rightarrow> (string \<rightharpoonup> string) \<Rightarrow> string \<Rightarrow> (string + expr_tri) option" where
  "expression_evaluate_tri expr values err =
     do { (e, err) \<leftarrow> stream_parse expr err;
          Some (if err \<noteq> [] then Inl err
                else let r = expression_evaluate e (expression_stream_values_from_raw values)
                     in if \<not> er_ok r then Inl (er_message r)
                        else Inr (expression_tri_from_value (er_value r))) }"

definition eval_event_expression ::
  "string \<Rightarrow> (string \<rightharpoonup> string) \<Rightarrow> string \<Rightarrow> (string + expr_tri) option" where
  "eval_event_expression expr values err = expression_evaluate_tri expr values err"

section \<open>The truth of a raw value\<close>

definition strip_value_prefix :: "string \<Rightarrow> string" where
  "strip_value_prefix v = (if has_value_prefix v then drop 2 v else v)"

definition expr_bits_only :: "string \<Rightarrow> string" where
  "expr_bits_only v = map c_tolower (filter (\<lambda>c. c \<in> set ''01xXzZ'') (strip_value_prefix v))"

definition expr_value_has_unknown :: "string \<Rightarrow> bool" where
  "expr_value_has_unknown v \<longleftrightarrow> list_ex (\<lambda>c. c \<in> set ''xXzZ'') v"

definition expr_truth_value :: "string \<Rightarrow> expr_tri" where
  "expr_truth_value v =
     (let bits = expr_bits_only v
      in if bits = []
         then let raw = strip_value_prefix v
              in if raw = ''1'' then TriTrue else if raw = ''0'' then TriFalse else TriUnknown
         else if expr_value_has_unknown bits then TriUnknown
         else if list_ex (\<lambda>c. c = CHR ''1'') bits then TriTrue else TriFalse)"

fun expr_tri_text :: "expr_tri \<Rightarrow> string" where
  "expr_tri_text TriTrue = ''true''"
| "expr_tri_text TriFalse = ''false''"
| "expr_tri_text TriUnknown = ''unknown''"

fun expr_tri_not :: "expr_tri \<Rightarrow> expr_tri" where
  "expr_tri_not TriTrue = TriFalse"
| "expr_tri_not TriFalse = TriTrue"
| "expr_tri_not TriUnknown = TriUnknown"

definition expr_tri_and :: "expr_tri \<Rightarrow> expr_tri \<Rightarrow> expr_tri" where
  "expr_tri_and lhs rhs =
     (if lhs = TriFalse \<or> rhs = TriFalse then TriFalse
      else if lhs = TriTrue \<and> rhs = TriTrue then TriTrue else TriUnknown)"

definition expr_tri_or :: "expr_tri \<Rightarrow> expr_tri \<Rightarrow> expr_tri" where
  "expr_tri_or lhs rhs =
     (if lhs = TriTrue \<or> rhs = TriTrue then TriTrue
      else if lhs = TriFalse \<and> rhs = TriFalse then TriFalse else TriUnknown)"

text \<open>Both connectives are conjunctions of verdicts, with the refusing verdict false or true.\<close>

interpretation tri_and: verdict_conj expr_tri_and TriTrue TriFalse
proof
  fix a b c
  show "expr_tri_and (expr_tri_and a b) c = expr_tri_and a (expr_tri_and b c)"
    by (simp add: expr_tri_and_def)
  show "expr_tri_and a b = expr_tri_and b a" by (auto simp: expr_tri_and_def)
  show "expr_tri_and TriTrue a = a" "expr_tri_and TriFalse a = TriFalse"
    by (cases a; simp add: expr_tri_and_def)+
qed

interpretation tri_or: verdict_conj expr_tri_or TriFalse TriTrue
proof
  fix a b c
  show "expr_tri_or (expr_tri_or a b) c = expr_tri_or a (expr_tri_or b c)"
    by (simp add: expr_tri_or_def)
  show "expr_tri_or a b = expr_tri_or b a" by (auto simp: expr_tri_or_def)
  show "expr_tri_or TriFalse a = a" "expr_tri_or TriTrue a = TriTrue"
    by (cases a; simp add: expr_tri_or_def)+
qed

section \<open>Lemmas\<close>

lemma raw_bit_loop_chars:
  "raw_bit_loop cs b \<Longrightarrow> c \<in> set cs \<Longrightarrow> c = CHR ''_'' \<or> c_isspace c \<or> c \<in> set ''01xXzZ''"
  by (induction cs b rule: raw_bit_loop.induct) (auto split: if_splits)

lemma raw_bit_loop_bit: "raw_bit_loop cs b \<Longrightarrow> \<not> b \<Longrightarrow> lower_bits cs \<noteq> []"
  by (induction cs b rule: raw_bit_loop.induct) (auto simp: lower_bits_def split: if_splits)

lemma bits_no_space: "c \<in> set ''01xXzZ'' \<Longrightarrow> c \<noteq> CHR ''_'' \<and> \<not> c_isspace c"
  by (simp, elim disjE) (hypsubst; code_simp)+

text \<open>On raw bits the two readers of a raw value keep the same digits.\<close>

lemma expr_bits_only_raw: "is_raw_bit_string raw \<Longrightarrow> expr_bits_only raw = lower_bits raw"
proof -
  assume r: "is_raw_bit_string raw"
  have "filter (\<lambda>c. c \<in> set ''01xXzZ'') raw
      = filter (\<lambda>c. c \<noteq> CHR ''_'' \<and> \<not> c_isspace c \<and> c \<in> set ''01xXzZ'') raw"
    using bits_no_space by (intro filter_cong) blast+
  with r show ?thesis
    by (simp only: expr_bits_only_def lower_bits_def strip_value_prefix_def is_raw_bit_string_def if_False)
qed

lemma unknown_has_xz: "expr_value_has_unknown b = has_xz_bits b"
proof -
  have "set ''xXzZ'' = set ''xzXZ''" by auto
  then show ?thesis unfolding expr_value_has_unknown_def has_xz_bits_def by (simp only:)
qed

lemma eval_values_ok:
  "(\<And>t v. vals t = Some v \<Longrightarrow> sv_ok (to_stream_value v)) \<Longrightarrow> values_ok (map_option to_stream_value \<circ> vals)"
  by (auto simp: values_ok_def)

lemma sv_ok_raw_filtered: "sv_ok (to_stream_value (raw_filtered_value raw))"
proof -
  define b where "b = (if lower_bits raw = [] then ''x'' else lower_bits raw)"
  have "four_state b" using four_state_lower_bits [of raw] by (simp add: b_def)
  from sv_ok_bits [OF this, of True] show ?thesis
    by (simp add: raw_filtered_value_def to_stream_value_def stream_value_has_xz_def Let_def b_def [symmetric])
qed

section \<open>Properties\<close>

text \<open>
  The two readers of a raw signal value agree: on raw binary text the truth value that the
  event code computes from the text is the outcome of the value the expression code reads from it.
\<close>

theorem truth_value_agrees:
  assumes "is_raw_bit_string raw"
  shows "expr_truth_value raw = expression_tri_from_value (expression_value_from_raw raw)"
proof -
  have ne: "lower_bits raw \<noteq> []" using assms raw_bit_loop_bit [of raw False] by (simp add: is_raw_bit_string_def)
  then show ?thesis
    by (simp add: expr_truth_value_def expr_bits_only_raw [OF assms] expression_value_from_raw_def assms
        raw_filtered_value_def expression_tri_from_value_def to_stream_value_def stream_value_has_xz_def
        stream_value_truthy_def unknown_has_xz Let_def)
qed

theorem truth_value_agrees_witness:
  "expr_truth_value ''0_0x1'' = TriUnknown"
proof -
  have "expr_truth_value ''0_0x1'' = expression_tri_from_value (expression_value_from_raw ''0_0x1'')"
    by (rule truth_value_agrees) code_simp
  also have "\<dots> = TriUnknown" by code_simp
  finally show ?thesis .
qed

text \<open>
  The error codes of an expression that parsed: its evaluation can only miss a value or select
  out of range, and it misses no value when every alias has one.
\<close>

theorem expression_error_codes:
  assumes "stream_parse text [] = Some (e, [])" "\<not> er_ok (expression_evaluate e values)"
    and "set (se_signals e) \<subseteq> dom values"
  shows "er_error_code (expression_evaluate e values) = ''SELECT_OUT_OF_RANGE''"
proof -
  obtain v err where v: "stream_evaluate e (map_option to_stream_value \<circ> values) [] = (v, err)" by fastforce
  obtain n where n: "se_root e = Some n" using stream_parse_total [of "text" "[]"] assms(1) by auto
  have "parsed_node n" "set (se_signals e) = node_signals n"
    using stream_parse_total [of "text" "[]"] assms(1) n by auto
  have sub: "set (se_signals e) \<subseteq> dom (map_option to_stream_value \<circ> values)"
    using assms(3) by auto
  have "snd (eval_node n (map_option to_stream_value \<circ> values) []) = err"
    using v n by (simp add: stream_evaluate_def split: prod.splits)
  with eval_errors(1) [OF \<open>parsed_node n\<close> _ refl, of "map_option to_stream_value \<circ> values"] sub
    \<open>set (se_signals e) = node_signals n\<close>
  have "err = [] \<or> err = ''select out of range in expression''" by auto
  moreover have "err \<noteq> []"
    using assms(2) v n by (auto simp: expression_evaluate_def stream_evaluate_def split: prod.splits if_splits)
  ultimately have err: "err = ''select out of range in expression''" by simp
  have code: "expression_error_code_from_message ''select out of range in expression'' = ''SELECT_OUT_OF_RANGE''"
    by code_simp
  show ?thesis
    unfolding expression_evaluate_def v err by (cases v) (simp_all add: code)
qed

theorem expression_error_codes_witness:
  "er_error_code (expression_evaluate (fst (the (stream_parse ''a[4]'' []))) [''a'' \<mapsto> ExpressionValue ''0110'' True])
     = ''SELECT_OUT_OF_RANGE''"
proof -
  let ?e = "\<lparr>se_text = ''a[4]'', se_root = Some (Select 4 4 (Signal ''a'')), se_signals = [''a''],
    se_plain_signal = False\<rparr>"
  have p: "stream_parse ''a[4]'' [] = Some (?e, [])" by code_simp
  have "er_error_code (expression_evaluate ?e [''a'' \<mapsto> ExpressionValue ''0110'' True]) = ''SELECT_OUT_OF_RANGE''"
  proof (rule expression_error_codes [OF p])
    show "\<not> er_ok (expression_evaluate ?e [''a'' \<mapsto> ExpressionValue ''0110'' True])" by code_simp
  qed simp
  then show ?thesis by (simp add: p)
qed

text \<open>
  C12: the outcome of an event expression on raw binary values: where it is decided, it is whether
  the number of the expression, in its reference meaning, is not zero.
\<close>

theorem event_expression_decision:
  assumes "stream_parse expr [] = Some (e, [])" "se_root e = Some n"
    and "\<forall>raw\<in>ran values. is_raw_bit_string raw"
    and "eval_event_expression expr values [] = Some (Inr r)" "r \<noteq> TriUnknown"
  shows "r = TriTrue \<longleftrightarrow>
     snd (denote n (signal_numbers (map_option to_stream_value \<circ> expression_stream_values_from_raw values))) \<noteq> 0"
proof -
  let ?vals = "map_option to_stream_value \<circ> expression_stream_values_from_raw values"
  have ok: "values_ok ?vals"
    using assms(3) sv_ok_raw_filtered
    by (intro eval_values_ok) (auto simp: expression_stream_values_from_raw_def expression_value_from_raw_def
        ran_def Let_def)
  let ?r = "expression_evaluate e (expression_stream_values_from_raw values)"
  have r: "er_ok ?r" "r = expression_tri_from_value (er_value ?r)"
    using assms(4) by (auto simp: eval_event_expression_def expression_evaluate_tri_def assms(1) Let_def
        split: if_splits)
  obtain v err where v: "stream_evaluate e ?vals [] = (v, err)" by fastforce
  with assms(2) obtain s where s: "v = Some s" by (auto simp: stream_evaluate_def split: prod.splits)
  from r(1) v s have err: "err = []" by (auto simp: expression_evaluate_def split: if_splits)
  have "er_value ?r = from_stream_value s" using v s err by (simp add: expression_evaluate_def)
  with r(2) assms(5) have k: "sv_known s" and t: "r = TriTrue \<longleftrightarrow> bits_value (sv_bits s) \<noteq> 0"
    by (auto simp: expression_tri_from_value_def to_stream_value_def from_stream_value_def
        stream_value_has_xz_def stream_value_truthy_def list_ex_one Let_def split: if_splits)
  have "(length (sv_bits s), bits_value (sv_bits s)) = denote n (signal_numbers ?vals)"
  proof -
    have "parsed_node n" using stream_parse_total [of "expr" "[]"] assms(1,2) by auto
    moreover have "eval_node n ?vals [] = (s, [])"
      using assms(2) v s err by (simp add: stream_evaluate_def split: prod.splits)
    ultimately show ?thesis using eval_number(1) [OF ok _ _ k] by (simp add: sv_number_def)
  qed
  then have "bits_value (sv_bits s) = snd (denote n (signal_numbers ?vals))" by (metis snd_conv)
  with t show ?thesis by simp
qed

theorem event_expression_decision_witness:
  "eval_event_expression ''cnt >= 5'' [''cnt'' \<mapsto> ''0110''] [] = Some (Inr TriTrue)"
proof -
  let ?n = "Binary ''>='' (Signal ''cnt'') (Literal ''5'')"
  let ?e = "\<lparr>se_text = ''cnt >= 5'', se_root = Some ?n, se_signals = [''cnt''], se_plain_signal = False\<rparr>"
  obtain r where r: "eval_event_expression ''cnt >= 5'' [''cnt'' \<mapsto> ''0110''] [] = Some (Inr r)" "r \<noteq> TriUnknown"
  proof
    show "eval_event_expression ''cnt >= 5'' [''cnt'' \<mapsto> ''0110''] [] = Some (Inr TriTrue)" by code_simp
  qed simp
  have "r = TriTrue \<longleftrightarrow> snd (denote ?n (signal_numbers
      (map_option to_stream_value \<circ> expression_stream_values_from_raw [''cnt'' \<mapsto> ''0110'']))) \<noteq> 0"
  proof (rule event_expression_decision [OF _ _ _ r])
    show "stream_parse ''cnt >= 5'' [] = Some (?e, [])" by code_simp
    show "\<forall>raw\<in>ran [''cnt'' \<mapsto> ''0110'']. is_raw_bit_string raw" by simp code_simp
  qed simp
  moreover have "snd (denote ?n (signal_numbers
      (map_option to_stream_value \<circ> expression_stream_values_from_raw [''cnt'' \<mapsto> ''0110'']))) \<noteq> 0"
    by code_simp
  ultimately show ?thesis using r(1) by simp
qed

end
