(* ===== verification/Std_Containers.thy ===== *)
theory Std_Containers
  imports Prelude "HOL-Library.Multiset"
begin

text \<open>
  The containers and algorithms of the C++ standard library that the components use, each behind a
  locale that states what it promises: the ordered map \<open>std::map\<close> (a list of pairs with increasing
  keys), \<open>std::sort\<close> and \<open>std::priority_queue\<close>.  The components reason with the laws of the
  locales; the interpretations discharge them for the models.
\<close>

section \<open>Ordered maps\<close>

type_synonym ('k, 'v) omap = "('k \<times> 'v) list"

abbreviation omap_get :: "('k, 'v) omap \<Rightarrow> 'k \<Rightarrow> 'v option" where
  "omap_get \<equiv> map_of"

fun omap_put :: "'k::linorder \<Rightarrow> 'v \<Rightarrow> ('k, 'v) omap \<Rightarrow> ('k, 'v) omap" where
  "omap_put k v [] = [(k, v)]"
| "omap_put k v ((j, u) # m) =
     (if k < j then (k, v) # (j, u) # m else if k = j then (k, v) # m else (j, u) # omap_put k v m)"

definition omap_del :: "'k \<Rightarrow> ('k, 'v) omap \<Rightarrow> ('k, 'v) omap" where
  "omap_del k m = filter (\<lambda>p. fst p \<noteq> k) m"

definition omap_ok :: "('k::linorder, 'v) omap \<Rightarrow> bool" where
  "omap_ok m \<longleftrightarrow> sorted_wrt (<) (map fst m)"

definition omap_total :: "('k \<Rightarrow> 'v \<Rightarrow> nat) \<Rightarrow> ('k, 'v) omap \<Rightarrow> nat" where
  "omap_total f m = sum_list (map (\<lambda>p. f (fst p) (snd p)) m)"

text \<open>
  What a map promises: a put and an erase change the entry of their key and no other.  A measured
  map also has a total over its entries, which they change by the weights of the entries.
\<close>

locale key_map =
  fixes get :: "'m \<Rightarrow> 'k \<Rightarrow> 'v option"
    and put :: "'k \<Rightarrow> 'v \<Rightarrow> 'm \<Rightarrow> 'm"
    and del :: "'k \<Rightarrow> 'm \<Rightarrow> 'm"
    and ok :: "'m \<Rightarrow> bool"
  assumes get_put: "get (put k v m) j = (if j = k then Some v else get m j)"
    and get_del: "get (del k m) j = (if j = k then None else get m j)"
    and ok_put: "ok m \<Longrightarrow> ok (put k v m)"
    and ok_del: "ok m \<Longrightarrow> ok (del k m)"
begin

lemma all_put: "(\<forall>j u. get m j = Some u \<longrightarrow> P j u) \<Longrightarrow> P k v \<Longrightarrow> \<forall>j u. get (put k v m) j = Some u \<longrightarrow> P j u"
  by (simp add: get_put)

lemma all_del: "(\<forall>j u. get m j = Some u \<longrightarrow> P j u) \<Longrightarrow> \<forall>j u. get (del k m) j = Some u \<longrightarrow> P j u"
  by (simp add: get_del)

end

locale measured_map = key_map +
  fixes total :: "('b \<Rightarrow> 'c \<Rightarrow> nat) \<Rightarrow> 'a \<Rightarrow> nat"
  assumes total_put_new: "get m k = None \<Longrightarrow> total f (put k v m) = total f m + f k v"
    and total_put_old: "ok m \<Longrightarrow> get m k = Some u \<Longrightarrow> total f (put k v m) + f k u = total f m + f k v"
    and total_del: "ok m \<Longrightarrow> get m k = Some u \<Longrightarrow> total f (del k m) + f k u = total f m"
begin

lemma total_ge: "ok m \<Longrightarrow> get m k = Some u \<Longrightarrow> f k u \<le> total f m"
  using total_del [of m k u f] by simp

end

lemma omap_get_put: "omap_get (omap_put k v m) j = (if j = k then Some v else omap_get m j)"
  by (induction m) (auto split: if_splits)

lemma omap_get_del: "omap_get (omap_del k m) j = (if j = k then None else omap_get m j)"
  by (induction m) (auto simp: omap_del_def)

lemma set_omap_put: "fst ` set (omap_put k v m) = insert k (fst ` set m)"
proof -
  have "dom (omap_get (omap_put k v m)) = insert k (dom (omap_get m))"
    by (auto simp: dom_def omap_get_put)
  then show ?thesis by (simp only: dom_map_of_conv_image_fst)
qed

lemma omap_ok_Cons: "omap_ok ((k, v) # m) \<longleftrightarrow> (\<forall>j\<in>fst ` set m. k < j) \<and> omap_ok m"
  by (auto simp: omap_ok_def)

lemma omap_ok_put: "omap_ok m \<Longrightarrow> omap_ok (omap_put k v m)"
proof (induction m)
  case Nil
  show ?case by (simp add: omap_ok_def)
next
  case (Cons p m)
  obtain j u where p: "p = (j, u)" by fastforce
  with Cons.prems have j: "\<forall>i\<in>fst ` set m. j < i" and m: "omap_ok m" by (simp_all add: omap_ok_Cons)
  from Cons.IH [OF m] show ?case
    using j m by (auto simp: p omap_ok_Cons set_omap_put)
qed

lemma omap_ok_del: "omap_ok m \<Longrightarrow> omap_ok (omap_del k m)"
  unfolding omap_ok_def omap_del_def by (induction m) auto

lemma omap_not_in: "omap_get m k = None \<Longrightarrow> omap_del k m = m"
  by (induction m) (auto simp: omap_del_def split: if_splits)

lemma omap_total_Nil [simp]: "omap_total f [] = 0"
  by (simp add: omap_total_def)

lemma omap_total_Cons [simp]: "omap_total f ((k, v) # m) = f k v + omap_total f m"
  by (simp add: omap_total_def)

lemma omap_total_put_new: "omap_get m k = None \<Longrightarrow> omap_total f (omap_put k v m) = omap_total f m + f k v"
  by (induction m) (auto split: if_splits)

lemma omap_ok_less: "omap_ok ((j, u) # m) \<Longrightarrow> omap_get m k = Some w \<Longrightarrow> j < k"
  using map_of_SomeD [of m k w] by (fastforce simp: omap_ok_Cons)

lemma omap_total_put_old:
  "omap_ok m \<Longrightarrow> omap_get m k = Some u \<Longrightarrow> omap_total f (omap_put k v m) + f k u = omap_total f m + f k v"
proof (induction m)
  case (Cons p m)
  obtain j w where p: "p = (j, w)" by fastforce
  show ?case
  proof (cases "k = j")
    case True
    with Cons.prems show ?thesis by (simp add: p)
  next
    case False
    with Cons.prems have g: "omap_get m k = Some u" by (simp add: p)
    then have "j < k" using Cons.prems(1) omap_ok_less by (simp add: p)
    moreover have "omap_ok m" using Cons.prems(1) by (simp add: p omap_ok_Cons)
    ultimately show ?thesis using Cons.IH g by (simp add: p less_not_sym less_imp_neq [symmetric])
  qed
qed simp

lemma omap_total_del:
  "omap_ok m \<Longrightarrow> omap_get m k = Some u \<Longrightarrow> omap_total f (omap_del k m) + f k u = omap_total f m"
proof (induction m)
  case (Cons p m)
  obtain j w where p: "p = (j, w)" by fastforce
  have ok: "omap_ok m" using Cons.prems(1) by (simp add: p omap_ok_Cons)
  show ?case
  proof (cases "k = j")
    case True
    have "omap_get m k = None"
    proof (rule ccontr)
      assume "omap_get m k \<noteq> None"
      then show False using omap_ok_less Cons.prems(1) True by (fastforce simp: p)
    qed
    with True Cons.prems omap_not_in [of m k] show ?thesis by (simp add: p omap_del_def)
  next
    case False
    with Cons.prems have "omap_get m k = Some u" by (simp add: p)
    with Cons.IH [OF ok] False show ?thesis by (simp add: p omap_del_def)
  qed
qed simp

interpretation omap: measured_map omap_get omap_put omap_del omap_ok omap_total
  by unfold_locales
    (simp_all add: omap_get_put omap_get_del omap_ok_put omap_ok_del omap_total_put_new
      omap_total_put_old omap_total_del)

lemma omap_ok_Nil [simp]: "omap_ok []"
  by (simp add: omap_ok_def)

lemma omap_get_in: "omap_ok m \<Longrightarrow> omap_get m k = Some v \<longleftrightarrow> (k, v) \<in> set m"
proof -
  assume "omap_ok m"
  then have "distinct (map fst m)"
    unfolding omap_ok_def by (metis strict_sorted_iff)
  then show ?thesis by (simp add: map_of_eq_Some_iff)
qed

section \<open>Sorting\<close>

text \<open>
  \<open>std::sort\<close> gives a sorted permutation of its input and says nothing of equal elements; where
  the key of an element is its own, this determines the result.
\<close>

locale std_sort =
  fixes srt :: "('a \<Rightarrow> 'k::linorder) \<Rightarrow> 'a list \<Rightarrow> 'a list"
  assumes srt_perm: "mset (srt f xs) = mset xs"
    and srt_sorted: "sorted (map f (srt f xs))"
begin

lemma set_srt: "set (srt f xs) = set xs"
  using srt_perm [of f xs] by (metis set_mset_mset)

lemma length_srt: "length (srt f xs) = length xs"
  using srt_perm [of f xs] by (metis size_mset)

lemma srt_unique:
  assumes "inj_on f (set xs)" "mset ys = mset xs" "sorted (map f ys)"
  shows "ys = srt f xs"
proof -
  have "mset (map f ys) = mset (map f (srt f xs))" using assms(2) srt_perm [of f xs] by simp
  then have "map f ys = map f (srt f xs)"
    using assms(3) srt_sorted [of f xs] by (metis properties_for_sort)
  moreover have "set ys = set xs" using assms(2) by (metis set_mset_mset)
  ultimately show ?thesis using assms(1) set_srt [of f xs] by (metis inj_on_map_eq_map sup.idem)
qed

end

interpretation sorting: std_sort sort_key
  by unfold_locales simp_all

section \<open>Priority queues\<close>

text \<open>
  \<open>std::priority_queue\<close>: the top is an element whose rank no other exceeds.
\<close>

locale pri_queue =
  fixes push :: "('a \<Rightarrow> 'k::linorder) \<Rightarrow> 'a \<Rightarrow> 'q \<Rightarrow> 'q"
    and top :: "'q \<Rightarrow> 'a"
    and pop :: "'q \<Rightarrow> 'q"
    and elems :: "'q \<Rightarrow> 'a multiset"
    and ok :: "('a \<Rightarrow> 'k) \<Rightarrow> 'q \<Rightarrow> bool"
  assumes elems_push: "elems (push f x q) = add_mset x (elems q)"
    and ok_push: "ok f q \<Longrightarrow> ok f (push f x q)"
    and elems_pop: "elems q \<noteq> {#} \<Longrightarrow> elems (pop q) = elems q - {# top q #}"
    and ok_pop: "ok f q \<Longrightarrow> ok f (pop q)"
    and top_in: "elems q \<noteq> {#} \<Longrightarrow> top q \<in># elems q"
    and top_max: "ok f q \<Longrightarrow> x \<in># elems q \<Longrightarrow> f x \<le> f (top q)"
begin

lemma replace_top: "elems q \<noteq> {#} \<Longrightarrow> elems (push f x (pop q)) = add_mset x (elems q - {# top q #})"
  by (simp add: elems_push elems_pop)

lemma size_replace_top: "elems q \<noteq> {#} \<Longrightarrow> size (elems (push f x (pop q))) = size (elems q)"
  using top_in [of q] size_Diff_singleton [of "top q" "elems q"] nonempty_has_size [of "elems q"]
  by (simp add: replace_top)

end

definition pq_push :: "('a \<Rightarrow> 'k::linorder) \<Rightarrow> 'a \<Rightarrow> 'a list \<Rightarrow> 'a list" where
  "pq_push f x q = insort_key f x q"

definition pq_top :: "'a list \<Rightarrow> 'a" where
  "pq_top q = last q"

definition pq_pop :: "'a list \<Rightarrow> 'a list" where
  "pq_pop q = butlast q"

definition pq_ok :: "('a \<Rightarrow> 'k::linorder) \<Rightarrow> 'a list \<Rightarrow> bool" where
  "pq_ok f q \<longleftrightarrow> sorted (map f q)"

lemma mset_butlast: "q \<noteq> [] \<Longrightarrow> mset (butlast q) = mset q - {# last q #}"
  by (induction q) auto

lemma sorted_last_max: "sorted (map f q) \<Longrightarrow> x \<in> set q \<Longrightarrow> f x \<le> f (last q)"
  by (induction q) auto

interpretation pq: pri_queue pq_push pq_top pq_pop mset pq_ok
proof
  fix f :: "'a \<Rightarrow> 'b" and x :: 'a and q :: "'a list"
  show "mset (pq_push f x q) = add_mset x (mset q)" by (simp add: pq_push_def)
  show "pq_ok f q \<Longrightarrow> pq_ok f (pq_push f x q)" by (simp add: pq_ok_def pq_push_def sorted_insort_key)
  show "mset q \<noteq> {#} \<Longrightarrow> mset (pq_pop q) = mset q - {# pq_top q #}"
    by (simp add: pq_pop_def pq_top_def mset_butlast)
  show "pq_ok f q \<Longrightarrow> pq_ok f (pq_pop q)"
    by (simp add: pq_ok_def pq_pop_def map_butlast sorted_butlast)
  show "mset q \<noteq> {#} \<Longrightarrow> pq_top q \<in># mset q" by (simp add: pq_top_def)
  show "pq_ok f q \<Longrightarrow> x \<in># mset q \<Longrightarrow> f x \<le> f (pq_top q)"
    by (simp add: pq_ok_def pq_top_def sorted_last_max)
qed

end
