(* ===== verification/Axi_Tracker.thy ===== *)
theory Axi_Tracker
  imports Std_Containers
begin

text \<open>
  The AXI transaction tracker, \<open>waveform/axi/axi_transaction_tracker.cpp\<close>: it consumes one sample
  per clock edge, pairs address, data and response handshakes into transactions, counts what is
  outstanding, and gives the sorted result at the end of the scan; and the selection of latency
  outliers.  Times and sizes are unsigned numbers, the outstanding counters are integers.  The
  members of \<open>AxiTransaction\<close> that only \<open>axi_analyzer.cpp\<close> sets, the bit widths, the signal names
  and \<open>is_out_of_order\<close>, are left out, and so is the memory estimate of the tracker.
\<close>

section \<open>Data\<close>

record axi_transaction =
  tx_seq :: nat
  tx_addr_valid_begin_time :: nat
  tx_addr_time :: nat
  tx_first_data_valid_begin_time :: nat
  tx_first_data_time :: nat
  tx_last_data_time :: nat
  tx_resp_time :: nat
  tx_addr :: string
  tx_id :: string
  tx_len :: string
  tx_size :: string
  tx_burst :: string
  tx_data :: "string list"
  tx_wstrb :: "string list"
  tx_data_resp :: "string list"
  tx_data_handshake_times :: "nat list"
  tx_data_last :: "bool list"
  tx_resp :: string
  tx_is_write :: bool
  tx_has_addr_valid_begin_time :: bool
  tx_has_first_data_valid_begin_time :: bool
  tx_data_complete :: bool
  tx_response_dependency_violation :: bool
  tx_expected_beat_count :: nat
  tx_phase_order :: string

definition axi_transaction_default :: axi_transaction where
  "axi_transaction_default =
     \<lparr>tx_seq = 0, tx_addr_valid_begin_time = 0, tx_addr_time = 0, tx_first_data_valid_begin_time = 0,
      tx_first_data_time = 0, tx_last_data_time = 0, tx_resp_time = 0, tx_addr = [], tx_id = [],
      tx_len = [], tx_size = [], tx_burst = [], tx_data = [], tx_wstrb = [], tx_data_resp = [],
      tx_data_handshake_times = [], tx_data_last = [], tx_resp = [], tx_is_write = False,
      tx_has_addr_valid_begin_time = False, tx_has_first_data_valid_begin_time = False,
      tx_data_complete = False, tx_response_dependency_violation = False, tx_expected_beat_count = 0,
      tx_phase_order = []\<rparr>"

type_synonym id_counts = "(string, int) omap"

record axi_outstanding_sample =
  os_time :: nat
  os_read :: int
  os_write :: int
  os_read_by_id :: id_counts
  os_write_by_id :: id_counts

record axi_diagnostics =
  hs_aw :: nat
  hs_w :: nat
  hs_b :: nat
  hs_ar :: nat
  hs_r :: nat
  dg_sample_count :: nat
  dg_incomplete_write_count :: nat
  dg_incomplete_read_count :: nat
  dg_buffered_w_beat_count :: nat
  dg_buffered_w_burst_count :: nat
  dg_orphan_w_beat_count :: nat
  dg_orphan_b_count :: nat
  dg_orphan_r_beat_count :: nat
  dg_beat_count_mismatch_count :: nat
  dg_response_dependency_violation_count :: nat
  dg_reset_cleared_write_count :: nat
  dg_reset_cleared_read_count :: nat
  dg_reset_cleared_w_beat_count :: nat
  dg_final_write_outstanding :: int
  dg_final_read_outstanding :: int
  dg_max_total_write_outstanding :: int
  dg_max_total_read_outstanding :: int
  dg_max_write_outstanding_by_id :: id_counts
  dg_max_read_outstanding_by_id :: id_counts
  dg_analysis_complete :: bool
  dg_scan_begin :: nat
  dg_scan_end :: nat

definition axi_diagnostics_default :: axi_diagnostics where
  "axi_diagnostics_default =
     \<lparr>hs_aw = 0, hs_w = 0, hs_b = 0, hs_ar = 0, hs_r = 0, dg_sample_count = 0,
      dg_incomplete_write_count = 0, dg_incomplete_read_count = 0, dg_buffered_w_beat_count = 0,
      dg_buffered_w_burst_count = 0, dg_orphan_w_beat_count = 0, dg_orphan_b_count = 0,
      dg_orphan_r_beat_count = 0, dg_beat_count_mismatch_count = 0,
      dg_response_dependency_violation_count = 0, dg_reset_cleared_write_count = 0,
      dg_reset_cleared_read_count = 0, dg_reset_cleared_w_beat_count = 0,
      dg_final_write_outstanding = 0, dg_final_read_outstanding = 0,
      dg_max_total_write_outstanding = 0, dg_max_total_read_outstanding = 0,
      dg_max_write_outstanding_by_id = [], dg_max_read_outstanding_by_id = [],
      dg_analysis_complete = True, dg_scan_begin = 0, dg_scan_end = 0\<rparr>"

record axi_result =
  rs_all :: "axi_transaction list"
  rs_writes :: "axi_transaction list"
  rs_reads :: "axi_transaction list"
  rs_pending_writes :: "axi_transaction list"
  rs_pending_reads :: "axi_transaction list"
  rs_outstanding_samples :: "axi_outstanding_sample list"
  rs_all_by_resp_time :: "nat list"
  rs_diagnostics :: axi_diagnostics

definition axi_result_default :: axi_result where
  "axi_result_default =
     \<lparr>rs_all = [], rs_writes = [], rs_reads = [], rs_pending_writes = [], rs_pending_reads = [],
      rs_outstanding_samples = [], rs_all_by_resp_time = [], rs_diagnostics = axi_diagnostics_default\<rparr>"

record axi_sample =
  sm_time :: nat
  sm_reset_active :: bool
  sm_aw_valid :: bool
  sm_w_valid :: bool
  sm_ar_valid :: bool
  sm_r_valid :: bool
  sm_aw_handshake :: bool
  sm_w_handshake :: bool
  sm_b_handshake :: bool
  sm_ar_handshake :: bool
  sm_r_handshake :: bool
  sm_wlast :: bool
  sm_rlast :: bool
  sm_awaddr :: string
  sm_awid :: string
  sm_awlen :: string
  sm_awsize :: string
  sm_awburst :: string
  sm_wdata :: string
  sm_wstrb :: string
  sm_bid :: string
  sm_bresp :: string
  sm_araddr :: string
  sm_arid :: string
  sm_arlen :: string
  sm_arsize :: string
  sm_arburst :: string
  sm_rid :: string
  sm_rdata :: string
  sm_rresp :: string

record w_beat =
  wb_valid_begin_time :: nat
  wb_time :: nat
  wb_has_valid_begin_time :: bool
  wb_data :: string
  wb_strb :: string
  wb_last :: bool

text \<open>The start of a channel's \<open>valid\<close>: its time and whether it is active.\<close>

record valid_begin =
  vb_time :: nat
  vb_active :: bool

record axi_tracker =
  tk_result :: axi_result
  tk_w_beats :: "w_beat list"
  tk_pending_writes :: "axi_transaction list"
  tk_pending_reads :: "(string, axi_transaction list) omap"
  tk_write_outstanding :: int
  tk_read_outstanding :: int
  tk_write_outstanding_by_id :: id_counts
  tk_read_outstanding_by_id :: id_counts
  tk_next_seq :: nat
  tk_aw_valid :: valid_begin
  tk_w_valid :: valid_begin
  tk_ar_valid :: valid_begin
  tk_r_valid :: valid_begin
  tk_finished :: bool

definition axi_tracker_new :: axi_tracker where
  "axi_tracker_new =
     \<lparr>tk_result = axi_result_default, tk_w_beats = [], tk_pending_writes = [], tk_pending_reads = [],
      tk_write_outstanding = 0, tk_read_outstanding = 0, tk_write_outstanding_by_id = [],
      tk_read_outstanding_by_id = [], tk_next_seq = 0, tk_aw_valid = \<lparr>vb_time = 0, vb_active = False\<rparr>,
      tk_w_valid = \<lparr>vb_time = 0, vb_active = False\<rparr>, tk_ar_valid = \<lparr>vb_time = 0, vb_active = False\<rparr>,
      tk_r_valid = \<lparr>vb_time = 0, vb_active = False\<rparr>, tk_finished = False\<rparr>"

text \<open>An update of the diagnostics inside the result.\<close>

definition diag :: "(axi_diagnostics \<Rightarrow> axi_diagnostics) \<Rightarrow> axi_tracker \<Rightarrow> axi_tracker" where
  "diag f t = t\<lparr>tk_result := (tk_result t)\<lparr>rs_diagnostics := f (rs_diagnostics (tk_result t))\<rparr>\<rparr>"

section \<open>Helpers\<close>

definition id_count :: "id_counts \<Rightarrow> string \<Rightarrow> int" where
  "id_count m k = (case omap_get m k of None \<Rightarrow> 0 | Some n \<Rightarrow> n)"

definition inc_outstanding :: "int \<times> id_counts \<Rightarrow> string \<Rightarrow> int \<times> id_counts" where
  "inc_outstanding c k = (fst c + 1, omap_put k (id_count (snd c) k + 1) (snd c))"

definition dec_outstanding :: "int \<times> id_counts \<Rightarrow> string \<Rightarrow> int \<times> id_counts" where
  "dec_outstanding c k =
     (if fst c > 0 then fst c - 1 else fst c,
      case omap_get (snd c) k of
        None \<Rightarrow> snd c
      | Some n \<Rightarrow>
          let n' = (if n > 0 then n - 1 else n)
          in if n' = 0 then omap_del k (snd c) else omap_put k n' (snd c))"

definition axi_expected_beats :: "string \<Rightarrow> nat" where
  "axi_expected_beats len =
     (if len = [] then 1
      else let (v, rest) = c_strtoull 16 len in if rest = c_str len then 1 else (v + 1) mod 2 ^ 64)"

definition axi_write_phase_order :: "axi_transaction \<Rightarrow> string" where
  "axi_write_phase_order txn =
     (if \<not> tx_is_write txn \<or> tx_data txn = [] then ''unknown''
      else if tx_first_data_time txn < tx_addr_time txn then ''w_before_aw''
      else if tx_first_data_time txn = tx_addr_time txn then ''same_cycle''
      else ''aw_before_w'')"

section \<open>Steps of the tracker\<close>

definition clear_for_reset :: "axi_tracker \<Rightarrow> axi_tracker" where
  "clear_for_reset t =
     (diag (\<lambda>d. d\<lparr>dg_reset_cleared_write_count := dg_reset_cleared_write_count d + length (tk_pending_writes t),
              dg_reset_cleared_read_count :=
                dg_reset_cleared_read_count d + omap_total (\<lambda>_ q. length q) (tk_pending_reads t),
              dg_reset_cleared_w_beat_count := dg_reset_cleared_w_beat_count d + length (tk_w_beats t)\<rparr>) t)
     \<lparr>tk_pending_writes := [], tk_pending_reads := [], tk_w_beats := [],
      tk_write_outstanding := 0, tk_read_outstanding := 0,
      tk_write_outstanding_by_id := [], tk_read_outstanding_by_id := [],
      tk_aw_valid := (tk_aw_valid t)\<lparr>vb_active := False\<rparr>,
      tk_w_valid := (tk_w_valid t)\<lparr>vb_active := False\<rparr>,
      tk_ar_valid := (tk_ar_valid t)\<lparr>vb_active := False\<rparr>,
      tk_r_valid := (tk_r_valid t)\<lparr>vb_active := False\<rparr>\<rparr>"

text \<open>A beat of write data joins the first pending write whose data is incomplete.\<close>

definition add_w_beat :: "w_beat \<Rightarrow> axi_transaction \<Rightarrow> axi_transaction" where
  "add_w_beat b p0 =
     (let p1 = (if tx_data p0 = []
                then p0\<lparr>tx_first_data_time := wb_time b,
                        tx_first_data_valid_begin_time := wb_valid_begin_time b,
                        tx_has_first_data_valid_begin_time := wb_has_valid_begin_time b\<rparr>
                else p0);
          p2 = p1\<lparr>tx_data := tx_data p1 @ [wb_data b], tx_wstrb := tx_wstrb p1 @ [wb_strb b],
                  tx_data_handshake_times := tx_data_handshake_times p1 @ [wb_time b],
                  tx_data_last := tx_data_last p1 @ [wb_last b], tx_last_data_time := wb_time b\<rparr>
      in if wb_last b
         then let p3 = p2\<lparr>tx_data_complete := True\<rparr>
              in p3\<lparr>tx_phase_order := axi_write_phase_order p3\<rparr>
         else p2)"

definition beat_mismatch :: "axi_transaction \<Rightarrow> nat" where
  "beat_mismatch p = (if length (tx_data p) \<noteq> tx_expected_beat_count p then 1 else 0)"

text \<open>The loop over the buffered beats; the result holds the beats left, the pending writes and the
  beat count mismatches.\<close>

fun drain_loop :: "w_beat list \<Rightarrow> axi_transaction list \<Rightarrow> nat \<Rightarrow> w_beat list \<times> axi_transaction list \<times> nat" where
  "drain_loop [] pending mismatches = ([], pending, mismatches)"
| "drain_loop (b # bs) pending mismatches =
     (case List.extract (\<lambda>txn. \<not> tx_data_complete txn) pending of
        None \<Rightarrow> (b # bs, pending, mismatches)
      | Some (before, p, after) \<Rightarrow>
          let p' = add_w_beat b p
          in drain_loop bs (before @ p' # after)
               (mismatches + (if wb_last b then beat_mismatch p' else 0)))"

definition drain_w_beats :: "axi_tracker \<Rightarrow> axi_tracker" where
  "drain_w_beats t =
     (let (beats, pending, mismatches) = drain_loop (tk_w_beats t) (tk_pending_writes t) 0
      in diag (\<lambda>d. d\<lparr>dg_beat_count_mismatch_count := dg_beat_count_mismatch_count d + mismatches\<rparr>)
           (t\<lparr>tk_w_beats := beats, tk_pending_writes := pending\<rparr>))"

definition complete_write :: "axi_sample \<Rightarrow> axi_tracker \<Rightarrow> axi_tracker" where
  "complete_write s t =
     (case List.extract (\<lambda>txn. tx_data_complete txn \<and> tx_id txn = sm_bid s) (tk_pending_writes t) of
        None \<Rightarrow> diag (\<lambda>d. d\<lparr>dg_orphan_b_count := dg_orphan_b_count d + 1\<rparr>) t
      | Some (before, p, after) \<Rightarrow>
          let violated = (sm_time s \<le> tx_addr_time p \<or> sm_time s \<le> tx_last_data_time p);
              p1 = p\<lparr>tx_resp_time := sm_time s, tx_resp := sm_bresp s,
                     tx_response_dependency_violation := tx_response_dependency_violation p \<or> violated\<rparr>;
              t1 = (if violated
                    then diag (\<lambda>d. d\<lparr>dg_response_dependency_violation_count :=
                                 dg_response_dependency_violation_count d + 1\<rparr>) t
                    else t);
              (n, by_id) = dec_outstanding (tk_write_outstanding t1, tk_write_outstanding_by_id t1) (tx_id p1)
          in t1\<lparr>tk_write_outstanding := n, tk_write_outstanding_by_id := by_id,
                tk_result := (tk_result t1)\<lparr>rs_writes := rs_writes (tk_result t1) @ [p1]\<rparr>,
                tk_pending_writes := before @ after\<rparr>)"

definition add_r_beat :: "axi_sample \<Rightarrow> valid_begin \<Rightarrow> axi_transaction \<Rightarrow> axi_transaction" where
  "add_r_beat s r p0 =
     (let p1 = (if tx_data p0 = []
                then p0\<lparr>tx_first_data_time := sm_time s, tx_first_data_valid_begin_time := vb_time r,
                        tx_has_first_data_valid_begin_time := vb_active r\<rparr>
                else p0)
      in p1\<lparr>tx_data := tx_data p1 @ [sm_rdata s], tx_data_resp := tx_data_resp p1 @ [sm_rresp s],
            tx_data_handshake_times := tx_data_handshake_times p1 @ [sm_time s],
            tx_data_last := tx_data_last p1 @ [sm_rlast s], tx_resp := sm_rresp s,
            tx_last_data_time := sm_time s\<rparr>)"

definition complete_read :: "axi_sample \<Rightarrow> axi_tracker \<Rightarrow> axi_tracker" where
  "complete_read s t =
     (case omap_get (tk_pending_reads t) (sm_rid s) of
        Some (p0 # queue) \<Rightarrow>
          (let p = add_r_beat s (tk_r_valid t) p0
           in if \<not> sm_rlast s
              then t\<lparr>tk_pending_reads := omap_put (sm_rid s) (p # queue) (tk_pending_reads t)\<rparr>
              else let p1 = p\<lparr>tx_data_complete := True, tx_resp_time := sm_time s\<rparr>;
                       t1 = diag (\<lambda>d. d\<lparr>dg_beat_count_mismatch_count :=
                                    dg_beat_count_mismatch_count d + beat_mismatch p1\<rparr>) t;
                       (n, by_id) = dec_outstanding (tk_read_outstanding t1, tk_read_outstanding_by_id t1) (tx_id p1)
                   in t1\<lparr>tk_read_outstanding := n, tk_read_outstanding_by_id := by_id,
                         tk_result := (tk_result t1)\<lparr>rs_reads := rs_reads (tk_result t1) @ [p1]\<rparr>,
                         tk_pending_reads := (if queue = [] then omap_del (sm_rid s) (tk_pending_reads t1)
                                              else omap_put (sm_rid s) queue (tk_pending_reads t1))\<rparr>)
      | _ \<Rightarrow> diag (\<lambda>d. d\<lparr>dg_orphan_r_beat_count := dg_orphan_r_beat_count d + 1\<rparr>) t)"

definition snapshot :: "nat \<Rightarrow> axi_tracker \<Rightarrow> axi_tracker" where
  "snapshot time t =
     t\<lparr>tk_result := (tk_result t)\<lparr>rs_outstanding_samples := rs_outstanding_samples (tk_result t) @
         [\<lparr>os_time = time, os_read = tk_read_outstanding t, os_write = tk_write_outstanding t,
           os_read_by_id = tk_read_outstanding_by_id t, os_write_by_id = tk_write_outstanding_by_id t\<rparr>]\<rparr>\<rparr>"

definition track_valid_begin :: "bool \<Rightarrow> nat \<Rightarrow> valid_begin \<Rightarrow> valid_begin" where
  "track_valid_begin valid time v =
     (if \<not> valid then v\<lparr>vb_active := False\<rparr>
      else if \<not> vb_active v then \<lparr>vb_time = time, vb_active = True\<rparr> else v)"

definition track_valids :: "axi_sample \<Rightarrow> axi_tracker \<Rightarrow> axi_tracker" where
  "track_valids s t =
     t\<lparr>tk_aw_valid := track_valid_begin (sm_aw_valid s) (sm_time s) (tk_aw_valid t),
       tk_w_valid := track_valid_begin (sm_w_valid s) (sm_time s) (tk_w_valid t),
       tk_ar_valid := track_valid_begin (sm_ar_valid s) (sm_time s) (tk_ar_valid t),
       tk_r_valid := track_valid_begin (sm_r_valid s) (sm_time s) (tk_r_valid t)\<rparr>"

definition accept_aw :: "axi_sample \<Rightarrow> axi_tracker \<Rightarrow> axi_tracker" where
  "accept_aw s t =
     (let txn = axi_transaction_default
            \<lparr>tx_seq := tk_next_seq t + 1, tx_is_write := True,
             tx_addr_valid_begin_time := vb_time (tk_aw_valid t),
             tx_has_addr_valid_begin_time := vb_active (tk_aw_valid t),
             tx_addr_time := sm_time s, tx_addr := sm_awaddr s, tx_id := sm_awid s, tx_len := sm_awlen s,
             tx_size := sm_awsize s, tx_burst := sm_awburst s,
             tx_expected_beat_count := axi_expected_beats (sm_awlen s)\<rparr>;
          (n, by_id) = inc_outstanding (tk_write_outstanding t, tk_write_outstanding_by_id t) (sm_awid s)
      in (diag (\<lambda>d. d\<lparr>hs_aw := hs_aw d + 1,
                dg_max_total_write_outstanding := max (dg_max_total_write_outstanding d) n,
                dg_max_write_outstanding_by_id :=
                  omap_put (sm_awid s)
                    (max (id_count (dg_max_write_outstanding_by_id d) (sm_awid s)) (id_count by_id (sm_awid s)))
                    (dg_max_write_outstanding_by_id d)\<rparr>) t)
         \<lparr>tk_next_seq := tk_next_seq t + 1, tk_write_outstanding := n, tk_write_outstanding_by_id := by_id,
          tk_pending_writes := tk_pending_writes t @ [txn],
          tk_aw_valid := (tk_aw_valid t)\<lparr>vb_active := False\<rparr>\<rparr>)"

definition accept_ar :: "axi_sample \<Rightarrow> axi_tracker \<Rightarrow> axi_tracker" where
  "accept_ar s t =
     (let txn = axi_transaction_default
            \<lparr>tx_seq := tk_next_seq t + 1, tx_is_write := False,
             tx_addr_valid_begin_time := vb_time (tk_ar_valid t),
             tx_has_addr_valid_begin_time := vb_active (tk_ar_valid t),
             tx_addr_time := sm_time s, tx_addr := sm_araddr s, tx_id := sm_arid s, tx_len := sm_arlen s,
             tx_size := sm_arsize s, tx_burst := sm_arburst s,
             tx_expected_beat_count := axi_expected_beats (sm_arlen s)\<rparr>;
          (n, by_id) = inc_outstanding (tk_read_outstanding t, tk_read_outstanding_by_id t) (sm_arid s);
          queue = (case omap_get (tk_pending_reads t) (sm_arid s) of None \<Rightarrow> [] | Some q \<Rightarrow> q)
      in (diag (\<lambda>d. d\<lparr>hs_ar := hs_ar d + 1,
                dg_max_total_read_outstanding := max (dg_max_total_read_outstanding d) n,
                dg_max_read_outstanding_by_id :=
                  omap_put (sm_arid s)
                    (max (id_count (dg_max_read_outstanding_by_id d) (sm_arid s)) (id_count by_id (sm_arid s)))
                    (dg_max_read_outstanding_by_id d)\<rparr>) t)
         \<lparr>tk_next_seq := tk_next_seq t + 1, tk_read_outstanding := n, tk_read_outstanding_by_id := by_id,
          tk_pending_reads := omap_put (sm_arid s) (queue @ [txn]) (tk_pending_reads t),
          tk_ar_valid := (tk_ar_valid t)\<lparr>vb_active := False\<rparr>\<rparr>)"

definition accept_w :: "axi_sample \<Rightarrow> axi_tracker \<Rightarrow> axi_tracker" where
  "accept_w s t =
     (diag (\<lambda>d. d\<lparr>hs_w := hs_w d + 1\<rparr>) t)
     \<lparr>tk_w_beats := tk_w_beats t @
        [\<lparr>wb_valid_begin_time = vb_time (tk_w_valid t), wb_time = sm_time s,
          wb_has_valid_begin_time = vb_active (tk_w_valid t), wb_data = sm_wdata s,
          wb_strb = sm_wstrb s, wb_last = sm_wlast s\<rparr>],
      tk_w_valid := (tk_w_valid t)\<lparr>vb_active := False\<rparr>\<rparr>"

definition accept_b :: "axi_sample \<Rightarrow> axi_tracker \<Rightarrow> axi_tracker" where
  "accept_b s t = complete_write s (diag (\<lambda>d. d\<lparr>hs_b := hs_b d + 1\<rparr>) t)"

definition accept_r :: "axi_sample \<Rightarrow> axi_tracker \<Rightarrow> axi_tracker" where
  "accept_r s t =
     (let t1 = complete_read s (diag (\<lambda>d. d\<lparr>hs_r := hs_r d + 1\<rparr>) t)
      in t1\<lparr>tk_r_valid := (tk_r_valid t1)\<lparr>vb_active := False\<rparr>\<rparr>)"

text \<open>\<open>if (handshake) { ... }\<close>.\<close>

definition on_handshake :: "bool \<Rightarrow> (axi_tracker \<Rightarrow> axi_tracker) \<Rightarrow> axi_tracker \<Rightarrow> axi_tracker" where
  "on_handshake c f t = (if c then f t else t)"

definition consume :: "axi_sample \<Rightarrow> axi_tracker \<Rightarrow> axi_tracker" where
  "consume s t =
     (if tk_finished t then t
      else let t0 = diag (\<lambda>d. d\<lparr>dg_sample_count := dg_sample_count d + 1\<rparr>) t
           in if sm_reset_active s then clear_for_reset t0
              else let t1 = track_valids s t0;
                       t2 = on_handshake (sm_aw_handshake s) (accept_aw s) t1;
                       t3 = on_handshake (sm_ar_handshake s) (accept_ar s) t2;
                       t4 = on_handshake (sm_w_handshake s) (accept_w s) t3;
                       t5 = drain_w_beats t4;
                       t6 = on_handshake (sm_b_handshake s) (accept_b s) t5;
                       t7 = on_handshake (sm_r_handshake s) (accept_r s) t6
                   in snapshot (sm_time s) t7)"

section \<open>The result\<close>

text \<open>
  The order of \<open>txn_addr_less\<close>.  The sequence numbers are distinct, so \<open>std::sort\<close> has one result;
  the order of equal response times is left to it.
\<close>

definition addr_key :: "axi_transaction \<Rightarrow> nat \<times> nat" where
  "addr_key t = (tx_addr_time t, tx_seq t)"

definition finish_diagnostics :: "axi_tracker \<Rightarrow> nat \<Rightarrow> nat \<Rightarrow> bool \<Rightarrow> axi_diagnostics \<Rightarrow> axi_diagnostics" where
  "finish_diagnostics t scan_begin scan_end complete d =
     d\<lparr>dg_scan_begin := scan_begin, dg_scan_end := scan_end, dg_analysis_complete := complete,
       dg_incomplete_write_count := length (tk_pending_writes t),
       dg_buffered_w_beat_count := length (tk_w_beats t),
       dg_orphan_w_beat_count := length (tk_w_beats t),
       dg_buffered_w_burst_count := dg_buffered_w_burst_count d + length (filter wb_last (tk_w_beats t)),
       dg_final_write_outstanding := tk_write_outstanding t,
       dg_final_read_outstanding := tk_read_outstanding t,
       dg_incomplete_read_count :=
         dg_incomplete_read_count d + omap_total (\<lambda>_ q. length q) (tk_pending_reads t)\<rparr>"

definition finish :: "nat \<Rightarrow> nat \<Rightarrow> bool \<Rightarrow> axi_tracker \<Rightarrow> axi_result \<times> axi_tracker" where
  "finish scan_begin scan_end complete t =
     (if tk_finished t then (axi_result_default, t)
      else let r = tk_result t;
               all = sort_key addr_key (rs_writes r @ rs_reads r)
           in (r\<lparr>rs_diagnostics := finish_diagnostics t scan_begin scan_end complete (rs_diagnostics r),
                 rs_pending_writes := rs_pending_writes r @ tk_pending_writes t,
                 rs_pending_reads := rs_pending_reads r @ concat (map snd (tk_pending_reads t)),
                 rs_writes := sort_key addr_key (rs_writes r),
                 rs_reads := sort_key addr_key (rs_reads r),
                 rs_all := all,
                 rs_all_by_resp_time := sort_key (\<lambda>i. tx_resp_time (all ! i)) [0..<length all]\<rparr>,
               t\<lparr>tk_result := axi_result_default, tk_finished := True\<rparr>))"

section \<open>Latency outliers\<close>

definition transaction_latency :: "axi_transaction \<Rightarrow> nat" where
  "transaction_latency t =
     (if tx_resp_time t \<ge> tx_addr_time t then tx_resp_time t - tx_addr_time t else 0)"

text \<open>\<open>latency_rank_better\<close> is the order of this key: the longest latency first, then by sequence.\<close>

definition latency_rank :: "axi_transaction \<Rightarrow> int \<times> nat" where
  "latency_rank t = (- int (transaction_latency t), tx_seq t)"

definition latency_rank_better :: "axi_transaction \<Rightarrow> axi_transaction \<Rightarrow> bool" where
  "latency_rank_better a b \<longleftrightarrow>
     (if transaction_latency a \<noteq> transaction_latency b then transaction_latency a > transaction_latency b
      else tx_seq a < tx_seq b)"

lemma latency_rank_better_key: "latency_rank_better a b \<longleftrightarrow> latency_rank a < latency_rank b"
  by (auto simp: latency_rank_better_def latency_rank_def less_prod_def)

definition outlier_candidate :: "nat \<Rightarrow> nat \<Rightarrow> int \<Rightarrow> axi_transaction \<Rightarrow> bool" where
  "outlier_candidate begin_time end_time direction t \<longleftrightarrow>
     \<not> ((direction = 1 \<and> \<not> tx_is_write t) \<or> (direction = 2 \<and> tx_is_write t))
     \<and> ((tx_addr_time t \<ge> begin_time \<and> tx_addr_time t \<le> end_time)
        \<or> (tx_resp_time t \<ge> begin_time \<and> tx_resp_time t \<le> end_time))"

definition retain :: "nat \<Rightarrow> axi_transaction \<Rightarrow> axi_transaction list \<Rightarrow> axi_transaction list" where
  "retain limit t retained =
     (if limit = 0 then retained
      else if length retained < limit then pq_push latency_rank t retained
      else if latency_rank_better t (pq_top retained)
      then pq_push latency_rank t (pq_pop retained)
      else retained)"

text \<open>The loop over the transactions with its counters of candidates and matches.\<close>

fun outlier_loop ::
  "(axi_transaction \<Rightarrow> bool) \<Rightarrow> bool \<Rightarrow> nat \<Rightarrow> nat \<Rightarrow> axi_transaction list
     \<Rightarrow> axi_transaction list \<Rightarrow> nat \<Rightarrow> nat \<Rightarrow> axi_transaction list \<times> nat \<times> nat" where
  "outlier_loop cand mode threshold limit [] retained candidates matched = (retained, candidates, matched)"
| "outlier_loop cand mode threshold limit (t # ts) retained candidates matched =
     (if \<not> cand t then outlier_loop cand mode threshold limit ts retained candidates matched
      else if mode \<and> transaction_latency t \<le> threshold
      then outlier_loop cand mode threshold limit ts retained (candidates + 1) matched
      else outlier_loop cand mode threshold limit ts (retain limit t retained) (candidates + 1)
             (if mode then matched + 1 else matched))"

record outlier_selection =
  ol_transactions :: "axi_transaction list"
  ol_candidate_count :: nat
  ol_matched_outlier_count :: nat

definition select_axi_latency_outliers ::
  "axi_transaction list \<Rightarrow> nat \<Rightarrow> nat \<Rightarrow> int \<Rightarrow> bool \<Rightarrow> nat \<Rightarrow> nat \<Rightarrow> nat \<Rightarrow> outlier_selection" where
  "select_axi_latency_outliers ts begin_time end_time direction mode threshold top_n limit =
     (let (retained, candidates, matched) =
            outlier_loop (outlier_candidate begin_time end_time direction) mode threshold limit ts [] 0 0
      in \<lparr>ol_transactions = sort_key latency_rank retained, ol_candidate_count = candidates,
          ol_matched_outlier_count = (if mode then matched else min top_n candidates)\<rparr>)"

section \<open>Frames\<close>

abbreviation tk_diag :: "axi_tracker \<Rightarrow> axi_diagnostics" where
  "tk_diag t \<equiv> rs_diagnostics (tk_result t)"

abbreviation tk_writes :: "axi_tracker \<Rightarrow> axi_transaction list" where
  "tk_writes t \<equiv> rs_writes (tk_result t)"

abbreviation tk_reads :: "axi_tracker \<Rightarrow> axi_transaction list" where
  "tk_reads t \<equiv> rs_reads (tk_result t)"

lemma diag_frame [simp]:
  "tk_diag (diag f t) = f (tk_diag t)" "tk_writes (diag f t) = tk_writes t" "tk_reads (diag f t) = tk_reads t"
  "rs_outstanding_samples (tk_result (diag f t)) = rs_outstanding_samples (tk_result t)"
  "rs_pending_writes (tk_result (diag f t)) = rs_pending_writes (tk_result t)"
  "rs_pending_reads (tk_result (diag f t)) = rs_pending_reads (tk_result t)"
  "tk_w_beats (diag f t) = tk_w_beats t" "tk_pending_writes (diag f t) = tk_pending_writes t"
  "tk_pending_reads (diag f t) = tk_pending_reads t" "tk_write_outstanding (diag f t) = tk_write_outstanding t"
  "tk_read_outstanding (diag f t) = tk_read_outstanding t"
  "tk_write_outstanding_by_id (diag f t) = tk_write_outstanding_by_id t"
  "tk_read_outstanding_by_id (diag f t) = tk_read_outstanding_by_id t"
  "tk_next_seq (diag f t) = tk_next_seq t" "tk_finished (diag f t) = tk_finished t"
  "tk_r_valid (diag f t) = tk_r_valid t"
  by (simp_all add: diag_def)

text \<open>A beat changes the data of a transaction and not what identifies it.\<close>

lemma add_w_beat_frame [simp]:
  "tx_id (add_w_beat b p) = tx_id p" "tx_seq (add_w_beat b p) = tx_seq p"
  "tx_is_write (add_w_beat b p) = tx_is_write p" "tx_addr_time (add_w_beat b p) = tx_addr_time p"
  "tx_response_dependency_violation (add_w_beat b p) = tx_response_dependency_violation p"
  by (simp_all add: add_w_beat_def Let_def)

lemma add_w_beat_data:
  "tx_data (add_w_beat b p) = tx_data p @ [wb_data b]"
  "tx_data_last (add_w_beat b p) = tx_data_last p @ [wb_last b]"
  "tx_data_handshake_times (add_w_beat b p) = tx_data_handshake_times p @ [wb_time b]"
  "tx_first_data_time (add_w_beat b p) = (if tx_data p = [] then wb_time b else tx_first_data_time p)"
  "tx_last_data_time (add_w_beat b p) = wb_time b"
  "tx_data_complete (add_w_beat b p) \<longleftrightarrow> wb_last b \<or> tx_data_complete p"
  by (simp_all add: add_w_beat_def Let_def)

lemma add_r_beat_frame [simp]:
  "tx_id (add_r_beat s r p) = tx_id p" "tx_seq (add_r_beat s r p) = tx_seq p"
  "tx_is_write (add_r_beat s r p) = tx_is_write p" "tx_data_complete (add_r_beat s r p) = tx_data_complete p"
  by (simp_all add: add_r_beat_def Let_def)

lemma add_r_beat_data:
  "tx_data (add_r_beat s r p) = tx_data p @ [sm_rdata s]"
  "tx_data_last (add_r_beat s r p) = tx_data_last p @ [sm_rlast s]"
  "tx_data_handshake_times (add_r_beat s r p) = tx_data_handshake_times p @ [sm_time s]"
  "tx_first_data_time (add_r_beat s r p) = (if tx_data p = [] then sm_time s else tx_first_data_time p)"
  "tx_last_data_time (add_r_beat s r p) = sm_time s"
  by (simp_all add: add_r_beat_def Let_def)

section \<open>Invariants\<close>

subsection \<open>Outstanding counters\<close>

text \<open>
  A total and a map of counters count \<open>tot\<close> transactions, \<open>cnt k\<close> of them of the identifier \<open>k\<close>;
  an identifier with none has no entry.
\<close>

definition count_ok :: "int \<times> id_counts \<Rightarrow> (string \<Rightarrow> nat) \<Rightarrow> nat \<Rightarrow> bool" where
  "count_ok c cnt tot \<longleftrightarrow>
     fst c = int tot \<and> (\<forall>k. omap_get (snd c) k = (if cnt k = 0 then None else Some (int (cnt k))))"

lemma count_ok_id: "count_ok c cnt tot \<Longrightarrow> id_count (snd c) k = int (cnt k)"
  by (simp add: count_ok_def id_count_def)

lemma count_ok_inc:
  "count_ok c cnt tot \<Longrightarrow> count_ok (inc_outstanding c k) (cnt(k := Suc (cnt k))) (Suc tot)"
  using count_ok_id [of c cnt tot k] by (auto simp: count_ok_def inc_outstanding_def omap.get_put)

lemma count_ok_dec:
  "count_ok c cnt (Suc tot) \<Longrightarrow> cnt k = Suc n \<Longrightarrow> count_ok (dec_outstanding c k) (cnt(k := n)) tot"
  by (auto simp: count_ok_def dec_outstanding_def omap.get_put omap.get_del Let_def)

definition pending_queue :: "axi_tracker \<Rightarrow> string \<Rightarrow> axi_transaction list" where
  "pending_queue t k = (case omap_get (tk_pending_reads t) k of None \<Rightarrow> [] | Some q \<Rightarrow> q)"

definition pending_read_total :: "axi_tracker \<Rightarrow> nat" where
  "pending_read_total t = omap_total (\<lambda>_ q. length q) (tk_pending_reads t)"

definition counts_inv :: "axi_tracker \<Rightarrow> bool" where
  "counts_inv t \<longleftrightarrow>
     count_ok (tk_write_outstanding t, tk_write_outstanding_by_id t)
       (count_list (map tx_id (tk_pending_writes t))) (length (tk_pending_writes t))
     \<and> count_ok (tk_read_outstanding t, tk_read_outstanding_by_id t)
       (\<lambda>k. length (pending_queue t k)) (pending_read_total t)"

subsection \<open>Shape of the transactions\<close>

text \<open>The beats of a transaction: one flag and one time each; the last beat, and it alone, is
  flagged, exactly when the data is complete.\<close>

definition beats_ok :: "axi_transaction \<Rightarrow> bool" where
  "beats_ok x \<longleftrightarrow>
     length (tx_data_last x) = length (tx_data x) \<and> length (tx_data_handshake_times x) = length (tx_data x)
     \<and> (if tx_data_complete x
        then tx_data x \<noteq> [] \<and> tx_data_last x = replicate (length (tx_data x) - 1) False @ [True]
        else tx_data_last x = replicate (length (tx_data x)) False)
     \<and> (tx_data x \<noteq> [] \<longrightarrow> tx_first_data_time x = hd (tx_data_handshake_times x)
          \<and> tx_last_data_time x = last (tx_data_handshake_times x))"

definition pending_write_ok :: "axi_transaction \<Rightarrow> bool" where
  "pending_write_ok x \<longleftrightarrow> tx_is_write x \<and> beats_ok x \<and> \<not> tx_response_dependency_violation x"

definition done_write_ok :: "axi_transaction \<Rightarrow> bool" where
  "done_write_ok x \<longleftrightarrow> tx_is_write x \<and> beats_ok x \<and> tx_data_complete x
     \<and> (tx_response_dependency_violation x \<longleftrightarrow>
          tx_resp_time x \<le> tx_addr_time x \<or> tx_resp_time x \<le> tx_last_data_time x)"

definition pending_read_ok :: "string \<Rightarrow> axi_transaction \<Rightarrow> bool" where
  "pending_read_ok k x \<longleftrightarrow> tx_id x = k \<and> \<not> tx_is_write x \<and> \<not> tx_data_complete x \<and> beats_ok x"

definition done_read_ok :: "axi_transaction \<Rightarrow> bool" where
  "done_read_ok x \<longleftrightarrow> \<not> tx_is_write x \<and> tx_data_complete x \<and> beats_ok x \<and> tx_resp_time x = tx_last_data_time x"

lemma beats_ok_w_beat: "beats_ok p \<Longrightarrow> \<not> tx_data_complete p \<Longrightarrow> beats_ok (add_w_beat b p)"
  by (cases "tx_data p = []"; cases "tx_data_handshake_times p = []")
    (auto simp: beats_ok_def add_w_beat_data replicate_append_same [symmetric])

lemma beats_ok_r_beat:
  "beats_ok p \<Longrightarrow> \<not> tx_data_complete p \<Longrightarrow>
     (if sm_rlast s then beats_ok ((add_r_beat s r p)\<lparr>tx_data_complete := True, tx_resp_time := tm\<rparr>)
      else beats_ok (add_r_beat s r p))"
  by (cases "tx_data p = []"; cases "tx_data_handshake_times p = []")
    (auto simp: beats_ok_def add_r_beat_data replicate_append_same [symmetric])

text \<open>Write data is filled in order: no complete write follows an incomplete one.\<close>

definition fill_order :: "axi_transaction list \<Rightarrow> bool" where
  "fill_order ps \<longleftrightarrow> sorted_wrt (\<lambda>a b. tx_data_complete b \<longrightarrow> tx_data_complete a) ps"

text \<open>Transactions of one identifier are in the order of their addresses.\<close>

definition id_order :: "(string \<times> nat) list \<Rightarrow> bool" where
  "id_order xs \<longleftrightarrow> sorted_wrt (\<lambda>a b. fst a = fst b \<longrightarrow> snd a < snd b) xs"

definition tag :: "axi_transaction \<Rightarrow> string \<times> nat" where
  "tag x = (tx_id x, tx_seq x)"

definition writes_inv :: "axi_tracker \<Rightarrow> bool" where
  "writes_inv t \<longleftrightarrow> list_all pending_write_ok (tk_pending_writes t) \<and> list_all done_write_ok (tk_writes t)
     \<and> fill_order (tk_pending_writes t) \<and> id_order (map tag (tk_writes t @ tk_pending_writes t))"

definition reads_inv :: "axi_tracker \<Rightarrow> bool" where
  "reads_inv t \<longleftrightarrow> omap_ok (tk_pending_reads t)
     \<and> (\<forall>k q. omap_get (tk_pending_reads t) k = Some q \<longrightarrow> q \<noteq> [] \<and> list_all (pending_read_ok k) q)
     \<and> list_all done_read_ok (tk_reads t)
     \<and> (\<forall>k. sorted_wrt (<) (map tx_seq (filter (\<lambda>x. tx_id x = k) (tk_reads t) @ pending_queue t k)))"

text \<open>Every sequence number given out belongs to at most one transaction.\<close>

definition seq_count :: "axi_tracker \<Rightarrow> nat \<Rightarrow> nat" where
  "seq_count t n = count_list (map tx_seq (tk_writes t @ tk_pending_writes t)) n
     + count_list (map tx_seq (tk_reads t)) n
     + omap_total (\<lambda>_ q. count_list (map tx_seq q) n) (tk_pending_reads t)"

definition seq_inv :: "axi_tracker \<Rightarrow> bool" where
  "seq_inv t \<longleftrightarrow> (\<forall>n. seq_count t n \<le> (if 0 < n \<and> n \<le> tk_next_seq t then 1 else 0))"

text \<open>No handshake is lost: each belongs to a transaction, to an orphan or to a reset.\<close>

definition conserve_inv :: "axi_tracker \<Rightarrow> bool" where
  "conserve_inv t \<longleftrightarrow>
     hs_aw (tk_diag t) = length (tk_writes t) + length (tk_pending_writes t) + dg_reset_cleared_write_count (tk_diag t)
     \<and> hs_ar (tk_diag t) = length (tk_reads t) + pending_read_total t + dg_reset_cleared_read_count (tk_diag t)
     \<and> hs_b (tk_diag t) = length (tk_writes t) + dg_orphan_b_count (tk_diag t)
     \<and> tk_next_seq t = hs_aw (tk_diag t) + hs_ar (tk_diag t)
     \<and> dg_response_dependency_violation_count (tk_diag t)
         = length (filter tx_response_dependency_violation (tk_writes t))"

definition max_inv :: "axi_tracker \<Rightarrow> bool" where
  "max_inv t \<longleftrightarrow>
     tk_write_outstanding t \<le> dg_max_total_write_outstanding (tk_diag t)
     \<and> tk_read_outstanding t \<le> dg_max_total_read_outstanding (tk_diag t)
     \<and> (\<forall>k. id_count (tk_write_outstanding_by_id t) k \<le> id_count (dg_max_write_outstanding_by_id (tk_diag t)) k)
     \<and> (\<forall>k. id_count (tk_read_outstanding_by_id t) k \<le> id_count (dg_max_read_outstanding_by_id (tk_diag t)) k)"

definition axi_inv :: "axi_tracker \<Rightarrow> bool" where
  "axi_inv t \<longleftrightarrow> counts_inv t \<and> writes_inv t \<and> reads_inv t \<and> seq_inv t \<and> conserve_inv t \<and> max_inv t"

text \<open>Buffered data means that every pending write has all of its own.\<close>

definition drained :: "axi_tracker \<Rightarrow> bool" where
  "drained t \<longleftrightarrow> (tk_w_beats t \<noteq> [] \<longrightarrow> list_all tx_data_complete (tk_pending_writes t))"

lemmas axi_inv_defs = axi_inv_def counts_inv_def writes_inv_def reads_inv_def seq_inv_def
  conserve_inv_def max_inv_def

section \<open>The invariant is kept\<close>

lemma axi_inv_new: "axi_inv axi_tracker_new"
  by (simp add: axi_inv_defs axi_tracker_new_def axi_result_default_def axi_diagnostics_default_def
      count_ok_def pending_queue_def pending_read_total_def seq_count_def fill_order_def id_order_def
      id_count_def)

text \<open>Steps that change only what the invariant does not speak of.\<close>

lemma axi_inv_frame:
  assumes "axi_inv t"
    and "tk_pending_writes u = tk_pending_writes t" "tk_pending_reads u = tk_pending_reads t"
    and "tk_writes u = tk_writes t" "tk_reads u = tk_reads t" "tk_next_seq u = tk_next_seq t"
    and "tk_write_outstanding u = tk_write_outstanding t" "tk_read_outstanding u = tk_read_outstanding t"
    and "tk_write_outstanding_by_id u = tk_write_outstanding_by_id t"
    and "tk_read_outstanding_by_id u = tk_read_outstanding_by_id t"
    and "hs_aw (tk_diag u) = hs_aw (tk_diag t)" "hs_ar (tk_diag u) = hs_ar (tk_diag t)"
    and "hs_b (tk_diag u) = hs_b (tk_diag t) + n" "dg_orphan_b_count (tk_diag u) = dg_orphan_b_count (tk_diag t) + n"
    and "dg_reset_cleared_write_count (tk_diag u) = dg_reset_cleared_write_count (tk_diag t)"
    and "dg_reset_cleared_read_count (tk_diag u) = dg_reset_cleared_read_count (tk_diag t)"
    and "dg_response_dependency_violation_count (tk_diag u) = dg_response_dependency_violation_count (tk_diag t)"
    and "dg_max_total_write_outstanding (tk_diag u) = dg_max_total_write_outstanding (tk_diag t)"
    and "dg_max_total_read_outstanding (tk_diag u) = dg_max_total_read_outstanding (tk_diag t)"
    and "dg_max_write_outstanding_by_id (tk_diag u) = dg_max_write_outstanding_by_id (tk_diag t)"
    and "dg_max_read_outstanding_by_id (tk_diag u) = dg_max_read_outstanding_by_id (tk_diag t)"
  shows "axi_inv u"
proof -
  have "pending_queue u = pending_queue t" "pending_read_total u = pending_read_total t"
    by (simp_all add: fun_eq_iff pending_queue_def pending_read_total_def assms(3))
  note same = this assms(2-)
  have "seq_inv u" using assms(1) unfolding axi_inv_def seq_inv_def seq_count_def same by blast
  moreover have "conserve_inv u" using assms(1) by (simp add: axi_inv_def conserve_inv_def same)
  ultimately show ?thesis
    using assms(1) unfolding axi_inv_def counts_inv_def writes_inv_def reads_inv_def max_inv_def same
    by blast
qed

lemma axi_inv_track_valids: "axi_inv t \<Longrightarrow> axi_inv (track_valids s t)"
  by (erule axi_inv_frame [where n = 0]) (simp_all add: track_valids_def)

lemma axi_inv_snapshot: "axi_inv t \<Longrightarrow> axi_inv (snapshot time t)"
  by (erule axi_inv_frame [where n = 0]) (simp_all add: snapshot_def)

lemma axi_inv_accept_w: "axi_inv t \<Longrightarrow> axi_inv (accept_w s t)"
  by (erule axi_inv_frame [where n = 0]) (simp_all add: accept_w_def)

lemma axi_inv_sample_count:
  "axi_inv t \<Longrightarrow> axi_inv (diag (\<lambda>d. d\<lparr>dg_sample_count := Suc (dg_sample_count d)\<rparr>) t)"
  by (erule axi_inv_frame [where n = 0]) simp_all

lemma seq_count_bound: "seq_inv t \<Longrightarrow> x \<in> set (tk_writes t @ tk_pending_writes t @ tk_reads t) \<Longrightarrow> tx_seq x \<le> tk_next_seq t"
proof (rule ccontr)
  assume i: "seq_inv t" and x: "x \<in> set (tk_writes t @ tk_pending_writes t @ tk_reads t)"
    and "\<not> tx_seq x \<le> tk_next_seq t"
  then have "seq_count t (tx_seq x) = 0" unfolding seq_inv_def by (metis le_zero_eq)
  with x show False by (auto simp: seq_count_def count_list_0_iff)
qed

lemma seq_queue_bound:
  assumes "seq_inv t" "omap_ok (tk_pending_reads t)" "x \<in> set (pending_queue t k)"
  shows "tx_seq x \<le> tk_next_seq t"
proof (rule ccontr)
  assume "\<not> tx_seq x \<le> tk_next_seq t"
  with assms(1) have z: "seq_count t (tx_seq x) = 0" unfolding seq_inv_def by (metis le_zero_eq)
  obtain q where q: "omap_get (tk_pending_reads t) k = Some q" "x \<in> set q"
    using assms(3) by (cases "omap_get (tk_pending_reads t) k") (auto simp: pending_queue_def)
  from omap.total_ge [OF assms(2) q(1), of "\<lambda>_ q. count_list (map tx_seq q) (tx_seq x)"] z
  have "count_list (map tx_seq q) (tx_seq x) = 0" by (simp add: seq_count_def)
  with q(2) show False by (auto simp: count_list_0_iff)
qed

lemma seq_count_fresh: "seq_inv t \<Longrightarrow> seq_count t (Suc (tk_next_seq t)) = 0"
  unfolding seq_inv_def by (metis Suc_n_not_le_n le_zero_eq)

lemma seq_inv_step:
  assumes "seq_inv t" "\<forall>n. seq_count u n = seq_count t n + (if n = Suc (tk_next_seq t) then 1 else 0)"
    and "tk_next_seq u = Suc (tk_next_seq t)"
  shows "seq_inv u"
  unfolding seq_inv_def
proof
  fix n
  show "seq_count u n \<le> (if 0 < n \<and> n \<le> tk_next_seq u then 1 else 0)"
  proof (cases "n = Suc (tk_next_seq t)")
    case True
    with assms seq_count_fresh [OF assms(1)] show ?thesis by simp
  next
    case False
    with assms have "seq_count u n \<le> (if 0 < n \<and> n \<le> tk_next_seq t then 1 else 0)"
      by (simp add: seq_inv_def)
    with assms(3) show ?thesis by (auto split: if_splits)
  qed
qed

lemma id_order_snoc:
  "id_order xs \<Longrightarrow> (\<And>y. y \<in> set xs \<Longrightarrow> snd y < snd x) \<Longrightarrow> id_order (xs @ [x])"
  by (simp add: id_order_def sorted_wrt_append)

lemma max_by_id_inc:
  assumes "\<forall>j. id_count c j \<le> id_count m j" "inc_outstanding (n, c) k = (n', c')"
  shows "\<forall>j. id_count c' j \<le> id_count (omap_put k (max (id_count m k) (id_count c' k)) m) j"
  using assms by (auto simp: inc_outstanding_def id_count_def omap.get_put)

lemma axi_inv_accept_aw: "axi_inv t \<Longrightarrow> axi_inv (accept_aw s t)"
proof -
  assume i: "axi_inv t"
  let ?u = "accept_aw s t"
  obtain n c where nc: "inc_outstanding (tk_write_outstanding t, tk_write_outstanding_by_id t) (sm_awid s) = (n, c)"
    by fastforce
  obtain txn where u: "tk_pending_writes ?u = tk_pending_writes t @ [txn]"
    and txn: "tx_id txn = sm_awid s" "tx_seq txn = Suc (tk_next_seq t)" "pending_write_ok txn" "\<not> tx_data_complete txn"
    by (simp add: accept_aw_def nc axi_transaction_default_def pending_write_ok_def beats_ok_def)
  have f: "tk_pending_reads ?u = tk_pending_reads t" "tk_writes ?u = tk_writes t" "tk_reads ?u = tk_reads t"
    "tk_next_seq ?u = Suc (tk_next_seq t)" "tk_write_outstanding ?u = n" "tk_write_outstanding_by_id ?u = c"
    "tk_read_outstanding ?u = tk_read_outstanding t" "tk_read_outstanding_by_id ?u = tk_read_outstanding_by_id t"
    "tk_diag ?u = (tk_diag t)\<lparr>hs_aw := hs_aw (tk_diag t) + 1,
       dg_max_total_write_outstanding := max (dg_max_total_write_outstanding (tk_diag t)) n,
       dg_max_write_outstanding_by_id := omap_put (sm_awid s)
         (max (id_count (dg_max_write_outstanding_by_id (tk_diag t)) (sm_awid s)) (id_count c (sm_awid s)))
         (dg_max_write_outstanding_by_id (tk_diag t))\<rparr>"
    by (simp_all add: accept_aw_def nc)
  have queue: "pending_queue ?u = pending_queue t" "pending_read_total ?u = pending_read_total t"
    by (simp_all add: pending_queue_def pending_read_total_def f fun_eq_iff)
  have seq: "seq_inv t" "seq_inv ?u"
    using i seq_inv_step [of t ?u] by (simp_all add: axi_inv_def seq_count_def f u txn(2))
  have "id_order (map tag (tk_writes t @ tk_pending_writes t) @ [tag txn])"
    using i seq_count_bound [OF seq(1)]
    by (intro id_order_snoc) (auto simp: axi_inv_def writes_inv_def tag_def txn(2) less_Suc_eq_le)
  then have "writes_inv ?u"
    using i txn by (simp add: axi_inv_def writes_inv_def u f fill_order_def sorted_wrt_append)
  moreover have "counts_inv ?u"
  proof -
    have "count_ok (n, c) ((count_list (map tx_id (tk_pending_writes t)))
        (sm_awid s := Suc (count_list (map tx_id (tk_pending_writes t)) (sm_awid s)))) (Suc (length (tk_pending_writes t)))"
      using i count_ok_inc [of "(tk_write_outstanding t, tk_write_outstanding_by_id t)"]
      by (simp add: axi_inv_def counts_inv_def nc [symmetric])
    moreover have "(count_list (map tx_id (tk_pending_writes t)))
        (sm_awid s := Suc (count_list (map tx_id (tk_pending_writes t)) (sm_awid s)))
        = count_list (map tx_id (tk_pending_writes ?u))"
      by (auto simp: u txn(1))
    ultimately show ?thesis using i by (simp add: axi_inv_def counts_inv_def f queue u)
  qed
  moreover have "reads_inv ?u" using i by (simp add: axi_inv_def reads_inv_def f queue)
  moreover have "conserve_inv ?u" using i by (simp add: axi_inv_def conserve_inv_def f queue u)
  moreover have "max_inv ?u"
    using i max_by_id_inc [OF _ nc] by (simp add: axi_inv_def max_inv_def f)
  ultimately show ?thesis using seq(2) by (simp add: axi_inv_def)
qed

text \<open>The queues of pending reads, with a total over them that counts nothing for an empty one.\<close>

definition queue_of :: "(string, axi_transaction list) omap \<Rightarrow> string \<Rightarrow> axi_transaction list" where
  "queue_of m k = (case omap_get m k of None \<Rightarrow> [] | Some q \<Rightarrow> q)"

lemma pending_queue_of: "pending_queue t = queue_of (tk_pending_reads t)"
  by (simp add: pending_queue_def queue_of_def fun_eq_iff)

lemma queue_of_put: "queue_of (omap_put k q m) = (queue_of m)(k := q)"
  by (auto simp: queue_of_def omap.get_put fun_eq_iff)

lemma queue_of_del: "queue_of (omap_del k m) = (queue_of m)(k := [])"
  by (auto simp: queue_of_def omap.get_del fun_eq_iff)

lemma queue_total_put:
  "omap_ok m \<Longrightarrow> g [] = 0 \<Longrightarrow>
     omap_total (\<lambda>_ q. g q) (omap_put k q m) + g (queue_of m k) = omap_total (\<lambda>_ q. g q) m + g q"
  using omap.total_put_old [of m k _ "\<lambda>_ q. g q"] omap.total_put_new [of m k "\<lambda>_ q. g q"]
  by (cases "omap_get m k") (simp_all add: queue_of_def)

lemma queue_total_del:
  "omap_ok m \<Longrightarrow> omap_get m k = Some u \<Longrightarrow>
     omap_total (\<lambda>_ q. g q) (omap_del k m) + g (queue_of m k) = omap_total (\<lambda>_ q. g q) m"
  using omap.total_del [of m k u "\<lambda>_ q. g q"] by (simp add: queue_of_def)

lemma axi_inv_accept_ar: "axi_inv t \<Longrightarrow> axi_inv (accept_ar s t)"
proof -
  assume i: "axi_inv t"
  let ?u = "accept_ar s t" and ?k = "sm_arid s" and ?m = "tk_pending_reads t"
  obtain n c where nc: "inc_outstanding (tk_read_outstanding t, tk_read_outstanding_by_id t) ?k = (n, c)"
    by fastforce
  obtain txn where u: "tk_pending_reads ?u = omap_put ?k (queue_of ?m ?k @ [txn]) ?m"
    and txn: "tx_seq txn = Suc (tk_next_seq t)" "pending_read_ok ?k txn"
    by (simp add: accept_ar_def nc axi_transaction_default_def pending_read_ok_def beats_ok_def queue_of_def)
  have id: "tx_id txn = ?k" using txn(2) by (simp add: pending_read_ok_def)
  have f: "tk_pending_writes ?u = tk_pending_writes t" "tk_writes ?u = tk_writes t" "tk_reads ?u = tk_reads t"
    "tk_next_seq ?u = Suc (tk_next_seq t)" "tk_read_outstanding ?u = n" "tk_read_outstanding_by_id ?u = c"
    "tk_write_outstanding ?u = tk_write_outstanding t" "tk_write_outstanding_by_id ?u = tk_write_outstanding_by_id t"
    "tk_diag ?u = (tk_diag t)\<lparr>hs_ar := hs_ar (tk_diag t) + 1,
       dg_max_total_read_outstanding := max (dg_max_total_read_outstanding (tk_diag t)) n,
       dg_max_read_outstanding_by_id := omap_put ?k
         (max (id_count (dg_max_read_outstanding_by_id (tk_diag t)) ?k) (id_count c ?k))
         (dg_max_read_outstanding_by_id (tk_diag t))\<rparr>"
    by (simp_all add: accept_ar_def nc)
  have ok: "omap_ok ?m" using i by (simp add: axi_inv_def reads_inv_def)
  have queue: "pending_queue ?u = (pending_queue t)(?k := pending_queue t ?k @ [txn])"
    by (simp add: pending_queue_of u queue_of_put)
  have total: "omap_total (\<lambda>_ q. g q) (tk_pending_reads ?u) = omap_total (\<lambda>_ q. g q) ?m + w"
    if "g [] = 0" "g (queue_of ?m ?k @ [txn]) = g (queue_of ?m ?k) + w" for g w
    using queue_total_put [OF ok, of g ?k "queue_of ?m ?k @ [txn]"] that by (simp add: u)
  have len: "pending_read_total ?u = Suc (pending_read_total t)"
    using total [of length 1] by (simp add: pending_read_total_def)
  have "seq_count ?u m = seq_count t m + (if m = Suc (tk_next_seq t) then 1 else 0)" for m
    using total [of "\<lambda>q. count_list (map tx_seq q) m" "if m = Suc (tk_next_seq t) then 1 else 0"]
    by (simp add: seq_count_def f txn(1))
  then have seq: "seq_inv t" "seq_inv ?u"
    using i seq_inv_step [of t ?u] by (simp_all add: axi_inv_def f)
  have "reads_inv ?u"
    unfolding reads_inv_def
  proof (intro conjI allI impI)
    show "omap_ok (tk_pending_reads ?u)" using ok by (simp add: u omap.ok_put)
    show "list_all done_read_ok (tk_reads ?u)" using i by (simp add: axi_inv_def reads_inv_def f)
    fix j
    have old: "sorted_wrt (<) (map tx_seq (filter (\<lambda>x. tx_id x = j) (tk_reads t) @ pending_queue t j))"
      using i by (simp add: axi_inv_def reads_inv_def)
    have "y < tx_seq txn" if "y \<in> set (map tx_seq (filter (\<lambda>x. tx_id x = j) (tk_reads t) @ pending_queue t j))" for y
      using that seq_count_bound [OF seq(1)] seq_queue_bound [OF seq(1) ok] by (auto simp: txn(1) less_Suc_eq_le)
    with old show "sorted_wrt (<) (map tx_seq (filter (\<lambda>x. tx_id x = j) (tk_reads ?u) @ pending_queue ?u j))"
      by (auto simp: f queue sorted_wrt_append)
    fix q
    assume q: "omap_get (tk_pending_reads ?u) j = Some q"
    have all: "list_all (pending_read_ok ?k) (queue_of ?m ?k)"
      using i by (auto simp: axi_inv_def reads_inv_def queue_of_def split: option.split)
    show "q \<noteq> []" "list_all (pending_read_ok j) q"
      using q i all txn(2) by (auto simp: u omap.get_put axi_inv_def reads_inv_def split: if_splits)
  qed
  moreover have "counts_inv ?u"
  proof -
    have "count_ok (n, c) ((\<lambda>j. length (pending_queue t j))(?k := Suc (length (pending_queue t ?k))))
        (Suc (pending_read_total t))"
      using i count_ok_inc [of "(tk_read_outstanding t, tk_read_outstanding_by_id t)"
          "\<lambda>j. length (pending_queue t j)" "pending_read_total t" ?k]
      by (simp add: axi_inv_def counts_inv_def nc [symmetric])
    moreover have "(\<lambda>j. length (pending_queue t j))(?k := Suc (length (pending_queue t ?k)))
        = (\<lambda>j. length (pending_queue ?u j))" by (auto simp: queue)
    ultimately show ?thesis using i by (simp add: axi_inv_def counts_inv_def f len)
  qed
  moreover have "writes_inv ?u" using i by (simp add: axi_inv_def writes_inv_def f)
  moreover have "conserve_inv ?u" using i by (simp add: axi_inv_def conserve_inv_def f len)
  moreover have "max_inv ?u"
    using i max_by_id_inc [OF _ nc] by (simp add: axi_inv_def max_inv_def f)
  ultimately show ?thesis using seq(2) by (simp add: axi_inv_def)
qed

text \<open>Draining keeps what identifies the pending writes, in their order, and leaves data buffered
  only when every pending write is complete.\<close>

lemma extract_parts:
  assumes "List.extract P xs = Some (ys, y, zs)"
  shows "xs = ys @ y # zs" "P y" "\<forall>x\<in>set ys. \<not> P x"
  using assms by (simp_all add: extract_Some_iff)

lemma drain_loop_frame:
  "drain_loop bs ps m = (bs', ps', m') \<Longrightarrow>
     map tag ps' = map tag ps \<and> (list_all pending_write_ok ps \<longrightarrow> list_all pending_write_ok ps')
     \<and> (fill_order ps \<longrightarrow> fill_order ps') \<and> (bs' \<noteq> [] \<longrightarrow> list_all tx_data_complete ps')"
proof (induction bs ps m rule: drain_loop.induct)
  case (2 b bs ps m)
  show ?case
  proof (cases "List.extract (\<lambda>txn. \<not> tx_data_complete txn) ps")
    case None
    then have "list_all tx_data_complete ps" by (auto simp: extract_None_iff list_all_iff)
    with None 2(2) show ?thesis by auto
  next
    case (Some e)
    obtain ys p zs where e: "e = (ys, p, zs)" by (cases e) auto
    note x = extract_parts [OF Some [unfolded e]]
    let ?q = "ys @ add_w_beat b p # zs"
    have "map tag ?q = map tag ps" by (simp add: x(1) tag_def)
    moreover have "list_all pending_write_ok ps \<longrightarrow> list_all pending_write_ok ?q"
      using x(2) by (auto simp: x(1) pending_write_ok_def beats_ok_w_beat)
    moreover have "fill_order ps \<longrightarrow> fill_order ?q"
      using x(2,3) by (auto simp: x(1) fill_order_def sorted_wrt_append)
    moreover have "drain_loop bs ?q (m + (if wb_last b then beat_mismatch (add_w_beat b p) else 0)) = (bs', ps', m')"
      using 2(2) Some e by (simp add: Let_def)
    ultimately show ?thesis using 2(1) [OF Some e [symmetric] refl refl] by auto
  qed
qed auto

lemma map_tag: "map tx_id ps = map fst (map tag ps)" "map tx_seq ps = map snd (map tag ps)"
  by (simp_all add: tag_def)

lemma drain_pending:
  obtains ps bs m where "tk_pending_writes (drain_w_beats t) = ps" "drain_loop (tk_w_beats t) (tk_pending_writes t) 0 = (bs, ps, m)"
    "tk_w_beats (drain_w_beats t) = bs"
    "tk_diag (drain_w_beats t) = (tk_diag t)\<lparr>dg_beat_count_mismatch_count := dg_beat_count_mismatch_count (tk_diag t) + m\<rparr>"
  by (cases "drain_loop (tk_w_beats t) (tk_pending_writes t) 0") (simp add: drain_w_beats_def)

lemma drain_other [simp]:
  "tk_writes (drain_w_beats t) = tk_writes t" "tk_reads (drain_w_beats t) = tk_reads t"
  "tk_pending_reads (drain_w_beats t) = tk_pending_reads t" "tk_next_seq (drain_w_beats t) = tk_next_seq t"
  "tk_write_outstanding (drain_w_beats t) = tk_write_outstanding t"
  "tk_read_outstanding (drain_w_beats t) = tk_read_outstanding t"
  "tk_write_outstanding_by_id (drain_w_beats t) = tk_write_outstanding_by_id t"
  "tk_read_outstanding_by_id (drain_w_beats t) = tk_read_outstanding_by_id t"
  "tk_finished (drain_w_beats t) = tk_finished t"
  by (simp_all add: drain_w_beats_def split: prod.split)

lemma axi_inv_drain: "axi_inv t \<Longrightarrow> axi_inv (drain_w_beats t) \<and> drained (drain_w_beats t)"
proof -
  assume i: "axi_inv t"
  obtain ps bs m where d: "tk_pending_writes (drain_w_beats t) = ps"
    "drain_loop (tk_w_beats t) (tk_pending_writes t) 0 = (bs, ps, m)" "tk_w_beats (drain_w_beats t) = bs"
    "tk_diag (drain_w_beats t) = (tk_diag t)\<lparr>dg_beat_count_mismatch_count := dg_beat_count_mismatch_count (tk_diag t) + m\<rparr>"
    by (rule drain_pending)
  note f = drain_loop_frame [OF d(2)]
  then have tags: "map tag ps = map tag (tk_pending_writes t)" by simp
  then have ids: "map tx_id ps = map tx_id (tk_pending_writes t)" "map tx_seq ps = map tx_seq (tk_pending_writes t)"
    by (simp_all only: map_tag)
  then have len: "length ps = length (tk_pending_writes t)" by (metis length_map)
  have queue: "pending_queue (drain_w_beats t) = pending_queue t"
    "pending_read_total (drain_w_beats t) = pending_read_total t"
    by (simp_all add: pending_queue_of pending_read_total_def)
  have "writes_inv (drain_w_beats t)"
    using i f by (simp add: axi_inv_def writes_inv_def d(1) tags)
  moreover have "counts_inv (drain_w_beats t)" using i by (simp add: axi_inv_def counts_inv_def d(1) ids len queue)
  moreover have "reads_inv (drain_w_beats t)" using i by (simp add: axi_inv_def reads_inv_def queue)
  moreover have "seq_count (drain_w_beats t) = seq_count t" by (simp add: fun_eq_iff seq_count_def d(1) ids)
  then have "seq_inv (drain_w_beats t)" using i by (simp add: axi_inv_def seq_inv_def)
  moreover have "conserve_inv (drain_w_beats t)" using i by (simp add: axi_inv_def conserve_inv_def d queue len)
  moreover have "max_inv (drain_w_beats t)" using i by (simp add: axi_inv_def max_inv_def d)
  moreover have "drained (drain_w_beats t)" using f by (simp add: drained_def d)
  ultimately show ?thesis by (simp add: axi_inv_def)
qed

text \<open>Moving a pending write behind the completed ones keeps the order of its identifier, for those
  in front of it are complete and of other identifiers.\<close>

lemma id_order_move:
  "id_order (ws @ ys @ x # zs) \<Longrightarrow> \<forall>y\<in>set ys. fst y \<noteq> fst x \<Longrightarrow> id_order (ws @ x # ys @ zs)"
  by (auto simp: id_order_def sorted_wrt_append)

lemma count_list_remove:
  "count_list (map f (ys @ p # zs)) k = count_list (map f (ys @ zs)) k + (if f p = k then 1 else 0)"
  by simp

lemma max_by_id_dec:
  assumes "\<forall>j. id_count c j \<le> id_count m j" "count_ok (n, c) cnt (Suc tot)" "cnt k = Suc a"
    and "dec_outstanding (n, c) k = (n', c')"
  shows "\<forall>j. id_count c' j \<le> id_count m j" "n' \<le> n"
proof -
  have "count_ok (n', c') (cnt(k := a)) tot" using count_ok_dec [OF assms(2,3)] by (simp add: assms(4))
  then have new: "id_count c' j = int ((cnt(k := a)) j)" for j using count_ok_id [of "(n', c')"] by simp
  have old: "id_count c j = int (cnt j)" for j using count_ok_id [OF assms(2)] by simp
  show "\<forall>j. id_count c' j \<le> id_count m j"
  proof
    fix j
    have "id_count c' j \<le> id_count c j" by (simp add: new old assms(3))
    with assms(1) show "id_count c' j \<le> id_count m j" using order_trans by blast
  qed
  show "n' \<le> n" using assms(4) by (auto simp: dec_outstanding_def split: if_splits)
qed

text \<open>The completion of a write, by the part of the pending writes it is found in.\<close>

definition responded :: "axi_sample \<Rightarrow> axi_transaction \<Rightarrow> axi_transaction" where
  "responded s p = p\<lparr>tx_resp_time := sm_time s, tx_resp := sm_bresp s,
     tx_response_dependency_violation := tx_response_dependency_violation p
       \<or> (sm_time s \<le> tx_addr_time p \<or> sm_time s \<le> tx_last_data_time p)\<rparr>"

lemma complete_write_found:
  assumes "List.extract (\<lambda>txn. tx_data_complete txn \<and> tx_id txn = sm_bid s) (tk_pending_writes t) = Some (ys, p, zs)"
    and "dec_outstanding (tk_write_outstanding t, tk_write_outstanding_by_id t) (tx_id p) = (n, c)"
  shows "tk_pending_writes (complete_write s t) = ys @ zs"
    "tk_writes (complete_write s t) = tk_writes t @ [responded s p]"
    "tk_write_outstanding (complete_write s t) = n" "tk_write_outstanding_by_id (complete_write s t) = c"
    "tk_diag (complete_write s t) = (tk_diag t)\<lparr>dg_response_dependency_violation_count :=
       dg_response_dependency_violation_count (tk_diag t)
       + (if sm_time s \<le> tx_addr_time p \<or> sm_time s \<le> tx_last_data_time p then 1 else 0)\<rparr>"
  using assms by (auto simp: complete_write_def Let_def responded_def diag_def)

lemma complete_write_other [simp]:
  "tk_reads (complete_write s t) = tk_reads t" "tk_pending_reads (complete_write s t) = tk_pending_reads t"
  "tk_next_seq (complete_write s t) = tk_next_seq t" "tk_read_outstanding (complete_write s t) = tk_read_outstanding t"
  "tk_read_outstanding_by_id (complete_write s t) = tk_read_outstanding_by_id t"
  "tk_w_beats (complete_write s t) = tk_w_beats t" "tk_finished (complete_write s t) = tk_finished t"
  by (auto simp: complete_write_def Let_def split: option.splits prod.splits)

lemma done_write_responded:
  "pending_write_ok p \<Longrightarrow> tx_data_complete p \<Longrightarrow> done_write_ok (responded s p)"
  by (simp add: pending_write_ok_def done_write_ok_def responded_def beats_ok_def)

lemma axi_inv_accept_b: "axi_inv t \<Longrightarrow> axi_inv (accept_b s t)"
proof -
  assume i: "axi_inv t"
  let ?v = "diag (\<lambda>d. d\<lparr>hs_b := hs_b d + 1\<rparr>) t"
  let ?P = "\<lambda>txn. tx_data_complete txn \<and> tx_id txn = sm_bid s"
  show ?thesis
  proof (cases "List.extract ?P (tk_pending_writes t)")
    case None
    then have "accept_b s t = diag (\<lambda>d. d\<lparr>dg_orphan_b_count := dg_orphan_b_count d + 1\<rparr>) ?v"
      by (simp add: accept_b_def complete_write_def)
    then show ?thesis using axi_inv_frame [OF i, where n = 1] by simp
  next
    case (Some e)
    obtain ys p zs where e: "e = (ys, p, zs)" by (cases e) auto
    note x = extract_parts [OF Some [unfolded e]]
    obtain n c where nc: "dec_outstanding (tk_write_outstanding t, tk_write_outstanding_by_id t) (tx_id p) = (n, c)"
      by fastforce
    let ?u = "accept_b s t" and ?q = "responded s p"
    have f: "tk_pending_writes ?u = ys @ zs" "tk_writes ?u = tk_writes t @ [?q]"
      "tk_write_outstanding ?u = n" "tk_write_outstanding_by_id ?u = c"
      "tk_diag ?u = (tk_diag t)\<lparr>hs_b := hs_b (tk_diag t) + 1, dg_response_dependency_violation_count :=
         dg_response_dependency_violation_count (tk_diag t)
         + (if sm_time s \<le> tx_addr_time p \<or> sm_time s \<le> tx_last_data_time p then 1 else 0)\<rparr>"
      using complete_write_found [of s ?v ys p zs n c] Some e nc by (simp_all add: accept_b_def)
    have g: "tk_reads ?u = tk_reads t" "tk_pending_reads ?u = tk_pending_reads t" "tk_next_seq ?u = tk_next_seq t"
      "tk_read_outstanding ?u = tk_read_outstanding t" "tk_read_outstanding_by_id ?u = tk_read_outstanding_by_id t"
      by (simp_all add: accept_b_def)
    have queue: "pending_queue ?u = pending_queue t" "pending_read_total ?u = pending_read_total t"
      by (simp_all add: pending_queue_of pending_read_total_def g)
    have tag: "tag ?q = tag p" "tx_id ?q = tx_id p" "tx_seq ?q = tx_seq p"
      by (simp_all add: tag_def responded_def)
    have p: "pending_write_ok p" "list_all pending_write_ok ys" "list_all pending_write_ok zs"
      and order: "fill_order (ys @ p # zs)" "id_order (map tag (tk_writes t) @ map tag ys @ tag p # map tag zs)"
      using i by (simp_all add: axi_inv_def writes_inv_def x(1))
    have "\<forall>y\<in>set ys. tx_data_complete y" using order(1) x(2) by (auto simp: fill_order_def sorted_wrt_append)
    with x(2,3) have "\<forall>y\<in>set (map tag ys). fst y \<noteq> fst (tag p)" by (auto simp: tag_def)
    from id_order_move [OF order(2) this] have "id_order (map tag (tk_writes t) @ tag p # map tag (ys @ zs))" by simp
    moreover have "fill_order (ys @ zs)" using order(1) by (simp add: fill_order_def sorted_wrt_append)
    ultimately have "writes_inv ?u"
      using i p done_write_responded [OF p(1)] x(2) by (simp add: axi_inv_def writes_inv_def f tag)
    moreover have cnt: "count_ok (tk_write_outstanding t, tk_write_outstanding_by_id t)
        (count_list (map tx_id (ys @ p # zs))) (Suc (length (ys @ zs)))"
      using i by (simp add: axi_inv_def counts_inv_def x(1))
    have one: "count_list (map tx_id (ys @ p # zs)) (tx_id p) = Suc (count_list (map tx_id (ys @ zs)) (tx_id p))"
      by simp
    have "count_ok (n, c) ((count_list (map tx_id (ys @ p # zs)))(tx_id p := count_list (map tx_id (ys @ zs)) (tx_id p)))
        (length (ys @ zs))"
      using count_ok_dec [OF cnt one] unfolding nc .
    moreover have "(count_list (map tx_id (ys @ p # zs)))(tx_id p := count_list (map tx_id (ys @ zs)) (tx_id p))
        = count_list (map tx_id (ys @ zs))" by (auto simp: fun_eq_iff)
    ultimately have "counts_inv ?u" using i by (simp add: axi_inv_def counts_inv_def f g queue)
    moreover have "reads_inv ?u" using i by (simp add: axi_inv_def reads_inv_def g queue)
    moreover have "seq_count ?u m = seq_count t m" for m by (simp add: seq_count_def f g x(1) tag)
    then have "seq_inv ?u" using i by (simp add: axi_inv_def seq_inv_def g)
    moreover have "\<not> tx_response_dependency_violation p" using p(1) by (simp add: pending_write_ok_def)
    then have "conserve_inv ?u"
      using i by (simp add: axi_inv_def conserve_inv_def f g queue x(1)) (simp add: responded_def)
    moreover have "max_inv ?u"
    proof -
      have m: "tk_write_outstanding t \<le> dg_max_total_write_outstanding (tk_diag t)"
        "\<forall>k. id_count (tk_write_outstanding_by_id t) k \<le> id_count (dg_max_write_outstanding_by_id (tk_diag t)) k"
        using i by (simp_all add: axi_inv_def max_inv_def)
      from max_by_id_dec [OF m(2) cnt one nc] m(1) i show ?thesis
        by (simp add: axi_inv_def max_inv_def f g)
    qed
    ultimately show ?thesis using \<open>writes_inv ?u\<close> by (simp add: axi_inv_def)
  qed
qed

lemma axi_inv_reset: "axi_inv t \<Longrightarrow> axi_inv (clear_for_reset t)"
proof -
  assume i: "axi_inv t"
  have "seq_count (clear_for_reset t) n \<le> seq_count t n" for n
    by (simp add: seq_count_def clear_for_reset_def)
  moreover have "tk_next_seq (clear_for_reset t) = tk_next_seq t" by (simp add: clear_for_reset_def)
  ultimately have "seq_inv (clear_for_reset t)"
    using i unfolding axi_inv_def seq_inv_def by (metis order_trans)
  moreover have "sorted_wrt (<) (map tx_seq (filter (\<lambda>x. tx_id x = k) (tk_reads t)))" for k
    using i by (simp add: axi_inv_def reads_inv_def sorted_wrt_append)
  moreover have "id_order (map tag (tk_writes t))"
    using i by (simp add: axi_inv_def writes_inv_def id_order_def sorted_wrt_append)
  moreover have "0 \<le> dg_max_total_write_outstanding (tk_diag t)" "0 \<le> dg_max_total_read_outstanding (tk_diag t)"
    using i by (auto simp: axi_inv_def max_inv_def counts_inv_def count_ok_def)
  moreover have "0 \<le> id_count (dg_max_write_outstanding_by_id (tk_diag t)) k"
    "0 \<le> id_count (dg_max_read_outstanding_by_id (tk_diag t)) k" for k
  proof -
    have "0 \<le> id_count (tk_write_outstanding_by_id t) k" "0 \<le> id_count (tk_read_outstanding_by_id t) k"
      using i count_ok_id [of "(tk_write_outstanding t, tk_write_outstanding_by_id t)" _ _ k]
        count_ok_id [of "(tk_read_outstanding t, tk_read_outstanding_by_id t)" _ _ k]
      by (auto simp: axi_inv_def counts_inv_def)
    moreover have "id_count (tk_write_outstanding_by_id t) k \<le> id_count (dg_max_write_outstanding_by_id (tk_diag t)) k"
      "id_count (tk_read_outstanding_by_id t) k \<le> id_count (dg_max_read_outstanding_by_id (tk_diag t)) k"
      using i by (simp_all add: axi_inv_def max_inv_def)
    ultimately show "0 \<le> id_count (dg_max_write_outstanding_by_id (tk_diag t)) k"
      "0 \<le> id_count (dg_max_read_outstanding_by_id (tk_diag t)) k" by linarith+
  qed
  ultimately show ?thesis using i
    by (simp add: axi_inv_def counts_inv_def writes_inv_def reads_inv_def conserve_inv_def max_inv_def
        clear_for_reset_def count_ok_def pending_queue_def pending_read_total_def fill_order_def id_count_def)
qed

text \<open>A read beat goes to the oldest pending read of its identifier, and the last one completes it.\<close>

definition with_resp :: "nat \<Rightarrow> axi_transaction \<Rightarrow> axi_transaction" where
  "with_resp time p = p\<lparr>tx_data_complete := True, tx_resp_time := time\<rparr>"

lemma with_resp_frame [simp]:
  "tx_id (with_resp tm p) = tx_id p" "tx_seq (with_resp tm p) = tx_seq p" "tx_is_write (with_resp tm p) = tx_is_write p"
  by (simp_all add: with_resp_def)

lemma complete_read_other [simp]:
  "tk_writes (complete_read s t) = tk_writes t" "tk_pending_writes (complete_read s t) = tk_pending_writes t"
  "tk_next_seq (complete_read s t) = tk_next_seq t" "tk_write_outstanding (complete_read s t) = tk_write_outstanding t"
  "tk_write_outstanding_by_id (complete_read s t) = tk_write_outstanding_by_id t"
  "tk_w_beats (complete_read s t) = tk_w_beats t" "tk_finished (complete_read s t) = tk_finished t"
  by (auto simp: complete_read_def Let_def split: option.splits list.splits prod.splits)

lemma complete_read_cases:
  obtains "complete_read s t = diag (\<lambda>d. d\<lparr>dg_orphan_r_beat_count := dg_orphan_r_beat_count d + 1\<rparr>) t"
  | p q where "omap_get (tk_pending_reads t) (sm_rid s) = Some (p # q)" "\<not> sm_rlast s"
      "complete_read s t = t\<lparr>tk_pending_reads :=
         omap_put (sm_rid s) (add_r_beat s (tk_r_valid t) p # q) (tk_pending_reads t)\<rparr>"
  | p q n c m where "omap_get (tk_pending_reads t) (sm_rid s) = Some (p # q)" "sm_rlast s"
      "dec_outstanding (tk_read_outstanding t, tk_read_outstanding_by_id t) (tx_id p) = (n, c)"
      "tk_reads (complete_read s t) = tk_reads t @ [with_resp (sm_time s) (add_r_beat s (tk_r_valid t) p)]"
      "tk_pending_reads (complete_read s t) = (if q = [] then omap_del (sm_rid s) (tk_pending_reads t)
         else omap_put (sm_rid s) q (tk_pending_reads t))"
      "tk_read_outstanding (complete_read s t) = n" "tk_read_outstanding_by_id (complete_read s t) = c"
      "tk_diag (complete_read s t) = (tk_diag t)\<lparr>dg_beat_count_mismatch_count := dg_beat_count_mismatch_count (tk_diag t) + m\<rparr>"
proof (cases "omap_get (tk_pending_reads t) (sm_rid s)")
  case None
  then show ?thesis by (intro that(1)) (simp add: complete_read_def)
next
  case (Some pq)
  show ?thesis
  proof (cases pq)
    case Nil
    with Some show ?thesis by (intro that(1)) (simp add: complete_read_def)
  next
    case (Cons p q)
    obtain n c where nc: "dec_outstanding (tk_read_outstanding t, tk_read_outstanding_by_id t) (tx_id p) = (n, c)"
      by fastforce
    show ?thesis
    proof (cases "sm_rlast s")
      case True
      show ?thesis
        by (rule that(3) [of p q n c "beat_mismatch (with_resp (sm_time s) (add_r_beat s (tk_r_valid t) p))"];
            use Some Cons True nc in \<open>simp add: complete_read_def Let_def with_resp_def diag_def\<close>)
    next
      case False
      with Some Cons show ?thesis by (intro that(2)) (simp_all add: complete_read_def Let_def)
    qed
  qed
qed

lemma queue_head_total:
  fixes m :: "(string, axi_transaction list) omap"
  assumes "omap_ok m" "omap_get m k = Some (p # q)" "g [] = 0"
  shows "omap_total (\<lambda>_ q. g q) (if q = [] then omap_del k m else omap_put k q m) + g (p # q)
     = omap_total (\<lambda>_ q. g q) m + g q"
proof -
  have "queue_of m k = p # q" using assms(2) by (simp add: queue_of_def)
  with queue_total_put [OF assms(1), of g k q] queue_total_del [OF assms(1,2), of g] assms(3)
  show ?thesis by (cases "q = []") simp_all
qed

lemma axi_inv_complete_read: "axi_inv t \<Longrightarrow> axi_inv (complete_read s t)"
proof -
  assume i: "axi_inv t"
  let ?u = "complete_read s t" and ?k = "sm_rid s" and ?m = "tk_pending_reads t"
  have ok: "omap_ok ?m" and queues: "\<And>k q. omap_get ?m k = Some q \<Longrightarrow> q \<noteq> [] \<and> list_all (pending_read_ok k) q"
    and order: "\<And>k. sorted_wrt (<) (map tx_seq (filter (\<lambda>x. tx_id x = k) (tk_reads t) @ pending_queue t k))"
    using i by (auto simp: axi_inv_def reads_inv_def)
  show ?thesis
  proof (cases rule: complete_read_cases [of s t])
    case 1
    then show ?thesis using axi_inv_frame [OF i, where n = 0] by simp
  next
    case (2 p q)
    have pq: "pending_read_ok ?k p" "list_all (pending_read_ok ?k) q" using queues [OF 2(1)] by simp_all
    let ?p = "add_r_beat s (tk_r_valid t) p"
    have p: "pending_read_ok ?k ?p"
      using pq(1) beats_ok_r_beat [where p = p and s = s and r = "tk_r_valid t"] 2(2) by (simp add: pending_read_ok_def)
    have q0: "pending_queue t ?k = p # q" by (simp add: pending_queue_def 2(1))
    have queue: "pending_queue ?u = (pending_queue t)(?k := ?p # q)"
      by (simp add: 2(3) pending_queue_of queue_of_put)
    have total: "omap_total (\<lambda>_ q. g q) (tk_pending_reads ?u) = omap_total (\<lambda>_ q. g q) ?m"
      if "g [] = 0" "g (?p # q) = g (p # q)" for g
      using queue_total_put [OF ok, of g ?k "?p # q"] that 2(1) by (simp add: 2(3) queue_of_def)
    have len: "pending_read_total ?u = pending_read_total t" using total [of length] by (simp add: pending_read_total_def)
    have lens: "(\<lambda>k. length (pending_queue ?u k)) = (\<lambda>k. length (pending_queue t k))" by (auto simp: queue q0)
    have "seq_count ?u n = seq_count t n" for n
      using total [of "\<lambda>q. count_list (map tx_seq q) n"] by (simp add: seq_count_def) (simp add: 2(3))
    then have "seq_inv ?u" using i by (simp add: axi_inv_def seq_inv_def)
    moreover have "reads_inv ?u"
      unfolding reads_inv_def
    proof (intro conjI allI impI)
      show "omap_ok (tk_pending_reads ?u)" using ok by (simp add: 2(3) omap.ok_put)
      show "list_all done_read_ok (tk_reads ?u)" using i by (simp add: axi_inv_def reads_inv_def 2(3))
      fix j
      show "sorted_wrt (<) (map tx_seq (filter (\<lambda>x. tx_id x = j) (tk_reads ?u) @ pending_queue ?u j))"
        using order [of j] by (cases "j = ?k") (simp_all add: queue q0, simp_all add: 2(3))
      fix r
      assume r: "omap_get (tk_pending_reads ?u) j = Some r"
      show "r \<noteq> []" "list_all (pending_read_ok j) r"
        using r p pq(2) queues by (auto simp: 2(3) omap.get_put split: if_splits)
    qed
    moreover have "counts_inv ?u" using i by (simp add: axi_inv_def counts_inv_def lens len) (simp add: 2(3))
    moreover have "writes_inv ?u" "max_inv ?u" "conserve_inv ?u"
      using i by (simp_all add: axi_inv_def writes_inv_def max_inv_def conserve_inv_def len) (simp_all add: 2(3))
    ultimately show ?thesis by (simp add: axi_inv_def)
  next
    case (3 p q n c m)
    have pq: "pending_read_ok ?k p" "list_all (pending_read_ok ?k) q" using queues [OF 3(1)] by simp_all
    let ?p = "with_resp (sm_time s) (add_r_beat s (tk_r_valid t) p)"
    have p: "done_read_ok ?p" "tx_id p = ?k"
      using pq(1) beats_ok_r_beat [where p = p and s = s and r = "tk_r_valid t" and tm = "sm_time s"] 3(2)
      by (simp_all add: pending_read_ok_def done_read_ok_def with_resp_def add_r_beat_data)
    have q0: "pending_queue t ?k = p # q" by (simp add: pending_queue_def 3(1))
    have queue: "pending_queue ?u = (pending_queue t)(?k := q)"
      by (simp add: 3(5) pending_queue_of queue_of_put queue_of_del)
    have total: "omap_total (\<lambda>_ q. g q) (tk_pending_reads ?u) + w = omap_total (\<lambda>_ q. g q) ?m"
      if "g [] = 0" "g (p # q) = w + g q" for g w
      using queue_head_total [OF ok 3(1), of g] that by (simp add: 3(5))
    have len: "pending_read_total t = Suc (pending_read_total ?u)"
      using total [of length 1] by (simp add: pending_read_total_def)
    have "seq_count ?u n = seq_count t n" for n
      using total [of "\<lambda>q. count_list (map tx_seq q) n" "if tx_seq p = n then 1 else 0"]
      by (cases "tx_seq p = n") (simp_all add: seq_count_def 3(4))
    then have seq: "seq_inv ?u" using i by (simp add: axi_inv_def seq_inv_def)
    have cnt: "count_ok (tk_read_outstanding t, tk_read_outstanding_by_id t) (\<lambda>k. length (pending_queue t k)) (Suc (pending_read_total ?u))"
      using i by (simp add: axi_inv_def counts_inv_def len)
    have one: "length (pending_queue t (tx_id p)) = Suc (length q)" by (simp add: p(2) q0)
    have "(\<lambda>k. length (pending_queue t k))(tx_id p := length q) = (\<lambda>k. length (pending_queue ?u k))"
      by (auto simp: queue p(2))
    then have cnt': "count_ok (n, c) (\<lambda>k. length (pending_queue ?u k)) (pending_read_total ?u)"
      using count_ok_dec [OF cnt one] unfolding 3(3) by simp
    have "counts_inv ?u" using i cnt' by (simp add: axi_inv_def counts_inv_def 3(6,7))
    moreover have "reads_inv ?u"
      unfolding reads_inv_def
    proof (intro conjI allI impI)
      show "omap_ok (tk_pending_reads ?u)" using ok by (simp add: 3(5) omap.ok_put omap.ok_del)
      show "list_all done_read_ok (tk_reads ?u)" using i p(1) by (simp add: axi_inv_def reads_inv_def 3(4))
      fix j
      show "sorted_wrt (<) (map tx_seq (filter (\<lambda>x. tx_id x = j) (tk_reads ?u) @ pending_queue ?u j))"
        using order [of j] by (auto simp: 3(4) queue p(2) q0 split: if_splits)
      fix r
      assume r: "omap_get (tk_pending_reads ?u) j = Some r"
      show "r \<noteq> []" "list_all (pending_read_ok j) r"
        using r pq(2) queues by (auto simp: 3(5) omap.get_put omap.get_del split: if_splits)
    qed
    moreover have "writes_inv ?u" using i by (simp add: axi_inv_def writes_inv_def)
    moreover have "conserve_inv ?u" using i by (simp add: axi_inv_def conserve_inv_def 3(4,8) len)
    moreover have "max_inv ?u"
    proof -
      have m: "tk_read_outstanding t \<le> dg_max_total_read_outstanding (tk_diag t)"
        "\<forall>k. id_count (tk_read_outstanding_by_id t) k \<le> id_count (dg_max_read_outstanding_by_id (tk_diag t)) k"
        using i by (simp_all add: axi_inv_def max_inv_def)
      from max_by_id_dec [OF m(2) cnt one 3(3)] m(1) i show ?thesis
        by (simp add: axi_inv_def max_inv_def 3(6,7,8))
    qed
    ultimately show ?thesis using seq by (simp add: axi_inv_def)
  qed
qed

lemma axi_inv_accept_r: "axi_inv t \<Longrightarrow> axi_inv (accept_r s t)"
proof -
  assume i: "axi_inv t"
  have "axi_inv (diag (\<lambda>d. d\<lparr>hs_r := hs_r d + 1\<rparr>) t)" by (rule axi_inv_frame [OF i, where n = 0]) simp_all
  then have "axi_inv (complete_read s (diag (\<lambda>d. d\<lparr>hs_r := hs_r d + 1\<rparr>) t))" by (rule axi_inv_complete_read)
  then show ?thesis by (rule axi_inv_frame [where n = 0]) (simp_all add: accept_r_def Let_def)
qed

text \<open>Every step of a sample keeps the invariant.\<close>

lemmas axi_inv_steps = axi_inv_sample_count axi_inv_reset axi_inv_track_valids axi_inv_accept_aw
  axi_inv_accept_ar axi_inv_accept_w axi_inv_accept_b axi_inv_accept_r axi_inv_snapshot

lemma axi_inv_on_handshake: "(axi_inv t \<Longrightarrow> axi_inv (f t)) \<Longrightarrow> axi_inv t \<Longrightarrow> axi_inv (on_handshake c f t)"
  by (simp add: on_handshake_def)

lemma axi_inv_consume: "axi_inv t \<Longrightarrow> axi_inv (consume s t)"
  unfolding consume_def Let_def
  by (auto intro!: axi_inv_steps axi_inv_on_handshake conjunct1 [OF axi_inv_drain])

lemma drained_complete_write: "drained t \<Longrightarrow> drained (complete_write s t)"
proof (cases "List.extract (\<lambda>txn. tx_data_complete txn \<and> tx_id txn = sm_bid s) (tk_pending_writes t)")
  case None
  then show "drained t \<Longrightarrow> ?thesis" by (simp add: complete_write_def drained_def)
next
  case (Some e)
  obtain ys p zs where e: "e = (ys, p, zs)" by (cases e) auto
  obtain n c where nc: "dec_outstanding (tk_write_outstanding t, tk_write_outstanding_by_id t) (tx_id p) = (n, c)"
    by fastforce
  show "drained t \<Longrightarrow> ?thesis"
    using complete_write_found(1) [of s t ys p zs n c] Some e nc extract_parts(1) [OF Some [unfolded e]]
    by (simp add: drained_def)
qed

lemma drained_tail:
  "drained t \<Longrightarrow> drained (on_handshake c (accept_b s) t)"
  "drained t \<Longrightarrow> drained (on_handshake c (accept_r s) t)"
  "drained t \<Longrightarrow> drained (snapshot time t)"
proof -
  assume d: "drained t"
  have "drained (diag (\<lambda>d. d\<lparr>hs_b := hs_b d + 1\<rparr>) t)" using d by (simp add: drained_def)
  then show "drained (on_handshake c (accept_b s) t)"
    using d drained_complete_write by (simp add: on_handshake_def accept_b_def)
  show "drained (on_handshake c (accept_r s) t)" "drained (snapshot time t)"
    using d by (simp_all add: drained_def on_handshake_def accept_r_def snapshot_def Let_def)
qed

lemma drained_consume: "axi_inv t \<Longrightarrow> drained t \<Longrightarrow> drained (consume s t)"
proof -
  assume i: "axi_inv t" and d: "drained t"
  have t4: "axi_inv (on_handshake (sm_w_handshake s) (accept_w s) (on_handshake (sm_ar_handshake s) (accept_ar s)
      (on_handshake (sm_aw_handshake s) (accept_aw s) (track_valids s (diag (\<lambda>d. d\<lparr>dg_sample_count := Suc (dg_sample_count d)\<rparr>) t)))))"
    using i by (intro axi_inv_steps axi_inv_on_handshake)
  show ?thesis
  proof (cases "tk_finished t \<or> sm_reset_active s")
    case True
    with d show ?thesis by (auto simp: consume_def Let_def drained_def clear_for_reset_def)
  next
    case False
    with conjunct2 [OF axi_inv_drain [OF t4]] show ?thesis
      unfolding consume_def Let_def by (auto intro!: drained_tail)
  qed
qed

text \<open>The states the tracker goes through on a list of samples.\<close>

definition axi_run :: "axi_sample list \<Rightarrow> axi_tracker" where
  "axi_run ss = fold consume ss axi_tracker_new"

lemma axi_run_inv: "axi_inv (axi_run ss) \<and> drained (axi_run ss)"
proof -
  have "axi_inv (fold consume ss t) \<and> drained (fold consume ss t)" if "axi_inv t" "drained t" for t
    using that by (induction ss arbitrary: t) (simp_all add: axi_inv_consume drained_consume)
  moreover have "drained axi_tracker_new" by (simp add: drained_def axi_tracker_new_def)
  ultimately show ?thesis using axi_inv_new by (simp add: axi_run_def)
qed

lemma axi_run_unfinished: "\<not> tk_finished (axi_run ss)"
proof -
  have "tk_finished (consume s t) = tk_finished t" for s t
    by (simp add: consume_def Let_def clear_for_reset_def snapshot_def on_handshake_def track_valids_def
        accept_aw_def accept_ar_def accept_w_def accept_b_def accept_r_def split: prod.split)
  then have "tk_finished (fold consume ss t) = tk_finished t" for t by (induction ss arbitrary: t) simp_all
  then show ?thesis by (simp add: axi_run_def axi_tracker_new_def)
qed

lemma count_list_distinct: "\<forall>n. count_list xs n \<le> 1 \<Longrightarrow> distinct xs"
proof (induction xs)
  case (Cons x xs)
  have "count_list xs n \<le> 1" for n using spec [OF Cons.prems, of n] by (simp split: if_splits)
  moreover have "count_list xs x = 0" using spec [OF Cons.prems, of x] by simp
  ultimately show ?case using Cons.IH by (simp add: count_list_0_iff)
qed simp

lemma distinct_seqs: "axi_inv t \<Longrightarrow> distinct (map tx_seq (tk_writes t @ tk_reads t))"
proof -
  assume i: "axi_inv t"
  have "count_list (map tx_seq (tk_writes t @ tk_reads t)) n \<le> 1" for n
  proof -
    have "count_list (map tx_seq (tk_writes t @ tk_reads t)) n \<le> seq_count t n" by (simp add: seq_count_def)
    also have "\<dots> \<le> (if 0 < n \<and> n \<le> tk_next_seq t then 1 else 0)"
      using i by (simp add: axi_inv_def seq_inv_def)
    finally show ?thesis by (simp split: if_splits)
  qed
  then show ?thesis by (intro count_list_distinct allI)
qed

section \<open>The retained outliers\<close>

lemma sorted_last_take:
  "sorted (map f (x # xs)) \<Longrightarrow> f x \<le> f (last (take (Suc m) (x # xs)))"
proof -
  assume s: "sorted (map f (x # xs))"
  have "last (take (Suc m) (x # xs)) \<in> set (take (Suc m) (x # xs))" by (intro last_in_set) simp
  then have "last (take (Suc m) (x # xs)) \<in> set (x # xs)" using set_take_subset by (metis subset_iff)
  with s show ?thesis by auto
qed

text \<open>Keeping the best \<open>n\<close> of a sorted list under an insertion: the worst of them gives way.\<close>

lemma take_insort:
  "sorted (map f xs) \<Longrightarrow> f t \<notin> f ` set xs \<Longrightarrow>
     take (Suc m) (insort_key f t xs) =
       (if length xs < Suc m then insort_key f t xs
        else if f t < f (last (take (Suc m) xs)) then insort_key f t (butlast (take (Suc m) xs))
        else take (Suc m) xs)"
proof (induction xs arbitrary: m)
  case (Cons x xs)
  have sx: "sorted (map f xs)" "f t \<notin> f ` set xs" and ne: "f t \<noteq> f x" using Cons.prems by auto
  show ?case
  proof (cases "f t < f x")
    case True
    then have less: "f t < f (last (take (Suc m) (x # xs)))"
      using sorted_last_take [OF Cons.prems(1)] by (rule less_le_trans)
    show ?thesis
    proof (cases m)
      case 0
      with True less show ?thesis by (simp add: less_imp_le)
    next
      case (Suc k)
      with True less show ?thesis by (auto simp: butlast_take)
    qed
  next
    case False
    with ne have gt: "f x < f t" by simp
    show ?thesis
    proof (cases m)
      case 0
      with gt show ?thesis by (auto simp: not_le)
    next
      case (Suc k)
      have "xs \<noteq> [] \<longrightarrow> last (take (Suc (Suc k)) (x # xs)) = last (take (Suc k) xs)" by (cases xs) auto
      with Cons.IH [OF sx, of k] gt Suc show ?thesis by (cases "xs = []") (auto simp: not_le)
    qed
  qed
qed simp

lemma retain_take:
  assumes "latency_rank t \<notin> latency_rank ` set ps"
  shows "retain limit t (take limit (sort_key latency_rank ps)) = take limit (sort_key latency_rank (t # ps))"
proof (cases limit)
  case 0
  then show ?thesis by (simp add: retain_def)
next
  case (Suc m)
  let ?xs = "sort_key latency_rank ps"
  have "sorted (map latency_rank ?xs)" "latency_rank t \<notin> latency_rank ` set ?xs" using assms by simp_all
  from take_insort [OF this, of m] show ?thesis
    by (auto simp: Suc retain_def pq_push_def pq_top_def pq_pop_def latency_rank_better_key min_def)
qed

lemma outlier_loop_eq:
  "distinct (map latency_rank (rev ts @ ps)) \<Longrightarrow>
     outlier_loop cand mode threshold limit ts (take limit (sort_key latency_rank ps)) c m =
       (let chosen = filter (\<lambda>t. cand t \<and> (mode \<longrightarrow> threshold < transaction_latency t)) ts
        in (take limit (sort_key latency_rank (rev chosen @ ps)), c + length (filter cand ts),
            if mode then m + length chosen else m))"
proof (induction ts arbitrary: ps c m)
  case (Cons t ts)
  have fresh: "latency_rank t \<notin> latency_rank ` set ps" using Cons.prems by auto
  have d1: "distinct (map latency_rank (rev ts @ ps))" and d2: "distinct (map latency_rank (rev ts @ t # ps))"
    using Cons.prems by auto
  consider "\<not> cand t" | "cand t" "mode \<and> transaction_latency t \<le> threshold"
    | "cand t" "\<not> (mode \<and> transaction_latency t \<le> threshold)" by blast
  then show ?case
  proof cases
    case 3
    have "outlier_loop cand mode threshold limit (t # ts) (take limit (sort_key latency_rank ps)) c m =
        outlier_loop cand mode threshold limit ts (take limit (sort_key latency_rank (t # ps))) (c + 1)
          (if mode then m + 1 else m)"
      using 3 retain_take [OF fresh, of limit] by (simp only: outlier_loop.simps) auto
    also have "\<dots> = (let chosen = filter (\<lambda>t. cand t \<and> (mode \<longrightarrow> threshold < transaction_latency t)) ts
        in (take limit (sort_key latency_rank (rev chosen @ t # ps)), c + 1 + length (filter cand ts),
            if mode then (if mode then m + 1 else m) + length chosen else (if mode then m + 1 else m)))"
      by (rule Cons.IH [OF d2])
    finally show ?thesis using 3 by (auto simp: Let_def)
  next
    case 1
    then show ?thesis using Cons.IH [OF d1, of c m] by (simp add: Let_def)
  next
    case 2
    then show ?thesis using Cons.IH [OF d1, of "c + 1" m] by (simp add: Let_def not_less)
  qed
qed simp

text \<open>Two samples: a read and a write address with its only beat, then both responses.\<close>

definition idle_sample :: axi_sample where
  "idle_sample = \<lparr>sm_time = 0, sm_reset_active = False, sm_aw_valid = False, sm_w_valid = False,
     sm_ar_valid = False, sm_r_valid = False, sm_aw_handshake = False, sm_w_handshake = False,
     sm_b_handshake = False, sm_ar_handshake = False, sm_r_handshake = False, sm_wlast = False,
     sm_rlast = False, sm_awaddr = [], sm_awid = [], sm_awlen = [], sm_awsize = [], sm_awburst = [],
     sm_wdata = [], sm_wstrb = [], sm_bid = [], sm_bresp = [], sm_araddr = [], sm_arid = [],
     sm_arlen = [], sm_arsize = [], sm_arburst = [], sm_rid = [], sm_rdata = [], sm_rresp = []\<rparr>"

definition sample_trace :: "axi_sample list" where
  "sample_trace =
     [idle_sample\<lparr>sm_time := 10, sm_aw_handshake := True, sm_w_handshake := True, sm_wlast := True,
        sm_awid := ''1'', sm_bid := ''1'', sm_ar_handshake := True, sm_arid := ''2''\<rparr>,
      idle_sample\<lparr>sm_time := 20, sm_b_handshake := True, sm_bid := ''1'', sm_r_handshake := True,
        sm_rlast := True, sm_rid := ''2''\<rparr>]"

text \<open>Two write addresses of one identifier with the data of the first, then its response.\<close>

definition same_id_trace :: "axi_sample list" where
  "same_id_trace =
     [idle_sample\<lparr>sm_time := 10, sm_aw_handshake := True, sm_awid := ''7'', sm_w_handshake := True, sm_wlast := True\<rparr>,
      idle_sample\<lparr>sm_time := 20, sm_aw_handshake := True, sm_awid := ''7'', sm_b_handshake := True, sm_bid := ''7''\<rparr>,
      idle_sample\<lparr>sm_time := 30, sm_ar_handshake := True, sm_arid := ''2''\<rparr>]"

section \<open>Properties\<close>

text \<open>
  C13: the outstanding counters are exact: after any samples the write counter is the number of
  pending writes, and the entry of an identifier is the number of its pending writes and missing
  when there is none; the read counter and its entries count the queues of pending reads; the
  recorded maxima are never below the counters.
\<close>

theorem axi_outstanding_exact:
  "let t = axi_run ss in
     tk_write_outstanding t = int (length (tk_pending_writes t))
     \<and> (\<forall>k. id_count (tk_write_outstanding_by_id t) k = int (count_list (map tx_id (tk_pending_writes t)) k))
     \<and> tk_read_outstanding t = int (pending_read_total t)
     \<and> (\<forall>k. id_count (tk_read_outstanding_by_id t) k = int (length (pending_queue t k)))
     \<and> tk_write_outstanding t \<le> dg_max_total_write_outstanding (tk_diag t)
     \<and> tk_read_outstanding t \<le> dg_max_total_read_outstanding (tk_diag t)"
proof -
  have i: "counts_inv (axi_run ss)" "max_inv (axi_run ss)" using axi_run_inv [of ss] by (simp_all add: axi_inv_def)
  then have c: "count_ok (tk_write_outstanding (axi_run ss), tk_write_outstanding_by_id (axi_run ss))
       (count_list (map tx_id (tk_pending_writes (axi_run ss)))) (length (tk_pending_writes (axi_run ss)))"
    "count_ok (tk_read_outstanding (axi_run ss), tk_read_outstanding_by_id (axi_run ss))
       (\<lambda>k. length (pending_queue (axi_run ss) k)) (pending_read_total (axi_run ss))"
    by (simp_all add: counts_inv_def)
  from count_ok_id [OF c(1)] count_ok_id [OF c(2)] c i(2) show ?thesis
    by (simp add: Let_def count_ok_def max_inv_def)
qed

text \<open>
  C14: no handshake is lost: every AW handshake is a completed write, a pending write or a write
  cleared by a reset, every AR handshake likewise for reads, and every B handshake completed a write
  or is counted as an orphan; the violations counted are the completed writes flagged.
\<close>

theorem axi_handshakes_conserved:
  "let t = axi_run ss; d = tk_diag t in
     hs_aw d = length (tk_writes t) + length (tk_pending_writes t) + dg_reset_cleared_write_count d
     \<and> hs_ar d = length (tk_reads t) + pending_read_total t + dg_reset_cleared_read_count d
     \<and> hs_b d = length (tk_writes t) + dg_orphan_b_count d
     \<and> dg_response_dependency_violation_count d
         = length (filter tx_response_dependency_violation (tk_writes t))"
  using axi_run_inv [of ss] by (simp add: Let_def axi_inv_def conserve_inv_def)

text \<open>
  C15: responses of one identifier come back in the order of its addresses: among the completed
  writes, followed by the pending ones, two of the same identifier are in the order of their
  sequence numbers, and so are the completed reads of an identifier followed by its queue.
\<close>

theorem axi_same_id_order:
  "sorted_wrt (\<lambda>a b. tx_id a = tx_id b \<longrightarrow> tx_seq a < tx_seq b) (tk_writes (axi_run ss) @ tk_pending_writes (axi_run ss))
   \<and> sorted_wrt (<) (map tx_seq (filter (\<lambda>x. tx_id x = k) (tk_reads (axi_run ss)) @ pending_queue (axi_run ss) k))"
  using axi_run_inv [of ss]
  by (simp add: axi_inv_def writes_inv_def reads_inv_def id_order_def tag_def sorted_wrt_map comp_def
      del: map_append filter_append)

theorem axi_same_id_order_witness:
  "\<exists>a b. tk_writes (axi_run same_id_trace) = [a] \<and> tk_pending_writes (axi_run same_id_trace) = [b]
     \<and> tx_id a = tx_id b \<and> tx_seq a < tx_seq b"
proof -
  have len: "length (tk_writes (axi_run same_id_trace)) = 1" "length (tk_pending_writes (axi_run same_id_trace)) = 1"
    by code_simp+
  then obtain a b where ab: "tk_writes (axi_run same_id_trace) = [a]" "tk_pending_writes (axi_run same_id_trace) = [b]"
    by (auto simp: length_Suc_conv)
  have "tx_id (hd (tk_writes (axi_run same_id_trace))) = tx_id (hd (tk_pending_writes (axi_run same_id_trace)))"
    by code_simp
  with ab axi_same_id_order [of same_id_trace "''2''"] show ?thesis by simp
qed



text \<open>
  Every completed transaction is well formed: its beats have one flag and one time each, the
  last beat and no other is flagged as last, its first and last data times are those of its beats, a
  write is flagged as violating the response order exactly when its response is not later than its
  address and its last data, and a read is answered with its last beat.
\<close>

theorem axi_completed_well_formed:
  "list_all done_write_ok (tk_writes (axi_run ss)) \<and> list_all done_read_ok (tk_reads (axi_run ss))"
  using axi_run_inv [of ss] by (simp add: axi_inv_def writes_inv_def reads_inv_def)

text \<open>
  The result lists what was completed, once each, in the order of the addresses: its list of
  all transactions is a permutation of the writes and the reads, in the order of address time and
  sequence number, which are distinct, so that this list is the only one; and the index by response
  time is a permutation of its positions in the order of the response times.
\<close>

theorem axi_finish_sorted:
  assumes "r = fst (finish scan_begin scan_end complete (axi_run ss))"
  shows "mset (rs_all r) = mset (rs_writes r) + mset (rs_reads r)
     \<and> mset (rs_writes r) = mset (tk_writes (axi_run ss)) \<and> mset (rs_reads r) = mset (tk_reads (axi_run ss))
     \<and> sorted (map addr_key (rs_all r)) \<and> distinct (map tx_seq (rs_all r))
     \<and> (\<forall>xs. mset xs = mset (rs_all r) \<longrightarrow> sorted (map addr_key xs) \<longrightarrow> xs = rs_all r)
     \<and> mset (rs_all_by_resp_time r) = mset [0..<length (rs_all r)]
     \<and> sorted (map (\<lambda>i. tx_resp_time (rs_all r ! i)) (rs_all_by_resp_time r))"
proof -
  let ?w = "tk_writes (axi_run ss)" and ?d = "tk_reads (axi_run ss)"
  have r: "rs_all r = sort_key addr_key (?w @ ?d)" "rs_writes r = sort_key addr_key ?w"
    "rs_reads r = sort_key addr_key ?d"
    "rs_all_by_resp_time r = sort_key (\<lambda>i. tx_resp_time (rs_all r ! i)) [0..<length (rs_all r)]"
    using assms axi_run_unfinished [of ss] by (simp_all add: finish_def Let_def)
  have m: "mset (rs_all r) = mset (?w @ ?d)" by (simp only: r(1) sorting.srt_perm)
  have "distinct (map tx_seq (?w @ ?d))" using distinct_seqs axi_run_inv by blast
  moreover from m have "mset (map tx_seq (rs_all r)) = mset (map tx_seq (?w @ ?d))" by (simp only: mset_map)
  ultimately have d: "distinct (map tx_seq (rs_all r))" by (metis mset_eq_imp_distinct_iff)
  then have "inj_on addr_key (set (rs_all r))"
    by (auto simp: addr_key_def distinct_map inj_on_def)
  from sorting.srt_unique [OF this] have "xs = rs_all r"
    if "mset xs = mset (rs_all r)" "sorted (map addr_key xs)" for xs
    using that sorting.srt_unique [OF \<open>inj_on addr_key (set (rs_all r))\<close> refl] r(1) sorting.srt_sorted by metis
  with m d r show ?thesis by (simp add: sorting.srt_perm sorting.srt_sorted)
qed

text \<open>
  C17: the outliers kept are the best of the candidates: over transactions with distinct sequence
  numbers the bounded queue keeps exactly the first \<open>limit\<close> in the order of latency, the longest
  first and the older first among equals, of the transactions in the window and, in threshold mode,
  above the threshold; the counters count them.
\<close>

theorem latency_outliers_top:
  assumes "distinct (map tx_seq ts)"
  shows "select_axi_latency_outliers ts b e direction mode threshold top_n limit =
     (let candidates = filter (outlier_candidate b e direction) ts;
          chosen = filter (\<lambda>t. mode \<longrightarrow> threshold < transaction_latency t) candidates
      in \<lparr>ol_transactions = take limit (sort_key latency_rank chosen),
          ol_candidate_count = length candidates,
          ol_matched_outlier_count = (if mode then length chosen else min top_n (length candidates))\<rparr>)"
proof -
  let ?cand = "outlier_candidate b e direction"
  let ?chosen = "filter (\<lambda>t. ?cand t \<and> (mode \<longrightarrow> threshold < transaction_latency t)) ts"
  have inj: "inj_on latency_rank (set ts)"
    using assms by (auto simp: latency_rank_def distinct_map inj_on_def)
  have "distinct (map latency_rank (rev ts @ []))"
    using assms inj by (simp add: distinct_map rev_map [symmetric])
  from outlier_loop_eq [OF this, of ?cand mode threshold limit 0 0]
  have loop: "outlier_loop ?cand mode threshold limit ts [] 0 0 =
      (take limit (sort_key latency_rank (rev ?chosen)), length (filter ?cand ts), if mode then length ?chosen else 0)"
    by (simp add: Let_def)
  have "sort_key latency_rank (rev ?chosen) = sort_key latency_rank ?chosen"
    using inj by (intro sorting.srt_unique) (auto simp: sorting.srt_perm sorting.srt_sorted inj_on_def)
  moreover have "sort_key latency_rank (take limit (sort_key latency_rank ?chosen)) = take limit (sort_key latency_rank ?chosen)"
    by (simp add: sort_key_id_if_sorted take_map [symmetric] sorted_wrt_take)
  ultimately show ?thesis
    unfolding select_axi_latency_outliers_def loop
    by (simp add: Let_def conj_commute)
qed

theorem axi_finish_sorted_witness:
  "map tx_seq (rs_all (fst (finish 0 100 True (axi_run sample_trace)))) = [1, 2]"
proof -
  let ?r = "fst (finish 0 100 True (axi_run sample_trace))"
  have w: "mset (rs_writes ?r) = mset (tk_writes (axi_run sample_trace))"
    and all: "\<forall>xs. mset xs = mset (rs_all ?r) \<longrightarrow> sorted (map addr_key xs) \<longrightarrow> xs = rs_all ?r"
    using axi_finish_sorted [OF refl, of 0 100 True sample_trace] by blast+
  have "rs_writes ?r @ rs_reads ?r = rs_all ?r"
  proof (rule all [rule_format])
    show "mset (rs_writes ?r @ rs_reads ?r) = mset (rs_all ?r)"
      using axi_finish_sorted [OF refl, of 0 100 True sample_trace] by simp
    show "sorted (map addr_key (rs_writes ?r @ rs_reads ?r))" by code_simp
  qed
  moreover have "map tx_seq (rs_writes ?r @ rs_reads ?r) = [1, 2]" by code_simp
  ultimately show ?thesis by simp
qed

theorem latency_outliers_top_witness:
  "map tx_seq (ol_transactions (select_axi_latency_outliers
     [axi_transaction_default\<lparr>tx_seq := 1, tx_addr_time := 5, tx_resp_time := 9\<rparr>,
      axi_transaction_default\<lparr>tx_seq := 2, tx_addr_time := 6, tx_resp_time := 16\<rparr>,
      axi_transaction_default\<lparr>tx_seq := 3, tx_addr_time := 7, tx_resp_time := 14\<rparr>] 0 100 0 False 0 2 2)) = [2, 3]"
proof -
  let ?ts = "[axi_transaction_default\<lparr>tx_seq := 1, tx_addr_time := 5, tx_resp_time := 9\<rparr>,
      axi_transaction_default\<lparr>tx_seq := 2, tx_addr_time := 6, tx_resp_time := 16\<rparr>,
      axi_transaction_default\<lparr>tx_seq := 3, tx_addr_time := 7, tx_resp_time := 14\<rparr>]"
  have "distinct (map tx_seq ?ts)" by simp
  from latency_outliers_top [OF this, of 0 100 0 False 0 2 2]
  have "ol_transactions (select_axi_latency_outliers ?ts 0 100 0 False 0 2 2)
     = take 2 (sort_key latency_rank (filter (outlier_candidate 0 100 0) ?ts))"
    by (simp add: Let_def)
  moreover have "map tx_seq (take 2 (sort_key latency_rank (filter (outlier_candidate 0 100 0) ?ts))) = [2, 3]"
    by code_simp
  ultimately show ?thesis by simp
qed

end
