(* ===== verification/Sha256.thy ===== *)
theory Sha256
  imports Std_Containers "HOL-Library.Word"
begin

text \<open>
  Content digests (core/common/sha256.cpp): the incremental SHA-256 state with its block buffer, the
  compression function, the padding of the final block, and the digests of a text, of a file and of
  a directory tree.  The file system is a value of the type \<open>fs_node\<close>, an argument of the last two.
\<close>

unbundle bit_operations_syntax

section \<open>State and compression\<close>

record sha256 =
  sh_h :: "32 word list"
  sh_block :: "8 word list"
  sh_used :: nat
  sh_bits :: "64 word"

definition sha256_init :: sha256 where
  "sha256_init =
     \<lparr>sh_h = [0x6a09e667, 0xbb67ae85, 0x3c6ef372, 0xa54ff53a, 0x510e527f, 0x9b05688c, 0x1f83d9ab, 0x5be0cd19],
      sh_block = replicate 64 0, sh_used = 0, sh_bits = 0\<rparr>"

definition rotr :: "32 word \<Rightarrow> nat \<Rightarrow> 32 word" where
  "rotr v n = (drop_bit n v) OR (push_bit (32 - n) v)"

definition choose_bits :: "32 word \<Rightarrow> 32 word \<Rightarrow> 32 word \<Rightarrow> 32 word" where
  "choose_bits x y z = (x AND y) XOR (NOT x AND z)"

definition majority :: "32 word \<Rightarrow> 32 word \<Rightarrow> 32 word \<Rightarrow> 32 word" where
  "majority x y z = (x AND y) XOR (x AND z) XOR (y AND z)"

text \<open>The table of round constants, its entries written as the hexadecimal digits of the source.\<close>

definition hex_digit_value :: "char \<Rightarrow> nat" where
  "hex_digit_value c = (if (of_char c :: nat) \<le> 57 then of_char c - 48 else of_char c - 87)"

definition hex_word :: "string \<Rightarrow> 32 word" where
  "hex_word digits = foldl (\<lambda>w c. push_bit 4 w OR of_nat (hex_digit_value c)) 0 digits"

definition round_constants :: "32 word list" where
  "round_constants =
    map hex_word
    [''428a2f98'', ''71374491'', ''b5c0fbcf'', ''e9b5dba5'', ''3956c25b'', ''59f111f1'', ''923f82a4'', ''ab1c5ed5'',
     ''d807aa98'', ''12835b01'', ''243185be'', ''550c7dc3'', ''72be5d74'', ''80deb1fe'', ''9bdc06a7'', ''c19bf174'',
     ''e49b69c1'', ''efbe4786'', ''0fc19dc6'', ''240ca1cc'', ''2de92c6f'', ''4a7484aa'', ''5cb0a9dc'', ''76f988da'',
     ''983e5152'', ''a831c66d'', ''b00327c8'', ''bf597fc7'', ''c6e00bf3'', ''d5a79147'', ''06ca6351'', ''14292967'',
     ''27b70a85'', ''2e1b2138'', ''4d2c6dfc'', ''53380d13'', ''650a7354'', ''766a0abb'', ''81c2c92e'', ''92722c85'',
     ''a2bfe8a1'', ''a81a664b'', ''c24b8b70'', ''c76c51a3'', ''d192e819'', ''d6990624'', ''f40e3585'', ''106aa070'',
     ''19a4c116'', ''1e376c08'', ''2748774c'', ''34b0bcb5'', ''391c0cb3'', ''4ed8aa4a'', ''5b9cca4f'', ''682e6ff3'',
     ''748f82ee'', ''78a5636f'', ''84c87814'', ''8cc70208'', ''90befffa'', ''a4506ceb'', ''bef9a3f7'', ''c67178f2'']"

definition block_word :: "8 word list \<Rightarrow> nat \<Rightarrow> 32 word" where
  "block_word blk i =
     push_bit 24 (ucast (blk ! (4 * i))) OR push_bit 16 (ucast (blk ! (4 * i + 1))) OR
     push_bit 8 (ucast (blk ! (4 * i + 2))) OR ucast (blk ! (4 * i + 3))"

definition schedule_word :: "nat \<Rightarrow> 32 word list \<Rightarrow> 32 word list" where
  "schedule_word i w =
     (let a = w ! (i - 15); b = w ! (i - 2);
          s0 = rotr a 7 XOR rotr a 18 XOR drop_bit 3 a;
          s1 = rotr b 17 XOR rotr b 19 XOR drop_bit 10 b
      in w @ [w ! (i - 16) + s0 + w ! (i - 7) + s1])"

definition message_schedule :: "8 word list \<Rightarrow> 32 word list" where
  "message_schedule blk = fold schedule_word [16..<64] (map (block_word blk) [0..<16])"

type_synonym working =
  "32 word \<times> 32 word \<times> 32 word \<times> 32 word \<times> 32 word \<times> 32 word \<times> 32 word \<times> 32 word"

fun compress_round :: "32 word list \<Rightarrow> nat \<Rightarrow> working \<Rightarrow> working" where
  "compress_round w i (a, b, c, d, e, f, g, h) =
     (let s1 = rotr e 6 XOR rotr e 11 XOR rotr e 25;
          t1 = h + s1 + choose_bits e f g + round_constants ! i + w ! i;
          s0 = rotr a 2 XOR rotr a 13 XOR rotr a 22;
          t2 = s0 + majority a b c
      in (t1 + t2, a, b, c, d + t1, e, f, g))"

definition compress_hash :: "32 word list \<Rightarrow> 8 word list \<Rightarrow> 32 word list" where
  "compress_hash hs blk =
     (case fold (compress_round (message_schedule blk)) [0..<64]
            (hs ! 0, hs ! 1, hs ! 2, hs ! 3, hs ! 4, hs ! 5, hs ! 6, hs ! 7) of
        (a, b, c, d, e, f, g, h) \<Rightarrow>
          [hs ! 0 + a, hs ! 1 + b, hs ! 2 + c, hs ! 3 + d, hs ! 4 + e, hs ! 5 + f, hs ! 6 + g, hs ! 7 + h])"

definition compress :: "sha256 \<Rightarrow> sha256" where
  "compress s = s\<lparr>sh_h := compress_hash (sh_h s) (sh_block s)\<rparr>"

section \<open>Update and finish\<close>

definition block_write :: "8 word list \<Rightarrow> nat \<Rightarrow> 8 word list \<Rightarrow> 8 word list" where
  "block_write blk at bs = take at blk @ bs @ drop (at + length bs) blk"

function update_loop :: "sha256 \<Rightarrow> 8 word list \<Rightarrow> sha256" where
  "update_loop s input =
     (if input = [] then s
      else if 64 \<le> sh_used s then s
      else
        let copy = min (length input) (64 - sh_used s);
            s1 = s\<lparr>sh_block := block_write (sh_block s) (sh_used s) (take copy input), sh_used := sh_used s + copy\<rparr>;
            s2 = (if sh_used s1 = 64 then (compress s1)\<lparr>sh_used := 0\<rparr> else s1)
        in update_loop s2 (drop copy input))"
  by pat_completeness auto
termination
  by (relation "measure (\<lambda>(s, input). length input)") auto

declare update_loop.simps [simp del]

definition sha_update :: "sha256 \<Rightarrow> 8 word list \<Rightarrow> sha256" where
  "sha_update s input = update_loop (s\<lparr>sh_bits := sh_bits s + of_nat (length input) * 8\<rparr>) input"

definition put_byte :: "8 word \<Rightarrow> sha256 \<Rightarrow> sha256" where
  "put_byte b s = s\<lparr>sh_block := block_write (sh_block s) (sh_used s) [b], sh_used := sh_used s + 1\<rparr>"

definition put_zeros :: "nat \<Rightarrow> sha256 \<Rightarrow> sha256" where
  "put_zeros lim s = (put_byte 0 ^^ (lim - sh_used s)) s"

definition hex_digits :: string where
  "hex_digits = ''0123456789abcdef''"

definition word_hex :: "32 word \<Rightarrow> string" where
  "word_hex w = map (\<lambda>shift. hex_digits ! unat (drop_bit shift w AND 15)) [28, 24, 20, 16, 12, 8, 4, 0]"

definition sha_finish :: "sha256 \<Rightarrow> string" where
  "sha_finish s =
     (let s1 = put_byte 0x80 s;
          s2 = (if 56 < sh_used s1 then (compress (put_zeros 64 s1))\<lparr>sh_used := 0\<rparr> else s1);
          s3 = put_zeros 56 s2;
          s4 = fold (\<lambda>i. put_byte (ucast (drop_bit (i * 8) (sh_bits s3)))) [7, 6, 5, 4, 3, 2, 1, 0] s3;
          s5 = compress s4
      in concat (map word_hex (sh_h s5)))"

definition bytes_of :: "string \<Rightarrow> 8 word list" where
  "bytes_of t = map (\<lambda>c. of_nat (of_char c)) t"

definition sha256_text :: "string \<Rightarrow> string" where
  "sha256_text t = sha_finish (sha_update sha256_init (bytes_of t))"

section \<open>Files and directory trees\<close>

text \<open>
  What the file system shows of a path: a directory with its entries in the order of
  \<open>readdir\<close> (None if it cannot be opened), a regular file with the bytes read from it and whether
  reading ended in an error (None if it cannot be opened), another kind of file, or a member \<open>lstat\<close> fails on.
\<close>

datatype fs_node =
    Fs_Dir "(string \<times> fs_node) list option"
  | Fs_File "(8 word list \<times> bool) option"
  | Fs_Other
  | Fs_Unstat

datatype file_error = Cannot_Open_File | Cannot_Read_File | Cannot_Open_Directory | Cannot_Stat_Member | Unsupported_Type

text \<open>The reader passes the file on in pieces of 32768 bytes.\<close>

function read_pieces :: "sha256 \<Rightarrow> 8 word list \<Rightarrow> sha256" where
  "read_pieces s input =
     (let s1 = (if input = [] then s else sha_update s (take 32768 input)) in
      if length input < 32768 then s1 else read_pieces s1 (drop 32768 input))"
  by pat_completeness auto
termination
  by (relation "measure (\<lambda>(s, input). length input)") auto

declare read_pieces.simps [simp del]

definition update_regular_file :: "sha256 \<Rightarrow> fs_node \<Rightarrow> file_error + sha256" where
  "update_regular_file s node =
     (case node of
        Fs_File (Some (bytes, failed)) \<Rightarrow> if failed then Inl Cannot_Read_File else Inr (read_pieces s bytes)
      | _ \<Rightarrow> Inl Cannot_Open_File)"

definition child_path :: "string \<Rightarrow> string \<Rightarrow> string" where
  "child_path relative name = (if relative = [] then name else relative @ ''/'' @ name)"

definition tree_marker :: "char \<Rightarrow> string \<Rightarrow> 8 word list" where
  "tree_marker kind path = bytes_of ([kind, CHR 0x0A] @ path @ [CHR 0x0A])"

text \<open>
  The members are visited in the order of their names; the nodes are sorted with them, which gives
  each name its own node.
\<close>

function update_tree :: "sha256 \<Rightarrow> fs_node \<Rightarrow> string \<Rightarrow> file_error + sha256"
  and update_members :: "sha256 \<Rightarrow> (string \<times> fs_node) list \<Rightarrow> string \<Rightarrow> file_error + sha256" where
  "update_tree s node relative =
     (case node of
        Fs_Dir (Some entries) \<Rightarrow>
          update_members s
            (sort_key fst (filter (\<lambda>e. fst e \<noteq> ''.'' \<and> fst e \<noteq> ''..'') entries)) relative
      | _ \<Rightarrow> Inl Cannot_Open_Directory)"
| "update_members s [] relative = Inr s"
| "update_members s ((name, node) # rest) relative =
     (let path = child_path relative name in
      case node of
        Fs_Unstat \<Rightarrow> Inl Cannot_Stat_Member
      | Fs_Other \<Rightarrow> Inl Unsupported_Type
      | Fs_Dir d \<Rightarrow>
          (case update_tree (sha_update s (tree_marker (CHR ''D'') path)) node path of
             Inl e \<Rightarrow> Inl e
           | Inr s' \<Rightarrow> update_members s' rest relative)
      | Fs_File f \<Rightarrow>
          (case update_regular_file (sha_update s (tree_marker (CHR ''F'') path)) node of
             Inl e \<Rightarrow> Inl e
           | Inr s' \<Rightarrow> update_members s' rest relative))"
  by pat_completeness auto

fun node_size :: "fs_node \<Rightarrow> nat" where
  "node_size (Fs_Dir (Some es)) = 1 + sum_list (map (\<lambda>e. 1 + node_size (snd e)) es)"
| "node_size _ = 1"

lemma size_members_sort: "sum_list (map f (sort_key g (filter P es))) \<le> (sum_list (map f es) :: nat)"
proof -
  have "sum_list (map f (sort_key g (filter P es))) = sum_list (map f (filter P es))"
    by (metis mset_map mset_sort sum_mset_sum_list)
  also have "\<dots> \<le> sum_list (map f es)" by (induction es) auto
  finally show ?thesis .
qed

termination update_tree
  by (relation "measure (\<lambda>x. case x of Inl (_, node, _) \<Rightarrow> node_size node
        | Inr (_, es, _) \<Rightarrow> sum_list (map (\<lambda>e. 1 + node_size (snd e)) es))")
    (auto intro: le_imp_less_Suc size_members_sort split: sum.splits)

definition sha256_file :: "fs_node \<Rightarrow> file_error + string" where
  "sha256_file node = map_sum id sha_finish (update_regular_file sha256_init node)"

definition sha256_directory_tree :: "fs_node \<Rightarrow> file_error + string" where
  "sha256_directory_tree node = map_sum id sha_finish (update_tree sha256_init node [])"

section \<open>Reference digest\<close>

text \<open>
  The digest as the standard defines it: the message is padded with a one bit, zeros and its length
  in bits to a multiple of 64 bytes, and the blocks are compressed one after the other.
\<close>

function chunks64 :: "'a list \<Rightarrow> 'a list list" where
  "chunks64 m = (if length m < 64 then [] else take 64 m # chunks64 (drop 64 m))"
  by pat_completeness auto
termination
  by (relation "measure length") auto

declare chunks64.simps [simp del]

definition length_bytes :: "64 word \<Rightarrow> 8 word list" where
  "length_bytes bits = map (\<lambda>i. ucast (drop_bit (i * 8) bits)) [7, 6, 5, 4, 3, 2, 1, 0]"

definition sha_padding :: "nat \<Rightarrow> 8 word list" where
  "sha_padding n = 0x80 # replicate ((119 - n mod 64) mod 64) 0 @ length_bytes (of_nat n * 8)"

definition sha_hash :: "8 word list \<Rightarrow> 32 word list" where
  "sha_hash m = foldl compress_hash (sh_h sha256_init) (chunks64 m)"

definition sha_reference :: "8 word list \<Rightarrow> string" where
  "sha_reference m = concat (map word_hex (sha_hash (m @ sha_padding (length m))))"

lemma chunks64_append: "64 dvd length a \<Longrightarrow> chunks64 (a @ b) = chunks64 a @ chunks64 b"
proof (induction a rule: chunks64.induct)
  case (1 a)
  show ?case
  proof (cases "length a < 64")
    case True
    with 1(2) have "a = []" by auto
    then show ?thesis by (simp add: chunks64.simps [of "[]"])
  next
    case False
    have "64 dvd length (drop 64 a)" using 1(2) False by (auto simp: dvd_minus_self)
    from 1(1) [OF False this] False show ?thesis
      by (simp add: chunks64.simps [of "a @ b"] chunks64.simps [of a])
  qed
qed

lemma chunks64_block: "length b = 64 \<Longrightarrow> chunks64 b = [b]"
  by (simp add: chunks64.simps [of b] chunks64.simps [of "[]"])

lemma sha_hash_block: "64 dvd length a \<Longrightarrow> length b = 64 \<Longrightarrow> sha_hash (a @ b) = compress_hash (sha_hash a) b"
  by (simp add: sha_hash_def chunks64_append chunks64_block)

text \<open>A state has absorbed a message: its blocks are compressed and its tail is in the buffer.\<close>

definition absorbed :: "sha256 \<Rightarrow> 8 word list \<Rightarrow> bool" where
  "absorbed s m \<longleftrightarrow> length (sh_block s) = 64 \<and> sh_used s < 64 \<and>
     (\<exists>pre. m = pre @ take (sh_used s) (sh_block s) \<and> 64 dvd length pre \<and> sh_h s = sha_hash pre)"

definition write_bytes :: "8 word list \<Rightarrow> sha256 \<Rightarrow> sha256" where
  "write_bytes bs s = s\<lparr>sh_block := block_write (sh_block s) (sh_used s) bs, sh_used := sh_used s + length bs\<rparr>"

definition flush :: "sha256 \<Rightarrow> sha256" where
  "flush s = (if sh_used s = 64 then (compress s)\<lparr>sh_used := 0\<rparr> else s)"

lemma length_block_write: "at + length bs \<le> length blk \<Longrightarrow> length (block_write blk at bs) = length blk"
  by (simp add: block_write_def)

lemma take_block_write: "at \<le> length blk \<Longrightarrow> take (at + length bs) (block_write blk at bs) = take at blk @ bs"
  by (simp add: block_write_def)

lemma absorb_write:
  assumes s: "absorbed s m" and fit: "sh_used s + length bs \<le> 64"
  shows "absorbed (flush (write_bytes bs s)) (m @ bs)"
proof -
  from s obtain pre where pre: "m = pre @ take (sh_used s) (sh_block s)" "64 dvd length pre" "sh_h s = sha_hash pre"
    and len: "length (sh_block s) = 64" and used: "sh_used s < 64"
    unfolding absorbed_def by blast
  let ?blk = "block_write (sh_block s) (sh_used s) bs"
  have lb: "length ?blk = 64" using len fit by (simp add: length_block_write)
  have tk: "take (sh_used s + length bs) ?blk = take (sh_used s) (sh_block s) @ bs"
    using len used by (simp add: take_block_write)
  show ?thesis
  proof (cases "sh_used s + length bs = 64")
    case True
    then have blk: "?blk = take (sh_used s) (sh_block s) @ bs" using tk lb by simp
    have "m @ bs = pre @ ?blk" using pre(1) blk by simp
    moreover have "64 dvd length (pre @ ?blk)" using pre(2) lb by simp
    moreover have "compress_hash (sh_h s) ?blk = sha_hash (pre @ ?blk)"
      using pre lb by (simp add: sha_hash_block)
    ultimately show ?thesis
      using True lb by (simp add: absorbed_def flush_def write_bytes_def compress_def)
  next
    case False
    then show ?thesis
      using fit lb tk pre by (auto simp: absorbed_def flush_def write_bytes_def)
  qed
qed

lemma absorbed_init: "absorbed sha256_init []"
  by (simp add: absorbed_def sha256_init_def sha_hash_def chunks64.simps)

lemma absorbed_update_loop: "absorbed s m \<Longrightarrow> absorbed (update_loop s input) (m @ input)"
proof (induction s input arbitrary: m rule: update_loop.induct)
  case (1 s input)
  have used: "sh_used s < 64" using 1(2) by (simp add: absorbed_def)
  show ?case
  proof (cases "input = []")
    case True
    then show ?thesis using 1(2) by (simp add: update_loop.simps)
  next
    case False
    let ?c = "min (length input) (64 - sh_used s)"
    let ?s2 = "flush (write_bytes (take ?c input) s)"
    have "absorbed ?s2 (m @ take ?c input)" using 1(2) used by (intro absorb_write) auto
    moreover have "update_loop s input = update_loop ?s2 (drop ?c input)"
      using False used
      by (subst update_loop.simps) (simp add: Let_def flush_def write_bytes_def compress_def min_def)
    ultimately show ?thesis
      using 1(1) [OF False _ refl refl refl, of "m @ take ?c input"] used
      by (simp add: flush_def write_bytes_def compress_def Let_def min_def split: if_splits)
  qed
qed

lemma update_loop_bits: "sh_bits (update_loop s input) = sh_bits s"
proof (induction s input rule: update_loop.induct)
  case (1 s input)
  show ?case
  proof (cases "input = [] \<or> 64 \<le> sh_used s")
    case True
    then show ?thesis by (auto simp: update_loop.simps)
  next
    case False
    then show ?thesis
      using 1(1) [OF _ _ refl refl refl] by (subst update_loop.simps) (simp add: Let_def compress_def)
  qed
qed

definition tracked :: "sha256 \<Rightarrow> 8 word list \<Rightarrow> bool" where
  "tracked s m \<longleftrightarrow> absorbed s m \<and> sh_bits s = of_nat (length m) * 8"

lemma tracked_init: "tracked sha256_init []"
  by (simp add: tracked_def absorbed_init) (simp add: sha256_init_def)

lemma tracked_update:
  assumes "tracked s m"
  shows "tracked (sha_update s input) (m @ input)"
proof -
  let ?s = "s\<lparr>sh_bits := sh_bits s + of_nat (length input) * 8\<rparr>"
  have "absorbed ?s m" using assms by (simp add: tracked_def absorbed_def)
  from absorbed_update_loop [OF this, of input] assms show ?thesis
    by (simp add: tracked_def sha_update_def update_loop_bits distrib_right)
qed

lemma write_bytes_append:
  assumes "sh_used s + length (a @ b) \<le> length (sh_block s)"
  shows "write_bytes b (write_bytes a s) = write_bytes (a @ b) s"
proof -
  let ?u = "sh_used s" and ?blk = "sh_block s"
  have "drop (?u + length a + length b) (block_write ?blk ?u a) = drop (?u + length a + length b) ?blk"
    using assms by (cases a) (auto simp: block_write_def min_def add.commute [of "length b"])
  then have "block_write (block_write ?blk ?u a) (?u + length a) b = block_write ?blk ?u (a @ b)"
    using assms take_block_write [of ?u ?blk a] by (simp add: block_write_def [of _ "?u + length a"] block_write_def [of _ _ "a @ b"] add.assoc)
  then show ?thesis by (simp add: write_bytes_def add.assoc)
qed

lemma put_byte_write: "put_byte b = write_bytes [b]"
  by (rule ext) (simp add: put_byte_def write_bytes_def)

lemma write_bytes_Nil: "sh_used s \<le> length (sh_block s) \<Longrightarrow> write_bytes [] s = s"
  by (simp add: write_bytes_def block_write_def)

lemma fold_put_byte:
  "sh_used s + length bs \<le> length (sh_block s) \<Longrightarrow> fold put_byte bs s = write_bytes bs s"
proof (induction bs arbitrary: s)
  case Nil
  then show ?case by (simp add: write_bytes_Nil)
next
  case (Cons b bs)
  have "length (sh_block (write_bytes [b] s)) = length (sh_block s)"
    using Cons.prems by (simp add: write_bytes_def length_block_write)
  then have "fold put_byte bs (write_bytes [b] s) = write_bytes bs (write_bytes [b] s)"
    using Cons.prems by (intro Cons.IH) (simp add: write_bytes_def)
  then have "fold put_byte bs (put_byte b s) = write_bytes (b # bs) s"
    using Cons.prems write_bytes_append [of s "[b]" bs] by (simp only: put_byte_write) simp
  then show ?case by simp
qed

lemma put_zeros_write:
  assumes "sh_used s \<le> n" "n \<le> length (sh_block s)"
  shows "put_zeros n s = write_bytes (replicate (n - sh_used s) 0) s"
proof -
  have "(put_byte 0 ^^ k) t = fold put_byte (replicate k 0) t" for k t
    by (induction k arbitrary: t) (simp_all add: funpow_swap1)
  then have "put_zeros n s = fold put_byte (replicate (n - sh_used s) 0) s" by (simp only: put_zeros_def)
  also have "\<dots> = write_bytes (replicate (n - sh_used s) 0) s" using assms by (intro fold_put_byte) simp
  finally show ?thesis .
qed

lemma write_bytes_sel [simp]:
  "sh_used (write_bytes bs s) = sh_used s + length bs" "sh_bits (write_bytes bs s) = sh_bits s"
  "sh_h (write_bytes bs s) = sh_h s"
  by (simp_all add: write_bytes_def)

lemma length_write_bytes: "sh_used s + length bs \<le> length (sh_block s) \<Longrightarrow> length (sh_block (write_bytes bs s)) = length (sh_block s)"
  by (simp add: write_bytes_def length_block_write)

lemma put_zeros_bits: "sh_bits (put_zeros n s) = sh_bits s"
proof -
  have "sh_bits ((put_byte 0 ^^ k) s) = sh_bits s" for k by (induction k) (simp_all add: put_byte_def)
  then show ?thesis by (simp add: put_zeros_def)
qed

text \<open>The last block: zeros up to byte 56, the length, and the compression of the full buffer.\<close>

lemma final_block:
  assumes s: "absorbed s m" and u: "sh_used s \<le> 56"
  shows "sh_h (compress (fold (\<lambda>i. put_byte (ucast (drop_bit (i * 8) w))) [7, 6, 5, 4, 3, 2, 1, 0] (put_zeros 56 s)))
         = sha_hash (m @ replicate (56 - sh_used s) 0 @ length_bytes w)"
proof -
  let ?z = "replicate (56 - sh_used s) 0" and ?l = "length_bytes w"
  have len: "length (sh_block s) = 64" using s by (simp add: absorbed_def)
  have ll: "length ?l = 8" by (simp add: length_bytes_def)
  have z: "put_zeros 56 s = write_bytes ?z s" using u len by (simp add: put_zeros_write)
  have "fold (\<lambda>i. put_byte (ucast (drop_bit (i * 8) w))) [7, 6, 5, 4, 3, 2, 1, 0] (write_bytes ?z s)
      = fold put_byte ?l (write_bytes ?z s)"
    by (simp add: length_bytes_def)
  also have "\<dots> = write_bytes ?l (write_bytes ?z s)"
    using u len ll by (intro fold_put_byte) (simp add: length_write_bytes)
  also have "\<dots> = write_bytes (?z @ ?l) s" using u len ll by (simp add: write_bytes_append)
  finally have f: "fold (\<lambda>i. put_byte (ucast (drop_bit (i * 8) w))) [7, 6, 5, 4, 3, 2, 1, 0] (put_zeros 56 s)
      = write_bytes (?z @ ?l) s" by (simp only: z)
  let ?e = "flush (write_bytes (?z @ ?l) s)"
  have "absorbed ?e (m @ ?z @ ?l)" using s u ll by (intro absorb_write) simp_all
  moreover have "sh_used ?e = 0" "sh_h ?e = sh_h (compress (write_bytes (?z @ ?l) s))"
    using u ll by (simp_all add: flush_def)
  ultimately show ?thesis unfolding f by (auto simp: absorbed_def)
qed

lemma finish_reference:
  assumes "tracked s m"
  shows "sha_finish s = sha_reference m"
proof -
  let ?u = "sh_used s" and ?w = "of_nat (length m) * 8 :: 64 word" and ?n = "length m"
  have a: "absorbed s m" and w: "sh_bits s = ?w" using assms by (simp_all add: tracked_def)
  have len: "length (sh_block s) = 64" and u: "?u < 64" using a by (simp_all add: absorbed_def)
  have um: "?n mod 64 = ?u"
    using a len u by (auto simp: absorbed_def)
  let ?s1 = "put_byte 0x80 s"
  have s1: "?s1 = write_bytes [0x80] s" by (simp add: put_byte_write)
  have l1: "length (sh_block ?s1) = 64" using len u by (simp add: s1 length_write_bytes)
  show ?thesis
  proof (cases "56 < sh_used ?s1")
    case True
    let ?z = "replicate (63 - ?u) (0 :: 8 word)"
    let ?s2 = "(compress (put_zeros 64 ?s1))\<lparr>sh_used := 0\<rparr>"
    have "put_zeros 64 ?s1 = write_bytes (0x80 # ?z) s"
      using u len l1 by (simp add: s1 put_zeros_write write_bytes_append)
    then have s2: "?s2 = flush (write_bytes (0x80 # ?z) s)" using u by (simp add: flush_def)
    have "absorbed ?s2 (m @ 0x80 # ?z)" unfolding s2 using a u by (intro absorb_write) simp_all
    from final_block [OF this, of ?w]
    have "sh_h (compress (fold (\<lambda>i. put_byte (ucast (drop_bit (i * 8) ?w))) [7, 6, 5, 4, 3, 2, 1, 0] (put_zeros 56 ?s2)))
        = sha_hash ((m @ 0x80 # ?z) @ replicate 56 0 @ length_bytes ?w)" by simp
    moreover have "(119 - ?n mod 64) mod 64 = (63 - ?u) + 56" using True u um by (simp add: s1)
    then have "(m @ 0x80 # ?z) @ replicate 56 0 @ length_bytes ?w = m @ sha_padding ?n"
      by (simp only: sha_padding_def replicate_add append_assoc append_Cons append_Nil)
    moreover have "sh_bits (put_zeros 56 ?s2) = ?w"
      using w by (simp add: put_zeros_bits put_byte_def compress_def)
    ultimately show ?thesis using True by (simp add: sha_finish_def Let_def sha_reference_def)
  next
    case False
    have s1f: "?s1 = flush (write_bytes [0x80] s)" using False by (simp add: s1 flush_def)
    have a1: "absorbed ?s1 (m @ [0x80])" unfolding s1f using a u by (intro absorb_write) simp_all
    from final_block [OF a1, of ?w] False
    have "sh_h (compress (fold (\<lambda>i. put_byte (ucast (drop_bit (i * 8) ?w))) [7, 6, 5, 4, 3, 2, 1, 0] (put_zeros 56 ?s1)))
        = sha_hash ((m @ [0x80]) @ replicate (55 - ?u) 0 @ length_bytes ?w)" by (simp add: s1)
    moreover have "(119 - ?n mod 64) mod 64 = 55 - ?u" using False u um by (simp add: s1 mod_if)
    then have "(m @ [0x80]) @ replicate (55 - ?u) 0 @ length_bytes ?w = m @ sha_padding ?n"
      by (simp add: sha_padding_def)
    moreover have "sh_bits (put_zeros 56 ?s1) = ?w"
      using w by (simp add: put_zeros_bits put_byte_def)
    ultimately show ?thesis using False by (simp add: sha_finish_def Let_def sha_reference_def)
  qed
qed

lemma absorbed_read_pieces: "tracked s m \<Longrightarrow> tracked (read_pieces s input) (m @ input)"
proof (induction s input arbitrary: m rule: read_pieces.induct)
  case (1 s input)
  let ?s1 = "if input = [] then s else sha_update s (take 32768 input)"
  have t: "tracked ?s1 (m @ take 32768 input)" using 1(2) tracked_update by auto
  show ?case
  proof (cases "length input < 32768")
    case True
    with t show ?thesis by (simp add: read_pieces.simps [of s input] Let_def)
  next
    case False
    with 1(1) [OF refl False t] show ?thesis
      by (simp add: read_pieces.simps [of s input] Let_def)
  qed
qed

lemma length_word_hex: "length (word_hex w) = 8"
  by (simp add: word_hex_def)

lemma set_word_hex: "set (word_hex w) \<subseteq> set hex_digits"
proof -
  have "hex_digits ! unat (v AND 15) \<in> set hex_digits" for v :: "32 word"
  proof (rule nth_mem)
    have "v AND 15 \<le> (15 :: 32 word)" by (rule word_and_le1)
    then have "unat (v AND 15) \<le> 15" by (simp add: word_le_nat_alt)
    then show "unat (v AND 15) < length hex_digits" by (simp add: hex_digits_def)
  qed
  then show ?thesis by (auto simp: word_hex_def)
qed

lemma length_sha_hash: "length (sha_hash m) = 8"
proof -
  have "length (foldl compress_hash hs bs) = 8" if "length hs = 8" for hs bs
    using that by (induction bs arbitrary: hs) (auto simp: compress_hash_def split: prod.splits)
  then show ?thesis by (simp add: sha_hash_def sha256_init_def)
qed

lemma reference_digest_text: "length (sha_reference m) = 64" "set (sha_reference m) \<subseteq> set hex_digits"
proof -
  have "map (length \<circ> word_hex) ws = replicate (length ws) 8" for ws
    by (induction ws) (simp_all add: length_word_hex)
  then show "length (sha_reference m) = 64"
    by (simp add: sha_reference_def length_concat length_sha_hash sum_list_replicate)
  show "set (sha_reference m) \<subseteq> set hex_digits" using set_word_hex by (auto simp: sha_reference_def)
qed

lemma padded_length: "64 dvd length (m @ sha_padding (length m))"
proof -
  have "(n + (1 + (119 - n mod 64) mod 64 + 8)) mod 64 = 0" for n :: nat
  proof -
    define r where "r = n mod 64"
    have "r < 64" by (simp add: r_def)
    then have "(r + (1 + (119 - r) mod 64 + 8)) mod 64 = 0"
    proof (cases "r \<le> 55")
      case True
      then have "119 - r = 64 + (55 - r)" by simp
      then have "(119 - r) mod 64 = 55 - r" by (simp only: mod_add_self1) simp
      with True show ?thesis by simp
    next
      case False
      then have "(119 - r) mod 64 = 119 - r" by (intro mod_less) simp
      moreover have "r + (1 + (119 - r) + 8) = 128" using \<open>r < 64\<close> by simp
      ultimately show ?thesis by simp
    qed
    then show ?thesis by (metis mod_add_left_eq r_def)
  qed
  from this [of "length m"] have "64 dvd length m + (1 + (119 - length m mod 64) mod 64 + 8)"
    by (simp only: mod_eq_0_iff_dvd)
  moreover have "length (m @ sha_padding (length m)) = length m + (1 + (119 - length m mod 64) mod 64 + 8)"
    by (simp add: sha_padding_def length_bytes_def)
  ultimately show ?thesis by simp
qed

section \<open>Properties\<close>

text \<open>
  C18: Digests.  The digest of a text computed through the block buffer is the digest of the padded
  message as the standard defines it, the padded message fills whole blocks, the digest of a file is
  that of its bytes however the reader splits them, and every digest is 64 lower-case hexadecimal
  digits.
\<close>

theorem sha256_text_reference:
  "sha256_text t = sha_reference (bytes_of t) \<and>
   64 dvd length (bytes_of t @ sha_padding (length (bytes_of t))) \<and>
   sha256_file (Fs_File (Some (bytes_of t, False))) = Inr (sha256_text t) \<and>
   length (sha256_text t) = 64 \<and> set (sha256_text t) \<subseteq> set ''0123456789abcdef''"
proof -
  have t: "sha256_text t = sha_reference (bytes_of t)"
    using finish_reference [OF tracked_update [OF tracked_init, of "bytes_of t"]]
    by (simp add: sha256_text_def)
  moreover have "sha256_file (Fs_File (Some (bytes_of t, False))) = Inr (sha_reference (bytes_of t))"
    using finish_reference [OF absorbed_read_pieces [OF tracked_init, of "bytes_of t"]]
    by (simp add: sha256_file_def update_regular_file_def)
  ultimately show ?thesis
    using reference_digest_text [of "bytes_of t"] padded_length [of "bytes_of t"]
    by (simp add: hex_digits_def)
qed



end
