(* ===== verification/Cache_Key.thy ===== *)
theory Cache_Key
  imports Sha256 Complex_Main
begin

text \<open>
  Keys and limits of the analysis cache (waveform/cache/analysis_repository.h and the first part of
  analysis_repository.cpp): the identity of a waveform file, the key of an analysis with its digest,
  the key of a lazy index, and the byte limits with their environment variables.
\<close>

section \<open>File identities and keys\<close>

datatype fsdb_identity = Fsdb_Identity (device: nat) (inode: nat) (fsdb_size: nat) (mtime: int)

datatype cache_scope = Scope_Full | Scope_Range

datatype cache_key =
  Cache_Key (protocol: string) (session_id: string) (fsdb: fsdb_identity) (fingerprint_version: nat)
    (normalized_semantics: string) (semantic_digest: string) (scope: cache_scope)
    (range_begin: nat) (range_end: nat) (digest: string)

definition scope_text :: "cache_scope \<Rightarrow> string" where
  "scope_text s = (if s = Scope_Full then ''full'' else ''range'')"

definition scope_rank :: "cache_scope \<Rightarrow> nat" where
  "scope_rank s = (case s of Scope_Full \<Rightarrow> 0 | Scope_Range \<Rightarrow> 1)"

text \<open>The comparisons of the source look at every member but the digest, which the others determine.\<close>

definition fsdb_fields :: "fsdb_identity \<Rightarrow> nat \<times> nat \<times> nat \<times> int" where
  "fsdb_fields f = (device f, inode f, fsdb_size f, mtime f)"

definition key_fields ::
  "cache_key \<Rightarrow> string \<times> string \<times> (nat \<times> nat \<times> nat \<times> int) \<times> nat \<times> string \<times> string \<times> nat \<times> nat \<times> nat" where
  "key_fields k =
     (protocol k, session_id k, fsdb_fields (fsdb k), fingerprint_version k, semantic_digest k,
      normalized_semantics k, scope_rank (scope k), range_begin k, range_end k)"

definition key_equal :: "cache_key \<Rightarrow> cache_key \<Rightarrow> bool" where
  "key_equal a b \<longleftrightarrow>
     protocol a = protocol b \<and> session_id a = session_id b \<and> fsdb a = fsdb b \<and>
     fingerprint_version a = fingerprint_version b \<and> normalized_semantics a = normalized_semantics b \<and>
     semantic_digest a = semantic_digest b \<and> scope a = scope b \<and>
     range_begin a = range_begin b \<and> range_end a = range_end b"

definition key_less :: "cache_key \<Rightarrow> cache_key \<Rightarrow> bool" where
  "key_less a b \<longleftrightarrow> key_fields a < key_fields b"

definition key_summary :: "cache_key \<Rightarrow> string" where
  "key_summary k = (if length (digest k) \<le> 16 then digest k else take 16 (digest k))"

definition dec_int :: "int \<Rightarrow> string" where
  "dec_int i = (if i < 0 then ''-'' @ dec_digits (nat (- i)) else dec_digits (nat i))"

definition newline :: string where
  "newline = [CHR 0x0A]"

definition key_material ::
  "string \<Rightarrow> string \<Rightarrow> fsdb_identity \<Rightarrow> nat \<Rightarrow> string \<Rightarrow> cache_scope \<Rightarrow> nat \<Rightarrow> nat \<Rightarrow> string" where
  "key_material proto sess f version sem_digest sc rb re =
     ''analysis-key-v1'' @ newline @ proto @ newline @ sess @ newline @
     dec_digits (device f) @ newline @ dec_digits (inode f) @ newline @ dec_digits (fsdb_size f) @ newline @
     dec_int (mtime f) @ newline @ dec_digits version @ newline @
     sem_digest @ newline @ scope_text sc @ newline @ dec_digits rb @ newline @ dec_digits re"

definition make_analysis_cache_key ::
  "string \<Rightarrow> string \<Rightarrow> fsdb_identity \<Rightarrow> nat \<Rightarrow> string \<Rightarrow> cache_scope \<Rightarrow> nat \<Rightarrow> nat \<Rightarrow> cache_key" where
  "make_analysis_cache_key proto sess f version semantics sc rb re =
     (let sd = sha256_text semantics;
          b = (if sc = Scope_Range then rb else 0);
          e = (if sc = Scope_Range then re else 0)
      in Cache_Key proto sess f version semantics sd sc b e
           (sha256_text (key_material proto sess f version sd sc b e)))"

text \<open>
  The identity of the file from what \<open>stat\<close> reports: its device, inode, size and modification time,
  if the call succeeded, and whether the file is regular.
\<close>

definition read_fsdb_identity :: "(bool \<times> fsdb_identity) option \<Rightarrow> string + fsdb_identity" where
  "read_fsdb_identity info =
     (case info of Some (True, f) \<Rightarrow> Inr f | _ \<Rightarrow> Inl ''cannot stat regular FSDB file'')"

text \<open>
  Keys are ordered by the members the source compares and last by the digest.  On keys built by the
  program this is the order of the source.
\<close>

definition key_order ::
  "cache_key \<Rightarrow> (string \<times> string \<times> (nat \<times> nat \<times> nat \<times> int) \<times> nat \<times> string \<times> string \<times> nat \<times> nat \<times> nat) \<times> string" where
  "key_order k = (key_fields k, digest k)"

lemma scope_rank_inject [simp]: "scope_rank a = scope_rank b \<longleftrightarrow> a = b"
  by (cases a; cases b) (simp_all add: scope_rank_def)

lemma fsdb_fields_inject [simp]: "fsdb_fields a = fsdb_fields b \<longleftrightarrow> a = b"
  by (cases a; cases b) (simp add: fsdb_fields_def)

lemma key_fields_equal: "key_fields a = key_fields b \<longleftrightarrow> key_equal a b"
  by (auto simp: key_fields_def key_equal_def)

lemma key_order_inject: "key_order a = key_order b \<longleftrightarrow> a = b"
  by (cases a; cases b) (auto simp: key_order_def key_fields_equal key_equal_def)

instantiation cache_key :: linorder
begin

definition less_eq_cache_key :: "cache_key \<Rightarrow> cache_key \<Rightarrow> bool" where
  "less_eq_cache_key a b \<longleftrightarrow> key_order a \<le> key_order b"

definition less_cache_key :: "cache_key \<Rightarrow> cache_key \<Rightarrow> bool" where
  "less_cache_key a b \<longleftrightarrow> key_order a < key_order b"

instance
  by intro_classes
    (auto simp: less_eq_cache_key_def less_cache_key_def less_le_not_le key_order_inject
      simp del: less_eq_prod_simp less_prod_simp)

end

text \<open>Every key of the program is built by \<open>make_analysis_cache_key\<close>; on such keys the orders agree.\<close>

definition made_key :: "cache_key \<Rightarrow> bool" where
  "made_key k \<longleftrightarrow>
     k = make_analysis_cache_key (protocol k) (session_id k) (fsdb k) (fingerprint_version k)
           (normalized_semantics k) (scope k) (range_begin k) (range_end k)"

lemma made_key_make: "made_key (make_analysis_cache_key p s f v n sc rb re)"
  by (simp add: made_key_def make_analysis_cache_key_def Let_def)

lemma made_key_equal:
  assumes "made_key a" "made_key b"
  shows "key_equal a b \<longleftrightarrow> a = b"
proof
  assume "key_equal a b"
  with assms show "a = b" unfolding made_key_def by (metis key_equal_def)
qed (simp add: key_equal_def)

lemma made_key_less:
  assumes "made_key a" "made_key b"
  shows "key_less a b \<longleftrightarrow> a < b"
proof (cases "a = b")
  case False
  then have "key_fields a \<noteq> key_fields b" using made_key_equal [OF assms] by (simp add: key_fields_equal)
  then show ?thesis by (simp add: key_less_def less_cache_key_def key_order_def less_prod_def')
qed (simp add: key_less_def)

text \<open>The key of a lazy index: its owner, the generation of the owner and the kind.\<close>

datatype index_key = Index_Key (index_owner: cache_key) (owner_generation: nat) (index_kind: string)

definition index_order :: "index_key \<Rightarrow> cache_key \<times> nat \<times> string" where
  "index_order k = (index_owner k, owner_generation k, index_kind k)"

lemma index_order_inject: "index_order a = index_order b \<longleftrightarrow> a = b"
  by (cases a; cases b) (simp add: index_order_def)

instantiation index_key :: linorder
begin

definition less_eq_index_key :: "index_key \<Rightarrow> index_key \<Rightarrow> bool" where
  "less_eq_index_key a b \<longleftrightarrow> index_order a \<le> index_order b"

definition less_index_key :: "index_key \<Rightarrow> index_key \<Rightarrow> bool" where
  "less_index_key a b \<longleftrightarrow> index_order a < index_order b"

instance
  by intro_classes
    (auto simp: less_eq_index_key_def less_index_key_def less_le_not_le index_order_inject
      simp del: less_eq_prod_simp less_prod_simp)

end

section \<open>Limits\<close>

record cache_config =
  soft_max_bytes :: nat
  hard_max_bytes :: nat
  estimator_safety_factor :: rat

definition cache_config_default :: cache_config where
  "cache_config_default =
     \<lparr>soft_max_bytes = 1073741824, hard_max_bytes = 2147483648, estimator_safety_factor = 2\<rparr>"

text \<open>The environment maps names to values; an unset variable is None.\<close>

definition parse_unsigned_environment ::
  "(string \<Rightarrow> string option) \<Rightarrow> string \<Rightarrow> nat \<Rightarrow> bool \<Rightarrow> string + nat" where
  "parse_unsigned_environment env name preset allow_zero =
     (case env name of
        None \<Rightarrow> Inr preset
      | Some raw \<Rightarrow>
          let t = c_str raw; ds = takeWhile c_isdigit t; parsed = dec_value ds in
          if t = [] \<or> \<not> c_isdigit (hd t) then Inl (name @ '' must be an unsigned integer'')
          else if 2 ^ 64 \<le> parsed \<or> ds \<noteq> t \<or> (\<not> allow_zero \<and> parsed = 0) then
            Inl (name @ (if allow_zero
                         then '' must be a non-negative integer without trailing characters''
                         else '' must be a positive integer without trailing characters''))
          else Inr parsed)"

definition soft_name :: string where
  "soft_name = ''XDEBUG_ANALYSIS_CACHE_MAX_BYTES''"

definition hard_name :: string where
  "hard_name = ''XDEBUG_ANALYSIS_CACHE_HARD_MAX_BYTES''"

definition analysis_cache_config_from_environment ::
  "(string \<Rightarrow> string option) \<Rightarrow> string + cache_config" where
  "analysis_cache_config_from_environment env =
     (case parse_unsigned_environment env soft_name (soft_max_bytes cache_config_default) True of
        Inl e \<Rightarrow> Inl e
      | Inr soft \<Rightarrow>
     (case parse_unsigned_environment env hard_name (hard_max_bytes cache_config_default) False of
        Inl e \<Rightarrow> Inl e
      | Inr hard \<Rightarrow>
          if hard < soft then Inl (soft_name @ '' must not exceed '' @ hard_name)
          else Inr (cache_config_default\<lparr>soft_max_bytes := soft, hard_max_bytes := hard\<rparr>)))"

text \<open>The limits that come out are ordered, fit 64 bits, and leave the safety factor at two.\<close>

definition config_ok :: "cache_config \<Rightarrow> bool" where
  "config_ok c \<longleftrightarrow> soft_max_bytes c \<le> hard_max_bytes c \<and> 0 < hard_max_bytes c \<and>
     hard_max_bytes c < 2 ^ 64 \<and> estimator_safety_factor c = 2"

lemma parse_unsigned_bound:
  "parse_unsigned_environment env name d z = Inr n \<Longrightarrow> d < 2 ^ 64 \<Longrightarrow> n < 2 ^ 64 \<and> (z \<or> 0 < d \<longrightarrow> z \<or> 0 < n)"
  by (auto simp: parse_unsigned_environment_def Let_def split: option.splits if_splits)

lemma config_from_environment_ok:
  "analysis_cache_config_from_environment env = Inr c \<Longrightarrow> config_ok c"
  using parse_unsigned_bound [of env soft_name _ True] parse_unsigned_bound [of env hard_name _ False]
  by (auto simp: analysis_cache_config_from_environment_def config_ok_def cache_config_default_def
      split: sum.splits if_splits)

end
