(* ===== verification/Analysis_Repository.thy ===== *)
theory Analysis_Repository
  imports Cache_Key Std_Containers
begin

text \<open>
  The analysis cache (waveform/cache/analysis_repository.cpp): canonical objects in one store per
  protocol, lazy indexes that belong to a generation of a canonical object, generations, tombstones of
  evicted keys, cursors and configuration bindings, with the byte counters, the hard and the soft
  limit, and eviction of the least recently used objects.  Byte counts are 64-bit numbers that
  saturate as the source writes it.  The event sink is the list of the events emitted; the probe
  that records the same events for debugging is not modelled.
\<close>

section \<open>State\<close>

definition umax :: nat where
  "umax = 2 ^ 64 - 1"

definition sat_add :: "nat \<Rightarrow> nat \<Rightarrow> nat" where
  "sat_add a b = (if umax - a < b then umax else a + b)"

datatype object_state = Building | Ready

record 'v cache_object =
  ob_state :: object_state
  ob_type :: string
  ob_value :: "'v option"
  ob_resident :: nat
  ob_build :: nat
  ob_access :: nat

record 'v canonical_object = "'v cache_object" +
  ob_generation :: nat

record generation_cursor =
  gc_id :: string
  gc_key :: cache_key
  gc_generation :: nat
  gc_direction :: string
  gc_position :: nat

record cache_error =
  ce_code :: string
  ce_message :: string
  ce_recoverable :: bool
  ce_current :: nat
  ce_hard_max :: nat
  ce_protocol :: string
  ce_summary :: string
  ce_suggestions :: "string list"

definition no_error :: cache_error where
  "no_error = \<lparr>ce_code = [], ce_message = [], ce_recoverable = False, ce_current = 0, ce_hard_max = 0,
     ce_protocol = [], ce_summary = [], ce_suggestions = []\<rparr>"

record cache_event =
  ev_event :: string
  ev_protocol :: string
  ev_session :: string
  ev_summary :: string
  ev_object :: string
  ev_reason :: string
  ev_estimated :: nat
  ev_resident :: nat
  ev_build :: nat
  ev_access :: nat
  ev_generation :: nat

record repository_stats =
  st_canonical :: nat
  st_index :: nat
  st_resident :: nat
  st_build :: nat
  st_charged :: nat
  st_metadata :: nat
  st_generation :: nat
  st_cursor :: nat
  st_binding :: nat
  st_tombstone :: nat
  st_access :: nat

definition no_stats :: repository_stats where
  "no_stats = \<lparr>st_canonical = 0, st_index = 0, st_resident = 0, st_build = 0, st_charged = 0, st_metadata = 0,
     st_generation = 0, st_cursor = 0, st_binding = 0, st_tombstone = 0, st_access = 0\<rparr>"

datatype acquire_status = Hit | Build_Started | Reentrant_Build | Rejected

text \<open>The three stores of canonical objects, named as the members of the class.\<close>

datatype store = Apb_Entries | Axi_Entries | Stream_Entries

definition all_stores :: "store list" where
  "all_stores = [Apb_Entries, Axi_Entries, Stream_Entries]"

record 'v repository =
  r_config :: cache_config
  r_entries :: "store \<Rightarrow> (cache_key, 'v canonical_object) omap"
  r_indexes :: "(index_key, 'v cache_object) omap"
  r_generations :: "(cache_key, nat) omap"
  r_evicted :: "(cache_key, nat) omap"
  r_cursors :: "(string, generation_cursor) omap"
  r_cursor_access :: "(string, nat) omap"
  r_bindings :: "(string, (string, string) omap) omap"
  r_sequence :: nat
  r_stats :: repository_stats
  r_events :: "cache_event list"

definition new_repository :: "cache_config \<Rightarrow> 'v repository" where
  "new_repository cfg = \<lparr>r_config = cfg, r_entries = (\<lambda>_. []), r_indexes = [], r_generations = [], r_evicted = [],
     r_cursors = [], r_cursor_access = [], r_bindings = [], r_sequence = 0, r_stats = no_stats, r_events = []\<rparr>"

definition canonical_store_for_protocol :: "string \<Rightarrow> store option" where
  "canonical_store_for_protocol p =
     (if p = ''apb'' then Some Apb_Entries
      else if p = ''axi'' then Some Axi_Entries
      else if p = ''stream'' then Some Stream_Entries
      else None)"

text \<open>Looking up, setting and erasing the canonical object of a key in the store of its protocol.\<close>

definition find_entry :: "'v repository \<Rightarrow> cache_key \<Rightarrow> 'v canonical_object option" where
  "find_entry r key =
     (case canonical_store_for_protocol (protocol key) of None \<Rightarrow> None | Some s \<Rightarrow> omap_get (r_entries r s) key)"

definition put_entry :: "cache_key \<Rightarrow> 'v canonical_object \<Rightarrow> 'v repository \<Rightarrow> 'v repository" where
  "put_entry key ob r =
     (case canonical_store_for_protocol (protocol key) of None \<Rightarrow> r
      | Some s \<Rightarrow> r\<lparr>r_entries := (r_entries r)(s := omap_put key ob (r_entries r s))\<rparr>)"

definition del_entry :: "cache_key \<Rightarrow> 'v repository \<Rightarrow> 'v repository" where
  "del_entry key r =
     (case canonical_store_for_protocol (protocol key) of None \<Rightarrow> r
      | Some s \<Rightarrow> r\<lparr>r_entries := (r_entries r)(s := omap_del key (r_entries r s))\<rparr>)"

section \<open>Accounting\<close>

definition charge :: "cache_config \<Rightarrow> nat \<Rightarrow> nat" where
  "charge cfg bytes =
     (if bytes = 0 then 0
      else let charged = rat_of_nat bytes * estimator_safety_factor cfg in
           if rat_of_nat umax \<le> charged then umax else nat \<lceil>charged\<rceil>)"

definition next_access_sequence :: "'v repository \<Rightarrow> nat \<times> 'v repository" where
  "next_access_sequence r =
     (let n = (if r_sequence r \<noteq> umax then r_sequence r + 1 else r_sequence r) in (n, r\<lparr>r_sequence := n\<rparr>))"

text \<open>The sizes of the C++ objects on the 64-bit target with 32-byte strings.\<close>

definition sizeof_string :: nat where "sizeof_string = 32"
definition sizeof_cache_key :: nat where "sizeof_cache_key = 224"
definition sizeof_cursor :: nat where "sizeof_cursor = 304"

definition key_metadata_bytes :: "cache_key \<Rightarrow> nat" where
  "key_metadata_bytes key =
     sizeof_cache_key + length (protocol key) + length (session_id key) + length (normalized_semantics key) +
     length (semantic_digest key) + length (digest key) + 64"

definition cursor_metadata_bytes :: "generation_cursor \<Rightarrow> nat" where
  "cursor_metadata_bytes c =
     sizeof_cursor + length (gc_id c) + length (gc_direction c) + key_metadata_bytes (gc_key c) + 64"

definition binding_metadata_bytes :: "string \<Rightarrow> string \<Rightarrow> string \<Rightarrow> nat" where
  "binding_metadata_bytes sess name dig = sizeof_string * 3 + length sess + length name + length dig + 96"

definition on_stats :: "(repository_stats \<Rightarrow> repository_stats) \<Rightarrow> 'v repository \<Rightarrow> 'v repository" where
  "on_stats f r = r\<lparr>r_stats := f (r_stats r)\<rparr>"

definition charge_more :: "nat \<Rightarrow> 'v repository \<Rightarrow> 'v repository" where
  "charge_more bytes r = on_stats (\<lambda>s. s\<lparr>st_charged := sat_add (st_charged s) (charge (r_config r) bytes)\<rparr>) r"

definition charge_less :: "nat \<Rightarrow> 'v repository \<Rightarrow> 'v repository" where
  "charge_less bytes r =
     on_stats (\<lambda>s. s\<lparr>st_charged := st_charged s - min (st_charged s) (charge (r_config r) bytes)\<rparr>) r"

definition add_resident_bytes :: "nat \<Rightarrow> 'v repository \<Rightarrow> 'v repository" where
  "add_resident_bytes bytes r = charge_more bytes (on_stats (\<lambda>s. s\<lparr>st_resident := sat_add (st_resident s) bytes\<rparr>) r)"

definition remove_resident_bytes :: "nat \<Rightarrow> 'v repository \<Rightarrow> 'v repository" where
  "remove_resident_bytes bytes r =
     charge_less bytes (on_stats (\<lambda>s. s\<lparr>st_resident := st_resident s - min (st_resident s) bytes\<rparr>) r)"

definition add_build_bytes :: "nat \<Rightarrow> 'v repository \<Rightarrow> 'v repository" where
  "add_build_bytes bytes r = charge_more bytes (on_stats (\<lambda>s. s\<lparr>st_build := sat_add (st_build s) bytes\<rparr>) r)"

definition remove_build_bytes :: "nat \<Rightarrow> 'v repository \<Rightarrow> 'v repository" where
  "remove_build_bytes bytes r =
     charge_less bytes (on_stats (\<lambda>s. s\<lparr>st_build := st_build s - min (st_build s) bytes\<rparr>) r)"

definition add_metadata_bytes :: "nat \<Rightarrow> 'v repository \<Rightarrow> 'v repository" where
  "add_metadata_bytes bytes r = charge_more bytes (on_stats (\<lambda>s. s\<lparr>st_metadata := sat_add (st_metadata s) bytes\<rparr>) r)"

definition remove_metadata_bytes :: "nat \<Rightarrow> 'v repository \<Rightarrow> 'v repository" where
  "remove_metadata_bytes bytes r =
     charge_less bytes (on_stats (\<lambda>s. s\<lparr>st_metadata := st_metadata s - min (st_metadata s) bytes\<rparr>) r)"

text \<open>A counter goes down unless it is zero already.\<close>

definition count_down :: "nat \<Rightarrow> nat" where
  "count_down n = (if 0 < n then n - 1 else n)"

definition emit :: "cache_event \<Rightarrow> 'v repository \<Rightarrow> 'v repository" where
  "emit e r = r\<lparr>r_events := r_events r @ [e]\<rparr>"

definition key_event :: "string \<Rightarrow> cache_key \<Rightarrow> string \<Rightarrow> string \<Rightarrow> nat \<Rightarrow> nat \<Rightarrow> nat \<Rightarrow> nat \<Rightarrow> nat \<Rightarrow> cache_event" where
  "key_event e key object reason estimated resident build access gen =
     \<lparr>ev_event = e, ev_protocol = protocol key, ev_session = session_id key, ev_summary = key_summary key,
      ev_object = object, ev_reason = reason, ev_estimated = estimated, ev_resident = resident,
      ev_build = build, ev_access = access, ev_generation = gen\<rparr>"

section \<open>Erasing single objects\<close>

text \<open>
  The steps the loops of the source repeat: an object leaves its map and its bytes leave the counters.
\<close>

definition drop_generation :: "cache_key \<Rightarrow> 'v repository \<Rightarrow> 'v repository" where
  "drop_generation key r =
     (case omap_get (r_generations r) key of None \<Rightarrow> r
      | Some g \<Rightarrow>
          let r1 = remove_metadata_bytes (key_metadata_bytes key) r;
              r2 = r1\<lparr>r_generations := omap_del key (r_generations r1)\<rparr>
          in on_stats (\<lambda>s. s\<lparr>st_generation := count_down (st_generation s)\<rparr>) r2)"

definition erase_generation_if_unreferenced :: "cache_key \<Rightarrow> 'v repository \<Rightarrow> 'v repository" where
  "erase_generation_if_unreferenced key r =
     (if find_entry r key \<noteq> None then r
      else if list_ex (\<lambda>p. gc_key (snd p) = key) (r_cursors r) then r
      else drop_generation key r)"

definition drop_tombstone :: "cache_key \<Rightarrow> 'v repository \<Rightarrow> 'v repository" where
  "drop_tombstone key r =
     (case omap_get (r_evicted r) key of None \<Rightarrow> r
      | Some n \<Rightarrow>
          let r1 = remove_metadata_bytes (key_metadata_bytes key) r;
              r2 = r1\<lparr>r_evicted := omap_del key (r_evicted r1)\<rparr>
          in on_stats (\<lambda>s. s\<lparr>st_tombstone := count_down (st_tombstone s)\<rparr>) r2)"

definition drop_cursor :: "string \<Rightarrow> 'v repository \<Rightarrow> 'v repository" where
  "drop_cursor cid r =
     (case omap_get (r_cursors r) cid of None \<Rightarrow> r
      | Some c \<Rightarrow>
          let r1 = remove_metadata_bytes (cursor_metadata_bytes c) r;
              r2 = r1\<lparr>r_cursor_access := omap_del cid (r_cursor_access r1), r_cursors := omap_del cid (r_cursors r1)\<rparr>
          in on_stats (\<lambda>s. s\<lparr>st_cursor := count_down (st_cursor s)\<rparr>) r2)"

definition drop_index :: "index_key \<Rightarrow> 'v repository \<Rightarrow> 'v repository" where
  "drop_index ik r =
     (case omap_get (r_indexes r) ik of None \<Rightarrow> r
      | Some ob \<Rightarrow>
          let r1 = remove_build_bytes (ob_build ob) (remove_resident_bytes (ob_resident ob) r);
              r2 = (if ob_state ob = Ready then on_stats (\<lambda>s. s\<lparr>st_index := count_down (st_index s)\<rparr>) r1 else r1)
          in r2\<lparr>r_indexes := omap_del ik (r_indexes r2)\<rparr>)"

definition drop_entry :: "cache_key \<Rightarrow> 'v repository \<Rightarrow> 'v repository" where
  "drop_entry key r =
     (case find_entry r key of None \<Rightarrow> r
      | Some ob \<Rightarrow>
          let r1 = remove_build_bytes (ob_build ob) (remove_resident_bytes (ob_resident ob) r);
              r2 = (if ob_state ob = Ready then on_stats (\<lambda>s. s\<lparr>st_canonical := count_down (st_canonical s)\<rparr>) r1 else r1)
          in del_entry key r2)"

text \<open>The first entry with the least access sequence, equal sequences in the order of the keys.\<close>

fun pick_oldest :: "('k::linorder \<times> nat) list \<Rightarrow> 'k \<times> nat \<Rightarrow> 'k \<times> nat" where
  "pick_oldest [] v = v"
| "pick_oldest ((k, s) # m) v =
     pick_oldest m (if s < snd v \<or> (s = snd v \<and> k < fst v) then (k, s) else v)"

definition cursor_sequence :: "'v repository \<Rightarrow> string \<Rightarrow> nat" where
  "cursor_sequence r cid = (case omap_get (r_cursor_access r) cid of None \<Rightarrow> 0 | Some n \<Rightarrow> n)"

definition oldest_cursor :: "'v repository \<Rightarrow> string \<times> nat" where
  "oldest_cursor r =
     (let m = map (\<lambda>p. (fst p, cursor_sequence r (fst p))) (r_cursors r) in pick_oldest m (hd m))"

definition drop_first_binding :: "'v repository \<Rightarrow> 'v repository option" where
  "drop_first_binding r =
     (case r_bindings r of
        (sess, (name, dig) # bs) # rest \<Rightarrow>
          let r1 = remove_metadata_bytes (binding_metadata_bytes sess name dig) r;
              r2 = on_stats (\<lambda>s. s\<lparr>st_binding := count_down (st_binding s)\<rparr>) r1
          in Some (r2\<lparr>r_bindings := (if bs = [] then rest else (sess, bs) # rest)\<rparr>)
      | _ \<Rightarrow> None)"

definition erase_one_releasable_metadata :: "'v repository \<Rightarrow> 'v repository option" where
  "erase_one_releasable_metadata r =
     (if r_evicted r \<noteq> [] then
        let key = fst (pick_oldest (r_evicted r) (hd (r_evicted r)))
        in Some (erase_generation_if_unreferenced key (drop_tombstone key r))
      else if r_cursors r \<noteq> [] then
        let cid = fst (oldest_cursor r) in
        (case omap_get (r_cursors r) cid of None \<Rightarrow> None
         | Some c \<Rightarrow> Some (erase_generation_if_unreferenced (gc_key c) (drop_cursor cid r)))
      else drop_first_binding r)"

section \<open>Erasing canonical objects\<close>

definition is_stream_sibling_range :: "cache_key \<Rightarrow> cache_key \<Rightarrow> bool" where
  "is_stream_sibling_range candidate full_key \<longleftrightarrow>
     protocol full_key = ''stream'' \<and> scope full_key = Scope_Full \<and>
     protocol candidate = ''stream'' \<and> scope candidate = Scope_Range \<and>
     session_id candidate = session_id full_key \<and> fsdb candidate = fsdb full_key \<and>
     fingerprint_version candidate = fingerprint_version full_key \<and>
     semantic_digest candidate = semantic_digest full_key \<and>
     normalized_semantics candidate = normalized_semantics full_key"

definition erase_owned_indexes :: "cache_key \<Rightarrow> 'v repository \<Rightarrow> 'v repository" where
  "erase_owned_indexes key r = fold drop_index (filter (\<lambda>ik. index_owner ik = key) (map fst (r_indexes r))) r"

definition erase_owned_cursors :: "cache_key \<Rightarrow> 'v repository \<Rightarrow> 'v repository" where
  "erase_owned_cursors key r =
     fold drop_cursor (map fst (filter (\<lambda>p. gc_key (snd p) = key) (r_cursors r))) r"

definition erase_canonical_internal :: "cache_key \<Rightarrow> string \<Rightarrow> bool \<Rightarrow> 'v repository \<Rightarrow> 'v repository" where
  "erase_canonical_internal key reason invalidate_cursors r =
     (case find_entry r key of None \<Rightarrow> r
      | Some ob \<Rightarrow>
          let r1 = erase_owned_indexes key r;
              r2 = (if invalidate_cursors then erase_owned_cursors key r1 else r1);
              r3 = erase_generation_if_unreferenced key (drop_entry key r2)
          in emit (key_event (if invalidate_cursors then ''invalidate'' else ''evict'') key ''canonical'' reason
                     (ob_resident ob) 0 0 (ob_access ob) (ob_generation ob)) r3)"

definition erase_stream_sibling_ranges :: "cache_key \<Rightarrow> 'v repository \<Rightarrow> 'v repository" where
  "erase_stream_sibling_ranges full_key r =
     fold (\<lambda>k. erase_canonical_internal k ''full_replaced_range'' True)
       (filter (\<lambda>k. is_stream_sibling_range k full_key) (map fst (r_entries r Stream_Entries))) r"

section \<open>Limits and eviction\<close>

definition object_charge :: "cache_config \<Rightarrow> ('v, 'z) cache_object_scheme \<Rightarrow> nat" where
  "object_charge cfg ob = sat_add (charge cfg (ob_resident ob)) (charge cfg (ob_build ob))"

definition take_off :: "nat \<Rightarrow> nat \<Rightarrow> nat" where
  "take_off n t = t - min t n"

definition current_charged_bytes ::
  "cache_key option \<Rightarrow> index_key option \<Rightarrow> cache_key option \<Rightarrow> 'v repository \<Rightarrow> nat" where
  "current_charged_bytes exempt_canonical exempt_index excluded r =
     (let cfg = r_config r;
          t0 = st_charged (r_stats r);
          t1 = (case Option.bind exempt_canonical (find_entry r) of None \<Rightarrow> t0
                | Some ob \<Rightarrow> take_off (object_charge cfg ob) t0);
          t2 = (case Option.bind exempt_index (omap_get (r_indexes r)) of None \<Rightarrow> t1
                | Some ob \<Rightarrow> take_off (object_charge cfg ob) t1)
      in case excluded of None \<Rightarrow> t2
         | Some full \<Rightarrow>
             fold (\<lambda>p. if is_stream_sibling_range (index_owner (fst p)) full
                       then take_off (object_charge cfg (snd p)) else id) (r_indexes r)
               (fold (\<lambda>p. if is_stream_sibling_range (fst p) full
                          then take_off (object_charge cfg (snd p)) else id) (r_entries r Stream_Entries) t2))"

definition fits_limit :: "nat \<Rightarrow> nat \<Rightarrow> cache_key option \<Rightarrow> 'v repository \<Rightarrow> bool" where
  "fits_limit bound new_charge excluded r \<longleftrightarrow> sat_add (current_charged_bytes None None excluded r) new_charge \<le> bound"

definition index_access :: "'v repository \<Rightarrow> index_key \<Rightarrow> nat" where
  "index_access r ik = (case omap_get (r_indexes r) ik of None \<Rightarrow> 0 | Some ob \<Rightarrow> ob_access ob)"

definition entry_access :: "'v repository \<Rightarrow> cache_key \<Rightarrow> nat" where
  "entry_access r key = (case find_entry r key of None \<Rightarrow> 0 | Some ob \<Rightarrow> ob_access ob)"

definition preserved :: "cache_key option \<Rightarrow> cache_key \<Rightarrow> bool" where
  "preserved preserve key \<longleftrightarrow> (case preserve of None \<Rightarrow> False | Some full \<Rightarrow> is_stream_sibling_range key full)"

definition index_candidates :: "index_key option \<Rightarrow> cache_key option \<Rightarrow> 'v repository \<Rightarrow> index_key list" where
  "index_candidates protected preserve r =
     sort_key (\<lambda>ik. (index_access r ik, ik))
       (map fst (filter (\<lambda>p. ob_state (snd p) = Ready \<and> protected \<noteq> Some (fst p) \<and>
                              \<not> preserved preserve (index_owner (fst p))) (r_indexes r)))"

definition evict_index :: "string \<Rightarrow> index_key \<Rightarrow> 'v repository \<Rightarrow> 'v repository" where
  "evict_index reason ik r =
     (case omap_get (r_indexes r) ik of None \<Rightarrow> r
      | Some ob \<Rightarrow>
          emit (key_event ''evict'' (index_owner ik) (''index:'' @ index_kind ik) reason (ob_resident ob) 0 0
                  (ob_access ob) (owner_generation ik)) (drop_index ik r))"

text \<open>The loops over the candidates return early once the limit is met.\<close>

fun evict_indexes ::
  "nat \<Rightarrow> nat \<Rightarrow> cache_key option \<Rightarrow> string \<Rightarrow> index_key list \<Rightarrow> 'v repository \<Rightarrow> bool \<times> 'v repository" where
  "evict_indexes bound new_charge excluded reason [] r = (False, r)"
| "evict_indexes bound new_charge excluded reason (ik # iks) r =
     (if fits_limit bound new_charge excluded r then (True, r)
      else evict_indexes bound new_charge excluded reason iks (evict_index reason ik r))"

definition canonical_candidates :: "cache_key option \<Rightarrow> cache_key option \<Rightarrow> 'v repository \<Rightarrow> cache_key list" where
  "canonical_candidates protected preserve r =
     sort_key (\<lambda>k. (entry_access r k, k))
       (map fst (filter (\<lambda>p. ob_state (snd p) = Ready \<and> protected \<noteq> Some (fst p) \<and> \<not> preserved preserve (fst p))
          (concat (map (r_entries r) all_stores))))"

definition add_tombstone :: "cache_key \<Rightarrow> 'v repository \<Rightarrow> 'v repository" where
  "add_tombstone key r =
     (let (n, r1) = next_access_sequence r in
      case omap_get (r_evicted r1) key of
        None \<Rightarrow>
          on_stats (\<lambda>s. s\<lparr>st_tombstone := st_tombstone s + 1\<rparr>)
            (add_metadata_bytes (key_metadata_bytes key) (r1\<lparr>r_evicted := omap_put key n (r_evicted r1)\<rparr>))
      | Some _ \<Rightarrow>
          let (n2, r2) = next_access_sequence r1 in r2\<lparr>r_evicted := omap_put key n2 (r_evicted r2)\<rparr>)"

definition evict_canonical :: "string \<Rightarrow> cache_key \<Rightarrow> 'v repository \<Rightarrow> 'v repository" where
  "evict_canonical reason key r =
     (if find_entry r key = None then r else add_tombstone key (erase_canonical_internal key reason False r))"

fun evict_canonicals ::
  "nat \<Rightarrow> nat \<Rightarrow> cache_key option \<Rightarrow> string \<Rightarrow> cache_key list \<Rightarrow> 'v repository \<Rightarrow> 'v repository" where
  "evict_canonicals bound new_charge excluded reason [] r = r"
| "evict_canonicals bound new_charge excluded reason (key # ks) r =
     (if fits_limit bound new_charge excluded r then r
      else evict_canonicals bound new_charge excluded reason ks (evict_canonical reason key r))"

definition evict_to_budget ::
  "nat \<Rightarrow> nat \<Rightarrow> cache_key option \<Rightarrow> index_key option \<Rightarrow> string \<Rightarrow> cache_key option \<Rightarrow> cache_key option \<Rightarrow>
   'v repository \<Rightarrow> 'v repository" where
  "evict_to_budget bound new_charge protected_canonical protected_index reason preserve excluded r =
     (if fits_limit bound new_charge excluded r then r
      else case evict_indexes bound new_charge excluded reason (index_candidates protected_index preserve r) r of
             (True, r1) \<Rightarrow> r1
           | (False, r1) \<Rightarrow>
               evict_canonicals bound new_charge excluded reason (canonical_candidates protected_canonical preserve r1) r1)"

definition releasable :: "'v repository \<Rightarrow> nat" where
  "releasable r = length (r_evicted r) + length (r_cursors r) + sum_list (map (\<lambda>p. length (snd p)) (r_bindings r))"

text \<open>The updates of the counters leave every map alone.\<close>

named_theorems repo_simps

lemma on_stats_maps [repo_simps]:
  "r_config (on_stats f r) = r_config r" "r_entries (on_stats f r) = r_entries r"
  "r_indexes (on_stats f r) = r_indexes r" "r_generations (on_stats f r) = r_generations r"
  "r_evicted (on_stats f r) = r_evicted r" "r_cursors (on_stats f r) = r_cursors r"
  "r_cursor_access (on_stats f r) = r_cursor_access r" "r_bindings (on_stats f r) = r_bindings r"
  "r_sequence (on_stats f r) = r_sequence r" "r_stats (on_stats f r) = f (r_stats r)"
  "r_events (on_stats f r) = r_events r"
  by (simp_all add: on_stats_def)

lemmas byte_counters [repo_simps] =
  charge_more_def charge_less_def add_resident_bytes_def remove_resident_bytes_def add_build_bytes_def
  remove_build_bytes_def add_metadata_bytes_def remove_metadata_bytes_def

lemma emit_maps [repo_simps]:
  "r_config (emit e r) = r_config r" "r_entries (emit e r) = r_entries r"
  "r_indexes (emit e r) = r_indexes r" "r_generations (emit e r) = r_generations r"
  "r_evicted (emit e r) = r_evicted r" "r_cursors (emit e r) = r_cursors r"
  "r_cursor_access (emit e r) = r_cursor_access r" "r_bindings (emit e r) = r_bindings r"
  "r_sequence (emit e r) = r_sequence r" "r_stats (emit e r) = r_stats r"
  by (simp_all add: emit_def)

lemma length_omap_del: "omap_get m k = Some v \<Longrightarrow> length (omap_del k m) < length m"
  by (induction m) (auto simp: omap_del_def le_imp_less_Suc split: if_splits)

lemma length_omap_del_le: "length (omap_del k m) \<le> length m"
  by (simp add: omap_del_def)

lemma pick_oldest_in: "fst (pick_oldest m v) \<in> insert (fst v) (fst ` set m)"
  by (induction m v rule: pick_oldest.induct) (auto split: if_splits)

lemma pick_oldest_hd: "m \<noteq> [] \<Longrightarrow> fst (pick_oldest m (hd m)) \<in> fst ` set m"
  using pick_oldest_in [of m "hd m"] by auto

lemma drop_generation_releasable [simp]: "releasable (drop_generation key r) = releasable r"
  by (auto simp: drop_generation_def releasable_def repo_simps split: option.splits)

lemma erase_generation_releasable [simp]: "releasable (erase_generation_if_unreferenced key r) = releasable r"
  by (simp add: erase_generation_if_unreferenced_def)

lemma drop_tombstone_releasable:
  "omap_get (r_evicted r) key = Some n \<Longrightarrow> releasable (drop_tombstone key r) < releasable r"
  using length_omap_del [of "r_evicted r" key n] by (auto simp: drop_tombstone_def releasable_def repo_simps)

lemma drop_cursor_releasable:
  "omap_get (r_cursors r) cid = Some c \<Longrightarrow> releasable (drop_cursor cid r) < releasable r"
  using length_omap_del [of "r_cursors r" cid c] by (auto simp: drop_cursor_def releasable_def repo_simps)

lemma drop_first_binding_releasable: "drop_first_binding r = Some r' \<Longrightarrow> releasable r' < releasable r"
  by (auto simp: drop_first_binding_def releasable_def repo_simps Let_def split: list.splits if_splits)

lemma erase_one_releasable:
  assumes "erase_one_releasable_metadata r = Some r'"
  shows "releasable r' < releasable r"
proof (cases "r_evicted r = []")
  case False
  then have "fst (pick_oldest (r_evicted r) (hd (r_evicted r))) \<in> fst ` set (r_evicted r)"
    by (rule pick_oldest_hd)
  then obtain n where "omap_get (r_evicted r) (fst (pick_oldest (r_evicted r) (hd (r_evicted r)))) = Some n"
    by (metis domD dom_map_of_conv_image_fst)
  with False assms show ?thesis
    by (auto simp: erase_one_releasable_metadata_def Let_def drop_tombstone_releasable)
next
  case True
  with assms show ?thesis
    by (auto simp: erase_one_releasable_metadata_def Let_def drop_cursor_releasable
        drop_first_binding_releasable split: if_splits option.splits)
qed

function release_metadata :: "nat \<Rightarrow> cache_key option \<Rightarrow> 'v repository \<Rightarrow> 'v repository" where
  "release_metadata new_charge excluded r =
     (if fits_limit (hard_max_bytes (r_config r)) new_charge excluded r then r
      else case erase_one_releasable_metadata r of None \<Rightarrow> r
           | Some r' \<Rightarrow> release_metadata new_charge excluded r')"
  by pat_completeness auto
termination
  by (relation "measure (\<lambda>(n, e, r). releasable r)") (simp_all add: erase_one_releasable)

declare release_metadata.simps [simp del]

definition memory_error :: "cache_key \<Rightarrow> 'v repository \<Rightarrow> cache_error" where
  "memory_error key r =
     \<lparr>ce_code = ''ANALYSIS_MEMORY_LIMIT_EXCEEDED'',
      ce_message = ''analysis cache build exceeds the configured hard memory limit'',
      ce_recoverable = True, ce_current = st_resident (r_stats r), ce_hard_max = hard_max_bytes (r_config r),
      ce_protocol = protocol key, ce_summary = key_summary key,
      ce_suggestions =
        [''For stream analysis, explicitly retry with cache_scope=range or a smaller time_range.'',
         ''If range analysis still exceeds the limit, use x-npi for one-off offline analysis.'']\<rparr>"

definition make_hard_room ::
  "nat \<Rightarrow> cache_key option \<Rightarrow> index_key option \<Rightarrow> cache_error \<Rightarrow> cache_key \<Rightarrow> cache_key option \<Rightarrow>
   'v repository \<Rightarrow> bool \<times> cache_error \<times> 'v repository" where
  "make_hard_room new_charge protected_canonical protected_index err request_key excluded r =
     (let preserve = (if protocol request_key = ''stream'' \<and> scope request_key = Scope_Full
                      then Some request_key else None);
          r1 = evict_to_budget (hard_max_bytes (r_config r)) new_charge protected_canonical protected_index
                 ''hard_limit'' preserve excluded r;
          r2 = release_metadata new_charge excluded r1
      in if fits_limit (hard_max_bytes (r_config r2)) new_charge excluded r2 then (True, err, r2)
         else (False, memory_error request_key r2, r2))"

definition enforce_soft_budget :: "cache_key option \<Rightarrow> index_key option \<Rightarrow> 'v repository \<Rightarrow> 'v repository" where
  "enforce_soft_budget protected_canonical protected_index r =
     (if soft_max_bytes (r_config r) = 0 then r
      else evict_to_budget (sat_add (soft_max_bytes (r_config r)) (charge (r_config r) (st_metadata (r_stats r)))) 0
             protected_canonical protected_index ''soft_lru'' None None r)"

section \<open>Canonical objects\<close>

definition code_error :: "string \<Rightarrow> string \<Rightarrow> cache_error \<Rightarrow> cache_error" where
  "code_error code message err = err\<lparr>ce_code := code, ce_message := message\<rparr>"

definition protocol_error :: "cache_error \<Rightarrow> cache_error" where
  "protocol_error =
     code_error ''ANALYSIS_CACHE_PROTOCOL_UNSUPPORTED'' ''analysis cache protocol must be apb, axi, or stream''"

definition start_canonical :: "cache_key \<Rightarrow> string \<Rightarrow> nat \<Rightarrow> 'v repository \<Rightarrow> 'v repository" where
  "start_canonical key type_tag build r =
     (let r1 = (if omap_get (r_generations r) key = None
                then on_stats (\<lambda>s. s\<lparr>st_generation := st_generation s + 1\<rparr>)
                       (add_metadata_bytes (key_metadata_bytes key)
                          (r\<lparr>r_generations := omap_put key 0 (r_generations r)\<rparr>))
                else r);
          g = (case omap_get (r_generations r1) key of None \<Rightarrow> 0 | Some n \<Rightarrow> n) + 1;
          r2 = r1\<lparr>r_generations := omap_put key g (r_generations r1)\<rparr>;
          (n, r3) = next_access_sequence r2;
          ob = \<lparr>ob_state = Building, ob_type = type_tag, ob_value = None, ob_resident = 0, ob_build = build,
                ob_access = n, ob_generation = g\<rparr>;
          r4 = add_build_bytes build (put_entry key ob r3);
          after_evict = omap_get (r_evicted r4) key \<noteq> None
      in emit (key_event ''miss'' key ''canonical'' (if after_evict then ''cache_miss_after_evict'' else ''cold'')
                 build 0 build n g) r4)"

definition begin_canonical ::
  "cache_key \<Rightarrow> string \<Rightarrow> nat \<Rightarrow> 'v repository \<Rightarrow> acquire_status \<times> cache_error \<times> 'v repository" where
  "begin_canonical key type_tag build r =
     (if canonical_store_for_protocol (protocol key) = None then (Rejected, protocol_error no_error, r)
      else case find_entry r key of
        Some ob \<Rightarrow>
          if ob_state ob = Building then
            (Reentrant_Build,
             code_error ''ANALYSIS_CACHE_REENTRANT_BUILD'' ''analysis cache key is already building in this engine'' no_error, r)
          else if ob_type ob \<noteq> type_tag then
            (Rejected,
             code_error ''ANALYSIS_CACHE_TYPE_MISMATCH'' ''analysis cache key was requested with a different type'' no_error, r)
          else
            let (n, r1) = next_access_sequence r
            in (Hit, no_error,
                emit (key_event ''hit'' key ''canonical'' [] (ob_resident ob) 0 0 n (ob_generation ob))
                  (put_entry key (ob\<lparr>ob_access := n\<rparr>) r1))
      | None \<Rightarrow>
          let generation_metadata =
                (if omap_get (r_generations r) key = None then charge (r_config r) (key_metadata_bytes key) else 0)
          in case make_hard_room (sat_add (charge (r_config r) build) generation_metadata) None None no_error key None r of
               (False, err, r1) \<Rightarrow>
                 (Rejected, err, emit (key_event ''build_failed'' key ''canonical'' ''hard_limit'' build 0 0 0 0) r1)
             | (True, err, r1) \<Rightarrow> (Build_Started, err, start_canonical key type_tag build r1))"

definition abandon_canonical :: "cache_key \<Rightarrow> string \<Rightarrow> nat \<Rightarrow> 'v repository \<Rightarrow> 'v repository" where
  "abandon_canonical key reason bytes r =
     emit (key_event ''build_failed'' key ''canonical'' reason bytes 0 0 0 0)
       (erase_generation_if_unreferenced key (del_entry key r))"

definition settle_canonical :: "cache_key \<Rightarrow> 'v \<Rightarrow> nat \<Rightarrow> 'v repository \<Rightarrow> 'v repository" where
  "settle_canonical key v resident r =
     (case find_entry r key of None \<Rightarrow> r
      | Some ob \<Rightarrow>
          let r1 = put_entry key (ob\<lparr>ob_state := Ready, ob_value := Some v, ob_resident := resident\<rparr>) r;
              r2 = on_stats (\<lambda>s. s\<lparr>st_canonical := st_canonical s + 1\<rparr>) (add_resident_bytes resident r1);
              (n, r3) = next_access_sequence r2;
              r4 = put_entry key
                     (ob\<lparr>ob_state := Ready, ob_value := Some v, ob_resident := resident, ob_access := n\<rparr>) r3;
              oversize = (soft_max_bytes (r_config r4) \<noteq> 0 \<and>
                          soft_max_bytes (r_config r4) < charge (r_config r4) resident);
              r5 = enforce_soft_budget (Some key) None r4;
              r6 = (if oversize
                    then emit (key_event ''oversize_admitted'' key ''canonical'' ''soft_budget'' resident resident 0 n
                                 (ob_generation ob)) r5
                    else r5);
              r7 = emit (key_event ''build'' key ''canonical'' [] resident resident 0 n (ob_generation ob)) r6
          in drop_tombstone key r7)"

text \<open>A build charge of an object that is given back before a new one is asked for.\<close>

definition return_build :: "cache_key \<Rightarrow> 'v canonical_object \<Rightarrow> 'v repository \<Rightarrow> 'v repository" where
  "return_build key ob r = put_entry key (ob\<lparr>ob_build := 0\<rparr>) (remove_build_bytes (ob_build ob) r)"

definition publish_canonical ::
  "cache_key \<Rightarrow> string \<Rightarrow> 'v option \<Rightarrow> nat \<Rightarrow> cache_error \<Rightarrow> 'v repository \<Rightarrow> bool \<times> cache_error \<times> 'v repository" where
  "publish_canonical key type_tag value resident err r =
     (if canonical_store_for_protocol (protocol key) = None then (False, protocol_error err, r)
      else case (find_entry r key, value) of
        (Some ob, Some v) \<Rightarrow>
          if ob_state ob \<noteq> Building \<or> ob_type ob \<noteq> type_tag then
            (False, code_error ''ANALYSIS_CACHE_BUILD_STATE_INVALID''
                      ''canonical publish requires the matching building entry'' err, r)
          else
            let replaced = (if protocol key = ''stream'' \<and> scope key = Scope_Full then Some key else None)
            in case make_hard_room (charge (r_config r) resident) (Some key) None err key replaced (return_build key ob r) of
                 (False, err', r1) \<Rightarrow> (False, err', abandon_canonical key ''hard_limit'' resident r1)
               | (True, err', r1) \<Rightarrow>
                   (True, err',
                    settle_canonical key v resident
                      (if replaced \<noteq> None then erase_stream_sibling_ranges key r1 else r1))
      | _ \<Rightarrow> (False, code_error ''ANALYSIS_CACHE_BUILD_STATE_INVALID''
                       ''canonical publish requires the matching building entry'' err, r))"

definition update_canonical_build_bytes ::
  "cache_key \<Rightarrow> nat \<Rightarrow> cache_error \<Rightarrow> 'v repository \<Rightarrow> bool \<times> cache_error \<times> 'v repository" where
  "update_canonical_build_bytes key build err r =
     (let invalid = (False, code_error ''ANALYSIS_CACHE_BUILD_STATE_INVALID''
                              ''canonical build accounting requires a building entry'' err, r) in
      if canonical_store_for_protocol (protocol key) = None then (False, protocol_error err, r)
      else case find_entry r key of
        None \<Rightarrow> invalid
      | Some ob \<Rightarrow>
          if ob_state ob \<noteq> Building then invalid
          else case make_hard_room (charge (r_config r) build) (Some key) None err key None (return_build key ob r) of
                 (False, err', r1) \<Rightarrow> (False, err', abandon_canonical key ''hard_limit'' build r1)
               | (True, err', r1) \<Rightarrow>
                   (True, err',
                    case find_entry r1 key of None \<Rightarrow> r1
                    | Some ob1 \<Rightarrow> add_build_bytes build (put_entry key (ob1\<lparr>ob_build := build\<rparr>) r1)))"

definition fail_canonical :: "cache_key \<Rightarrow> string \<Rightarrow> 'v repository \<Rightarrow> 'v repository" where
  "fail_canonical key reason r =
     (case find_entry r key of None \<Rightarrow> r
      | Some ob \<Rightarrow>
          if ob_state ob \<noteq> Building then r
          else abandon_canonical key reason (ob_build ob) (remove_build_bytes (ob_build ob) r))"

definition fail_canonical_bad_alloc :: "cache_key \<Rightarrow> 'v repository \<Rightarrow> cache_error \<times> 'v repository" where
  "fail_canonical_bad_alloc key r =
     (let r1 = fail_canonical key ''bad_alloc'' r in (memory_error key r1, r1))"

text \<open>The value and its generation, and the repository with the access recorded if asked for.\<close>

definition find_canonical ::
  "cache_key \<Rightarrow> string \<Rightarrow> bool \<Rightarrow> 'v repository \<Rightarrow> ('v option \<times> nat) option \<times> 'v repository" where
  "find_canonical key type_tag record_access r =
     (case find_entry r key of None \<Rightarrow> (None, r)
      | Some ob \<Rightarrow>
          if ob_state ob \<noteq> Ready \<or> ob_type ob \<noteq> type_tag then (None, r)
          else if \<not> record_access then (Some (ob_value ob, ob_generation ob), r)
          else
            let (n, r1) = next_access_sequence r
            in (Some (ob_value ob, ob_generation ob),
                emit (key_event ''hit'' key ''canonical'' [] (ob_resident ob) 0 0 n (ob_generation ob))
                  (put_entry key (ob\<lparr>ob_access := n\<rparr>) r1)))"

text \<open>
  The result of the builder that \<open>ensure_canonical\<close> calls: a value, no value, an allocation failure or
  another exception, with the repository it leaves.
\<close>

datatype 'v build_outcome = Built 'v | Built_Null | Bad_Alloc | Other_Exception

datatype 'v ensured = Ensured 'v | Not_Ensured cache_error | Rethrown

definition ensure_canonical ::
  "cache_key \<Rightarrow> string \<Rightarrow> nat \<Rightarrow> ('v repository \<Rightarrow> 'v build_outcome \<times> 'v repository) \<Rightarrow> ('v \<Rightarrow> nat) \<Rightarrow>
   'v repository \<Rightarrow> 'v ensured \<times> 'v repository" where
  "ensure_canonical key type_tag build builder estimator r =
     (let peek = (\<lambda>err q. case fst (find_canonical key type_tag False q) of
                             Some (Some v, g) \<Rightarrow> Ensured v | _ \<Rightarrow> Not_Ensured err) in
      case begin_canonical key type_tag build r of
        (Hit, err, r1) \<Rightarrow> (peek err r1, r1)
      | (Build_Started, err, r1) \<Rightarrow>
          (case builder r1 of
             (Built v, r2) \<Rightarrow>
               (case publish_canonical key type_tag (Some v) (estimator v) err r2 of
                  (True, err', r3) \<Rightarrow> (peek err' r3, r3)
                | (False, err', r3) \<Rightarrow> (Not_Ensured err', r3))
           | (Built_Null, r2) \<Rightarrow>
               (Not_Ensured (code_error ''ANALYSIS_BUILD_FAILED'' ''analysis builder returned no result'' err),
                fail_canonical key ''builder_returned_null'' r2)
           | (Bad_Alloc, r2) \<Rightarrow>
               (let r3 = fail_canonical key ''bad_alloc'' r2 in (Not_Ensured (memory_error key r3), r3))
           | (Other_Exception, r2) \<Rightarrow> (Rethrown, fail_canonical key ''builder_exception'' r2))
      | (_, err, r1) \<Rightarrow> (Not_Ensured err, r1))"

definition ensure_protocol ::
  "string \<Rightarrow> cache_key \<Rightarrow> string \<Rightarrow> nat \<Rightarrow> ('v repository \<Rightarrow> 'v build_outcome \<times> 'v repository) \<Rightarrow> ('v \<Rightarrow> nat) \<Rightarrow>
   'v repository \<Rightarrow> 'v ensured \<times> 'v repository" where
  "ensure_protocol expected key type_tag build builder estimator r =
     (if protocol key \<noteq> expected then
        (Not_Ensured (code_error ''ANALYSIS_CACHE_PROTOCOL_MISMATCH''
                        (''expected '' @ expected @ '' analysis cache key'') no_error), r)
      else ensure_canonical key type_tag build builder estimator r)"

section \<open>Lazy indexes\<close>

definition index_event :: "string \<Rightarrow> index_key \<Rightarrow> string \<Rightarrow> nat \<Rightarrow> nat \<Rightarrow> nat \<Rightarrow> nat \<Rightarrow> nat \<Rightarrow> cache_event" where
  "index_event e ik reason estimated resident build access gen =
     key_event e (index_owner ik) (''index:'' @ index_kind ik) reason estimated resident build access gen"

definition put_index :: "index_key \<Rightarrow> 'v cache_object \<Rightarrow> 'v repository \<Rightarrow> 'v repository" where
  "put_index ik ob r = r\<lparr>r_indexes := omap_put ik ob (r_indexes r)\<rparr>"

definition touch_entry :: "cache_key \<Rightarrow> nat \<Rightarrow> 'v repository \<Rightarrow> 'v repository" where
  "touch_entry key n r =
     (case find_entry r key of None \<Rightarrow> r | Some ob \<Rightarrow> put_entry key (ob\<lparr>ob_access := n\<rparr>) r)"

definition start_index :: "index_key \<Rightarrow> string \<Rightarrow> nat \<Rightarrow> 'v repository \<Rightarrow> 'v repository" where
  "start_index ik type_tag build r =
     (let (n, r1) = next_access_sequence r;
          ob = \<lparr>ob_state = Building, ob_type = type_tag, ob_value = None, ob_resident = 0, ob_build = build, ob_access = n\<rparr>;
          r2 = add_build_bytes build (put_index ik ob r1)
      in emit (index_event ''miss'' ik ''cold'' build 0 build n (owner_generation ik)) r2)"

definition hit_index :: "index_key \<Rightarrow> 'v cache_object \<Rightarrow> 'v repository \<Rightarrow> 'v repository" where
  "hit_index ik ob r =
     (let (n, r1) = next_access_sequence r;
          r2 = touch_entry (index_owner ik) n (put_index ik (ob\<lparr>ob_access := n\<rparr>) r1)
      in emit (index_event ''hit'' ik [] (ob_resident ob) 0 0 n (owner_generation ik)) r2)"

definition begin_index ::
  "index_key \<Rightarrow> string \<Rightarrow> nat \<Rightarrow> 'v repository \<Rightarrow> acquire_status \<times> cache_error \<times> 'v repository" where
  "begin_index ik type_tag build r =
     (let stale = (Rejected, code_error ''ANALYSIS_CACHE_GENERATION_STALE''
                               ''lazy index owner generation is not resident'' no_error, r) in
      if canonical_store_for_protocol (protocol (index_owner ik)) = None then (Rejected, protocol_error no_error, r)
      else case find_entry r (index_owner ik) of
        None \<Rightarrow> stale
      | Some owner \<Rightarrow>
          if ob_state owner \<noteq> Ready \<or> ob_generation owner \<noteq> owner_generation ik then stale
          else case omap_get (r_indexes r) ik of
            Some ob \<Rightarrow>
              if ob_state ob = Building then
                (Reentrant_Build,
                 code_error ''ANALYSIS_CACHE_REENTRANT_BUILD'' ''lazy index key is already building in this engine'' no_error, r)
              else if ob_type ob \<noteq> type_tag then
                (Rejected,
                 code_error ''ANALYSIS_CACHE_TYPE_MISMATCH'' ''lazy index was requested with a different type'' no_error, r)
              else (Hit, no_error, hit_index ik ob r)
          | None \<Rightarrow>
              (case make_hard_room (charge (r_config r) build) (Some (index_owner ik)) None no_error (index_owner ik) None r of
                 (False, err, r1) \<Rightarrow> (Rejected, err, r1)
               | (True, err, r1) \<Rightarrow> (Build_Started, err, start_index ik type_tag build r1)))"

definition settle_index :: "index_key \<Rightarrow> 'v \<Rightarrow> nat \<Rightarrow> 'v repository \<Rightarrow> 'v repository" where
  "settle_index ik v resident r =
     (case omap_get (r_indexes r) ik of None \<Rightarrow> r
      | Some ob \<Rightarrow>
          let cfg = r_config r;
              ob1 = ob\<lparr>ob_state := Ready, ob_value := Some v, ob_resident := resident\<rparr>;
              r2 = on_stats (\<lambda>s. s\<lparr>st_index := st_index s + 1\<rparr>) (add_resident_bytes resident (put_index ik ob1 r));
              (n, r3) = next_access_sequence r2;
              r4 = touch_entry (index_owner ik) n (put_index ik (ob1\<lparr>ob_access := n\<rparr>) r3);
              combined = (case find_entry r4 (index_owner ik) of
                            None \<Rightarrow> charge cfg resident
                          | Some owner \<Rightarrow> sat_add (charge cfg (ob_resident owner)) (charge cfg resident));
              oversize = (soft_max_bytes cfg \<noteq> 0 \<and> soft_max_bytes cfg < combined);
              r5 = enforce_soft_budget (Some (index_owner ik)) (Some ik) r4;
              r6 = (if oversize then emit (index_event ''oversize_admitted'' ik ''soft_budget'' resident 0 0 0 0) r5 else r5)
          in emit (index_event ''index_build'' ik [] resident resident 0 n (owner_generation ik)) r6)"

definition return_index_build :: "index_key \<Rightarrow> 'v cache_object \<Rightarrow> 'v repository \<Rightarrow> 'v repository" where
  "return_index_build ik ob r = put_index ik (ob\<lparr>ob_build := 0\<rparr>) (remove_build_bytes (ob_build ob) r)"

definition del_index :: "index_key \<Rightarrow> 'v repository \<Rightarrow> 'v repository" where
  "del_index ik r = r\<lparr>r_indexes := omap_del ik (r_indexes r)\<rparr>"

definition publish_index ::
  "index_key \<Rightarrow> string \<Rightarrow> 'v option \<Rightarrow> nat \<Rightarrow> cache_error \<Rightarrow> 'v repository \<Rightarrow> bool \<times> cache_error \<times> 'v repository" where
  "publish_index ik type_tag value resident err r =
     (let invalid = (False, code_error ''ANALYSIS_CACHE_BUILD_STATE_INVALID''
                              ''index publish requires the matching building object'' err, r) in
      case (omap_get (r_indexes r) ik, value) of
        (Some ob, Some v) \<Rightarrow>
          if ob_state ob \<noteq> Building \<or> ob_type ob \<noteq> type_tag then invalid
          else (case make_hard_room (charge (r_config r) resident) (Some (index_owner ik)) (Some ik) err (index_owner ik) None
                       (return_index_build ik ob r) of
                  (False, err', r1) \<Rightarrow> (False, err', del_index ik r1)
                | (True, err', r1) \<Rightarrow> (True, err', settle_index ik v resident r1))
      | _ \<Rightarrow> invalid)"

definition update_index_build_bytes ::
  "index_key \<Rightarrow> nat \<Rightarrow> cache_error \<Rightarrow> 'v repository \<Rightarrow> bool \<times> cache_error \<times> 'v repository" where
  "update_index_build_bytes ik build err r =
     (let invalid = (False, code_error ''ANALYSIS_CACHE_BUILD_STATE_INVALID''
                              ''index build accounting requires a building object'' err, r) in
      case omap_get (r_indexes r) ik of
        None \<Rightarrow> invalid
      | Some ob \<Rightarrow>
          if ob_state ob \<noteq> Building then invalid
          else (case make_hard_room (charge (r_config r) build) (Some (index_owner ik)) (Some ik) err (index_owner ik) None
                       (return_index_build ik ob r) of
                  (False, err', r1) \<Rightarrow>
                    (False, err', emit (index_event ''build_failed'' ik ''hard_limit'' build 0 0 0 0) (del_index ik r1))
                | (True, err', r1) \<Rightarrow>
                    (True, err',
                     case omap_get (r_indexes r1) ik of None \<Rightarrow> r1
                     | Some ob1 \<Rightarrow> add_build_bytes build (put_index ik (ob1\<lparr>ob_build := build\<rparr>) r1))))"

definition fail_index :: "index_key \<Rightarrow> string \<Rightarrow> 'v repository \<Rightarrow> 'v repository" where
  "fail_index ik reason r =
     (case omap_get (r_indexes r) ik of None \<Rightarrow> r
      | Some ob \<Rightarrow>
          if ob_state ob \<noteq> Building then r
          else emit (index_event ''build_failed'' ik reason (ob_build ob) 0 0 0 0)
                 (del_index ik (remove_build_bytes (ob_build ob) r)))"

definition fail_index_bad_alloc :: "index_key \<Rightarrow> 'v repository \<Rightarrow> cache_error \<times> 'v repository" where
  "fail_index_bad_alloc ik r =
     (let r1 = fail_index ik ''bad_alloc'' r in (memory_error (index_owner ik) r1, r1))"

definition usable_index :: "index_key \<Rightarrow> string \<Rightarrow> 'v repository \<Rightarrow> 'v cache_object option" where
  "usable_index ik type_tag r =
     (case (omap_get (r_indexes r) ik, find_entry r (index_owner ik)) of
        (Some ob, Some owner) \<Rightarrow>
          if ob_state ob = Ready \<and> ob_type ob = type_tag \<and> ob_generation owner = owner_generation ik
          then Some ob else None
      | _ \<Rightarrow> None)"

definition find_index :: "index_key \<Rightarrow> string \<Rightarrow> 'v repository \<Rightarrow> 'v option \<times> 'v repository" where
  "find_index ik type_tag r =
     (case usable_index ik type_tag r of None \<Rightarrow> (None, r) | Some ob \<Rightarrow> (ob_value ob, hit_index ik ob r))"

definition peek_index :: "index_key \<Rightarrow> string \<Rightarrow> 'v repository \<Rightarrow> 'v option" where
  "peek_index ik type_tag r = Option.bind (usable_index ik type_tag r) ob_value"

section \<open>Cursors\<close>

definition touch_cursor :: "string \<Rightarrow> 'v repository \<Rightarrow> 'v repository" where
  "touch_cursor cid r =
     (let (n, r1) = next_access_sequence r in r1\<lparr>r_cursor_access := omap_put cid n (r_cursor_access r1)\<rparr>)"

definition put_cursor :: "generation_cursor \<Rightarrow> 'v repository \<Rightarrow> bool \<times> 'v repository" where
  "put_cursor c r =
     (if gc_id c = [] then (False, r)
      else
        let bytes = cursor_metadata_bytes c;
            old_bytes = (case omap_get (r_cursors r) (gc_id c) of None \<Rightarrow> 0 | Some old \<Rightarrow> cursor_metadata_bytes old);
            (ok, err, r1) = (if old_bytes < bytes
                             then make_hard_room (charge (r_config r) (bytes - old_bytes)) (Some (gc_key c)) None
                                    no_error (gc_key c) None r
                             else (True, no_error, r))
        in if \<not> ok then (False, r1)
           else
             let r2 = (case omap_get (r_cursors r1) (gc_id c) of
                         None \<Rightarrow> on_stats (\<lambda>s. s\<lparr>st_cursor := st_cursor s + 1\<rparr>) r1
                       | Some _ \<Rightarrow> remove_metadata_bytes old_bytes r1);
                 r3 = touch_cursor (gc_id c) (r2\<lparr>r_cursors := omap_put (gc_id c) c (r_cursors r2)\<rparr>)
             in (True, add_metadata_bytes bytes r3))"

definition get_cursor :: "string \<Rightarrow> 'v repository \<Rightarrow> generation_cursor option" where
  "get_cursor cid r = omap_get (r_cursors r) cid"

definition resume_cursor ::
  "string \<Rightarrow> cache_key \<Rightarrow> nat \<Rightarrow> 'v repository \<Rightarrow> generation_cursor option \<times> 'v repository" where
  "resume_cursor cid rebuilt_key rebuilt_generation r =
     (case omap_get (r_cursors r) cid of None \<Rightarrow> (None, r)
      | Some c \<Rightarrow>
          if gc_key c \<noteq> rebuilt_key then (None, r)
          else let c' = c\<lparr>gc_generation := rebuilt_generation\<rparr>
               in (Some c', touch_cursor cid (r\<lparr>r_cursors := omap_put cid c' (r_cursors r)\<rparr>)))"

definition erase_cursor :: "string \<Rightarrow> 'v repository \<Rightarrow> 'v repository" where
  "erase_cursor cid r =
     (case omap_get (r_cursors r) cid of None \<Rightarrow> r
      | Some c \<Rightarrow> erase_generation_if_unreferenced (gc_key c) (drop_cursor cid r))"

section \<open>Invalidation, configuration changes and statistics\<close>

definition invalidate :: "cache_key \<Rightarrow> string \<Rightarrow> 'v repository \<Rightarrow> 'v repository" where
  "invalidate key reason r = erase_canonical_internal key reason True (drop_tombstone key r)"

text \<open>
  The loop erases the first key of a store while there is one; the number of objects in the store is
  enough fuel, as every key of a store is found in it.
\<close>

fun clear_store :: "nat \<Rightarrow> string \<Rightarrow> store \<Rightarrow> 'v repository \<Rightarrow> 'v repository" where
  "clear_store 0 reason s r = r"
| "clear_store (Suc fuel) reason s r =
     (case r_entries r s of [] \<Rightarrow> r
      | (k, ob) # m \<Rightarrow> clear_store fuel reason s (erase_canonical_internal k reason True r))"

definition clear_repository :: "string \<Rightarrow> 'v repository \<Rightarrow> 'v repository" where
  "clear_repository reason r =
     (let r1 = fold (\<lambda>s q. clear_store (length (r_entries q s)) reason s q) all_stores r
      in r1\<lparr>r_indexes := [], r_cursors := [], r_cursor_access := [], r_bindings := [], r_evicted := [],
            r_generations := [], r_stats := no_stats\<lparr>st_access := r_sequence r1\<rparr>\<rparr>)"

definition session_bindings :: "string \<Rightarrow> 'v repository \<Rightarrow> (string, string) omap" where
  "session_bindings sess r = (case omap_get (r_bindings r) sess of None \<Rightarrow> [] | Some bs \<Rightarrow> bs)"

definition bind_config :: "string \<Rightarrow> string \<Rightarrow> string \<Rightarrow> 'v repository \<Rightarrow> 'v repository" where
  "bind_config sess name new_digest r =
     (let bs = session_bindings sess r;
          r1 = (case omap_get bs name of
                  Some old \<Rightarrow> remove_metadata_bytes (binding_metadata_bytes sess name old) r
                | None \<Rightarrow> on_stats (\<lambda>s. s\<lparr>st_binding := st_binding s + 1\<rparr>) r);
          r2 = r1\<lparr>r_bindings := omap_put sess (omap_put name new_digest bs) (r_bindings r1)\<rparr>;
          r3 = add_metadata_bytes (binding_metadata_bytes sess name new_digest) r2;
          r4 = evict_to_budget (hard_max_bytes (r_config r3)) 0 None None ''hard_limit'' None None r3
      in release_metadata 0 None r4)"

text \<open>The digests that lost a binding, each once in their order.\<close>

definition old_digests :: "(string \<times> string \<times> string) list \<Rightarrow> string list" where
  "old_digests changes =
     remdups (sort (map (\<lambda>(name, old, new). old) (filter (\<lambda>(name, old, new). old \<noteq> [] \<and> old \<noteq> new) changes)))"

definition drop_unbound :: "string \<Rightarrow> string \<Rightarrow> 'v repository \<Rightarrow> 'v repository" where
  "drop_unbound sess old_digest r =
     (if list_ex (\<lambda>b. snd b = old_digest) (session_bindings sess r) then r
      else fold (\<lambda>k. invalidate k ''stream_config_changed'')
             (filter (\<lambda>k. session_id k = sess \<and> semantic_digest k = old_digest)
                (map fst (r_entries r Stream_Entries))) r)"

definition notify_stream_config_changes ::
  "string \<Rightarrow> (string \<times> string \<times> string) list \<Rightarrow> 'v repository \<Rightarrow> 'v repository" where
  "notify_stream_config_changes sess changes r =
     fold (drop_unbound sess) (old_digests changes)
       (fold (\<lambda>(name, old, new). bind_config sess name new) changes r)"

definition repository_stats_of :: "'v repository \<Rightarrow> repository_stats" where
  "repository_stats_of r = (r_stats r)\<lparr>st_access := r_sequence r\<rparr>"

text \<open>The statistics recomputed from the maps, with the saturating sums of the source.\<close>

definition count_object ::
  "cache_config \<Rightarrow> (repository_stats \<Rightarrow> repository_stats) \<Rightarrow> ('v, 'z) cache_object_scheme \<Rightarrow> repository_stats \<Rightarrow>
   repository_stats" where
  "count_object cfg ready ob s =
     (let s1 = (if ob_state ob = Ready then ready s else s)
      in s1\<lparr>st_resident := sat_add (st_resident s1) (ob_resident ob),
            st_build := sat_add (st_build s1) (ob_build ob),
            st_charged := sat_add (sat_add (st_charged s1) (charge cfg (ob_resident ob))) (charge cfg (ob_build ob))\<rparr>)"

definition count_metadata :: "cache_config \<Rightarrow> nat \<Rightarrow> repository_stats \<Rightarrow> repository_stats" where
  "count_metadata cfg bytes s =
     s\<lparr>st_metadata := sat_add (st_metadata s) bytes, st_charged := sat_add (st_charged s) (charge cfg bytes)\<rparr>"

definition debug_recomputed_stats :: "'v repository \<Rightarrow> repository_stats" where
  "debug_recomputed_stats r =
     (let cfg = r_config r;
          s1 = fold (\<lambda>p. count_object cfg (\<lambda>s. s\<lparr>st_canonical := st_canonical s + 1\<rparr>) (snd p))
                 (concat (map (r_entries r) all_stores)) no_stats;
          s2 = fold (\<lambda>p. count_object cfg (\<lambda>s. s\<lparr>st_index := st_index s + 1\<rparr>) (snd p)) (r_indexes r) s1;
          s3 = s2\<lparr>st_generation := length (r_generations r), st_cursor := length (r_cursors r),
                  st_tombstone := length (r_evicted r)\<rparr>;
          s4 = fold (\<lambda>p. count_metadata cfg (key_metadata_bytes (fst p))) (r_generations r) s3;
          s5 = fold (\<lambda>p. count_metadata cfg (cursor_metadata_bytes (snd p))) (r_cursors r) s4;
          s6 = fold (\<lambda>(sess, bs). fold (\<lambda>(name, dig) s.
                        count_metadata cfg (binding_metadata_bytes sess name dig) (s\<lparr>st_binding := st_binding s + 1\<rparr>)) bs)
                 (r_bindings r) s5;
          s7 = fold (\<lambda>p. count_metadata cfg (key_metadata_bytes (fst p))) (r_evicted r) s6
      in s7\<lparr>st_access := r_sequence r\<rparr>)"

end
