(* ===== verification/Repository_Accounting.thy ===== *)
theory Repository_Accounting
  imports Analysis_Repository
begin

text \<open>
  The byte accounting of the analysis cache: every counter of the statistics is the sum of a weight
  over the objects the maps hold, as long as the sums fit 64 bits.  A potential (the charged bytes and
  a tombstone for every canonical object) bounds them: eviction never raises it, and every request
  raises it by at most its own cost.
\<close>

section \<open>Weights and sums\<close>

record 'v weights =
  w_entry :: "cache_key \<Rightarrow> 'v canonical_object \<Rightarrow> nat"
  w_index :: "'v cache_object \<Rightarrow> nat"
  w_gen :: "cache_key \<Rightarrow> nat"
  w_tomb :: "cache_key \<Rightarrow> nat"
  w_cursor :: "generation_cursor \<Rightarrow> nat"
  w_bind :: "string \<Rightarrow> string \<Rightarrow> string \<Rightarrow> nat"

definition no_weight :: "'v weights" where
  "no_weight = \<lparr>w_entry = \<lambda>_ _. 0, w_index = \<lambda>_. 0, w_gen = \<lambda>_. 0, w_tomb = \<lambda>_. 0, w_cursor = \<lambda>_. 0,
     w_bind = \<lambda>_ _ _. 0\<rparr>"

definition tally :: "'v weights \<Rightarrow> 'v repository \<Rightarrow> nat" where
  "tally w r =
     sum_list (map (\<lambda>s. omap_total (w_entry w) (r_entries r s)) all_stores) +
     omap_total (\<lambda>_. w_index w) (r_indexes r) + omap_total (\<lambda>k _. w_gen w k) (r_generations r) +
     omap_total (\<lambda>k _. w_tomb w k) (r_evicted r) + omap_total (\<lambda>_. w_cursor w) (r_cursors r) +
     omap_total (\<lambda>s. omap_total (w_bind w s)) (r_bindings r)"

definition W_resident :: "'v weights" where
  "W_resident = no_weight\<lparr>w_entry := \<lambda>_. ob_resident, w_index := ob_resident\<rparr>"

definition W_build :: "'v weights" where
  "W_build = no_weight\<lparr>w_entry := \<lambda>_. ob_build, w_index := ob_build\<rparr>"

definition W_metadata :: "'v weights" where
  "W_metadata = no_weight\<lparr>w_gen := key_metadata_bytes, w_tomb := key_metadata_bytes,
     w_cursor := cursor_metadata_bytes, w_bind := binding_metadata_bytes\<rparr>"

definition both_charges :: "cache_config \<Rightarrow> ('v, 'z) cache_object_scheme \<Rightarrow> nat" where
  "both_charges cfg ob = charge cfg (ob_resident ob) + charge cfg (ob_build ob)"

definition W_charged :: "cache_config \<Rightarrow> 'v weights" where
  "W_charged cfg =
     \<lparr>w_entry = \<lambda>_. both_charges cfg, w_index = both_charges cfg,
      w_gen = \<lambda>k. charge cfg (key_metadata_bytes k), w_tomb = \<lambda>k. charge cfg (key_metadata_bytes k),
      w_cursor = \<lambda>c. charge cfg (cursor_metadata_bytes c),
      w_bind = \<lambda>s n d. charge cfg (binding_metadata_bytes s n d)\<rparr>"

definition ready_count :: "('v, 'z) cache_object_scheme \<Rightarrow> nat" where
  "ready_count ob = (if ob_state ob = Ready then 1 else 0)"

definition W_canonical :: "'v weights" where
  "W_canonical = no_weight\<lparr>w_entry := \<lambda>_. ready_count\<rparr>"

definition W_index :: "'v weights" where
  "W_index = no_weight\<lparr>w_index := ready_count\<rparr>"

definition W_generation :: "'v weights" where
  "W_generation = no_weight\<lparr>w_gen := \<lambda>_. 1\<rparr>"

definition W_tombstone :: "'v weights" where
  "W_tombstone = no_weight\<lparr>w_tomb := \<lambda>_. 1\<rparr>"

definition W_cursor :: "'v weights" where
  "W_cursor = no_weight\<lparr>w_cursor := \<lambda>_. 1\<rparr>"

definition W_binding :: "'v weights" where
  "W_binding = no_weight\<lparr>w_bind := \<lambda>_ _ _. 1\<rparr>"

definition W_potential :: "cache_config \<Rightarrow> 'v weights" where
  "W_potential cfg =
     (W_charged cfg)\<lparr>w_entry := \<lambda>k ob. both_charges cfg ob + charge cfg (key_metadata_bytes k)\<rparr>"

lemmas weight_defs =
  no_weight_def W_resident_def W_build_def W_metadata_def W_charged_def W_canonical_def W_index_def
  W_generation_def W_tombstone_def W_cursor_def W_binding_def W_potential_def

lemma weight_sel [simp]:
  "w_entry W_resident = (\<lambda>_. ob_resident)" "w_index W_resident = (ob_resident)" "w_gen W_resident = (\<lambda>_. 0)"
  "w_tomb W_resident = (\<lambda>_. 0)" "w_cursor W_resident = (\<lambda>_. 0)" "w_bind W_resident = (\<lambda>_ _ _. 0)"
  "w_entry W_build = (\<lambda>_. ob_build)" "w_index W_build = (ob_build)" "w_gen W_build = (\<lambda>_. 0)"
  "w_tomb W_build = (\<lambda>_. 0)" "w_cursor W_build = (\<lambda>_. 0)" "w_bind W_build = (\<lambda>_ _ _. 0)"
  "w_entry W_metadata = (\<lambda>_ _. 0)" "w_index W_metadata = (\<lambda>_. 0)" "w_gen W_metadata = (key_metadata_bytes)"
  "w_tomb W_metadata = (key_metadata_bytes)" "w_cursor W_metadata = (cursor_metadata_bytes)" "w_bind W_metadata = (binding_metadata_bytes)"
  "w_entry (W_charged cfg) = (\<lambda>_. both_charges cfg)" "w_index (W_charged cfg) = (both_charges cfg)" "w_gen (W_charged cfg) = (\<lambda>k. charge cfg (key_metadata_bytes k))"
  "w_tomb (W_charged cfg) = (\<lambda>k. charge cfg (key_metadata_bytes k))" "w_cursor (W_charged cfg) = (\<lambda>c. charge cfg (cursor_metadata_bytes c))" "w_bind (W_charged cfg) = (\<lambda>s n d. charge cfg (binding_metadata_bytes s n d))"
  "w_entry (W_potential cfg) = (\<lambda>k ob. both_charges cfg ob + charge cfg (key_metadata_bytes k))" "w_index (W_potential cfg) = (both_charges cfg)" "w_gen (W_potential cfg) = (\<lambda>k. charge cfg (key_metadata_bytes k))"
  "w_tomb (W_potential cfg) = (\<lambda>k. charge cfg (key_metadata_bytes k))" "w_cursor (W_potential cfg) = (\<lambda>c. charge cfg (cursor_metadata_bytes c))" "w_bind (W_potential cfg) = (\<lambda>s n d. charge cfg (binding_metadata_bytes s n d))"
  "w_entry W_canonical = (\<lambda>_. ready_count)" "w_index W_canonical = (\<lambda>_. 0)" "w_gen W_canonical = (\<lambda>_. 0)"
  "w_tomb W_canonical = (\<lambda>_. 0)" "w_cursor W_canonical = (\<lambda>_. 0)" "w_bind W_canonical = (\<lambda>_ _ _. 0)"
  "w_entry W_index = (\<lambda>_ _. 0)" "w_index W_index = (ready_count)" "w_gen W_index = (\<lambda>_. 0)"
  "w_tomb W_index = (\<lambda>_. 0)" "w_cursor W_index = (\<lambda>_. 0)" "w_bind W_index = (\<lambda>_ _ _. 0)"
  "w_entry W_generation = (\<lambda>_ _. 0)" "w_index W_generation = (\<lambda>_. 0)" "w_gen W_generation = (\<lambda>_. 1)"
  "w_tomb W_generation = (\<lambda>_. 0)" "w_cursor W_generation = (\<lambda>_. 0)" "w_bind W_generation = (\<lambda>_ _ _. 0)"
  "w_entry W_tombstone = (\<lambda>_ _. 0)" "w_index W_tombstone = (\<lambda>_. 0)" "w_gen W_tombstone = (\<lambda>_. 0)"
  "w_tomb W_tombstone = (\<lambda>_. 1)" "w_cursor W_tombstone = (\<lambda>_. 0)" "w_bind W_tombstone = (\<lambda>_ _ _. 0)"
  "w_entry W_cursor = (\<lambda>_ _. 0)" "w_index W_cursor = (\<lambda>_. 0)" "w_gen W_cursor = (\<lambda>_. 0)"
  "w_tomb W_cursor = (\<lambda>_. 0)" "w_cursor W_cursor = (\<lambda>_. 1)" "w_bind W_cursor = (\<lambda>_ _ _. 0)"
  "w_entry W_binding = (\<lambda>_ _. 0)" "w_index W_binding = (\<lambda>_. 0)" "w_gen W_binding = (\<lambda>_. 0)"
  "w_tomb W_binding = (\<lambda>_. 0)" "w_cursor W_binding = (\<lambda>_. 0)" "w_bind W_binding = (\<lambda>_ _ _. 1)"
  by (simp_all add: weight_defs)

definition potential :: "'v repository \<Rightarrow> nat" where
  "potential r = tally (W_potential (r_config r)) r"

definition exact :: "'v repository \<Rightarrow> bool" where
  "exact r \<longleftrightarrow>
     st_resident (r_stats r) = tally W_resident r \<and> st_build (r_stats r) = tally W_build r \<and>
     st_metadata (r_stats r) = tally W_metadata r \<and> st_charged (r_stats r) = tally (W_charged (r_config r)) r \<and>
     st_canonical (r_stats r) = tally W_canonical r \<and> st_index (r_stats r) = tally W_index r \<and>
     st_generation (r_stats r) = tally W_generation r \<and> st_tombstone (r_stats r) = tally W_tombstone r \<and>
     st_cursor (r_stats r) = tally W_cursor r \<and> st_binding (r_stats r) = tally W_binding r"

text \<open>An object that is being built holds no resident bytes, a ready one no build bytes.\<close>

definition phase_ok :: "('v, 'z) cache_object_scheme \<Rightarrow> bool" where
  "phase_ok ob \<longleftrightarrow>
     (ob_state ob = Building \<longrightarrow> ob_resident ob = 0) \<and>
     (ob_state ob = Ready \<longrightarrow> ob_build ob = 0 \<and> ob_value ob \<noteq> None)"

definition entries_ok :: "'v repository \<Rightarrow> bool" where
  "entries_ok r \<longleftrightarrow> (\<forall>s. omap_ok (r_entries r s) \<and>
     (\<forall>k ob. omap_get (r_entries r s) k = Some ob \<longrightarrow>
        canonical_store_for_protocol (protocol k) = Some s \<and> phase_ok ob))"

definition indexes_ok :: "'v repository \<Rightarrow> bool" where
  "indexes_ok r \<longleftrightarrow> omap_ok (r_indexes r) \<and> (\<forall>ik ob. omap_get (r_indexes r) ik = Some ob \<longrightarrow> phase_ok ob)"

definition bindings_ok :: "'v repository \<Rightarrow> bool" where
  "bindings_ok r \<longleftrightarrow> omap_ok (r_bindings r) \<and>
     (\<forall>s bs. omap_get (r_bindings r) s = Some bs \<longrightarrow> omap_ok bs \<and> bs \<noteq> [])"

definition well_formed :: "'v repository \<Rightarrow> bool" where
  "well_formed r \<longleftrightarrow> entries_ok r \<and> indexes_ok r \<and> omap_ok (r_generations r) \<and> omap_ok (r_evicted r) \<and>
     omap_ok (r_cursors r) \<and> omap_ok (r_cursor_access r) \<and> bindings_ok r"

definition safe :: "'v repository \<Rightarrow> bool" where
  "safe r \<longleftrightarrow> well_formed r \<and> exact r \<and> potential r < umax \<and> 1 \<le> estimator_safety_factor (r_config r)"

section \<open>Charges\<close>

lemma charge_0 [simp]: "charge cfg 0 = 0"
  by (simp add: charge_def)

lemma charge_le_umax: "charge cfg b \<le> umax"
proof -
  have "nat \<lceil>q\<rceil> \<le> umax" if "q < rat_of_nat umax" for q
    using that by (metis ceiling_le_iff less_imp_le nat_le_iff of_int_of_nat_eq)
  then show ?thesis by (simp add: charge_def Let_def not_le)
qed

lemma charge_ge:
  assumes "1 \<le> estimator_safety_factor cfg" "b \<le> umax"
  shows "b \<le> charge cfg b"
proof -
  have "rat_of_nat b * 1 \<le> rat_of_nat b * estimator_safety_factor cfg"
    using assms(1) by (intro mult_left_mono) simp_all
  then have "int b \<le> \<lceil>rat_of_nat b * estimator_safety_factor cfg\<rceil>"
    by (metis mult.right_neutral of_int_of_nat_eq ceiling_mono ceiling_of_int)
  then show ?thesis using assms(2) by (auto simp: charge_def Let_def)
qed

lemma sat_add_exact: "a + b \<le> umax \<Longrightarrow> sat_add a b = a + b"
  unfolding sat_add_def by arith

lemma sat_add_0 [simp]: "sat_add a 0 = a"
  by (simp add: sat_add_def)

lemma sat_add_le: "sat_add a b \<le> n \<Longrightarrow> n < umax \<Longrightarrow> a + b \<le> n"
  unfolding sat_add_def by (simp split: if_splits)

section \<open>Sums under updates of the maps\<close>

text \<open>Sums depend on the maps only.\<close>

lemma tally_cong:
  "r_entries r = r_entries q \<Longrightarrow> r_indexes r = r_indexes q \<Longrightarrow> r_generations r = r_generations q \<Longrightarrow>
   r_evicted r = r_evicted q \<Longrightarrow> r_cursors r = r_cursors q \<Longrightarrow> r_bindings r = r_bindings q \<Longrightarrow>
   tally w r = tally w q"
  by (simp add: tally_def)

lemma tally_simps [simp]:
  "tally w (on_stats f r) = tally w r" "tally w (emit e r) = tally w r"
  "tally w (r\<lparr>r_sequence := n\<rparr>) = tally w r" "tally w (r\<lparr>r_cursor_access := m\<rparr>) = tally w r"
  "tally w (r\<lparr>r_stats := s\<rparr>) = tally w r"
  by (rule tally_cong; simp add: repo_simps)+

lemma canonical_store_in: "s \<in> set all_stores"
  by (cases s) (simp_all add: all_stores_def)

lemma tally_entries:
  fixes r :: "'v repository"
  shows "tally w (r\<lparr>r_entries := (r_entries r)(s := m)\<rparr>) + omap_total (w_entry w) (r_entries r s)
       = tally w r + omap_total (w_entry w) m"
  by (cases s) (simp_all add: tally_def all_stores_def)

lemma find_entryD:
  assumes "find_entry r key = Some ob"
  obtains s where "canonical_store_for_protocol (protocol key) = Some s" "omap_get (r_entries r s) key = Some ob"
  using assms by (auto simp: find_entry_def split: option.splits)

lemma tally_del_entry:
  assumes "entries_ok r" "find_entry r key = Some ob"
  shows "tally w (del_entry key r) + w_entry w key ob = tally w r"
proof -
  obtain s where s: "canonical_store_for_protocol (protocol key) = Some s" "omap_get (r_entries r s) key = Some ob"
    using assms(2) by (rule find_entryD)
  have "omap_total (w_entry w) (omap_del key (r_entries r s)) + w_entry w key ob = omap_total (w_entry w) (r_entries r s)"
    using assms(1) s(2) by (intro omap.total_del) (auto simp: entries_ok_def)
  with tally_entries [of w r s "omap_del key (r_entries r s)"] s(1) show ?thesis by (simp add: del_entry_def)
qed

lemma tally_put_entry:
  assumes "entries_ok r" "canonical_store_for_protocol (protocol key) \<noteq> None"
  shows "tally w (put_entry key ob r) + (case find_entry r key of None \<Rightarrow> 0 | Some u \<Rightarrow> w_entry w key u)
       = tally w r + w_entry w key ob"
proof -
  obtain s where s: "canonical_store_for_protocol (protocol key) = Some s" using assms(2) by blast
  have ok: "omap_ok (r_entries r s)" using assms(1) by (simp add: entries_ok_def)
  have "omap_total (w_entry w) (omap_put key ob (r_entries r s)) +
      (case omap_get (r_entries r s) key of None \<Rightarrow> 0 | Some u \<Rightarrow> w_entry w key u)
      = omap_total (w_entry w) (r_entries r s) + w_entry w key ob"
    using omap.total_put_new [of "r_entries r s" key "w_entry w" ob]
      omap.total_put_old [OF ok, of key _ "w_entry w" ob] by (auto split: option.splits)
  with tally_entries [of w r s "omap_put key ob (r_entries r s)"] s show ?thesis
    by (simp add: put_entry_def find_entry_def)
qed

lemma tally_index:
  "tally w (r\<lparr>r_indexes := m\<rparr>) + omap_total (\<lambda>_. w_index w) (r_indexes r) = tally w r + omap_total (\<lambda>_. w_index w) m"
  by (simp add: tally_def)

lemma tally_del_index:
  assumes "indexes_ok r" "omap_get (r_indexes r) ik = Some ob"
  shows "tally w (del_index ik r) + w_index w ob = tally w r"
  using tally_index [of w "omap_del ik (r_indexes r)" r] omap.total_del [of "r_indexes r" ik ob "\<lambda>_. w_index w"] assms
  by (simp add: del_index_def indexes_ok_def)

lemma tally_put_index:
  assumes "indexes_ok r"
  shows "tally w (put_index ik ob r) + (case omap_get (r_indexes r) ik of None \<Rightarrow> 0 | Some u \<Rightarrow> w_index w u)
       = tally w r + w_index w ob"
  using tally_index [of w "omap_put ik ob (r_indexes r)" r] assms
    omap.total_put_new [of "r_indexes r" ik "\<lambda>_. w_index w" ob]
    omap.total_put_old [of "r_indexes r" ik _ "\<lambda>_. w_index w" ob]
  by (auto simp: put_index_def indexes_ok_def split: option.splits)

lemma tally_del_generation:
  assumes "omap_ok (r_generations r)" "omap_get (r_generations r) key = Some g"
  shows "tally w (r\<lparr>r_generations := omap_del key (r_generations r)\<rparr>) + w_gen w key = tally w r"
  using omap.total_del [OF assms, of "\<lambda>k _. w_gen w k"] by (simp add: tally_def)

lemma tally_put_generation:
  assumes "omap_ok (r_generations r)"
  shows "tally w (r\<lparr>r_generations := omap_put key g (r_generations r)\<rparr>) =
         tally w r + (if omap_get (r_generations r) key = None then w_gen w key else 0)"
  using omap.total_put_new [of "r_generations r" key "\<lambda>k _. w_gen w k" g]
    omap.total_put_old [OF assms, of key _ "\<lambda>k _. w_gen w k" g] by (auto simp: tally_def)

lemma tally_del_tombstone:
  assumes "omap_ok (r_evicted r)" "omap_get (r_evicted r) key = Some g"
  shows "tally w (r\<lparr>r_evicted := omap_del key (r_evicted r)\<rparr>) + w_tomb w key = tally w r"
  using omap.total_del [OF assms, of "\<lambda>k _. w_tomb w k"] by (simp add: tally_def)

lemma tally_put_tombstone:
  assumes "omap_ok (r_evicted r)"
  shows "tally w (r\<lparr>r_evicted := omap_put key g (r_evicted r)\<rparr>) =
         tally w r + (if omap_get (r_evicted r) key = None then w_tomb w key else 0)"
  using omap.total_put_new [of "r_evicted r" key "\<lambda>k _. w_tomb w k" g]
    omap.total_put_old [OF assms, of key _ "\<lambda>k _. w_tomb w k" g] by (auto simp: tally_def)

lemma tally_del_cursor:
  assumes "omap_ok (r_cursors r)" "omap_get (r_cursors r) cid = Some c"
  shows "tally w (r\<lparr>r_cursors := omap_del cid (r_cursors r)\<rparr>) + w_cursor w c = tally w r"
  using omap.total_del [OF assms, of "\<lambda>_. w_cursor w"] by (simp add: tally_def)

lemma tally_put_cursor:
  assumes "omap_ok (r_cursors r)"
  shows "tally w (r\<lparr>r_cursors := omap_put cid c (r_cursors r)\<rparr>) +
           (case omap_get (r_cursors r) cid of None \<Rightarrow> 0 | Some u \<Rightarrow> w_cursor w u) = tally w r + w_cursor w c"
  using omap.total_put_new [of "r_cursors r" cid "\<lambda>_. w_cursor w" c]
    omap.total_put_old [OF assms, of cid _ "\<lambda>_. w_cursor w" c] by (auto simp: tally_def split: option.splits)
section \<open>The counters follow the sums\<close>

lemma omap_total_le:
  "(\<And>k v. f k v \<le> g k v \<or> B \<le> g k v) \<Longrightarrow> omap_total g m < B \<Longrightarrow> omap_total f m \<le> omap_total g m"
proof (induction m)
  case (Cons p m)
  obtain k v where p: "p = (k, v)" by fastforce
  from Cons.prems(2) have "g k v < B" "omap_total g m < B" by (simp_all add: p)
  with Cons.prems(1) [of k v] Cons.IH [OF Cons.prems(1)] show ?case by (simp add: p)
qed simp

lemma charge_ge_or_big: "1 \<le> estimator_safety_factor cfg \<Longrightarrow> b \<le> charge cfg b \<or> umax \<le> charge cfg b"
proof (cases "b \<le> umax")
  case False
  assume f: "1 \<le> estimator_safety_factor cfg"
  have "rat_of_nat umax * 1 \<le> rat_of_nat b * estimator_safety_factor cfg"
    using False f by (intro mult_mono) simp_all
  with False show ?thesis by (simp add: charge_def Let_def)
qed (simp add: charge_ge)

lemma both_charges_ge:
  assumes "1 \<le> estimator_safety_factor cfg"
  shows "ob_resident ob \<le> both_charges cfg ob \<or> umax \<le> both_charges cfg ob"
    and "ob_build ob \<le> both_charges cfg ob \<or> umax \<le> both_charges cfg ob"
  using charge_ge_or_big [OF assms, of "ob_resident ob"] charge_ge_or_big [OF assms, of "ob_build ob"]
  by (auto simp: both_charges_def)

text \<open>A weight that charges dominate has a sum below the charged bytes.\<close>

definition dominated :: "cache_config \<Rightarrow> 'v weights \<Rightarrow> bool" where
  "dominated cfg w \<longleftrightarrow>
     (\<forall>k c. w_entry w k c \<le> both_charges cfg c \<or> umax \<le> both_charges cfg c) \<and>
     (\<forall>ob. w_index w ob \<le> both_charges cfg ob \<or> umax \<le> both_charges cfg ob) \<and>
     (\<forall>k. w_gen w k \<le> charge cfg (key_metadata_bytes k) \<or> umax \<le> charge cfg (key_metadata_bytes k)) \<and>
     (\<forall>k. w_tomb w k \<le> charge cfg (key_metadata_bytes k) \<or> umax \<le> charge cfg (key_metadata_bytes k)) \<and>
     (\<forall>c. w_cursor w c \<le> charge cfg (cursor_metadata_bytes c) \<or> umax \<le> charge cfg (cursor_metadata_bytes c)) \<and>
     (\<forall>s n d. w_bind w s n d \<le> charge cfg (binding_metadata_bytes s n d) \<or>
              umax \<le> charge cfg (binding_metadata_bytes s n d))"

lemma dominated_weights:
  "1 \<le> estimator_safety_factor cfg \<Longrightarrow> dominated cfg W_resident"
  "1 \<le> estimator_safety_factor cfg \<Longrightarrow> dominated cfg W_build"
  "1 \<le> estimator_safety_factor cfg \<Longrightarrow> dominated cfg W_metadata"
  by (simp_all add: dominated_def both_charges_ge charge_ge_or_big)

lemma tally_parts:
  "omap_total (w_entry w) (r_entries r s) \<le> tally w r"
  "omap_total (\<lambda>_. w_index w) (r_indexes r) \<le> tally w r"
  "omap_total (\<lambda>k _. w_gen w k) (r_generations r) \<le> tally w r"
  "omap_total (\<lambda>k _. w_tomb w k) (r_evicted r) \<le> tally w r"
  "omap_total (\<lambda>_. w_cursor w) (r_cursors r) \<le> tally w r"
  "omap_total (\<lambda>s. omap_total (w_bind w s)) (r_bindings r) \<le> tally w r"
  by (cases s; simp add: tally_def all_stores_def) (simp_all add: tally_def)

lemma tally_mono:
  assumes "\<And>s. omap_total (w_entry w) (r_entries r s) \<le> omap_total (w_entry w') (r_entries r s)"
    and "omap_total (\<lambda>_. w_index w) (r_indexes r) \<le> omap_total (\<lambda>_. w_index w') (r_indexes r)"
    and "omap_total (\<lambda>k _. w_gen w k) (r_generations r) \<le> omap_total (\<lambda>k _. w_gen w' k) (r_generations r)"
    and "omap_total (\<lambda>k _. w_tomb w k) (r_evicted r) \<le> omap_total (\<lambda>k _. w_tomb w' k) (r_evicted r)"
    and "omap_total (\<lambda>_. w_cursor w) (r_cursors r) \<le> omap_total (\<lambda>_. w_cursor w') (r_cursors r)"
    and "omap_total (\<lambda>s. omap_total (w_bind w s)) (r_bindings r) \<le> omap_total (\<lambda>s. omap_total (w_bind w' s)) (r_bindings r)"
  shows "tally w r \<le> tally w' r"
  unfolding tally_def using assms by (intro add_mono sum_list_mono) simp_all

lemma dominated_tally:
  assumes d: "dominated cfg w" and lt: "tally (W_charged cfg) r < umax"
  shows "tally w r \<le> tally (W_charged cfg) r"
proof (rule tally_mono)
  note below = tally_parts [of "W_charged cfg" r, THEN le_less_trans, OF lt]
  show "omap_total (w_entry w) (r_entries r s) \<le> omap_total (w_entry (W_charged cfg)) (r_entries r s)" for s
    by (rule omap_total_le [OF _ below(1)]) (use d in \<open>simp add: dominated_def\<close>)
  show "omap_total (\<lambda>_. w_index w) (r_indexes r) \<le> omap_total (\<lambda>_. w_index (W_charged cfg)) (r_indexes r)"
    by (rule omap_total_le [OF _ below(2)]) (use d in \<open>simp add: dominated_def\<close>)
  show "omap_total (\<lambda>k _. w_gen w k) (r_generations r) \<le> omap_total (\<lambda>k _. w_gen (W_charged cfg) k) (r_generations r)"
    by (rule omap_total_le [where f = "\<lambda>k _. w_gen w k" and B = umax]) (use d below(3) in \<open>simp_all add: dominated_def\<close>)
  show "omap_total (\<lambda>k _. w_tomb w k) (r_evicted r) \<le> omap_total (\<lambda>k _. w_tomb (W_charged cfg) k) (r_evicted r)"
    by (rule omap_total_le [where f = "\<lambda>k _. w_tomb w k" and B = umax]) (use d below(4) in \<open>simp_all add: dominated_def\<close>)
  show "omap_total (\<lambda>_. w_cursor w) (r_cursors r) \<le> omap_total (\<lambda>_. w_cursor (W_charged cfg)) (r_cursors r)"
    by (rule omap_total_le [where f = "\<lambda>_. w_cursor w" and B = umax]) (use d below(5) in \<open>simp_all add: dominated_def\<close>)
  have inner: "omap_total (w_bind w s) bs \<le> omap_total (w_bind (W_charged cfg) s) bs \<or>
      umax \<le> omap_total (w_bind (W_charged cfg) s) bs" for s bs
  proof (cases "umax \<le> omap_total (w_bind (W_charged cfg) s) bs")
    case False
    then have "omap_total (w_bind (W_charged cfg) s) bs < umax" by simp
    from omap_total_le [OF _ this, of "w_bind w s"] d show ?thesis by (simp add: dominated_def)
  qed simp
  show "omap_total (\<lambda>s. omap_total (w_bind w s)) (r_bindings r) \<le>
      omap_total (\<lambda>s. omap_total (w_bind (W_charged cfg) s)) (r_bindings r)"
    by (rule omap_total_le [where f = "\<lambda>s. omap_total (w_bind w s)" and B = umax]) (use inner below(6) in simp_all)
qed

lemma charged_le_potential: "tally (W_charged cfg) r \<le> tally (W_potential cfg) r"
proof (rule tally_mono)
  show "omap_total (w_entry (W_charged cfg)) (r_entries r s) \<le> omap_total (w_entry (W_potential cfg)) (r_entries r s)" for s
    by (rule omap_total_le [where B = "Suc (omap_total (w_entry (W_potential cfg)) (r_entries r s))"]) simp_all
qed simp_all

lemma bytes_below:
  assumes "potential r < umax" "1 \<le> estimator_safety_factor (r_config r)"
  shows "tally (W_charged (r_config r)) r < umax" "tally W_resident r < umax" "tally W_build r < umax"
    "tally W_metadata r < umax"
proof -
  show c: "tally (W_charged (r_config r)) r < umax"
    using charged_le_potential [of "r_config r" r] assms(1) by (simp add: potential_def)
  show "tally W_resident r < umax" "tally W_build r < umax" "tally W_metadata r < umax"
    using dominated_tally [OF dominated_weights(1) [OF assms(2)] c]
      dominated_tally [OF dominated_weights(2) [OF assms(2)] c]
      dominated_tally [OF dominated_weights(3) [OF assms(2)] c] c by simp_all
qed

lemma minus_min [simp]: "(n :: nat) - min n k = n - k"
  by (simp add: min_def)

lemma count_down_eq [simp]: "count_down n = n - 1"
  by (simp add: count_down_def)

definition named :: "cache_config \<Rightarrow> 'v weights set" where
  "named cfg = {W_resident, W_build, W_metadata, W_charged cfg, W_canonical, W_index, W_generation, W_tombstone,
     W_cursor, W_binding, W_potential cfg}"

lemma named_in [simp]:
  "W_resident \<in> named cfg" "W_build \<in> named cfg" "W_metadata \<in> named cfg" "W_charged cfg \<in> named cfg"
  "W_canonical \<in> named cfg" "W_index \<in> named cfg" "W_generation \<in> named cfg" "W_tombstone \<in> named cfg"
  "W_cursor \<in> named cfg" "W_binding \<in> named cfg" "W_potential cfg \<in> named cfg"
  by (simp_all add: named_def)

lemma exact_less:
  fixes r r' :: "'v repository"
  assumes "exact r" and "\<And>w :: 'v weights. w \<in> named (r_config r) \<Longrightarrow> tally w r' + k w = tally w r" and "r_config r' = r_config r"
    and "st_resident (r_stats r') = st_resident (r_stats r) - k W_resident"
    and "st_build (r_stats r') = st_build (r_stats r) - k W_build"
    and "st_metadata (r_stats r') = st_metadata (r_stats r) - k W_metadata"
    and "st_charged (r_stats r') = st_charged (r_stats r) - k (W_charged (r_config r))"
    and "st_canonical (r_stats r') = st_canonical (r_stats r) - k W_canonical"
    and "st_index (r_stats r') = st_index (r_stats r) - k W_index"
    and "st_generation (r_stats r') = st_generation (r_stats r) - k W_generation"
    and "st_tombstone (r_stats r') = st_tombstone (r_stats r) - k W_tombstone"
    and "st_cursor (r_stats r') = st_cursor (r_stats r) - k W_cursor"
    and "st_binding (r_stats r') = st_binding (r_stats r) - k W_binding"
  shows "exact r'"
proof -
  have "tally w r' = tally w r - k w" if "w \<in> named (r_config r)" for w :: "'v weights"
    using assms(2) [OF that] by simp
  with assms show ?thesis unfolding exact_def by simp
qed

lemma exact_more:
  fixes r r' :: "'v repository"
  assumes "exact r" and t: "\<And>w :: 'v weights. w \<in> named (r_config r) \<Longrightarrow> tally w r' = tally w r + k w" and c: "r_config r' = r_config r"
    and p: "potential r' < umax" and f: "1 \<le> estimator_safety_factor (r_config r)"
    and "st_resident (r_stats r') = sat_add (st_resident (r_stats r)) (k W_resident)"
    and "st_build (r_stats r') = sat_add (st_build (r_stats r)) (k W_build)"
    and "st_metadata (r_stats r') = sat_add (st_metadata (r_stats r)) (k W_metadata)"
    and "st_charged (r_stats r') = sat_add (st_charged (r_stats r)) (k (W_charged (r_config r)))"
    and "st_canonical (r_stats r') = st_canonical (r_stats r) + k W_canonical"
    and "st_index (r_stats r') = st_index (r_stats r) + k W_index"
    and "st_generation (r_stats r') = st_generation (r_stats r) + k W_generation"
    and "st_tombstone (r_stats r') = st_tombstone (r_stats r) + k W_tombstone"
    and "st_cursor (r_stats r') = st_cursor (r_stats r) + k W_cursor"
    and "st_binding (r_stats r') = st_binding (r_stats r) + k W_binding"
  shows "exact r'"
proof -
  have "tally W_resident r + k W_resident < umax" "tally W_build r + k W_build < umax"
    "tally W_metadata r + k W_metadata < umax" "tally (W_charged (r_config r)) r + k (W_charged (r_config r)) < umax"
    using bytes_below [OF p] f c by (simp_all flip: t)
  with assms show ?thesis unfolding exact_def by (simp add: sat_add_exact)
qed

section \<open>Well-formed maps\<close>

lemma find_entry_cong: "r_entries r = r_entries q \<Longrightarrow> find_entry r k = find_entry q k"
  by (simp add: find_entry_def split: option.split)

lemma well_formed_cong:
  assumes "r_entries r = r_entries q" "r_indexes r = r_indexes q" "r_generations r = r_generations q"
    "r_evicted r = r_evicted q" "r_cursors r = r_cursors q" "r_cursor_access r = r_cursor_access q"
    "r_bindings r = r_bindings q"
  shows "well_formed r = well_formed q"
  using assms by (simp add: well_formed_def entries_ok_def indexes_ok_def bindings_ok_def)

lemma neutral_updates [simp]:
  "well_formed (on_stats f r) = well_formed r" "well_formed (emit e r) = well_formed r"
  "well_formed (r\<lparr>r_sequence := n\<rparr>) = well_formed r"
  "find_entry (on_stats f r) k = find_entry r k" "find_entry (emit e r) k = find_entry r k"
  "find_entry (r\<lparr>r_sequence := n\<rparr>) k = find_entry r k" "find_entry (r\<lparr>r_cursor_access := ca\<rparr>) k = find_entry r k"
  "find_entry (r\<lparr>r_indexes := im\<rparr>) k = find_entry r k" "find_entry (r\<lparr>r_generations := gm\<rparr>) k = find_entry r k"
  "find_entry (r\<lparr>r_evicted := em\<rparr>) k = find_entry r k" "find_entry (r\<lparr>r_cursors := cm\<rparr>) k = find_entry r k"
  "find_entry (r\<lparr>r_bindings := bm\<rparr>) k = find_entry r k"
  by (rule well_formed_cong find_entry_cong; simp add: repo_simps)+

lemma entry_maps [repo_simps]:
  "r_config (put_entry k ob r) = r_config r" "r_indexes (put_entry k ob r) = r_indexes r"
  "r_generations (put_entry k ob r) = r_generations r" "r_evicted (put_entry k ob r) = r_evicted r"
  "r_cursors (put_entry k ob r) = r_cursors r" "r_cursor_access (put_entry k ob r) = r_cursor_access r"
  "r_bindings (put_entry k ob r) = r_bindings r" "r_sequence (put_entry k ob r) = r_sequence r"
  "r_stats (put_entry k ob r) = r_stats r"
  "r_config (del_entry k r) = r_config r" "r_indexes (del_entry k r) = r_indexes r"
  "r_generations (del_entry k r) = r_generations r" "r_evicted (del_entry k r) = r_evicted r"
  "r_cursors (del_entry k r) = r_cursors r" "r_cursor_access (del_entry k r) = r_cursor_access r"
  "r_bindings (del_entry k r) = r_bindings r" "r_sequence (del_entry k r) = r_sequence r"
  "r_stats (del_entry k r) = r_stats r"
  by (simp_all add: put_entry_def del_entry_def split: option.splits)

lemma index_maps [repo_simps]:
  "r_config (put_index ik io r) = r_config r" "r_entries (put_index ik io r) = r_entries r"
  "r_stats (put_index ik io r) = r_stats r" "r_sequence (put_index ik io r) = r_sequence r"
  "r_generations (put_index ik io r) = r_generations r" "r_cursors (put_index ik io r) = r_cursors r"
  "r_evicted (put_index ik io r) = r_evicted r" "r_cursor_access (put_index ik io r) = r_cursor_access r"
  "r_bindings (put_index ik io r) = r_bindings r"
  "r_indexes (put_index ik io r) = omap_put ik io (r_indexes r)"
  "r_config (del_index ik r) = r_config r" "r_entries (del_index ik r) = r_entries r"
  "r_stats (del_index ik r) = r_stats r" "r_sequence (del_index ik r) = r_sequence r"
  "r_generations (del_index ik r) = r_generations r" "r_cursors (del_index ik r) = r_cursors r"
  "r_evicted (del_index ik r) = r_evicted r" "r_cursor_access (del_index ik r) = r_cursor_access r"
  "r_bindings (del_index ik r) = r_bindings r"
  "r_indexes (del_index ik r) = omap_del ik (r_indexes r)"
  by (simp_all add: put_index_def del_index_def)

lemma find_put_entry:
  "canonical_store_for_protocol (protocol k) \<noteq> None \<Longrightarrow>
   find_entry (put_entry k ob r) j = (if j = k then Some ob else find_entry r j)"
  by (auto simp: find_entry_def put_entry_def omap_get_put split: option.splits)

lemma find_del_entry: "find_entry (del_entry k r) j = (if j = k then None else find_entry r j)"
  by (auto simp: find_entry_def del_entry_def omap_get_del split: option.splits)

lemma find_entry_store: "find_entry r k = Some ob \<Longrightarrow> canonical_store_for_protocol (protocol k) \<noteq> None"
  by (auto simp: find_entry_def split: option.splits)

lemma find_entry_phase: "entries_ok r \<Longrightarrow> find_entry r k = Some ob \<Longrightarrow> phase_ok ob"
  by (erule find_entryD) (simp add: entries_ok_def)

lemma wf_del_entry: "well_formed r \<Longrightarrow> well_formed (del_entry k r)"
  by (auto simp: well_formed_def entries_ok_def indexes_ok_def bindings_ok_def del_entry_def omap_get_del omap_ok_del
      split: option.splits if_splits)

lemma wf_put_entry: "well_formed r \<Longrightarrow> phase_ok ob \<Longrightarrow> well_formed (put_entry k ob r)"
  by (auto simp: well_formed_def entries_ok_def indexes_ok_def bindings_ok_def put_entry_def omap_get_put omap_ok_put
      split: option.splits if_splits)

lemma wf_del_index: "well_formed r \<Longrightarrow> well_formed (del_index ik r)"
  by (auto simp: well_formed_def entries_ok_def indexes_ok_def bindings_ok_def del_index_def omap_get_del omap_ok_del
      split: if_splits)

lemma wf_put_index: "well_formed r \<Longrightarrow> phase_ok ob \<Longrightarrow> well_formed (put_index ik ob r)"
  by (auto simp: well_formed_def entries_ok_def indexes_ok_def bindings_ok_def put_index_def omap_get_put omap_ok_put
      split: if_splits)

lemma wf_small_maps:
  "well_formed r \<Longrightarrow> well_formed (r\<lparr>r_generations := omap_del k (r_generations r)\<rparr>)"
  "well_formed r \<Longrightarrow> well_formed (r\<lparr>r_generations := omap_put k g (r_generations r)\<rparr>)"
  "well_formed r \<Longrightarrow> well_formed (r\<lparr>r_evicted := omap_del k (r_evicted r)\<rparr>)"
  "well_formed r \<Longrightarrow> well_formed (r\<lparr>r_evicted := omap_put k g (r_evicted r)\<rparr>)"
  "well_formed r \<Longrightarrow> well_formed (r\<lparr>r_cursors := omap_del cid (r_cursors r)\<rparr>)"
  "well_formed r \<Longrightarrow> well_formed (r\<lparr>r_cursors := omap_put cid c (r_cursors r)\<rparr>)"
  "well_formed r \<Longrightarrow> well_formed (r\<lparr>r_cursor_access := omap_del cid (r_cursor_access r)\<rparr>)"
  "well_formed r \<Longrightarrow> well_formed (r\<lparr>r_cursor_access := omap_put cid n (r_cursor_access r)\<rparr>)"
  by (simp_all add: well_formed_def entries_ok_def indexes_ok_def bindings_ok_def omap_ok_del omap_ok_put)

section \<open>Steps that do not raise the potential\<close>

text \<open>
  A step grows by \<open>n\<close> if it keeps a safe repository safe and raises the potential by at most \<open>n\<close>,
  provided there is room for \<open>n\<close>.
\<close>

definition grows :: "nat \<Rightarrow> 'v repository \<Rightarrow> 'v repository \<Rightarrow> bool" where
  "grows n r r' \<longleftrightarrow> (safe r \<and> potential r + n < umax \<longrightarrow>
     safe r' \<and> potential r' \<le> potential r + n \<and> r_config r' = r_config r)"

lemma growsI:
  "(safe r \<Longrightarrow> potential r + n < umax \<Longrightarrow> safe r' \<and> potential r' \<le> potential r + n \<and> r_config r' = r_config r) \<Longrightarrow>
   grows n r r'"
  by (simp add: grows_def)

lemma grows_refl [simp]: "grows n r r"
  by (simp add: grows_def)

lemma grows_trans: "grows n r r' \<Longrightarrow> grows m r' r'' \<Longrightarrow> grows (n + m) r r''"
  unfolding grows_def by auto

lemma grows_then: "grows n r r' \<Longrightarrow> grows 0 r' r'' \<Longrightarrow> grows n r r''"
  using grows_trans [of n r r' 0 r''] by simp

lemma grows_after: "grows 0 r r' \<Longrightarrow> grows n r' r'' \<Longrightarrow> grows n r r''"
  using grows_trans [of 0 r r' n r''] by simp

lemma grows_le: "grows n r r' \<Longrightarrow> n \<le> m \<Longrightarrow> grows m r r'"
  unfolding grows_def by auto

lemma grows_fold: "(\<And>x q. grows 0 q (f x q)) \<Longrightarrow> grows 0 r (fold f xs r)"
  by (induction xs arbitrary: r) (auto intro: grows_then)

lemma grows_safe: "grows n r r' \<Longrightarrow> safe r \<Longrightarrow> potential r + n < umax \<Longrightarrow> safe r'"
  by (simp add: grows_def)

lemma grows_neutral:
  assumes "well_formed r' = well_formed r" "\<And>w. tally w r' = tally w r" "r_stats r' = r_stats r" "r_config r' = r_config r"
  shows "grows 0 r r'"
  using assms by (simp add: grows_def safe_def potential_def exact_def)

lemma grows_emit [simp]: "grows 0 r (emit e r)"
  by (rule grows_neutral) (simp_all add: repo_simps)

lemma emit_same [simp]: "potential (emit e r) = potential r" "safe (emit e r) = safe r" "r_config (emit e r) = r_config r"
  by (simp_all add: safe_def potential_def exact_def repo_simps)

lemma grows_sequence [simp]: "grows 0 r (r\<lparr>r_sequence := n\<rparr>)"
  by (rule grows_neutral) (simp_all add: repo_simps)

lemma safe_generations: "safe r \<Longrightarrow> omap_ok (r_generations r) \<and> omap_ok (r_evicted r) \<and> omap_ok (r_cursors r)"
  by (simp add: safe_def well_formed_def)

lemma safe_parts: "safe r \<Longrightarrow> well_formed r \<and> exact r \<and> entries_ok r \<and> indexes_ok r \<and> bindings_ok r"
  by (simp add: safe_def well_formed_def)

lemma grows_less:
  fixes r r' :: "'v repository"
  assumes wf: "safe r \<Longrightarrow> well_formed r'" and t: "\<And>w :: 'v weights. safe r \<Longrightarrow> w \<in> named (r_config r) \<Longrightarrow> tally w r' + k w = tally w r"
    and c: "r_config r' = r_config r"
    and "st_resident (r_stats r') = st_resident (r_stats r) - k W_resident"
    and "st_build (r_stats r') = st_build (r_stats r) - k W_build"
    and "st_metadata (r_stats r') = st_metadata (r_stats r) - k W_metadata"
    and "st_charged (r_stats r') = st_charged (r_stats r) - k (W_charged (r_config r))"
    and "st_canonical (r_stats r') = st_canonical (r_stats r) - k W_canonical"
    and "st_index (r_stats r') = st_index (r_stats r) - k W_index"
    and "st_generation (r_stats r') = st_generation (r_stats r) - k W_generation"
    and "st_tombstone (r_stats r') = st_tombstone (r_stats r) - k W_tombstone"
    and "st_cursor (r_stats r') = st_cursor (r_stats r) - k W_cursor"
    and "st_binding (r_stats r') = st_binding (r_stats r) - k W_binding"
  shows "grows 0 r r' \<and> (safe r \<longrightarrow> potential r' + k (W_potential (r_config r)) = potential r)"
proof -
  have "safe r' \<and> potential r' + k (W_potential (r_config r)) = potential r" if s: "safe r"
  proof -
    have "exact r'" using safe_parts [OF s] by (blast intro: exact_less [where k = k, OF _ t [OF s] c assms(4-13)])
    moreover have "potential r' + k (W_potential (r_config r)) = potential r"
      using t [OF s, of "W_potential (r_config r)"] c by (simp add: potential_def)
    ultimately show ?thesis using s wf c by (simp add: safe_def)
  qed
  then show ?thesis using c by (auto simp: grows_def)
qed

lemma grows_more:
  fixes r r' :: "'v repository"
  assumes wf: "safe r \<Longrightarrow> well_formed r'" and t: "\<And>w :: 'v weights. safe r \<Longrightarrow> w \<in> named (r_config r) \<Longrightarrow> tally w r' = tally w r + k w"
    and c: "r_config r' = r_config r"
    and "st_resident (r_stats r') = sat_add (st_resident (r_stats r)) (k W_resident)"
    and "st_build (r_stats r') = sat_add (st_build (r_stats r)) (k W_build)"
    and "st_metadata (r_stats r') = sat_add (st_metadata (r_stats r)) (k W_metadata)"
    and "st_charged (r_stats r') = sat_add (st_charged (r_stats r)) (k (W_charged (r_config r)))"
    and "st_canonical (r_stats r') = st_canonical (r_stats r) + k W_canonical"
    and "st_index (r_stats r') = st_index (r_stats r) + k W_index"
    and "st_generation (r_stats r') = st_generation (r_stats r) + k W_generation"
    and "st_tombstone (r_stats r') = st_tombstone (r_stats r) + k W_tombstone"
    and "st_cursor (r_stats r') = st_cursor (r_stats r) + k W_cursor"
    and "st_binding (r_stats r') = st_binding (r_stats r) + k W_binding"
  shows "grows (k (W_potential (r_config r))) r r'"
proof (rule growsI)
  assume s: "safe r" and room: "potential r + k (W_potential (r_config r)) < umax"
  have p: "potential r' = potential r + k (W_potential (r_config r))"
    using t [OF s, of "W_potential (r_config r)"] c by (simp add: potential_def)
  have "exact r'"
  proof (rule exact_more [where k = k, OF _ t [OF s] c _ _ assms(4-13)])
    show "exact r" "potential r' < umax" "1 \<le> estimator_safety_factor (r_config r)"
      using s p room by (simp_all add: safe_def)
  qed
  then show "safe r' \<and> potential r' \<le> potential r + k (W_potential (r_config r)) \<and> r_config r' = r_config r"
    using p room s wf c by (simp add: safe_def)
qed

lemmas micro = grows_less [THEN conjunct1] grows_less [THEN conjunct2, rule_format]

lemma grows_drop_generation: "grows 0 r (drop_generation key r)"
proof (cases "omap_get (r_generations r) key")
  case (Some g)
  note d = drop_generation_def Some repo_simps
  let ?q = "r\<lparr>r_generations := omap_del key (r_generations r)\<rparr>"
  have eq: "tally w (drop_generation key r) = tally w ?q" "well_formed (drop_generation key r) = well_formed ?q" for w
    by (rule tally_cong well_formed_cong; simp add: d)+
  show ?thesis
    by (rule micro(1) [where k = "\<lambda>w. w_gen w key"])
      (simp_all add: eq wf_small_maps safe_parts tally_del_generation safe_generations Some, simp_all add: d)
qed (simp add: drop_generation_def)

lemma grows_erase_generation: "grows 0 r (erase_generation_if_unreferenced key r)"
  by (simp add: erase_generation_if_unreferenced_def grows_drop_generation)

lemma grows_drop_tombstone: "grows 0 r (drop_tombstone key r)"
proof (cases "omap_get (r_evicted r) key")
  case (Some g)
  note d = drop_tombstone_def Some repo_simps
  let ?q = "r\<lparr>r_evicted := omap_del key (r_evicted r)\<rparr>"
  have eq: "tally w (drop_tombstone key r) = tally w ?q" "well_formed (drop_tombstone key r) = well_formed ?q" for w
    by (rule tally_cong well_formed_cong; simp add: d)+
  show ?thesis
    by (rule micro(1) [where k = "\<lambda>w. w_tomb w key"])
      (simp_all add: eq wf_small_maps safe_parts tally_del_tombstone safe_generations Some, simp_all add: d)
qed (simp add: drop_tombstone_def)

lemma grows_drop_cursor: "grows 0 r (drop_cursor cid r)"
proof (cases "omap_get (r_cursors r) cid")
  case (Some c)
  note d = drop_cursor_def Some repo_simps
  let ?q = "r\<lparr>r_cursors := omap_del cid (r_cursors r)\<rparr>"
  let ?q' = "?q\<lparr>r_cursor_access := omap_del cid (r_cursor_access ?q)\<rparr>"
  have eq: "tally w (drop_cursor cid r) = tally w ?q" "well_formed (drop_cursor cid r) = well_formed ?q'" for w
    by (rule tally_cong well_formed_cong; simp add: d)+
  have wf: "well_formed r \<Longrightarrow> well_formed ?q'" by (intro wf_small_maps)
  show ?thesis
    by (rule micro(1) [where k = "\<lambda>w. w_cursor w c"])
      (simp_all add: eq wf [simplified] safe_parts tally_del_cursor safe_generations Some, simp_all add: d)
qed (simp add: drop_cursor_def)

lemma grows_drop_index: "grows 0 r (drop_index ik r)"
proof (cases "omap_get (r_indexes r) ik")
  case (Some ob)
  note d = drop_index_def Some Let_def repo_simps
  have eq: "tally w (drop_index ik r) = tally w (del_index ik r)"
      "well_formed (drop_index ik r) = well_formed (del_index ik r)" for w
    by (rule tally_cong well_formed_cong; simp add: d)+
  show ?thesis
    by (rule micro(1) [where k = "\<lambda>w. w_index w ob"])
      (simp_all add: eq wf_del_index safe_parts tally_del_index Some, simp_all add: d ready_count_def both_charges_def)
qed (simp add: drop_index_def)

lemma drop_entry_step:
  assumes "find_entry r key = Some ob"
  shows "grows 0 r (drop_entry key r)"
    and "safe r \<Longrightarrow> potential (drop_entry key r) + charge (r_config r) (key_metadata_bytes key) \<le> potential r"
proof -
  note d = drop_entry_def assms Let_def repo_simps
  have maps: "r_entries (drop_entry key r) = r_entries (del_entry key r)"
      "r_indexes (drop_entry key r) = r_indexes r" "r_generations (drop_entry key r) = r_generations r"
      "r_evicted (drop_entry key r) = r_evicted r" "r_cursors (drop_entry key r) = r_cursors r"
      "r_cursor_access (drop_entry key r) = r_cursor_access r" "r_bindings (drop_entry key r) = r_bindings r"
    by (simp_all add: d del_entry_def split: option.split)
  have eq: "tally w (drop_entry key r) = tally w (del_entry key r)"
      "well_formed (drop_entry key r) = well_formed (del_entry key r)" for w
    by (rule tally_cong well_formed_cong; simp add: maps repo_simps)+
  have *: "grows 0 r (drop_entry key r) \<and>
      (safe r \<longrightarrow> potential (drop_entry key r) + w_entry (W_potential (r_config r)) key ob = potential r)"
    by (rule grows_less [where k = "\<lambda>w. w_entry w key ob"])
      (simp_all add: eq wf_del_entry safe_parts tally_del_entry assms, simp_all add: d ready_count_def both_charges_def)
  show "grows 0 r (drop_entry key r)" using * by simp
  show "safe r \<Longrightarrow> potential (drop_entry key r) + charge (r_config r) (key_metadata_bytes key) \<le> potential r"
    using * by simp
qed

lemma grows_drop_first_binding:
  assumes "drop_first_binding r = Some r'"
  shows "grows 0 r r'"
proof -
  obtain sess name dig bs rest where b: "r_bindings r = (sess, (name, dig) # bs) # rest"
    using assms by (auto simp: drop_first_binding_def split: list.splits)
  define m where "m = (if bs = [] then rest else (sess, bs) # rest)"
  let ?k = "\<lambda>w :: 'a weights. w_bind w sess name dig"
  have r': "r_bindings r' = m" "r_entries r' = r_entries r" "r_indexes r' = r_indexes r"
      "r_generations r' = r_generations r" "r_evicted r' = r_evicted r" "r_cursors r' = r_cursors r"
      "r_cursor_access r' = r_cursor_access r" "r_config r' = r_config r"
    using assms by (auto simp: drop_first_binding_def b m_def repo_simps Let_def)
  have t: "tally w r' + ?k w = tally w r" for w :: "'a weights"
    unfolding tally_def r' b by (simp add: m_def)
  have wf: "well_formed r'" if "safe r"
  proof -
    have ok: "bindings_ok r" using that by (simp add: safe_parts)
    have "omap_ok m"
      using ok by (auto simp: bindings_ok_def b m_def omap_ok_Cons)
    moreover have "omap_ok bs'" "bs' \<noteq> []" if g: "omap_get m s = Some bs'" for s bs'
    proof -
      have "bs' = bs \<and> bs \<noteq> [] \<or> omap_get rest s = Some bs'"
        using g by (auto simp: m_def split: if_splits)
      moreover have "omap_get (r_bindings r) sess = Some ((name, dig) # bs)" by (simp add: b)
      then have "omap_ok ((name, dig) # bs)" using ok unfolding bindings_ok_def by blast
      then have "omap_ok bs" by (simp add: omap_ok_Cons)
      moreover have "omap_get (r_bindings r) s = Some bs'" if "omap_get rest s = Some bs'"
      proof -
        have "sess < s" using ok that omap_ok_less [of sess "(name, dig) # bs" rest s bs']
          by (simp add: bindings_ok_def b)
        then have "s \<noteq> sess" by blast
        then show ?thesis using that by (simp add: b)
      qed
      ultimately show "omap_ok bs'" "bs' \<noteq> []" using ok by (auto simp: bindings_ok_def)
    qed
    ultimately have "bindings_ok r'" by (simp add: bindings_ok_def r')
    with that show ?thesis by (simp add: safe_def well_formed_def entries_ok_def indexes_ok_def r')
  qed
  show ?thesis
    by (rule micro(1) [where k = ?k, OF wf t]) (use assms in \<open>auto simp: drop_first_binding_def b repo_simps Let_def\<close>)
qed

lemma grows_erase_one:
  assumes "erase_one_releasable_metadata r = Some r'"
  shows "grows 0 r r'"
  using assms
  by (auto simp: erase_one_releasable_metadata_def Let_def grows_drop_first_binding split: if_splits option.splits
      intro: grows_then [OF grows_drop_tombstone grows_erase_generation]
        grows_then [OF grows_drop_cursor grows_erase_generation])

lemma grows_release: "grows 0 r (release_metadata new_charge excluded r)"
proof (induction new_charge excluded r rule: release_metadata.induct)
  case (1 new_charge excluded r)
  show ?case
  proof (cases "fits_limit (hard_max_bytes (r_config r)) new_charge excluded r")
    case True
    then show ?thesis by (subst release_metadata.simps) simp
  next
    case False
    then show ?thesis
      using 1 [OF False] grows_erase_one [of r]
      by (subst release_metadata.simps) (auto split: option.split intro: grows_then)
  qed
qed

section \<open>Erasing and evicting\<close>

lemma drop_index_find [simp]: "find_entry (drop_index ik r) k = find_entry r k"
  by (rule find_entry_cong) (simp add: drop_index_def Let_def repo_simps split: option.split)

lemma drop_cursor_find [simp]: "find_entry (drop_cursor cid r) k = find_entry r k"
  by (rule find_entry_cong) (simp add: drop_cursor_def Let_def repo_simps split: option.split)

lemma drop_generation_find [simp]: "find_entry (drop_generation key r) k = find_entry r k"
  by (rule find_entry_cong) (simp add: drop_generation_def Let_def repo_simps split: option.split)

lemma erase_generation_find [simp]: "find_entry (erase_generation_if_unreferenced key r) k = find_entry r k"
  by (simp add: erase_generation_if_unreferenced_def)

lemma drop_tombstone_find [simp]: "find_entry (drop_tombstone key r) k = find_entry r k"
  by (rule find_entry_cong) (simp add: drop_tombstone_def Let_def repo_simps split: option.split)

lemma drop_entry_find: "find_entry (drop_entry key r) k = (if k = key then None else find_entry r k)"
proof (cases "find_entry r key")
  case (Some ob)
  let ?q = "drop_entry key r"
  have "find_entry ?q k = find_entry (del_entry key r) k"
    by (rule find_entry_cong) (simp add: drop_entry_def Some Let_def repo_simps del_entry_def split: option.split)
  then show ?thesis by (simp add: find_del_entry)
qed (simp add: drop_entry_def)

lemma owned_indexes_find [simp]: "find_entry (erase_owned_indexes key r) k = find_entry r k"
proof -
  have "find_entry (fold drop_index xs r) k = find_entry r k" for xs by (induction xs arbitrary: r) simp_all
  then show ?thesis by (simp add: erase_owned_indexes_def)
qed

lemma owned_cursors_find [simp]: "find_entry (erase_owned_cursors key r) k = find_entry r k"
proof -
  have "find_entry (fold drop_cursor xs r) k = find_entry r k" for xs by (induction xs arbitrary: r) simp_all
  then show ?thesis by (simp add: erase_owned_cursors_def)
qed

lemma erase_canonical_find:
  "find_entry (erase_canonical_internal key reason cur r) k = (if k = key then None else find_entry r k)"
  by (auto simp: erase_canonical_internal_def Let_def drop_entry_find split: option.split)

lemma grows_owned_indexes: "grows 0 r (erase_owned_indexes key r)"
  unfolding erase_owned_indexes_def by (rule grows_fold) (rule grows_drop_index)

lemma grows_owned_cursors: "grows 0 r (erase_owned_cursors key r)"
  unfolding erase_owned_cursors_def by (rule grows_fold) (rule grows_drop_cursor)

lemma grows_zeroD: "grows 0 r r' \<Longrightarrow> safe r \<Longrightarrow> safe r' \<and> potential r' \<le> potential r \<and> r_config r' = r_config r"
  by (simp add: grows_def safe_def)

text \<open>Erasing a canonical object frees at least the bytes of a tombstone for it.\<close>

lemma erase_canonical_step:
  assumes "find_entry r key = Some ob" "safe r"
  shows "safe (erase_canonical_internal key reason cur r) \<and>
    potential (erase_canonical_internal key reason cur r) + charge (r_config r) (key_metadata_bytes key) \<le> potential r \<and>
    r_config (erase_canonical_internal key reason cur r) = r_config r"
proof -
  let ?r1 = "erase_owned_indexes key r"
  let ?r2 = "if cur then erase_owned_cursors key ?r1 else ?r1"
  let ?r3 = "drop_entry key ?r2"
  have g2: "grows 0 r ?r2" using grows_owned_indexes [of r key] grows_owned_cursors [of ?r1 key] by (auto intro: grows_then)
  note a = grows_zeroD [OF g2 assms(2)]
  have f: "find_entry ?r2 key = Some ob" using assms(1) by simp
  have c: "grows 0 ?r3 (erase_canonical_internal key reason cur r)"
    using assms(1) grows_erase_generation [of ?r3 key]
    by (simp add: erase_canonical_internal_def Let_def grows_then [OF _ grows_emit])
  have s3: "safe ?r3 \<and> potential ?r3 \<le> potential ?r2 \<and> r_config ?r3 = r_config ?r2"
    using grows_zeroD [OF drop_entry_step(1) [OF f]] a by blast
  have p3: "potential ?r3 + charge (r_config r) (key_metadata_bytes key) \<le> potential ?r2"
    using drop_entry_step(2) [OF f] a by metis
  have d: "safe (erase_canonical_internal key reason cur r)"
    "potential (erase_canonical_internal key reason cur r) \<le> potential ?r3"
    "r_config (erase_canonical_internal key reason cur r) = r_config ?r3"
    using grows_zeroD [OF c] s3 by blast+
  have "potential (erase_canonical_internal key reason cur r) + charge (r_config r) (key_metadata_bytes key) \<le> potential r"
    using a p3 d(2) by linarith
  with a s3 d show ?thesis by simp
qed

lemma grows_erase_canonical: "grows 0 r (erase_canonical_internal key reason cur r)"
proof (cases "find_entry r key")
  case None
  then show ?thesis by (simp add: erase_canonical_internal_def)
next
  case (Some ob)
  show ?thesis by (rule growsI) (use erase_canonical_step [OF Some, of reason cur] in auto)
qed

lemma grows_add_tombstone:
  fixes r :: "'v repository"
  shows "grows (charge (r_config r) (key_metadata_bytes key)) r (add_tombstone key r)"
proof (cases "omap_get (r_evicted r) key")
  case None
  note d = add_tombstone_def next_access_sequence_def Let_def None repo_simps
  let ?n = "fst (next_access_sequence r)"
  let ?q = "r\<lparr>r_evicted := omap_put key ?n (r_evicted r)\<rparr>"
  have eq: "tally w (add_tombstone key r) = tally w ?q" "well_formed (add_tombstone key r) = well_formed ?q" for w
    by (rule tally_cong well_formed_cong; simp add: d)+
  have "grows (w_tomb (W_potential (r_config r) :: 'v weights) key) r (add_tombstone key r)"
    by (rule grows_more [where k = "\<lambda>w. w_tomb w key"])
      (simp_all add: eq wf_small_maps safe_parts tally_put_tombstone safe_generations None, simp_all add: d)
  then show ?thesis by simp
next
  case (Some n)
  note d = add_tombstone_def next_access_sequence_def Let_def Some repo_simps
  let ?q = "r\<lparr>r_evicted := omap_put key (fst (next_access_sequence (snd (next_access_sequence r)))) (r_evicted r)\<rparr>"
  have eq: "tally w (add_tombstone key r) = tally w ?q" "well_formed (add_tombstone key r) = well_formed ?q" for w
    by (rule tally_cong well_formed_cong; simp add: d)+
  have "grows 0 r (add_tombstone key r)"
  proof (rule growsI)
    assume s: "safe r"
    have t: "tally w (add_tombstone key r) = tally w r" for w
      using s by (simp add: eq tally_put_tombstone safe_generations Some)
    have "well_formed (add_tombstone key r)" using s by (simp add: eq wf_small_maps safe_parts)
    moreover have "r_stats (add_tombstone key r) = r_stats r" "r_config (add_tombstone key r) = r_config r"
      by (simp_all add: d)
    ultimately show "safe (add_tombstone key r) \<and> potential (add_tombstone key r) \<le> potential r + 0 \<and>
        r_config (add_tombstone key r) = r_config r"
      using s by (simp add: safe_def potential_def exact_def t)
  qed
  then show ?thesis by (rule grows_le) simp
qed

lemma grows_evict_canonical: "grows 0 r (evict_canonical reason key r)"
proof (cases "find_entry r key")
  case None
  then show ?thesis by (simp add: evict_canonical_def)
next
  case (Some ob)
  let ?q = "erase_canonical_internal key reason False r"
  show ?thesis
  proof (rule growsI)
    assume s: "safe r"
    note e = erase_canonical_step [OF Some s, of reason False]
    have "potential r < umax" using s by (simp add: safe_def)
    then show "safe (evict_canonical reason key r) \<and> potential (evict_canonical reason key r) \<le> potential r + 0 \<and>
        r_config (evict_canonical reason key r) = r_config r"
      using grows_add_tombstone [of ?q key] e by (simp add: grows_def evict_canonical_def Some)
  qed
qed

lemma grows_evict_index: "grows 0 r (evict_index reason ik r)"
  by (auto simp: evict_index_def split: option.split intro: grows_then [OF grows_drop_index grows_emit])

lemma grows_evict_indexes: "grows 0 r (snd (evict_indexes bound new_charge excluded reason iks r))"
  by (induction iks arbitrary: r) (auto intro: grows_then [OF grows_evict_index])

lemma grows_evict_canonicals: "grows 0 r (evict_canonicals bound new_charge excluded reason ks r)"
  by (induction ks arbitrary: r) (auto intro: grows_then [OF grows_evict_canonical])

lemma grows_evict_to_budget: "grows 0 r (evict_to_budget bound new_charge pcan pind reason preserve excluded r)"
  using grows_evict_indexes [of r bound new_charge excluded reason "index_candidates pind preserve r"]
  by (auto simp: evict_to_budget_def split: prod.split bool.split intro: grows_then [OF _ grows_evict_canonicals])

lemma grows_make_hard_room:
  "grows 0 r (snd (snd (make_hard_room new_charge pcan pind err request_key excluded r)))"
  by (auto simp: make_hard_room_def Let_def intro: grows_then [OF grows_evict_to_budget grows_release])

lemma grows_enforce_soft: "grows 0 r (enforce_soft_budget pcan pind r)"
  by (simp add: enforce_soft_budget_def grows_evict_to_budget)

end
