(* ===== verification/Repository_Runs.thy ===== *)
theory Repository_Runs
  imports Repository_Accounting
begin

text \<open>
  Every request to the analysis cache keeps the accounting of its bytes: the operations on canonical
  objects, indexes, cursors and bindings one by one, and then runs of requests from an empty
  repository.
\<close>

section \<open>What eviction leaves alone\<close>

lemma add_tombstone_find [simp]: "find_entry (add_tombstone key r) k = find_entry r k"
  by (rule find_entry_cong) (simp add: add_tombstone_def next_access_sequence_def Let_def repo_simps split: option.split)

lemma evict_canonical_find: "find_entry (evict_canonical reason key r) k = (if k = key then None else find_entry r k)"
  by (auto simp: evict_canonical_def erase_canonical_find)

lemma evict_canonicals_find:
  "k \<notin> set ks \<Longrightarrow> find_entry (evict_canonicals bound nc excluded reason ks r) k = find_entry r k"
  by (induction ks arbitrary: r) (auto simp: evict_canonical_find)

lemma evict_indexes_find [simp]:
  "find_entry (snd (evict_indexes bound nc excluded reason iks r)) k = find_entry r k"
proof (induction iks arbitrary: r)
  case (Cons ik iks)
  have "find_entry (evict_index reason ik r) k = find_entry r k"
    by (simp add: evict_index_def split: option.split)
  with Cons.IH show ?case by simp
qed simp

lemma drop_index_get: "omap_get (r_indexes (drop_index ik r)) j = (if j = ik then None else omap_get (r_indexes r) j)"
  by (simp add: drop_index_def Let_def repo_simps omap_get_del split: option.split)

lemma small_drops_indexes [simp]:
  "r_indexes (drop_generation key r) = r_indexes r" "r_indexes (drop_tombstone key r) = r_indexes r"
  "r_indexes (drop_cursor cid r) = r_indexes r" "r_indexes (drop_entry key r) = r_indexes r"
  "r_indexes (erase_generation_if_unreferenced key r) = r_indexes r" "r_indexes (add_tombstone key r) = r_indexes r"
  by (simp_all add: drop_generation_def drop_tombstone_def drop_cursor_def drop_entry_def
      erase_generation_if_unreferenced_def add_tombstone_def next_access_sequence_def Let_def repo_simps split: option.split)

lemma owned_cursors_indexes [simp]: "r_indexes (erase_owned_cursors key r) = r_indexes r"
proof -
  have "r_indexes (fold drop_cursor xs r) = r_indexes r" for xs by (induction xs arbitrary: r) simp_all
  then show ?thesis by (simp add: erase_owned_cursors_def)
qed

lemma fold_drop_index_get:
  "omap_get (r_indexes (fold drop_index xs r)) j = (if j \<in> set xs then None else omap_get (r_indexes r) j)"
  by (induction xs arbitrary: r) (auto simp: drop_index_get)

lemma owned_indexes_get:
  "omap_get (r_indexes (erase_owned_indexes key r)) j = (if index_owner j = key then None else omap_get (r_indexes r) j)"
proof -
  have "omap_get (r_indexes r) j = None" if "j \<notin> fst ` set (r_indexes r)"
    using that by (simp add: map_of_eq_None_iff)
  then show ?thesis by (auto simp: erase_owned_indexes_def fold_drop_index_get)
qed

lemma erase_canonical_get:
  "omap_get (r_indexes (erase_canonical_internal key reason cur r)) j =
     (if find_entry r key \<noteq> None \<and> index_owner j = key then None else omap_get (r_indexes r) j)"
  by (auto simp: erase_canonical_internal_def Let_def repo_simps owned_indexes_get split: option.split)

lemma evict_canonicals_get:
  "index_owner j \<notin> set ks \<Longrightarrow>
   omap_get (r_indexes (evict_canonicals bound nc excluded reason ks r)) j = omap_get (r_indexes r) j"
  by (induction ks arbitrary: r) (auto simp: evict_canonical_def erase_canonical_get)

lemma evict_index_get:
  "omap_get (r_indexes (evict_index reason ik r)) j = (if j = ik then None else omap_get (r_indexes r) j)"
  by (auto simp: evict_index_def repo_simps drop_index_get split: option.split)

lemma evict_indexes_get:
  "j \<notin> set iks \<Longrightarrow>
   omap_get (r_indexes (snd (evict_indexes bound nc excluded reason iks r))) j = omap_get (r_indexes r) j"
  by (induction iks arbitrary: r) (auto simp: evict_index_get)

text \<open>An object is shielded from eviction if it is being built or protected; an index also by its owner.\<close>

definition shielded :: "cache_key option \<Rightarrow> 'v repository \<Rightarrow> cache_key \<Rightarrow> bool" where
  "shielded pcan r key \<longleftrightarrow> pcan = Some key \<or> (\<exists>ob. find_entry r key = Some ob \<and> ob_state ob = Building)"

lemma set_entries_find: "entries_ok r \<Longrightarrow> (k, ob) \<in> set (concat (map (r_entries r) all_stores)) \<longleftrightarrow> find_entry r k = Some ob"
proof -
  assume ok: "entries_ok r"
  have "(k, ob) \<in> set (concat (map (r_entries r) all_stores)) \<longleftrightarrow> (\<exists>s. omap_get (r_entries r s) k = Some ob)"
    using ok canonical_store_in by (auto simp: entries_ok_def omap_get_in)
  also have "\<dots> \<longleftrightarrow> find_entry r k = Some ob"
    using ok unfolding find_entry_def entries_ok_def by (metis option.case_eq_if option.sel option.distinct(1))
  finally show ?thesis .
qed

lemma in_fst_image: "k \<in> fst ` {p \<in> S. P p} \<longleftrightarrow> (\<exists>v. (k, v) \<in> S \<and> P (k, v))"
  by force

lemma set_canonical_candidates:
  assumes "entries_ok r"
  shows "set (canonical_candidates pcan preserve r) =
    {k. \<exists>ob. find_entry r k = Some ob \<and> ob_state ob = Ready \<and> pcan \<noteq> Some k \<and> \<not> preserved preserve k}"
proof (rule set_eqI)
  fix k
  have "k \<in> set (canonical_candidates pcan preserve r) \<longleftrightarrow>
      k \<in> fst ` {p \<in> set (concat (map (r_entries r) all_stores)).
                   ob_state (snd p) = Ready \<and> pcan \<noteq> Some (fst p) \<and> \<not> preserved preserve (fst p)}"
    by (simp add: canonical_candidates_def)
  then show "k \<in> set (canonical_candidates pcan preserve r) \<longleftrightarrow>
      k \<in> {k. \<exists>ob. find_entry r k = Some ob \<and> ob_state ob = Ready \<and> pcan \<noteq> Some k \<and> \<not> preserved preserve k}"
    unfolding in_fst_image by (simp only: set_entries_find [OF assms] fst_conv snd_conv mem_Collect_eq)
qed

lemma set_index_candidates:
  assumes "indexes_ok r"
  shows "set (index_candidates pind preserve r) =
    {ik. \<exists>ob. omap_get (r_indexes r) ik = Some ob \<and> ob_state ob = Ready \<and> pind \<noteq> Some ik \<and>
         \<not> preserved preserve (index_owner ik)}"
proof (rule set_eqI)
  fix ik
  have ok: "omap_ok (r_indexes r)" using assms by (simp add: indexes_ok_def)
  have "ik \<in> set (index_candidates pind preserve r) \<longleftrightarrow>
      ik \<in> fst ` {p \<in> set (r_indexes r). ob_state (snd p) = Ready \<and> pind \<noteq> Some (fst p) \<and>
                    \<not> preserved preserve (index_owner (fst p))}"
    by (simp add: index_candidates_def)
  then show "ik \<in> set (index_candidates pind preserve r) \<longleftrightarrow>
      ik \<in> {ik. \<exists>ob. omap_get (r_indexes r) ik = Some ob \<and> ob_state ob = Ready \<and> pind \<noteq> Some ik \<and>
              \<not> preserved preserve (index_owner ik)}"
    unfolding in_fst_image by (simp only: omap_get_in [OF ok] fst_conv snd_conv mem_Collect_eq)
qed

lemma evict_keeps_entry:
  assumes "safe r" "shielded pcan r key"
  shows "find_entry (evict_to_budget bound nc pcan pind reason preserve excluded r) key = find_entry r key"
proof -
  define q where "q = snd (evict_indexes bound nc excluded reason (index_candidates pind preserve r) r)"
  have "safe q" unfolding q_def using grows_evict_indexes assms(1) by (metis grows_zeroD)
  moreover have "shielded pcan q key" using assms(2) by (simp add: shielded_def q_def)
  ultimately have "key \<notin> set (canonical_candidates pcan preserve q)"
    by (auto simp: set_canonical_candidates safe_parts shielded_def)
  then have "find_entry (evict_canonicals bound nc excluded reason (canonical_candidates pcan preserve q) q) key = find_entry r key"
    by (simp add: evict_canonicals_find) (simp add: q_def)
  then show ?thesis
    by (auto simp: evict_to_budget_def q_def split: prod.split bool.split) (metis evict_indexes_find snd_conv)
qed

lemma evict_keeps_index:
  assumes s: "safe r" and o: "shielded pcan r (index_owner ik)"
    and i: "pind = Some ik \<or> (\<exists>ob. omap_get (r_indexes r) ik = Some ob \<and> ob_state ob = Building)"
  shows "omap_get (r_indexes (evict_to_budget bound nc pcan pind reason preserve excluded r)) ik = omap_get (r_indexes r) ik"
proof -
  define q where "q = snd (evict_indexes bound nc excluded reason (index_candidates pind preserve r) r)"
  have "ik \<notin> set (index_candidates pind preserve r)"
    using s i by (auto simp: set_index_candidates safe_parts)
  then have q: "omap_get (r_indexes q) ik = omap_get (r_indexes r) ik" by (simp add: q_def evict_indexes_get)
  have "safe q" unfolding q_def using grows_evict_indexes s by (metis grows_zeroD)
  moreover have "shielded pcan q (index_owner ik)" using o by (simp add: shielded_def q_def)
  ultimately have "index_owner ik \<notin> set (canonical_candidates pcan preserve q)"
    by (auto simp: set_canonical_candidates safe_parts shielded_def)
  then have "omap_get (r_indexes (evict_canonicals bound nc excluded reason (canonical_candidates pcan preserve q) q)) ik
      = omap_get (r_indexes r) ik"
    using q by (simp add: evict_canonicals_get)
  then show ?thesis using q
    by (auto simp: evict_to_budget_def q_def split: prod.split bool.split)
qed

lemma drop_first_binding_keeps:
  assumes "drop_first_binding r = Some r'"
  shows "find_entry r' k = find_entry r k" "r_indexes r' = r_indexes r"
  using assms
  by (auto simp: drop_first_binding_def Let_def repo_simps split: list.splits intro!: find_entry_cong)

lemma erase_one_keeps:
  assumes "erase_one_releasable_metadata r = Some r'"
  shows "find_entry r' k = find_entry r k" "r_indexes r' = r_indexes r"
  using assms
  by (auto simp: erase_one_releasable_metadata_def Let_def drop_first_binding_keeps split: if_splits option.splits)

lemma release_keeps:
  "find_entry (release_metadata nc excluded r) k = find_entry r k \<and> r_indexes (release_metadata nc excluded r) = r_indexes r"
proof (induction nc excluded r rule: release_metadata.induct)
  case (1 nc excluded r)
  then show ?case
    by (subst (1 2) release_metadata.simps) (auto split: option.split simp: erase_one_keeps)
qed

lemma hard_room_keeps_entry:
  "safe r \<Longrightarrow> shielded pcan r key \<Longrightarrow>
   find_entry (snd (snd (make_hard_room nc pcan pind err request_key excluded r))) key = find_entry r key"
  by (simp add: make_hard_room_def Let_def release_keeps evict_keeps_entry)

lemma hard_room_keeps_index:
  "safe r \<Longrightarrow> shielded pcan r (index_owner ik) \<Longrightarrow>
   pind = Some ik \<or> (\<exists>ob. omap_get (r_indexes r) ik = Some ob \<and> ob_state ob = Building) \<Longrightarrow>
   omap_get (r_indexes (snd (snd (make_hard_room nc pcan pind err request_key excluded r)))) ik = omap_get (r_indexes r) ik"
  by (simp add: make_hard_room_def Let_def release_keeps evict_keeps_index)

section \<open>Operations on canonical objects\<close>

lemma next_access_eq: "next_access_sequence r = (fst (next_access_sequence r), r\<lparr>r_sequence := fst (next_access_sequence r)\<rparr>)"
  by (simp add: next_access_sequence_def Let_def)

lemma touch_grows:
  assumes "find_entry r key = Some ob"
  shows "grows 0 r (put_entry key (ob\<lparr>ob_access := n\<rparr>) r)"
proof (rule growsI)
  assume s: "safe r"
  let ?q = "put_entry key (ob\<lparr>ob_access := n\<rparr>) r"
  have t: "tally w ?q = tally w r" if "w \<in> named (r_config r)" for w
    using tally_put_entry [of r key w "ob\<lparr>ob_access := n\<rparr>"] s assms find_entry_store [OF assms] that
    by (auto simp: safe_parts named_def both_charges_def ready_count_def)
  have "phase_ok ob" using find_entry_phase [of r key ob] s assms by (simp add: safe_parts)
  then have "well_formed ?q" using s by (intro wf_put_entry) (simp_all add: safe_parts phase_ok_def)
  then show "safe ?q \<and> potential ?q \<le> potential r + 0 \<and> r_config ?q = r_config r"
    using s by (simp add: safe_def potential_def exact_def t repo_simps)
qed

lemma grows_hit:
  assumes "find_entry r key = Some ob"
  shows "grows 0 r (emit e (put_entry key (ob\<lparr>ob_access := n\<rparr>) (r\<lparr>r_sequence := m\<rparr>)))"
proof -
  have "find_entry (r\<lparr>r_sequence := m\<rparr>) key = Some ob" using assms by simp
  from grows_then [OF grows_sequence touch_grows [OF this]] show ?thesis by (rule grows_then [OF _ grows_emit])
qed

lemma grows_put_build:
  fixes r :: "'v repository"
  assumes "canonical_store_for_protocol (protocol key) \<noteq> None" "find_entry r key = None"
    and ob: "ob_state ob = Building" "ob_resident ob = 0"
  shows "grows (charge (r_config r) (ob_build ob) + charge (r_config r) (key_metadata_bytes key)) r
           (add_build_bytes (ob_build ob) (put_entry key ob r))"
proof -
  let ?q = "add_build_bytes (ob_build ob) (put_entry key ob r)"
  have eq: "tally w ?q = tally w (put_entry key ob r)" "well_formed ?q = well_formed (put_entry key ob r)" for w
    by (simp_all add: byte_counters)
  have "tally w ?q = tally w r + w_entry w key ob" if "safe r" for w
    using tally_put_entry [of r key w ob] assms that unfolding eq by (simp add: safe_parts)
  moreover have "well_formed ?q" if "safe r"
    unfolding eq using that ob by (intro wf_put_entry) (simp_all add: safe_parts phase_ok_def)
  ultimately have "grows (w_entry (W_potential (r_config r) :: 'v weights) key ob) r ?q"
    by (intro grows_more [where k = "\<lambda>w. w_entry w key ob"])
      (simp_all add: byte_counters repo_simps ob both_charges_def ready_count_def)
  then show ?thesis by (simp add: both_charges_def ob)
qed

lemma grows_put_generation:
  fixes r :: "'v repository"
  assumes "omap_get (r_generations r) key = None"
  shows "grows (charge (r_config r) (key_metadata_bytes key)) r
           (on_stats (\<lambda>s. s\<lparr>st_generation := st_generation s + 1\<rparr>)
             (add_metadata_bytes (key_metadata_bytes key) (r\<lparr>r_generations := omap_put key 0 (r_generations r)\<rparr>)))"
    (is "grows _ _ ?q")
proof -
  have "grows (w_gen (W_potential (r_config r) :: 'v weights) key) r ?q"
    by (rule grows_more [where k = "\<lambda>w. w_gen w key"])
      (simp_all add: byte_counters repo_simps wf_small_maps safe_parts tally_put_generation safe_generations assms)
  then show ?thesis by simp
qed

lemma grows_bump_generation:
  assumes "omap_get (r_generations r) key \<noteq> None"
  shows "grows 0 r (r\<lparr>r_generations := omap_put key g (r_generations r)\<rparr>)"
proof (rule growsI)
  let ?q = "r\<lparr>r_generations := omap_put key g (r_generations r)\<rparr>"
  assume s: "safe r"
  obtain n where "omap_get (r_generations r) key = Some n" using assms by blast
  with s have "tally w ?q = tally w r" for w by (simp add: tally_put_generation safe_generations)
  with s show "safe ?q \<and> potential ?q \<le> potential r + 0 \<and> r_config ?q = r_config r"
    using wf_small_maps(2) [of r key g] by (simp add: safe_def potential_def exact_def)
qed

lemma grows_start_canonical:
  assumes "canonical_store_for_protocol (protocol key) \<noteq> None" "find_entry r key = None"
  shows "grows (charge (r_config r) build + 2 * charge (r_config r) (key_metadata_bytes key)) r
           (start_canonical key type_tag build r)"
proof -
  let ?c = "charge (r_config r) (key_metadata_bytes key)"
  define r1 where "r1 = (if omap_get (r_generations r) key = None
                then on_stats (\<lambda>s. s\<lparr>st_generation := st_generation s + 1\<rparr>)
                       (add_metadata_bytes (key_metadata_bytes key)
                          (r\<lparr>r_generations := omap_put key 0 (r_generations r)\<rparr>))
                else r)"
  define g where "g = (case omap_get (r_generations r1) key of None \<Rightarrow> 0 | Some n \<Rightarrow> n) + 1"
  define r2 where "r2 = r1\<lparr>r_generations := omap_put key g (r_generations r1)\<rparr>"
  define n where "n = fst (next_access_sequence r2)"
  define r3 where "r3 = r2\<lparr>r_sequence := n\<rparr>"
  define ob :: "'a canonical_object" where "ob = \<lparr>ob_state = Building, ob_type = type_tag, ob_value = None, ob_resident = 0,
    ob_build = build, ob_access = n, ob_generation = g\<rparr>"
  have g1: "grows ?c r r1" using grows_put_generation [of r key] by (auto simp: r1_def)
  have "omap_get (r_generations r1) key \<noteq> None" by (simp add: r1_def repo_simps omap_get_put)
  then have "grows 0 r1 r2" unfolding r2_def by (rule grows_bump_generation)
  then have "grows 0 r1 r3" unfolding r3_def by (rule grows_then [OF _ grows_sequence])
  with g1 have g3: "grows ?c r r3" by (rule grows_then)
  have c: "r_config r3 = r_config r" "find_entry r3 key = None" using assms(2)
    by (simp_all add: r3_def r2_def r1_def repo_simps)
  have "grows (charge (r_config r) build + ?c) r3 (add_build_bytes build (put_entry key ob r3))"
    using grows_put_build [OF assms(1) c(2), of ob] by (simp add: ob_def c)
  moreover have "\<exists>e. start_canonical key type_tag build r = emit e (add_build_bytes build (put_entry key ob r3))"
    unfolding start_canonical_def Let_def next_access_sequence_def case_prod_conv r1_def g_def r2_def n_def r3_def ob_def fst_conv
    by (rule exI) (rule refl)
  ultimately have "grows (charge (r_config r) build + ?c) r3 (start_canonical key type_tag build r)"
    using grows_then [OF _ grows_emit] by metis
  from grows_trans [OF g3 this] show ?thesis by (rule grows_le) simp
qed

lemma return_build_find:
  "find_entry r key = Some ob \<Longrightarrow> find_entry (return_build key ob r) key = Some (ob\<lparr>ob_build := 0\<rparr>)"
  by (simp add: return_build_def find_put_entry find_entry_store)

lemma grows_return_build:
  fixes r :: "'v repository"
  assumes f: "find_entry r key = Some ob" and b: "ob_state ob = Building"
  shows "grows 0 r (return_build key ob r)"
proof -
  let ?q = "return_build key ob r" and ?ob = "ob\<lparr>ob_build := 0\<rparr>"
  let ?k = "\<lambda>w :: 'v weights. w_entry w key ob - w_entry w key ?ob"
  have eq: "tally w ?q = tally w (put_entry key ?ob r)" "well_formed ?q = well_formed (put_entry key ?ob r)" for w
    by (rule tally_cong well_formed_cong;
      simp add: return_build_def byte_counters repo_simps put_entry_def split: option.split)+
  have le: "w_entry w key ?ob \<le> w_entry w key ob" if "w \<in> named (r_config r)" for w :: "'v weights"
    using that by (auto simp: named_def both_charges_def ready_count_def)
  have t: "tally w ?q + ?k w = tally w r" if "safe r" "w \<in> named (r_config r)" for w
    using tally_put_entry [of r key w ?ob] that f find_entry_store [OF f] le [OF that(2)] unfolding eq
    by (simp add: safe_parts)
  have p: "phase_ok ?ob" if "safe r"
    using find_entry_phase [of r key ob] that f b by (simp add: safe_parts phase_ok_def)
  show ?thesis
    by (rule micro(1) [where k = ?k])
      (simp_all add: t, simp_all add: eq wf_put_entry safe_parts p return_build_def byte_counters repo_simps
         both_charges_def ready_count_def b)
qed

lemma grows_abandon:
  fixes r :: "'v repository"
  assumes f: "find_entry r key = Some ob" and b: "ob_state ob = Building" "ob_resident ob = 0" "ob_build ob = 0"
  shows "grows 0 r (abandon_canonical key reason bytes r)"
proof -
  have "grows 0 r (del_entry key r)"
    by (rule micro(1) [where k = "\<lambda>w. w_entry w key ob"])
      (simp_all add: wf_del_entry safe_parts tally_del_entry f repo_simps b both_charges_def ready_count_def)
  then show ?thesis unfolding abandon_canonical_def
    by (rule grows_then [OF grows_then [OF _ grows_erase_generation] grows_emit])
qed

lemma grows_admit:
  fixes r :: "'v repository"
  assumes f: "find_entry r key = Some ob" and b: "ob_state ob = Building" "ob_resident ob = 0" "ob_build ob = 0"
  shows "grows (charge (r_config r) n) r
    (on_stats (\<lambda>s. s\<lparr>st_canonical := st_canonical s + 1\<rparr>)
      (add_resident_bytes n (put_entry key (ob\<lparr>ob_state := Ready, ob_value := Some v, ob_resident := n\<rparr>) r)))"
    (is "grows _ _ ?q")
proof -
  let ?ob = "ob\<lparr>ob_state := Ready, ob_value := Some v, ob_resident := n\<rparr>"
  let ?k = "\<lambda>w :: 'v weights. w_entry w key ?ob - w_entry w key ob"
  have le: "w_entry w key ob \<le> w_entry w key ?ob" if "w \<in> named (r_config r)" for w :: "'v weights"
    using that b by (auto simp: named_def both_charges_def ready_count_def)
  have t: "tally w (put_entry key ?ob r) = tally w r + ?k w" if "safe r" "w \<in> named (r_config r)" for w
    using tally_put_entry [of r key w ?ob] that f find_entry_store [OF f] le [OF that(2)]
    by (simp add: safe_parts)
  have "phase_ok ?ob" using b by (simp add: phase_ok_def)
  then have "grows (?k (W_potential (r_config r))) r ?q"
    by (intro grows_more [where k = ?k])
      (simp_all add: byte_counters t wf_put_entry safe_parts, simp_all add: repo_simps both_charges_def ready_count_def b)
  then show ?thesis by (simp add: both_charges_def b)
qed

lemma grows_settle:
  assumes f: "find_entry r key = Some ob" and b: "ob_state ob = Building" "ob_resident ob = 0" "ob_build ob = 0"
  shows "grows (charge (r_config r) n) r (settle_canonical key v n r)"
proof -
  let ?ob = "ob\<lparr>ob_state := Ready, ob_value := Some v, ob_resident := n\<rparr>"
  define r2 where "r2 = on_stats (\<lambda>s. s\<lparr>st_canonical := st_canonical s + 1\<rparr>) (add_resident_bytes n (put_entry key ?ob r))"
  define m where "m = fst (next_access_sequence r2)"
  define r4 where "r4 = put_entry key (?ob\<lparr>ob_access := m\<rparr>) (r2\<lparr>r_sequence := m\<rparr>)"
  have "find_entry (r2\<lparr>r_sequence := m\<rparr>) key = Some ?ob"
    using find_entry_store [OF f] by (simp add: r2_def byte_counters find_put_entry)
  then have "grows 0 r2 r4" unfolding r4_def by (rule grows_then [OF grows_sequence touch_grows])
  then have g: "grows (charge (r_config r) n) r r4" using grows_admit [OF f b, of n v] unfolding r2_def by (rule grows_then [rotated])
  let ?r5 = "enforce_soft_budget (Some key) None r4"
  have "\<exists>e c e'. settle_canonical key v n r = drop_tombstone key (emit e (if c then emit e' ?r5 else ?r5))"
    unfolding settle_canonical_def f option.case Let_def next_access_sequence_def case_prod_conv r4_def m_def r2_def fst_conv
    by (intro exI) (rule refl)
  then obtain e c e' where eq: "settle_canonical key v n r = drop_tombstone key (emit e (if c then emit e' ?r5 else ?r5))"
    by blast
  have "grows 0 r4 (if c then emit e' ?r5 else ?r5)"
    using grows_enforce_soft [of r4 "Some key" None] by (auto intro: grows_then [OF _ grows_emit])
  then have "grows 0 r4 (settle_canonical key v n r)"
    unfolding eq by (rule grows_then [OF grows_then [OF _ grows_emit] grows_drop_tombstone])
  with g show ?thesis by (rule grows_then)
qed

lemma omap_del_put: "omap_del k (omap_put k v m) = omap_del k m"
  by (induction m) (auto simp: omap_del_def)

lemma del_put_entry: "del_entry key (put_entry key ob r) = del_entry key r"
  by (simp add: del_entry_def put_entry_def omap_del_put split: option.split)

lemma find_hard_room_None:
  assumes "find_entry r key = None"
  shows "find_entry (snd (snd (make_hard_room nc pcan pind err rk excluded r))) key = None"
proof -
  have c: "find_entry q key = None \<Longrightarrow> find_entry (evict_canonicals b n e reason ks q) key = None" for b n e reason ks q
    by (induction ks arbitrary: q) (simp_all add: evict_canonical_find)
  have "find_entry (evict_to_budget b n pc pd reason preserve e r) key = None" for b n pc pd reason preserve e
  proof -
    obtain early q where q: "evict_indexes b n e reason (index_candidates pd preserve r) r = (early, q)" by fastforce
    have "find_entry q key = None"
      using evict_indexes_find [of b n e reason "index_candidates pd preserve r" r key] assms q by simp
    then show ?thesis using assms c by (auto simp: evict_to_budget_def q split: bool.split)
  qed
  then show ?thesis by (simp add: make_hard_room_def Let_def release_keeps)
qed

lemma grows_set_build:
  fixes r :: "'v repository"
  assumes f: "find_entry r key = Some ob" and b: "ob_state ob = Building" "ob_resident ob = 0" "ob_build ob = 0"
  shows "grows (charge (r_config r) n) r (add_build_bytes n (put_entry key (ob\<lparr>ob_build := n\<rparr>) r))"
    (is "grows _ _ ?q")
proof -
  let ?ob = "ob\<lparr>ob_build := n\<rparr>"
  let ?k = "\<lambda>w :: 'v weights. w_entry w key ?ob - w_entry w key ob"
  have le: "w_entry w key ob \<le> w_entry w key ?ob" if "w \<in> named (r_config r)" for w :: "'v weights"
    using that b by (auto simp: named_def both_charges_def ready_count_def)
  have t: "tally w (put_entry key ?ob r) = tally w r + ?k w" if "safe r" "w \<in> named (r_config r)" for w
    using tally_put_entry [of r key w ?ob] that f find_entry_store [OF f] le [OF that(2)]
    by (simp add: safe_parts)
  have "phase_ok ?ob" using b by (simp add: phase_ok_def)
  then have "grows (?k (W_potential (r_config r))) r ?q"
    by (intro grows_more [where k = ?k])
      (simp_all add: byte_counters t wf_put_entry safe_parts, simp_all add: repo_simps both_charges_def ready_count_def b)
  then show ?thesis by (simp add: both_charges_def b)
qed

text \<open>Making room for an object in construction: the room is made and the object is as it was.\<close>

lemma room_for_building:
  assumes s: "safe r" and f: "find_entry r key = Some ob" and b: "ob_state ob = Building"
    and m: "make_hard_room nc (Some key) None err key excluded (return_build key ob r) = (ok, err', r1)"
  shows "safe r1 \<and> potential r1 \<le> potential r \<and> r_config r1 = r_config r \<and>
    find_entry r1 key = Some (ob\<lparr>ob_build := 0\<rparr>) \<and> ob_resident ob = 0"
proof -
  let ?q = "return_build key ob r"
  have q: "safe ?q" "potential ?q \<le> potential r" "r_config ?q = r_config r"
    using grows_zeroD [OF grows_return_build [OF f b] s] by simp_all
  have "find_entry r1 key = find_entry ?q key"
    using hard_room_keeps_entry [of ?q "Some key" key nc None err key excluded] q(1) m by (simp add: shielded_def)
  moreover have "safe r1 \<and> potential r1 \<le> potential ?q \<and> r_config r1 = r_config ?q"
    using grows_zeroD [OF grows_make_hard_room q(1), of nc "Some key" None err key excluded] m by simp
  moreover have "ob_resident ob = 0"
    using find_entry_phase [of r key ob] s f b by (simp add: safe_parts phase_ok_def)
  ultimately show ?thesis using q return_build_find [OF f] by simp
qed

lemma grows_siblings: "grows 0 r (erase_stream_sibling_ranges key r)"
  unfolding erase_stream_sibling_ranges_def by (rule grows_fold) (rule grows_erase_canonical)

lemma fold_erase_find:
  "find_entry (fold (\<lambda>k. erase_canonical_internal k reason cur) ks r) j = (if j \<in> set ks then None else find_entry r j)"
  by (induction ks arbitrary: r) (auto simp: erase_canonical_find)

lemma siblings_find_self: "find_entry (erase_stream_sibling_ranges key r) key = find_entry r key"
  by (auto simp: erase_stream_sibling_ranges_def fold_erase_find is_stream_sibling_range_def)

lemma grows_publish: "grows (charge (r_config r) n) r (snd (snd (publish_canonical key type_tag v n err r)))"
proof (rule growsI)
  assume s: "safe r" and room: "potential r + charge (r_config r) n < umax"
  let ?p = "publish_canonical key type_tag v n err r"
  show "safe (snd (snd ?p)) \<and> potential (snd (snd ?p)) \<le> potential r + charge (r_config r) n \<and>
      r_config (snd (snd ?p)) = r_config r"
  proof (cases "\<exists>ob u. find_entry r key = Some ob \<and> v = Some u \<and> ob_state ob = Building \<and> ob_type ob = type_tag")
    case False
    then have "snd (snd ?p) = r"
      by (auto simp: publish_canonical_def Let_def split: option.split)
    with s show ?thesis by simp
  next
    case True
    then obtain ob u where f: "find_entry r key = Some ob" and v: "v = Some u" and b: "ob_state ob = Building"
      and tt: "ob_type ob = type_tag" by blast
    define excl where "excl = (if protocol key = ''stream'' \<and> scope key = Scope_Full then Some key else None)"
    obtain ok err' r1 where m: "make_hard_room (charge (r_config r) n) (Some key) None err key excl (return_build key ob r) = (ok, err', r1)"
      by (metis prod_cases3)
    note r1 = room_for_building [OF s f b m]
    obtain st where st: "canonical_store_for_protocol (protocol key) = Some st" using find_entry_store [OF f] by blast
    let ?ob = "ob\<lparr>ob_build := 0\<rparr>"
    show ?thesis
    proof (cases ok)
      case False
      have "snd (snd ?p) = abandon_canonical key ''hard_limit'' n r1"
        using m False by (simp add: publish_canonical_def f v b tt st flip: excl_def)
      moreover have "grows 0 r1 (abandon_canonical key ''hard_limit'' n r1)"
        by (rule grows_abandon [where ob = ?ob]) (use r1 b in simp_all)
      ultimately show ?thesis using grows_zeroD [of r1 "abandon_canonical key ''hard_limit'' n r1"] r1 by fastforce
    next
      case True
      define r2 where "r2 = (if excl \<noteq> None then erase_stream_sibling_ranges key r1 else r1)"
      have p: "snd (snd ?p) = settle_canonical key u n r2"
        using m True by (simp add: publish_canonical_def f v b tt st r2_def flip: excl_def)
      have "grows 0 r1 r2" by (simp add: r2_def grows_siblings)
      then have r2: "safe r2 \<and> potential r2 \<le> potential r1 \<and> r_config r2 = r_config r1" using r1 grows_zeroD by blast
      have "find_entry r2 key = Some ?ob" using r1 by (simp add: r2_def siblings_find_self)
      then have "grows (charge (r_config r2) n) r2 (settle_canonical key u n r2)"
        by (rule grows_settle) (use r1 b in simp_all)
      then show ?thesis using r1 r2 room p by (auto simp: grows_def)
    qed
  qed
qed

lemma grows_update_build:
  "grows (charge (r_config r) n) r (snd (snd (update_canonical_build_bytes key n err r)))"
proof (rule growsI)
  assume s: "safe r" and room: "potential r + charge (r_config r) n < umax"
  let ?p = "update_canonical_build_bytes key n err r"
  show "safe (snd (snd ?p)) \<and> potential (snd (snd ?p)) \<le> potential r + charge (r_config r) n \<and>
      r_config (snd (snd ?p)) = r_config r"
  proof (cases "\<exists>ob. find_entry r key = Some ob \<and> ob_state ob = Building")
    case False
    then have "snd (snd ?p) = r" by (auto simp: update_canonical_build_bytes_def Let_def split: option.split)
    with s show ?thesis by simp
  next
    case True
    then obtain ob where f: "find_entry r key = Some ob" and b: "ob_state ob = Building" by blast
    obtain ok err' r1 where m: "make_hard_room (charge (r_config r) n) (Some key) None err key None (return_build key ob r) = (ok, err', r1)"
      by (metis prod_cases3)
    note r1 = room_for_building [OF s f b m]
    obtain st where st: "canonical_store_for_protocol (protocol key) = Some st" using find_entry_store [OF f] by blast
    let ?ob = "ob\<lparr>ob_build := 0\<rparr>"
    show ?thesis
    proof (cases ok)
      case False
      have "snd (snd ?p) = abandon_canonical key ''hard_limit'' n r1"
        using m False by (simp add: update_canonical_build_bytes_def f b st)
      moreover have "grows 0 r1 (abandon_canonical key ''hard_limit'' n r1)"
        by (rule grows_abandon [where ob = ?ob]) (use r1 b in simp_all)
      ultimately show ?thesis using grows_zeroD [of r1 "abandon_canonical key ''hard_limit'' n r1"] r1 by fastforce
    next
      case True
      have p: "snd (snd ?p) = add_build_bytes n (put_entry key (?ob\<lparr>ob_build := n\<rparr>) r1)"
        using m True r1 by (simp add: update_canonical_build_bytes_def f b st)
      have "grows (charge (r_config r1) n) r1 (add_build_bytes n (put_entry key (?ob\<lparr>ob_build := n\<rparr>) r1))"
        by (rule grows_set_build) (use r1 b in simp_all)
      then show ?thesis using r1 room p by (auto simp: grows_def)
    qed
  qed
qed

lemma grows_begin:
  "grows (charge (r_config r) n + 2 * charge (r_config r) (key_metadata_bytes key)) r
     (snd (snd (begin_canonical key type_tag n r)))"
proof (rule growsI)
  assume s: "safe r" and room: "potential r + (charge (r_config r) n + 2 * charge (r_config r) (key_metadata_bytes key)) < umax"
  let ?p = "begin_canonical key type_tag n r"
  show "safe (snd (snd ?p)) \<and>
      potential (snd (snd ?p)) \<le> potential r + (charge (r_config r) n + 2 * charge (r_config r) (key_metadata_bytes key)) \<and>
      r_config (snd (snd ?p)) = r_config r"
  proof (cases "canonical_store_for_protocol (protocol key) = None")
    case True
    then show ?thesis using s by (simp add: begin_canonical_def)
  next
    case False
    obtain sid where st: "canonical_store_for_protocol (protocol key) = Some sid" using False by blast
    show ?thesis
    proof (cases "find_entry r key")
      case (Some ob)
      have "grows 0 r (snd (snd ?p))"
        using st next_access_eq [of r] grows_hit [OF Some]
        by (auto simp: begin_canonical_def Some Let_def split: prod.split)
      from grows_zeroD [OF this s] show ?thesis by simp
    next
      case None
      define meta where "meta = (if omap_get (r_generations r) key = None then charge (r_config r) (key_metadata_bytes key) else 0)"
      obtain ok err' r1 where m: "make_hard_room (sat_add (charge (r_config r) n) meta) None None no_error key None r = (ok, err', r1)"
        by (metis prod_cases3)
      have r1: "safe r1 \<and> potential r1 \<le> potential r \<and> r_config r1 = r_config r"
        using grows_zeroD [OF grows_make_hard_room s] m by (metis snd_conv)
      have f1: "find_entry r1 key = None" using find_hard_room_None [OF None] m by (metis snd_conv)
      have g: "grows (charge (r_config r1) n + 2 * charge (r_config r1) (key_metadata_bytes key)) r1
          (start_canonical key type_tag n r1)"
        by (rule grows_start_canonical) (simp_all add: st f1)
      show ?thesis
      proof (cases ok)
        case True
        then have "snd (snd ?p) = start_canonical key type_tag n r1"
          using st m by (simp add: begin_canonical_def None Let_def flip: meta_def)
        then show ?thesis using g r1 room by (auto simp: grows_def)
      next
        case False
        then have "snd (snd ?p) = emit (key_event ''build_failed'' key ''canonical'' ''hard_limit'' n 0 0 0 0) r1"
          using st m by (simp add: begin_canonical_def None Let_def flip: meta_def)
        then show ?thesis using r1 by simp
      qed
    qed
  qed
qed

lemma grows_fail: "grows 0 r (fail_canonical key reason r)"
proof (rule growsI)
  assume s: "safe r"
  show "safe (fail_canonical key reason r) \<and> potential (fail_canonical key reason r) \<le> potential r + 0 \<and>
      r_config (fail_canonical key reason r) = r_config r"
  proof (cases "\<exists>ob. find_entry r key = Some ob \<and> ob_state ob = Building")
    case False
    then have "fail_canonical key reason r = r" by (auto simp: fail_canonical_def split: option.split)
    with s show ?thesis by simp
  next
    case True
    then obtain ob where f: "find_entry r key = Some ob" and b: "ob_state ob = Building" by blast
    let ?q = "return_build key ob r"
    have "del_entry key ?q = del_entry key (remove_build_bytes (ob_build ob) r)"
      using s by (simp add: return_build_def del_put_entry)
    then have eq: "fail_canonical key reason r = abandon_canonical key reason (ob_build ob) ?q"
      by (simp add: fail_canonical_def f b abandon_canonical_def)
    have q: "safe ?q \<and> potential ?q \<le> potential r \<and> r_config ?q = r_config r"
      using grows_zeroD [OF grows_return_build [OF f b] s] .
    have "ob_resident ob = 0" using find_entry_phase [of r key ob] s f b by (simp add: safe_parts phase_ok_def)
    then have "grows 0 ?q (abandon_canonical key reason (ob_build ob) ?q)"
      by (intro grows_abandon [OF return_build_find [OF f]]) (simp_all add: b)
    then show ?thesis using q eq grows_zeroD by fastforce
  qed
qed

lemma grows_find: "grows 0 r (snd (find_canonical key type_tag rec r))"
  using next_access_eq [of r] grows_hit [of r key]
  by (auto simp: find_canonical_def Let_def split: option.split prod.split)

section \<open>Operations on indexes\<close>

lemma find_index_neutral [simp]: "find_entry (put_index ik ob r) k = find_entry r k" "find_entry (del_index ik r) k = find_entry r k"
  by (rule find_entry_cong; simp add: repo_simps)+

lemma index_phase: "safe r \<Longrightarrow> omap_get (r_indexes r) ik = Some ob \<Longrightarrow> phase_ok ob"
  by (simp add: safe_def well_formed_def indexes_ok_def)

lemma touch_index_grows:
  assumes "omap_get (r_indexes r) ik = Some ob"
  shows "grows 0 r (put_index ik (ob\<lparr>ob_access := n\<rparr>) r)"
proof (rule growsI)
  assume s: "safe r"
  let ?q = "put_index ik (ob\<lparr>ob_access := n\<rparr>) r"
  have t: "tally w ?q = tally w r" if "w \<in> named (r_config r)" for w
    using tally_put_index [of r w ik "ob\<lparr>ob_access := n\<rparr>"] s assms that
    by (auto simp: safe_parts named_def both_charges_def ready_count_def)
  have "well_formed ?q" using s index_phase [OF s assms] by (intro wf_put_index) (simp_all add: safe_parts phase_ok_def)
  then show "safe ?q \<and> potential ?q \<le> potential r + 0 \<and> r_config ?q = r_config r"
    using s by (simp add: safe_def potential_def exact_def t repo_simps)
qed

lemma grows_touch_entry: "grows 0 r (touch_entry key n r)"
  by (auto simp: touch_entry_def touch_grows split: option.split)

lemma grows_hit_index:
  assumes "omap_get (r_indexes r) ik = Some ob"
  shows "grows 0 r (hit_index ik ob r)"
proof -
  let ?q = "r\<lparr>r_sequence := fst (next_access_sequence r)\<rparr>"
  have "omap_get (r_indexes ?q) ik = Some ob" using assms by simp
  from grows_then [OF grows_sequence touch_index_grows [OF this]]
  have "grows 0 r (put_index ik (ob\<lparr>ob_access := fst (next_access_sequence r)\<rparr>) ?q)" .
  then show ?thesis using next_access_eq [of r]
    by (auto simp: hit_index_def Let_def split: prod.split intro: grows_then [OF grows_then [OF _ grows_touch_entry] grows_emit])
qed

lemma grows_index_build:
  fixes r :: "'v repository"
  assumes f: "omap_get (r_indexes r) ik = None" and ob: "ob_state ob = Building" "ob_resident ob = 0"
  shows "grows (charge (r_config r) (ob_build ob)) r (add_build_bytes (ob_build ob) (put_index ik ob r))"
    (is "grows _ _ ?q")
proof -
  have t: "tally w (put_index ik ob r) = tally w r + w_index w ob" if "safe r" for w
    using tally_put_index [of r w ik ob] f that by (simp add: safe_parts)
  have "grows (w_index (W_potential (r_config r) :: 'v weights) ob) r ?q"
    by (rule grows_more [where k = "\<lambda>w. w_index w ob"])
      (simp_all add: byte_counters t wf_put_index safe_parts phase_ok_def ob,
       simp_all add: repo_simps both_charges_def ready_count_def ob)
  then show ?thesis by (simp add: both_charges_def ob)
qed

lemma grows_start_index:
  assumes "omap_get (r_indexes r) ik = None"
  shows "grows (charge (r_config r) n) r (start_index ik type_tag n r)"
proof -
  let ?m = "fst (next_access_sequence r)"
  let ?q = "r\<lparr>r_sequence := ?m\<rparr>"
  let ?ob = "\<lparr>ob_state = Building, ob_type = type_tag, ob_value = None, ob_resident = 0, ob_build = n, ob_access = ?m\<rparr>"
  have "omap_get (r_indexes ?q) ik = None" using assms by simp
  from grows_index_build [OF this, of ?ob]
  have "grows (charge (r_config r) n) ?q (add_build_bytes n (put_index ik ?ob ?q))" by simp
  then have "grows (charge (r_config r) n) r (add_build_bytes n (put_index ik ?ob ?q))"
    by (rule grows_after [OF grows_sequence])
  then show ?thesis using next_access_eq [of r]
    by (auto simp: start_index_def Let_def split: prod.split intro: grows_then [OF _ grows_emit])
qed

lemma grows_return_index_build:
  fixes r :: "'v repository"
  assumes f: "omap_get (r_indexes r) ik = Some ob" and b: "ob_state ob = Building"
  shows "grows 0 r (return_index_build ik ob r)"
proof -
  let ?q = "return_index_build ik ob r" and ?ob = "ob\<lparr>ob_build := 0\<rparr>"
  let ?k = "\<lambda>w :: 'v weights. w_index w ob - w_index w ?ob"
  have eq: "tally w ?q = tally w (put_index ik ?ob r)" "well_formed ?q = well_formed (put_index ik ?ob r)" for w
    by (rule tally_cong well_formed_cong; simp add: return_index_build_def byte_counters repo_simps)+
  have le: "w_index w ?ob \<le> w_index w ob" if "w \<in> named (r_config r)" for w :: "'v weights"
    using that by (auto simp: named_def both_charges_def ready_count_def)
  have t: "tally w ?q + ?k w = tally w r" if "safe r" "w \<in> named (r_config r)" for w
    using tally_put_index [of r w ik ?ob] that f le [OF that(2)] unfolding eq by (simp add: safe_parts)
  have p: "phase_ok ?ob" if "safe r" using index_phase [OF that f] b by (simp add: phase_ok_def)
  show ?thesis
    by (rule micro(1) [where k = ?k])
      (simp_all add: t, simp_all add: eq wf_put_index safe_parts p return_index_build_def byte_counters repo_simps
         both_charges_def ready_count_def b)
qed

lemma grows_del_index:
  fixes r :: "'v repository"
  assumes f: "omap_get (r_indexes r) ik = Some ob" and b: "ob_state ob = Building" "ob_resident ob = 0" "ob_build ob = 0"
  shows "grows 0 r (del_index ik r)"
  by (rule micro(1) [where k = "\<lambda>w. w_index w ob"])
    (simp_all add: wf_del_index safe_parts tally_del_index f repo_simps b both_charges_def ready_count_def)

lemma grows_replace_index:
  fixes r :: "'v repository"
  assumes f: "omap_get (r_indexes r) ik = Some ob" and b: "ob_state ob = Building" "ob_resident ob = 0" "ob_build ob = 0"
  shows "grows (charge (r_config r) n) r (add_build_bytes n (put_index ik (ob\<lparr>ob_build := n\<rparr>) r))" (is ?build)
    and "grows (charge (r_config r) n) r (on_stats (\<lambda>s. s\<lparr>st_index := st_index s + 1\<rparr>)
      (add_resident_bytes n (put_index ik (ob\<lparr>ob_state := Ready, ob_value := Some v, ob_resident := n\<rparr>) r)))" (is ?admit)
proof -
  have t: "tally w (put_index ik ob' r) = tally w r + (w_index w ob' - w_index w ob)"
    if "safe r" "w \<in> named (r_config r)" "ob_resident ob' \<ge> ob_resident ob" "ob_build ob' \<ge> ob_build ob" for w :: "'v weights" and ob'
    using tally_put_index [of r w ik ob'] that f b
    by (auto simp: safe_parts named_def both_charges_def ready_count_def)
  let ?ob = "ob\<lparr>ob_build := n\<rparr>" and ?or = "ob\<lparr>ob_state := Ready, ob_value := Some v, ob_resident := n\<rparr>"
  have p: "phase_ok ?ob" "phase_ok ?or" using b by (simp_all add: phase_ok_def)
  have "grows (w_index (W_potential (r_config r) :: 'v weights) ?ob - w_index (W_potential (r_config r)) ob) r
      (add_build_bytes n (put_index ik ?ob r))"
    by (rule grows_more [where k = "\<lambda>w. w_index w ?ob - w_index w ob"])
      (simp_all add: byte_counters t wf_put_index safe_parts p b, simp_all add: repo_simps both_charges_def ready_count_def b)
  then show ?build by (simp add: both_charges_def b)
  have "grows (w_index (W_potential (r_config r) :: 'v weights) ?or - w_index (W_potential (r_config r)) ob) r
      (on_stats (\<lambda>s. s\<lparr>st_index := st_index s + 1\<rparr>) (add_resident_bytes n (put_index ik ?or r)))"
    by (rule grows_more [where k = "\<lambda>w. w_index w ?or - w_index w ob"])
      (simp_all add: byte_counters t wf_put_index safe_parts p b, simp_all add: repo_simps both_charges_def ready_count_def b)
  then show ?admit by (simp add: both_charges_def b)
qed

lemma grows_settle_index:
  assumes f: "omap_get (r_indexes r) ik = Some ob" and b: "ob_state ob = Building" "ob_resident ob = 0" "ob_build ob = 0"
  shows "grows (charge (r_config r) n) r (settle_index ik v n r)"
proof -
  let ?ob = "ob\<lparr>ob_state := Ready, ob_value := Some v, ob_resident := n\<rparr>"
  define r2 where "r2 = on_stats (\<lambda>s. s\<lparr>st_index := st_index s + 1\<rparr>) (add_resident_bytes n (put_index ik ?ob r))"
  define m where "m = fst (next_access_sequence r2)"
  define r4 where "r4 = touch_entry (index_owner ik) m (put_index ik (?ob\<lparr>ob_access := m\<rparr>) (r2\<lparr>r_sequence := m\<rparr>))"
  have "omap_get (r_indexes (r2\<lparr>r_sequence := m\<rparr>)) ik = Some ?ob"
    by (simp add: r2_def byte_counters repo_simps omap_get_put)
  then have "grows 0 r2 r4" unfolding r4_def
    by (rule grows_then [OF grows_then [OF grows_sequence touch_index_grows] grows_touch_entry])
  then have g: "grows (charge (r_config r) n) r r4"
    using grows_replace_index(2) [OF f b, of n v] unfolding r2_def by (rule grows_then [rotated])
  let ?r5 = "enforce_soft_budget (Some (index_owner ik)) (Some ik) r4"
  have "\<exists>e c e'. settle_index ik v n r = emit e (if c then emit e' ?r5 else ?r5)"
    unfolding settle_index_def f option.case Let_def next_access_sequence_def case_prod_conv r4_def m_def r2_def fst_conv
    by (intro exI) (rule refl)
  then obtain e c e' where eq: "settle_index ik v n r = emit e (if c then emit e' ?r5 else ?r5)"
    by blast
  have "grows 0 r4 (if c then emit e' ?r5 else ?r5)"
    using grows_enforce_soft [of r4 "Some (index_owner ik)" "Some ik"] by (auto intro: grows_then [OF _ grows_emit])
  then have "grows 0 r4 (settle_index ik v n r)"
    unfolding eq by (rule grows_then [OF _ grows_emit])
  with g show ?thesis by (rule grows_then)
qed

text \<open>
  A lazy index belongs to a ready canonical object of its generation.
\<close>

definition owned :: "'v repository \<Rightarrow> bool" where
  "owned r \<longleftrightarrow> (\<forall>ik ob. omap_get (r_indexes r) ik = Some ob \<longrightarrow>
     (\<exists>c. find_entry r (index_owner ik) = Some c \<and> ob_state c = Ready \<and> ob_generation c = owner_generation ik))"

lemma get_hard_room_None:
  assumes "omap_get (r_indexes r) ik = None"
  shows "omap_get (r_indexes (snd (snd (make_hard_room nc pcan pind err rk excluded r)))) ik = None"
proof -
  have c: "omap_get (r_indexes q) ik = None \<Longrightarrow> omap_get (r_indexes (evict_canonicals b n e reason ks q)) ik = None"
    for b n e reason ks and q :: "'a repository"
    by (induction ks arbitrary: q) (simp_all add: evict_canonical_def erase_canonical_get)
  have i: "omap_get (r_indexes (snd (evict_indexes b n e reason iks q))) ik = None" if "omap_get (r_indexes q) ik = None"
    for b n e reason iks and q :: "'a repository"
    using that by (induction iks arbitrary: q) (simp_all add: evict_index_get)
  have "omap_get (r_indexes (evict_to_budget b n pc pd reason preserve e r)) ik = None" for b n pc pd reason preserve e
  proof -
    obtain early q where q: "evict_indexes b n e reason (index_candidates pd preserve r) r = (early, q)" by fastforce
    have "omap_get (r_indexes q) ik = None"
      using i [OF assms, of b n e reason "index_candidates pd preserve r"] q by simp
    then show ?thesis using assms c by (auto simp: evict_to_budget_def q split: bool.split)
  qed
  then show ?thesis by (simp add: make_hard_room_def Let_def release_keeps)
qed

lemma room_for_index:
  assumes s: "safe r" and f: "omap_get (r_indexes r) ik = Some ob" and b: "ob_state ob = Building"
    and m: "make_hard_room nc (Some (index_owner ik)) (Some ik) err rk None (return_index_build ik ob r) = (ok, err', r1)"
  shows "safe r1 \<and> potential r1 \<le> potential r \<and> r_config r1 = r_config r \<and>
    omap_get (r_indexes r1) ik = Some (ob\<lparr>ob_build := 0\<rparr>) \<and> ob_resident ob = 0"
proof -
  let ?q = "return_index_build ik ob r"
  have q: "safe ?q" "potential ?q \<le> potential r" "r_config ?q = r_config r"
    using grows_zeroD [OF grows_return_index_build [OF f b] s] by simp_all
  have "omap_get (r_indexes r1) ik = omap_get (r_indexes ?q) ik"
    using hard_room_keeps_index [of ?q "Some (index_owner ik)" ik "Some ik" nc err rk None] q(1) m by (simp add: shielded_def)
  moreover have "safe r1 \<and> potential r1 \<le> potential ?q \<and> r_config r1 = r_config ?q"
    using grows_zeroD [OF grows_make_hard_room q(1), of nc "Some (index_owner ik)" "Some ik" err rk None] m by simp
  moreover have "omap_get (r_indexes ?q) ik = Some (ob\<lparr>ob_build := 0\<rparr>)"
    by (simp add: return_index_build_def repo_simps omap_get_put)
  moreover have "ob_resident ob = 0" using index_phase [OF s f] b by (simp add: phase_ok_def)
  ultimately show ?thesis using q by simp
qed

lemma grows_publish_index: "grows (charge (r_config r) n) r (snd (snd (publish_index ik type_tag v n err r)))"
proof (rule growsI)
  assume s: "safe r" and room: "potential r + charge (r_config r) n < umax"
  let ?p = "publish_index ik type_tag v n err r"
  show "safe (snd (snd ?p)) \<and> potential (snd (snd ?p)) \<le> potential r + charge (r_config r) n \<and>
      r_config (snd (snd ?p)) = r_config r"
  proof (cases "\<exists>ob u. omap_get (r_indexes r) ik = Some ob \<and> v = Some u \<and> ob_state ob = Building \<and> ob_type ob = type_tag")
    case False
    then have "snd (snd ?p) = r" by (auto simp: publish_index_def Let_def split: option.split)
    with s show ?thesis by simp
  next
    case True
    then obtain ob u where f: "omap_get (r_indexes r) ik = Some ob" and v: "v = Some u" and b: "ob_state ob = Building"
      and tt: "ob_type ob = type_tag" by blast
    obtain ok err' r1 where m: "make_hard_room (charge (r_config r) n) (Some (index_owner ik)) (Some ik) err (index_owner ik) None
        (return_index_build ik ob r) = (ok, err', r1)"
      by (metis prod_cases3)
    note r1 = room_for_index [OF s f b m]
    let ?ob = "ob\<lparr>ob_build := 0\<rparr>"
    have ob: "omap_get (r_indexes r1) ik = Some ?ob" "ob_state ?ob = Building" "ob_resident ?ob = 0" "ob_build ?ob = 0"
      using r1 b by simp_all
    have "snd (snd ?p) = (if ok then settle_index ik u n r1 else del_index ik r1)"
      using m by (simp add: publish_index_def f v b tt)
    moreover have "grows (charge (r_config r1) n) r1 (if ok then settle_index ik u n r1 else del_index ik r1)"
      using grows_settle_index [OF ob, of n u] grows_le [OF grows_del_index [OF ob]] by simp
    ultimately show ?thesis using r1 room by (auto simp: grows_def)
  qed
qed

lemma grows_update_index: "grows (charge (r_config r) n) r (snd (snd (update_index_build_bytes ik n err r)))"
proof (rule growsI)
  assume s: "safe r" and room: "potential r + charge (r_config r) n < umax"
  let ?p = "update_index_build_bytes ik n err r"
  show "safe (snd (snd ?p)) \<and> potential (snd (snd ?p)) \<le> potential r + charge (r_config r) n \<and>
      r_config (snd (snd ?p)) = r_config r"
  proof (cases "\<exists>ob. omap_get (r_indexes r) ik = Some ob \<and> ob_state ob = Building")
    case False
    then have "snd (snd ?p) = r" by (auto simp: update_index_build_bytes_def Let_def split: option.split)
    with s show ?thesis by simp
  next
    case True
    then obtain ob where f: "omap_get (r_indexes r) ik = Some ob" and b: "ob_state ob = Building" by blast
    obtain ok err' r1 where m: "make_hard_room (charge (r_config r) n) (Some (index_owner ik)) (Some ik) err (index_owner ik) None
        (return_index_build ik ob r) = (ok, err', r1)"
      by (metis prod_cases3)
    note r1 = room_for_index [OF s f b m]
    let ?ob = "ob\<lparr>ob_build := 0\<rparr>"
    have ob: "omap_get (r_indexes r1) ik = Some ?ob" "ob_state ?ob = Building" "ob_resident ?ob = 0" "ob_build ?ob = 0"
      using r1 b by simp_all
    define e where "e = index_event ''build_failed'' ik ''hard_limit'' n 0 0 0 0"
    have "snd (snd ?p) = (if ok then add_build_bytes n (put_index ik (?ob\<lparr>ob_build := n\<rparr>) r1) else emit e (del_index ik r1))"
      using m r1 by (simp add: update_index_build_bytes_def f b e_def)
    moreover have "grows (charge (r_config r1) n) r1
        (if ok then add_build_bytes n (put_index ik (?ob\<lparr>ob_build := n\<rparr>) r1) else emit e (del_index ik r1))"
      using grows_replace_index(1) [OF ob, of n] grows_le [OF grows_then [OF grows_del_index [OF ob] grows_emit]] by simp
    ultimately show ?thesis using r1 room by (auto simp: grows_def)
  qed
qed

lemma grows_fail_index: "grows 0 r (fail_index ik reason r)"
proof (rule growsI)
  assume s: "safe r"
  show "safe (fail_index ik reason r) \<and> potential (fail_index ik reason r) \<le> potential r + 0 \<and>
      r_config (fail_index ik reason r) = r_config r"
  proof (cases "\<exists>ob. omap_get (r_indexes r) ik = Some ob \<and> ob_state ob = Building")
    case False
    then have "fail_index ik reason r = r" by (auto simp: fail_index_def split: option.split)
    with s show ?thesis by simp
  next
    case True
    then obtain ob where f: "omap_get (r_indexes r) ik = Some ob" and b: "ob_state ob = Building" by blast
    let ?q = "return_index_build ik ob r"
    have "del_index ik ?q = del_index ik (remove_build_bytes (ob_build ob) r)"
      by (simp add: return_index_build_def del_index_def put_index_def omap_del_put)
    then have eq: "fail_index ik reason r = emit (index_event ''build_failed'' ik reason (ob_build ob) 0 0 0 0) (del_index ik ?q)"
      by (simp add: fail_index_def f b)
    have q: "safe ?q \<and> potential ?q \<le> potential r \<and> r_config ?q = r_config r"
      using grows_zeroD [OF grows_return_index_build [OF f b] s] .
    have "ob_resident ob = 0" using index_phase [OF s f] b by (simp add: phase_ok_def)
    then have "grows 0 ?q (del_index ik ?q)"
      by (intro grows_del_index [where ob = "ob\<lparr>ob_build := 0\<rparr>"])
        (simp_all add: b return_index_build_def repo_simps omap_get_put)
    then show ?thesis using q eq grows_zeroD [of ?q "del_index ik ?q"] by simp
  qed
qed

lemma grows_begin_index: "grows (charge (r_config r) n) r (snd (snd (begin_index ik type_tag n r)))"
proof (rule growsI)
  assume s: "safe r" and room: "potential r + charge (r_config r) n < umax"
  let ?p = "begin_index ik type_tag n r"
  show "safe (snd (snd ?p)) \<and> potential (snd (snd ?p)) \<le> potential r + charge (r_config r) n \<and>
      r_config (snd (snd ?p)) = r_config r"
  proof (cases "\<exists>c sid. canonical_store_for_protocol (protocol (index_owner ik)) = Some sid \<and>
      find_entry r (index_owner ik) = Some c \<and> ob_state c = Ready \<and> ob_generation c = owner_generation ik")
    case False
    then have "snd (snd ?p) = r" by (auto simp: begin_index_def Let_def split: option.split)
    with s show ?thesis by simp
  next
    case True
    then obtain c sid where c: "canonical_store_for_protocol (protocol (index_owner ik)) = Some sid"
      "find_entry r (index_owner ik) = Some c" "ob_state c = Ready" "ob_generation c = owner_generation ik" by blast
    show ?thesis
    proof (cases "omap_get (r_indexes r) ik")
      case (Some ob)
      have "snd (snd ?p) = r \<or> snd (snd ?p) = hit_index ik ob r"
        using c by (auto simp: begin_index_def Some)
      then show ?thesis using s grows_zeroD [OF grows_hit_index [OF Some] s] by auto
    next
      case None
      obtain ok err' r1 where m: "make_hard_room (charge (r_config r) n) (Some (index_owner ik)) None no_error (index_owner ik) None r
          = (ok, err', r1)"
        by (metis prod_cases3)
      have r1: "safe r1 \<and> potential r1 \<le> potential r \<and> r_config r1 = r_config r"
        using grows_zeroD [OF grows_make_hard_room s, of "charge (r_config r) n" "Some (index_owner ik)" None no_error "index_owner ik" None] m
        by simp
      have n1: "omap_get (r_indexes r1) ik = None" using get_hard_room_None [OF None] m by (metis snd_conv)
      have "snd (snd ?p) = (if ok then start_index ik type_tag n r1 else r1)"
        using c m by (simp add: begin_index_def None)
      moreover have "grows (charge (r_config r1) n) r1 (if ok then start_index ik type_tag n r1 else r1)"
        using grows_start_index [OF n1] by simp
      ultimately show ?thesis using r1 room by (auto simp: grows_def)
    qed
  qed
qed

section \<open>Cursors and bindings\<close>

lemma grows_swap:
  fixes r r' :: "'v repository"
  assumes wf: "safe r \<Longrightarrow> well_formed r'"
    and t: "\<And>w :: 'v weights. safe r \<Longrightarrow> w \<in> named (r_config r) \<Longrightarrow> tally w r' + a w = tally w r + b w"
    and a: "\<And>w :: 'v weights. safe r \<Longrightarrow> w \<in> named (r_config r) \<Longrightarrow> a w \<le> tally w r"
    and c: "r_config r' = r_config r"
    and "st_resident (r_stats r') = sat_add (st_resident (r_stats r) - a W_resident) (b W_resident)"
    and "st_build (r_stats r') = sat_add (st_build (r_stats r) - a W_build) (b W_build)"
    and "st_metadata (r_stats r') = sat_add (st_metadata (r_stats r) - a W_metadata) (b W_metadata)"
    and "st_charged (r_stats r') = sat_add (st_charged (r_stats r) - a (W_charged (r_config r))) (b (W_charged (r_config r)))"
    and "st_canonical (r_stats r') = st_canonical (r_stats r) + b W_canonical - a W_canonical"
    and "st_index (r_stats r') = st_index (r_stats r) + b W_index - a W_index"
    and "st_generation (r_stats r') = st_generation (r_stats r) + b W_generation - a W_generation"
    and "st_tombstone (r_stats r') = st_tombstone (r_stats r) + b W_tombstone - a W_tombstone"
    and "st_cursor (r_stats r') = st_cursor (r_stats r) + b W_cursor - a W_cursor"
    and "st_binding (r_stats r') = st_binding (r_stats r) + b W_binding - a W_binding"
  shows "grows (b (W_potential (r_config r))) r r'"
proof (rule growsI)
  assume s: "safe r" and room: "potential r + b (W_potential (r_config r)) < umax"
  have p: "potential r' \<le> potential r + b (W_potential (r_config r))"
    using t [OF s, of "W_potential (r_config r)"] c by (simp add: potential_def)
  have f: "1 \<le> estimator_safety_factor (r_config r')" using s c by (simp add: safe_def)
  have eq: "tally w r' = tally w r - a w + b w" if "w \<in> named (r_config r)" for w
    using t [OF s that] a [OF s that] by simp
  have "tally W_resident r' < umax" "tally W_build r' < umax" "tally W_metadata r' < umax"
    "tally (W_charged (r_config r')) r' < umax"
    using bytes_below [of r'] p room f by simp_all
  then have "exact r'"
    using assms(5-) s c a [OF s] unfolding exact_def by (simp add: eq sat_add_exact safe_def exact_def)
  then show "safe r' \<and> potential r' \<le> potential r + b (W_potential (r_config r)) \<and> r_config r' = r_config r"
    using p room s wf c by (simp add: safe_def)
qed

lemma tally_cursor_le:
  assumes "omap_ok (r_cursors r)" "omap_get (r_cursors r) cid = Some c"
  shows "w_cursor w c \<le> tally w r"
  using tally_del_cursor [OF assms, of w] by simp

definition cursors_shrink :: "'v repository \<Rightarrow> 'v repository \<Rightarrow> bool" where
  "cursors_shrink r r' \<longleftrightarrow> (\<forall>cid c. omap_get (r_cursors r') cid = Some c \<longrightarrow> omap_get (r_cursors r) cid = Some c)"

lemma cursors_shrink_trans: "cursors_shrink r r' \<Longrightarrow> cursors_shrink r' r'' \<Longrightarrow> cursors_shrink r r''"
  by (simp add: cursors_shrink_def)

lemma cursors_same: "r_cursors r' = r_cursors r \<Longrightarrow> cursors_shrink r r'"
  by (simp add: cursors_shrink_def)

lemma drop_cursors [simp]:
  "r_cursors (drop_index ik r) = r_cursors r" "r_cursors (drop_generation key r) = r_cursors r"
  "r_cursors (drop_tombstone key r) = r_cursors r" "r_cursors (drop_entry key r) = r_cursors r"
  "r_cursors (add_tombstone key r) = r_cursors r" "r_cursors (erase_generation_if_unreferenced key r) = r_cursors r"
  by (simp_all add: drop_index_def drop_generation_def drop_tombstone_def drop_entry_def add_tombstone_def
      erase_generation_if_unreferenced_def next_access_sequence_def Let_def repo_simps split: option.split)

lemma owned_indexes_cursors [simp]: "r_cursors (erase_owned_indexes key r) = r_cursors r"
proof -
  have "r_cursors (fold drop_index xs r) = r_cursors r" for xs by (induction xs arbitrary: r) simp_all
  then show ?thesis by (simp add: erase_owned_indexes_def)
qed

lemma evict_cursors [simp]:
  "r_cursors (evict_index reason ik r) = r_cursors r" "r_cursors (evict_canonical reason key r) = r_cursors r"
  by (simp_all add: evict_index_def evict_canonical_def erase_canonical_internal_def Let_def repo_simps split: option.split)

lemma evict_to_budget_cursors [simp]:
  "r_cursors (evict_to_budget b n pcan pind reason preserve excluded r) = r_cursors r"
proof -
  have i: "r_cursors (snd (evict_indexes b n excluded reason iks q)) = r_cursors q" for iks and q :: "'a repository"
    by (induction iks arbitrary: q) simp_all
  have c: "r_cursors (evict_canonicals b n excluded reason ks q) = r_cursors q" for ks and q :: "'a repository"
    by (induction ks arbitrary: q) simp_all
  obtain early q where q: "evict_indexes b n excluded reason (index_candidates pind preserve r) r = (early, q)" by fastforce
  have "r_cursors q = r_cursors r" using i [of "index_candidates pind preserve r" r] q by simp
  then show ?thesis using c by (simp add: evict_to_budget_def q split: bool.split)
qed

lemma erase_one_cursors: "erase_one_releasable_metadata r = Some r' \<Longrightarrow> cursors_shrink r r'"
  by (auto simp: erase_one_releasable_metadata_def Let_def drop_first_binding_def drop_cursor_def cursors_shrink_def
      repo_simps omap_get_del split: if_splits option.splits list.splits)

lemma release_cursors: "cursors_shrink r (release_metadata nc excluded r)"
proof (induction nc excluded r rule: release_metadata.induct)
  case (1 nc excluded r)
  show ?case
  proof (cases "fits_limit (hard_max_bytes (r_config r)) nc excluded r \<or> erase_one_releasable_metadata r = None")
    case True
    then show ?thesis by (subst release_metadata.simps) (auto intro: cursors_same)
  next
    case False
    then obtain r' where r': "erase_one_releasable_metadata r = Some r'" by blast
    from 1 [OF _ r'] False erase_one_cursors [OF r'] have "cursors_shrink r (release_metadata nc excluded r')"
      by (blast intro: cursors_shrink_trans)
    then show ?thesis using False r' by (subst release_metadata.simps) simp
  qed
qed

lemma hard_room_cursors: "cursors_shrink r (snd (snd (make_hard_room nc pcan pind err rk excluded r)))"
  by (auto simp: make_hard_room_def Let_def intro!: cursors_shrink_trans [OF cursors_same release_cursors])

lemma grows_touch_cursor: "grows 0 r (touch_cursor cid r)"
proof (rule growsI)
  let ?q = "touch_cursor cid r"
  assume s: "safe r"
  have "tally w ?q = tally w r" for w
    by (rule tally_cong) (simp_all add: touch_cursor_def next_access_sequence_def Let_def)
  moreover have "well_formed ?q = well_formed (r\<lparr>r_cursor_access := omap_put cid (fst (next_access_sequence r)) (r_cursor_access r)\<rparr>)"
    by (rule well_formed_cong) (simp_all add: touch_cursor_def next_access_sequence_def Let_def)
  moreover have "r_stats ?q = r_stats r" "r_config ?q = r_config r"
    by (simp_all add: touch_cursor_def next_access_sequence_def Let_def)
  ultimately show "safe ?q \<and> potential ?q \<le> potential r + 0 \<and> r_config ?q = r_config r"
    using s by (simp add: safe_def exact_def potential_def wf_small_maps)
qed

lemma grows_set_cursor:
  fixes r :: "'v repository"
  assumes old: "\<And>u. omap_get (r_cursors r) (gc_id c) = Some u \<Longrightarrow> old = cursor_metadata_bytes u"
  shows "grows (charge (r_config r) (cursor_metadata_bytes c)) r
    (add_metadata_bytes (cursor_metadata_bytes c) (touch_cursor (gc_id c)
      (let r2 = (case omap_get (r_cursors r) (gc_id c) of
                   None \<Rightarrow> on_stats (\<lambda>s. s\<lparr>st_cursor := st_cursor s + 1\<rparr>) r
                 | Some _ \<Rightarrow> remove_metadata_bytes old r)
       in r2\<lparr>r_cursors := omap_put (gc_id c) c (r_cursors r2)\<rparr>)))" (is "grows _ _ ?Q")
proof -
  let ?g = "omap_get (r_cursors r) (gc_id c)"
  let ?a = "\<lambda>w :: 'v weights. case ?g of None \<Rightarrow> 0 | Some u \<Rightarrow> w_cursor w u"
  let ?m = "r\<lparr>r_cursors := omap_put (gc_id c) c (r_cursors r)\<rparr>"
  define q where "q = ?Q"
  note d = q_def touch_cursor_def next_access_sequence_def Let_def byte_counters repo_simps
  have eq: "tally w q = tally w ?m" for w
    by (rule tally_cong) (simp_all add: d split: option.split)
  have "well_formed q = well_formed (?m\<lparr>r_cursor_access := r_cursor_access q\<rparr>)"
    by (rule well_formed_cong) (simp_all add: d split: option.split)
  then have wf: "well_formed q" if "safe r"
    using that safe_parts [OF that]
    by (simp add: well_formed_def entries_ok_def indexes_ok_def bindings_ok_def omap_ok_put) (simp add: d omap_ok_put split: option.split)
  have t: "tally w q + ?a w = tally w r + w_cursor w c" if "safe r" for w
    using tally_put_cursor [of r w "gc_id c" c] that by (simp add: eq safe_generations)
  have a: "?a w \<le> tally w r" if "safe r" for w
    using that by (auto simp: safe_generations tally_cursor_le split: option.split)
  have cfg: "r_config q = r_config r" by (simp add: d split: option.split)
  have st: "r_stats q = (r_stats r)\<lparr>
      st_cursor := (if ?g = None then st_cursor (r_stats r) + 1 else st_cursor (r_stats r)),
      st_metadata := sat_add (st_metadata (r_stats r) - ?a W_metadata) (cursor_metadata_bytes c),
      st_charged := sat_add (st_charged (r_stats r) - ?a (W_charged (r_config r))) (charge (r_config r) (cursor_metadata_bytes c))\<rparr>"
  proof (cases ?g)
    case None
    then show ?thesis by (simp add: d)
  next
    case (Some u)
    then show ?thesis by (simp add: d old [OF Some])
  qed
  have "grows (w_cursor (W_potential (r_config r) :: 'v weights) c) r q"
    by (rule grows_swap [where a = ?a and b = "\<lambda>w. w_cursor w c", OF wf t a cfg])
      (simp_all add: st split: option.split)
  then show ?thesis by (simp add: q_def)
qed

lemma grows_put_cursor: "grows (charge (r_config r) (cursor_metadata_bytes c)) r (snd (put_cursor c r))"
proof (rule growsI)
  assume s: "safe r" and room: "potential r + charge (r_config r) (cursor_metadata_bytes c) < umax"
  define old where "old = (case omap_get (r_cursors r) (gc_id c) of None \<Rightarrow> 0 | Some old \<Rightarrow> cursor_metadata_bytes old)"
  obtain ok err r1 where m: "(if old < cursor_metadata_bytes c
      then make_hard_room (charge (r_config r) (cursor_metadata_bytes c - old)) (Some (gc_key c)) None no_error (gc_key c) None r
      else (True, no_error, r)) = (ok, err, r1)" (is "?room = _")
    by (metis prod_cases3)
  have g: "grows 0 r (snd (snd ?room))" and sh: "cursors_shrink r (snd (snd ?room))"
    by (simp_all add: grows_make_hard_room hard_room_cursors cursors_same)
  have r1: "safe r1 \<and> potential r1 \<le> potential r \<and> r_config r1 = r_config r"
    using grows_zeroD [OF g s] unfolding m by simp
  have sh1: "cursors_shrink r r1" using sh unfolding m by simp
  have old1: "old = cursor_metadata_bytes u" if g1: "omap_get (r_cursors r1) (gc_id c) = Some u" for u
  proof -
    have "omap_get (r_cursors r) (gc_id c) = Some u" using sh1 g1 unfolding cursors_shrink_def by blast
    then show ?thesis by (simp add: old_def)
  qed
  show "safe (snd (put_cursor c r)) \<and>
      potential (snd (put_cursor c r)) \<le> potential r + charge (r_config r) (cursor_metadata_bytes c) \<and>
      r_config (snd (put_cursor c r)) = r_config r"
  proof (cases "gc_id c = [] \<or> \<not> ok")
    case True
    then have "snd (put_cursor c r) = r \<or> snd (put_cursor c r) = r1"
      using m by (auto simp: put_cursor_def Let_def simp flip: old_def)
    then show ?thesis using s r1 by auto
  next
    case False
    have "snd (put_cursor c r) = add_metadata_bytes (cursor_metadata_bytes c) (touch_cursor (gc_id c)
      (let r2 = (case omap_get (r_cursors r1) (gc_id c) of
                   None \<Rightarrow> on_stats (\<lambda>s. s\<lparr>st_cursor := st_cursor s + 1\<rparr>) r1
                 | Some _ \<Rightarrow> remove_metadata_bytes old r1)
       in r2\<lparr>r_cursors := omap_put (gc_id c) c (r_cursors r2)\<rparr>))"
      using m False by (simp add: put_cursor_def Let_def flip: old_def)
    then show ?thesis using grows_set_cursor [of r1 c old] old1 r1 room by (simp add: grows_def)
  qed
qed

lemma grows_resume_cursor: "grows 0 r (snd (resume_cursor cid key g r))"
proof (cases "\<exists>c. omap_get (r_cursors r) cid = Some c \<and> gc_key c = key")
  case False
  then have "snd (resume_cursor cid key g r) = r" by (auto simp: resume_cursor_def split: option.split)
  then show ?thesis by simp
next
  case True
  then obtain c where c: "omap_get (r_cursors r) cid = Some c" "gc_key c = key" by blast
  let ?c = "c\<lparr>gc_generation := g\<rparr>"
  let ?m = "r\<lparr>r_cursors := omap_put cid ?c (r_cursors r)\<rparr>"
  have "grows 0 r ?m"
  proof (rule growsI)
    assume s: "safe r"
    have "tally w ?m = tally w r" if "w \<in> named (r_config r)" for w
      using tally_put_cursor [of r w cid ?c] s c that by (auto simp: safe_generations named_def cursor_metadata_bytes_def)
    then show "safe ?m \<and> potential ?m \<le> potential r + 0 \<and> r_config ?m = r_config r"
      using s wf_small_maps(6) [of r cid ?c] by (simp add: safe_def exact_def potential_def)
  qed
  then show ?thesis
    using c by (simp add: resume_cursor_def Let_def grows_then [OF _ grows_touch_cursor])
qed

lemma grows_erase_cursor: "grows 0 r (erase_cursor cid r)"
  by (auto simp: erase_cursor_def split: option.split intro: grows_then [OF grows_drop_cursor grows_erase_generation])

lemma grows_invalidate: "grows 0 r (invalidate key reason r)"
  unfolding invalidate_def by (rule grows_then [OF grows_drop_tombstone grows_erase_canonical])

lemma tally_put_binding:
  assumes "bindings_ok r"
  shows "tally w (r\<lparr>r_bindings := omap_put sess (omap_put name dig (session_bindings sess r)) (r_bindings r)\<rparr>) +
           (case omap_get (session_bindings sess r) name of None \<Rightarrow> 0 | Some old \<Rightarrow> w_bind w sess name old)
         = tally w r + w_bind w sess name dig"
proof -
  let ?bs = "session_bindings sess r"
  let ?f = "\<lambda>s. omap_total (w_bind w s)"
  have ok: "omap_ok (r_bindings r)" "omap_ok ?bs"
    using assms by (auto simp: bindings_ok_def session_bindings_def split: option.split)
  have inner: "omap_total (w_bind w sess) (omap_put name dig ?bs) +
      (case omap_get ?bs name of None \<Rightarrow> 0 | Some old \<Rightarrow> w_bind w sess name old)
      = omap_total (w_bind w sess) ?bs + w_bind w sess name dig"
    using omap.total_put_new [of ?bs name "w_bind w sess" dig] omap.total_put_old [OF ok(2), of name _ "w_bind w sess" dig]
    by (auto split: option.split)
  have outer: "omap_total ?f (omap_put sess (omap_put name dig ?bs) (r_bindings r)) + omap_total (w_bind w sess) ?bs
      = omap_total ?f (r_bindings r) + omap_total (w_bind w sess) (omap_put name dig ?bs)"
  proof (cases "omap_get (r_bindings r) sess")
    case None
    with omap.total_put_new [OF None, of ?f] show ?thesis by (simp add: session_bindings_def)
  next
    case (Some bs)
    with omap.total_put_old [OF ok(1) Some, of ?f] show ?thesis by (simp add: session_bindings_def)
  qed
  show ?thesis using inner outer by (simp add: tally_def)
qed

lemma omap_put_not_Nil [simp]: "omap_put k v m \<noteq> []"
  by (cases m) (auto split: if_splits)

lemma grows_bind: "grows (charge (r_config r) (binding_metadata_bytes sess name dig)) r (bind_config sess name dig r)"
proof -
  let ?bs = "session_bindings sess r"
  let ?m = "r\<lparr>r_bindings := omap_put sess (omap_put name dig ?bs) (r_bindings r)\<rparr>"
  let ?a = "\<lambda>w :: 'a weights. case omap_get ?bs name of None \<Rightarrow> 0 | Some old \<Rightarrow> w_bind w sess name old"
  define r1 where "r1 = (case omap_get ?bs name of
                  Some old \<Rightarrow> remove_metadata_bytes (binding_metadata_bytes sess name old) r
                | None \<Rightarrow> on_stats (\<lambda>s. s\<lparr>st_binding := st_binding s + 1\<rparr>) r)"
  define r3 where "r3 = add_metadata_bytes (binding_metadata_bytes sess name dig)
    (r1\<lparr>r_bindings := omap_put sess (omap_put name dig ?bs) (r_bindings r1)\<rparr>)"
  note d = r3_def r1_def byte_counters repo_simps
  have eq: "tally w r3 = tally w ?m" "well_formed r3 = well_formed ?m" for w
    by (rule tally_cong well_formed_cong; simp add: d split: option.split)+
  have wf: "well_formed r3" if s: "safe r"
  proof -
    have "bindings_ok ?m"
      using safe_parts [OF s] by (auto simp: bindings_ok_def omap_ok_put omap_get_put session_bindings_def split: option.splits)
    then have "well_formed ?m" using s by (simp add: safe_def well_formed_def entries_ok_def indexes_ok_def)
    then show ?thesis by (simp only: eq)
  qed
  have t: "tally w r3 + ?a w = tally w r + w_bind w sess name dig" if "safe r" for w
    using tally_put_binding [of r w sess name dig] that by (simp add: eq safe_parts)
  have a: "?a w \<le> tally w r" if s: "safe r" for w
  proof (cases "omap_get ?bs name")
    case (Some old)
    have b: "bindings_ok r" using s by (simp add: safe_parts)
    have bs: "omap_get (r_bindings r) sess = Some ?bs" "omap_ok ?bs"
      using Some b by (auto simp: session_bindings_def bindings_ok_def split: option.splits)
    have "w_bind w sess name old \<le> omap_total (w_bind w sess) ?bs" using omap.total_ge [OF bs(2) Some] .
    also have "\<dots> \<le> omap_total (\<lambda>s. omap_total (w_bind w s)) (r_bindings r)"
      using omap.total_ge [OF _ bs(1), of "\<lambda>s. omap_total (w_bind w s)"] b by (simp add: bindings_ok_def)
    also have "\<dots> \<le> tally w r" by (rule tally_parts(6))
    finally show ?thesis using Some by simp
  qed simp
  have "grows (w_bind (W_potential (r_config r) :: 'a weights) sess name dig) r r3"
    by (rule grows_swap [where a = ?a and b = "\<lambda>w. w_bind w sess name dig"])
      (use wf t a in \<open>auto simp: d split: option.split\<close>)
  then have "grows (charge (r_config r) (binding_metadata_bytes sess name dig)) r r3" by simp
  moreover have "bind_config sess name dig r = release_metadata 0 None
      (evict_to_budget (hard_max_bytes (r_config r3)) 0 None None ''hard_limit'' None None r3)"
    by (simp add: bind_config_def Let_def r3_def r1_def)
  ultimately show ?thesis by (simp add: grows_then [OF grows_then [OF _ grows_evict_to_budget] grows_release])
qed

section \<open>Clearing and configuration changes\<close>

lemma small_drops_entries [simp]:
  "r_entries (drop_generation key r) = r_entries r" "r_entries (drop_tombstone key r) = r_entries r"
  "r_entries (drop_cursor cid r) = r_entries r" "r_entries (drop_index ik r) = r_entries r"
  "r_entries (erase_generation_if_unreferenced key r) = r_entries r"
  by (simp_all add: drop_generation_def drop_tombstone_def drop_cursor_def drop_index_def
      erase_generation_if_unreferenced_def Let_def repo_simps split: option.split)

lemma owned_entries [simp]:
  "r_entries (erase_owned_indexes key r) = r_entries r" "r_entries (erase_owned_cursors key r) = r_entries r"
proof -
  have "r_entries (fold drop_index xs r) = r_entries r" for xs by (induction xs arbitrary: r) simp_all
  then show "r_entries (erase_owned_indexes key r) = r_entries r" by (simp add: erase_owned_indexes_def)
  have "r_entries (fold drop_cursor xs r) = r_entries r" for xs by (induction xs arbitrary: r) simp_all
  then show "r_entries (erase_owned_cursors key r) = r_entries r" by (simp add: erase_owned_cursors_def)
qed

lemma drop_entry_entries: "find_entry r key = Some ob \<Longrightarrow> r_entries (drop_entry key r) = r_entries (del_entry key r)"
  by (simp add: drop_entry_def Let_def repo_simps del_entry_def split: option.split)

lemma erase_canonical_entries:
  assumes "find_entry r key = Some ob" "canonical_store_for_protocol (protocol key) = Some s"
  shows "r_entries (erase_canonical_internal key reason cur r) = (r_entries r)(s := omap_del key (r_entries r s))"
proof -
  have f: "find_entry (erase_owned_cursors key (erase_owned_indexes key r)) key = Some ob"
    "find_entry (erase_owned_indexes key r) key = Some ob" using assms(1) by simp_all
  show ?thesis
    using drop_entry_entries [OF f(1)] drop_entry_entries [OF f(2)] assms
    by (simp add: erase_canonical_internal_def Let_def repo_simps del_entry_def)
qed

lemma clear_store_step:
  assumes "safe r" "r_entries r s = (k, ob) # m"
  shows "r_entries (erase_canonical_internal k reason True r) = (r_entries r)(s := m)"
proof -
  have g: "omap_get (r_entries r s) k = Some ob" using assms(2) by simp
  then have st: "canonical_store_for_protocol (protocol k) = Some s"
    using assms(1) by (simp add: safe_def well_formed_def entries_ok_def)
  have "omap_ok (r_entries r s)" using assms(1) by (simp add: safe_def well_formed_def entries_ok_def)
  then have "k \<notin> fst ` set m" by (auto simp: assms(2) omap_ok_Cons)
  then have "omap_del k m = m" by (induction m) (auto simp: omap_del_def)
  then have "omap_del k (r_entries r s) = m" by (simp add: assms(2)) (simp add: omap_del_def)
  moreover have "find_entry r k = Some ob" using g st by (simp add: find_entry_def)
  ultimately show ?thesis using erase_canonical_entries [of r k ob s] st by simp
qed

lemma clear_store_entries:
  "safe r \<Longrightarrow> length (r_entries r s) \<le> fuel \<Longrightarrow>
   r_entries (clear_store fuel reason s r) = (r_entries r)(s := []) \<and> safe (clear_store fuel reason s r) \<and>
   r_config (clear_store fuel reason s r) = r_config r"
proof (induction fuel arbitrary: r)
  case (Suc fuel)
  show ?case
  proof (cases "r_entries r s")
    case Nil
    with Suc.prems fun_upd_triv [of "r_entries r" s] show ?thesis by simp
  next
    case (Cons p m)
    obtain k ob where p: "p = (k, ob)" by fastforce
    let ?q = "erase_canonical_internal k reason True r"
    have e: "r_entries ?q = (r_entries r)(s := m)" using clear_store_step Suc.prems(1) Cons p by blast
    have q: "safe ?q \<and> r_config ?q = r_config r" using grows_zeroD [OF grows_erase_canonical Suc.prems(1)] by simp
    from Suc.IH [of ?q] q e Suc.prems(2) Cons p show ?thesis by (auto simp: fun_eq_iff)
  qed
next
  case 0
  then show ?case by (auto simp: fun_eq_iff)
qed

lemma clear_empty:
  assumes "safe r"
  shows "clear_repository reason r =
    (new_repository (r_config r))\<lparr>r_sequence := r_sequence (clear_repository reason r),
       r_events := r_events (clear_repository reason r),
       r_stats := no_stats\<lparr>st_access := r_sequence (clear_repository reason r)\<rparr>\<rparr>"
proof -
  define f where "f = (\<lambda>s q. clear_store (length (r_entries q s)) reason s (q :: 'a repository))"
  have step: "r_entries (f s q) = (r_entries q)(s := []) \<and> safe (f s q) \<and> r_config (f s q) = r_config q" if "safe q" for s q
    using clear_store_entries [OF that order_refl] by (simp add: f_def)
  define r1 where "r1 = f Stream_Entries (f Axi_Entries (f Apb_Entries r))"
  have r1: "r_entries r1 s = []" "r_config r1 = r_config r" for s
    using step [OF assms, of Apb_Entries] step [of "f Apb_Entries r" Axi_Entries]
      step [of "f Axi_Entries (f Apb_Entries r)" Stream_Entries]
    by (cases s; simp add: r1_def)+
  then have e: "r_entries r1 = (\<lambda>_. [])" by auto
  have c: "clear_repository reason r = r1\<lparr>r_indexes := [], r_cursors := [], r_cursor_access := [], r_bindings := [],
      r_evicted := [], r_generations := [], r_stats := no_stats\<lparr>st_access := r_sequence r1\<rparr>\<rparr>"
    unfolding clear_repository_def Let_def all_stores_def r1_def f_def by simp
  show ?thesis unfolding c new_repository_def by (rule repository.equality) (simp_all add: e r1)
qed

lemma new_fields [simp]:
  "r_config (new_repository cfg) = cfg" "r_entries (new_repository cfg) = (\<lambda>_. [])" "r_indexes (new_repository cfg) = []"
  "r_generations (new_repository cfg) = []" "r_evicted (new_repository cfg) = []" "r_cursors (new_repository cfg) = []"
  "r_cursor_access (new_repository cfg) = []" "r_bindings (new_repository cfg) = []"
  "r_sequence (new_repository cfg) = 0" "r_stats (new_repository cfg) = no_stats" "r_events (new_repository cfg) = []"
  by (simp_all add: new_repository_def)

lemma tally_empty:
  "r_entries r = (\<lambda>_. []) \<Longrightarrow> r_indexes r = [] \<Longrightarrow> r_generations r = [] \<Longrightarrow> r_evicted r = [] \<Longrightarrow>
   r_cursors r = [] \<Longrightarrow> r_bindings r = [] \<Longrightarrow> tally w r = 0"
  by (simp add: tally_def all_stores_def)

lemma safe_new:
  assumes "1 \<le> estimator_safety_factor cfg"
  shows "safe ((new_repository cfg)\<lparr>r_sequence := n, r_events := evs, r_stats := no_stats\<lparr>st_access := a\<rparr>\<rparr>)"
    and "potential ((new_repository cfg)\<lparr>r_sequence := n, r_events := evs, r_stats := st\<rparr>) = 0"
  using assms
  by (simp_all add: safe_def potential_def exact_def tally_empty well_formed_def entries_ok_def indexes_ok_def bindings_ok_def
      no_stats_def umax_def)

lemma grows_clear: "grows 0 r (clear_repository reason r)"
proof (rule growsI)
  assume s: "safe r"
  then have f: "1 \<le> estimator_safety_factor (r_config r)" by (simp add: safe_def)
  let ?c = "clear_repository reason r"
  have "safe ?c \<and> potential ?c = 0 \<and> r_config ?c = r_config r"
    by (subst (1 2 3) clear_empty [OF s]) (simp add: safe_new f)
  then show "safe ?c \<and> potential ?c \<le> potential r + 0 \<and> r_config ?c = r_config r" by simp
qed

lemma grows_drop_unbound: "grows 0 r (drop_unbound sess dig r)"
  by (auto simp: drop_unbound_def intro: grows_fold grows_invalidate)

definition binding_cost :: "cache_config \<Rightarrow> string \<Rightarrow> (string \<times> string \<times> string) list \<Rightarrow> nat" where
  "binding_cost cfg sess changes =
     sum_list (map (\<lambda>(name, old, new). charge cfg (binding_metadata_bytes sess name new)) changes)"

lemma grows_config: "grows n r r' \<Longrightarrow> safe r \<Longrightarrow> potential r + n < umax \<Longrightarrow> r_config r' = r_config r"
  by (simp add: grows_def)

lemma grows_notify: "grows (binding_cost (r_config r) sess changes) r (notify_stream_config_changes sess changes r)"
proof -
  have "grows (binding_cost (r_config r) sess changes) r (fold (\<lambda>(name, old, new). bind_config sess name new) changes r)"
  proof (induction changes arbitrary: r)
    case (Cons c changes)
    obtain name old new where c: "c = (name, old, new)" by (metis prod_cases3)
    let ?q = "bind_config sess name new r"
    show ?case
    proof (rule growsI)
      assume s: "safe r" and room: "potential r + binding_cost (r_config r) sess (c # changes) < umax"
      have q: "safe ?q \<and> potential ?q \<le> potential r + charge (r_config r) (binding_metadata_bytes sess name new) \<and>
          r_config ?q = r_config r"
        using grows_bind [of r sess name new] s room by (simp add: grows_def binding_cost_def c)
      then show "safe (fold (\<lambda>(name, old, new). bind_config sess name new) (c # changes) r) \<and>
          potential (fold (\<lambda>(name, old, new). bind_config sess name new) (c # changes) r)
            \<le> potential r + binding_cost (r_config r) sess (c # changes) \<and>
          r_config (fold (\<lambda>(name, old, new). bind_config sess name new) (c # changes) r) = r_config r"
        using Cons.IH [of ?q] room by (simp add: grows_def binding_cost_def c)
    qed
  qed (simp add: binding_cost_def)
  then show ?thesis unfolding notify_stream_config_changes_def
    by (rule grows_then [OF _ grows_fold]) (rule grows_drop_unbound)
qed

section \<open>Runs of requests\<close>

datatype 'v cache_request =
    Begin_Canonical cache_key string nat
  | Publish_Canonical cache_key string "'v option" nat
  | Update_Canonical cache_key nat
  | Fail_Canonical cache_key string
  | Find_Canonical cache_key string bool
  | Begin_Index index_key string nat
  | Publish_Index index_key string "'v option" nat
  | Update_Index index_key nat
  | Fail_Index index_key string
  | Find_Index index_key string
  | Put_Cursor generation_cursor
  | Resume_Cursor string cache_key nat
  | Erase_Cursor string
  | Invalidate cache_key string
  | Clear string
  | Notify string "(string \<times> string \<times> string) list"

primrec perform :: "'v cache_request \<Rightarrow> 'v repository \<Rightarrow> 'v repository" where
  "perform (Begin_Canonical k t n) r = snd (snd (begin_canonical k t n r))"
| "perform (Publish_Canonical k t v n) r = snd (snd (publish_canonical k t v n no_error r))"
| "perform (Update_Canonical k n) r = snd (snd (update_canonical_build_bytes k n no_error r))"
| "perform (Fail_Canonical k reason) r = fail_canonical k reason r"
| "perform (Find_Canonical k t touch) r = snd (find_canonical k t touch r)"
| "perform (Begin_Index ik t n) r = snd (snd (begin_index ik t n r))"
| "perform (Publish_Index ik t v n) r = snd (snd (publish_index ik t v n no_error r))"
| "perform (Update_Index ik n) r = snd (snd (update_index_build_bytes ik n no_error r))"
| "perform (Fail_Index ik reason) r = fail_index ik reason r"
| "perform (Find_Index ik t) r = snd (find_index ik t r)"
| "perform (Put_Cursor c) r = snd (put_cursor c r)"
| "perform (Resume_Cursor cid k g) r = snd (resume_cursor cid k g r)"
| "perform (Erase_Cursor cid) r = erase_cursor cid r"
| "perform (Invalidate k reason) r = invalidate k reason r"
| "perform (Clear reason) r = clear_repository reason r"
| "perform (Notify sess changes) r = notify_stream_config_changes sess changes r"

definition run :: "'v cache_request list \<Rightarrow> 'v repository \<Rightarrow> 'v repository" where
  "run reqs r = fold perform reqs r"

text \<open>What a request can add to the charged bytes, a later tombstone of its object included.\<close>

primrec request_cost :: "cache_config \<Rightarrow> 'v cache_request \<Rightarrow> nat" where
  "request_cost cfg (Begin_Canonical k t n) = charge cfg n + 2 * charge cfg (key_metadata_bytes k)"
| "request_cost cfg (Publish_Canonical k t v n) = charge cfg n"
| "request_cost cfg (Update_Canonical k n) = charge cfg n"
| "request_cost cfg (Fail_Canonical k reason) = 0"
| "request_cost cfg (Find_Canonical k t touch) = 0"
| "request_cost cfg (Begin_Index ik t n) = charge cfg n"
| "request_cost cfg (Publish_Index ik t v n) = charge cfg n"
| "request_cost cfg (Update_Index ik n) = charge cfg n"
| "request_cost cfg (Fail_Index ik reason) = 0"
| "request_cost cfg (Find_Index ik t) = 0"
| "request_cost cfg (Put_Cursor c) = charge cfg (cursor_metadata_bytes c)"
| "request_cost cfg (Resume_Cursor cid k g) = 0"
| "request_cost cfg (Erase_Cursor cid) = 0"
| "request_cost cfg (Invalidate k reason) = 0"
| "request_cost cfg (Clear reason) = 0"
| "request_cost cfg (Notify sess changes) = binding_cost cfg sess changes"

definition run_cost :: "cache_config \<Rightarrow> 'v cache_request list \<Rightarrow> nat" where
  "run_cost cfg reqs = sum_list (map (request_cost cfg) reqs)"

lemma usable_index_get: "usable_index ik t r = Some ob \<Longrightarrow> omap_get (r_indexes r) ik = Some ob"
  by (auto simp: usable_index_def split: option.splits if_splits)

lemma grows_find_index: "grows 0 r (snd (find_index ik t r))"
  by (auto simp: find_index_def split: option.split intro: grows_hit_index dest: usable_index_get)

lemma grows_perform: "grows (request_cost (r_config r) req) r (perform req r)"
  by (cases req)
    (simp_all add: grows_begin grows_publish grows_update_build grows_fail grows_find grows_begin_index
      grows_publish_index grows_update_index grows_fail_index grows_find_index grows_put_cursor grows_resume_cursor
      grows_erase_cursor grows_invalidate grows_clear grows_notify)

lemma grows_run: "grows (run_cost (r_config r) reqs) r (run reqs r)"
proof (induction reqs arbitrary: r)
  case (Cons req reqs)
  show ?case
  proof (rule growsI)
    assume s: "safe r" and room: "potential r + run_cost (r_config r) (req # reqs) < umax"
    have q: "safe (perform req r) \<and> potential (perform req r) \<le> potential r + request_cost (r_config r) req \<and>
        r_config (perform req r) = r_config r"
      using grows_perform [of r req] s room by (simp add: grows_def run_cost_def)
    then show "safe (run (req # reqs) r) \<and> potential (run (req # reqs) r) \<le> potential r + run_cost (r_config r) (req # reqs) \<and>
        r_config (run (req # reqs) r) = r_config r"
      using Cons.IH [of "perform req r"] room by (simp add: grows_def run_cost_def run_def)
  qed
qed (simp add: run_def)

lemma safe_run:
  fixes reqs :: "'v cache_request list"
  assumes "1 \<le> estimator_safety_factor cfg" "run_cost cfg reqs < umax"
  shows "safe (run reqs (new_repository cfg)) \<and> r_config (run reqs (new_repository cfg)) = cfg"
proof -
  let ?n = "new_repository cfg :: 'v repository"
  have n: "?n = ?n\<lparr>r_sequence := 0, r_events := [], r_stats := no_stats\<lparr>st_access := 0\<rparr>\<rparr>"
    by (simp add: new_repository_def no_stats_def)
  have "safe ?n" by (subst n) (rule safe_new(1) [OF assms(1)])
  moreover have "potential ?n = 0" by (subst n) (rule safe_new(2) [OF assms(1)])
  ultimately show ?thesis using grows_run [of ?n reqs] assms(2) by (simp add: grows_def)
qed

end
