(* ===== verification/Repository_Owners.thy ===== *)
theory Repository_Owners
  imports Repository_Runs
begin

text \<open>
  An index belongs to a canonical object: the repository builds one only for a ready object of the
  index's generation, and whatever removes or replaces the object takes its indexes with it.
\<close>

section \<open>Indexes and their owners\<close>

text \<open>
  A step is attached if it adds no index and every ready owner of an index that stays is still ready
  with its generation.  Every step but the start of an index build is attached.
\<close>

definition attached :: "'v repository \<Rightarrow> 'v repository \<Rightarrow> bool" where
  "attached r r' \<longleftrightarrow> (\<forall>ik. omap_get (r_indexes r') ik \<noteq> None \<longrightarrow> omap_get (r_indexes r) ik \<noteq> None \<and>
     (\<forall>c. find_entry r (index_owner ik) = Some c \<and> ob_state c = Ready \<longrightarrow>
        (\<exists>c'. find_entry r' (index_owner ik) = Some c' \<and> ob_state c' = Ready \<and> ob_generation c' = ob_generation c)))"

lemma attachedD:
  "attached r r' \<Longrightarrow> omap_get (r_indexes r') ik \<noteq> None \<Longrightarrow> omap_get (r_indexes r) ik \<noteq> None"
  "attached r r' \<Longrightarrow> omap_get (r_indexes r') ik \<noteq> None \<Longrightarrow> find_entry r (index_owner ik) = Some c \<Longrightarrow> ob_state c = Ready \<Longrightarrow>
   \<exists>c'. find_entry r' (index_owner ik) = Some c' \<and> ob_state c' = Ready \<and> ob_generation c' = ob_generation c"
  by (simp_all add: attached_def)

lemma attached_trans:
  assumes "attached r r'" "attached r' r''"
  shows "attached r r''"
  unfolding attached_def
proof (intro allI impI conjI)
  fix ik
  assume i: "omap_get (r_indexes r'') ik \<noteq> None"
  note i' = attachedD(1) [OF assms(2) i]
  show "omap_get (r_indexes r) ik \<noteq> None" by (rule attachedD(1) [OF assms(1) i'])
  fix c
  assume c: "find_entry r (index_owner ik) = Some c \<and> ob_state c = Ready"
  then obtain c' where c': "find_entry r' (index_owner ik) = Some c'" "ob_state c' = Ready" "ob_generation c' = ob_generation c"
    using attachedD(2) [OF assms(1) i'] by blast
  then show "\<exists>c'. find_entry r'' (index_owner ik) = Some c' \<and> ob_state c' = Ready \<and> ob_generation c' = ob_generation c"
    using attachedD(2) [OF assms(2) i c'(1,2)] by simp
qed

lemma attached_refl [simp]: "attached r r"
  by (simp add: attached_def)

lemma attached_fold: "(\<And>x q. attached q (f x q)) \<Longrightarrow> attached r (fold f xs r)"
  by (induction xs arbitrary: r) (auto intro: attached_trans)

lemma attached_owned:
  assumes a: "attached r r'" and "owned r"
  shows "owned r'"
  unfolding owned_def
proof (intro allI impI)
  fix ik ob
  assume i: "omap_get (r_indexes r') ik = Some ob"
  then obtain ob' where "omap_get (r_indexes r) ik = Some ob'" using attachedD(1) [OF a, of ik] by auto
  then obtain c where "find_entry r (index_owner ik) = Some c" "ob_state c = Ready" "ob_generation c = owner_generation ik"
    using assms(2) unfolding owned_def by blast
  then show "\<exists>c. find_entry r' (index_owner ik) = Some c \<and> ob_state c = Ready \<and> ob_generation c = owner_generation ik"
    using attachedD(2) [OF a, of ik c] i by simp
qed

lemma attached_same:
  "(\<And>k. find_entry r' k = find_entry r k) \<Longrightarrow> r_indexes r' = r_indexes r \<Longrightarrow> attached r r'"
  by (simp add: attached_def)

lemma attached_small [simp]:
  "attached r (on_stats f r)" "attached r (emit e r)" "attached r (r\<lparr>r_sequence := n\<rparr>)"
  "attached r (drop_generation key r)" "attached r (drop_tombstone key r)" "attached r (drop_cursor cid r)"
  "attached r (erase_generation_if_unreferenced key r)" "attached r (add_tombstone key r)"
  "attached r (touch_cursor cid r)"
  by (rule attached_same; simp add: repo_simps touch_cursor_def next_access_sequence_def Let_def)+

lemma attached_drop_index: "attached r (drop_index ik r)"
  by (simp add: attached_def drop_index_get)

lemma attached_erase_canonical: "attached r (erase_canonical_internal key reason cur r)"
  by (auto simp: attached_def erase_canonical_get erase_canonical_find)

lemma attached_then [simp]:
  "attached r q \<Longrightarrow> attached r (on_stats f q)" "attached r q \<Longrightarrow> attached r (emit e q)"
  "attached r q \<Longrightarrow> attached r (q\<lparr>r_sequence := n\<rparr>)" "attached r q \<Longrightarrow> attached r (drop_tombstone key q)"
  "attached r q \<Longrightarrow> attached r (erase_generation_if_unreferenced key q)" "attached r q \<Longrightarrow> attached r (add_tombstone key q)"
  "attached r q \<Longrightarrow> attached r (drop_cursor cid q)" "attached r q \<Longrightarrow> attached r (touch_cursor cid q)"
  "attached r q \<Longrightarrow> attached r (drop_index ik q)" "attached r q \<Longrightarrow> attached r (erase_canonical_internal key reason cur q)"
  by (rule attached_trans, assumption, simp add: attached_drop_index attached_erase_canonical)+

lemma attached_evict_canonical: "attached r (evict_canonical reason key r)"
  by (simp add: evict_canonical_def attached_erase_canonical)

lemma attached_evict_index: "attached r (evict_index reason ik r)"
  by (simp add: evict_index_def attached_drop_index split: option.split)

lemma attached_evict_indexes: "attached r (snd (evict_indexes b n excluded reason iks r))"
  by (induction iks arbitrary: r) (auto intro: attached_trans [OF attached_evict_index])

lemma attached_evict_canonicals: "attached r (evict_canonicals b n excluded reason ks r)"
  by (induction ks arbitrary: r) (auto intro: attached_trans [OF attached_evict_canonical])

lemma attached_evict: "attached r (evict_to_budget b n pcan pind reason preserve excluded r)"
proof -
  obtain early q where q: "evict_indexes b n excluded reason (index_candidates pind preserve r) r = (early, q)" by fastforce
  then have "attached r q" using attached_evict_indexes [of r b n excluded reason "index_candidates pind preserve r"] by simp
  then show ?thesis
    by (auto simp: evict_to_budget_def q split: bool.split intro: attached_trans [OF _ attached_evict_canonicals])
qed

lemma attached_hard_room: "attached r (snd (snd (make_hard_room nc pcan pind err rk excluded r)))"
proof -
  have "attached q (release_metadata nc excluded q)" for q :: "'a repository"
    by (rule attached_same) (simp_all add: release_keeps)
  then show ?thesis by (auto simp: make_hard_room_def Let_def intro: attached_trans [OF attached_evict])
qed

lemma attached_soft: "attached r (enforce_soft_budget pcan pind r)"
  by (simp add: enforce_soft_budget_def attached_evict)

text \<open>Setting an object: it was not ready before, or it stays ready with its generation.\<close>

lemma attached_put_entry:
  assumes "\<And>c. find_entry r key = Some c \<Longrightarrow> ob_state c = Ready \<Longrightarrow> ob_state ob = Ready \<and> ob_generation ob = ob_generation c"
  shows "attached r (put_entry key ob r)"
proof (cases "canonical_store_for_protocol (protocol key) = None")
  case True
  then show ?thesis by (simp add: put_entry_def)
next
  case False
  with assms show ?thesis by (auto simp: attached_def find_put_entry repo_simps)
qed

lemma attached_del_entry: "(\<And>c. find_entry r key = Some c \<Longrightarrow> ob_state c \<noteq> Ready) \<Longrightarrow> attached r (del_entry key r)"
  by (auto simp: attached_def find_del_entry repo_simps)

lemma attached_put_index: "omap_get (r_indexes r) ik \<noteq> None \<Longrightarrow> attached r (put_index ik ob r)"
  by (auto simp: attached_def omap_get_put repo_simps)

lemma attached_del_index: "attached r (del_index ik r)"
  by (auto simp: attached_def omap_get_del repo_simps)

lemma attached_touch: "attached r (touch_entry key n r)"
  by (auto simp: touch_entry_def split: option.split intro: attached_put_entry)

lemma attached_bytes [simp]:
  "attached r (add_build_bytes n r)" "attached r (remove_build_bytes n r)" "attached r (add_resident_bytes n r)"
  "attached r (remove_metadata_bytes n r)" "attached r (add_metadata_bytes n r)"
  by (rule attached_same; simp add: byte_counters repo_simps)+

lemma attached_start: "find_entry r key = None \<Longrightarrow> attached r (start_canonical key type_tag build r)"
proof -
  assume n: "find_entry r key = None"
  define q where "q = start_canonical key type_tag build r"
  have "r_indexes q = r_indexes r"
    by (simp add: q_def start_canonical_def next_access_sequence_def Let_def byte_counters repo_simps)
  moreover have "find_entry q k = find_entry r k" if "k \<noteq> key" for k
  proof -
    have "find_entry (put_entry key ob p) k = find_entry p k" for ob and p :: "'a repository"
    proof (cases "canonical_store_for_protocol (protocol key) = None")
      case False
      then show ?thesis using that by (simp add: find_put_entry del: not_None_eq)
    qed (simp add: put_entry_def)
    then show ?thesis by (simp add: q_def start_canonical_def next_access_sequence_def Let_def byte_counters)
  qed
  ultimately have "attached r q" using n unfolding attached_def by (metis option.distinct(1))
  then show ?thesis by (simp add: q_def)
qed

lemma attached_return: "ob_state ob = Building \<Longrightarrow> find_entry r key = Some ob \<Longrightarrow> attached r (return_build key ob r)"
  unfolding return_build_def by (rule attached_trans [OF attached_bytes(2) attached_put_entry]) (simp_all add: byte_counters repo_simps)

lemma attached_abandon: "(\<And>c. find_entry r key = Some c \<Longrightarrow> ob_state c \<noteq> Ready) \<Longrightarrow> attached r (abandon_canonical key reason n r)"
  unfolding abandon_canonical_def by (rule attached_then(2) [OF attached_then(5) [OF attached_del_entry]])

lemma attached_settle:
  assumes f: "find_entry r key = Some ob" and b: "ob_state ob = Building"
  shows "attached r (settle_canonical key v n r)"
proof -
  let ?ob = "ob\<lparr>ob_state := Ready, ob_value := Some v, ob_resident := n\<rparr>"
  define r2 where "r2 = on_stats (\<lambda>s. s\<lparr>st_canonical := st_canonical s + 1\<rparr>) (add_resident_bytes n (put_entry key ?ob r))"
  define m where "m = fst (next_access_sequence r2)"
  define r4 where "r4 = put_entry key (?ob\<lparr>ob_access := m\<rparr>) (r2\<lparr>r_sequence := m\<rparr>)"
  have "attached r (put_entry key ?ob r)" using f b by (intro attached_put_entry) simp
  then have "attached r (add_resident_bytes n (put_entry key ?ob r))" by (rule attached_trans) (rule attached_bytes)
  then have a2: "attached r r2" unfolding r2_def by (rule attached_then)
  have "find_entry (r2\<lparr>r_sequence := m\<rparr>) key = Some ?ob"
    using find_entry_store [OF f] by (simp add: r2_def byte_counters find_put_entry)
  then have "attached (r2\<lparr>r_sequence := m\<rparr>) r4" unfolding r4_def by (intro attached_put_entry) simp
  with attached_then(3) [OF a2] have a4: "attached r r4" by (rule attached_trans)
  let ?r5 = "enforce_soft_budget (Some key) None r4"
  have "\<exists>e c e'. settle_canonical key v n r = drop_tombstone key (emit e (if c then emit e' ?r5 else ?r5))"
    unfolding settle_canonical_def f option.case Let_def next_access_sequence_def case_prod_conv r4_def m_def r2_def fst_conv
    by (intro exI) (rule refl)
  moreover have "attached r ?r5" using a4 attached_soft by (rule attached_trans)
  ultimately show ?thesis by (metis (full_types) attached_then(2,4))
qed

section \<open>Every request keeps the owners\<close>

lemma attached_room:
  assumes "find_entry r key = Some ob" "ob_state ob = Building"
    and "make_hard_room nc pcan pind err rk excluded (return_build key ob r) = (ok, err', r1)"
  shows "attached r r1"
  using attached_trans [OF attached_return [OF assms(2,1)] attached_hard_room] assms(3) by (metis snd_conv)

lemma attached_publish:
  assumes s: "safe r"
  shows "attached r (snd (snd (publish_canonical key type_tag v n err r)))"
proof (cases "\<exists>ob u. find_entry r key = Some ob \<and> v = Some u \<and> ob_state ob = Building \<and> ob_type ob = type_tag")
  case False
  then have "snd (snd (publish_canonical key type_tag v n err r)) = r"
    by (auto simp: publish_canonical_def Let_def split: option.split)
  then show ?thesis by simp
next
  case True
  then obtain ob u where f: "find_entry r key = Some ob" and v: "v = Some u" and b: "ob_state ob = Building"
    and tt: "ob_type ob = type_tag" by blast
  define excl where "excl = (if protocol key = ''stream'' \<and> scope key = Scope_Full then Some key else None)"
  obtain ok err' r1 where m: "make_hard_room (charge (r_config r) n) (Some key) None err key excl (return_build key ob r) = (ok, err', r1)"
    by (metis prod_cases3)
  note r1 = room_for_building [OF s f b m]
  note a1 = attached_room [OF f b m]
  obtain st where st: "canonical_store_for_protocol (protocol key) = Some st" using find_entry_store [OF f] by blast
  define r2 where "r2 = (if excl \<noteq> None then erase_stream_sibling_ranges key r1 else r1)"
  have p: "snd (snd (publish_canonical key type_tag v n err r)) =
      (if ok then settle_canonical key u n r2 else abandon_canonical key ''hard_limit'' n r1)"
    using m by (simp add: publish_canonical_def f v b tt st r2_def flip: excl_def)
  have f2: "find_entry r2 key = Some (ob\<lparr>ob_build := 0\<rparr>)" using r1 by (simp add: r2_def siblings_find_self)
  have "attached r1 r2"
    by (simp add: r2_def erase_stream_sibling_ranges_def attached_fold attached_erase_canonical)
  then have "attached r1 (settle_canonical key u n r2)"
    by (rule attached_trans) (rule attached_settle [OF f2], simp add: b)
  moreover have "attached r1 (abandon_canonical key ''hard_limit'' n r1)"
    by (rule attached_abandon) (use r1 b in auto)
  ultimately show ?thesis unfolding p using a1 by (auto intro: attached_trans)
qed

lemma attached_update:
  assumes s: "safe r"
  shows "attached r (snd (snd (update_canonical_build_bytes key n err r)))"
proof (cases "\<exists>ob. find_entry r key = Some ob \<and> ob_state ob = Building")
  case False
  then have "snd (snd (update_canonical_build_bytes key n err r)) = r"
    by (auto simp: update_canonical_build_bytes_def Let_def split: option.split)
  then show ?thesis by simp
next
  case True
  then obtain ob where f: "find_entry r key = Some ob" and b: "ob_state ob = Building" by blast
  obtain ok err' r1 where m: "make_hard_room (charge (r_config r) n) (Some key) None err key None (return_build key ob r) = (ok, err', r1)"
    by (metis prod_cases3)
  note r1 = room_for_building [OF s f b m]
  obtain st where st: "canonical_store_for_protocol (protocol key) = Some st" using find_entry_store [OF f] by blast
  let ?ob = "ob\<lparr>ob_build := 0\<rparr>"
  have p: "snd (snd (update_canonical_build_bytes key n err r)) =
      (if ok then add_build_bytes n (put_entry key (?ob\<lparr>ob_build := n\<rparr>) r1) else abandon_canonical key ''hard_limit'' n r1)"
    using m r1 by (simp add: update_canonical_build_bytes_def f b st)
  have "attached r1 (put_entry key (?ob\<lparr>ob_build := n\<rparr>) r1)" using r1 b by (intro attached_put_entry) simp
  then have "attached r1 (add_build_bytes n (put_entry key (?ob\<lparr>ob_build := n\<rparr>) r1))"
    by (rule attached_trans) (rule attached_bytes)
  moreover have "attached r1 (abandon_canonical key ''hard_limit'' n r1)"
    by (rule attached_abandon) (use r1 b in auto)
  ultimately show ?thesis unfolding p using attached_room [OF f b m] by (auto intro: attached_trans)
qed

lemma attached_begin: "attached r (snd (snd (begin_canonical key type_tag n r)))"
proof (cases "canonical_store_for_protocol (protocol key) = None")
  case False
  then obtain sid where st: "canonical_store_for_protocol (protocol key) = Some sid" by blast
  show ?thesis
  proof (cases "find_entry r key")
    case (Some ob)
    have "attached (r\<lparr>r_sequence := m\<rparr>) (put_entry key (ob\<lparr>ob_access := m\<rparr>) (r\<lparr>r_sequence := m\<rparr>))" for m
      using Some by (intro attached_put_entry) (simp_all add: repo_simps)
    then have "attached r (put_entry key (ob\<lparr>ob_access := m\<rparr>) (r\<lparr>r_sequence := m\<rparr>))" for m
      by (rule attached_trans [OF attached_small(3)])
    then show ?thesis using st next_access_eq [of r]
      by (auto simp: begin_canonical_def Some Let_def split: prod.split)
  next
    case None
    define meta where "meta = (if omap_get (r_generations r) key = None then charge (r_config r) (key_metadata_bytes key) else 0)"
    obtain ok err' r1 where m: "make_hard_room (sat_add (charge (r_config r) n) meta) None None no_error key None r = (ok, err', r1)"
      by (metis prod_cases3)
    have f1: "find_entry r1 key = None" using find_hard_room_None [OF None] m by (metis snd_conv)
    have a1: "attached r r1" using attached_hard_room m by (metis snd_conv)
    have "snd (snd (begin_canonical key type_tag n r)) = (if ok then start_canonical key type_tag n r1
        else emit (key_event ''build_failed'' key ''canonical'' ''hard_limit'' n 0 0 0 0) r1)"
      using st m by (simp add: begin_canonical_def None Let_def flip: meta_def)
    then show ?thesis using a1 attached_trans [OF a1 attached_start [OF f1]] by simp
  qed
qed (simp add: begin_canonical_def)

lemma attached_fail: "attached r (fail_canonical key reason r)"
proof (cases "\<exists>ob. find_entry r key = Some ob \<and> ob_state ob = Building")
  case False
  then have "fail_canonical key reason r = r" by (auto simp: fail_canonical_def split: option.split)
  then show ?thesis by simp
next
  case True
  then obtain ob where f: "find_entry r key = Some ob" and b: "ob_state ob = Building" by blast
  let ?q = "remove_build_bytes (ob_build ob) r"
  have "fail_canonical key reason r = abandon_canonical key reason (ob_build ob) ?q"
    by (simp add: fail_canonical_def f b)
  moreover have "attached ?q (abandon_canonical key reason (ob_build ob) ?q)"
    by (rule attached_abandon) (use f b in \<open>simp add: byte_counters\<close>)
  ultimately show ?thesis using attached_trans [OF attached_bytes(2)] by metis
qed

lemma attached_find: "attached r (snd (find_canonical key type_tag touch r))"
proof (cases "find_entry r key")
  case (Some ob)
  have "attached (r\<lparr>r_sequence := m\<rparr>) (put_entry key (ob\<lparr>ob_access := m\<rparr>) (r\<lparr>r_sequence := m\<rparr>))" for m
    using Some by (intro attached_put_entry) (simp_all add: repo_simps)
  then have "attached r (put_entry key (ob\<lparr>ob_access := m\<rparr>) (r\<lparr>r_sequence := m\<rparr>))" for m
    by (rule attached_trans [OF attached_small(3)])
  then show ?thesis using next_access_eq [of r]
    by (auto simp: find_canonical_def Some Let_def split: prod.split)
qed (simp add: find_canonical_def)


lemma attached_hit_index: "omap_get (r_indexes r) ik \<noteq> None \<Longrightarrow> attached r (hit_index ik ob r)"
proof -
  assume i: "omap_get (r_indexes r) ik \<noteq> None"
  have p: "attached r (put_index ik ob' (r\<lparr>r_sequence := n\<rparr>))" for ob' n
    by (rule attached_trans [OF attached_small(3) attached_put_index]) (use i in \<open>simp add: repo_simps\<close>)
  show ?thesis
    using attached_trans [OF p attached_touch] by (simp add: hit_index_def next_access_sequence_def Let_def)
qed

lemma attached_find_index: "attached r (snd (find_index ik t r))"
  by (auto simp: find_index_def split: option.split intro!: attached_hit_index dest: usable_index_get)

lemma attached_index_room:
  assumes "omap_get (r_indexes r) ik = Some ob"
    and "make_hard_room nc pcan pind err rk excluded (return_index_build ik ob r) = (ok, err', r1)"
  shows "attached r r1"
proof -
  have "attached r (return_index_build ik ob r)"
    unfolding return_index_build_def
    by (rule attached_trans [OF attached_bytes(2) attached_put_index]) (simp add: byte_counters repo_simps assms(1))
  from attached_trans [OF this attached_hard_room] assms(2) show ?thesis by (metis snd_conv)
qed

lemma attached_settle_index:
  assumes f: "omap_get (r_indexes r) ik = Some ob"
  shows "attached r (settle_index ik v n r)"
proof -
  let ?ob = "ob\<lparr>ob_state := Ready, ob_value := Some v, ob_resident := n\<rparr>"
  define r2 where "r2 = on_stats (\<lambda>s. s\<lparr>st_index := st_index s + 1\<rparr>) (add_resident_bytes n (put_index ik ?ob r))"
  define m where "m = fst (next_access_sequence r2)"
  define r3 where "r3 = put_index ik (?ob\<lparr>ob_access := m\<rparr>) (r2\<lparr>r_sequence := m\<rparr>)"
  define r4 where "r4 = touch_entry (index_owner ik) m r3"
  have "attached r (put_index ik ?ob r)" by (rule attached_put_index) (simp add: f)
  then have a2: "attached r r2" unfolding r2_def by (rule attached_then(1) [OF attached_trans]) (rule attached_bytes)
  have "omap_get (r_indexes (r2\<lparr>r_sequence := m\<rparr>)) ik \<noteq> None"
    by (simp add: r2_def byte_counters repo_simps put_index_def omap_get_put)
  then have "attached r r3" unfolding r3_def by (rule attached_trans [OF attached_then(3) [OF a2] attached_put_index])
  then have a4: "attached r r4" unfolding r4_def by (rule attached_trans) (rule attached_touch)
  let ?r5 = "enforce_soft_budget (Some (index_owner ik)) (Some ik) r4"
  have "\<exists>e c e'. settle_index ik v n r = emit e (if c then emit e' ?r5 else ?r5)"
    unfolding settle_index_def f option.case Let_def next_access_sequence_def case_prod_conv r4_def r3_def m_def r2_def fst_conv
    by (intro exI) (rule refl)
  moreover have "attached r ?r5" using a4 attached_soft by (rule attached_trans)
  ultimately show ?thesis by (metis (full_types) attached_then(2))
qed

lemma attached_publish_index: "safe r \<Longrightarrow> attached r (snd (snd (publish_index ik type_tag v n err r)))"
proof (cases "\<exists>ob u. omap_get (r_indexes r) ik = Some ob \<and> v = Some u \<and> ob_state ob = Building \<and> ob_type ob = type_tag")
  case False
  then have "snd (snd (publish_index ik type_tag v n err r)) = r"
    by (auto simp: publish_index_def Let_def split: option.split)
  then show ?thesis by simp
next
  assume s: "safe r"
  case True
  then obtain ob u where f: "omap_get (r_indexes r) ik = Some ob" and v: "v = Some u" and b: "ob_state ob = Building"
    and tt: "ob_type ob = type_tag" by blast
  obtain ok err' r1 where m: "make_hard_room (charge (r_config r) n) (Some (index_owner ik)) (Some ik) err (index_owner ik) None
      (return_index_build ik ob r) = (ok, err', r1)"
    by (metis prod_cases3)
  have f1: "omap_get (r_indexes r1) ik = Some (ob\<lparr>ob_build := 0\<rparr>)" using room_for_index [OF s f b m] by simp
  have "snd (snd (publish_index ik type_tag v n err r)) = (if ok then settle_index ik u n r1 else del_index ik r1)"
    using m by (simp add: publish_index_def f v b tt)
  moreover have "attached r1 (if ok then settle_index ik u n r1 else del_index ik r1)"
    using attached_settle_index [OF f1] attached_del_index [of r1 ik] by simp
  ultimately show ?thesis using attached_trans [OF attached_index_room [OF f m]] by metis
qed

lemma attached_update_index: "safe r \<Longrightarrow> attached r (snd (snd (update_index_build_bytes ik n err r)))"
proof (cases "\<exists>ob. omap_get (r_indexes r) ik = Some ob \<and> ob_state ob = Building")
  case False
  then have "snd (snd (update_index_build_bytes ik n err r)) = r"
    by (auto simp: update_index_build_bytes_def Let_def split: option.split)
  then show ?thesis by simp
next
  assume s: "safe r"
  case True
  then obtain ob where f: "omap_get (r_indexes r) ik = Some ob" and b: "ob_state ob = Building" by blast
  obtain ok err' r1 where m: "make_hard_room (charge (r_config r) n) (Some (index_owner ik)) (Some ik) err (index_owner ik) None
      (return_index_build ik ob r) = (ok, err', r1)"
    by (metis prod_cases3)
  let ?ob = "ob\<lparr>ob_build := 0\<rparr>"
  have f1: "omap_get (r_indexes r1) ik = Some ?ob" using room_for_index [OF s f b m] by simp
  define e where "e = index_event ''build_failed'' ik ''hard_limit'' n 0 0 0 0"
  have p: "snd (snd (update_index_build_bytes ik n err r)) =
      (if ok then add_build_bytes n (put_index ik (?ob\<lparr>ob_build := n\<rparr>) r1) else emit e (del_index ik r1))"
    using m f1 by (simp add: update_index_build_bytes_def f b e_def)
  have "attached r1 (put_index ik (?ob\<lparr>ob_build := n\<rparr>) r1)" by (rule attached_put_index) (simp add: f1)
  then have "attached r1 (add_build_bytes n (put_index ik (?ob\<lparr>ob_build := n\<rparr>) r1))"
    by (rule attached_trans) (rule attached_bytes)
  then have "attached r1 (if ok then add_build_bytes n (put_index ik (?ob\<lparr>ob_build := n\<rparr>) r1) else emit e (del_index ik r1))"
    using attached_del_index [of r1 ik] by simp
  then show ?thesis unfolding p by (rule attached_trans [OF attached_index_room [OF f m]])
qed

lemma attached_fail_index: "attached r (fail_index ik reason r)"
  using attached_trans [OF attached_bytes(2) attached_del_index, of r] by (simp add: fail_index_def split: option.split)

lemma attached_put_cursor: "attached r (snd (put_cursor c r))"
proof (cases "gc_id c = []")
  case False
  define bytes where "bytes = cursor_metadata_bytes c"
  define old where "old = (case omap_get (r_cursors r) (gc_id c) of None \<Rightarrow> 0 | Some old \<Rightarrow> cursor_metadata_bytes old)"
  obtain ok err r1 where m: "(if old < bytes
      then make_hard_room (charge (r_config r) (bytes - old)) (Some (gc_key c)) None no_error (gc_key c) None r
      else (True, no_error, r)) = (ok, err, r1)"
    by (metis prod_cases3)
  then have a1: "attached r r1" using attached_hard_room by (metis attached_refl snd_conv)
  define r2 where "r2 = (case omap_get (r_cursors r1) (gc_id c) of
      None \<Rightarrow> on_stats (\<lambda>s. s\<lparr>st_cursor := st_cursor s + 1\<rparr>) r1 | Some _ \<Rightarrow> remove_metadata_bytes old r1)"
  have "attached r1 r2" by (simp add: r2_def split: option.split)
  moreover have "attached r2 (r2\<lparr>r_cursors := x\<rparr>)" for x by (rule attached_same) (simp_all add: repo_simps)
  ultimately have a: "attached r (r2\<lparr>r_cursors := x\<rparr>)" for x using a1 attached_trans by blast
  have "snd (put_cursor c r) = (if \<not> ok then r1
      else add_metadata_bytes bytes (touch_cursor (gc_id c) (r2\<lparr>r_cursors := omap_put (gc_id c) c (r_cursors r2)\<rparr>)))"
    using False m by (simp add: put_cursor_def Let_def r2_def flip: bytes_def old_def)
  then show ?thesis using a1 attached_trans [OF attached_then(8) [OF a] attached_bytes(5)] by simp
qed (simp add: put_cursor_def)

lemma attached_resume: "attached r (snd (resume_cursor cid key g r))"
proof -
  have "attached r (r\<lparr>r_cursors := x\<rparr>)" for x by (rule attached_same) (simp_all add: repo_simps)
  then show ?thesis by (auto simp: resume_cursor_def Let_def split: option.split)
qed

lemma attached_erase_cursor: "attached r (erase_cursor cid r)"
  by (simp add: erase_cursor_def split: option.split)

lemma attached_invalidate: "attached r (invalidate key reason r)"
  by (simp add: invalidate_def)


lemma attached_bind: "attached r (bind_config sess name dig r)"
proof -
  let ?bs = "session_bindings sess r"
  define r1 where "r1 = (case omap_get ?bs name of
      Some old \<Rightarrow> remove_metadata_bytes (binding_metadata_bytes sess name old) r
    | None \<Rightarrow> on_stats (\<lambda>s. s\<lparr>st_binding := st_binding s + 1\<rparr>) r)"
  define r3 where "r3 = add_metadata_bytes (binding_metadata_bytes sess name dig)
      (r1\<lparr>r_bindings := omap_put sess (omap_put name dig ?bs) (r_bindings r1)\<rparr>)"
  have "attached r r1" by (simp add: r1_def split: option.split)
  moreover have "attached r1 (r1\<lparr>r_bindings := x\<rparr>)" for x by (rule attached_same) (simp_all add: repo_simps)
  ultimately have "attached r r3" unfolding r3_def by (rule attached_trans [OF attached_trans attached_bytes(5)])
  from attached_trans [OF this attached_evict]
  have e: "attached r (evict_to_budget b 0 None None reason None None r3)" for b reason .
  have "attached q (release_metadata 0 None q)" for q :: "'a repository"
    by (rule attached_same) (simp_all add: release_keeps)
  from attached_trans [OF e this] show ?thesis
    unfolding bind_config_def Let_def r1_def [symmetric] r3_def [symmetric] .
qed

lemma attached_notify: "attached r (notify_stream_config_changes sess changes r)"
proof -
  have "attached q (drop_unbound sess dig q)" for dig and q :: "'a repository"
    by (simp add: drop_unbound_def attached_fold attached_invalidate)
  then have "attached q (fold (drop_unbound sess) ds q)" for ds and q :: "'a repository" by (rule attached_fold)
  moreover have "attached r (fold (\<lambda>(name, old, new). bind_config sess name new) changes r)"
    by (rule attached_fold) (auto simp: attached_bind)
  ultimately show ?thesis unfolding notify_stream_config_changes_def by (blast intro: attached_trans)
qed

text \<open>The start of an index build asks for a ready owner of the index's generation, and protects it.\<close>

lemma owned_begin_index:
  assumes s: "safe r" and o: "owned r"
  shows "owned (snd (snd (begin_index ik type_tag n r)))"
proof (cases "\<exists>c sid. canonical_store_for_protocol (protocol (index_owner ik)) = Some sid \<and>
    find_entry r (index_owner ik) = Some c \<and> ob_state c = Ready \<and> ob_generation c = owner_generation ik")
  case False
  then have "snd (snd (begin_index ik type_tag n r)) = r" by (auto simp: begin_index_def Let_def split: option.split)
  then show ?thesis using o by simp
next
  case True
  then obtain c sid where c: "canonical_store_for_protocol (protocol (index_owner ik)) = Some sid"
    "find_entry r (index_owner ik) = Some c" "ob_state c = Ready" "ob_generation c = owner_generation ik" by blast
  show ?thesis
  proof (cases "omap_get (r_indexes r) ik")
    case (Some ob)
    have "snd (snd (begin_index ik type_tag n r)) = r \<or> snd (snd (begin_index ik type_tag n r)) = hit_index ik ob r"
      using c by (auto simp: begin_index_def Some)
    then show ?thesis using attached_owned [OF attached_hit_index, of r ik ob] Some o by auto
  next
    case None
    let ?m = "make_hard_room (charge (r_config r) n) (Some (index_owner ik)) None no_error (index_owner ik) None r"
    obtain ok err' r1 where m: "?m = (ok, err', r1)" by (metis prod_cases3)
    have o1: "owned r1" using attached_owned [OF attached_hard_room o] m by (metis snd_conv)
    have f1: "find_entry r1 (index_owner ik) = Some c"
      using hard_room_keeps_entry [OF s, of "Some (index_owner ik)" "index_owner ik" "charge (r_config r) n" None no_error "index_owner ik" None]
        c(2) m by (simp add: shielded_def)
    have "owned (start_index ik type_tag n r1)"
    proof -
      have "find_entry (start_index ik type_tag n r1) k = find_entry r1 k"
        "omap_get (r_indexes (start_index ik type_tag n r1)) j \<noteq> None \<Longrightarrow> j = ik \<or> omap_get (r_indexes r1) j \<noteq> None" for k j
        by (auto simp: start_index_def next_access_sequence_def Let_def byte_counters repo_simps put_index_def omap_get_put
            intro!: find_entry_cong split: if_splits)
      then show ?thesis using o1 f1 c(3,4) unfolding owned_def by (metis option.distinct(1) option.exhaust)
    qed
    moreover have "snd (snd (begin_index ik type_tag n r)) = (if ok then start_index ik type_tag n r1 else r1)"
      using c m by (simp add: begin_index_def None)
    ultimately show ?thesis using o1 by simp
  qed
qed

lemma owned_clear: "safe r \<Longrightarrow> owned (clear_repository reason r)"
  by (simp add: owned_def clear_repository_def Let_def repo_simps)

lemma owned_perform: "safe r \<Longrightarrow> owned r \<Longrightarrow> owned (perform req r)"
  by (cases req)
    (simp_all add: owned_begin_index owned_clear attached_owned [OF attached_begin] attached_owned [OF attached_publish]
      attached_owned [OF attached_update] attached_owned [OF attached_fail] attached_owned [OF attached_find]
      attached_owned [OF attached_publish_index] attached_owned [OF attached_update_index]
      attached_owned [OF attached_fail_index] attached_owned [OF attached_find_index] attached_owned [OF attached_put_cursor]
      attached_owned [OF attached_resume] attached_owned [OF attached_erase_cursor] attached_owned [OF attached_invalidate]
      attached_owned [OF attached_notify])


lemma owned_run:
  assumes "safe r" "owned r" "potential r + run_cost (r_config r) reqs < umax"
  shows "owned (run reqs r)"
  using assms
proof (induction reqs arbitrary: r)
  case (Cons req reqs)
  have q: "safe (perform req r) \<and> potential (perform req r) \<le> potential r + request_cost (r_config r) req \<and>
      r_config (perform req r) = r_config r"
    using grows_perform [of r req] Cons.prems by (simp add: grows_def run_cost_def)
  then show ?case
    using Cons.IH [of "perform req r"] owned_perform [of r req] Cons.prems by (simp add: run_cost_def run_def)
qed (simp add: run_def)

lemma owned_new_run:
  fixes reqs :: "'v cache_request list"
  assumes "1 \<le> estimator_safety_factor cfg" "run_cost cfg reqs < umax"
  shows "owned (run reqs (new_repository cfg))"
proof -
  let ?n = "new_repository cfg :: 'v repository"
  have n: "?n = ?n\<lparr>r_sequence := 0, r_events := [], r_stats := no_stats\<lparr>st_access := 0\<rparr>\<rparr>"
    by (simp add: new_repository_def no_stats_def)
  have "safe ?n" by (subst n) (rule safe_new(1) [OF assms(1)])
  moreover have "potential ?n = 0" by (subst n) (rule safe_new(2) [OF assms(1)])
  moreover have "owned ?n" by (simp add: owned_def new_repository_def)
  ultimately show ?thesis using owned_run [of ?n reqs] assms(2) by simp
qed

end
