(* ===== verification/Repository_Contract.thy ===== *)
theory Repository_Contract
  imports Repository_Owners
begin

text \<open>
  The analysis cache as a map that may lose entries: what a lookup can find is what was published for
  its key and type, and no request but a publication adds anything to it.
\<close>

section \<open>What a lookup can find\<close>

definition ready_view :: "'v repository \<Rightarrow> cache_key \<Rightarrow> (string \<times> 'v option \<times> nat) option" where
  "ready_view r key =
     (case find_entry r key of None \<Rightarrow> None
      | Some ob \<Rightarrow> if ob_state ob = Ready then Some (ob_type ob, ob_value ob, ob_generation ob) else None)"

definition fades :: "'v repository \<Rightarrow> 'v repository \<Rightarrow> bool" where
  "fades r r' \<longleftrightarrow> (\<forall>k x. ready_view r' k = Some x \<longrightarrow> ready_view r k = Some x)"

lemma fades_refl [simp]: "fades r r"
  by (simp add: fades_def)

lemma fades_trans: "fades r r' \<Longrightarrow> fades r' r'' \<Longrightarrow> fades r r''"
  by (simp add: fades_def)

lemma fades_same: "(\<And>k. find_entry r' k = find_entry r k) \<Longrightarrow> fades r r'"
  by (simp add: fades_def ready_view_def)

lemma fades_fold: "(\<And>x q. fades q (f x q)) \<Longrightarrow> fades r (fold f xs r)"
  by (induction xs arbitrary: r) (auto intro: fades_trans)

lemma fades_lost: "(\<And>k. find_entry r' k = None \<or> find_entry r' k = find_entry r k) \<Longrightarrow> fades r r'"
proof -
  assume h: "\<And>k. find_entry r' k = None \<or> find_entry r' k = find_entry r k"
  show ?thesis
    unfolding fades_def
  proof (intro allI impI)
    fix k x
    assume "ready_view r' k = Some x"
    then show "ready_view r k = Some x" using h [of k] by (auto simp: ready_view_def)
  qed
qed

lemma fades_put_entry:
  assumes "\<And>x. ob_state ob = Ready \<Longrightarrow> ready_view r key = Some (ob_type ob, ob_value ob, ob_generation ob)"
  shows "fades r (put_entry key ob r)"
proof (cases "canonical_store_for_protocol (protocol key) = None")
  case True
  then show ?thesis by (simp add: put_entry_def)
next
  case False
  with assms show ?thesis by (auto simp: fades_def ready_view_def find_put_entry split: if_splits)
qed

lemma fades_small [simp]:
  "fades r (on_stats f r)" "fades r (emit e r)" "fades r (r\<lparr>r_sequence := n\<rparr>)" "fades r (drop_tombstone key r)"
  "fades r (drop_cursor cid r)" "fades r (erase_generation_if_unreferenced key r)" "fades r (add_tombstone key r)"
  "fades r (touch_cursor cid r)" "fades r (drop_index ik r)" "fades r (put_index ik ob r)" "fades r (del_index ik r)"
  "fades r (add_build_bytes n r)" "fades r (remove_build_bytes n r)" "fades r (add_resident_bytes n r)"
  "fades r (remove_metadata_bytes n r)" "fades r (add_metadata_bytes n r)"
  by (rule fades_same; simp add: repo_simps byte_counters touch_cursor_def next_access_sequence_def Let_def)+

lemma fades_maps [simp]: "fades r (r\<lparr>r_cursors := cs\<rparr>)" "fades r (r\<lparr>r_bindings := bs\<rparr>)"
  by (rule fades_same; simp add: repo_simps)+

lemma fades_then:
  "fades r q \<Longrightarrow> fades r (on_stats f q)" "fades r q \<Longrightarrow> fades r (emit e q)" "fades r q \<Longrightarrow> fades r (drop_tombstone key q)"
  "fades r q \<Longrightarrow> fades r (erase_generation_if_unreferenced key q)" "fades r q \<Longrightarrow> fades r (put_index ik ob q)"
  "fades r q \<Longrightarrow> fades r (add_build_bytes n q)" "fades r q \<Longrightarrow> fades r (add_metadata_bytes n q)"
  "fades r q \<Longrightarrow> fades r (touch_cursor cid q)" "fades r q \<Longrightarrow> fades r (q\<lparr>r_cursors := cs\<rparr>)"
  "fades r q \<Longrightarrow> fades r (q\<lparr>r_bindings := bs\<rparr>)" "fades r q \<Longrightarrow> fades r (q\<lparr>r_sequence := m\<rparr>)"
  "fades r q \<Longrightarrow> fades r (add_resident_bytes n q)" "fades r q \<Longrightarrow> fades r (del_index ik q)"
  by (rule fades_trans, assumption, simp)+

lemma fades_erase_canonical [simp]: "fades r (erase_canonical_internal key reason cur r)"
  by (rule fades_lost) (simp add: erase_canonical_find)

lemma fades_del_entry [simp]: "fades r (del_entry key r)"
  by (rule fades_lost) (simp add: find_del_entry)

lemma fades_invalidate: "fades r (invalidate key reason r)"
  unfolding invalidate_def by (rule fades_trans [OF fades_small(4) fades_erase_canonical])

lemma evict_loses:
  "find_entry (evict_to_budget b nc pcan pind reason preserve excluded r) k = None \<or>
   find_entry (evict_to_budget b nc pcan pind reason preserve excluded r) k = find_entry r k"
proof -
  have c: "find_entry (evict_canonicals b nc excluded reason ks q) k = None \<or>
      find_entry (evict_canonicals b nc excluded reason ks q) k = find_entry q k" for ks and q :: "'a repository"
  proof (induction ks arbitrary: q)
    case (Cons j ks)
    then show ?case using evict_canonical_find [of reason j q k] by (metis evict_canonicals.simps(2))
  qed simp
  obtain early q where q: "evict_indexes b nc excluded reason (index_candidates pind preserve r) r = (early, q)" by fastforce
  have "find_entry q k = find_entry r k"
    using evict_indexes_find [of b nc excluded reason "index_candidates pind preserve r" r k] q by simp
  then show ?thesis using c [of "canonical_candidates pcan preserve q" q]
    by (simp add: evict_to_budget_def q split: bool.split)
qed

lemma fades_evict: "fades r (evict_to_budget b nc pcan pind reason preserve excluded r)"
  by (rule fades_lost) (rule evict_loses)

lemma fades_release [simp]: "fades r (release_metadata nc excluded r)"
  by (rule fades_same) (simp add: release_keeps)

lemma fades_hard_room: "fades r (snd (snd (make_hard_room nc pcan pind err rk excluded r)))"
  by (simp add: make_hard_room_def Let_def fades_trans [OF fades_evict fades_release])

lemma fades_touch: "fades r (touch_entry key n r)"
  by (auto simp: touch_entry_def ready_view_def split: option.split intro!: fades_put_entry)

lemma fades_hit: "find_entry r key = Some ob \<Longrightarrow> fades r (put_entry key (ob\<lparr>ob_access := m\<rparr>) (r\<lparr>r_sequence := m\<rparr>))"
  by (rule fades_trans [OF fades_small(3) fades_put_entry]) (simp add: ready_view_def)

lemma fades_hit_index: "fades r (hit_index ik ob r)"
  using fades_trans [OF fades_then(5) [OF fades_small(3)] fades_touch]
  by (auto simp: hit_index_def next_access_sequence_def Let_def intro!: fades_then(2))

lemma fades_return: "ob_state ob = Building \<Longrightarrow> fades r (return_build key ob r)"
  unfolding return_build_def by (rule fades_trans [OF fades_small(13) fades_put_entry]) simp

lemma fades_abandon: "fades r (abandon_canonical key reason n r)"
  unfolding abandon_canonical_def by (intro fades_then(2,4) fades_del_entry)

lemma fades_soft: "fades r (enforce_soft_budget pcan pind r)"
  by (simp add: enforce_soft_budget_def fades_evict)


section \<open>Only a publication adds\<close>

lemma fades_update: "fades r (snd (snd (update_canonical_build_bytes key n err r)))"
proof (cases "\<exists>ob. find_entry r key = Some ob \<and> ob_state ob = Building")
  case False
  then have "snd (snd (update_canonical_build_bytes key n err r)) = r"
    by (auto simp: update_canonical_build_bytes_def Let_def split: option.split)
  then show ?thesis by simp
next
  case True
  then obtain ob where f: "find_entry r key = Some ob" and b: "ob_state ob = Building" by blast
  obtain ok err' r1 where m: "make_hard_room (charge (r_config r) n) (Some key) None err key None (return_build key ob r) = (ok, err', r1)"
    by (metis prod_cases3)
  have a: "fades r r1" using fades_trans [OF fades_return [OF b] fades_hard_room] m by (metis snd_conv)
  obtain st where st: "canonical_store_for_protocol (protocol key) = Some st" using find_entry_store [OF f] by blast
  have nr: "ready_view r key = None" by (simp add: ready_view_def f b)
  have "snd (snd (update_canonical_build_bytes key n err r)) =
      (if ok then (case find_entry r1 key of None \<Rightarrow> r1 | Some ob1 \<Rightarrow> add_build_bytes n (put_entry key (ob1\<lparr>ob_build := n\<rparr>) r1))
       else abandon_canonical key ''hard_limit'' n r1)"
    using m by (simp add: update_canonical_build_bytes_def f b st split: bool.split)
  moreover have "fades r1 (case find_entry r1 key of None \<Rightarrow> r1 | Some ob1 \<Rightarrow> add_build_bytes n (put_entry key (ob1\<lparr>ob_build := n\<rparr>) r1))"
    by (auto simp: ready_view_def split: option.split intro!: fades_then(6) fades_put_entry)
  ultimately show ?thesis using fades_trans [OF a] fades_abandon by metis
qed

lemma fades_start: "fades r (start_canonical key type_tag build r)"
proof -
  define q where "q = start_canonical key type_tag build r"
  have "ready_view q k = (if k = key then ready_view q key else ready_view r k)" for k
  proof -
    have "find_entry (put_entry key ob p) k = find_entry p k" if "k \<noteq> key" for ob and p :: "'a repository"
    proof (cases "canonical_store_for_protocol (protocol key) = None")
      case False
      then show ?thesis using that by (simp add: find_put_entry del: not_None_eq)
    qed (simp add: put_entry_def)
    then show ?thesis
      by (simp add: q_def ready_view_def start_canonical_def next_access_sequence_def Let_def byte_counters)
  qed
  moreover have "ready_view q key = None"
  proof (cases "canonical_store_for_protocol (protocol key) = None")
    case True
    then show ?thesis by (simp add: ready_view_def find_entry_def)
  next
    case False
    then show ?thesis
      by (simp add: q_def ready_view_def start_canonical_def next_access_sequence_def Let_def byte_counters find_put_entry del: not_None_eq)
  qed
  ultimately have "fades r q" unfolding fades_def by (metis option.distinct(1))
  then show ?thesis by (simp add: q_def)
qed

lemma fades_begin: "fades r (snd (snd (begin_canonical key type_tag n r)))"
proof (cases "find_entry r key")
  case (Some ob)
  show ?thesis using next_access_eq [of r] fades_hit [OF Some]
    by (auto simp: begin_canonical_def Some Let_def fades_then(2) split: prod.split)
next
  case None
  define meta where "meta = (if omap_get (r_generations r) key = None then charge (r_config r) (key_metadata_bytes key) else 0)"
  obtain ok err' r1 where m: "make_hard_room (sat_add (charge (r_config r) n) meta) None None no_error key None r = (ok, err', r1)"
    by (metis prod_cases3)
  have a1: "fades r r1" using fades_hard_room m by (metis snd_conv)
  have "snd (snd (begin_canonical key type_tag n r)) \<in> {r, start_canonical key type_tag n r1,
      emit (key_event ''build_failed'' key ''canonical'' ''hard_limit'' n 0 0 0 0) r1}"
    using m by (simp add: begin_canonical_def None Let_def split: bool.split flip: meta_def)
  then show ?thesis using a1 fades_trans [OF a1 fades_start] fades_then(2) [OF a1] by auto
qed

lemma fades_find: "fades r (snd (find_canonical key type_tag touch r))"
proof (cases "find_entry r key")
  case (Some ob)
  show ?thesis using next_access_eq [of r] fades_hit [OF Some]
    by (auto simp: find_canonical_def Some Let_def fades_then(2) split: prod.split)
qed (simp add: find_canonical_def)

lemma fades_fail: "fades r (fail_canonical key reason r)"
  by (auto simp: fail_canonical_def split: option.split intro: fades_trans [OF fades_small(13) fades_abandon])

lemma fades_begin_index: "fades r (snd (snd (begin_index ik type_tag n r)))"
proof -
  obtain ok err' r1 where m: "make_hard_room (charge (r_config r) n) (Some (index_owner ik)) None no_error (index_owner ik) None r
      = (ok, err', r1)"
    by (metis prod_cases3)
  have a: "fades r r1" using fades_hard_room m by (metis snd_conv)
  have "fades r1 (start_index ik type_tag n r1)"
    unfolding start_index_def Let_def next_access_sequence_def case_prod_conv by (intro fades_then fades_refl)
  then have "fades r (start_index ik type_tag n r1)" using a by (rule fades_trans [rotated])
  then show ?thesis using a m
    by (auto simp: begin_index_def Let_def fades_hit_index split: option.split bool.split)
qed

lemma fades_settle_index: "fades r (settle_index ik v n r)"
proof (cases "omap_get (r_indexes r) ik")
  case (Some ob)
  let ?ob = "ob\<lparr>ob_state := Ready, ob_value := Some v, ob_resident := n\<rparr>"
  define r2 where "r2 = on_stats (\<lambda>s. s\<lparr>st_index := st_index s + 1\<rparr>) (add_resident_bytes n (put_index ik ?ob r))"
  define m where "m = fst (next_access_sequence r2)"
  define r3 where "r3 = put_index ik (?ob\<lparr>ob_access := m\<rparr>) (r2\<lparr>r_sequence := m\<rparr>)"
  define r4 where "r4 = touch_entry (index_owner ik) m r3"
  let ?r5 = "enforce_soft_budget (Some (index_owner ik)) (Some ik) r4"
  have "\<exists>e c e'. settle_index ik v n r = emit e (if c then emit e' ?r5 else ?r5)"
    unfolding settle_index_def Some option.case Let_def next_access_sequence_def case_prod_conv r4_def r3_def m_def r2_def fst_conv
    by (intro exI) (rule refl)
  moreover have "fades r r3" unfolding r3_def r2_def by (intro fades_then fades_refl)
  then have "fades r ?r5" unfolding r4_def by (rule fades_trans [OF fades_trans [OF _ fades_touch] fades_soft])
  ultimately show ?thesis by (metis (full_types) fades_then(2))
qed (simp add: settle_index_def)

lemma fades_return_index: "fades r (return_index_build ik ob r)"
  unfolding return_index_build_def by (intro fades_then(5)) simp

lemma fades_index_room:
  "make_hard_room nc pcan pind err rk excluded (return_index_build ik ob r) = (ok, err', r1) \<Longrightarrow> fades r r1"
  using fades_trans [OF fades_return_index fades_hard_room] by (metis snd_conv)

lemma fades_publish_index: "fades r (snd (snd (publish_index ik type_tag v n err r)))"
proof (cases "omap_get (r_indexes r) ik")
  case (Some ob)
  obtain ok err' r1 where m: "make_hard_room (charge (r_config r) n) (Some (index_owner ik)) (Some ik) err (index_owner ik) None
      (return_index_build ik ob r) = (ok, err', r1)"
    by (metis prod_cases3)
  note a = fades_index_room [OF m]
  show ?thesis
    using fades_trans [OF a fades_settle_index] fades_then(13) [OF a] m
    by (auto simp: publish_index_def Some Let_def split: option.split bool.split)
qed (simp add: publish_index_def Let_def)

lemma fades_update_index: "fades r (snd (snd (update_index_build_bytes ik n err r)))"
proof (cases "omap_get (r_indexes r) ik")
  case (Some ob)
  obtain ok err' r1 where m: "make_hard_room (charge (r_config r) n) (Some (index_owner ik)) (Some ik) err (index_owner ik) None
      (return_index_build ik ob r) = (ok, err', r1)"
    by (metis prod_cases3)
  note a = fades_index_room [OF m]
  show ?thesis using m
    by (auto simp: update_index_build_bytes_def Some Let_def split: option.split bool.split intro!: fades_then a)
qed (simp add: update_index_build_bytes_def Let_def)


lemma fades_put_cursor: "fades r (snd (put_cursor c r))"
proof (cases "gc_id c = []")
  case False
  define bytes where "bytes = cursor_metadata_bytes c"
  define old where "old = (case omap_get (r_cursors r) (gc_id c) of None \<Rightarrow> 0 | Some old \<Rightarrow> cursor_metadata_bytes old)"
  obtain ok err r1 where m: "(if old < bytes
      then make_hard_room (charge (r_config r) (bytes - old)) (Some (gc_key c)) None no_error (gc_key c) None r
      else (True, no_error, r)) = (ok, err, r1)"
    by (metis prod_cases3)
  then have a1: "fades r r1" using fades_hard_room by (metis fades_refl snd_conv)
  define r2 where "r2 = (case omap_get (r_cursors r1) (gc_id c) of
      None \<Rightarrow> on_stats (\<lambda>s. s\<lparr>st_cursor := st_cursor s + 1\<rparr>) r1 | Some _ \<Rightarrow> remove_metadata_bytes old r1)"
  have "fades r1 r2" by (simp add: r2_def split: option.split)
  with a1 have a2: "fades r r2" by (rule fades_trans)
  have "snd (put_cursor c r) = (if \<not> ok then r1
      else add_metadata_bytes bytes (touch_cursor (gc_id c) (r2\<lparr>r_cursors := omap_put (gc_id c) c (r_cursors r2)\<rparr>)))"
    using False m by (simp add: put_cursor_def Let_def r2_def flip: bytes_def old_def)
  then show ?thesis using a1 a2 by (auto intro!: fades_then)
qed (simp add: put_cursor_def)

lemma fades_resume: "fades r (snd (resume_cursor cid key g r))"
  by (auto simp: resume_cursor_def Let_def split: option.split intro!: fades_then)

lemma fades_erase_cursor: "fades r (erase_cursor cid r)"
  by (auto simp: erase_cursor_def split: option.split intro!: fades_then)

lemma fades_bind: "fades r (bind_config sess name dig r)"
proof -
  let ?bs = "session_bindings sess r"
  define r1 where "r1 = (case omap_get ?bs name of
      Some old \<Rightarrow> remove_metadata_bytes (binding_metadata_bytes sess name old) r
    | None \<Rightarrow> on_stats (\<lambda>s. s\<lparr>st_binding := st_binding s + 1\<rparr>) r)"
  define r3 where "r3 = add_metadata_bytes (binding_metadata_bytes sess name dig)
      (r1\<lparr>r_bindings := omap_put sess (omap_put name dig ?bs) (r_bindings r1)\<rparr>)"
  have "fades r r1" by (simp add: r1_def split: option.split)
  then have "fades r r3" unfolding r3_def by (intro fades_then)
  from fades_trans [OF this fades_trans [OF fades_evict fades_release]] show ?thesis
    unfolding bind_config_def Let_def r1_def [symmetric] r3_def [symmetric] .
qed

lemma fades_notify: "fades r (notify_stream_config_changes sess changes r)"
proof -
  have "fades q (drop_unbound sess dig q)" for dig and q :: "'a repository"
    by (simp add: drop_unbound_def fades_fold fades_invalidate)
  then have "fades q (fold (drop_unbound sess) ds q)" for ds and q :: "'a repository" by (rule fades_fold)
  moreover have "fades r (fold (\<lambda>(name, old, new). bind_config sess name new) changes r)"
    by (rule fades_fold) (auto simp: fades_bind)
  ultimately show ?thesis unfolding notify_stream_config_changes_def by (blast intro: fades_trans)
qed

lemma fades_clear: "safe r \<Longrightarrow> fades r (clear_repository reason r)"
  by (subst clear_empty) (simp_all add: fades_def ready_view_def find_entry_def new_repository_def split: option.split)

section \<open>What a publication adds\<close>

lemma settle_find:
  assumes s: "safe r" and f: "find_entry r key = Some ob" and b: "ob_state ob = Building" "ob_resident ob = 0" "ob_build ob = 0"
    and room: "potential r + charge (r_config r) n < umax"
  shows "\<exists>c. find_entry (settle_canonical key v n r) key = Some c \<and> ob_state c = Ready \<and> ob_type c = ob_type ob \<and>
           ob_value c = Some v \<and> ob_generation c = ob_generation ob \<and> ob_resident c = n"
    and "\<forall>k. k \<noteq> key \<longrightarrow> find_entry (settle_canonical key v n r) k = None \<or> find_entry (settle_canonical key v n r) k = find_entry r k"
proof -
  let ?ob = "ob\<lparr>ob_state := Ready, ob_value := Some v, ob_resident := n\<rparr>"
  define r2 where "r2 = on_stats (\<lambda>s. s\<lparr>st_canonical := st_canonical s + 1\<rparr>) (add_resident_bytes n (put_entry key ?ob r))"
  define m where "m = fst (next_access_sequence r2)"
  define r4 where "r4 = put_entry key (?ob\<lparr>ob_access := m\<rparr>) (r2\<lparr>r_sequence := m\<rparr>)"
  obtain st where st: "canonical_store_for_protocol (protocol key) = Some st" using find_entry_store [OF f] by blast
  have f2: "find_entry (r2\<lparr>r_sequence := m\<rparr>) key = Some ?ob"
    using st by (simp add: r2_def byte_counters find_put_entry)
  then have "grows 0 r2 r4" unfolding r4_def by (rule grows_then [OF grows_sequence touch_grows])
  then have g: "grows (charge (r_config r) n) r r4" using grows_admit [OF f b, of n v] unfolding r2_def by (rule grows_then [rotated])
  then have s4: "safe r4" using s room by (simp add: grows_def)
  let ?r5 = "enforce_soft_budget (Some key) None r4"
  have "\<exists>e c e'. settle_canonical key v n r = drop_tombstone key (emit e (if c then emit e' ?r5 else ?r5))"
    unfolding settle_canonical_def f option.case Let_def next_access_sequence_def case_prod_conv r4_def m_def r2_def fst_conv
    by (intro exI) (rule refl)
  then have e: "find_entry (settle_canonical key v n r) k = find_entry ?r5 k" for k by (auto simp: repo_simps)
  have f4: "find_entry r4 k = (if k = key then Some (?ob\<lparr>ob_access := m\<rparr>) else find_entry r k)" for k
    unfolding r4_def using st by (simp add: r2_def byte_counters find_put_entry)
  have keep: "find_entry ?r5 key = find_entry r4 key"
    using evict_keeps_entry [OF s4, of "Some key" key] by (simp add: enforce_soft_budget_def shielded_def)
  show "\<exists>c. find_entry (settle_canonical key v n r) key = Some c \<and> ob_state c = Ready \<and> ob_type c = ob_type ob \<and>
           ob_value c = Some v \<and> ob_generation c = ob_generation ob \<and> ob_resident c = n"
    unfolding e keep f4 by simp
  have "find_entry ?r5 k = None \<or> find_entry ?r5 k = find_entry r4 k" for k
    by (simp add: enforce_soft_budget_def evict_loses)
  then show "\<forall>k. k \<noteq> key \<longrightarrow> find_entry (settle_canonical key v n r) k = None \<or> find_entry (settle_canonical key v n r) k = find_entry r k"
    unfolding e using f4 by metis
qed


lemma publish_rejected: "fst (publish_canonical key t v n err r) = False \<Longrightarrow> fades r (snd (snd (publish_canonical key t v n err r)))"
proof -
  assume p: "fst (publish_canonical key t v n err r) = False"
  show ?thesis
  proof (cases "\<exists>ob u. find_entry r key = Some ob \<and> v = Some u \<and> ob_state ob = Building \<and> ob_type ob = t")
    case False
    then have "snd (snd (publish_canonical key t v n err r)) = r"
      by (auto simp: publish_canonical_def Let_def split: option.split)
    then show ?thesis by simp
  next
    case True
    then obtain ob u where f: "find_entry r key = Some ob" and v: "v = Some u" and b: "ob_state ob = Building"
      and tt: "ob_type ob = t" by blast
    define excl where "excl = (if protocol key = ''stream'' \<and> scope key = Scope_Full then Some key else None)"
    obtain ok err' r1 where m: "make_hard_room (charge (r_config r) n) (Some key) None err key excl (return_build key ob r) = (ok, err', r1)"
      by (metis prod_cases3)
    obtain st where st: "canonical_store_for_protocol (protocol key) = Some st" using find_entry_store [OF f] by blast
    have a: "fades r r1" using fades_trans [OF fades_return [OF b] fades_hard_room] m by (metis snd_conv)
    have "publish_canonical key t v n err r = (if ok then (True, err', settle_canonical key u n
        (if excl \<noteq> None then erase_stream_sibling_ranges key r1 else r1)) else (False, err', abandon_canonical key ''hard_limit'' n r1))"
      using m by (simp add: publish_canonical_def f v b tt st split: bool.split flip: excl_def)
    then have "snd (snd (publish_canonical key t v n err r)) = abandon_canonical key ''hard_limit'' n r1" using p by (auto split: if_splits)
    then show ?thesis using fades_trans [OF a fades_abandon] by simp
  qed
qed

text \<open>A successful publication: the object built is ready, and other objects are lost or as they were.\<close>

lemma publish_accepted:
  assumes s: "safe r" and room: "potential r + charge (r_config r) n < umax"
    and p: "publish_canonical key t v n err r = (True, err', r')"
  obtains ob u c r2 where "find_entry r key = Some ob" "ob_state ob = Building" "ob_type ob = t" "v = Some u"
    "find_entry r' key = Some c" "ob_state c = Ready" "ob_type c = t" "ob_value c = Some u" "ob_generation c = ob_generation ob"
    "ob_resident c = n" "\<And>k. k \<noteq> key \<Longrightarrow> find_entry r' k = None \<or> find_entry r' k = find_entry r2 k"
    "fades r r2" "protocol key = ''stream'' \<and> scope key = Scope_Full \<Longrightarrow> \<exists>r1. safe r1 \<and> r2 = erase_stream_sibling_ranges key r1"
proof -
  obtain ob u where f: "find_entry r key = Some ob" and v: "v = Some u" and b: "ob_state ob = Building" and tt: "ob_type ob = t"
    using p by (auto simp: publish_canonical_def Let_def split: option.splits if_splits)
  define excl where "excl = (if protocol key = ''stream'' \<and> scope key = Scope_Full then Some key else None)"
  obtain ok e r1 where m: "make_hard_room (charge (r_config r) n) (Some key) None err key excl (return_build key ob r) = (ok, e, r1)"
    by (metis prod_cases3)
  note r1 = room_for_building [OF s f b m]
  obtain st where st: "canonical_store_for_protocol (protocol key) = Some st" using find_entry_store [OF f] by blast
  define r2 where "r2 = (if excl \<noteq> None then erase_stream_sibling_ranges key r1 else r1)"
  have "publish_canonical key t v n err r = (if ok then (True, e, settle_canonical key u n r2)
      else (False, e, abandon_canonical key ''hard_limit'' n r1))"
    using m by (simp add: publish_canonical_def f v b tt st r2_def split: bool.split flip: excl_def)
  then have r': "r' = settle_canonical key u n r2" using p by (auto split: if_splits)
  have "grows 0 r1 r2" by (simp add: r2_def grows_siblings)
  then have r2: "safe r2 \<and> potential r2 \<le> potential r1 \<and> r_config r2 = r_config r1" using r1 grows_zeroD by blast
  have f2: "find_entry r2 key = Some (ob\<lparr>ob_build := 0\<rparr>)" using r1 by (simp add: r2_def siblings_find_self)
  have room2: "potential r2 + charge (r_config r2) n < umax" using r1 r2 room by simp
  have h: "ob_state (ob\<lparr>ob_build := 0\<rparr>) = Building" "ob_resident (ob\<lparr>ob_build := 0\<rparr>) = 0" "ob_build (ob\<lparr>ob_build := 0\<rparr>) = 0"
    using b r1 by simp_all
  note settle = settle_find [OF conjunct1 [OF r2] f2 h room2, where v = u, folded r']
  obtain c where c: "find_entry r' key = Some c" "ob_state c = Ready" "ob_type c = t" "ob_value c = Some u"
      "ob_generation c = ob_generation ob" "ob_resident c = n"
    using settle(1) tt by auto
  have "fades r r1" using fades_trans [OF fades_return [OF b] fades_hard_room] m by (metis snd_conv)
  moreover have "fades r1 r2" by (simp add: r2_def erase_stream_sibling_ranges_def fades_fold)
  ultimately have fd: "fades r r2" by (rule fades_trans)
  have sib: "protocol key = ''stream'' \<and> scope key = Scope_Full \<Longrightarrow> \<exists>r1. safe r1 \<and> r2 = erase_stream_sibling_ranges key r1"
    using r1 by (auto simp: r2_def excl_def)
  show ?thesis by (rule that [OF f b tt v c settle(2) [rule_format] fd sib])
qed

text \<open>The specification: a map that loses entries, and gains one only by its publication.\<close>

definition forgets :: "(cache_key \<Rightarrow> 'b option) \<Rightarrow> (cache_key \<Rightarrow> 'b option) \<Rightarrow> bool" where
  "forgets m m' \<longleftrightarrow> (\<forall>k x. m' k = Some x \<longrightarrow> m k = Some x)"

inductive lossy_step ::
  "'v cache_request \<Rightarrow> (cache_key \<Rightarrow> (string \<times> 'v option \<times> nat) option) \<Rightarrow>
   (cache_key \<Rightarrow> (string \<times> 'v option \<times> nat) option) \<Rightarrow> bool" where
  lose: "forgets m m' \<Longrightarrow> lossy_step req m m'"
| learn: "m k = None \<Longrightarrow> forgets m m' \<Longrightarrow> lossy_step (Publish_Canonical k t (Some v) n) m (m'(k \<mapsto> (t, Some v, g)))"

lemma fades_forgets: "fades r r' \<Longrightarrow> forgets (ready_view r) (ready_view r')"
  by (simp add: fades_def forgets_def)

lemma lossy_publish:
  assumes s: "safe r" and room: "potential r + charge (r_config r) n < umax"
  shows "lossy_step (Publish_Canonical key t v n) (ready_view r) (ready_view (perform (Publish_Canonical key t v n) r))"
proof (cases "fst (publish_canonical key t v n no_error r)")
  case False
  then show ?thesis using lose [OF fades_forgets [OF publish_rejected [of key t v n no_error r]]] by simp
next
  case True
  define r' where "r' = snd (snd (publish_canonical key t v n no_error r))"
  obtain err where p: "publish_canonical key t v n no_error r = (True, err, r')" using True by (metis prod.collapse r'_def)
  obtain ob u c r2 where o: "find_entry r key = Some ob" "ob_state ob = Building" and v: "v = Some u"
    and c: "find_entry r' key = Some c" "ob_state c = Ready" "ob_type c = t" "ob_value c = Some u"
    and k: "\<And>k. k \<noteq> key \<Longrightarrow> find_entry r' k = None \<or> find_entry r' k = find_entry r2 k" and f: "fades r r2"
    by (rule publish_accepted [OF s room p]) blast
  let ?m = "(ready_view r')(key := None)"
  have "forgets (ready_view r) ?m"
    unfolding forgets_def
  proof (intro allI impI)
    fix j x
    assume j: "?m j = Some x"
    then have n: "j \<noteq> key" "ready_view r' j = Some x" by (auto split: if_splits)
    then have "ready_view r2 j = Some x" using k [of j] by (auto simp: ready_view_def)
    then show "ready_view r j = Some x" using f unfolding fades_def by blast
  qed
  moreover have "ready_view r key = None" by (simp add: ready_view_def o)
  moreover have "ready_view r' = ?m(key \<mapsto> (t, Some u, ob_generation c))" using c by (auto simp: ready_view_def fun_eq_iff)
  ultimately show ?thesis using learn [of "ready_view r" key ?m t u n "ob_generation c"] by (simp add: v r'_def)
qed

lemma lossy_perform:
  assumes s: "safe r" and room: "potential r + request_cost (r_config r) req < umax"
  shows "lossy_step req (ready_view r) (ready_view (perform req r))"
proof (cases "\<exists>key t v n. req = Publish_Canonical key t v n")
  case True
  then show ?thesis using lossy_publish [OF s] room by auto
next
  case False
  then have "fades r (perform req r)"
    using s by (cases req) (simp_all add: fades_begin fades_update fades_fail fades_find fades_begin_index fades_publish_index
      fades_update_index fades_hit_index fades_put_cursor fades_resume fades_erase_cursor fades_invalidate fades_clear fades_notify
      fail_index_def find_index_def fades_then split: option.split)
  then show ?thesis by (intro lose fades_forgets)
qed


lemma find_from_view:
  "fst (find_canonical key t touch r) =
     (case ready_view r key of None \<Rightarrow> None | Some (t', v, g) \<Rightarrow> if t' = t then Some (v, g) else None)"
  by (auto simp: find_canonical_def ready_view_def Let_def split: option.split prod.split)

lemma published_begin:
  assumes "find_entry r key = Some c" "ob_state c = Ready"
  shows "fst (begin_canonical key t n r) = (if ob_type c = t then Hit else Rejected)"
proof -
  obtain st where st: "canonical_store_for_protocol (protocol key) = Some st" using find_entry_store [OF assms(1)] by blast
  show ?thesis using assms by (simp add: begin_canonical_def st Let_def split: prod.split)
qed

lemma siblings_gone:
  assumes "is_stream_sibling_range k key"
  shows "find_entry (erase_stream_sibling_ranges key r) k = None"
proof -
  let ?ks = "filter (\<lambda>k. is_stream_sibling_range k key) (map fst (r_entries r Stream_Entries))"
  have "protocol k = ''stream''" using assms by (simp add: is_stream_sibling_range_def)
  then have f: "find_entry q k = omap_get (r_entries q Stream_Entries) k" for q :: "'a repository"
    by (simp add: find_entry_def canonical_store_for_protocol_def)
  have "find_entry r k = None" if "k \<notin> set ?ks"
    using that assms unfolding f by (auto simp: map_of_eq_None_iff)
  then show ?thesis unfolding erase_stream_sibling_ranges_def fold_erase_find by simp
qed

section \<open>Configuration changes\<close>

lemma invalidate_find: "find_entry (invalidate k reason r) j = (if j = k then None else find_entry r j)"
  by (simp add: invalidate_def erase_canonical_find)

lemma fold_invalidate_find:
  "find_entry (fold (\<lambda>k. invalidate k reason) ks r) j = (if j \<in> set ks then None else find_entry r j)"
  by (induction ks arbitrary: r) (auto simp: invalidate_find)

lemma small_bindings [simp]:
  "r_bindings (drop_generation key r) = r_bindings r" "r_bindings (drop_tombstone key r) = r_bindings r"
  "r_bindings (drop_cursor cid r) = r_bindings r" "r_bindings (drop_index ik r) = r_bindings r"
  "r_bindings (drop_entry key r) = r_bindings r" "r_bindings (erase_generation_if_unreferenced key r) = r_bindings r"
  by (simp_all add: drop_generation_def drop_tombstone_def drop_cursor_def drop_index_def drop_entry_def del_entry_def
      erase_generation_if_unreferenced_def Let_def repo_simps split: option.split)

lemma invalidate_bindings [simp]: "r_bindings (invalidate k reason r) = r_bindings r"
proof -
  have "r_bindings (fold drop_index xs q) = r_bindings q" "r_bindings (fold drop_cursor cs q) = r_bindings q"
    for xs cs and q :: "'a repository"
    by (induction xs arbitrary: q, simp_all, induction cs arbitrary: q, simp_all)
  then show ?thesis
    by (simp add: invalidate_def erase_canonical_internal_def erase_owned_indexes_def erase_owned_cursors_def Let_def
        repo_simps split: option.split)
qed

lemma drop_unbound_bindings [simp]: "r_bindings (drop_unbound sess dig r) = r_bindings r"
proof -
  have "r_bindings (fold (\<lambda>k. invalidate k reason) ks q) = r_bindings q" for ks reason and q :: "'a repository"
    by (induction ks arbitrary: q) simp_all
  then show ?thesis by (simp add: drop_unbound_def)
qed

lemma session_bindings_cong: "r_bindings r = r_bindings q \<Longrightarrow> session_bindings sess r = session_bindings sess q"
  by (simp add: session_bindings_def)

lemma drop_unbound_find:
  assumes "protocol k = ''stream''" "session_id k = sess" "semantic_digest k = dig"
    "\<forall>b \<in> set (session_bindings sess r). snd b \<noteq> dig"
  shows "find_entry (drop_unbound sess dig r) k = None"
proof -
  have f: "find_entry q k = omap_get (r_entries q Stream_Entries) k" for q :: "'a repository"
    using assms(1) by (simp add: find_entry_def canonical_store_for_protocol_def)
  let ?ks = "filter (\<lambda>k. session_id k = sess \<and> semantic_digest k = dig) (map fst (r_entries r Stream_Entries))"
  have "find_entry r k = None" if "k \<notin> set ?ks"
    using that assms(2,3) unfolding f by (auto simp: map_of_eq_None_iff)
  moreover have "\<not> list_ex (\<lambda>b. snd b = dig) (session_bindings sess r)" using assms(4) by (auto simp: list_ex_iff)
  ultimately show ?thesis by (simp add: drop_unbound_def fold_invalidate_find)
qed

lemma drop_unbound_loses: "find_entry r k = None \<Longrightarrow> find_entry (drop_unbound sess dig r) k = None"
  by (simp add: drop_unbound_def fold_invalidate_find)

lemma fold_unbound_find:
  assumes k: "protocol k = ''stream''" "session_id k = sess" "semantic_digest k \<in> set ds"
    and "\<forall>b \<in> set (session_bindings sess r). snd b \<noteq> semantic_digest k"
  shows "find_entry (fold (drop_unbound sess) ds r) k = None"
  using assms(3,4)
proof (induction ds arbitrary: r)
  case (Cons d ds)
  have lost: "find_entry q k = None \<Longrightarrow> find_entry (fold (drop_unbound sess) ds q) k = None" for q :: "'a repository"
    by (induction ds arbitrary: q) (simp_all add: drop_unbound_loses)
  show ?case
  proof (cases "semantic_digest k = d")
    case True
    then show ?thesis using lost [OF drop_unbound_find [OF k(1,2) True, of r]] Cons.prems(2) by simp
  next
    case False
    have "session_bindings sess (drop_unbound sess d r) = session_bindings sess r" by (rule session_bindings_cong) simp
    then show ?thesis using Cons.IH [of "drop_unbound sess d r"] False Cons.prems by simp
  qed
qed simp

lemma notify_find:
  assumes c: "(name, dig, new) \<in> set changes" "dig \<noteq> []" "dig \<noteq> new"
    and u: "\<forall>b \<in> set (session_bindings sess (notify_stream_config_changes sess changes r)). snd b \<noteq> dig"
    and k: "protocol k = ''stream''" "session_id k = sess" "semantic_digest k = dig"
  shows "find_entry (notify_stream_config_changes sess changes r) k = None"
proof -
  define q where "q = fold (\<lambda>(name, old, new). bind_config sess name new) changes r"
  have n: "notify_stream_config_changes sess changes r = fold (drop_unbound sess) (old_digests changes) q"
    by (simp add: notify_stream_config_changes_def q_def)
  have "r_bindings (fold (drop_unbound sess) ds p) = r_bindings p" for ds and p :: "'a repository"
    by (induction ds arbitrary: p) simp_all
  then have "session_bindings sess (fold (drop_unbound sess) (old_digests changes) q) = session_bindings sess q"
    by (intro session_bindings_cong)
  moreover have "dig \<in> set (old_digests changes)" using c by (force simp: old_digests_def)
  ultimately show ?thesis using fold_unbound_find [OF k(1,2), of "old_digests changes" q] u k(3) unfolding n by simp
qed


section \<open>Requests that fit the hard limit\<close>

lemma current_charged_le: "current_charged_bytes None None excluded r \<le> st_charged (r_stats r)"
proof -
  have f: "fold (\<lambda>p. if P p then take_off (c p) else id) xs t \<le> (t :: nat)" for P c and xs :: "'b list" and t
  proof (induction xs arbitrary: t)
    case (Cons x xs)
    have "(if P x then take_off (c x) else id) t \<le> t" by (simp add: take_off_def)
    with Cons.IH [of "(if P x then take_off (c x) else id) t"] show ?case by (simp del: if_split)
  qed simp
  show ?thesis by (auto simp: current_charged_bytes_def Let_def split: option.split intro: le_trans [OF f f])
qed

lemma room_enough:
  assumes s: "safe r" and le: "potential r + nc \<le> hard_max_bytes (r_config r)"
  shows "make_hard_room nc pcan pind err rk excluded r = (True, err, r)"
proof -
  have "st_charged (r_stats r) \<le> potential r"
    using s charged_le_potential [of "r_config r" r] by (simp add: safe_def exact_def potential_def)
  moreover have "sat_add (current_charged_bytes None None excluded r) nc \<le> current_charged_bytes None None excluded r + nc"
    unfolding sat_add_def by arith
  ultimately have "fits_limit (hard_max_bytes (r_config r)) nc excluded r"
    using current_charged_le [of excluded r] le unfolding fits_limit_def by linarith
  then show ?thesis by (simp add: make_hard_room_def evict_to_budget_def release_metadata.simps Let_def)
qed

lemma begin_enough:
  assumes s: "safe r" and n: "find_entry r key = None" and st: "canonical_store_for_protocol (protocol key) \<noteq> None"
    and le: "potential r + request_cost (r_config r) (Begin_Canonical key t n) \<le> hard_max_bytes (r_config r)"
  shows "begin_canonical key t n r = (Build_Started, no_error, start_canonical key t n r)"
proof -
  define m where "m = (if omap_get (r_generations r) key = None then charge (r_config r) (key_metadata_bytes key) else 0)"
  have "sat_add (charge (r_config r) n) m \<le> charge (r_config r) n + m" unfolding sat_add_def by arith
  moreover have "m \<le> charge (r_config r) (key_metadata_bytes key)" by (simp add: m_def)
  ultimately have "potential r + sat_add (charge (r_config r) n) m \<le> hard_max_bytes (r_config r)"
    using le unfolding request_cost.simps by linarith
  note room = room_enough [OF s this]
  obtain sid where "canonical_store_for_protocol (protocol key) = Some sid" using st by blast
  then show ?thesis by (simp add: begin_canonical_def n Let_def room flip: m_def)
qed

lemma publish_enough:
  assumes s: "safe r" and f: "find_entry r key = Some ob" and b: "ob_state ob = Building" and tt: "ob_type ob = t"
    and le: "potential r + charge (r_config r) n \<le> hard_max_bytes (r_config r)"
  shows "fst (publish_canonical key t (Some v) n err r)"
proof -
  have q: "safe (return_build key ob r) \<and> potential (return_build key ob r) \<le> potential r \<and>
      r_config (return_build key ob r) = r_config r"
    using grows_zeroD [OF grows_return_build [OF f b] s] .
  obtain sid where "canonical_store_for_protocol (protocol key) = Some sid" using find_entry_store [OF f] by blast
  then show ?thesis using q le by (simp add: publish_canonical_def f b tt room_enough Let_def)
qed

lemma index_enough:
  assumes s: "safe r" and c: "find_entry r (index_owner ik) = Some c" "ob_state c = Ready" "ob_generation c = owner_generation ik"
    and n: "omap_get (r_indexes r) ik = None"
    and le: "potential r + charge (r_config r) n \<le> hard_max_bytes (r_config r)"
  shows "begin_index ik t n r = (Build_Started, no_error, start_index ik t n r)"
proof -
  obtain sid where "canonical_store_for_protocol (protocol (index_owner ik)) = Some sid" using find_entry_store [OF c(1)] by blast
  then show ?thesis using c n le by (simp add: begin_index_def room_enough [OF s] Let_def)
qed

lemma start_find:
  assumes "canonical_store_for_protocol (protocol key) \<noteq> None"
  shows "\<exists>ob. find_entry (start_canonical key t n r) key = Some ob \<and> ob_state ob = Building \<and> ob_type ob = t \<and>
    ob_generation ob = (case omap_get (r_generations r) key of None \<Rightarrow> 0 | Some g \<Rightarrow> g) + 1"
  using assms
  by (simp add: start_canonical_def next_access_sequence_def Let_def byte_counters repo_simps find_put_entry omap_get_put
      del: not_None_eq)

lemma start_index_get: "omap_get (r_indexes (start_index ik t n r)) ik \<noteq> None"
  by (simp add: start_index_def next_access_sequence_def Let_def byte_counters repo_simps put_index_def omap_get_put)

lemma run_potential:
  fixes reqs :: "'v cache_request list"
  assumes "1 \<le> estimator_safety_factor cfg" "run_cost cfg reqs < umax"
  shows "potential (run reqs (new_repository cfg)) \<le> run_cost cfg reqs"
proof -
  let ?n = "new_repository cfg :: 'v repository"
  have n: "?n = ?n\<lparr>r_sequence := 0, r_events := [], r_stats := no_stats\<lparr>st_access := 0\<rparr>\<rparr>"
    by (simp add: new_repository_def no_stats_def)
  have "safe ?n" by (subst n) (rule safe_new(1) [OF assms(1)])
  moreover have "potential ?n = 0" by (subst n) (rule safe_new(2) [OF assms(1)])
  ultimately show ?thesis using grows_run [of ?n reqs] assms(2) by (simp add: grows_def)
qed

lemma run_append: "run (reqs @ reqs') r = run reqs' (run reqs r)"
  by (simp add: run_def)

text \<open>Building and publishing an object on an empty cache, and then an index for it.\<close>

lemma sample_run:
  fixes v :: 'v
  assumes cfg: "1 \<le> estimator_safety_factor cfg" and st: "canonical_store_for_protocol (protocol key) \<noteq> None"
    and cost: "run_cost cfg [Begin_Canonical key t n, Publish_Canonical key t (Some v) m] \<le> hard_max_bytes cfg"
    and hard: "hard_max_bytes cfg < umax"
  shows "\<exists>c. find_entry (run [Begin_Canonical key t n, Publish_Canonical key t (Some v) m] (new_repository cfg)) key = Some c \<and>
    ob_state c = Ready \<and> ob_type c = t \<and> ob_value c = Some v \<and> ob_generation c = 1"
    and "fst (publish_canonical key t (Some v) m no_error (run [Begin_Canonical key t n] (new_repository cfg)))"
    and "begin_canonical key t n (new_repository cfg :: 'v repository) = (Build_Started, no_error, start_canonical key t n (new_repository cfg))"
proof -
  let ?r0 = "new_repository cfg :: 'v repository"
  let ?r1 = "run [Begin_Canonical key t n] ?r0"
  have s0: "safe ?r0 \<and> r_config ?r0 = cfg" using safe_run [OF cfg, of "[] :: 'v cache_request list"]
    by (simp add: run_def run_cost_def umax_def)
  have p0: "potential ?r0 = 0" using run_potential [OF cfg, of "[] :: 'v cache_request list"] by (simp add: run_def run_cost_def umax_def)
  have "begin_canonical key t n ?r0 = (Build_Started, no_error, start_canonical key t n ?r0)"
    by (rule begin_enough) (use s0 p0 st cost in \<open>simp_all add: new_repository_def find_entry_def run_cost_def split: option.split\<close>)
  then show "begin_canonical key t n ?r0 = (Build_Started, no_error, start_canonical key t n ?r0)" .
  then have r1: "?r1 = start_canonical key t n ?r0" by (simp add: run_def)
  have c1: "run_cost cfg [Begin_Canonical key t n :: 'v cache_request] < umax" using cost hard by (simp add: run_cost_def)
  have s1: "safe ?r1 \<and> r_config ?r1 = cfg" by (rule safe_run [OF cfg c1])
  have p1: "potential ?r1 + charge cfg m \<le> hard_max_bytes cfg"
    using run_potential [OF cfg c1] cost by (simp add: run_cost_def)
  obtain ob where ob: "find_entry ?r1 key = Some ob" "ob_state ob = Building" "ob_type ob = t" "ob_generation ob = 1"
    using start_find [OF st, of t n ?r0] unfolding r1 by (auto simp: new_repository_def)
  have f: "fst (publish_canonical key t (Some v) m no_error ?r1)"
    by (rule publish_enough [OF _ ob(1-3)]) (use s1 p1 in simp_all)
  then show "fst (publish_canonical key t (Some v) m no_error ?r1)" .
  obtain e where p: "publish_canonical key t (Some v) m no_error ?r1 = (True, e, perform (Publish_Canonical key t (Some v) m) ?r1)"
    using f by (metis perform.simps(2) prod.collapse)
  obtain c where "find_entry (perform (Publish_Canonical key t (Some v) m) ?r1) key = Some c" "ob_state c = Ready" "ob_type c = t"
      "ob_value c = Some v" "ob_generation c = ob_generation ob"
    by (rule publish_accepted [OF conjunct1 [OF s1] _ p]) (use s1 p1 hard ob(1) in auto)
  then show "\<exists>c. find_entry (run [Begin_Canonical key t n, Publish_Canonical key t (Some v) m] ?r0) key = Some c \<and>
      ob_state c = Ready \<and> ob_type c = t \<and> ob_value c = Some v \<and> ob_generation c = 1"
    using ob(4) by (simp add: run_def)
qed

end
