(* ===== verification/Repository_Properties.thy ===== *)
theory Repository_Properties
  imports Repository_Contract
begin

text \<open>
  What the analysis cache promises: its statistics are those recomputed from its maps, indexes belong
  to ready objects, the hard limit holds when a build starts, eviction takes the least recently used
  objects and spares what is being built or protected, and a configuration change removes the analyses
  of the digests no configuration uses any more.
\<close>

section \<open>Recomputed statistics\<close>

lemma fold_count_canonical:
  fixes m :: "('k \<times> 'v canonical_object) list"
  shows "st_resident s + omap_total (\<lambda>_. ob_resident) m \<le> umax \<Longrightarrow> st_build s + omap_total (\<lambda>_. ob_build) m \<le> umax \<Longrightarrow>
   st_charged s + omap_total (\<lambda>_. both_charges cfg) m \<le> umax \<Longrightarrow>
   fold (\<lambda>p. count_object cfg (\<lambda>s. s\<lparr>st_canonical := st_canonical s + 1\<rparr>) (snd p)) m s =
   s\<lparr>st_canonical := st_canonical s + omap_total (\<lambda>_. ready_count) m, st_resident := st_resident s + omap_total (\<lambda>_. ob_resident) m,
     st_build := st_build s + omap_total (\<lambda>_. ob_build) m, st_charged := st_charged s + omap_total (\<lambda>_. both_charges cfg) m\<rparr>"
proof (induction m arbitrary: s)
  case (Cons p m)
  obtain k ob where p: "p = (k, ob)" by fastforce
  have "count_object cfg (\<lambda>s. s\<lparr>st_canonical := st_canonical s + 1\<rparr>) ob s =
      s\<lparr>st_canonical := st_canonical s + ready_count ob, st_resident := st_resident s + ob_resident ob,
        st_build := st_build s + ob_build ob, st_charged := st_charged s + both_charges cfg ob\<rparr>"
    using Cons.prems by (simp add: p count_object_def Let_def ready_count_def both_charges_def sat_add_exact)
  then show ?case using Cons.IH [of "s\<lparr>st_canonical := st_canonical s + ready_count ob, st_resident := st_resident s + ob_resident ob,
        st_build := st_build s + ob_build ob, st_charged := st_charged s + both_charges cfg ob\<rparr>"] Cons.prems
    by (simp add: p add.assoc)
qed simp

lemma fold_count_index:
  fixes m :: "('k \<times> 'v cache_object) list"
  shows "st_resident s + omap_total (\<lambda>_. ob_resident) m \<le> umax \<Longrightarrow> st_build s + omap_total (\<lambda>_. ob_build) m \<le> umax \<Longrightarrow>
   st_charged s + omap_total (\<lambda>_. both_charges cfg) m \<le> umax \<Longrightarrow>
   fold (\<lambda>p. count_object cfg (\<lambda>s. s\<lparr>st_index := st_index s + 1\<rparr>) (snd p)) m s =
   s\<lparr>st_index := st_index s + omap_total (\<lambda>_. ready_count) m, st_resident := st_resident s + omap_total (\<lambda>_. ob_resident) m,
     st_build := st_build s + omap_total (\<lambda>_. ob_build) m, st_charged := st_charged s + omap_total (\<lambda>_. both_charges cfg) m\<rparr>"
proof (induction m arbitrary: s)
  case (Cons p m)
  obtain k ob where p: "p = (k, ob)" by fastforce
  have "count_object cfg (\<lambda>s. s\<lparr>st_index := st_index s + 1\<rparr>) ob s =
      s\<lparr>st_index := st_index s + ready_count ob, st_resident := st_resident s + ob_resident ob,
        st_build := st_build s + ob_build ob, st_charged := st_charged s + both_charges cfg ob\<rparr>"
    using Cons.prems by (simp add: p count_object_def Let_def ready_count_def both_charges_def sat_add_exact)
  then show ?case using Cons.IH [of "s\<lparr>st_index := st_index s + ready_count ob, st_resident := st_resident s + ob_resident ob,
        st_build := st_build s + ob_build ob, st_charged := st_charged s + both_charges cfg ob\<rparr>"] Cons.prems
    by (simp add: p add.assoc)
qed simp

lemma fold_count_metadata:
  "st_metadata s + omap_total f m \<le> umax \<Longrightarrow> st_charged s + omap_total (\<lambda>k v. charge cfg (f k v)) m \<le> umax \<Longrightarrow>
   fold (\<lambda>p. count_metadata cfg (f (fst p) (snd p))) m s =
   s\<lparr>st_metadata := st_metadata s + omap_total f m, st_charged := st_charged s + omap_total (\<lambda>k v. charge cfg (f k v)) m\<rparr>"
  by (induction m arbitrary: s) (auto simp: count_metadata_def sat_add_exact add.assoc)

lemma fold_count_bindings:
  "st_metadata s + omap_total (binding_metadata_bytes sess) bs \<le> umax \<Longrightarrow>
   st_charged s + omap_total (\<lambda>n d. charge cfg (binding_metadata_bytes sess n d)) bs \<le> umax \<Longrightarrow>
   fold (\<lambda>(name, dig) s. count_metadata cfg (binding_metadata_bytes sess name dig) (s\<lparr>st_binding := st_binding s + 1\<rparr>)) bs s =
   s\<lparr>st_binding := st_binding s + length bs, st_metadata := st_metadata s + omap_total (binding_metadata_bytes sess) bs,
     st_charged := st_charged s + omap_total (\<lambda>n d. charge cfg (binding_metadata_bytes sess n d)) bs\<rparr>"
  by (induction bs arbitrary: s) (auto simp: count_metadata_def sat_add_exact add.assoc)

lemma fold_count_sessions:
  "st_metadata s + omap_total (\<lambda>sess. omap_total (binding_metadata_bytes sess)) m \<le> umax \<Longrightarrow>
   st_charged s + omap_total (\<lambda>sess. omap_total (\<lambda>n d. charge cfg (binding_metadata_bytes sess n d))) m \<le> umax \<Longrightarrow>
   fold (\<lambda>(sess, bs). fold (\<lambda>(name, dig) s.
      count_metadata cfg (binding_metadata_bytes sess name dig) (s\<lparr>st_binding := st_binding s + 1\<rparr>)) bs) m s =
   s\<lparr>st_binding := st_binding s + omap_total (\<lambda>sess. length) m,
     st_metadata := st_metadata s + omap_total (\<lambda>sess. omap_total (binding_metadata_bytes sess)) m,
     st_charged := st_charged s + omap_total (\<lambda>sess. omap_total (\<lambda>n d. charge cfg (binding_metadata_bytes sess n d))) m\<rparr>"
proof (induction m arbitrary: s)
  case (Cons p m)
  obtain sess bs where p: "p = (sess, bs)" by fastforce
  let ?s' = "s\<lparr>st_binding := st_binding s + length bs, st_metadata := st_metadata s + omap_total (binding_metadata_bytes sess) bs,
     st_charged := st_charged s + omap_total (\<lambda>n d. charge cfg (binding_metadata_bytes sess n d)) bs\<rparr>"
  show ?case using Cons.prems fold_count_bindings [of s sess bs cfg] Cons.IH [of ?s']
    by (simp add: p add.assoc)
qed simp

lemma omap_total_zero [simp]: "omap_total (\<lambda>_ _. 0) m = 0" "omap_total (\<lambda>s. omap_total (\<lambda>_ _. 0)) n = 0"
  by (simp_all add: omap_total_def)

lemma omap_total_append: "omap_total f (m @ n) = omap_total f m + omap_total f n"
  by (simp add: omap_total_def)

lemma omap_total_const: "omap_total (\<lambda>_ _. Suc 0) = length"
proof
  show "omap_total (\<lambda>_ _. Suc 0) m = length m" for m :: "('a \<times> 'b) list" by (induction m) auto
qed

lemma exact_recomputed:
  assumes s: "safe r"
  shows "debug_recomputed_stats r = repository_stats_of r"
proof -
  let ?cfg = "r_config r" and ?m = "concat (map (r_entries r) all_stores)"
  have p: "potential r < umax" "1 \<le> estimator_safety_factor ?cfg" and e: "exact r"
    using s by (simp_all add: safe_def)
  note b = bytes_below [OF p]
  have ent: "sum_list (map (\<lambda>s. omap_total f (r_entries r s)) all_stores) = omap_total f ?m" for f :: "cache_key \<Rightarrow> 'a canonical_object \<Rightarrow> nat"
    by (simp add: all_stores_def omap_total_append)
  have T: "tally w r = omap_total (w_entry w) ?m + omap_total (\<lambda>_. w_index w) (r_indexes r) +
      omap_total (\<lambda>k _. w_gen w k) (r_generations r) + omap_total (\<lambda>k _. w_tomb w k) (r_evicted r) +
      omap_total (\<lambda>_. w_cursor w) (r_cursors r) + omap_total (\<lambda>s. omap_total (w_bind w s)) (r_bindings r)" for w
    by (simp only: tally_def ent)
  note n = no_stats_def
  have s1: "fold (\<lambda>p. count_object ?cfg (\<lambda>s. s\<lparr>st_canonical := st_canonical s + 1\<rparr>) (snd p)) ?m no_stats =
      no_stats\<lparr>st_canonical := omap_total (\<lambda>_. ready_count) ?m, st_resident := omap_total (\<lambda>_. ob_resident) ?m,
        st_build := omap_total (\<lambda>_. ob_build) ?m, st_charged := omap_total (\<lambda>_. both_charges ?cfg) ?m\<rparr>" (is "_ = ?s1")
    using b by (subst fold_count_canonical) (simp_all add: T n)
  have s2: "fold (\<lambda>p. count_object ?cfg (\<lambda>s. s\<lparr>st_index := st_index s + 1\<rparr>) (snd p)) (r_indexes r) ?s1 =
      ?s1\<lparr>st_index := tally W_index r, st_resident := tally W_resident r, st_build := tally W_build r,
        st_charged := st_charged ?s1 + omap_total (\<lambda>_. both_charges ?cfg) (r_indexes r)\<rparr>" (is "_ = ?s2")
    using b by (subst fold_count_index) (simp_all add: T n)
  let ?s3 = "?s2\<lparr>st_generation := length (r_generations r), st_cursor := length (r_cursors r),
                  st_tombstone := length (r_evicted r)\<rparr>"
  let ?g = "omap_total (\<lambda>k _. key_metadata_bytes k) (r_generations r)"
  let ?gc = "omap_total (\<lambda>k _. charge ?cfg (key_metadata_bytes k)) (r_generations r)"
  have s4: "fold (\<lambda>p. count_metadata ?cfg (key_metadata_bytes (fst p))) (r_generations r) ?s3 =
      ?s3\<lparr>st_metadata := ?g, st_charged := st_charged ?s2 + ?gc\<rparr>" (is "_ = ?s4")
    using b fold_count_metadata [of ?s3 "\<lambda>k _. key_metadata_bytes k" "r_generations r" ?cfg] by (simp add: T n)
  have s5: "fold (\<lambda>p. count_metadata ?cfg (cursor_metadata_bytes (snd p))) (r_cursors r) ?s4 =
      ?s4\<lparr>st_metadata := st_metadata ?s4 + omap_total (\<lambda>_. cursor_metadata_bytes) (r_cursors r),
          st_charged := st_charged ?s4 + omap_total (\<lambda>_ c. charge ?cfg (cursor_metadata_bytes c)) (r_cursors r)\<rparr>" (is "_ = ?s5")
    using b fold_count_metadata [of ?s4 "\<lambda>_. cursor_metadata_bytes" "r_cursors r" ?cfg] by (simp add: T n)
  have s6: "fold (\<lambda>(sess, bs). fold (\<lambda>(name, dig) s.
        count_metadata ?cfg (binding_metadata_bytes sess name dig) (s\<lparr>st_binding := st_binding s + 1\<rparr>)) bs) (r_bindings r) ?s5 =
      ?s5\<lparr>st_binding := omap_total (\<lambda>sess. length) (r_bindings r),
        st_metadata := st_metadata ?s5 + omap_total (\<lambda>sess. omap_total (binding_metadata_bytes sess)) (r_bindings r),
        st_charged := st_charged ?s5 + omap_total (\<lambda>sess. omap_total (\<lambda>n d. charge ?cfg (binding_metadata_bytes sess n d))) (r_bindings r)\<rparr>"
    (is "_ = ?s6")
    using b by (subst fold_count_sessions) (simp_all add: T n)
  have s7: "fold (\<lambda>p. count_metadata ?cfg (key_metadata_bytes (fst p))) (r_evicted r) ?s6 =
      ?s6\<lparr>st_metadata := tally W_metadata r, st_charged := tally (W_charged ?cfg) r\<rparr>"
    using b fold_count_metadata [of ?s6 "\<lambda>k _. key_metadata_bytes k" "r_evicted r" ?cfg] by (simp add: T n)
  have bind: "omap_total (\<lambda>s. omap_total (\<lambda>_ _. Suc 0)) (r_bindings r) = omap_total (\<lambda>sess. length) (r_bindings r)"
    by (simp add: omap_total_const)
  have "debug_recomputed_stats r = ?s6\<lparr>st_metadata := tally W_metadata r, st_charged := tally (W_charged ?cfg) r, st_access := r_sequence r\<rparr>"
    unfolding debug_recomputed_stats_def Let_def s1 s2 s4 s5 s6 s7 by simp
  also have "\<dots> = repository_stats_of r"
    using e unfolding exact_def repository_stats_of_def by (simp add: T n omap_total_const)
  finally show ?thesis .
qed

section \<open>Admission\<close>

lemma sat_add_below: "sat_add a b \<le> a + b"
  unfolding sat_add_def by arith

lemma hard_room_fits:
  assumes "safe r" "make_hard_room nc pcan pind err rk None r = (ok, err', r1)" ok "hard_max_bytes (r_config r) < umax"
  shows "st_charged (r_stats r1) + nc \<le> hard_max_bytes (r_config r) \<and> r_config r1 = r_config r"
proof -
  have "r_config (snd (snd (make_hard_room nc pcan pind err rk None r))) = r_config r"
    using grows_zeroD [OF grows_make_hard_room assms(1)] by blast
  with assms(2) have c: "r_config r1 = r_config r" by simp
  have "fits_limit (hard_max_bytes (r_config r1)) nc None r1"
    using assms(2,3) by (auto simp: make_hard_room_def Let_def split: if_splits)
  then show ?thesis using c assms(4)
    by (auto simp: fits_limit_def current_charged_bytes_def Let_def dest: sat_add_le)
qed

lemma start_charged:
  "st_charged (r_stats (start_canonical key t n r)) \<le> st_charged (r_stats r) + charge (r_config r) n +
     charge (r_config r) (key_metadata_bytes key)"
proof -
  have "st_charged (r_stats (put_entry k ob q)) = st_charged (r_stats q)" "r_config (put_entry k ob q) = r_config q"
    for k ob and q :: "'a repository"
    by (simp_all add: put_entry_def split: option.split)
  moreover note sat_add_below [of "st_charged (r_stats r)" "charge (r_config r) (key_metadata_bytes key)"]
    sat_add_below [of "st_charged (r_stats r)" "charge (r_config r) n"]
    sat_add_below [of "sat_add (st_charged (r_stats r)) (charge (r_config r) (key_metadata_bytes key))" "charge (r_config r) n"]
  ultimately show ?thesis
    by (auto simp: start_canonical_def next_access_sequence_def Let_def byte_counters repo_simps)
qed

lemma admitted_begin:
  assumes s: "safe r" and b: "begin_canonical key t n r = (Build_Started, err, r')"
    and g: "omap_get (r_generations r) key = None" and h: "hard_max_bytes (r_config r) < umax"
  shows "st_charged (r_stats r') \<le> hard_max_bytes (r_config r)"
proof -
  let ?meta = "charge (r_config r) (key_metadata_bytes key)"
  obtain ok e r1 where m: "make_hard_room (sat_add (charge (r_config r) n) ?meta) None None no_error key None r = (ok, e, r1)"
    by (metis prod_cases3)
  have "find_entry r key = None" "canonical_store_for_protocol (protocol key) \<noteq> None"
    using b by (auto simp: begin_canonical_def Let_def next_access_sequence_def split: option.splits if_splits)
  then have "ok \<and> r' = start_canonical key t n r1"
    using b m by (auto simp: begin_canonical_def Let_def g split: bool.splits)
  moreover have "ok \<Longrightarrow> st_charged (r_stats r1) + sat_add (charge (r_config r) n) ?meta \<le> hard_max_bytes (r_config r) \<and> r_config r1 = r_config r"
    using hard_room_fits [OF s m _ h] by blast
  ultimately show ?thesis
    using start_charged [of key t n r1] sat_add_exact [of "charge (r_config r) n" ?meta]
      sat_add_le [of "charge (r_config r) n" ?meta "hard_max_bytes (r_config r)"] h by auto
qed

lemma admitted_index:
  assumes s: "safe r" and b: "begin_index ik t n r = (Build_Started, err, r')" and h: "hard_max_bytes (r_config r) < umax"
  shows "st_charged (r_stats r') \<le> hard_max_bytes (r_config r)"
proof -
  obtain ok e r1 where m: "make_hard_room (charge (r_config r) n) (Some (index_owner ik)) None no_error (index_owner ik) None r = (ok, e, r1)"
    by (metis prod_cases3)
  have "ok \<and> r' = start_index ik t n r1"
    using b m by (auto simp: begin_index_def Let_def split: option.splits if_splits bool.splits)
  moreover have "ok \<Longrightarrow> st_charged (r_stats r1) + charge (r_config r) n \<le> hard_max_bytes (r_config r) \<and> r_config r1 = r_config r"
    using hard_room_fits [OF s m _ h] by blast
  moreover have "st_charged (r_stats (start_index ik t n r1)) \<le> st_charged (r_stats r1) + charge (r_config r1) n"
    using sat_add_below by (simp add: start_index_def put_index_def next_access_sequence_def Let_def byte_counters repo_simps)
  ultimately show ?thesis by auto
qed

lemma admitted_update:
  assumes s: "safe r" and b: "update_canonical_build_bytes key n err r = (True, err', r')" and h: "hard_max_bytes (r_config r) < umax"
  shows "st_charged (r_stats r') \<le> hard_max_bytes (r_config r)"
proof -
  obtain ob where f: "find_entry r key = Some ob" and bd: "ob_state ob = Building"
    using b by (auto simp: update_canonical_build_bytes_def Let_def split: option.splits if_splits)
  obtain st where st: "canonical_store_for_protocol (protocol key) = Some st" using find_entry_store [OF f] by blast
  let ?q = "return_build key ob r"
  obtain ok e r1 where m: "make_hard_room (charge (r_config r) n) (Some key) None err key None ?q = (ok, e, r1)"
    by (metis prod_cases3)
  note r1 = room_for_building [OF s f bd m]
  have q: "safe ?q \<and> r_config ?q = r_config r" using grows_zeroD [OF grows_return_build [OF f bd] s] by blast
  have "ok \<and> r' = add_build_bytes n (put_entry key (ob\<lparr>ob_build := n\<rparr>) r1)"
    using b m r1 by (auto simp: update_canonical_build_bytes_def f bd st split: bool.splits)
  moreover have "ok \<Longrightarrow> st_charged (r_stats r1) + charge (r_config r) n \<le> hard_max_bytes (r_config r)"
    using hard_room_fits [of ?q] q m h by metis
  moreover have "st_charged (r_stats (add_build_bytes n (put_entry key x r1))) \<le> st_charged (r_stats r1) + charge (r_config r1) n" for x
    using sat_add_below by (simp add: put_entry_def byte_counters repo_simps split: option.split)
  ultimately show ?thesis using r1 by (metis le_trans)
qed

lemma admitted_update_index:
  assumes s: "safe r" and b: "update_index_build_bytes ik n err r = (True, err', r')" and h: "hard_max_bytes (r_config r) < umax"
  shows "st_charged (r_stats r') \<le> hard_max_bytes (r_config r)"
proof -
  obtain ob where f: "omap_get (r_indexes r) ik = Some ob" and bd: "ob_state ob = Building"
    using b by (auto simp: update_index_build_bytes_def Let_def split: option.splits if_splits)
  let ?q = "return_index_build ik ob r"
  obtain ok e r1 where m: "make_hard_room (charge (r_config r) n) (Some (index_owner ik)) (Some ik) err (index_owner ik) None ?q = (ok, e, r1)"
    by (metis prod_cases3)
  note r1 = room_for_index [OF s f bd m]
  have q: "safe ?q \<and> r_config ?q = r_config r" using grows_zeroD [OF grows_return_index_build [OF f bd] s] by blast
  have "ok \<and> r' = add_build_bytes n (put_index ik (ob\<lparr>ob_build := n\<rparr>) r1)"
    using b m r1 by (auto simp: update_index_build_bytes_def f bd split: bool.splits)
  moreover have "ok \<Longrightarrow> st_charged (r_stats r1) + charge (r_config r) n \<le> hard_max_bytes (r_config r)"
    using hard_room_fits [of ?q] q m h by metis
  moreover have "st_charged (r_stats (add_build_bytes n (put_index ik x r1))) \<le> st_charged (r_stats r1) + charge (r_config r1) n" for x
    using sat_add_below by (simp add: put_index_def byte_counters repo_simps)
  ultimately show ?thesis using r1 by (metis le_trans)
qed

section \<open>Eviction\<close>

lemma evict_canonicals_take:
  "\<exists>n \<le> length ks. evict_canonicals b nc excluded reason ks r = fold (evict_canonical reason) (take n ks) r \<and>
     (n < length ks \<longrightarrow> fits_limit b nc excluded (evict_canonicals b nc excluded reason ks r))"
proof (induction ks arbitrary: r)
  case (Cons k ks)
  show ?case
  proof (cases "fits_limit b nc excluded r")
    case False
    obtain n where "n \<le> length ks" "evict_canonicals b nc excluded reason ks (evict_canonical reason k r) =
        fold (evict_canonical reason) (take n ks) (evict_canonical reason k r)"
      "n < length ks \<longrightarrow> fits_limit b nc excluded (evict_canonicals b nc excluded reason ks (evict_canonical reason k r))"
      using Cons.IH by blast
    then show ?thesis using False by (intro exI [of _ "Suc n"]) simp
  qed (intro exI [of _ 0], simp)
qed simp

lemma evict_indexes_take:
  "\<exists>n \<le> length iks. snd (evict_indexes b nc excluded reason iks r) = fold (evict_index reason) (take n iks) r \<and>
     (if fst (evict_indexes b nc excluded reason iks r)
      then n < length iks \<and> fits_limit b nc excluded (snd (evict_indexes b nc excluded reason iks r))
      else n = length iks)"
proof (induction iks arbitrary: r)
  case (Cons ik iks)
  show ?case
  proof (cases "fits_limit b nc excluded r")
    case False
    obtain n where "n \<le> length iks" "snd (evict_indexes b nc excluded reason iks (evict_index reason ik r)) =
        fold (evict_index reason) (take n iks) (evict_index reason ik r)"
      "if fst (evict_indexes b nc excluded reason iks (evict_index reason ik r))
       then n < length iks \<and> fits_limit b nc excluded (snd (evict_indexes b nc excluded reason iks (evict_index reason ik r)))
       else n = length iks"
      using Cons.IH by blast
    then show ?thesis using False by (intro exI [of _ "Suc n"]) (auto split: if_splits)
  qed (intro exI [of _ 0], simp)
qed simp

lemma fold_evict_find: "find_entry (fold (evict_canonical reason) ks r) k = (if k \<in> set ks then None else find_entry r k)"
  by (induction ks arbitrary: r) (auto simp: evict_canonical_find)

lemma fold_evict_get:
  "omap_get (r_indexes (fold (evict_index reason) iks r)) ik = (if ik \<in> set iks then None else omap_get (r_indexes r) ik)"
  by (induction iks arbitrary: r) (auto simp: evict_index_get)

lemma fold_evict_index_find [simp]: "find_entry (fold (evict_index reason) iks r) k = find_entry r k"
proof (induction iks arbitrary: r)
  case (Cons ik iks)
  have "find_entry (evict_index reason ik r) k = find_entry r k" by (simp add: evict_index_def split: option.split)
  with Cons.IH show ?case by simp
qed simp

text \<open>In a sorted list of candidates what is taken comes before what is left.\<close>

lemma taken_before_left:
  assumes "x \<in> set (take n (sort_key (\<lambda>k. (f k :: nat, k :: 'k :: linorder)) xs))" "y \<in> set xs"
    and "y \<notin> set (take n (sort_key (\<lambda>k. (f k, k)) xs))"
  shows "(f x, x) < (f y, y)"
proof -
  let ?s = "sort_key (\<lambda>k. (f k, k)) xs"
  have "sorted (map (\<lambda>k. (f k, k)) (take n ?s) @ map (\<lambda>k. (f k, k)) (drop n ?s))"
    by (simp only: map_append [symmetric] append_take_drop_id sorted_sort_key)
  then have "\<forall>a \<in> set (take n ?s). \<forall>b \<in> set (drop n ?s). (f a, a) \<le> (f b, b)"
    unfolding sorted_append by (simp only: set_map ball_simps) blast
  moreover have "y \<in> set (take n ?s) \<union> set (drop n ?s)"
    using assms(2) by (metis append_take_drop_id set_append set_sort)
  ultimately have "(f x, x) \<le> (f y, y)" using assms(1,3) by blast
  moreover have "x \<noteq> y" using assms(1,3) by blast
  ultimately show ?thesis by (simp add: less_le)
qed

text \<open>The two phases of an eviction: a number of indexes first, and objects only once every index is gone.\<close>

lemma evict_phases:
  obtains m n where
    "evict_to_budget b nc pcan pind reason preserve excluded r =
       fold (evict_canonical reason) (take n (canonical_candidates pcan preserve (fold (evict_index reason) (take m (index_candidates pind preserve r)) r)))
         (fold (evict_index reason) (take m (index_candidates pind preserve r)) r)"
    "0 < n \<longrightarrow> m = length (index_candidates pind preserve r)"
    "fits_limit b nc excluded (evict_to_budget b nc pcan pind reason preserve excluded r) \<or>
     m = length (index_candidates pind preserve r) \<and>
     n = length (canonical_candidates pcan preserve (fold (evict_index reason) (take m (index_candidates pind preserve r)) r))"
proof (cases "fits_limit b nc excluded r")
  case True
  then show ?thesis using that [of 0 0] by (simp add: evict_to_budget_def)
next
  case False
  let ?iks = "index_candidates pind preserve r"
  obtain m where m: "m \<le> length ?iks" "snd (evict_indexes b nc excluded reason ?iks r) = fold (evict_index reason) (take m ?iks) r"
    "if fst (evict_indexes b nc excluded reason ?iks r)
     then m < length ?iks \<and> fits_limit b nc excluded (snd (evict_indexes b nc excluded reason ?iks r)) else m = length ?iks"
    using evict_indexes_take by blast
  let ?q = "fold (evict_index reason) (take m ?iks) r"
  obtain early where e: "evict_indexes b nc excluded reason ?iks r = (early, ?q)" using m(2) by (metis prod.collapse)
  show ?thesis
  proof (cases early)
    case True
    have r': "evict_to_budget b nc pcan pind reason preserve excluded r = ?q"
      unfolding evict_to_budget_def e using False True by simp
    moreover have "fits_limit b nc excluded ?q" using m(2,3) True unfolding e by simp
    ultimately show ?thesis by (intro that [of 0 m]) simp_all
  next
    case f: False
    obtain n where n: "n \<le> length (canonical_candidates pcan preserve ?q)"
      "evict_canonicals b nc excluded reason (canonical_candidates pcan preserve ?q) ?q =
         fold (evict_canonical reason) (take n (canonical_candidates pcan preserve ?q)) ?q"
      "n < length (canonical_candidates pcan preserve ?q) \<longrightarrow>
         fits_limit b nc excluded (evict_canonicals b nc excluded reason (canonical_candidates pcan preserve ?q) ?q)"
      using evict_canonicals_take by blast
    have r': "evict_to_budget b nc pcan pind reason preserve excluded r =
        evict_canonicals b nc excluded reason (canonical_candidates pcan preserve ?q) ?q"
      using False f by (simp add: evict_to_budget_def e)
    have ml: "m = length ?iks" using m(3) f e by simp
    let ?c = "canonical_candidates pcan preserve ?q"
    have "fits_limit b nc excluded (evict_canonicals b nc excluded reason ?c ?q) \<or> n = length ?c"
      using n(1,3) le_neq_implies_less by metis
    then have "fits_limit b nc excluded (evict_to_budget b nc pcan pind reason preserve excluded r) \<or> m = length ?iks \<and> n = length ?c"
      unfolding r' using ml by blast
    with ml show ?thesis by (intro that [OF trans [OF r' n(2)]]) simp_all
  qed
qed

lemma fold_evict_entries: "r_entries (fold (evict_index reason) iks r) = r_entries r"
  by (induction iks arbitrary: r) (simp_all add: evict_index_def repo_simps drop_index_def Let_def split: option.split)

lemma safe_fold_evict: "safe r \<Longrightarrow> safe (fold (evict_index reason) iks r)"
  using grows_fold [of "evict_index reason"] grows_evict_index grows_zeroD by metis

lemma eviction_order:
  fixes r :: "'v repository" and b nc pcan pind reason preserve excluded
  assumes s: "safe r"
  defines "r' \<equiv> evict_to_budget b nc pcan pind reason preserve excluded r"
  shows "find_entry r j = Some a \<Longrightarrow> find_entry r' j = None \<Longrightarrow> find_entry r' k = Some ob \<Longrightarrow> ob_state ob = Ready \<Longrightarrow>
           pcan \<noteq> Some k \<Longrightarrow> \<not> preserved preserve k \<Longrightarrow> (entry_access r j, j) < (entry_access r k, k)"
    and "omap_get (r_indexes r) i = Some ia \<Longrightarrow> omap_get (r_indexes r') i = None \<Longrightarrow> find_entry r' (index_owner i) \<noteq> None \<Longrightarrow>
         omap_get (r_indexes r') l = Some ib \<Longrightarrow> ob_state ib = Ready \<Longrightarrow> pind \<noteq> Some l \<Longrightarrow> \<not> preserved preserve (index_owner l) \<Longrightarrow>
           (index_access r i, i) < (index_access r l, l)"
    and "find_entry r j \<noteq> None \<Longrightarrow> find_entry r' j = None \<Longrightarrow> omap_get (r_indexes r') l = Some ib \<Longrightarrow> ob_state ib = Ready \<Longrightarrow>
           pind = Some l \<or> preserved preserve (index_owner l)"
    and "fits_limit b nc excluded r' \<or>
           (\<forall>k ob. find_entry r' k = Some ob \<and> ob_state ob = Ready \<longrightarrow> pcan = Some k \<or> preserved preserve k)"
proof -
  let ?iks = "index_candidates pind preserve r"
  obtain n m where r': "r' = fold (evict_canonical reason)
        (take n (canonical_candidates pcan preserve (fold (evict_index reason) (take m ?iks) r))) (fold (evict_index reason) (take m ?iks) r)"
    and idx: "0 < n \<longrightarrow> m = length ?iks"
    and fits: "fits_limit b nc excluded r' \<or> m = length ?iks \<and>
        n = length (canonical_candidates pcan preserve (fold (evict_index reason) (take m ?iks) r))"
    unfolding r'_def by (rule evict_phases)
  let ?q = "fold (evict_index reason) (take m ?iks) r"
  let ?cs = "canonical_candidates pcan preserve ?q"
  have acc: "entry_access ?q = entry_access r" by (simp add: entry_access_def fun_eq_iff)
  have cand: "set ?cs = {k. \<exists>ob. find_entry r k = Some ob \<and> ob_state ob = Ready \<and> pcan \<noteq> Some k \<and> \<not> preserved preserve k}"
    using set_canonical_candidates [of ?q pcan preserve] safe_fold_evict [OF s] by (simp add: safe_parts)
  have icand: "set ?iks = {ik. \<exists>ob. omap_get (r_indexes r) ik = Some ob \<and> ob_state ob = Ready \<and> pind \<noteq> Some ik \<and>
         \<not> preserved preserve (index_owner ik)}"
    using set_index_candidates [of r pind preserve] s by (simp add: safe_parts)
  have find: "find_entry r' k = (if k \<in> set (take n ?cs) then None else find_entry r k)" for k
    unfolding r' fold_evict_find by simp
  have gone: "omap_get (r_indexes r') ik = None \<longleftrightarrow> omap_get (r_indexes r) ik = None \<or> ik \<in> set (take m ?iks) \<or>
      index_owner ik \<in> set (take n ?cs)"
    and stay: "omap_get (r_indexes r') ik \<noteq> None \<Longrightarrow> omap_get (r_indexes r') ik = omap_get (r_indexes r) ik" for ik
  proof -
    have g: "omap_get (r_indexes (fold (evict_canonical reason) ks q)) ik =
        (if index_owner ik \<in> {k \<in> set ks. find_entry q k \<noteq> None} then None else omap_get (r_indexes q) ik)" for ks and q :: "'v repository"
      by (induction ks arbitrary: q) (auto simp: evict_canonical_def erase_canonical_get erase_canonical_find)
    have "set (take n ?cs) \<subseteq> set ?cs" by (rule set_take_subset)
    then have "k \<in> set (take n ?cs) \<Longrightarrow> find_entry ?q k \<noteq> None" for k using cand by auto
    then have "{k \<in> set (take n ?cs). find_entry ?q k \<noteq> None} = set (take n ?cs)" by blast
    then have e: "omap_get (r_indexes r') ik = (if index_owner ik \<in> set (take n ?cs) then None
        else if ik \<in> set (take m ?iks) then None else omap_get (r_indexes r) ik)"
      unfolding r' g fold_evict_get by simp
    show "omap_get (r_indexes r') ik = None \<longleftrightarrow> omap_get (r_indexes r) ik = None \<or> ik \<in> set (take m ?iks) \<or>
      index_owner ik \<in> set (take n ?cs)" unfolding e by simp
    show "omap_get (r_indexes r') ik \<noteq> None \<Longrightarrow> omap_get (r_indexes r') ik = omap_get (r_indexes r) ik"
      unfolding e by (simp split: if_splits)
  qed
  show "find_entry r j = Some a \<Longrightarrow> find_entry r' j = None \<Longrightarrow> find_entry r' k = Some ob \<Longrightarrow> ob_state ob = Ready \<Longrightarrow>
      pcan \<noteq> Some k \<Longrightarrow> \<not> preserved preserve k \<Longrightarrow> (entry_access r j, j) < (entry_access r k, k)"
  proof -
    assume h: "find_entry r j = Some a" "find_entry r' j = None" "find_entry r' k = Some ob" "ob_state ob = Ready"
      "pcan \<noteq> Some k" "\<not> preserved preserve k"
    have j: "j \<in> set (take n ?cs)" using h(1,2) find by (metis option.distinct(1))
    have k: "k \<notin> set (take n ?cs)" "find_entry r k = Some ob" using h(3) find [of k] by (auto split: if_splits)
    then have "k \<in> set ?cs" using cand h(4-6) by blast
    then show ?thesis using j k(1) unfolding canonical_candidates_def set_sort acc by (intro taken_before_left)
  qed
  show "omap_get (r_indexes r) i = Some ia \<Longrightarrow> omap_get (r_indexes r') i = None \<Longrightarrow> find_entry r' (index_owner i) \<noteq> None \<Longrightarrow>
      omap_get (r_indexes r') l = Some ib \<Longrightarrow> ob_state ib = Ready \<Longrightarrow> pind \<noteq> Some l \<Longrightarrow> \<not> preserved preserve (index_owner l) \<Longrightarrow>
      (index_access r i, i) < (index_access r l, l)"
  proof -
    assume h: "omap_get (r_indexes r) i = Some ia" "omap_get (r_indexes r') i = None" "find_entry r' (index_owner i) \<noteq> None"
      "omap_get (r_indexes r') l = Some ib" "ob_state ib = Ready" "pind \<noteq> Some l" "\<not> preserved preserve (index_owner l)"
    have i: "i \<in> set (take m ?iks)" using h(1-3) find gone by (metis option.distinct(1))
    have l: "l \<notin> set (take m ?iks)" "omap_get (r_indexes r) l = Some ib" using h(4) gone [of l] stay [of l] by auto
    then have "l \<in> set ?iks" using icand h(5-7) by blast
    then show ?thesis using i l(1) unfolding index_candidates_def set_sort by (intro taken_before_left)
  qed
  show "find_entry r j \<noteq> None \<Longrightarrow> find_entry r' j = None \<Longrightarrow> omap_get (r_indexes r') l = Some ib \<Longrightarrow> ob_state ib = Ready \<Longrightarrow>
      pind = Some l \<or> preserved preserve (index_owner l)"
  proof -
    assume h: "find_entry r j \<noteq> None" "find_entry r' j = None" "omap_get (r_indexes r') l = Some ib" "ob_state ib = Ready"
    have "j \<in> set (take n ?cs)" using h(1,2) find by metis
    then have "0 < n" by (cases n) simp_all
    then have "l \<notin> set ?iks" using idx gone [of l] h(3) by simp
    moreover have "omap_get (r_indexes r) l = Some ib" using h(3) stay [of l] by simp
    ultimately show ?thesis using icand h(4) by blast
  qed
  show "fits_limit b nc excluded r' \<or>
      (\<forall>k ob. find_entry r' k = Some ob \<and> ob_state ob = Ready \<longrightarrow> pcan = Some k \<or> preserved preserve k)"
  proof (cases "fits_limit b nc excluded r'")
    case False
    then have "set (take n ?cs) = set ?cs" using fits by simp
    then have "find_entry r' k = Some ob \<Longrightarrow> k \<notin> set ?cs \<and> find_entry r k = Some ob" for k ob
      using find [of k] by (auto split: if_splits)
    then show ?thesis unfolding cand by blast
  qed simp
qed

section \<open>Properties\<close>

text \<open>
  C20: After any sequence of requests whose charges together fit 64 bits, the statistics the cache keeps
  are the ones recomputed from all of its maps: every counter counts what is there, and every byte added
  is taken off again exactly once.
\<close>

theorem repository_accounting_exact:
  assumes "1 \<le> estimator_safety_factor cfg" and "run_cost cfg reqs < umax"
  shows "debug_recomputed_stats (run reqs (new_repository cfg)) = repository_stats_of (run reqs (new_repository cfg))"
  using exact_recomputed safe_run [OF assms] by blast

definition sample_key :: cache_key where
  "sample_key = Cache_Key ''stream'' ''s'' (Fsdb_Identity 1 2 3 4) 1 ''m'' ''d'' Scope_Full 0 9 ''k''"

definition sample_requests :: "unit cache_request list" where
  "sample_requests = [Begin_Canonical sample_key ''t'' 10, Publish_Canonical sample_key ''t'' (Some ()) 20]"

lemma sample_facts:
  "1 \<le> estimator_safety_factor cache_config_default"
  "canonical_store_for_protocol (protocol sample_key) = Some Stream_Entries"
  "run_cost cache_config_default sample_requests = 1252" "charge cache_config_default 5 = 10"
  "run_cost cache_config_default (sample_requests @ [Begin_Index ik t 5]) = 1262"
  "hard_max_bytes cache_config_default = 2147483648" "umax = 18446744073709551615"
  by (simp_all add: cache_config_default_def sample_key_def canonical_store_for_protocol_def sample_requests_def run_cost_def
      key_metadata_bytes_def sizeof_cache_key_def charge_def umax_def Let_def)

theorem repository_accounting_exact_witness:
  "debug_recomputed_stats (run sample_requests (new_repository cache_config_default)) =
   repository_stats_of (run sample_requests (new_repository cache_config_default))"
  by (rule repository_accounting_exact) (simp_all add: sample_facts)

lemma sample_published:
  "\<exists>c. find_entry (run sample_requests (new_repository cache_config_default)) sample_key = Some c \<and>
     ob_state c = Ready \<and> ob_type c = ''t'' \<and> ob_value c = Some () \<and> ob_generation c = 1"
  "fst (publish_canonical sample_key ''t'' (Some ()) 20 no_error
     (run [Begin_Canonical sample_key ''t'' 10] (new_repository cache_config_default)))"
  "begin_canonical sample_key ''t'' 10 (new_repository cache_config_default :: unit repository) =
     (Build_Started, no_error, start_canonical sample_key ''t'' 10 (new_repository cache_config_default))"
proof -
  have "run_cost cache_config_default sample_requests \<le> hard_max_bytes cache_config_default"
    "hard_max_bytes cache_config_default < umax" "canonical_store_for_protocol (protocol sample_key) \<noteq> None"
    by (simp_all add: sample_facts)
  note s = sample_run [where key = sample_key and t = "''t''" and n = 10 and v = "()" and m = 20, OF sample_facts(1) this(3)
      this(1) [unfolded sample_requests_def] this(2), folded sample_requests_def]
  show "\<exists>c. find_entry (run sample_requests (new_repository cache_config_default)) sample_key = Some c \<and>
      ob_state c = Ready \<and> ob_type c = ''t'' \<and> ob_value c = Some () \<and> ob_generation c = 1" by (rule s(1))
  show "fst (publish_canonical sample_key ''t'' (Some ()) 20 no_error
      (run [Begin_Canonical sample_key ''t'' 10] (new_repository cache_config_default)))" by (rule s(2))
  show "begin_canonical sample_key ''t'' 10 (new_repository cache_config_default :: unit repository) =
      (Build_Started, no_error, start_canonical sample_key ''t'' 10 (new_repository cache_config_default))" by (rule s(3))
qed

text \<open>
  C21: In every run of requests an index, whether being built or ready, belongs to a canonical object that is
  ready and has the generation the index was built for: no eviction, replacement, failure or invalidation
  leaves an index behind its owner.
\<close>

theorem indexes_have_ready_owners:
  assumes "1 \<le> estimator_safety_factor cfg" and "run_cost cfg reqs < umax"
    and "omap_get (r_indexes (run reqs (new_repository cfg))) ik = Some ob"
  shows "\<exists>owner. find_entry (run reqs (new_repository cfg)) (index_owner ik) = Some owner \<and> ob_state owner = Ready \<and>
           ob_generation owner = owner_generation ik"
  using owned_new_run [OF assms(1,2)] assms(3) unfolding owned_def by blast

definition sample_index :: index_key where
  "sample_index = Index_Key sample_key 1 ''i''"

lemma sample_index_started:
  "omap_get (r_indexes (run (sample_requests @ [Begin_Index sample_index ''x'' 5]) (new_repository cache_config_default))) sample_index
   \<noteq> None"
proof -
  let ?r = "run sample_requests (new_repository cache_config_default)"
  obtain c where c: "find_entry ?r (index_owner sample_index) = Some c" "ob_state c = Ready"
      "ob_generation c = owner_generation sample_index"
    using sample_published(1) by (auto simp: sample_index_def)
  have s: "safe ?r \<and> r_config ?r = cache_config_default" by (rule safe_run) (simp_all add: sample_facts)
  have p: "potential ?r \<le> 1252"
    using run_potential [OF sample_facts(1), of sample_requests] by (simp add: sample_facts)
  show ?thesis
  proof (cases "omap_get (r_indexes ?r) sample_index")
    case None
    have "begin_index sample_index ''x'' 5 ?r = (Build_Started, no_error, start_index sample_index ''x'' 5 ?r)"
      by (rule index_enough [OF _ c None]) (use s p in \<open>simp_all add: sample_facts\<close>)
    then show ?thesis using start_index_get [of sample_index "''x''" 5 ?r] by (simp add: run_def)
  next
    case (Some ob)
    let ?new = "new_repository cache_config_default :: unit repository"
    let ?mid = "perform (Begin_Canonical sample_key ''t'' 10) ?new"
    have "safe (run [Begin_Canonical sample_key ''t'' 10] ?new) \<and> r_config (run [Begin_Canonical sample_key ''t'' 10] ?new) = cache_config_default"
      by (rule safe_run) (use sample_facts in \<open>simp_all add: run_cost_def sample_requests_def\<close>)
    then have "attached ?mid (perform (Publish_Canonical sample_key ''t'' (Some ()) 20) ?mid)"
      by (simp add: run_def attached_publish)
    then have "attached ?mid ?r" by (simp only: run_def sample_requests_def fold_simps)
    then have "attached ?new ?r" using attached_begin attached_trans by (metis perform.simps(1))
    from attachedD(1) [OF this, of sample_index] Some show ?thesis by (simp add: new_repository_def)
  qed
qed


theorem indexes_have_ready_owners_witness:
  "\<exists>owner. find_entry (run (sample_requests @ [Begin_Index sample_index ''x'' 5]) (new_repository cache_config_default))
       (index_owner sample_index) = Some owner \<and> ob_state owner = Ready \<and> ob_generation owner = owner_generation sample_index"
proof -
  obtain ob where ob: "omap_get (r_indexes (run (sample_requests @ [Begin_Index sample_index ''x'' 5]) (new_repository cache_config_default)))
      sample_index = Some ob"
    using sample_index_started by blast
  show ?thesis by (rule indexes_have_ready_owners [OF _ _ ob]) (simp_all add: sample_facts)
qed






text \<open>
  C24: Eviction takes the least recently used first.  When the cache makes room for a limit, a ready object it
  evicts was used before every evictable object it leaves (equal times in the order of the keys), the same
  holds among the indexes, an object goes only once every evictable index is gone, and it stops only when the
  limit is met or nothing evictable is left.
\<close>

theorem eviction_least_recent_first:
  assumes "1 \<le> estimator_safety_factor cfg" and "run_cost cfg reqs < umax"
    and "r = run reqs (new_repository cfg)" and "r' = evict_to_budget bound nc pcan pind reason preserve excluded r"
  shows "(\<forall>j k a b. find_entry r j = Some a \<and> find_entry r' j = None \<and> find_entry r' k = Some b \<and> ob_state b = Ready \<and>
            pcan \<noteq> Some k \<and> \<not> preserved preserve k \<longrightarrow> (entry_access r j, j) < (entry_access r k, k)) \<and>
         (\<forall>i j a b. omap_get (r_indexes r) i = Some a \<and> omap_get (r_indexes r') i = None \<and> find_entry r' (index_owner i) \<noteq> None \<and>
            omap_get (r_indexes r') j = Some b \<and> ob_state b = Ready \<and> pind \<noteq> Some j \<and> \<not> preserved preserve (index_owner j) \<longrightarrow>
            (index_access r i, i) < (index_access r j, j)) \<and>
         (\<forall>j i b. find_entry r j \<noteq> None \<and> find_entry r' j = None \<and> omap_get (r_indexes r') i = Some b \<and> ob_state b = Ready \<longrightarrow>
            pind = Some i \<or> preserved preserve (index_owner i)) \<and>
         (fits_limit bound nc excluded r' \<or>
          (\<forall>k b. find_entry r' k = Some b \<and> ob_state b = Ready \<longrightarrow> pcan = Some k \<or> preserved preserve k))"
proof (intro conjI)
  have s: "safe r" unfolding assms(3) using safe_run [OF assms(1,2)] by blast
  note o = eviction_order [OF s, where b = bound and nc = nc and pcan = pcan and pind = pind and reason = reason and
      preserve = preserve and excluded = excluded, folded assms(4)]
  show "\<forall>j k a b. find_entry r j = Some a \<and> find_entry r' j = None \<and> find_entry r' k = Some b \<and> ob_state b = Ready \<and>
      pcan \<noteq> Some k \<and> \<not> preserved preserve k \<longrightarrow> (entry_access r j, j) < (entry_access r k, k)"
    by (intro allI impI, elim conjE) (rule o(1))
  show "\<forall>i j a b. omap_get (r_indexes r) i = Some a \<and> omap_get (r_indexes r') i = None \<and> find_entry r' (index_owner i) \<noteq> None \<and>
      omap_get (r_indexes r') j = Some b \<and> ob_state b = Ready \<and> pind \<noteq> Some j \<and> \<not> preserved preserve (index_owner j) \<longrightarrow>
      (index_access r i, i) < (index_access r j, j)"
    by (intro allI impI, elim conjE) (rule o(2))
  show "\<forall>j i b. find_entry r j \<noteq> None \<and> find_entry r' j = None \<and> omap_get (r_indexes r') i = Some b \<and> ob_state b = Ready \<longrightarrow>
      pind = Some i \<or> preserved preserve (index_owner i)"
    by (intro allI impI, elim conjE) (rule o(3))
  show "fits_limit bound nc excluded r' \<or>
      (\<forall>k b. find_entry r' k = Some b \<and> ob_state b = Ready \<longrightarrow> pcan = Some k \<or> preserved preserve k)"
    by (rule o(4))
qed

theorem eviction_least_recent_first_witness:
  "fits_limit 0 0 None (evict_to_budget 0 0 None None ''soft_lru'' None None (run sample_requests (new_repository cache_config_default))) \<or>
   (case find_entry (evict_to_budget 0 0 None None ''soft_lru'' None None (run sample_requests (new_repository cache_config_default))) sample_key of
      None \<Rightarrow> True | Some ob \<Rightarrow> ob_state ob = Building)"
proof -
  let ?e = "evict_to_budget 0 0 None None ''soft_lru'' None None (run sample_requests (new_repository cache_config_default))"
  have "run_cost cache_config_default sample_requests < umax" by (simp add: sample_facts)
  note t = conjunct2 [OF conjunct2 [OF conjunct2 [OF eviction_least_recent_first [OF sample_facts(1) this refl refl,
      of 0 0 None None "''soft_lru''" None None]]]]
  show ?thesis
  proof (cases "find_entry ?e sample_key")
    case (Some ob)
    have "fits_limit 0 0 None ?e \<or> ob_state ob \<noteq> Ready"
    proof (rule ccontr)
      assume "\<not> (fits_limit 0 0 None ?e \<or> ob_state ob \<noteq> Ready)"
      then have "None = Some sample_key \<or> preserved None sample_key" using t Some by blast
      then show False by (simp add: preserved_def)
    qed
    then show ?thesis using Some by (cases "ob_state ob") simp_all
  qed simp
qed

text \<open>
  C25: The cache refines a map that forgets.  Whatever request follows whatever run, each key a lookup can find
  afterwards was found before with the same type, value and generation, but for the key of a publication that
  had nothing ready and may now have the value published; and a lookup returns what this map holds if the type
  asked for is the type published, and nothing otherwise.
\<close>

theorem cache_refines_forgetful_map:
  assumes "1 \<le> estimator_safety_factor cfg" and "run_cost cfg (reqs @ [req]) < umax"
  shows "lossy_step req (ready_view (run reqs (new_repository cfg))) (ready_view (run (reqs @ [req]) (new_repository cfg))) \<and>
    fst (find_canonical key t touch (run reqs (new_repository cfg))) =
      (case ready_view (run reqs (new_repository cfg)) key of None \<Rightarrow> None
       | Some (t', v, g) \<Rightarrow> if t' = t then Some (v, g) else None)"
proof
  have cost: "run_cost cfg reqs < umax" using assms(2) by (simp add: run_cost_def)
  have s: "safe (run reqs (new_repository cfg))" "r_config (run reqs (new_repository cfg)) = cfg"
    using safe_run [OF assms(1) cost] by simp_all
  have "potential (run reqs (new_repository cfg)) + request_cost cfg req < umax"
    using run_potential [OF assms(1) cost] assms(2) by (simp add: run_cost_def)
  then show "lossy_step req (ready_view (run reqs (new_repository cfg))) (ready_view (run (reqs @ [req]) (new_repository cfg)))"
    using lossy_perform [OF s(1), of req] s(2) by (simp add: run_def)
qed (rule find_from_view)

theorem cache_refines_forgetful_map_witness:
  "lossy_step (Begin_Index sample_index ''x'' 5) (ready_view (run sample_requests (new_repository cache_config_default)))
     (ready_view (run (sample_requests @ [Begin_Index sample_index ''x'' 5]) (new_repository cache_config_default)))"
  by (rule conjunct1 [OF cache_refines_forgetful_map]) (simp_all add: sample_facts)

text \<open>
  C26: What is published is found: after a successful publication a lookup of the key with its type returns the
  value with the generation of its build, beginning it again is a hit, with another type it is rejected, and
  publishing a full stream analysis leaves no range analysis of the same stream behind.
\<close>

theorem published_is_found:
  assumes "1 \<le> estimator_safety_factor cfg" and "run_cost cfg (reqs @ [Publish_Canonical key t v n]) < umax"
    and "publish_canonical key t v n err (run reqs (new_repository cfg)) = (True, err', r')"
  shows "\<exists>u g. v = Some u \<and> map_option ob_generation (find_entry (run reqs (new_repository cfg)) key) = Some g \<and>
      fst (find_canonical key t touch r') = Some (Some u, g) \<and> fst (begin_canonical key t m r') = Hit \<and>
      (\<forall>t'. t' \<noteq> t \<longrightarrow> fst (find_canonical key t' touch r') = None \<and> fst (begin_canonical key t' m r') = Rejected) \<and>
      (\<forall>k. is_stream_sibling_range k key \<longrightarrow> find_entry r' k = None)"
proof -
  let ?run = "run reqs (new_repository cfg)"
  have cost: "run_cost cfg reqs < umax" using assms(2) by (simp add: run_cost_def)
  have s: "safe ?run" "r_config ?run = cfg" using safe_run [OF assms(1) cost] by simp_all
  have p: "potential ?run + charge (r_config ?run) n < umax"
    using run_potential [OF assms(1) cost] assms(2) s(2) by (simp add: run_cost_def)
  obtain ob u c r2 where o: "find_entry ?run key = Some ob" and v: "v = Some u"
    and c: "find_entry r' key = Some c" "ob_state c = Ready" "ob_type c = t" "ob_value c = Some u" "ob_generation c = ob_generation ob"
    and k: "\<And>k. k \<noteq> key \<Longrightarrow> find_entry r' k = None \<or> find_entry r' k = find_entry r2 k"
    and sib: "protocol key = ''stream'' \<and> scope key = Scope_Full \<Longrightarrow> \<exists>r1. safe r1 \<and> r2 = erase_stream_sibling_ranges key r1"
    by (rule publish_accepted [OF s(1) p assms(3)]) blast
  have "find_entry r' j = None" if j: "is_stream_sibling_range j key" for j
  proof -
    have "j \<noteq> key" "protocol key = ''stream'' \<and> scope key = Scope_Full" using j by (auto simp: is_stream_sibling_range_def)
    then show ?thesis using k [of j] sib siblings_gone [OF j] by metis
  qed
  then show ?thesis using o v c published_begin [OF c(1,2)] by (auto simp: find_from_view ready_view_def)
qed

theorem published_is_found_witness:
  "(\<exists>g. fst (find_canonical sample_key ''t'' False (run sample_requests (new_repository cache_config_default))) = Some (Some (), g)) \<and>
   fst (begin_canonical sample_key ''t'' 7 (run sample_requests (new_repository cache_config_default))) = Hit"
proof -
  let ?mid = "run [Begin_Canonical sample_key ''t'' 10] (new_repository cache_config_default)"
  obtain e where p: "publish_canonical sample_key ''t'' (Some ()) 20 no_error ?mid = (True, e, perform (Publish_Canonical sample_key ''t'' (Some ()) 20) ?mid)"
    using sample_published(2) by (metis perform.simps(2) prod.collapse)
  have "run_cost cache_config_default ([Begin_Canonical sample_key ''t'' 10] @ [Publish_Canonical sample_key ''t'' (Some ()) 20]) < umax"
    using sample_facts(3) by (simp add: sample_requests_def sample_facts(7))
  from published_is_found [OF sample_facts(1) this p, of False 7]
  show ?thesis by (auto simp: sample_requests_def run_def)
qed

definition sample_repository :: "unit repository" where
  "sample_repository = put_entry sample_key
     \<lparr>ob_state = Ready, ob_type = ''t'', ob_value = Some (), ob_resident = 0, ob_build = 0, ob_access = 1, ob_generation = 1\<rparr>
     (new_repository cache_config_default)"

text \<open>
  C27: A change of stream configurations removes the analyses nobody can ask for any more: if a configuration of a
  session moves away from a digest and no configuration of the session has that digest afterwards, no stream
  analysis of the session with the digest is left, whatever its range.
\<close>

theorem config_change_drops_unbound:
  assumes "(name, old, new) \<in> set changes" and "old \<noteq> []" and "old \<noteq> new"
    and "old \<notin> snd ` set (session_bindings sess (notify_stream_config_changes sess changes r))"
    and "protocol key = ''stream''" and "session_id key = sess" and "semantic_digest key = old"
  shows "find_entry (notify_stream_config_changes sess changes r) key = None"
  using notify_find [OF assms(1-3) _ assms(5-7)] assms(4) by blast

theorem config_change_drops_unbound_witness:
  "find_entry (notify_stream_config_changes ''s'' [(''cfg'', ''d'', ''e'')] sample_repository) sample_key = None"
proof -
  have "session_bindings ''s'' (bind_config ''s'' ''cfg'' ''e'' sample_repository) = [(''cfg'', ''e'')]"
    by (simp add: bind_config_def sample_repository_def put_entry_def sample_key_def canonical_store_for_protocol_def
        session_bindings_def new_repository_def evict_to_budget_def release_metadata.simps fits_limit_def current_charged_bytes_def
        byte_counters repo_simps no_stats_def sat_add_def charge_def umax_def binding_metadata_bytes_def sizeof_string_def
        cache_config_default_def Let_def)
  then have "session_bindings ''s'' (notify_stream_config_changes ''s'' [(''cfg'', ''d'', ''e'')] sample_repository) = [(''cfg'', ''e'')]"
    by (simp add: notify_stream_config_changes_def old_digests_def session_bindings_cong [of "drop_unbound _ _ _"])
  then show ?thesis
    by (intro config_change_drops_unbound [of "''cfg''" "''d''" "''e''"]) (simp_all add: sample_key_def)
qed

end
