(* ===== verification/Clock_Sampling.thy ===== *)
theory Clock_Sampling
  imports Std_Containers
begin

text \<open>
  Clock sampling, \<open>waveform/common/clock_sampling.{h,cpp}\<close> with the value helper of
  \<open>waveform/server/fsdb_scan_utils.cpp\<close>: edge kinds and sample points with their texts, the test of a
  clock transition, and the two scanners that walk the value changes of a time range and hand one
  sample per clock edge to a callback, with the values just before or just after the edge.

  The waveform file is read through a vendor library that is not part of the sources.  It is the
  parameter \<open>fsdb\<close>: signal lookup, signal width, values at a time, the value changes of a set of
  signals in a range (in the order the library's iterator yields them; \<open>None\<close> is a change whose value
  cannot be read) and the time bounds of the file.  A signal handle is of any type.
\<close>

section \<open>Edges and sample points\<close>

datatype edge_kind = Posedge | Negedge | Dual

datatype sample_point_kind = Before | After

record clock_spec =
  ck_clock :: string
  ck_edge :: edge_kind
  ck_point :: sample_point_kind
  ck_has_point :: bool

definition default_clock_spec :: clock_spec where
  "default_clock_spec = \<lparr>ck_clock = [], ck_edge = Negedge, ck_point = Before, ck_has_point = False\<rparr>"

definition clock_edge_kind_text :: "edge_kind \<Rightarrow> string" where
  "clock_edge_kind_text k = (case k of Posedge \<Rightarrow> ''posedge'' | Negedge \<Rightarrow> ''negedge'' | Dual \<Rightarrow> ''dual'')"

definition clock_sample_point_text :: "sample_point_kind \<Rightarrow> string" where
  "clock_sample_point_text p = (case p of Before \<Rightarrow> ''before'' | After \<Rightarrow> ''after'')"

definition lower_copy :: "string \<Rightarrow> string" where
  "lower_copy s = map c_tolower s"

definition parse_clock_edge_kind :: "string \<Rightarrow> string + edge_kind" where
  "parse_clock_edge_kind text =
     (let value = lower_copy (str_trim text)
      in if value = [] \<or> value = ''negedge'' then Inr Negedge
         else if value = ''posedge'' then Inr Posedge
         else if value = ''dual'' then Inr Dual
         else Inl (''invalid edge: '' @ text @ ''; expected posedge, negedge, or dual''))"

definition parse_clock_sample_point_kind :: "string \<Rightarrow> string + sample_point_kind" where
  "parse_clock_sample_point_kind text =
     (let value = lower_copy (str_trim text)
      in if value = [] \<or> value = ''before'' then Inr Before
         else if value = ''after'' then Inr After
         else Inl (''invalid sample_point: '' @ text @ ''; expected before or after''))"

text \<open>A level counts as high when a 1 comes before any unknown digit.\<close>

fun truthy_one :: "string \<Rightarrow> bool" where
  "truthy_one [] = False"
| "truthy_one (c # cs) =
     (if c \<in> set ''xXzZ'' then False else if c = CHR ''1'' then True else truthy_one cs)"

text \<open>Whether a transition is of the requested kind, and the edge it is if it is one.\<close>

definition clock_edge_transition_matches :: "edge_kind \<Rightarrow> bool \<Rightarrow> bool \<Rightarrow> bool \<times> edge_kind option" where
  "clock_edge_transition_matches requested old_one new_one =
     (if \<not> old_one \<and> new_one then (requested = Posedge \<or> requested = Dual, Some Posedge)
      else if old_one \<and> \<not> new_one then (requested = Negedge \<or> requested = Dual, Some Negedge)
      else (False, None))"

definition value_with_prefix :: "string \<Rightarrow> char \<Rightarrow> string" where
  "value_with_prefix value prefix =
     (if prefix = CHR 0x00 then value
      else if 2 \<le> length value \<and> hd value = CHR 0x27 then value
      else [CHR 0x27, c_tolower prefix] @ value)"

section \<open>The waveform file\<close>

record 'h fsdb =
  sig_by_name :: "string \<Rightarrow> 'h option"
  sig_width :: "'h \<Rightarrow> int option"
  values_at :: "'h list \<Rightarrow> nat \<Rightarrow> string list option"
  value_changes :: "'h list \<Rightarrow> nat \<Rightarrow> nat \<Rightarrow> (nat \<times> 'h \<times> string option) list"
  min_time :: nat
  max_time :: nat

record 'h sample_signal =
  sg_alias :: string
  sg_path :: string
  sg_handle :: "'h option"

record clock_sample =
  cs_time :: nat
  cs_edge :: edge_kind
  cs_values :: "string list"

definition resolve_clock_sample_signals ::
  "'h fsdb \<Rightarrow> string list \<Rightarrow> string list \<Rightarrow> string + 'h sample_signal list" where
  "resolve_clock_sample_signals f aliases paths =
     (if length aliases \<noteq> length paths then Inl ''clock sample aliases and paths size mismatch''
      else case List.find (\<lambda>p. sig_by_name f p = None) paths of
        Some p \<Rightarrow> Inl (''Signal not found: '' @ p)
      | None \<Rightarrow> Inr (map2 (\<lambda>a p. \<lparr>sg_alias = a, sg_path = p, sg_handle = sig_by_name f p\<rparr>) aliases paths))"

definition clock_sample_value_map :: "'h sample_signal list \<Rightarrow> string list \<Rightarrow> (string, string) omap" where
  "clock_sample_value_map signals texts =
     fold (\<lambda>p m. omap_put (sg_alias (fst p)) (snd p) m) (zip signals texts) []"

section \<open>Scanning a clock signal\<close>

text \<open>
  What a scan hands on: the callback gets a sample, the error text and the state it keeps, and says
  whether the scan goes on.
\<close>

type_synonym 's sample_callback = "clock_sample \<Rightarrow> string \<Rightarrow> 's \<Rightarrow> bool \<times> string \<times> 's"

record scan_result =
  sr_ok :: bool
  sr_count :: int
  sr_truncated :: bool
  sr_error :: string

record clock_scan =
  cl_prev_clk :: string
  cl_values :: "string list"
  cl_have_group :: bool
  cl_changed :: bool
  cl_target :: bool
  cl_kind :: edge_kind
  cl_time :: nat
  cl_start :: "string list"
  cl_count :: int
  cl_truncated :: bool

definition sample_before_edge :: "edge_kind \<Rightarrow> sample_point_kind \<Rightarrow> bool" where
  "sample_before_edge edge point \<longleftrightarrow> edge \<noteq> Negedge \<and> point = Before"

definition clock_finish_group ::
  "bool \<Rightarrow> int \<Rightarrow> 's sample_callback \<Rightarrow> clock_scan \<Rightarrow> string \<Rightarrow> 's \<Rightarrow> bool \<times> clock_scan \<times> string \<times> 's" where
  "clock_finish_group pre max_samples callback sc err u =
     (if \<not> cl_have_group sc \<or> \<not> cl_changed sc \<or> \<not> cl_target sc then (True, sc, err, u)
      else let sc1 = sc\<lparr>cl_count := cl_count sc + 1\<rparr>
           in if 0 \<le> max_samples \<and> max_samples < cl_count sc1
              then (False, sc1\<lparr>cl_truncated := True\<rparr>, err, u)
              else case callback \<lparr>cs_time = cl_time sc, cs_edge = cl_kind sc,
                                   cs_values = (if pre then cl_start sc else cl_values sc)\<rparr> err u of
                     (keep, err', u') \<Rightarrow> (keep, sc1, err', u'))"

definition clock_open_group :: "bool \<Rightarrow> nat \<Rightarrow> clock_scan \<Rightarrow> clock_scan" where
  "clock_open_group pre t sc =
     sc\<lparr>cl_have_group := True, cl_time := t, cl_changed := False, cl_target := False,
        cl_start := (if pre then cl_values sc else cl_start sc)\<rparr>"

text \<open>The value of the first sampled signal with the changed handle is replaced.\<close>

fun set_first :: "'h \<Rightarrow> string \<Rightarrow> 'h sample_signal list \<Rightarrow> string list \<Rightarrow> string list" where
  "set_first h v (s # ss) (x # xs) = (if sg_handle s = Some h then v # xs else x # set_first h v ss xs)"
| "set_first h v _ xs = xs"

definition clock_apply_change ::
  "edge_kind \<Rightarrow> 'h \<Rightarrow> 'h sample_signal list \<Rightarrow> 'h \<Rightarrow> string \<Rightarrow> clock_scan \<Rightarrow> clock_scan" where
  "clock_apply_change edge clk signals h v sc =
     (if h = clk then
        case clock_edge_transition_matches edge (truthy_one (cl_prev_clk sc)) (truthy_one v) of
          (matched, actual) \<Rightarrow>
            sc\<lparr>cl_target := matched, cl_kind := (case actual of None \<Rightarrow> Negedge | Some k \<Rightarrow> k),
               cl_prev_clk := v, cl_changed := True\<rparr>
      else sc\<lparr>cl_values := set_first h v signals (cl_values sc)\<rparr>)"

fun clock_scan_loop ::
  "edge_kind \<Rightarrow> bool \<Rightarrow> 'h \<Rightarrow> 'h sample_signal list \<Rightarrow> char \<Rightarrow> int \<Rightarrow> 's sample_callback \<Rightarrow>
   (nat \<times> 'h \<times> string option) list \<Rightarrow> clock_scan \<Rightarrow> string \<Rightarrow> 's \<Rightarrow> clock_scan \<times> string \<times> 's" where
  "clock_scan_loop edge pre clk signals prefix max_samples callback [] sc err u =
     (case clock_finish_group pre max_samples callback sc err u of (_, sc1, err1, u1) \<Rightarrow> (sc1, err1, u1))"
| "clock_scan_loop edge pre clk signals prefix max_samples callback ((t, h, value) # changes) sc err u =
     (case (if cl_have_group sc \<and> t \<noteq> cl_time sc
            then clock_finish_group pre max_samples callback sc err u else (True, sc, err, u)) of
        (keep, sc1, err1, u1) \<Rightarrow>
          if \<not> keep then (sc1, err1, u1)
          else let sc2 = (if \<not> cl_have_group sc \<or> t \<noteq> cl_time sc then clock_open_group pre t sc1 else sc1);
                   sc3 = (case value of None \<Rightarrow> sc2
                          | Some v \<Rightarrow> clock_apply_change edge clk signals h (value_with_prefix v prefix) sc2)
               in clock_scan_loop edge pre clk signals prefix max_samples callback changes sc3 err1 u1)"

definition init_time :: "nat \<Rightarrow> nat" where
  "init_time b = (if 0 < b then b - 1 else b)"

definition scan_failed :: "string \<Rightarrow> scan_result" where
  "scan_failed err = \<lparr>sr_ok = False, sr_count = 0, sr_truncated = False, sr_error = err\<rparr>"

definition clock_scanner_scan ::
  "'h fsdb \<Rightarrow> clock_spec \<Rightarrow> 'h sample_signal list \<Rightarrow> nat \<Rightarrow> nat \<Rightarrow> char \<Rightarrow> int \<Rightarrow> 's sample_callback \<Rightarrow>
   string \<Rightarrow> 's \<Rightarrow> scan_result \<times> 's" where
  "clock_scanner_scan f spec signals b e prefix max_samples callback err u =
     (case sig_by_name f (ck_clock spec) of
        None \<Rightarrow> (scan_failed (''Clock signal not found: '' @ ck_clock spec), u)
      | Some clk \<Rightarrow>
          (case List.find (\<lambda>s. sg_handle s = None) signals of
             Some s \<Rightarrow> (scan_failed (''Signal handle not resolved: '' @ sg_path s), u)
           | None \<Rightarrow>
               let handles = map (the \<circ> sg_handle) signals;
                   pre = sample_before_edge (ck_edge spec) (ck_point spec)
               in case values_at f (clk # handles) (init_time b) of
                    None \<Rightarrow> (scan_failed ''Failed to read initial sampled values'', u)
                  | Some texts \<Rightarrow>
                      if length texts \<noteq> length (clk # handles)
                      then (scan_failed ''Failed to read initial sampled values'', u)
                      else case clock_scan_loop (ck_edge spec) pre clk signals prefix max_samples callback
                                  (value_changes f (clk # handles) b e)
                                  \<lparr>cl_prev_clk = value_with_prefix (hd texts) prefix,
                                   cl_values = map (\<lambda>v. value_with_prefix v prefix) (tl texts),
                                   cl_have_group = False, cl_changed = False, cl_target = False,
                                   cl_kind = Negedge, cl_time = 0, cl_start = [], cl_count = 0,
                                   cl_truncated = False\<rparr> err u of
                             (sc, err', u') \<Rightarrow>
                               (\<lparr>sr_ok = (err' = []), sr_count = cl_count sc,
                                 sr_truncated = cl_truncated sc, sr_error = err'\<rparr>, u')))"

section \<open>Scanning a clock expression\<close>

text \<open>
  The evaluation of the clock: an error, or whether its value is known and whether it is 1, from the
  current values by alias.
\<close>

type_synonym clock_eval = "(string, string) omap \<Rightarrow> string + bool \<times> bool"

record 'h expr_scan =
  ex_by_handle :: "'h \<Rightarrow> string option"
  ex_by_alias :: "(string, string) omap"
  ex_prev_known :: bool
  ex_prev_one :: bool
  ex_have_group :: bool
  ex_changed :: bool
  ex_target :: bool
  ex_kind :: edge_kind
  ex_time :: nat
  ex_start :: "'h \<Rightarrow> string option"

record scan_counters =
  ct_count :: int
  ct_truncated :: bool

definition make_sample_values :: "'h sample_signal list \<Rightarrow> ('h \<Rightarrow> string option) \<Rightarrow> string list" where
  "make_sample_values sample_signals source =
     map (\<lambda>s. case sg_handle s of None \<Rightarrow> [] | Some h \<Rightarrow>
            (case source h of None \<Rightarrow> [] | Some v \<Rightarrow> v)) sample_signals"

text \<open>The sample a finished group of changes stands for, if it holds an edge of the requested kind.\<close>

definition group_sample :: "bool \<Rightarrow> 'h sample_signal list \<Rightarrow> 'h expr_scan \<Rightarrow> clock_sample option" where
  "group_sample pre sample_signals sc =
     (if \<not> ex_have_group sc \<or> \<not> ex_changed sc \<or> \<not> ex_target sc then None
      else Some \<lparr>cs_time = ex_time sc, cs_edge = ex_kind sc,
                 cs_values = make_sample_values sample_signals
                               (if pre then ex_start sc else ex_by_handle sc)\<rparr>)"

definition expr_finish_group ::
  "bool \<Rightarrow> 'h sample_signal list \<Rightarrow> int \<Rightarrow> 's sample_callback \<Rightarrow> 'h expr_scan \<Rightarrow> scan_counters \<Rightarrow> string \<Rightarrow> 's \<Rightarrow>
   bool \<times> scan_counters \<times> string \<times> 's" where
  "expr_finish_group pre sample_signals max_samples callback sc ct err u =
     (case group_sample pre sample_signals sc of
        None \<Rightarrow> (True, ct, err, u)
      | Some sample \<Rightarrow>
          let ct1 = ct\<lparr>ct_count := ct_count ct + 1\<rparr>
          in if 0 \<le> max_samples \<and> max_samples < ct_count ct1
             then (False, ct1\<lparr>ct_truncated := True\<rparr>, err, u)
             else case callback sample err u of (keep, err', u') \<Rightarrow> (keep, ct1, err', u'))"

definition expr_open_group :: "bool \<Rightarrow> nat \<Rightarrow> 'h expr_scan \<Rightarrow> 'h expr_scan" where
  "expr_open_group pre t sc =
     sc\<lparr>ex_have_group := True, ex_time := t, ex_changed := False, ex_target := False,
        ex_start := (if pre then ex_by_handle sc else ex_start sc)\<rparr>"

definition expr_record_value :: "'h sample_signal list \<Rightarrow> 'h \<Rightarrow> string \<Rightarrow> 'h expr_scan \<Rightarrow> 'h expr_scan" where
  "expr_record_value all_signals h v sc =
     sc\<lparr>ex_by_handle := (ex_by_handle sc)(h := Some v),
        ex_by_alias := (case List.find (\<lambda>s. sg_handle s = Some h) all_signals of
                          None \<Rightarrow> ex_by_alias sc
                        | Some s \<Rightarrow> omap_put (sg_alias s) v (ex_by_alias sc))\<rparr>"

definition expr_clock_change :: "edge_kind \<Rightarrow> bool \<times> bool \<Rightarrow> 'h expr_scan \<Rightarrow> 'h expr_scan" where
  "expr_clock_change edge cur sc =
     (let sc1 = (if ex_prev_known sc \<and> fst cur then
                   (case clock_edge_transition_matches edge (ex_prev_one sc) (snd cur) of
                      (matched, actual) \<Rightarrow>
                        (if matched
                         then sc\<lparr>ex_target := True, ex_kind := (case actual of None \<Rightarrow> Negedge | Some k \<Rightarrow> k)\<rparr>
                         else sc)\<lparr>ex_changed := True\<rparr>)
                 else sc)
      in sc1\<lparr>ex_prev_known := fst cur, ex_prev_one := snd cur\<rparr>)"

definition expr_apply_change ::
  "edge_kind \<Rightarrow> 'h list \<Rightarrow> 'h sample_signal list \<Rightarrow> clock_eval \<Rightarrow> 'h \<Rightarrow> string \<Rightarrow> 'h expr_scan \<Rightarrow>
   string + 'h expr_scan" where
  "expr_apply_change edge clock_handles all_signals eval h v sc =
     (let sc1 = expr_record_value all_signals h v sc
      in if h \<in> set clock_handles
         then (case eval (ex_by_alias sc1) of Inl err \<Rightarrow> Inl err | Inr cur \<Rightarrow> Inr (expr_clock_change edge cur sc1))
         else Inr sc1)"

text \<open>The fixed data of a scan.\<close>

record 'h expr_scanner =
  xs_edge :: edge_kind
  xs_point :: sample_point_kind
  xs_clock_handles :: "'h list"
  xs_all :: "'h sample_signal list"
  xs_samples :: "'h sample_signal list"
  xs_prefix :: char
  xs_eval :: clock_eval

definition xs_before :: "'h expr_scanner \<Rightarrow> bool" where
  "xs_before x = sample_before_edge (xs_edge x) (xs_point x)"

definition expr_change :: "'h expr_scanner \<Rightarrow> 'h \<Rightarrow> string option \<Rightarrow> 'h expr_scan \<Rightarrow> string + 'h expr_scan" where
  "expr_change x h value sc =
     (case value of None \<Rightarrow> Inr sc
      | Some v \<Rightarrow> expr_apply_change (xs_edge x) (xs_clock_handles x) (xs_all x) (xs_eval x) h
                   (value_with_prefix v (xs_prefix x)) sc)"

definition new_group :: "nat \<Rightarrow> 'h expr_scan \<Rightarrow> bool" where
  "new_group t sc \<longleftrightarrow> \<not> ex_have_group sc \<or> t \<noteq> ex_time sc"

text \<open>
  The loop.  Its first result is whether the clock was evaluated to the end; a callback that returns
  false ends the loop without another sample.
\<close>

fun expr_scan_loop ::
  "'h expr_scanner \<Rightarrow> int \<Rightarrow> 's sample_callback \<Rightarrow> (nat \<times> 'h \<times> string option) list \<Rightarrow>
   'h expr_scan \<Rightarrow> scan_counters \<Rightarrow> string \<Rightarrow> 's \<Rightarrow> bool \<times> scan_counters \<times> string \<times> 's" where
  "expr_scan_loop x max_samples callback [] sc ct err u =
     (True, snd (expr_finish_group (xs_before x) (xs_samples x) max_samples callback sc ct err u))"
| "expr_scan_loop x max_samples callback ((t, h, value) # changes) sc ct err u =
     (case (if ex_have_group sc \<and> t \<noteq> ex_time sc
            then expr_finish_group (xs_before x) (xs_samples x) max_samples callback sc ct err u
            else (True, ct, err, u)) of
        (keep, ct1, err1, u1) \<Rightarrow>
          if \<not> keep then (True, ct1, err1, u1)
          else case expr_change x h value (if new_group t sc then expr_open_group (xs_before x) t sc else sc) of
                 Inl e \<Rightarrow> (False, ct1, e, u1)
               | Inr sc1 \<Rightarrow> expr_scan_loop x max_samples callback changes sc1 ct1 err1 u1)"

text \<open>The signals to read: each handle once, the clock's dependencies first.\<close>

fun unique_signals :: "'h sample_signal list \<Rightarrow> 'h sample_signal list \<Rightarrow> string + 'h sample_signal list" where
  "unique_signals [] acc = Inr acc"
| "unique_signals (s # ss) acc =
     (if sg_handle s = None then Inl (''Signal handle not resolved: '' @ sg_path s)
      else if list_ex (\<lambda>a. sg_handle a = sg_handle s) acc then unique_signals ss acc
      else unique_signals ss (acc @ [s]))"

definition handles_of :: "'h sample_signal list \<Rightarrow> 'h list" where
  "handles_of signals = List.map_filter sg_handle signals"

definition initial_by_handle :: "char \<Rightarrow> 'h sample_signal list \<Rightarrow> string list \<Rightarrow> 'h \<Rightarrow> string option" where
  "initial_by_handle prefix signals texts =
     fold (\<lambda>p m. case sg_handle (fst p) of None \<Rightarrow> m | Some h \<Rightarrow> m(h := Some (value_with_prefix (snd p) prefix)))
       (zip signals texts) (\<lambda>_. None)"

definition initial_by_alias :: "char \<Rightarrow> 'h sample_signal list \<Rightarrow> string list \<Rightarrow> (string, string) omap" where
  "initial_by_alias prefix signals texts =
     fold (\<lambda>p m. omap_put (sg_alias (fst p)) (value_with_prefix (snd p) prefix) m) (zip signals texts) []"

definition start_scan :: "('h \<Rightarrow> string option) \<Rightarrow> (string, string) omap \<Rightarrow> bool \<times> bool \<Rightarrow> 'h expr_scan" where
  "start_scan by_handle by_alias cur =
     \<lparr>ex_by_handle = by_handle, ex_by_alias = by_alias, ex_prev_known = fst cur, ex_prev_one = snd cur,
      ex_have_group = False, ex_changed = False, ex_target = False, ex_kind = Negedge, ex_time = 0,
      ex_start = (\<lambda>_. None)\<rparr>"

definition expression_scanner_scan ::
  "'h fsdb \<Rightarrow> edge_kind \<Rightarrow> sample_point_kind \<Rightarrow> 'h sample_signal list \<Rightarrow> 'h sample_signal list \<Rightarrow>
   nat \<Rightarrow> nat \<Rightarrow> char \<Rightarrow> int \<Rightarrow> clock_eval \<Rightarrow> 's sample_callback \<Rightarrow> string \<Rightarrow> 's \<Rightarrow> scan_result \<times> 's" where
  "expression_scanner_scan f edge point clock_signals sample_signals b e prefix max_samples eval callback err u =
     (if clock_signals = [] then (scan_failed ''clock expression has no signal dependency'', u)
      else case unique_signals (clock_signals @ sample_signals) [] of
        Inl msg \<Rightarrow> (scan_failed msg, u)
      | Inr all_signals \<Rightarrow>
          (case values_at f (handles_of all_signals) (init_time b) of
             None \<Rightarrow> (scan_failed ''Failed to read initial expression clock values'', u)
           | Some texts \<Rightarrow>
               if length texts \<noteq> length all_signals
               then (scan_failed ''Failed to read initial expression clock values'', u)
               else let by_alias = initial_by_alias prefix all_signals texts
                    in case eval by_alias of
                         Inl msg \<Rightarrow> (scan_failed msg, u)
                       | Inr cur \<Rightarrow>
                           (case expr_scan_loop
                                   \<lparr>xs_edge = edge, xs_point = point, xs_clock_handles = handles_of clock_signals,
                                    xs_all = all_signals, xs_samples = sample_signals, xs_prefix = prefix,
                                    xs_eval = eval\<rparr>
                                   max_samples callback (value_changes f (handles_of all_signals) b e)
                                   (start_scan (initial_by_handle prefix all_signals texts) by_alias cur)
                                   \<lparr>ct_count = 0, ct_truncated = False\<rparr> err u of
                              (evaluated, ct, err', u') \<Rightarrow>
                                (\<lparr>sr_ok = (evaluated \<and> err' = []), sr_count = ct_count ct,
                                  sr_truncated = ct_truncated ct, sr_error = err'\<rparr>, u'))))"

end
