(* ===== verification/Stream_Config.thy ===== *)
theory Stream_Config
  imports Clock_Sampling Value_Filter Sha256 "HOL-Library.Countable"
begin

text \<open>
  Stream descriptions, \<open>waveform/stream/stream_config.{h,cpp}\<close>: the configuration of a valid/ready
  stream, its parsing from JSON with every check in the order of the source, its JSON form, the text
  of its handshake and the normalised form that names its analyses in the cache.  The serialiser of
  the JSON library is a parameter.
\<close>

record stream_config =
  cf_name :: string
  cf_signals :: "(string, string) omap"
  cf_clock_sample :: clock_spec
  cf_has_reset :: bool
  cf_reset :: reset_config
  cf_vld :: string
  cf_rdy :: string
  cf_bp :: string
  cf_sop :: string
  cf_eop :: string
  cf_data :: string
  cf_packet_stable_fields :: "(string, string) omap"
  cf_beat_fields :: "(string, string) omap"
  cf_channel_id :: string
  cf_channel_id_valid :: string
  cf_allow_interleaving :: bool
  cf_description :: string

definition default_reset :: reset_config where
  "default_reset = \<lparr>reset_signal = [], reset_polarity = ActiveLow\<rparr>"

section \<open>Parsing\<close>

text \<open>A check that ends the parse with an error, and the sequence of two steps.\<close>

definition require :: "bool \<Rightarrow> string \<Rightarrow> string + unit" where
  "require ok msg = (if ok then Inr () else Inl msg)"

definition and_then :: "string + 'a \<Rightarrow> ('a \<Rightarrow> string + 'b) \<Rightarrow> string + 'b" where
  "and_then r k = (case r of Inl e \<Rightarrow> Inl e | Inr x \<Rightarrow> k x)"

definition get_nonempty_string_if_present :: "(string \<times> json) list \<Rightarrow> string \<Rightarrow> string \<Rightarrow> string + string" where
  "get_nonempty_string_if_present obj stream_name key =
     (case map_of obj key of
        None \<Rightarrow> Inr []
      | Some v \<Rightarrow>
          (case v of
             JString s \<Rightarrow>
               if s = [] then Inl (''stream '' @ stream_name @ '' '' @ key @ '' must be a non-empty string when present'')
               else Inr s
           | _ \<Rightarrow> Inl (''stream '' @ stream_name @ '' '' @ key @ '' must be a non-empty string when present'')))"

definition get_bool_if_present :: "(string \<times> json) list \<Rightarrow> string \<Rightarrow> string \<Rightarrow> bool \<Rightarrow> string + bool" where
  "get_bool_if_present obj stream_name key out =
     (case map_of obj key of
        None \<Rightarrow> Inr out
      | Some v \<Rightarrow>
          (case v of JBool b \<Rightarrow> Inr b
           | _ \<Rightarrow> Inl (''stream '' @ stream_name @ '' '' @ key @ '' must be boolean when present'')))"

definition is_ident_start :: "char \<Rightarrow> bool" where
  "is_ident_start c \<longleftrightarrow> c_isalpha c \<or> c = CHR ''_''"

definition is_ident_char :: "char \<Rightarrow> bool" where
  "is_ident_char c \<longleftrightarrow> c_isalnum c \<or> c = CHR ''_''"

definition stream_name_valid :: "string \<Rightarrow> bool" where
  "stream_name_valid name \<longleftrightarrow> name \<noteq> [] \<and> is_ident_start (hd name) \<and> list_all is_ident_char name"

definition reserved_names :: "string list" where
  "reserved_names = [''time'', ''cycle'', ''vld'', ''rdy'', ''bp'', ''sop'', ''eop'', ''transfer'', ''stall'',
     ''packet_index'', ''beat_index'']"

definition stream_field_name_valid :: "string \<Rightarrow> bool" where
  "stream_field_name_valid name \<longleftrightarrow> stream_name_valid name \<and> name \<notin> set reserved_names"

fun parse_field_loop :: "string \<Rightarrow> (string \<times> json) list \<Rightarrow> (string, string) omap \<Rightarrow> string + (string, string) omap" where
  "parse_field_loop key [] out = Inr out"
| "parse_field_loop key ((k, v) # ms) out =
     (if \<not> stream_field_name_valid k then Inl (''invalid or reserved data field name: '' @ k)
      else case v of
        JString s \<Rightarrow>
          if s = [] then Inl (key @ '' field '' @ k @ '' must map to a non-empty expression'')
          else if omap_get out k \<noteq> None then Inl (''duplicate field name in '' @ key @ '': '' @ k)
          else parse_field_loop key ms (omap_put k s out)
      | _ \<Rightarrow> Inl (key @ '' field '' @ k @ '' must map to a non-empty expression''))"

definition parse_field_map :: "(string \<times> json) list \<Rightarrow> string \<Rightarrow> string \<Rightarrow> string + (string, string) omap" where
  "parse_field_map item stream_name key =
     (case map_of item key of
        None \<Rightarrow> Inr []
      | Some (JObject ms) \<Rightarrow>
          if ms = [] then Inl (''stream '' @ stream_name @ '' '' @ key @ '' must be non-empty when present'')
          else parse_field_loop key ms []
      | Some _ \<Rightarrow> Inl (''stream '' @ stream_name @ '' '' @ key @ '' must be an object''))"

fun parse_signal_loop :: "string \<Rightarrow> (string \<times> json) list \<Rightarrow> (string, string) omap \<Rightarrow> string + (string, string) omap" where
  "parse_signal_loop stream_name [] out = Inr out"
| "parse_signal_loop stream_name ((k, v) # ms) out =
     (if \<not> stream_name_valid k then Inl (''invalid signal alias in stream '' @ stream_name @ '': '' @ k)
      else case v of
        JString s \<Rightarrow>
          if s = [] then Inl (''stream '' @ stream_name @ '' signals.'' @ k @ '' must be a non-empty signal path string'')
          else parse_signal_loop stream_name ms (omap_put k s out)
      | _ \<Rightarrow> Inl (''stream '' @ stream_name @ '' signals.'' @ k @ '' must be a non-empty signal path string''))"

definition parse_signal_map :: "(string \<times> json) list \<Rightarrow> string \<Rightarrow> string + (string, string) omap" where
  "parse_signal_map item stream_name =
     (case map_of item ''signals'' of
        Some (JObject ms) \<Rightarrow>
          and_then (parse_signal_loop stream_name ms [])
            (\<lambda>out. if out = [] then Inl (''stream '' @ stream_name @ '' requires at least one signal alias'') else Inr out)
      | _ \<Rightarrow> Inl (''stream '' @ stream_name @ '' requires signals object mapping alias to signal path''))"

definition allowed_fields :: "string list" where
  "allowed_fields = [''name'', ''signals'', ''clock'', ''edge'', ''sample_point'', ''reset'', ''vld'', ''rdy'', ''bp'',
     ''sop'', ''eop'', ''data'', ''beat_fields'', ''packet_stable_fields'', ''channel_id'', ''channel_id_valid'',
     ''allow_interleaving'', ''description'']"

definition legacy_fields :: "string list" where
  "legacy_fields = [''clk'', ''sampling'', ''clock_edge'', ''posedge'', ''sample_offset'']"

definition stream_packet_enabled :: "stream_config \<Rightarrow> bool" where
  "stream_packet_enabled c \<longleftrightarrow> cf_sop c \<noteq> [] \<and> cf_eop c \<noteq> []"

text \<open>The checks before the fields are read.\<close>

definition check_members :: "(string \<times> json) list \<Rightarrow> string + unit" where
  "check_members item =
     and_then (require (map_of item ''stable_fields'' = None)
                 ''stream config field stable_fields is not supported; use packet_stable_fields'') (\<lambda>_.
     and_then (require (map_of item ''data_fields'' = None)
                 ''stream config field data_fields is not supported; use beat_fields'') (\<lambda>_.
     and_then (case List.find (\<lambda>p. fst p \<notin> set allowed_fields) item of
                 Some p \<Rightarrow> Inl (''stream config contains unknown field: '' @ fst p) | None \<Rightarrow> Inr ()) (\<lambda>_.
     (case List.find (\<lambda>k. map_of item k \<noteq> None) legacy_fields of
        Some k \<Rightarrow> Inl (''stream config uses legacy clock sampling field: '' @ k @ ''; use clock, edge, and sample_point'')
      | None \<Rightarrow> Inr ()))))"

text \<open>The clock: edge and sample point; a sample point is refused with the falling edge.\<close>

definition parse_clock_fields :: "(string \<times> json) list \<Rightarrow> string \<Rightarrow> string \<Rightarrow> string + clock_spec" where
  "parse_clock_fields item name clock =
     and_then (get_nonempty_string_if_present item name ''edge'') (\<lambda>edge_text.
     and_then (case parse_clock_edge_kind (if edge_text = [] then ''negedge'' else edge_text) of
                 Inl e \<Rightarrow> Inl (''invalid stream edge for '' @ name @ '': '' @ e) | Inr k \<Rightarrow> Inr k) (\<lambda>edge.
     and_then (if map_of item ''sample_point'' = None then Inr (Before, False)
               else and_then (get_nonempty_string_if_present item name ''sample_point'') (\<lambda>text.
                      case parse_clock_sample_point_kind text of
                        Inl e \<Rightarrow> Inl (''invalid stream sample_point for '' @ name @ '': '' @ e)
                      | Inr p \<Rightarrow> Inr (p, True))) (\<lambda>(point, has_point).
     and_then (require (\<not> (edge = Negedge \<and> has_point))
                 (''stream '' @ name @ '' sample_point is only valid with edge:posedge or edge:dual'')) (\<lambda>_.
     Inr \<lparr>ck_clock = clock, ck_edge = edge, ck_point = point, ck_has_point = has_point\<rparr>))))"

text \<open>The checks on the fields that were read.\<close>

definition check_fields :: "stream_config \<Rightarrow> string + unit" where
  "check_fields c =
     (let name = cf_name c; packets = stream_packet_enabled c; valid = cf_channel_id_valid c in
      and_then (require (\<not> (cf_data c \<noteq> [] \<and> omap_get (cf_beat_fields c) ''data'' \<noteq> None))
                  ''data and beat_fields must not share field name: data'') (\<lambda>_.
      and_then (case List.find (\<lambda>p. omap_get (cf_beat_fields c) (fst p) \<noteq> None \<or> (cf_data c \<noteq> [] \<and> fst p = ''data''))
                       (cf_packet_stable_fields c) of
                  Some p \<Rightarrow> Inl (''packet_stable_fields and beat_fields must not share field name: '' @ fst p)
                | None \<Rightarrow> Inr ()) (\<lambda>_.
      and_then (require (\<not> (cf_data c = [] \<and> cf_beat_fields c = [] \<and> cf_packet_stable_fields c = []))
                  (''stream '' @ name @ '' requires data, packet_stable_fields, or beat_fields'')) (\<lambda>_.
      and_then (require ((cf_sop c = []) = (cf_eop c = []))
                  (''stream '' @ name @ '' requires sop and eop to be configured together'')) (\<lambda>_.
      and_then (require (\<not> ((valid = ''sop'' \<or> valid = ''eop'') \<and> \<not> packets))
                  (''stream '' @ name @ '' channel_id_valid='' @ valid @ '' requires sop/eop'')) (\<lambda>_.
      and_then (require (\<not> ((valid = ''sop'' \<or> valid = ''eop'') \<and> cf_channel_id c = []))
                  (''stream '' @ name @ '' channel_id_valid='' @ valid @ '' requires channel_id'')) (\<lambda>_.
      if cf_allow_interleaving c then
        and_then (require packets (''stream '' @ name @ '' allow_interleaving requires sop/eop'')) (\<lambda>_.
        and_then (require (cf_channel_id c \<noteq> []) (''stream '' @ name @ '' allow_interleaving requires channel_id'')) (\<lambda>_.
        require (valid = ''every_beat'')
          (''stream '' @ name @ '' allow_interleaving requires channel_id_valid=every_beat'')))
      else Inr ())))))))"

definition parse_stream_config_json :: "json \<Rightarrow> string + stream_config" where
  "parse_stream_config_json j =
     (case j of
        JObject item \<Rightarrow>
          and_then (check_members item) (\<lambda>_.
          and_then (get_nonempty_string_if_present item ''<unnamed>'' ''name'') (\<lambda>name.
          and_then (require (stream_name_valid name) (''invalid stream name: '' @ name)) (\<lambda>_.
          and_then (parse_signal_map item name) (\<lambda>signals.
          and_then (get_nonempty_string_if_present item name ''clock'') (\<lambda>clock.
          and_then (case map_of item ''reset'' of
                      None \<Rightarrow> Inr default_reset
                    | Some r \<Rightarrow> (case parse_reset_config r of
                                   Inl e \<Rightarrow> Inl (''invalid stream reset for '' @ name @ '': '' @ e)
                                 | Inr rc \<Rightarrow> Inr rc)) (\<lambda>reset.
          let str = get_nonempty_string_if_present item name in
          and_then (str ''vld'') (\<lambda>vld. and_then (str ''rdy'') (\<lambda>rdy. and_then (str ''bp'') (\<lambda>bp.
          and_then (str ''sop'') (\<lambda>sop. and_then (str ''eop'') (\<lambda>eop. and_then (str ''data'') (\<lambda>data.
          and_then (str ''channel_id'') (\<lambda>channel_id. and_then (str ''channel_id_valid'') (\<lambda>valid.
          and_then (str ''description'') (\<lambda>description.
          and_then (get_bool_if_present item name ''allow_interleaving'' False) (\<lambda>interleaving.
          and_then (parse_clock_fields item name clock) (\<lambda>spec.
          and_then (require (clock \<noteq> []) (''stream '' @ name @ '' requires clock'')) (\<lambda>_.
          and_then (require (vld \<noteq> []) (''stream '' @ name @ '' requires vld'')) (\<lambda>_.
          let valid' = (if valid = [] then ''every_beat'' else valid) in
          and_then (require (valid' = ''sop'' \<or> valid' = ''eop'' \<or> valid' = ''every_beat'')
                      (''stream '' @ name @ '' channel_id_valid must be sop, eop, or every_beat'')) (\<lambda>_.
          and_then (parse_field_map item name ''packet_stable_fields'') (\<lambda>stable.
          and_then (parse_field_map item name ''beat_fields'') (\<lambda>beats.
          let c = \<lparr>cf_name = name, cf_signals = signals, cf_clock_sample = spec,
                   cf_has_reset = (map_of item ''reset'' \<noteq> None), cf_reset = reset, cf_vld = vld, cf_rdy = rdy,
                   cf_bp = bp, cf_sop = sop, cf_eop = eop, cf_data = data, cf_packet_stable_fields = stable,
                   cf_beat_fields = beats, cf_channel_id = channel_id, cf_channel_id_valid = valid',
                   cf_allow_interleaving = interleaving, cf_description = description\<rparr>
          in and_then (check_fields c) (\<lambda>_. Inr c)))))))))))))))))))))))
      | _ \<Rightarrow> Inl ''stream config must be an object'')"

section \<open>The JSON form\<close>

definition string_member :: "string \<Rightarrow> string \<Rightarrow> (string \<times> json) list" where
  "string_member key s = (if s = [] then [] else [(key, JString s)])"

definition fields_object :: "(string, string) omap \<Rightarrow> json" where
  "fields_object m = JObject (map (\<lambda>(k, v). (k, JString v)) m)"

definition map_member :: "string \<Rightarrow> (string, string) omap \<Rightarrow> (string \<times> json) list" where
  "map_member key m = (if m = [] then [] else [(key, fields_object m)])"

definition stream_config_members :: "stream_config \<Rightarrow> (string \<times> json) list" where
  "stream_config_members c =
     [(''name'', JString (cf_name c)), (''signals'', fields_object (cf_signals c)),
      (''clock'', JString (ck_clock (cf_clock_sample c))),
      (''edge'', JString (clock_edge_kind_text (ck_edge (cf_clock_sample c))))] @
     (if ck_edge (cf_clock_sample c) \<noteq> Negedge
      then [(''sample_point'', JString (clock_sample_point_text (ck_point (cf_clock_sample c))))] else []) @
     (if cf_has_reset c then [(''reset'', reset_config_json (cf_reset c))] else []) @
     [(''vld'', JString (cf_vld c))] @
     string_member ''rdy'' (cf_rdy c) @ string_member ''bp'' (cf_bp c) @ string_member ''sop'' (cf_sop c) @
     string_member ''eop'' (cf_eop c) @ string_member ''data'' (cf_data c) @
     map_member ''packet_stable_fields'' (cf_packet_stable_fields c) @
     map_member ''beat_fields'' (cf_beat_fields c) @
     string_member ''channel_id'' (cf_channel_id c) @
     [(''channel_id_valid'', JString (if cf_channel_id_valid c = [] then ''every_beat'' else cf_channel_id_valid c)),
      (''allow_interleaving'', JBool (cf_allow_interleaving c))] @
     string_member ''description'' (cf_description c)"

definition stream_config_json :: "stream_config \<Rightarrow> json" where
  "stream_config_json c = JObject (stream_config_members c)"

definition stream_handshake_text :: "stream_config \<Rightarrow> string" where
  "stream_handshake_text c =
     (if cf_rdy c \<noteq> [] \<and> cf_bp c \<noteq> [] then ''vld/rdy/bp''
      else if cf_rdy c \<noteq> [] then ''vld/rdy''
      else if cf_bp c \<noteq> [] then ''vld/bp'' else ''vld'')"

text \<open>The members that decide an analysis; \<open>dump\<close> is the serialiser.\<close>

definition normalized_stream_config_semantics :: "(json \<Rightarrow> string) \<Rightarrow> stream_config \<Rightarrow> string" where
  "normalized_stream_config_semantics dump c =
     dump (JObject (filter (\<lambda>p. fst p \<noteq> ''name'' \<and> fst p \<noteq> ''description'') (stream_config_members c)))"

definition stream_config_semantic_fingerprint :: "(json \<Rightarrow> string) \<Rightarrow> stream_config \<Rightarrow> string" where
  "stream_config_semantic_fingerprint dump c = sha256_text (normalized_stream_config_semantics dump c)"


section \<open>What a parsed configuration satisfies\<close>

lemma and_then_Inr [simp]: "and_then r k = Inr y \<longleftrightarrow> (\<exists>x. r = Inr x \<and> k x = Inr y)"
  by (auto simp: and_then_def split: sum.split)

lemma sum_case_Inr: "(case r of Inl e \<Rightarrow> Inl (f e) | Inr x \<Rightarrow> k x) = Inr y \<longleftrightarrow> (\<exists>x. r = Inr x \<and> k x = Inr y)"
  by (cases r) simp_all

lemma require_Inr [simp]: "require ok msg = Inr u \<longleftrightarrow> ok"
  by (simp add: require_def)

definition named_entries :: "(string \<Rightarrow> bool) \<Rightarrow> (string, string) omap \<Rightarrow> bool" where
  "named_entries valid m \<longleftrightarrow> omap_ok m \<and> (\<forall>(k, v)\<in>set m. valid k \<and> v \<noteq> [])"

definition stream_config_ok :: "stream_config \<Rightarrow> bool" where
  "stream_config_ok c \<longleftrightarrow>
     stream_name_valid (cf_name c) \<and> named_entries stream_name_valid (cf_signals c) \<and> cf_signals c \<noteq> [] \<and>
     ck_clock (cf_clock_sample c) \<noteq> [] \<and> cf_vld c \<noteq> [] \<and>
     (ck_edge (cf_clock_sample c) = Negedge \<longrightarrow> \<not> ck_has_point (cf_clock_sample c)) \<and>
     (\<not> ck_has_point (cf_clock_sample c) \<longrightarrow> ck_point (cf_clock_sample c) = Before) \<and>
     (if cf_has_reset c then reset_signal (cf_reset c) \<noteq> [] else cf_reset c = default_reset) \<and>
     cf_channel_id_valid c \<in> {''sop'', ''eop'', ''every_beat''} \<and>
     named_entries stream_field_name_valid (cf_packet_stable_fields c) \<and> named_entries stream_field_name_valid (cf_beat_fields c) \<and>
     check_fields c = Inr ()"

lemma set_omap_put_subset: "set (omap_put k v m) \<subseteq> insert (k, v) (set m)"
  by (induction m) (auto split: if_splits)

lemma named_entries_put: "named_entries valid m \<Longrightarrow> valid k \<Longrightarrow> v \<noteq> [] \<Longrightarrow> named_entries valid (omap_put k v m)"
  using set_omap_put_subset [of k v m] omap_ok_put [of m k v] unfolding named_entries_def by fastforce

lemma field_loop_ok:
  "parse_field_loop key ms out = Inr m \<Longrightarrow> named_entries stream_field_name_valid out \<Longrightarrow> named_entries stream_field_name_valid m"
  by (induction key ms out rule: parse_field_loop.induct) (auto split: if_splits json.splits intro: named_entries_put)

lemma signal_loop_ok:
  "parse_signal_loop name ms out = Inr m \<Longrightarrow> named_entries stream_name_valid out \<Longrightarrow> named_entries stream_name_valid m"
  by (induction name ms out rule: parse_signal_loop.induct) (auto split: if_splits json.splits intro: named_entries_put)

lemma named_entries_Nil [simp]: "named_entries valid []"
  by (simp add: named_entries_def)

lemma field_map_ok: "parse_field_map item name key = Inr m \<Longrightarrow> named_entries stream_field_name_valid m"
  by (auto simp: parse_field_map_def split: option.splits json.splits if_splits intro: field_loop_ok)

lemma signal_map_ok: "parse_signal_map item name = Inr m \<Longrightarrow> named_entries stream_name_valid m \<and> m \<noteq> []"
  by (auto simp: parse_signal_map_def split: option.splits json.splits if_splits intro: signal_loop_ok)

lemma parse_reset_ok: "parse_reset_config r = Inr c \<Longrightarrow> reset_signal c \<noteq> []"
  by (auto simp: parse_reset_config_def split: json.splits option.splits prod.splits if_splits)

lemma parsed_reset:
  assumes "(case z of None \<Rightarrow> Inr default_reset
      | Some r \<Rightarrow> (case parse_reset_config r of Inl e \<Rightarrow> Inl (''invalid stream reset for '' @ name @ '': '' @ e) | Inr rc \<Rightarrow> Inr rc))
      = Inr reset"
  shows "if z \<noteq> None then reset_signal reset \<noteq> [] else reset = default_reset"
  using assms parse_reset_ok by (auto simp: sum_case_Inr split: option.splits)

lemma parse_clock_ok:
  assumes "parse_clock_fields item name clock = Inr spec"
  shows "ck_clock spec = clock \<and> (ck_edge spec = Negedge \<longrightarrow> \<not> ck_has_point spec) \<and>
    (\<not> ck_has_point spec \<longrightarrow> ck_point spec = Before)"
  using assms by (auto simp: parse_clock_fields_def sum_case_Inr split: if_splits)

lemma parse_config_ok:
  assumes "parse_stream_config_json j = Inr c"
  shows "stream_config_ok c"
proof -
  obtain item where j: "j = JObject item" using assms by (cases j) (auto simp: parse_stream_config_json_def)
  show ?thesis
    using assms unfolding j parse_stream_config_json_def Let_def json.case and_then_Inr require_Inr
    apply -
    by (elim exE conjE, drule parse_clock_ok, drule signal_map_ok, drule field_map_ok, drule field_map_ok,
        drule parsed_reset, simp only: sum.inject, hypsubst,
        unfold stream_config_ok_def stream_config.simps insert_iff empty_iff, elim conjE, intro conjI)
      (simp_all only: simp_thms, simp_all)
qed

section \<open>Parsing the JSON form\<close>

lemma omap_put_last: "\<forall>p\<in>set m. fst p < k \<Longrightarrow> omap_put k v m = m @ [(k, v)]"
  by (induction m) auto

lemma field_loop_object:
  assumes "named_entries stream_field_name_valid (m @ n)"
  shows "parse_field_loop key (map (\<lambda>(k, v). (k, JString v)) n) m = Inr (m @ n)"
  using assms
proof (induction n arbitrary: m)
  case (Cons p n)
  obtain k v where p: "p = (k, v)" by fastforce
  have less: "\<forall>q\<in>set m. fst q < k" using Cons.prems p by (auto simp: named_entries_def omap_ok_def sorted_wrt_append)
  then have "omap_get m k = None" by (metis less_irrefl map_of_eq_None_iff imageE)
  moreover have "stream_field_name_valid k" "v \<noteq> []" using Cons.prems p by (auto simp: named_entries_def)
  ultimately show ?case using Cons.IH [of "m @ [p]"] Cons.prems p omap_put_last [OF less] by simp
qed simp

lemma signal_loop_object:
  assumes "named_entries stream_name_valid (m @ n)"
  shows "parse_signal_loop name (map (\<lambda>(k, v). (k, JString v)) n) m = Inr (m @ n)"
  using assms
proof (induction n arbitrary: m)
  case (Cons p n)
  obtain k v where p: "p = (k, v)" by fastforce
  have less: "\<forall>q\<in>set m. fst q < k" using Cons.prems p by (auto simp: named_entries_def omap_ok_def sorted_wrt_append)
  moreover have "stream_name_valid k" "v \<noteq> []" using Cons.prems p by (auto simp: named_entries_def)
  ultimately show ?case using Cons.IH [of "m @ [p]"] Cons.prems p omap_put_last [OF less] by simp
qed simp

lemma member_lookups:
  "map_of (string_member k s) j = (if s \<noteq> [] \<and> j = k then Some (JString s) else None)"
  "map_of (map_member k m) j = (if m \<noteq> [] \<and> j = k then Some (fields_object m) else None)"
  by (simp_all add: string_member_def map_member_def)

text \<open>The members of the JSON form, by key.\<close>

lemma config_lookups:
  "map_of (stream_config_members c) ''name'' = Some (JString (cf_name c))"
  "map_of (stream_config_members c) ''signals'' = Some (fields_object (cf_signals c))"
  "map_of (stream_config_members c) ''clock'' = Some (JString (ck_clock (cf_clock_sample c)))"
  "map_of (stream_config_members c) ''edge'' = Some (JString (clock_edge_kind_text (ck_edge (cf_clock_sample c))))"
  "map_of (stream_config_members c) ''sample_point'' =
     (if ck_edge (cf_clock_sample c) \<noteq> Negedge
      then Some (JString (clock_sample_point_text (ck_point (cf_clock_sample c)))) else None)"
  "map_of (stream_config_members c) ''reset'' = (if cf_has_reset c then Some (reset_config_json (cf_reset c)) else None)"
  "map_of (stream_config_members c) ''vld'' = Some (JString (cf_vld c))"
  "map_of (stream_config_members c) ''rdy'' = (if cf_rdy c \<noteq> [] then Some (JString (cf_rdy c)) else None)"
  "map_of (stream_config_members c) ''bp'' = (if cf_bp c \<noteq> [] then Some (JString (cf_bp c)) else None)"
  "map_of (stream_config_members c) ''sop'' = (if cf_sop c \<noteq> [] then Some (JString (cf_sop c)) else None)"
  "map_of (stream_config_members c) ''eop'' = (if cf_eop c \<noteq> [] then Some (JString (cf_eop c)) else None)"
  "map_of (stream_config_members c) ''data'' = (if cf_data c \<noteq> [] then Some (JString (cf_data c)) else None)"
  "map_of (stream_config_members c) ''packet_stable_fields'' =
     (if cf_packet_stable_fields c \<noteq> [] then Some (fields_object (cf_packet_stable_fields c)) else None)"
  "map_of (stream_config_members c) ''beat_fields'' =
     (if cf_beat_fields c \<noteq> [] then Some (fields_object (cf_beat_fields c)) else None)"
  "map_of (stream_config_members c) ''channel_id'' = (if cf_channel_id c \<noteq> [] then Some (JString (cf_channel_id c)) else None)"
  "map_of (stream_config_members c) ''channel_id_valid'' =
     Some (JString (if cf_channel_id_valid c = [] then ''every_beat'' else cf_channel_id_valid c))"
  "map_of (stream_config_members c) ''allow_interleaving'' = Some (JBool (cf_allow_interleaving c))"
  "map_of (stream_config_members c) ''description'' =
     (if cf_description c \<noteq> [] then Some (JString (cf_description c)) else None)"
  by (simp_all add: stream_config_members_def map_add_def member_lookups split: option.split)

lemma member_keys: "fst ` set (stream_config_members c) \<subseteq> set allowed_fields"
  by (auto simp: stream_config_members_def string_member_def map_member_def allowed_fields_def split: if_splits)


text \<open>The configuration with the sample point marked as given, as its JSON form gives one for every edge but the falling.\<close>

definition point_given :: "stream_config \<Rightarrow> stream_config" where
  "point_given c = c\<lparr>cf_clock_sample := (cf_clock_sample c)\<lparr>ck_has_point := (ck_edge (cf_clock_sample c) \<noteq> Negedge)\<rparr>\<rparr>"

lemma stream_name_nonempty: "stream_name_valid n \<Longrightarrow> n \<noteq> []"
  by (simp add: stream_name_valid_def)

lemma members_accepted: "check_members (stream_config_members c) = Inr ()"
proof -
  have out: "map_of (stream_config_members c) k = None" if "k \<notin> set allowed_fields" for k
    using member_keys [of c] that by (auto simp: map_of_eq_None_iff)
  have n: "''stable_fields'' \<notin> set allowed_fields" "''data_fields'' \<notin> set allowed_fields"
    "\<forall>k\<in>set legacy_fields. k \<notin> set allowed_fields" by code_simp+
  have "List.find (\<lambda>p. fst p \<notin> set allowed_fields) (stream_config_members c) = None"
    using member_keys [of c] by (auto simp: find_None_iff)
  moreover have "List.find (\<lambda>k. map_of (stream_config_members c) k \<noteq> None) legacy_fields = None"
    using out n(3) by (auto simp: find_None_iff)
  ultimately show ?thesis using out n(1,2) by (simp add: check_members_def)
qed

lemma parse_edge_text: "parse_clock_edge_kind (clock_edge_kind_text k) = Inr k"
  by (cases k) (simp_all, code_simp+)

lemma parse_point_text: "parse_clock_sample_point_kind (clock_sample_point_text p) = Inr p"
  by (cases p) (simp_all, code_simp+)

lemma texts_nonempty: "clock_edge_kind_text k \<noteq> []" "clock_sample_point_text p \<noteq> []"
  by (cases k; simp add: clock_edge_kind_text_def) (cases p; simp add: clock_sample_point_text_def)

lemma parse_clock_members:
  assumes "stream_config_ok c"
  shows "parse_clock_fields (stream_config_members c) name (ck_clock (cf_clock_sample c)) =
           Inr (cf_clock_sample (point_given c))"
  using assms
  by (cases "ck_edge (cf_clock_sample c) = Negedge")
    (auto simp: parse_clock_fields_def get_nonempty_string_if_present_def config_lookups parse_edge_text parse_point_text
      texts_nonempty and_then_def require_def point_given_def stream_config_ok_def)

lemma parse_reset_json: "reset_signal c \<noteq> [] \<Longrightarrow> parse_reset_config (reset_config_json c) = Inr c"
  by (cases c; cases "reset_polarity c") (simp_all add: parse_reset_config_def reset_config_json_def)

lemma parse_members:
  assumes ok: "stream_config_ok c"
  shows "get_nonempty_string_if_present (stream_config_members c) n ''name'' = Inr (cf_name c)"
    "parse_signal_map (stream_config_members c) n = Inr (cf_signals c)"
    "get_nonempty_string_if_present (stream_config_members c) n ''clock'' = Inr (ck_clock (cf_clock_sample c))"
    "get_nonempty_string_if_present (stream_config_members c) n ''vld'' = Inr (cf_vld c)"
    "get_nonempty_string_if_present (stream_config_members c) n ''rdy'' = Inr (cf_rdy c)"
    "get_nonempty_string_if_present (stream_config_members c) n ''bp'' = Inr (cf_bp c)"
    "get_nonempty_string_if_present (stream_config_members c) n ''sop'' = Inr (cf_sop c)"
    "get_nonempty_string_if_present (stream_config_members c) n ''eop'' = Inr (cf_eop c)"
    "get_nonempty_string_if_present (stream_config_members c) n ''data'' = Inr (cf_data c)"
    "get_nonempty_string_if_present (stream_config_members c) n ''channel_id'' = Inr (cf_channel_id c)"
    "get_nonempty_string_if_present (stream_config_members c) n ''channel_id_valid'' = Inr (cf_channel_id_valid c)"
    "get_nonempty_string_if_present (stream_config_members c) n ''description'' = Inr (cf_description c)"
    "get_bool_if_present (stream_config_members c) n ''allow_interleaving'' False = Inr (cf_allow_interleaving c)"
    "parse_field_map (stream_config_members c) n ''packet_stable_fields'' = Inr (cf_packet_stable_fields c)"
    "parse_field_map (stream_config_members c) n ''beat_fields'' = Inr (cf_beat_fields c)"
  using ok signal_loop_object [of "[]" "cf_signals c"] field_loop_object [of "[]" "cf_packet_stable_fields c"]
    field_loop_object [of "[]" "cf_beat_fields c"]
  by (auto simp: get_nonempty_string_if_present_def get_bool_if_present_def config_lookups stream_config_ok_def
      parse_signal_map_def parse_field_map_def fields_object_def and_then_def stream_name_nonempty)

lemma parse_reset_members:
  assumes "stream_config_ok c"
  shows "(case map_of (stream_config_members c) ''reset'' of None \<Rightarrow> Inr default_reset
      | Some r \<Rightarrow> (case parse_reset_config r of Inl e \<Rightarrow> Inl (f e) | Inr rc \<Rightarrow> Inr rc)) = Inr (cf_reset c)"
    "(map_of (stream_config_members c) ''reset'' \<noteq> None) = cf_has_reset c"
  using assms parse_reset_json [of "cf_reset c"] by (auto simp: config_lookups stream_config_ok_def)

lemma check_point_given: "check_fields (point_given c) = check_fields c"
  by (cases c) (simp only: check_fields_def point_given_def stream_packet_enabled_def stream_config.simps)

lemma and_then_val: "and_then (Inr x) k = k x"
  by (simp add: and_then_def)

lemma parse_json_form:
  assumes ok: "stream_config_ok c"
  shows "parse_stream_config_json (stream_config_json c) = Inr (point_given c)"
proof -
  have b: "stream_name_valid (cf_name c)" "ck_clock (cf_clock_sample c) \<noteq> []" "cf_vld c \<noteq> []"
    "cf_channel_id_valid c = ''sop'' \<or> cf_channel_id_valid c = ''eop'' \<or> cf_channel_id_valid c = ''every_beat''"
    "cf_channel_id_valid c \<noteq> []" "check_fields c = Inr ()"
    using ok by (auto simp: stream_config_ok_def)
  have c: "\<lparr>cf_name = cf_name c, cf_signals = cf_signals c, cf_clock_sample = cf_clock_sample (point_given c),
      cf_has_reset = cf_has_reset c, cf_reset = cf_reset c, cf_vld = cf_vld c, cf_rdy = cf_rdy c, cf_bp = cf_bp c,
      cf_sop = cf_sop c, cf_eop = cf_eop c, cf_data = cf_data c, cf_packet_stable_fields = cf_packet_stable_fields c,
      cf_beat_fields = cf_beat_fields c, cf_channel_id = cf_channel_id c, cf_channel_id_valid = cf_channel_id_valid c,
      cf_allow_interleaving = cf_allow_interleaving c, cf_description = cf_description c\<rparr> = point_given c"
    by (simp add: point_given_def)
  show ?thesis
    unfolding parse_stream_config_json_def stream_config_json_def json.case Let_def members_accepted and_then_val
      parse_members [OF ok] parse_reset_members [OF ok] parse_clock_members [OF ok]
    using b by (simp add: and_then_val require_def c check_point_given)
qed

text \<open>
  C28: a stream description survives the trip through JSON: parsing the JSON form of a parsed
  configuration gives the configuration back, with the sample point now spelled out; the two have the
  same normalised form, so the analyses cached for one serve the other.
\<close>

theorem stream_config_roundtrip:
  assumes "parse_stream_config_json j = Inr c"
  shows "parse_stream_config_json (stream_config_json c) = Inr (point_given c)
    \<and> stream_config_json (point_given c) = stream_config_json c
    \<and> normalized_stream_config_semantics dump (point_given c) = normalized_stream_config_semantics dump c"
  using parse_json_form [OF parse_config_ok [OF assms]]
  by (simp add: stream_config_json_def stream_config_members_def normalized_stream_config_semantics_def point_given_def)


definition sample_stream_json :: json where
  "sample_stream_json =
     JObject [(''name'', JString ''s''),
              (''signals'', JObject [(''v'', JString ''top.v''), (''clk'', JString ''top.clk''), (''d'', JString ''top.d'')]),
              (''clock'', JString ''clk''), (''edge'', JString ''posedge''), (''vld'', JString ''v''), (''data'', JString ''d'')]"

definition sample_stream_config :: stream_config where
  "sample_stream_config =
     \<lparr>cf_name = ''s'', cf_signals = [(''clk'', ''top.clk''), (''d'', ''top.d''), (''v'', ''top.v'')],
      cf_clock_sample = \<lparr>ck_clock = ''clk'', ck_edge = Posedge, ck_point = Before, ck_has_point = False\<rparr>,
      cf_has_reset = False, cf_reset = default_reset, cf_vld = ''v'', cf_rdy = [], cf_bp = [], cf_sop = [], cf_eop = [],
      cf_data = ''d'', cf_packet_stable_fields = [], cf_beat_fields = [], cf_channel_id = [],
      cf_channel_id_valid = ''every_beat'', cf_allow_interleaving = False, cf_description = []\<rparr>"

lemma sample_parse: "parse_stream_config_json sample_stream_json = Inr sample_stream_config"
  by code_simp

theorem stream_config_roundtrip_witness:
  "parse_stream_config_json (stream_config_json sample_stream_config) = Inr (point_given sample_stream_config)"
  using stream_config_roundtrip [OF sample_parse] by blast

text \<open>The configuration without what its analyses do not depend on.\<close>

definition semantic_part :: "stream_config \<Rightarrow> stream_config" where
  "semantic_part c = (point_given c)\<lparr>cf_name := [], cf_description := []\<rparr>"

lemma fields_object_inject: "fields_object m = fields_object m' \<longleftrightarrow> m = m'"
proof -
  have "map (\<lambda>(k, v). (k, JString v)) m = map (\<lambda>(k, v). (k, JString v)) m' \<Longrightarrow> m = m'" for m m' :: "(string \<times> string) list"
    by (induction m arbitrary: m') (auto simp: Cons_eq_map_conv)
  then show ?thesis by (auto simp: fields_object_def)
qed

lemma reset_json_inject: "reset_config_json a = reset_config_json b \<longleftrightarrow> a = b"
  by (cases a; cases b; cases "reset_polarity a"; cases "reset_polarity b") (auto simp: reset_config_json_def)

lemma edge_text_inject: "clock_edge_kind_text a = clock_edge_kind_text b \<longleftrightarrow> a = b"
  by (metis parse_edge_text sum.inject(2))

lemma point_text_inject: "clock_sample_point_text a = clock_sample_point_text b \<longleftrightarrow> a = b"
  by (metis parse_point_text sum.inject(2))

lemma lookup_inject:
  "(if s \<noteq> [] then Some (JString s) else None) = (if t \<noteq> [] then Some (JString t) else None) \<longleftrightarrow> s = t"
  "(if m \<noteq> [] then Some (fields_object m) else None) = (if n \<noteq> [] then Some (fields_object n) else None) \<longleftrightarrow> m = n"
  by (auto simp: fields_object_inject)

lemma semantics_decide:
  assumes inj: "inj dump" and ok: "stream_config_ok c" "stream_config_ok c'"
    and eq: "normalized_stream_config_semantics dump c = normalized_stream_config_semantics dump c'"
  shows "semantic_part c = semantic_part c'"
proof -
  let ?keep = "filter (\<lambda>p. fst p \<noteq> ''name'' \<and> fst p \<noteq> ''description'')"
  have same: "?keep (stream_config_members c) = ?keep (stream_config_members c')"
    using eq injD [OF inj] by (auto simp: normalized_stream_config_semantics_def)
  have kept: "map_of (?keep ms) k = map_of ms k" if "k \<noteq> ''name'' \<and> k \<noteq> ''description''" for k and ms :: "(string \<times> json) list"
    using that by (induction ms) auto
  have get: "map_of (stream_config_members c) k = map_of (stream_config_members c') k"
    if k: "k \<noteq> ''name'' \<and> k \<noteq> ''description''" for k
    using arg_cong [OF same, of "\<lambda>ms. map_of ms k"] by (simp only: kept [OF k])
  note plain = config_lookups lookup_inject fields_object_inject
  have edge: "ck_edge (cf_clock_sample c) = ck_edge (cf_clock_sample c')"
    using get [of "''edge''"] by (simp add: config_lookups edge_text_inject)
  have point: "ck_point (cf_clock_sample c) = ck_point (cf_clock_sample c')"
    using get [of "''sample_point''"] ok edge by (auto simp: config_lookups point_text_inject stream_config_ok_def split: if_splits)
  have reset: "cf_has_reset c = cf_has_reset c'" "cf_reset c = cf_reset c'"
    using get [of "''reset''"] ok by (auto simp: config_lookups reset_json_inject stream_config_ok_def split: if_splits)
  have valid: "cf_channel_id_valid c = cf_channel_id_valid c'"
    using get [of "''channel_id_valid''"] ok by (auto simp: config_lookups stream_config_ok_def split: if_splits)
  have texts: "cf_vld c = cf_vld c'" "cf_rdy c = cf_rdy c'" "cf_bp c = cf_bp c'" "cf_sop c = cf_sop c'" "cf_eop c = cf_eop c'"
    "cf_data c = cf_data c'" "cf_channel_id c = cf_channel_id c'"
    using get [of "''vld''"] get [of "''rdy''"] get [of "''bp''"] get [of "''sop''"] get [of "''eop''"] get [of "''data''"]
      get [of "''channel_id''"] by (simp_all add: plain)
  have "ck_clock (cf_clock_sample c) = ck_clock (cf_clock_sample c')"
    "cf_allow_interleaving c = cf_allow_interleaving c'" "cf_packet_stable_fields c = cf_packet_stable_fields c'"
    "cf_beat_fields c = cf_beat_fields c'" "cf_signals c = cf_signals c'"
    using get [of "''clock''"] get [of "''allow_interleaving''"] get [of "''packet_stable_fields''"] get [of "''beat_fields''"]
      get [of "''signals''"] by (simp_all add: plain)
  then show ?thesis
    using edge point reset valid texts
    by (cases c; cases c'; cases "cf_clock_sample c"; cases "cf_clock_sample c'") (simp add: semantic_part_def point_given_def)
qed

text \<open>
  The normalised form decides the analysis: when the serialiser keeps different values apart, two
  parsed configurations with the same normalised form differ at most in name and description (and in
  whether the default sample point was spelled out).
\<close>

theorem stream_semantics_decide:
  assumes inj: "inj dump" and p: "parse_stream_config_json j = Inr c" "parse_stream_config_json j' = Inr c'"
    and eq: "normalized_stream_config_semantics dump c = normalized_stream_config_semantics dump c'"
  shows "semantic_part c = semantic_part c'"
  by (rule semantics_decide [OF inj parse_config_ok [OF p(1)] parse_config_ok [OF p(2)] eq])


text \<open>A serialiser that keeps all values apart, for the example.\<close>

instance json :: countable
  by countable_datatype

definition unary_dump :: "json \<Rightarrow> string" where
  "unary_dump j = replicate (to_nat j) CHR ''x''"

lemma unary_dump_inj: "inj unary_dump"
  by (auto intro!: injI simp: unary_dump_def dest: arg_cong [of _ _ length])

definition renamed_stream_json :: json where
  "renamed_stream_json =
     JObject [(''clock'', JString ''clk''), (''edge'', JString ''posedge''), (''name'', JString ''t''),
              (''signals'', JObject [(''clk'', JString ''top.clk''), (''d'', JString ''top.d''), (''v'', JString ''top.v'')]),
              (''vld'', JString ''v''), (''data'', JString ''d''), (''description'', JString ''again'')]"

lemma renamed_parse:
  "parse_stream_config_json renamed_stream_json = Inr (sample_stream_config\<lparr>cf_name := ''t'', cf_description := ''again''\<rparr>)"
  by code_simp

theorem stream_semantics_decide_witness:
  "semantic_part sample_stream_config = semantic_part (sample_stream_config\<lparr>cf_name := ''t'', cf_description := ''again''\<rparr>)"
proof -
  have "normalized_stream_config_semantics unary_dump sample_stream_config
      = normalized_stream_config_semantics unary_dump (sample_stream_config\<lparr>cf_name := ''t'', cf_description := ''again''\<rparr>)"
  proof -
    have "filter (\<lambda>p. fst p \<noteq> ''name'' \<and> fst p \<noteq> ''description'') (stream_config_members sample_stream_config)
        = filter (\<lambda>p. fst p \<noteq> ''name'' \<and> fst p \<noteq> ''description'')
            (stream_config_members (sample_stream_config\<lparr>cf_name := ''t'', cf_description := ''again''\<rparr>))"
      by code_simp
    then show ?thesis by (simp only: normalized_stream_config_semantics_def)
  qed
  from stream_semantics_decide [OF unary_dump_inj sample_parse renamed_parse this] show ?thesis .
qed

text \<open>
  A member with a legacy name is reported as an unknown field: the check for unknown fields comes first,
  so the message that names the replacement is never given.
\<close>

lemma legacy_message_unreachable:
  assumes "k \<in> set legacy_fields" "map_of item k \<noteq> None" "map_of item ''stable_fields'' = None" "map_of item ''data_fields'' = None"
  shows "\<exists>j. parse_stream_config_json (JObject item) = Inl (''stream config contains unknown field: '' @ j)"
proof -
  have "\<forall>k\<in>set legacy_fields. k \<notin> set allowed_fields" by code_simp
  then have "List.find (\<lambda>p. fst p \<notin> set allowed_fields) item \<noteq> None"
    using assms(1,2) by (auto simp: find_None_iff dest: map_of_SomeD)
  then show ?thesis
    using assms(3,4) by (auto simp: parse_stream_config_json_def check_members_def and_then_def require_def)
qed

end
