(* ===== verification/Stream_Base.thy ===== *)
theory Stream_Base
  imports Stream_Config Stream_Expr Analysis_Repository
begin

text \<open>
  The analysis of a stream, \<open>waveform/stream/stream_analyzer.cpp\<close>, first part: compiling the
  expressions of a configuration and building its base analysis, the samples of the clock with what
  each shows of the handshake, the columns of field values of the transfers and the packets.  The build
  is the callback of the clock scan; the packets are those of one open packet, or of one per channel
  when interleaving is allowed.  While it builds for the cache it reports its size to the cache at
  every power of two of samples.  The size in bytes depends on the capacities the standard library
  chooses, so the estimate is a parameter.
\<close>

section \<open>The base analysis\<close>

record sample_metadata =
  md_time :: nat
  md_reset :: bool
  md_vld :: bool
  md_rdy :: bool
  md_bp :: bool
  md_sop :: bool
  md_eop :: bool
  md_transfer :: bool
  md_stall :: bool
  md_stall_reason :: string
  md_control_xz :: nat
  md_data_xz :: nat
  md_ordinal :: int

type_synonym field_values = "(string, stream_value) omap"

record base_mismatch =
  bm_ordinal :: nat
  bm_field :: string
  bm_expected :: stream_value
  bm_actual :: stream_value

record base_packet =
  bp_ordinals :: "nat list"
  bp_partial_begin :: bool
  bp_partial_end :: bool
  bp_channel :: stream_value
  bp_mismatches :: "base_mismatch list"

record stream_base =
  sb_samples :: "sample_metadata list"
  sb_transfer_ids :: "nat list"
  sb_field_schema :: "string list"
  sb_stable_schema :: "string list"
  sb_field_columns :: "(string, stream_value list) omap"
  sb_stable_columns :: "(string, stream_value list) omap"
  sb_channels :: "stream_value list"
  sb_packets :: "base_packet list"
  sb_complete :: bool
  sb_requested_begin :: nat
  sb_requested_end :: nat
  sb_scanned_begin :: nat
  sb_scanned_end :: nat
  sb_has_samples :: bool

definition no_value :: stream_value where
  "no_value = StreamValue [] True True"

section \<open>Compiling the expressions\<close>

record stream_issue =
  is_severity :: string
  is_code :: string
  is_message :: string

record compiled =
  cp_clock :: stream_expression
  cp_vld :: stream_expression
  cp_rdy :: stream_expression
  cp_bp :: stream_expression
  cp_sop :: stream_expression
  cp_eop :: stream_expression
  cp_data :: stream_expression
  cp_channel :: stream_expression
  cp_stable_fields :: "(string, stream_expression) omap"
  cp_beat_fields :: "(string, stream_expression) omap"
  cp_deps :: "string list"
  cp_dep_paths :: "(string, string) omap"

definition reset_dependency :: string where
  "reset_dependency = ''__xdebug_reset''"

text \<open>An expression is parsed unless its text is empty, and the names it reads are added to the dependencies.\<close>

definition parse_one :: "string \<Rightarrow> string \<Rightarrow> string list \<Rightarrow> string + stream_expression \<times> string list" where
  "parse_one label text deps =
     (if text = [] then Inr (se_empty, deps)
      else case stream_parse text [] of
        None \<Rightarrow> Inl (label @ '' expression parse failed: '')
      | Some (e, err) \<Rightarrow>
          if err \<noteq> [] then Inl (label @ '' expression parse failed: '' @ err)
          else Inr (e, fold insort_insert (se_signals e) deps))"

fun parse_all ::
  "string \<Rightarrow> (string, string) omap \<Rightarrow> (string, stream_expression) omap \<Rightarrow> string list \<Rightarrow>
   string + (string, stream_expression) omap \<times> string list" where
  "parse_all label [] out deps = Inr (out, deps)"
| "parse_all label ((k, text) # items) out deps =
     and_then (parse_one (label @ ''.'' @ k) text deps) (\<lambda>(e, deps'). parse_all label items (omap_put k e out) deps')"

text \<open>The paths of the dependencies, each resolved in the file.\<close>

definition dep_path ::
  "'h fsdb \<Rightarrow> stream_config \<Rightarrow> string \<Rightarrow> (string, string) omap \<Rightarrow> string + (string, string) omap" where
  "dep_path f config sig paths =
     (if sig = reset_dependency then
        (case sig_by_name f (reset_signal (cf_reset config)) of
           None \<Rightarrow> Inl (''reset signal not found: '' @ reset_signal (cf_reset config))
         | Some h \<Rightarrow>
             if sig_width f h \<noteq> Some 1
             then Inl (''reset signal must resolve to exactly one bit: '' @ reset_signal (cf_reset config))
             else Inr paths)
      else case omap_get (cf_signals config) sig of
        None \<Rightarrow> Inl (''stream '' @ cf_name config @ '' expression references unknown signal alias: '' @ sig)
      | Some path \<Rightarrow>
          if sig_by_name f path = None then Inl (''signal not found for alias '' @ sig @ '': '' @ path)
          else Inr (omap_put sig path paths))"

fun dep_paths_loop ::
  "'h fsdb \<Rightarrow> stream_config \<Rightarrow> string list \<Rightarrow> (string, string) omap \<Rightarrow> string + (string, string) omap" where
  "dep_paths_loop f config [] paths = Inr paths"
| "dep_paths_loop f config (sig # sigs) paths =
     and_then (dep_path f config sig paths) (dep_paths_loop f config sigs)"

definition compile_stream :: "'h fsdb \<Rightarrow> stream_config \<Rightarrow> string + compiled" where
  "compile_stream f config =
     and_then (parse_one ''clock'' (ck_clock (cf_clock_sample config)) []) (\<lambda>(clock, d0).
     let d1 = (if cf_has_reset config then insort_insert reset_dependency d0 else d0);
         p1 = (if cf_has_reset config then [(reset_dependency, reset_signal (cf_reset config))] else []) in
     and_then (parse_one ''vld'' (cf_vld config) d1) (\<lambda>(vld, d2).
     and_then (parse_one ''rdy'' (cf_rdy config) d2) (\<lambda>(rdy, d3).
     and_then (parse_one ''bp'' (cf_bp config) d3) (\<lambda>(bp, d4).
     and_then (parse_one ''sop'' (cf_sop config) d4) (\<lambda>(sop, d5).
     and_then (parse_one ''eop'' (cf_eop config) d5) (\<lambda>(eop, d6).
     and_then (parse_one ''data'' (cf_data config) d6) (\<lambda>(data, d7).
     and_then (parse_one ''channel_id'' (cf_channel_id config) d7) (\<lambda>(channel, d8).
     and_then (parse_all ''packet_stable_fields'' (cf_packet_stable_fields config) [] d8) (\<lambda>(stables, d9).
     and_then (parse_all ''beat_fields'' (cf_beat_fields config) [] d9) (\<lambda>(beats, deps).
     and_then (dep_paths_loop f config deps p1) (\<lambda>paths.
     Inr \<lparr>cp_clock = clock, cp_vld = vld, cp_rdy = rdy, cp_bp = bp, cp_sop = sop, cp_eop = eop, cp_data = data,
          cp_channel = channel, cp_stable_fields = stables, cp_beat_fields = beats, cp_deps = deps,
          cp_dep_paths = paths\<rparr>)))))))))))"

text \<open>The warning of the compilation, given once the clock is parsed, whatever fails later.\<close>

definition compile_issues :: "stream_config \<Rightarrow> stream_issue list" where
  "compile_issues config =
     (case parse_one ''clock'' (ck_clock (cf_clock_sample config)) [] of
        Inl _ \<Rightarrow> []
      | Inr (clock, _) \<Rightarrow>
          if se_plain_signal clock then []
          else [\<lparr>is_severity = ''WARNING'', is_code = ''CLOCK_COMPLEX'', is_message =
                  ''clock expression is not a plain signal; edge detection uses expression dependency changes''\<rparr>])"

definition static_error :: "bool \<Rightarrow> string \<Rightarrow> string \<Rightarrow> stream_issue list" where
  "static_error wrong code msg =
     (if wrong then [\<lparr>is_severity = ''ERROR'', is_code = code, is_message = msg\<rparr>] else [])"

definition validate_static :: "'h fsdb \<Rightarrow> stream_config \<Rightarrow> bool \<times> stream_issue list \<times> string" where
  "validate_static f config =
     (let packets = stream_packet_enabled config; valid = cf_channel_id_valid config;
          issues =
            static_error (\<not> stream_name_valid (cf_name config)) ''INVALID_NAME'' ''invalid stream name'' @
            static_error (cf_data config = [] \<and> cf_beat_fields config = [] \<and> cf_packet_stable_fields config = [])
              ''MISSING_DATA'' ''stream requires data, packet_stable_fields, or beat_fields'' @
            static_error ((cf_sop config = []) \<noteq> (cf_eop config = [])) ''PACKET_PAIR''
              ''sop/eop must be configured together'' @
            static_error ((valid = ''sop'' \<or> valid = ''eop'') \<and> \<not> packets) ''CHANNEL_VALID_REQUIRES_PACKET''
              ''channel_id_valid=sop/eop requires sop/eop'' @
            static_error ((valid = ''sop'' \<or> valid = ''eop'') \<and> cf_channel_id config = [])
              ''CHANNEL_VALID_REQUIRES_CHANNEL'' ''channel_id_valid=sop/eop requires channel_id'' @
            (if cf_allow_interleaving config then
               static_error (\<not> packets) ''INTERLEAVING_REQUIRES_PACKET'' ''allow_interleaving requires sop/eop'' @
               static_error (cf_channel_id config = []) ''INTERLEAVING_REQUIRES_CHANNEL''
                 ''allow_interleaving requires channel_id'' @
               static_error (valid \<noteq> ''every_beat'') ''INTERLEAVING_REQUIRES_EVERY_BEAT_CHANNEL''
                 ''allow_interleaving requires channel_id_valid=every_beat''
             else []) @
            compile_issues config
      in case compile_stream f config of
           Inl err \<Rightarrow> (False, issues @ static_error True ''COMPILE_FAILED'' err, err)
         | Inr _ \<Rightarrow> (True, issues, []))"

section \<open>Evaluating a sample\<close>

definition sample_bits_from_raw :: "string \<Rightarrow> string" where
  "sample_bits_from_raw text =
     (let text = (if 2 \<le> length text \<and> text ! 0 = CHR 0x27 \<and> text ! 1 \<in> set ''bBhHdD'' then drop 2 text else text);
          bits = map c_tolower (filter (\<lambda>c. \<not> (c = CHR ''_'' \<or> c_isspace c) \<and> c \<in> set ''01xXzZ'') text)
      in if bits = [] then ''x'' else bits)"

definition raw_value :: "string \<Rightarrow> stream_value" where
  "raw_value raw =
     (let bits = sample_bits_from_raw raw in StreamValue bits (\<not> list_ex (\<lambda>c. c \<in> set ''xz'') bits) True)"

definition stream_value_equal :: "stream_value \<Rightarrow> stream_value \<Rightarrow> bool" where
  "stream_value_equal a b \<longleftrightarrow> sv_known a = sv_known b \<and> sv_bits a = sv_bits b"

definition stream_value_key :: "stream_value \<Rightarrow> string" where
  "stream_value_key v = (if sv_bits v = [] then ''<none>'' else sv_bits v)"

text \<open>The values of the dependencies in a sample; a missing one is unknown.\<close>

definition dep_values :: "string list \<Rightarrow> string list \<Rightarrow> signal_values" where
  "dep_values deps raws =
     map_of (map (\<lambda>i. (deps ! i, raw_value (if i < length raws then raws ! i else [CHR 0x27] @ ''bx''))) [0..<length deps])"

definition eval_labelled :: "stream_expression \<Rightarrow> string \<Rightarrow> signal_values \<Rightarrow> string + stream_value" where
  "eval_labelled e label values =
     (if se_text e = [] then Inr (StreamValue ''0'' True True)
      else case stream_evaluate e values [] of
        (Some v, err) \<Rightarrow> if err = [] then Inr v else Inl (label @ '' evaluate failed: '' @ err)
      | (None, err) \<Rightarrow> Inl (label @ '' evaluate failed: '' @ err))"

fun eval_fields ::
  "string \<Rightarrow> (string, stream_expression) omap \<Rightarrow> signal_values \<Rightarrow> field_values \<Rightarrow> string + field_values" where
  "eval_fields label [] values out = Inr out"
| "eval_fields label ((k, e) # es) values out =
     and_then (eval_labelled e (label @ ''.'' @ k) values) (\<lambda>v. eval_fields label es values (omap_put k v out))"

definition control_value :: "string \<Rightarrow> stream_expression \<Rightarrow> string \<Rightarrow> stream_value \<Rightarrow> signal_values \<Rightarrow> string + stream_value" where
  "control_value text e label absent values =
     (if text = [] then Inr absent else eval_labelled e label values)"

definition count_xz :: "stream_value list \<Rightarrow> nat" where
  "count_xz vs = length (filter stream_value_has_xz vs)"

text \<open>The stall of a sample and its reason, from the handshake that is configured.\<close>

definition stall_of :: "stream_config \<Rightarrow> bool \<Rightarrow> bool \<Rightarrow> bool \<Rightarrow> bool \<times> string" where
  "stall_of config vld rdy bp =
     (if cf_rdy config \<noteq> [] \<and> cf_bp config \<noteq> [] then
        (vld \<and> (\<not> rdy \<or> bp),
         if \<not> rdy \<and> bp then ''rdy_low_and_bp_high'' else if \<not> rdy then ''rdy_low'' else if bp then ''bp_high'' else [])
      else if cf_rdy config \<noteq> [] then (vld \<and> \<not> rdy, if vld \<and> \<not> rdy then ''rdy_low'' else [])
      else if cf_bp config \<noteq> [] then (vld \<and> bp, if vld \<and> bp then ''bp_high'' else [])
      else (False, []))"

definition make_metadata ::
  "stream_config \<Rightarrow> nat \<Rightarrow> stream_value \<Rightarrow> stream_value \<Rightarrow> stream_value \<Rightarrow> stream_value \<Rightarrow> stream_value \<Rightarrow> stream_value \<Rightarrow>
   sample_metadata" where
  "make_metadata config t reset_v vld_v rdy_v bp_v sop_v eop_v =
     (let reset = (cf_has_reset config \<and> reset_is_active (cf_reset config) (sv_bits reset_v));
          vld = stream_value_truthy vld_v False; rdy = stream_value_truthy rdy_v False;
          bp = stream_value_truthy bp_v True;
          flow = ((cf_rdy config \<noteq> [] \<longrightarrow> rdy) \<and> (cf_bp config \<noteq> [] \<longrightarrow> \<not> bp));
          stall = stall_of config vld rdy bp
      in \<lparr>md_time = t, md_reset = reset, md_vld = vld, md_rdy = rdy, md_bp = bp,
          md_sop = stream_value_truthy sop_v False, md_eop = stream_value_truthy eop_v False,
          md_transfer = (vld \<and> flow \<and> \<not> reset), md_stall = fst stall, md_stall_reason = snd stall,
          md_control_xz = count_xz [reset_v, vld_v, rdy_v, bp_v, sop_v, eop_v], md_data_xz = 0, md_ordinal = - 1\<rparr>)"

text \<open>What a sample shows: its metadata, the two groups of fields and the channel.\<close>

record sample_view =
  vw_metadata :: sample_metadata
  vw_fields :: field_values
  vw_stable :: field_values
  vw_channel :: stream_value

definition eval_sample :: "compiled \<Rightarrow> stream_config \<Rightarrow> clock_sample \<Rightarrow> string + sample_view" where
  "eval_sample c config sample =
     (let vals = dep_values (cp_deps c) (cs_values sample);
          zero = StreamValue ''0'' True True;
          reset_v = (if cf_has_reset config
                     then (case vals reset_dependency of None \<Rightarrow> no_value | Some v \<Rightarrow> v) else zero) in
      and_then (eval_labelled (cp_vld c) ''vld'' vals) (\<lambda>vld_v.
      and_then (control_value (cf_rdy config) (cp_rdy c) ''rdy'' (StreamValue ''1'' True True) vals) (\<lambda>rdy_v.
      and_then (control_value (cf_bp config) (cp_bp c) ''bp'' zero vals) (\<lambda>bp_v.
      and_then (control_value (cf_sop config) (cp_sop c) ''sop'' zero vals) (\<lambda>sop_v.
      and_then (control_value (cf_eop config) (cp_eop c) ''eop'' zero vals) (\<lambda>eop_v.
      and_then (if cf_data config = [] then Inr []
                else and_then (eval_labelled (cp_data c) ''data'' vals) (\<lambda>v. Inr [(''data'', v)])) (\<lambda>data.
      and_then (eval_fields ''beat_fields'' (cp_beat_fields c) vals data) (\<lambda>fields.
      and_then (eval_fields ''packet_stable_fields'' (cp_stable_fields c) vals []) (\<lambda>stables.
      and_then (if cf_channel_id config = [] then Inr no_value
                else eval_labelled (cp_channel c) ''channel_id'' vals) (\<lambda>channel.
      Inr \<lparr>vw_metadata =
              (make_metadata config (cs_time sample) reset_v vld_v rdy_v bp_v sop_v eop_v)
                \<lparr>md_data_xz := count_xz (map snd fields) + count_xz (map snd stables)\<rparr>,
           vw_fields = fields, vw_stable = stables, vw_channel = channel\<rparr>))))))))))"


section \<open>Packets\<close>

record packet_state =
  pk_active :: bool
  pk_index :: nat
  pk_stable :: field_values

definition idle_packet :: packet_state where
  "idle_packet = \<lparr>pk_active = False, pk_index = 0, pk_stable = []\<rparr>"

record packet_build =
  pb_packets :: "base_packet list"
  pb_single :: packet_state
  pb_channels :: "(string, packet_state) omap"

text \<open>The open packet a transfer belongs to: the only one, or that of its channel, made on first use.\<close>

definition build_state :: "string option \<Rightarrow> packet_build \<Rightarrow> packet_state" where
  "build_state slot b =
     (case slot of None \<Rightarrow> pb_single b
      | Some key \<Rightarrow> (case omap_get (pb_channels b) key of None \<Rightarrow> idle_packet | Some s \<Rightarrow> s))"

definition set_build_state :: "string option \<Rightarrow> packet_state \<Rightarrow> packet_build \<Rightarrow> packet_build" where
  "set_build_state slot s b =
     (case slot of None \<Rightarrow> b\<lparr>pb_single := s\<rparr> | Some key \<Rightarrow> b\<lparr>pb_channels := omap_put key s (pb_channels b)\<rparr>)"

definition at_index :: "nat \<Rightarrow> ('a \<Rightarrow> 'a) \<Rightarrow> 'a list \<Rightarrow> 'a list" where
  "at_index i f xs = (if i < length xs then xs[i := f (xs ! i)] else xs)"

definition base_finish_packet :: "string option \<Rightarrow> bool \<Rightarrow> packet_build \<Rightarrow> packet_build" where
  "base_finish_packet slot partial_end b =
     (let s = build_state slot b in
      if \<not> pk_active s then b
      else set_build_state slot idle_packet
             (b\<lparr>pb_packets := at_index (pk_index s) (\<lambda>p. p\<lparr>bp_partial_end := partial_end\<rparr>) (pb_packets b)\<rparr>))"

definition base_start_packet ::
  "stream_config \<Rightarrow> string option \<Rightarrow> field_values \<Rightarrow> stream_value \<Rightarrow> bool \<Rightarrow> packet_build \<Rightarrow> packet_build" where
  "base_start_packet config slot stables channel partial_begin b =
     (let b1 = (if pk_active (build_state slot b) then base_finish_packet slot True b else b);
          keep = (cf_channel_id_valid config = ''sop'' \<or> cf_channel_id_valid config = ''every_beat'')
      in (set_build_state slot \<lparr>pk_active = True, pk_index = length (pb_packets b1), pk_stable = stables\<rparr> b1)
           \<lparr>pb_packets := pb_packets b1 @
              [\<lparr>bp_ordinals = [], bp_partial_begin = partial_begin, bp_partial_end = False,
                bp_channel = (if keep then channel else no_value), bp_mismatches = []\<rparr>]\<rparr>)"

text \<open>The stable fields of a beat against those of its packet: new fields are added, differences noted.\<close>

fun base_stable_loop ::
  "nat \<Rightarrow> field_values \<Rightarrow> field_values \<Rightarrow> base_mismatch list \<Rightarrow> field_values \<times> base_mismatch list" where
  "base_stable_loop ordinal [] known_fields out = (known_fields, out)"
| "base_stable_loop ordinal ((k, v) # items) known_fields out =
     (case omap_get known_fields k of
        None \<Rightarrow> base_stable_loop ordinal items (omap_put k v known_fields) out
      | Some w \<Rightarrow>
          base_stable_loop ordinal items known_fields
            (if stream_value_equal w v then out
             else out @ [\<lparr>bm_ordinal = ordinal, bm_field = k, bm_expected = w, bm_actual = v\<rparr>]))"

definition packet_channel :: "stream_config \<Rightarrow> bool \<Rightarrow> stream_value \<Rightarrow> stream_value \<Rightarrow> stream_value" where
  "packet_channel config eop channel old =
     (let c1 = (if cf_channel_id_valid config = ''eop'' \<and> eop then channel else old)
      in if cf_channel_id_valid config = ''every_beat'' \<and> sv_bits c1 = [] then channel else c1)"

definition base_append_packet ::
  "stream_config \<Rightarrow> string option \<Rightarrow> nat \<Rightarrow> bool \<Rightarrow> stream_value \<Rightarrow> field_values \<Rightarrow> packet_build \<Rightarrow> packet_build" where
  "base_append_packet config slot ordinal eop channel stables b =
     (let s = build_state slot b;
          (known_fields, found) = base_stable_loop ordinal stables (pk_stable s) []
      in (set_build_state slot (s\<lparr>pk_stable := known_fields\<rparr>) b)
           \<lparr>pb_packets := at_index (pk_index s)
              (\<lambda>p. p\<lparr>bp_ordinals := bp_ordinals p @ [ordinal],
                      bp_channel := packet_channel config eop channel (bp_channel p),
                      bp_mismatches := bp_mismatches p @ found\<rparr>) (pb_packets b)\<rparr>)"

definition interleave_error :: string where
  "interleave_error = ''interleaved packet stream requires known channel_id on every transfer''"

definition channel_change_error :: string where
  "channel_change_error = ''non-interleaved packet channel_id changed within a packet''"

text \<open>A transfer of a packet stream.\<close>

definition packet_slot :: "stream_config \<Rightarrow> stream_value \<Rightarrow> string option" where
  "packet_slot config channel = (if cf_allow_interleaving config then Some (stream_value_key channel) else None)"

definition packet_error :: "stream_config \<Rightarrow> stream_value \<Rightarrow> bool \<Rightarrow> stream_value \<Rightarrow> string option" where
  "packet_error config channel active open_channel =
     (if cf_allow_interleaving config then
        if sv_bits channel = [] \<or> stream_value_has_xz channel then Some interleave_error else None
      else if cf_channel_id_valid config = ''every_beat'' \<and> active \<and> sv_bits open_channel \<noteq> [] \<and>
              \<not> stream_value_equal open_channel channel then Some channel_change_error else None)"

definition base_packet_step ::
  "stream_config \<Rightarrow> sample_metadata \<Rightarrow> nat \<Rightarrow> field_values \<Rightarrow> stream_value \<Rightarrow> packet_build \<Rightarrow> string + packet_build" where
  "base_packet_step config md ordinal stables channel b =
     (let single = pb_single b in
      case packet_error config channel (pk_active single)
             (if pk_index single < length (pb_packets b) then bp_channel (pb_packets b ! pk_index single) else no_value) of
        Some err \<Rightarrow> Inl err
      | None \<Rightarrow>
          let slot = packet_slot config channel;
              b1 = (if md_sop md then base_start_packet config slot stables channel False b
                    else if \<not> pk_active (build_state slot b) \<and> md_eop md
                    then base_start_packet config slot stables channel True b else b)
          in Inr (if pk_active (build_state slot b1)
                  then (let b2 = base_append_packet config slot ordinal (md_eop md) channel stables b1
                        in if md_eop md then base_finish_packet slot False b2 else b2)
                  else b1))"

section \<open>Building the base analysis\<close>

definition push_columns ::
  "string list \<Rightarrow> field_values \<Rightarrow> (string, stream_value list) omap \<Rightarrow> (string, stream_value list) omap" where
  "push_columns schema vals columns =
     fold (\<lambda>name m. omap_put name
             ((case omap_get m name of None \<Rightarrow> [] | Some column \<Rightarrow> column) @
              [case omap_get vals name of None \<Rightarrow> no_value | Some v \<Rightarrow> v]) m) schema columns"

record stream_build =
  sd_base :: stream_base
  sd_single :: packet_state
  sd_channels :: "(string, packet_state) omap"
  sd_repository :: "stream_base repository"
  sd_cache_error :: cache_error
  sd_budget_failed :: bool

text \<open>What a sample adds to the base analysis, the size report apart.\<close>

definition add_sample :: "stream_config \<Rightarrow> sample_view \<Rightarrow> stream_build \<Rightarrow> string + stream_build" where
  "add_sample config vw bs =
     (let base = sd_base bs; md = vw_metadata vw;
          base1 = base\<lparr>sb_scanned_begin := (if sb_has_samples base then sb_scanned_begin base else md_time md),
                       sb_has_samples := True, sb_scanned_end := md_time md\<rparr>
      in if \<not> md_transfer md then Inr (bs\<lparr>sd_base := base1\<lparr>sb_samples := sb_samples base1 @ [md]\<rparr>\<rparr>)
         else
           let ordinal = length (sb_transfer_ids base1);
               md1 = md\<lparr>md_ordinal := int ordinal\<rparr>;
               base2 = base1\<lparr>sb_transfer_ids := sb_transfer_ids base1 @ [length (sb_samples base1)],
                             sb_field_columns := push_columns (sb_field_schema base1) (vw_fields vw) (sb_field_columns base1),
                             sb_stable_columns := push_columns (sb_stable_schema base1) (vw_stable vw) (sb_stable_columns base1),
                             sb_channels := sb_channels base1 @ [vw_channel vw]\<rparr>
           in and_then
                (if stream_packet_enabled config
                 then base_packet_step config md1 ordinal (vw_stable vw) (vw_channel vw)
                        \<lparr>pb_packets = sb_packets base2, pb_single = sd_single bs, pb_channels = sd_channels bs\<rparr>
                 else Inr \<lparr>pb_packets = sb_packets base2, pb_single = sd_single bs, pb_channels = sd_channels bs\<rparr>) (\<lambda>b.
              Inr (bs\<lparr>sd_base := base2\<lparr>sb_packets := pb_packets b, sb_samples := sb_samples base2 @ [md1]\<rparr>,
                      sd_single := pb_single b, sd_channels := pb_channels b\<rparr>)))"

definition power_of_two :: "nat \<Rightarrow> bool" where
  "power_of_two n \<longleftrightarrow> and n (n - 1) = 0"

text \<open>
  The callback of the scan: the sample is added, and the size reported to the cache at every power of
  two of samples.
\<close>

definition build_callback ::
  "(stream_base \<Rightarrow> nat) \<Rightarrow> cache_key option \<Rightarrow> compiled \<Rightarrow> stream_config \<Rightarrow> stream_build sample_callback" where
  "build_callback estimate build_key c config sample err bs =
     (case and_then (eval_sample c config sample) (\<lambda>vw. add_sample config vw bs) of
        Inl msg \<Rightarrow> (False, msg, bs)
      | Inr bs1 \<Rightarrow>
          (case build_key of None \<Rightarrow> (True, err, bs1)
           | Some key \<Rightarrow>
               if \<not> power_of_two (length (sb_samples (sd_base bs1))) then (True, err, bs1)
               else case update_canonical_build_bytes key (estimate (sd_base bs1)) (sd_cache_error bs1) (sd_repository bs1) of
                      (ok, cerr, r) \<Rightarrow>
                        let bs2 = bs1\<lparr>sd_repository := r, sd_cache_error := cerr\<rparr>
                        in if ok then (True, err, bs2)
                           else (False, ce_message cerr, bs2\<lparr>sd_budget_failed := True\<rparr>)))"

definition clock_eval_of :: "compiled \<Rightarrow> clock_eval" where
  "clock_eval_of c raw_values =
     (case List.find (\<lambda>s. omap_get raw_values s = None) (se_signals (cp_clock c)) of
        Some s \<Rightarrow> Inl (''clock dependency missing: '' @ s)
      | None \<Rightarrow>
          (case stream_evaluate (cp_clock c)
                  (map_of (map (\<lambda>s. (s, raw_value (the (omap_get raw_values s)))) (se_signals (cp_clock c)))) [] of
             (Some v, err) \<Rightarrow>
               if err = [] then Inr (sv_known v, stream_value_truthy v False)
               else Inl (''clock evaluate failed: '' @ err)
           | (None, err) \<Rightarrow> Inl (''clock evaluate failed: '' @ err)))"

text \<open>The signals of the given dependencies, with their handles.\<close>

fun dep_signals ::
  "'h fsdb \<Rightarrow> string \<Rightarrow> compiled \<Rightarrow> string list \<Rightarrow> string + 'h sample_signal list" where
  "dep_signals f kind c [] = Inr []"
| "dep_signals f kind c (sig # sigs) =
     (case omap_get (cp_dep_paths c) sig of
        None \<Rightarrow> Inl (kind @ '' dependency alias missing from stream signals: '' @ sig)
      | Some path \<Rightarrow>
          (case sig_by_name f path of
             None \<Rightarrow> Inl (''signal not found for alias '' @ sig @ '': '' @ path)
           | Some h \<Rightarrow>
               and_then (dep_signals f kind c sigs) (\<lambda>signals.
               Inr (\<lparr>sg_alias = sig, sg_path = path, sg_handle = Some h\<rparr> # signals))))"

definition field_schema_of :: "stream_config \<Rightarrow> string list" where
  "field_schema_of config =
     (let first = (if cf_data config \<noteq> [] then [''data''] else [])
      in fold (\<lambda>name names. if name \<in> set names then names else names @ [name]) (map fst (cf_beat_fields config)) first)"

definition empty_columns :: "string list \<Rightarrow> (string, stream_value list) omap" where
  "empty_columns names = fold (\<lambda>name m. omap_put name [] m) names []"

definition empty_base :: "stream_config \<Rightarrow> nat \<Rightarrow> nat \<Rightarrow> stream_base" where
  "empty_base config b e =
     \<lparr>sb_samples = [], sb_transfer_ids = [], sb_field_schema = field_schema_of config,
      sb_stable_schema = map fst (cf_packet_stable_fields config),
      sb_field_columns = empty_columns (field_schema_of config),
      sb_stable_columns = empty_columns (map fst (cf_packet_stable_fields config)),
      sb_channels = [], sb_packets = [], sb_complete = True, sb_requested_begin = b, sb_requested_end = e,
      sb_scanned_begin = 0, sb_scanned_end = 0, sb_has_samples = False\<rparr>"

definition start_build :: "stream_config \<Rightarrow> nat \<Rightarrow> nat \<Rightarrow> cache_error \<Rightarrow> stream_base repository \<Rightarrow> stream_build" where
  "start_build config b e cerr r =
     \<lparr>sd_base = empty_base config b e, sd_single = idle_packet, sd_channels = [], sd_repository = r,
      sd_cache_error = cerr, sd_budget_failed = False\<rparr>"

text \<open>The packets still open at the end of the scan end partially, the single one first, then the channels in order.\<close>

definition close_packets :: "packet_build \<Rightarrow> packet_build" where
  "close_packets b =
     fold (\<lambda>key. base_finish_packet (Some key) True) (map fst (pb_channels b)) (base_finish_packet None True b)"

definition finished_base :: "bool \<Rightarrow> stream_build \<Rightarrow> stream_base" where
  "finished_base truncated bs =
     (sd_base bs)\<lparr>sb_packets := pb_packets (close_packets
        \<lparr>pb_packets = sb_packets (sd_base bs), pb_single = sd_single bs, pb_channels = sd_channels bs\<rparr>),
        sb_complete := \<not> truncated\<rparr>"

text \<open>What a build prepares: the compiled expressions, the clock's signals and the sampled signals.\<close>

definition build_setup ::
  "'h fsdb \<Rightarrow> stream_config \<Rightarrow> string + compiled \<times> 'h sample_signal list \<times> 'h sample_signal list" where
  "build_setup f config =
     and_then (compile_stream f config) (\<lambda>c.
     and_then (require (se_signals (cp_clock c) \<noteq> []) ''clock expression has no signal dependency'') (\<lambda>_.
     and_then (dep_signals f ''clock'' c (se_signals (cp_clock c))) (\<lambda>clock_signals.
     and_then (dep_signals f ''sample'' c (cp_deps c)) (\<lambda>sample_signals.
     Inr (c, clock_signals, sample_signals)))))"

text \<open>\<open>build_base\<close>: the result, and the error and state of the cache the build leaves.\<close>

definition build_base ::
  "(stream_base \<Rightarrow> nat) \<Rightarrow> 'h fsdb \<Rightarrow> stream_config \<Rightarrow> nat \<Rightarrow> nat \<Rightarrow> cache_key option \<Rightarrow> cache_error \<Rightarrow>
   stream_base repository \<Rightarrow> (string + stream_base) \<times> cache_error \<times> stream_base repository" where
  "build_base estimate f config b e build_key cerr r =
     (case build_setup f config of
        Inl msg \<Rightarrow> (Inl msg, cerr, r)
      | Inr (c, clock_signals, sample_signals) \<Rightarrow>
          (case expression_scanner_scan f (ck_edge (cf_clock_sample config)) (ck_point (cf_clock_sample config))
                  clock_signals sample_signals b e (CHR ''b'') (- 1) (clock_eval_of c)
                  (build_callback estimate build_key c config) [] (start_build config b e cerr r) of
             (res, bs) \<Rightarrow>
               (if sd_budget_failed bs \<or> \<not> sr_ok res then Inl (sr_error res)
                else Inr (finished_base (sr_truncated res) bs),
                sd_cache_error bs, sd_repository bs)))"

end
