(* ===== verification/Stream_View.thy ===== *)
theory Stream_View
  imports Stream_Base
begin

text \<open>
  The analysis of a stream, second part: the query view, which answers a request from a base analysis.
  It walks the samples of the requested range and collects transfers, packets, stall windows and
  counters, with the filters and limits of the request.
\<close>

section \<open>Rows, packets and answers\<close>

record stream_row =
  rw_cycle :: nat
  rw_time :: nat
  rw_reset :: bool
  rw_vld :: bool
  rw_rdy :: bool
  rw_bp :: bool
  rw_sop :: bool
  rw_eop :: bool
  rw_transfer :: bool
  rw_stall :: bool
  rw_stall_reason :: string
  rw_packet_index :: int
  rw_beat_index :: nat
  rw_fields :: field_values
  rw_stable :: field_values
  rw_channel :: stream_value
  rw_control_xz :: nat
  rw_data_xz :: nat

definition default_row :: stream_row where
  "default_row =
     \<lparr>rw_cycle = 0, rw_time = 0, rw_reset = False, rw_vld = False, rw_rdy = True, rw_bp = False, rw_sop = False,
      rw_eop = False, rw_transfer = False, rw_stall = False, rw_stall_reason = [], rw_packet_index = - 1,
      rw_beat_index = 0, rw_fields = [], rw_stable = [], rw_channel = no_value, rw_control_xz = 0, rw_data_xz = 0\<rparr>"

record stream_beat =
  bt_cycle :: nat
  bt_time :: nat
  bt_index :: nat
  bt_fields :: field_values

record stable_mismatch =
  mm_field :: string
  mm_cycle :: nat
  mm_time :: nat
  mm_expected :: stream_value
  mm_actual :: stream_value

record stream_packet =
  sp_index :: nat
  sp_start_cycle :: nat
  sp_end_cycle :: nat
  sp_start_time :: nat
  sp_end_time :: nat
  sp_beat_count :: nat
  sp_partial_begin :: bool
  sp_partial_end :: bool
  sp_channel :: stream_value
  sp_stable :: field_values
  sp_mismatches :: "stable_mismatch list"
  sp_beats :: "stream_beat list"
  sp_first_fields :: field_values
  sp_last_fields :: field_values
  sp_first_filter :: field_values
  sp_last_filter :: field_values

definition default_packet :: stream_packet where
  "default_packet =
     \<lparr>sp_index = 0, sp_start_cycle = 0, sp_end_cycle = 0, sp_start_time = 0, sp_end_time = 0, sp_beat_count = 0,
      sp_partial_begin = False, sp_partial_end = False, sp_channel = no_value, sp_stable = [], sp_mismatches = [],
      sp_beats = [], sp_first_fields = [], sp_last_fields = [], sp_first_filter = [], sp_last_filter = []\<rparr>"

record stall_window =
  sw_start_cycle :: nat
  sw_end_cycle :: nat
  sw_start_time :: nat
  sw_end_time :: nat
  sw_cycles :: nat
  sw_reason :: string

record stream_analysis =
  an_transfers :: "stream_row list"
  an_first_transfer :: stream_row
  an_last_transfer :: stream_row
  an_has_evidence :: bool
  an_stalls :: "stall_window list"
  an_packets :: "stream_packet list"
  an_clock_edges :: nat
  an_vld_cycles :: nat
  an_transfer_count :: nat
  an_stall_cycles :: nat
  an_complete_packets :: nat
  an_partial_packets :: nat
  an_control_xz :: nat
  an_data_xz :: nat
  an_conflicts :: nat
  an_mismatch_count :: nat
  an_matched_transfers :: nat
  an_matched_packets :: nat
  an_unresolved :: nat
  an_first_matched :: stream_packet
  an_last_matched :: stream_packet
  an_has_matched :: bool
  an_truncated :: bool
  an_complete :: bool
  an_requested_begin :: nat
  an_requested_end :: nat
  an_scanned_begin :: nat
  an_scanned_end :: nat
  an_has_samples :: bool

definition default_analysis :: stream_analysis where
  "default_analysis =
     \<lparr>an_transfers = [], an_first_transfer = default_row, an_last_transfer = default_row, an_has_evidence = False,
      an_stalls = [], an_packets = [], an_clock_edges = 0, an_vld_cycles = 0, an_transfer_count = 0,
      an_stall_cycles = 0, an_complete_packets = 0, an_partial_packets = 0, an_control_xz = 0, an_data_xz = 0,
      an_conflicts = 0, an_mismatch_count = 0, an_matched_transfers = 0, an_matched_packets = 0, an_unresolved = 0,
      an_first_matched = default_packet, an_last_matched = default_packet, an_has_matched = False,
      an_truncated = False, an_complete = True, an_requested_begin = 0, an_requested_end = 0,
      an_scanned_begin = 0, an_scanned_end = 0, an_has_samples = False\<rparr>"

record stream_filter =
  fl_enabled :: bool
  fl_position :: string
  fl_fields :: "(string, value_filter) omap"

record query_options =
  qo_begin :: nat
  qo_end :: nat
  qo_limit :: int
  qo_retain_limit :: int
  qo_channel_filter :: string
  qo_filter :: stream_filter
  qo_query_kind :: string
  qo_packet_index :: int

section \<open>Filters\<close>

text \<open>A user's channel number; up to 63 bits do not overflow the 64-bit accumulator.\<close>

definition parse_user_u64 :: "string \<Rightarrow> string + nat" where
  "parse_user_u64 text =
     (let literal = parse_user_logic_literal text in
      if \<not> lv_valid literal then Inl (lv_error literal)
      else if logic_value_has_xz literal \<or> length (lv_bits literal) > 63
      then Inl (''match value must be a known literal up to 63 bits: '' @ text)
      else Inr (foldl (\<lambda>out c. 2 * out + (if c = CHR ''1'' then 1 else 0)) 0 (lv_bits literal)))"

definition value_u64 :: "stream_value \<Rightarrow> nat option" where
  "value_u64 v =
     (if \<not> sv_known v \<or> length (sv_bits v) > 63 \<or> list_ex (\<lambda>c. c \<noteq> CHR ''0'' \<and> c \<noteq> CHR ''1'') (sv_bits v) then None
      else Some (foldl (\<lambda>out c. 2 * out + (if c = CHR ''1'' then 1 else 0)) 0 (sv_bits v)))"

fun match_filter_loop :: "(string, value_filter) omap \<Rightarrow> field_values \<Rightarrow> filter_match \<Rightarrow> filter_match" where
  "match_filter_loop [] vals combined = combined"
| "match_filter_loop ((k, flt) # filters) vals combined =
     (case omap_get vals k of
        None \<Rightarrow> match_filter_loop filters vals (value_filter_and combined Unresolved)
      | Some v \<Rightarrow>
          let combined' = value_filter_and combined
                (match_value_filter flt (logic_value_from_bits (sv_bits v) (int (length (sv_bits v)))))
          in if combined' = No then No else match_filter_loop filters vals combined')"

definition match_filter_fields :: "field_values \<Rightarrow> stream_filter \<Rightarrow> filter_match" where
  "match_filter_fields vals flt = match_filter_loop (fl_fields flt) vals Yes"

definition filter_view :: "stream_row \<Rightarrow> field_values" where
  "filter_view row =
     fold (\<lambda>(k, v) m. if omap_get m k = None then omap_put k v m else m) (rw_stable row) (rw_fields row)"

section \<open>The rows of a base analysis\<close>

definition column_values :: "string list \<Rightarrow> (string, stream_value list) omap \<Rightarrow> nat \<Rightarrow> field_values" where
  "column_values schema columns ordinal =
     fold (\<lambda>name m. case omap_get columns name of
                        None \<Rightarrow> m
                      | Some column \<Rightarrow> if ordinal < length column then omap_put name (column ! ordinal) m else m)
       schema []"

definition metadata_row :: "sample_metadata \<Rightarrow> nat \<Rightarrow> stream_row" where
  "metadata_row md cycle =
     default_row\<lparr>rw_cycle := cycle, rw_time := md_time md, rw_reset := md_reset md, rw_vld := md_vld md,
       rw_rdy := md_rdy md, rw_bp := md_bp md, rw_sop := md_sop md, rw_eop := md_eop md,
       rw_transfer := md_transfer md, rw_stall := md_stall md, rw_stall_reason := md_stall_reason md,
       rw_control_xz := md_control_xz md, rw_data_xz := md_data_xz md\<rparr>"

definition transfer_row :: "stream_base \<Rightarrow> nat \<Rightarrow> nat \<Rightarrow> stream_row" where
  "transfer_row base sample_id cycle =
     (if length (sb_samples base) \<le> sample_id then default_row
      else let md = sb_samples base ! sample_id; row = metadata_row md cycle in
        if md_ordinal md < 0 then row
        else let ordinal = nat (md_ordinal md) in
          row\<lparr>rw_fields := column_values (sb_field_schema base) (sb_field_columns base) ordinal,
              rw_stable := column_values (sb_stable_schema base) (sb_stable_columns base) ordinal,
              rw_channel := (if ordinal < length (sb_channels base) then sb_channels base ! ordinal else rw_channel row)\<rparr>)"

section \<open>The walk\<close>

record view_packet =
  vp_active :: bool
  vp_packet :: stream_packet

definition no_packet :: view_packet where
  "no_packet = \<lparr>vp_active = False, vp_packet = default_packet\<rparr>"

record view_state =
  vs_analysis :: stream_analysis
  vs_packet_index :: nat
  vs_stall :: stall_window
  vs_in_stall :: bool
  vs_single :: view_packet
  vs_channels :: "(string, view_packet) omap"

definition no_stall :: stall_window where
  "no_stall = \<lparr>sw_start_cycle = 0, sw_end_cycle = 0, sw_start_time = 0, sw_end_time = 0, sw_cycles = 0, sw_reason = []\<rparr>"

definition on_analysis :: "(stream_analysis \<Rightarrow> stream_analysis) \<Rightarrow> view_state \<Rightarrow> view_state" where
  "on_analysis g vs = vs\<lparr>vs_analysis := g (vs_analysis vs)\<rparr>"

definition finish_stall :: "nat \<Rightarrow> nat \<Rightarrow> view_state \<Rightarrow> view_state" where
  "finish_stall end_time end_cycle vs =
     (if \<not> vs_in_stall vs then vs
      else let w = (vs_stall vs)\<lparr>sw_end_time := end_time, sw_end_cycle := end_cycle\<rparr>
           in (on_analysis (\<lambda>a. a\<lparr>an_stalls := an_stalls a @ [w]\<rparr>) vs)\<lparr>vs_stall := w, vs_in_stall := False\<rparr>)"

definition view_slot :: "string option \<Rightarrow> view_state \<Rightarrow> view_packet" where
  "view_slot slot vs =
     (case slot of None \<Rightarrow> vs_single vs
      | Some key \<Rightarrow> (case omap_get (vs_channels vs) key of None \<Rightarrow> no_packet | Some p \<Rightarrow> p))"

definition set_view_slot :: "string option \<Rightarrow> view_packet \<Rightarrow> view_state \<Rightarrow> view_state" where
  "set_view_slot slot p vs =
     (case slot of None \<Rightarrow> vs\<lparr>vs_single := p\<rparr> | Some key \<Rightarrow> vs\<lparr>vs_channels := omap_put key p (vs_channels vs)\<rparr>)"

definition effective_limit :: "query_options \<Rightarrow> int" where
  "effective_limit opts = (if qo_retain_limit opts = 0 then qo_limit opts else qo_retain_limit opts)"

definition below_limit :: "query_options \<Rightarrow> 'a list \<Rightarrow> bool" where
  "below_limit opts xs \<longleftrightarrow> effective_limit opts \<le> 0 \<or> int (length xs) < effective_limit opts"

text \<open>The filter on a finished packet: the channel, then the fields of its first or last beat.\<close>

definition channel_matches :: "nat option \<Rightarrow> stream_value \<Rightarrow> bool" where
  "channel_matches wanted v = (case wanted of None \<Rightarrow> True | Some n \<Rightarrow> value_u64 v = Some n)"

definition packet_filter :: "query_options \<Rightarrow> nat option \<Rightarrow> stream_packet \<Rightarrow> filter_match" where
  "packet_filter opts wanted p =
     (if \<not> channel_matches wanted (sp_channel p) then No
      else if (fl_position (qo_filter opts) = ''sop'' \<and> sp_partial_begin p) \<or>
              (fl_position (qo_filter opts) = ''eop'' \<and> sp_partial_end p) then Unresolved
      else match_filter_fields (if fl_position (qo_filter opts) = ''sop'' then sp_first_filter p else sp_last_filter p)
             (qo_filter opts))"

definition count_matched :: "filter_match \<Rightarrow> stream_packet \<Rightarrow> stream_analysis \<Rightarrow> stream_analysis" where
  "count_matched result p a =
     (let a1 = (if result = Unresolved then a\<lparr>an_unresolved := an_unresolved a + 1\<rparr> else a)
      in if result = Yes
         then a1\<lparr>an_matched_packets := an_matched_packets a1 + 1,
                 an_first_matched := (if an_has_matched a1 then an_first_matched a1 else p),
                 an_has_matched := True, an_last_matched := p\<rparr>
         else a1)"

definition retain_packet :: "query_options \<Rightarrow> stream_packet \<Rightarrow> stream_analysis \<Rightarrow> stream_analysis" where
  "retain_packet opts p a =
     (if fl_enabled (qo_filter opts) \<and> below_limit opts (an_packets a) then a\<lparr>an_packets := an_packets a @ [p]\<rparr>
      else if fl_enabled (qo_filter opts) then a\<lparr>an_truncated := True\<rparr>
      else if qo_query_kind opts = [] then a\<lparr>an_packets := an_packets a @ [p]\<rparr>
      else if qo_query_kind opts = ''first_packet''
      then (if an_packets a = [] then a\<lparr>an_packets := [p]\<rparr> else a)
      else if qo_query_kind opts = ''last_packet''
      then (if an_packets a = [] then a\<lparr>an_packets := [p]\<rparr> else a\<lparr>an_packets := p # tl (an_packets a)\<rparr>)
      else if qo_query_kind opts = ''packet_at''
      then (if int (sp_index p) = qo_packet_index opts then a\<lparr>an_packets := an_packets a @ [p]\<rparr> else a)
      else if qo_query_kind opts = ''packet_window'' \<and> below_limit opts (an_packets a)
      then a\<lparr>an_packets := an_packets a @ [p]\<rparr>
      else a)"

definition close_packet :: "query_options \<Rightarrow> nat option \<Rightarrow> stream_packet \<Rightarrow> stream_analysis \<Rightarrow> stream_analysis" where
  "close_packet opts wanted p a =
     (let a1 = a\<lparr>an_mismatch_count := an_mismatch_count a + length (sp_mismatches p)\<rparr>;
          a2 = (if sp_partial_begin p \<or> sp_partial_end p
                then a1\<lparr>an_partial_packets := an_partial_packets a1 + 1\<rparr>
                else a1\<lparr>an_complete_packets := an_complete_packets a1 + 1\<rparr>)
      in if fl_enabled (qo_filter opts)
         then (let result = packet_filter opts wanted p; a3 = count_matched result p a2
               in if result = Yes then retain_packet opts p a3 else a3)
         else retain_packet opts p a2)"

definition view_finish_packet ::
  "query_options \<Rightarrow> nat option \<Rightarrow> string option \<Rightarrow> bool \<Rightarrow> view_state \<Rightarrow> view_state" where
  "view_finish_packet opts wanted slot partial_end vs =
     (let s = view_slot slot vs in
      if \<not> vp_active s then vs
      else set_view_slot slot no_packet
             (on_analysis (close_packet opts wanted ((vp_packet s)\<lparr>sp_partial_end := partial_end\<rparr>)) vs))"

definition view_start_packet ::
  "stream_config \<Rightarrow> query_options \<Rightarrow> nat option \<Rightarrow> string option \<Rightarrow> stream_row \<Rightarrow> bool \<Rightarrow> view_state \<Rightarrow> view_state" where
  "view_start_packet config opts wanted slot row partial_begin vs =
     (let vs1 = (if vp_active (view_slot slot vs) then view_finish_packet opts wanted slot True vs else vs);
          keep = (cf_channel_id_valid config = ''sop'' \<or> cf_channel_id_valid config = ''every_beat'')
      in (set_view_slot slot
            \<lparr>vp_active = True, vp_packet = default_packet\<lparr>sp_index := vs_packet_index vs1,
               sp_start_cycle := rw_cycle row, sp_end_cycle := rw_cycle row, sp_start_time := rw_time row,
               sp_end_time := rw_time row, sp_partial_begin := partial_begin, sp_stable := rw_stable row,
               sp_channel := (if keep then rw_channel row else no_value)\<rparr>\<rparr> vs1)
           \<lparr>vs_packet_index := vs_packet_index vs1 + 1\<rparr>)"

fun view_stable_loop ::
  "nat \<Rightarrow> nat \<Rightarrow> field_values \<Rightarrow> field_values \<Rightarrow> stable_mismatch list \<Rightarrow> field_values \<times> stable_mismatch list" where
  "view_stable_loop cycle t [] known_fields out = (known_fields, out)"
| "view_stable_loop cycle t ((k, v) # items) known_fields out =
     (case omap_get known_fields k of
        None \<Rightarrow> view_stable_loop cycle t items (omap_put k v known_fields) out
      | Some w \<Rightarrow>
          view_stable_loop cycle t items known_fields
            (if stream_value_equal w v then out
             else out @ [\<lparr>mm_field = k, mm_cycle = cycle, mm_time = t, mm_expected = w, mm_actual = v\<rparr>]))"

definition append_beat :: "stream_config \<Rightarrow> stream_row \<Rightarrow> stream_packet \<Rightarrow> stream_packet" where
  "append_beat config row p =
     (let (known_fields, found) = view_stable_loop (rw_cycle row) (rw_time row) (rw_stable row) (sp_stable p) []
      in p\<lparr>sp_end_cycle := rw_cycle row, sp_end_time := rw_time row, sp_beat_count := sp_beat_count p + 1,
           sp_first_fields := (if sp_first_fields p = [] then rw_fields row else sp_first_fields p),
           sp_last_fields := rw_fields row,
           sp_first_filter := (if sp_first_filter p = [] then filter_view row else sp_first_filter p),
           sp_last_filter := filter_view row,
           sp_channel := packet_channel config (rw_eop row) (rw_channel row) (sp_channel p),
           sp_stable := known_fields, sp_mismatches := sp_mismatches p @ found,
           sp_beats := sp_beats p @ [\<lparr>bt_cycle = rw_cycle row, bt_time = rw_time row, bt_index = sp_beat_count p,
                                      bt_fields = rw_fields row\<rparr>]\<rparr>)"

text \<open>The row gets the packet's number and its place in it; then the packet gets the beat.\<close>

definition append_packet_beat ::
  "stream_config \<Rightarrow> string option \<Rightarrow> stream_row \<Rightarrow> view_state \<Rightarrow> stream_row \<times> view_state" where
  "append_packet_beat config slot row vs =
     (let s = view_slot slot vs; p = vp_packet s;
          row1 = row\<lparr>rw_packet_index := int (sp_index p), rw_beat_index := sp_beat_count p\<rparr>
      in (row1, set_view_slot slot (s\<lparr>vp_packet := append_beat config row1 p\<rparr>) vs))"

definition view_packet_step ::
  "stream_config \<Rightarrow> query_options \<Rightarrow> nat option \<Rightarrow> stream_row \<Rightarrow> view_state \<Rightarrow> string + stream_row \<times> view_state" where
  "view_packet_step config opts wanted row vs =
     (case packet_error config (rw_channel row) (vp_active (vs_single vs)) (sp_channel (vp_packet (vs_single vs))) of
        Some err \<Rightarrow> Inl err
      | None \<Rightarrow>
          let slot = packet_slot config (rw_channel row);
              vs1 = (if rw_sop row then view_start_packet config opts wanted slot row False vs
                     else if \<not> vp_active (view_slot slot vs) \<and> rw_eop row
                     then view_start_packet config opts wanted slot row True vs else vs)
          in Inr (if vp_active (view_slot slot vs1)
                  then (case append_packet_beat config slot row vs1 of
                          (row1, vs2) \<Rightarrow> (row1, if rw_eop row then view_finish_packet opts wanted slot False vs2 else vs2))
                  else (row, vs1)))"

text \<open>The counters of a sample.\<close>

definition count_sample :: "stream_config \<Rightarrow> sample_metadata \<Rightarrow> stream_analysis \<Rightarrow> stream_analysis" where
  "count_sample config md a =
     a\<lparr>an_scanned_begin := (if an_has_samples a then an_scanned_begin a else md_time md), an_has_samples := True,
       an_scanned_end := md_time md, an_clock_edges := an_clock_edges a + 1,
       an_vld_cycles := an_vld_cycles a + (if md_vld md then 1 else 0),
       an_stall_cycles := an_stall_cycles a + (if md_stall md then 1 else 0),
       an_conflicts := an_conflicts a +
         (if md_vld md \<and> md_rdy md \<and> md_bp md \<and> cf_rdy config \<noteq> [] \<and> cf_bp config \<noteq> [] then 1 else 0),
       an_control_xz := an_control_xz a + md_control_xz md, an_data_xz := an_data_xz a + md_data_xz md\<rparr>"

definition stall_step :: "sample_metadata \<Rightarrow> nat \<Rightarrow> view_state \<Rightarrow> view_state" where
  "stall_step md cycle vs =
     (if md_stall md
      then (let w = (if vs_in_stall vs then vs_stall vs
                     else no_stall\<lparr>sw_start_cycle := cycle, sw_start_time := md_time md, sw_reason := md_stall_reason md\<rparr>)
            in vs\<lparr>vs_in_stall := True, vs_stall := w\<lparr>sw_cycles := sw_cycles w + 1\<rparr>\<rparr>)
      else finish_stall (md_time md) cycle vs)"

text \<open>Keeping a transfer: the evidence of the first and last, and the rows up to the limit.\<close>

definition retain_transfer :: "query_options \<Rightarrow> stream_row \<Rightarrow> stream_analysis \<Rightarrow> stream_analysis" where
  "retain_transfer opts row a =
     (let a1 = a\<lparr>an_first_transfer := (if an_has_evidence a then an_first_transfer a else row),
                 an_has_evidence := True, an_last_transfer := row\<rparr>
      in if below_limit opts (an_transfers a1) then a1\<lparr>an_transfers := an_transfers a1 @ [row]\<rparr>
         else a1\<lparr>an_truncated := True\<rparr>)"

definition select_transfer ::
  "stream_config \<Rightarrow> query_options \<Rightarrow> nat option \<Rightarrow> stream_row \<Rightarrow> stream_analysis \<Rightarrow> stream_analysis" where
  "select_transfer config opts wanted row a =
     (let channel_ok = channel_matches wanted (rw_channel row);
          filtering = (fl_enabled (qo_filter opts) \<and> \<not> stream_packet_enabled config);
          result = (if channel_ok then match_filter_fields (filter_view row) (qo_filter opts) else No);
          a1 = (if filtering
                then a\<lparr>an_unresolved := an_unresolved a + (if result = Unresolved then 1 else 0),
                       an_matched_transfers := an_matched_transfers a + (if result = Yes then 1 else 0)\<rparr>
                else a);
          selected = (if filtering then result = Yes else channel_ok)
      in if selected \<and> (\<not> fl_enabled (qo_filter opts) \<or> \<not> stream_packet_enabled config)
         then retain_transfer opts row a1 else a1)"

definition transfer_step ::
  "stream_config \<Rightarrow> query_options \<Rightarrow> nat option \<Rightarrow> stream_row \<Rightarrow> view_state \<Rightarrow> string + view_state" where
  "transfer_step config opts wanted row vs =
     (let vs1 = on_analysis (\<lambda>a. a\<lparr>an_transfer_count := an_transfer_count a + 1\<rparr>) vs in
      and_then (if stream_packet_enabled config then view_packet_step config opts wanted row vs1 else Inr (row, vs1))
        (\<lambda>(row1, vs2). Inr (on_analysis (select_transfer config opts wanted row1) vs2)))"

text \<open>A sample, with its row should it be a transfer.\<close>

definition view_step ::
  "stream_config \<Rightarrow> query_options \<Rightarrow> nat option \<Rightarrow> nat \<Rightarrow> sample_metadata \<Rightarrow> stream_row \<Rightarrow> view_state \<Rightarrow> string + view_state" where
  "view_step config opts wanted cycle md row vs =
     (let vs1 = stall_step md cycle (on_analysis (count_sample config md) vs)
      in if md_transfer md then transfer_step config opts wanted row vs1 else Inr vs1)"

fun view_loop ::
  "stream_config \<Rightarrow> query_options \<Rightarrow> nat option \<Rightarrow> stream_base \<Rightarrow> nat \<Rightarrow> nat list \<Rightarrow> view_state \<Rightarrow> string + view_state" where
  "view_loop config opts wanted base cycle [] vs = Inr vs"
| "view_loop config opts wanted base cycle (sample_id # ids) vs =
     and_then (view_step config opts wanted cycle (sb_samples base ! sample_id) (transfer_row base sample_id cycle) vs)
       (view_loop config opts wanted base (cycle + 1) ids)"

text \<open>
  \<open>std::lower_bound\<close> and \<open>std::upper_bound\<close> on the samples, which are in increasing order of time: the
  number of samples before the range and the number not after it.
\<close>

definition begin_index :: "stream_base \<Rightarrow> nat \<Rightarrow> nat" where
  "begin_index base t = length (takeWhile (\<lambda>md. md_time md < t) (sb_samples base))"

definition end_index :: "stream_base \<Rightarrow> nat \<Rightarrow> nat" where
  "end_index base t = length (takeWhile (\<lambda>md. md_time md \<le> t) (sb_samples base))"

definition start_view :: "query_options \<Rightarrow> bool \<Rightarrow> view_state" where
  "start_view opts whole =
     \<lparr>vs_analysis = default_analysis\<lparr>an_requested_begin := qo_begin opts, an_requested_end := qo_end opts,
                      an_complete := whole\<rparr>,
      vs_packet_index = 0, vs_stall = no_stall, vs_in_stall = False, vs_single = no_packet, vs_channels = []\<rparr>"

text \<open>The end of the walk: the open stall and the open packets are closed, and the packets sorted.\<close>

definition finish_view :: "query_options \<Rightarrow> nat option \<Rightarrow> nat \<Rightarrow> nat \<Rightarrow> view_state \<Rightarrow> stream_analysis" where
  "finish_view opts wanted finish_time cycle vs =
     (let vs1 = view_finish_packet opts wanted None True (finish_stall finish_time cycle vs);
          vs2 = fold (\<lambda>key. view_finish_packet opts wanted (Some key) True) (map fst (vs_channels vs1)) vs1;
          a = vs_analysis vs2
      in a\<lparr>an_packets := sort_key (\<lambda>p. (sp_start_time p, sp_index p)) (an_packets a)\<rparr>)"

definition wanted_channel :: "query_options \<Rightarrow> string + nat option" where
  "wanted_channel opts =
     (if qo_channel_filter opts = [] then Inr None
      else case parse_user_u64 (qo_channel_filter opts) of
        Inl e \<Rightarrow> Inl (if e = [] then ''invalid channel filter: '' @ qo_channel_filter opts else e)
      | Inr n \<Rightarrow> Inr (Some n))"

definition materialize :: "stream_base \<Rightarrow> stream_config \<Rightarrow> query_options \<Rightarrow> string + stream_analysis" where
  "materialize base config opts =
     and_then (wanted_channel opts) (\<lambda>wanted.
     let b = begin_index base (qo_begin opts); e = end_index base (qo_end opts) in
     and_then (view_loop config opts wanted base 0 [b..<e] (start_view opts (sb_complete base))) (\<lambda>vs.
     Inr (finish_view opts wanted (if b = e then qo_end opts else md_time (sb_samples base ! (e - 1))) (e - b) vs)))"

section \<open>Analysing without a cache\<close>

definition analyze ::
  "(stream_base \<Rightarrow> nat) \<Rightarrow> 'h fsdb \<Rightarrow> stream_config \<Rightarrow> query_options \<Rightarrow> stream_base repository \<Rightarrow> string + stream_analysis" where
  "analyze estimate f config opts r =
     and_then (fst (build_base estimate f config (qo_begin opts) (qo_end opts) None no_error r))
       (\<lambda>base. materialize base config opts)"

end
