(* ===== verification/Clock_Ranges.thy ===== *)
theory Clock_Ranges
  imports Clock_Sampling
begin

text \<open>
  The samples of a clock scan: a scan is the list of its samples handed to its callback; the samples
  come in increasing order of time; and scanning a range of a recorded file gives the samples a larger
  scan gives in it.
\<close>

section \<open>The samples of a scan\<close>

text \<open>
  The samples a walk over the changes completes, with the state it ends in or the error of the clock's
  evaluation; \<open>expr_trace\<close> adds the sample of the last group.
\<close>

definition option_list :: "'a option \<Rightarrow> 'a list" where
  "option_list z = (case z of None \<Rightarrow> [] | Some y \<Rightarrow> [y])"

definition flush :: "'h expr_scanner \<Rightarrow> 'h expr_scan \<Rightarrow> clock_sample list" where
  "flush x sc = option_list (group_sample (xs_before x) (xs_samples x) sc)"

fun expr_walk ::
  "'h expr_scanner \<Rightarrow> (nat \<times> 'h \<times> string option) list \<Rightarrow> 'h expr_scan \<Rightarrow> clock_sample list \<times> (string + 'h expr_scan)" where
  "expr_walk x [] sc = ([], Inr sc)"
| "expr_walk x ((t, h, value) # changes) sc =
     (let out = (if ex_have_group sc \<and> t \<noteq> ex_time sc then flush x sc else [])
      in case expr_change x h value (if new_group t sc then expr_open_group (xs_before x) t sc else sc) of
           Inl e \<Rightarrow> (out, Inl e)
         | Inr sc1 \<Rightarrow> (case expr_walk x changes sc1 of (out', r) \<Rightarrow> (out @ out', r)))"

definition expr_trace ::
  "'h expr_scanner \<Rightarrow> (nat \<times> 'h \<times> string option) list \<Rightarrow> 'h expr_scan \<Rightarrow> clock_sample list \<times> string option" where
  "expr_trace x changes sc =
     (case expr_walk x changes sc of (out, Inl e) \<Rightarrow> (out, Some e) | (out, Inr sc1) \<Rightarrow> (out @ flush x sc1, None))"

text \<open>Handing samples to a callback until it returns false.\<close>

fun feed :: "'s sample_callback \<Rightarrow> clock_sample list \<Rightarrow> scan_counters \<Rightarrow> string \<Rightarrow> 's \<Rightarrow> bool \<times> scan_counters \<times> string \<times> 's" where
  "feed callback [] ct err u = (True, ct, err, u)"
| "feed callback (s # ss) ct err u =
     (case callback s err u of
        (keep, err', u') \<Rightarrow>
          if keep then feed callback ss (ct\<lparr>ct_count := ct_count ct + 1\<rparr>) err' u'
          else (False, ct\<lparr>ct_count := ct_count ct + 1\<rparr>, err', u'))"

lemma feed_append:
  "feed callback (xs @ ys) ct err u =
     (case feed callback xs ct err u of
        (keep, ct', err', u') \<Rightarrow> if keep then feed callback ys ct' err' u' else (False, ct', err', u'))"
  by (induction callback xs ct err u rule: feed.induct) (auto split: prod.split)

lemma finish_group_feed:
  "m < 0 \<Longrightarrow> expr_finish_group (xs_before x) (xs_samples x) m callback sc ct err u = feed callback (flush x sc) ct err u"
  by (auto simp: expr_finish_group_def flush_def option_list_def Let_def split: option.split prod.split)

definition fed ::
  "'s sample_callback \<Rightarrow> clock_sample list \<times> string option \<Rightarrow> scan_counters \<Rightarrow> string \<Rightarrow> 's \<Rightarrow>
   bool \<times> scan_counters \<times> string \<times> 's" where
  "fed callback tr ct err u =
     (case feed callback (fst tr) ct err u of
        (keep, ct', err', u') \<Rightarrow>
          (case snd tr of
             Some msg \<Rightarrow> if keep then (False, ct', msg, u') else (True, ct', err', u')
           | None \<Rightarrow> (True, ct', err', u')))"

lemma scan_loop_fed:
  assumes "m < 0"
  shows "expr_scan_loop x m callback changes sc ct err u = fed callback (expr_trace x changes sc) ct err u"
  using assms
proof (induction x m callback changes sc ct err u rule: expr_scan_loop.induct)
  case (1 x m callback sc ct err u)
  then show ?case by (simp add: finish_group_feed [OF 1] fed_def expr_trace_def split: prod.split)
next
  case (2 x m callback t h v changes sc ct err u)
  let ?out = "if ex_have_group sc \<and> t \<noteq> ex_time sc then flush x sc else []"
  obtain keep ct1 err1 u1 where f: "feed callback ?out ct err u = (keep, ct1, err1, u1)" by (metis prod_cases4)
  have e: "(if ex_have_group sc \<and> t \<noteq> ex_time sc
      then expr_finish_group (xs_before x) (xs_samples x) m callback sc ct err u else (True, ct, err, u))
      = (keep, ct1, err1, u1)"
    using f by (cases "ex_have_group sc \<and> t \<noteq> ex_time sc") (simp_all only: finish_group_feed [OF 2(2)] if_True if_False feed.simps simp_thms)
  let ?r = "expr_change x h v (if new_group t sc then expr_open_group (xs_before x) t sc else sc)"
  have tr: "expr_trace x ((t, h, v) # changes) sc =
      (case ?r of Inl e \<Rightarrow> (?out, Some e)
       | Inr sc1 \<Rightarrow> (?out @ fst (expr_trace x changes sc1), snd (expr_trace x changes sc1)))"
    by (simp add: expr_trace_def Let_def split: sum.split prod.split)
  show ?case
  proof (cases "keep \<and> (\<exists>sc1. ?r = Inr sc1)")
    case True
    then obtain sc1 where k: "keep" "?r = Inr sc1" by blast
    have "expr_scan_loop x m callback changes sc1 ct1 err1 u1 = fed callback (expr_trace x changes sc1) ct1 err1 u1"
      by (rule 2(1) [OF e [symmetric] refl refl _ k(2) 2(2)]) (simp add: k(1))
    then show ?thesis using f k unfolding tr expr_scan_loop.simps e by (simp add: fed_def feed_append)
  next
    case False
    then consider (stopped) "\<not> keep" | (failed) msg where "keep" "?r = Inl msg" by (cases ?r) auto
    then show ?thesis
    proof cases
      case stopped
      then show ?thesis
        using f unfolding tr expr_scan_loop.simps e
        by (cases ?r) (auto simp: fed_def feed_append simp del: if_split split: option.split)
    next
      case failed
      then show ?thesis using f unfolding tr expr_scan_loop.simps e by (simp add: fed_def)
    qed
  qed
qed


section \<open>Restricting a scan to a range\<close>

text \<open>
  What the scan relies on of the file: its value changes are a log in time order, reading a range
  yields the log's entries of the range for the signals asked for, and the value of a signal at a time
  is that of its last change not after the time, or its initial value.
\<close>

definition last_value :: "'h \<Rightarrow> (nat \<times> 'h \<times> string) list \<Rightarrow> string \<Rightarrow> string" where
  "last_value h log v0 = fold (\<lambda>(t, h', v) v1. if h' = h then v else v1) log v0"

definition value_of :: "('h \<Rightarrow> string) \<Rightarrow> (nat \<times> 'h \<times> string) list \<Rightarrow> 'h \<Rightarrow> nat \<Rightarrow> string" where
  "value_of initial log h t = last_value h (filter (\<lambda>(t', _). t' \<le> t) log) (initial h)"

definition log_changes :: "(nat \<times> 'h \<times> string) list \<Rightarrow> 'h list \<Rightarrow> nat \<Rightarrow> nat \<Rightarrow> (nat \<times> 'h \<times> string option) list" where
  "log_changes log hs b e =
     map (\<lambda>(t, h, v). (t, h, Some v)) (filter (\<lambda>(t, h, v). h \<in> set hs \<and> b \<le> t \<and> t \<le> e) log)"

definition fsdb_replays :: "'h fsdb \<Rightarrow> ('h \<Rightarrow> string) \<Rightarrow> (nat \<times> 'h \<times> string) list \<Rightarrow> bool" where
  "fsdb_replays f initial log \<longleftrightarrow>
     sorted (map fst log) \<and>
     (\<forall>hs t. values_at f hs t = Some (map (\<lambda>h. value_of initial log h t) hs)) \<and>
     (\<forall>hs b e. value_changes f hs b e = log_changes log hs b e)"

lemma last_value_cases: "(\<forall>c. last_value h log c = c) \<or> (\<exists>v. \<forall>c. last_value h log c = v)"
proof (induction log)
  case (Cons p log)
  then show ?case by (cases p) (auto simp: last_value_def)
qed (simp add: last_value_def)

lemma last_value_append: "last_value h (xs @ ys) c = last_value h ys (last_value h xs c)"
  by (simp add: last_value_def)

lemma last_value_again: "last_value h (xs @ ys) (last_value h xs c) = last_value h (xs @ ys) c"
  using last_value_cases [of h xs] by (auto simp: last_value_append)

lemma last_value_filter: "h \<in> set hs \<Longrightarrow> last_value h (filter (\<lambda>(t, h', v). h' \<in> set hs \<and> P t) log) c = last_value h (filter (\<lambda>(t, _). P t) log) c"
proof (induction log arbitrary: c)
  case (Cons p log)
  then show ?case by (cases p; cases "fst (snd p) \<in> set hs") (auto simp: last_value_def)
qed simp

lemma sorted_split:
  "sorted (map fst log) \<Longrightarrow> filter (\<lambda>(t, _). t < b) log @ filter (\<lambda>(t, _). b \<le> t) log = (log :: (nat \<times> 'b) list)"
proof (induction log)
  case (Cons p log)
  show ?case
  proof (cases "fst p < b")
    case True
    then show ?thesis using Cons by auto
  next
    case False
    then have "\<forall>q\<in>set log. b \<le> fst q" using Cons.prems by auto
    then have "filter (\<lambda>(t, _). t < b) log = []" "filter (\<lambda>(t, _). b \<le> t) log = log"
      by (auto simp: filter_empty_conv filter_id_conv)
    then show ?thesis using False by auto
  qed
qed simp

lemma value_before:
  assumes "sorted (map fst log)" "b0 \<le> b" "0 < b"
  shows "value_of initial log h (b - 1) =
           last_value h (filter (\<lambda>(t, _). b0 \<le> t \<and> t < b) log) (value_of initial log h (init_time b0))"
proof -
  define low where "low = filter (\<lambda>(t, _). t < b) log"
  have low: "filter (\<lambda>(t, _). t \<le> b - 1) log = low"
    unfolding low_def using \<open>0 < b\<close> by (intro filter_cong) auto
  have mid: "filter (\<lambda>(t, _). b0 \<le> t \<and> t < b) log = filter (\<lambda>(t, _). b0 \<le> t) low"
    unfolding low_def filter_filter by (intro filter_cong) auto
  have sorted_low: "sorted (map fst low)"
    unfolding low_def using assms(1) by (rule sorted_filter)
  show ?thesis
  proof (cases "b0 = 0")
    case False
    then have "filter (\<lambda>(t, _). t \<le> init_time b0) log = filter (\<lambda>(t, _). t < b0) low"
      unfolding low_def filter_filter init_time_def using assms(2) by (intro filter_cong) auto
    then show ?thesis
      by (simp only: value_of_def low mid last_value_append [symmetric] sorted_split [OF sorted_low])
  next
    case True
    let ?zero = "filter (\<lambda>(t, _). t < 1) low"
    have "filter (\<lambda>(t, _). t \<le> init_time b0) log = ?zero"
      unfolding low_def filter_filter init_time_def using True assms(3) by (intro filter_cong) auto
    moreover have "filter (\<lambda>(t, _). b0 \<le> t) low = ?zero @ filter (\<lambda>(t, _). 1 \<le> t) low"
      using True sorted_split [OF sorted_low, of 1] by simp
    ultimately show ?thesis
      using sorted_split [OF sorted_low, of 1] by (metis value_of_def low mid last_value_again)
  qed
qed


text \<open>A scanner whose signals have distinct handles and names, and whose clock reads only its own signals.\<close>

definition aliases_of :: "'h sample_signal list \<Rightarrow> string set" where
  "aliases_of signals = sg_alias ` set signals"

definition clock_reads :: "'h sample_signal list \<Rightarrow> 'h list \<Rightarrow> clock_eval \<Rightarrow> bool" where
  "clock_reads all_signals clock_handles eval \<longleftrightarrow>
     (\<forall>m m'. (\<forall>a. a \<notin> aliases_of all_signals \<longrightarrow> omap_get m a = None \<and> omap_get m' a = None) \<longrightarrow>
        (\<forall>s\<in>set all_signals. sg_handle s \<in> Some ` set clock_handles \<longrightarrow>
           omap_get m (sg_alias s) = omap_get m' (sg_alias s)) \<longrightarrow>
        eval m = eval m')"

definition scanner_ok :: "'h expr_scanner \<Rightarrow> bool" where
  "scanner_ok x \<longleftrightarrow> distinct (map sg_handle (xs_all x)) \<and> distinct (map sg_alias (xs_all x)) \<and>
     clock_reads (xs_all x) (xs_clock_handles x) (xs_eval x)"

text \<open>
  The values by name follow those by handle, and the remembered level of the clock is that of the
  current values.
\<close>

definition synced :: "'h expr_scanner \<Rightarrow> 'h expr_scan \<Rightarrow> bool" where
  "synced x sc \<longleftrightarrow>
     (\<forall>s\<in>set (xs_all x). \<forall>h. sg_handle s = Some h \<longrightarrow> omap_get (ex_by_alias sc) (sg_alias s) = ex_by_handle sc h) \<and>
     (\<forall>a. a \<notin> aliases_of (xs_all x) \<longrightarrow> omap_get (ex_by_alias sc) a = None) \<and>
     xs_eval x (ex_by_alias sc) = Inr (ex_prev_known sc, ex_prev_one sc)"

lemma find_handle:
  assumes "distinct (map sg_handle ss)" "s \<in> set ss"
  shows "List.find (\<lambda>s'. sg_handle s' = sg_handle s) ss = Some s"
  using assms by (induction ss) (auto simp: image_iff)

lemma alias_inj: "distinct (map sg_alias ss) \<Longrightarrow> s \<in> set ss \<Longrightarrow> s' \<in> set ss \<Longrightarrow> sg_alias s = sg_alias s' \<longleftrightarrow> s = s'"
  by (auto simp: distinct_map inj_on_def)

lemma expr_clock_change_fields:
  "ex_by_handle (expr_clock_change edge cur sc) = ex_by_handle sc"
  "ex_by_alias (expr_clock_change edge cur sc) = ex_by_alias sc"
  "ex_prev_known (expr_clock_change edge cur sc) = fst cur"
  "ex_prev_one (expr_clock_change edge cur sc) = snd cur"
  "ex_have_group (expr_clock_change edge cur sc) = ex_have_group sc"
  "ex_time (expr_clock_change edge cur sc) = ex_time sc"
  "ex_start (expr_clock_change edge cur sc) = ex_start sc"
  by (simp_all add: expr_clock_change_def Let_def split: prod.split)

lemma expr_change_fields:
  assumes "expr_change x h (Some v) sc = Inr sc'"
  shows "ex_by_handle sc' = (ex_by_handle sc)(h := Some (value_with_prefix v (xs_prefix x)))"
    and "ex_have_group sc' = ex_have_group sc" and "ex_time sc' = ex_time sc" and "ex_start sc' = ex_start sc"
  using assms
  by (auto simp: expr_change_def expr_apply_change_def Let_def expr_record_value_def expr_clock_change_fields
      split: if_splits sum.splits)

lemma synced_change:
  assumes ok: "scanner_ok x" and sy: "synced x sc" and known: "s \<in> set (xs_all x)" "sg_handle s = Some h"
    and step: "expr_change x h (Some v) sc = Inr sc'"
  shows "synced x sc'"
proof -
  let ?v = "value_with_prefix v (xs_prefix x)"
  have f: "List.find (\<lambda>s'. sg_handle s' = Some h) (xs_all x) = Some s"
    using find_handle [of "xs_all x" s] ok known by (simp add: scanner_ok_def)
  have get: "omap_get (ex_by_alias sc') a = (if a = sg_alias s then Some ?v else omap_get (ex_by_alias sc) a)" for a
    using step f
    by (auto simp: expr_change_def expr_apply_change_def Let_def expr_record_value_def expr_clock_change_fields
        omap_get_put split: if_splits sum.splits)
  have names: "\<forall>s'\<in>set (xs_all x). \<forall>h'. sg_handle s' = Some h' \<longrightarrow> (sg_alias s' = sg_alias s) = (h' = h)"
    using ok known find_handle [of "xs_all x"] alias_inj [of "xs_all x" _ s] unfolding scanner_ok_def
    by (metis option.inject)
  have eval: "xs_eval x (ex_by_alias sc') = Inr (ex_prev_known sc', ex_prev_one sc')"
  proof (cases "h \<in> set (xs_clock_handles x)")
    case True
    then show ?thesis
      using step
      by (auto simp: expr_change_def expr_apply_change_def Let_def expr_clock_change_fields split: sum.splits)
  next
    case False
    then have "sg_alias s' \<noteq> sg_alias s"
      if "s' \<in> set (xs_all x)" "sg_handle s' \<in> Some ` set (xs_clock_handles x)" for s'
      using that names by fastforce
    then have "xs_eval x (ex_by_alias sc') = xs_eval x (ex_by_alias sc)"
      using ok sy known(1) get unfolding scanner_ok_def clock_reads_def synced_def aliases_of_def by (metis imageI)
    moreover have "ex_prev_known sc' = ex_prev_known sc" "ex_prev_one sc' = ex_prev_one sc"
      using step False by (auto simp: expr_change_def expr_apply_change_def expr_record_value_def Let_def)
    ultimately show ?thesis using sy by (simp add: synced_def)
  qed
  show ?thesis
    using sy names known(1) eval unfolding synced_def get expr_change_fields(1) [OF step]
    by (auto simp: aliases_of_def)
qed


text \<open>Two states with the same values and the same clock level; \<open>alike\<close> states also agree on the open group.\<close>

definition same_values :: "'h expr_scan \<Rightarrow> 'h expr_scan \<Rightarrow> bool" where
  "same_values sc sc' \<longleftrightarrow> ex_by_handle sc = ex_by_handle sc' \<and> omap_get (ex_by_alias sc) = omap_get (ex_by_alias sc') \<and>
     ex_prev_known sc = ex_prev_known sc' \<and> ex_prev_one sc = ex_prev_one sc'"

definition alike :: "'h expr_scanner \<Rightarrow> 'h expr_scan \<Rightarrow> 'h expr_scan \<Rightarrow> bool" where
  "alike x sc sc' \<longleftrightarrow> same_values sc sc' \<and> ex_have_group sc = ex_have_group sc' \<and>
     (ex_have_group sc \<longrightarrow>
        ex_time sc = ex_time sc' \<and> ex_changed sc = ex_changed sc' \<and> ex_target sc = ex_target sc' \<and>
        (ex_target sc \<longrightarrow> ex_kind sc = ex_kind sc') \<and> (xs_before x \<longrightarrow> ex_start sc = ex_start sc'))"

lemma alike_flush: "alike x sc sc' \<Longrightarrow> flush x sc = flush x sc'"
  by (auto simp: alike_def same_values_def flush_def group_sample_def option_list_def)

lemma alike_new_group: "alike x sc sc' \<Longrightarrow> new_group t sc = new_group t sc'"
  by (auto simp: alike_def new_group_def)

lemma alike_open: "same_values sc sc' \<Longrightarrow> alike x (expr_open_group (xs_before x) t sc) (expr_open_group (xs_before x) t sc')"
  by (auto simp: alike_def same_values_def expr_open_group_def)

lemma alike_opened:
  assumes "alike x sc sc'"
  shows "alike x (if new_group t sc then expr_open_group (xs_before x) t sc else sc)
           (if new_group t sc' then expr_open_group (xs_before x) t sc' else sc')"
proof (cases "new_group t sc")
  case True
  moreover have "same_values sc sc'" using assms by (simp add: alike_def)
  ultimately show ?thesis using alike_open alike_new_group [OF assms, of t] by simp
next
  case False
  then show ?thesis using assms alike_new_group [OF assms, of t] by simp
qed

lemma synced_open [simp]: "synced x (expr_open_group pre t sc) = synced x sc"
  by (simp add: synced_def expr_open_group_def)

lemma same_values_open [simp]: "same_values (expr_open_group pre t sc) sc' = same_values sc sc'"
  by (simp add: same_values_def expr_open_group_def)

lemma alike_clock_change:
  assumes "alike x sc sc'"
  shows "alike x (expr_clock_change edge cur sc) (expr_clock_change edge cur sc')"
  using assms by (auto simp: alike_def same_values_def expr_clock_change_def Let_def split: prod.split)

lemma alike_record:
  assumes "alike x sc sc'"
  shows "alike x (expr_record_value ss h v sc) (expr_record_value ss h v sc')"
  using assms by (auto simp: alike_def same_values_def expr_record_value_def omap_get_put fun_eq_iff split: option.split)

text \<open>The change of a signal of the scanner keeps two synced states alike.\<close>

lemma alike_change:
  assumes ok: "scanner_ok x" and a: "alike x sc sc'" and sy: "synced x sc" "synced x sc'"
    and known: "s \<in> set (xs_all x)" "sg_handle s = Some h" and step: "expr_change x h (Some v) sc = Inr sc1"
  shows "\<exists>sc1'. expr_change x h (Some v) sc' = Inr sc1' \<and> alike x sc1 sc1' \<and> synced x sc1'"
proof -
  let ?v = "value_with_prefix v (xs_prefix x)"
  let ?r = "expr_record_value (xs_all x) h ?v"
  have r: "alike x (?r sc) (?r sc')" by (rule alike_record [OF a])
  have outside: "omap_get (ex_by_alias (?r sc)) b = None" if "b \<notin> aliases_of (xs_all x)" for b
    using that sy(1) find_handle [of "xs_all x" s] ok known
    by (auto simp: expr_record_value_def omap_get_put synced_def scanner_ok_def aliases_of_def)
  have "omap_get (ex_by_alias (?r sc)) = omap_get (ex_by_alias (?r sc'))" using r by (simp add: alike_def same_values_def)
  then have e: "xs_eval x (ex_by_alias (?r sc')) = xs_eval x (ex_by_alias (?r sc))"
    using ok outside unfolding scanner_ok_def clock_reads_def by metis
  have "\<exists>sc1'. expr_change x h (Some v) sc' = Inr sc1' \<and> alike x sc1 sc1'"
    using step r e alike_clock_change [OF r]
    by (auto simp: expr_change_def expr_apply_change_def Let_def split: if_splits sum.splits)
  then show ?thesis using synced_change [OF ok sy(2) known] by blast
qed

definition changes_known :: "'h expr_scanner \<Rightarrow> (nat \<times> 'h \<times> string option) list \<Rightarrow> bool" where
  "changes_known x changes \<longleftrightarrow> (\<forall>(t, h, v)\<in>set changes. v \<noteq> None \<and> Some h \<in> sg_handle ` set (xs_all x))"

lemma changes_known_simps [simp]:
  "changes_known x []"
  "changes_known x ((t, h, v) # cs) \<longleftrightarrow> v \<noteq> None \<and> Some h \<in> sg_handle ` set (xs_all x) \<and> changes_known x cs"
  "changes_known x (cs @ cs') \<longleftrightarrow> changes_known x cs \<and> changes_known x cs'"
  by (simp_all add: changes_known_def ball_Un)

lemma known_signal:
  assumes "changes_known x ((t, h, v) # cs)"
  obtains s v' where "s \<in> set (xs_all x)" "sg_handle s = Some h" "v = Some v'"
  using assms by auto

lemma walk_alike:
  assumes "scanner_ok x"
  shows "changes_known x changes \<Longrightarrow> alike x sc sc' \<Longrightarrow> synced x sc \<Longrightarrow> synced x sc' \<Longrightarrow>
    expr_walk x changes sc = (out, Inr s1) \<Longrightarrow>
    \<exists>s1'. expr_walk x changes sc' = (out, Inr s1') \<and> alike x s1 s1' \<and> synced x s1 \<and> synced x s1'"
proof (induction changes arbitrary: sc sc' out)
  case (Cons p changes)
  obtain t h v where p: "p = (t, h, v)" by (metis prod_cases3)
  obtain s v' where s: "s \<in> set (xs_all x)" "sg_handle s = Some h" "v = Some v'"
    using known_signal Cons.prems(1) p by metis
  let ?o = "\<lambda>z. if new_group t z then expr_open_group (xs_before x) t z else z"
  have a: "alike x (?o sc) (?o sc')" by (rule alike_opened [OF Cons.prems(2)])
  have sy: "synced x (?o sc)" "synced x (?o sc')" using Cons.prems(3,4) by simp_all
  obtain sc1 out' where step: "expr_change x h v (?o sc) = Inr sc1" and rest: "expr_walk x changes sc1 = (out', Inr s1)"
    and out: "out = (if ex_have_group sc \<and> t \<noteq> ex_time sc then flush x sc else []) @ out'"
    using Cons.prems(5) p by (auto simp: Let_def split: sum.splits prod.splits)
  obtain sc1' where step': "expr_change x h v (?o sc') = Inr sc1'" "alike x sc1 sc1'" "synced x sc1'"
    using alike_change [OF assms a sy s(1,2)] step s(3) by blast
  have "synced x sc1" using synced_change [OF assms sy(1) s(1,2)] step s(3) by blast
  moreover have "changes_known x changes" using Cons.prems(1) p by simp
  ultimately obtain s1' where "expr_walk x changes sc1' = (out', Inr s1')" "alike x s1 s1'" "synced x s1" "synced x s1'"
    using Cons.IH [OF _ step'(2) _ step'(3) rest] by blast
  moreover have "(if ex_have_group sc \<and> t \<noteq> ex_time sc then flush x sc else [])
      = (if ex_have_group sc' \<and> t \<noteq> ex_time sc' then flush x sc' else [])"
    using alike_flush [OF Cons.prems(2)] Cons.prems(2) by (auto simp: alike_def)
  ultimately show ?case using step'(1) out p by (simp add: Let_def)
qed simp

lemma walk_append:
  "expr_walk x (P @ M) sc =
     (case expr_walk x P sc of
        (o1, Inl e) \<Rightarrow> (o1, Inl e)
      | (o1, Inr s1) \<Rightarrow> (case expr_walk x M s1 of (o2, r) \<Rightarrow> (o1 @ o2, r)))"
  by (induction x P sc rule: expr_walk.induct) (auto simp: Let_def split: sum.split prod.split)


lemma flush_time: "s \<in> set (flush x sc) \<Longrightarrow> ex_have_group sc \<and> cs_time s = ex_time sc"
  by (auto simp: flush_def option_list_def group_sample_def split: if_splits)

lemma walk_times:
  "expr_walk x changes sc = (out, Inr s1) \<Longrightarrow> changes_known x changes \<Longrightarrow>
     (\<forall>s\<in>set out. cs_time s \<in> fst ` set changes \<or> (ex_have_group sc \<and> cs_time s = ex_time sc)) \<and>
     (if changes = [] then s1 = sc else ex_have_group s1 \<and> ex_time s1 = fst (last changes))"
proof (induction changes arbitrary: sc out)
  case (Cons p changes)
  obtain t h v where p: "p = (t, h, v)" by (metis prod_cases3)
  obtain v' where v: "v = Some v'" using Cons.prems(2) p by auto
  let ?o = "if new_group t sc then expr_open_group (xs_before x) t sc else sc"
  obtain sc1 out' where step: "expr_change x h v ?o = Inr sc1" and rest: "expr_walk x changes sc1 = (out', Inr s1)"
    and out: "out = (if ex_have_group sc \<and> t \<noteq> ex_time sc then flush x sc else []) @ out'"
    using Cons.prems(1) p by (auto simp: Let_def split: sum.splits prod.splits)
  have g: "ex_have_group sc1 \<and> ex_time sc1 = t"
    using expr_change_fields(2,3) [of x h v' ?o sc1] step v by (auto simp: expr_open_group_def new_group_def split: if_splits)
  have i: "(\<forall>s\<in>set out'. cs_time s \<in> fst ` set changes \<or> cs_time s = t) \<and>
      (if changes = [] then s1 = sc1 else ex_have_group s1 \<and> ex_time s1 = fst (last changes))"
    using Cons.IH [OF rest] Cons.prems(2) p g by auto
  then show ?case using g p out flush_time [of _ x sc] by auto
qed simp

text \<open>A state without a group, with the values of another.\<close>

definition fresh :: "'h expr_scan \<Rightarrow> 'h expr_scan" where
  "fresh sc = start_scan (ex_by_handle sc) (ex_by_alias sc) (ex_prev_known sc, ex_prev_one sc)"

lemma fresh_simps [simp]:
  "same_values sc (fresh sc)" "synced x (fresh sc) = synced x sc" "\<not> ex_have_group (fresh sc)"
  "ex_by_handle (fresh sc) = ex_by_handle sc"
  by (simp_all add: fresh_def start_scan_def same_values_def synced_def)

lemma alike_fresh: "\<not> ex_have_group sc \<Longrightarrow> same_values sc sc' \<Longrightarrow> alike x sc (fresh sc')"
  by (simp add: alike_def same_values_def fresh_def start_scan_def)

lemma trace_alike:
  assumes "scanner_ok x" "changes_known x changes" "alike x sc sc'" "synced x sc" "synced x sc'"
    "expr_trace x changes sc = (out, None)"
  shows "expr_trace x changes sc' = (out, None)"
  using walk_alike [OF assms(1-5)] alike_flush assms(6) unfolding expr_trace_def
  by (fastforce split: prod.splits sum.splits)

text \<open>The first change of a new group completes the open group and is then handled as in a fresh scan.\<close>

lemma walk_fresh:
  assumes ok: "scanner_ok x" and known: "changes_known x changes" and sy: "synced x sc"
    and new: "changes \<noteq> []" "fst (hd changes) \<noteq> ex_time sc \<or> \<not> ex_have_group sc"
    and w: "expr_walk x changes sc = (out, Inr s1)"
  shows "\<exists>out' s1'. expr_walk x changes (fresh sc) = (out', Inr s1') \<and> out = flush x sc @ out' \<and> alike x s1 s1' \<and> synced x s1'"
proof -
  obtain t h v cs where c: "changes = (t, h, v) # cs" using new(1) by (metis list.exhaust prod_cases3)
  obtain s v' where s: "s \<in> set (xs_all x)" "sg_handle s = Some h" "v = Some v'" using known_signal known c by metis
  let ?o = "expr_open_group (xs_before x) t"
  have n: "new_group t sc" "new_group t (fresh sc)" using new(2) c by (auto simp: new_group_def)
  obtain sc1 out' where step: "expr_change x h v (?o sc) = Inr sc1" and rest: "expr_walk x cs sc1 = (out', Inr s1)"
    and out: "out = (if ex_have_group sc \<and> t \<noteq> ex_time sc then flush x sc else []) @ out'"
    using w c n by (auto simp: Let_def split: sum.splits prod.splits)
  have flushed: "out = flush x sc @ out'"
    using out new(2) c by (auto simp: flush_def option_list_def group_sample_def)
  obtain sc1' where step': "expr_change x h v (?o (fresh sc)) = Inr sc1'" "alike x sc1 sc1'" "synced x sc1'"
    using alike_change [OF ok alike_open _ _ s(1,2)] sy step s(3) fresh_simps(1,2) synced_open by metis
  have "synced x sc1" using synced_change [OF ok _ s(1,2)] sy step s(3) synced_open by metis
  then obtain s1' where "expr_walk x cs sc1' = (out', Inr s1')" "alike x s1 s1'" "synced x s1'"
    using walk_alike [OF ok _ step'(2) _ step'(3) rest] known c by auto
  then show ?thesis using flushed n step' c by (simp add: Let_def)
qed


lemma trace_split:
  assumes ok: "scanner_ok x" and known: "changes_known x (A @ B)" and sy: "synced x sc" and new: "\<not> ex_have_group sc"
    and later: "\<forall>a\<in>set A. \<forall>b\<in>set B. fst a < fst b" and tr: "expr_trace x (A @ B) sc = (out, None)"
  shows "\<exists>oa ob o1 sa. out = oa @ ob \<and> expr_trace x A sc = (oa, None) \<and> expr_walk x A sc = (o1, Inr sa) \<and>
    synced x sa \<and> expr_trace x B (fresh sa) = (ob, None)"
proof -
  obtain o2 s2 where w: "expr_walk x (A @ B) sc = (o2, Inr s2)" "out = o2 @ flush x s2"
    using tr by (auto simp: expr_trace_def split: prod.splits sum.splits)
  then obtain oa sa ob where a: "expr_walk x A sc = (oa, Inr sa)" and b: "expr_walk x B sa = (ob, Inr s2)" "o2 = oa @ ob"
    by (auto simp: walk_append split: prod.splits sum.splits)
  have kA: "changes_known x A" and kB: "changes_known x B" using known by simp_all
  have ta: "if A = [] then sa = sc else ex_have_group sa \<and> ex_time sa = fst (last A)" using walk_times [OF a kA] by simp
  have sa: "synced x sa" using walk_alike [OF ok kA _ sy sy a] by (auto simp: alike_def same_values_def)
  show ?thesis
  proof (cases "B = []")
    case True
    then show ?thesis using w b a sa by (simp add: expr_trace_def flush_def option_list_def group_sample_def)
  next
    case False
    have "fst (hd B) \<noteq> ex_time sa \<or> \<not> ex_have_group sa"
    proof (cases "A = []")
      case False
      then have "fst (last A) < fst (hd B)" using later \<open>B \<noteq> []\<close> by simp
      then show ?thesis using ta False by simp
    qed (use ta new in simp)
    then obtain ob' s2' where f: "expr_walk x B (fresh sa) = (ob', Inr s2')" "ob = flush x sa @ ob'" "alike x s2 s2'"
      using walk_fresh [OF ok kB sa False _ b(1)] by blast
    have "expr_trace x B (fresh sa) = (ob' @ flush x s2', None)" using f(1) by (simp add: expr_trace_def)
    moreover have "expr_trace x A sc = (oa @ flush x sa, None)" using a by (simp add: expr_trace_def)
    ultimately show ?thesis using w(2) b(2) f(2) alike_flush [OF f(3)] a sa by simp
  qed
qed

lemma trace_times:
  assumes "expr_trace x changes sc = (out, None)" "changes_known x changes" "\<not> ex_have_group sc" "s \<in> set out"
  shows "cs_time s \<in> fst ` set changes"
proof -
  obtain o1 s1 where w: "expr_walk x changes sc = (o1, Inr s1)" "out = o1 @ flush x s1"
    using assms(1) by (auto simp: expr_trace_def split: prod.splits sum.splits)
  show ?thesis
    using walk_times [OF w(1) assms(2)] assms(3,4) w(2) flush_time [of s x s1] by (auto split: if_splits)
qed

lemma walk_values:
  "expr_walk x (map (\<lambda>(t, h, v). (t, h, Some v)) log) sc = (out, Inr s1) \<Longrightarrow>
   ex_by_handle sc h = Some (value_with_prefix v0 (xs_prefix x)) \<Longrightarrow>
   ex_by_handle s1 h = Some (value_with_prefix (last_value h log v0) (xs_prefix x))"
proof (induction log arbitrary: sc out v0)
  case (Cons p log)
  obtain t j v where p: "p = (t, j, v)" by (metis prod_cases3)
  let ?o = "if new_group t sc then expr_open_group (xs_before x) t sc else sc"
  obtain sc1 out' where step: "expr_change x j (Some v) ?o = Inr sc1"
    and rest: "expr_walk x (map (\<lambda>(t, h, v). (t, h, Some v)) log) sc1 = (out', Inr s1)"
    using Cons.prems(1) p by (auto simp: Let_def split: sum.splits prod.splits)
  have "ex_by_handle sc1 h = Some (value_with_prefix (if j = h then v else v0) (xs_prefix x))"
    using expr_change_fields(1) [OF step] Cons.prems(2) by (simp add: expr_open_group_def)
  from Cons.IH [OF rest this] show ?case using p by (simp add: last_value_def)
qed (simp add: last_value_def)

lemma walk_other_values:
  "expr_walk x changes sc = (out, Inr s1) \<Longrightarrow> changes_known x changes \<Longrightarrow> Some h \<notin> sg_handle ` set (xs_all x) \<Longrightarrow>
   ex_by_handle s1 h = ex_by_handle sc h"
proof (induction changes arbitrary: sc out)
  case (Cons p changes)
  obtain t j v where p: "p = (t, j, v)" by (metis prod_cases3)
  obtain v' where v: "v = Some v'" using Cons.prems(2) p by auto
  let ?o = "if new_group t sc then expr_open_group (xs_before x) t sc else sc"
  obtain sc1 out' where step: "expr_change x j v ?o = Inr sc1" and rest: "expr_walk x changes sc1 = (out', Inr s1)"
    using Cons.prems(1) p by (auto simp: Let_def split: sum.splits prod.splits)
  have "ex_by_handle sc1 h = ex_by_handle sc h"
    using expr_change_fields(1) [of x j v' ?o sc1] step v Cons.prems(2,3) p by (auto simp: expr_open_group_def)
  then show ?case using Cons.IH [OF rest] Cons.prems(2,3) p by simp
qed simp


section \<open>Scans by their samples\<close>

definition scanner_of ::
  "edge_kind \<Rightarrow> sample_point_kind \<Rightarrow> 'h sample_signal list \<Rightarrow> 'h sample_signal list \<Rightarrow> char \<Rightarrow> clock_eval \<Rightarrow>
   'h sample_signal list \<Rightarrow> 'h expr_scanner" where
  "scanner_of edge point clock_signals sample_signals prefix eval all_signals =
     \<lparr>xs_edge = edge, xs_point = point, xs_clock_handles = handles_of clock_signals, xs_all = all_signals,
      xs_samples = sample_signals, xs_prefix = prefix, xs_eval = eval\<rparr>"

text \<open>The samples of a scan: an error before the first change, or the samples and the error that ends them.\<close>

definition scanned ::
  "'h fsdb \<Rightarrow> edge_kind \<Rightarrow> sample_point_kind \<Rightarrow> 'h sample_signal list \<Rightarrow> 'h sample_signal list \<Rightarrow>
   nat \<Rightarrow> nat \<Rightarrow> char \<Rightarrow> clock_eval \<Rightarrow> string + clock_sample list \<times> string option" where
  "scanned f edge point clock_signals sample_signals b e prefix eval =
     (if clock_signals = [] then Inl ''clock expression has no signal dependency''
      else case unique_signals (clock_signals @ sample_signals) [] of
        Inl msg \<Rightarrow> Inl msg
      | Inr all_signals \<Rightarrow>
          (case values_at f (handles_of all_signals) (init_time b) of
             None \<Rightarrow> Inl ''Failed to read initial expression clock values''
           | Some texts \<Rightarrow>
               if length texts \<noteq> length all_signals then Inl ''Failed to read initial expression clock values''
               else let by_alias = initial_by_alias prefix all_signals texts
                    in case eval by_alias of
                         Inl msg \<Rightarrow> Inl msg
                       | Inr cur \<Rightarrow>
                           Inr (expr_trace (scanner_of edge point clock_signals sample_signals prefix eval all_signals)
                             (value_changes f (handles_of all_signals) b e)
                             (start_scan (initial_by_handle prefix all_signals texts) by_alias cur))))"

definition fed_result :: "bool \<times> scan_counters \<times> string \<times> 's \<Rightarrow> scan_result \<times> 's" where
  "fed_result r =
     (case r of (evaluated, ct, err, u) \<Rightarrow>
        (\<lparr>sr_ok = (evaluated \<and> err = []), sr_count = ct_count ct, sr_truncated = ct_truncated ct, sr_error = err\<rparr>, u))"

lemma expression_scan_fed:
  assumes "m < 0"
  shows "expression_scanner_scan f edge point cs ss b e prefix m eval callback err u =
    (case scanned f edge point cs ss b e prefix eval of
       Inl msg \<Rightarrow> (scan_failed msg, u)
     | Inr tr \<Rightarrow> fed_result (fed callback tr \<lparr>ct_count = 0, ct_truncated = False\<rparr> err u))"
  by (auto simp: expression_scanner_scan_def scanned_def scanner_of_def fed_result_def Let_def
      scan_loop_fed [OF assms] split: sum.split option.split prod.split)

definition consistent_aliases :: "'h sample_signal list \<Rightarrow> bool" where
  "consistent_aliases signals \<longleftrightarrow>
     (\<forall>s\<in>set signals. \<forall>s'\<in>set signals. sg_alias s = sg_alias s' \<longrightarrow> sg_handle s = sg_handle s')"

lemma unique_signals_ok:
  "unique_signals ss acc = Inr all \<Longrightarrow> None \<notin> sg_handle ` set acc \<Longrightarrow> distinct (map sg_handle acc) \<Longrightarrow>
     None \<notin> sg_handle ` set all \<and> distinct (map sg_handle all) \<and> set acc \<subseteq> set all \<and> set all \<subseteq> set acc \<union> set ss \<and>
     sg_handle ` set ss \<subseteq> sg_handle ` set all"
proof (induction ss acc rule: unique_signals.induct)
  case (2 s ss acc)
  show ?case
  proof (cases "list_ex (\<lambda>a. sg_handle a = sg_handle s) acc")
    case True
    then have i: "sg_handle s \<in> sg_handle ` set acc" unfolding list_ex_iff by (metis imageI)
    have "unique_signals ss acc = Inr all" "sg_handle s \<noteq> None" using 2(3) True by (auto split: if_splits)
    from 2(1) [OF this(2) True this(1) 2(4,5)] show ?thesis using i by auto
  next
    case False
    then have n: "unique_signals ss (acc @ [s]) = Inr all" "sg_handle s \<noteq> None" using 2(3) by (auto split: if_splits)
    have d: "distinct (map sg_handle (acc @ [s]))" "None \<notin> sg_handle ` set (acc @ [s])"
      using False 2(4,5) n(2) by (auto simp: list_ex_iff)
    from 2(2) [OF n(2) False n(1) d(2) d(1)] show ?thesis by auto
  qed
qed auto

lemma distinct_aliases:
  assumes "consistent_aliases signals" "set all \<subseteq> set signals" "distinct (map sg_handle all)"
  shows "distinct (map sg_alias all)"
  using assms unfolding distinct_map consistent_aliases_def by (meson inj_onD inj_onI subsetD)

lemma clock_reads_signals:
  assumes reads: "\<forall>m m'. (\<forall>s\<in>set cs. omap_get m (sg_alias s) = omap_get m' (sg_alias s)) \<longrightarrow> eval m = eval m'"
    and con: "consistent_aliases (cs @ ss)" and sub: "set all \<subseteq> set (cs @ ss)" and none: "None \<notin> sg_handle ` set all"
  shows "clock_reads all (handles_of cs) eval"
  unfolding clock_reads_def
proof (intro allI impI)
  fix m m' :: "(string, string) omap"
  assume outside: "\<forall>a. a \<notin> aliases_of all \<longrightarrow> omap_get m a = None \<and> omap_get m' a = None"
    and agree: "\<forall>s\<in>set all. sg_handle s \<in> Some ` set (handles_of cs) \<longrightarrow> omap_get m (sg_alias s) = omap_get m' (sg_alias s)"
  have "omap_get m (sg_alias s) = omap_get m' (sg_alias s)" if s: "s \<in> set cs" for s
  proof (cases "sg_alias s \<in> aliases_of all")
    case True
    then obtain s' where s': "s' \<in> set all" "sg_alias s' = sg_alias s" unfolding aliases_of_def by auto
    then have h: "sg_handle s' = sg_handle s" using con sub s unfolding consistent_aliases_def by fastforce
    then obtain h where "sg_handle s = Some h" using none s' by (metis image_eqI not_None_eq)
    then have "sg_handle s' \<in> Some ` set (handles_of cs)"
      using s h by (auto simp: handles_of_def List.map_filter_def image_iff)
    then show ?thesis using agree s' by metis
  qed (use outside in simp)
  then show "eval m = eval m'" using reads by blast
qed


lemma fold_handles:
  assumes "distinct (map sg_handle (map fst ps))"
  shows "fold (\<lambda>p m. case sg_handle (fst p) of None \<Rightarrow> m | Some h \<Rightarrow> m(h := Some (f (snd p)))) ps m0 h =
           (case List.find (\<lambda>p. sg_handle (fst p) = Some h) ps of None \<Rightarrow> m0 h | Some p \<Rightarrow> Some (f (snd p)))"
  using assms
proof (induction ps arbitrary: m0)
  case (Cons p ps)
  have "List.find (\<lambda>q. sg_handle (fst q) = Some h) ps = None" if "sg_handle (fst p) = Some h"
    using Cons.prems that by (auto simp: find_None_iff image_iff)
  then show ?case using Cons by (auto split: option.split)
qed simp

lemma initial_by_handle_value:
  assumes "distinct (map sg_handle ss)" "None \<notin> sg_handle ` set ss"
  shows "initial_by_handle prefix ss (map g (handles_of ss)) h =
           (if Some h \<in> sg_handle ` set ss then Some (value_with_prefix (g h) prefix) else None)"
proof -
  have z: "zip ss (map g (handles_of ss)) = map (\<lambda>s. (s, g (the (sg_handle s)))) ss"
    using assms(2) by (induction ss) (auto simp: handles_of_def List.map_filter_simps split: option.split)
  have d: "distinct (map sg_handle (map fst (map (\<lambda>s. (s, g (the (sg_handle s)))) ss)))"
    using assms(1) by (simp add: o_def)
  have "List.find (\<lambda>p. sg_handle (fst p) = Some h) (map (\<lambda>s. (s, g (the (sg_handle s)))) ss) =
      map_option (\<lambda>s. (s, g h)) (List.find (\<lambda>s. sg_handle s = Some h) ss)"
    by (induction ss) auto
  moreover have "List.find (\<lambda>s. sg_handle s = Some h) ss = None \<longleftrightarrow> Some h \<notin> sg_handle ` set ss"
    by (auto simp: find_None_iff image_iff)
  ultimately show ?thesis
    unfolding initial_by_handle_def z fold_handles [OF d, of "\<lambda>v. value_with_prefix v prefix"]
    by (auto split: option.split)
qed

lemma initial_by_alias_value:
  assumes "distinct (map sg_alias ss)" "None \<notin> sg_handle ` set ss"
  shows "s \<in> set ss \<Longrightarrow> sg_handle s = Some h \<Longrightarrow>
      omap_get (initial_by_alias prefix ss (map g (handles_of ss))) (sg_alias s) = Some (value_with_prefix (g h) prefix)"
    and "a \<notin> aliases_of ss \<Longrightarrow> omap_get (initial_by_alias prefix ss (map g (handles_of ss))) a = None"
proof -
  have z: "zip ss (map g (handles_of ss)) = map (\<lambda>s. (s, g (the (sg_handle s)))) ss"
    using assms(2) by (induction ss) (auto simp: handles_of_def List.map_filter_simps split: option.split)
  have o: "omap_get (fold (\<lambda>p m. omap_put (sg_alias (fst p)) (value_with_prefix (snd p) prefix) m) ps m0) a = omap_get m0 a"
    if "a \<notin> sg_alias ` fst ` set ps" for ps m0 a and ss :: "'a sample_signal list"
    using that by (induction ps arbitrary: m0) (auto simp: omap_get_put)
  show "omap_get (initial_by_alias prefix ss (map g (handles_of ss))) a = None" if "a \<notin> aliases_of ss"
    using that o [of a "map (\<lambda>s. (s, g (the (sg_handle s)))) ss" "[]"]
    unfolding initial_by_alias_def z by (simp add: aliases_of_def image_image)
  have "omap_get (fold (\<lambda>p m. omap_put (sg_alias (fst p)) (value_with_prefix (snd p) prefix) m)
      (map (\<lambda>s. (s, g (the (sg_handle s)))) ts) m0) (sg_alias s) = Some (value_with_prefix (g h) prefix)"
    if "s \<in> set ts" "sg_handle s = Some h" "distinct (map sg_alias ts)" for ts m0 s h
    using that
  proof (induction ts arbitrary: m0)
    case (Cons t ts)
    show ?case
    proof (cases "s \<in> set ts")
      case True
      then show ?thesis using Cons by simp
    next
      case False
      then have "t = s" "sg_alias s \<notin> sg_alias ` set ts" using Cons.prems by auto
      then show ?thesis
        using o [of "sg_alias s" "map (\<lambda>s. (s, g (the (sg_handle s)))) ts"] Cons.prems(2)
        by (simp add: omap_get_put image_image)
    qed
  qed simp
  then show "omap_get (initial_by_alias prefix ss (map g (handles_of ss))) (sg_alias s) = Some (value_with_prefix (g h) prefix)"
    if "s \<in> set ss" "sg_handle s = Some h"
    using that assms(1) unfolding initial_by_alias_def z by blast
qed

lemma synced_start:
  assumes "distinct (map sg_handle (xs_all x))" "distinct (map sg_alias (xs_all x))" "None \<notin> sg_handle ` set (xs_all x)"
    "xs_eval x (initial_by_alias (xs_prefix x) (xs_all x) (map g (handles_of (xs_all x)))) = Inr cur"
  shows "synced x (start_scan (initial_by_handle (xs_prefix x) (xs_all x) (map g (handles_of (xs_all x))))
    (initial_by_alias (xs_prefix x) (xs_all x) (map g (handles_of (xs_all x)))) cur)"
  using assms initial_by_alias_value [OF assms(2,3)] initial_by_handle_value [OF assms(1,3)]
  by (auto simp: synced_def start_scan_def image_iff)


definition in_range :: "nat \<Rightarrow> nat \<Rightarrow> clock_sample list \<Rightarrow> clock_sample list" where
  "in_range b e xs = filter (\<lambda>s. b \<le> cs_time s \<and> cs_time s \<le> e) xs"

lemma in_range_parts:
  assumes "\<forall>s\<in>set xa. cs_time s < b" "\<forall>s\<in>set xm. b \<le> cs_time s \<and> cs_time s \<le> e" "\<forall>s\<in>set xq. e < cs_time s"
  shows "in_range b e (xa @ xm @ xq) = xm"
proof -
  have "filter (\<lambda>s. b \<le> cs_time s \<and> cs_time s \<le> e) xa = []" "filter (\<lambda>s. b \<le> cs_time s \<and> cs_time s \<le> e) xq = []"
    using assms(1,3) by (auto simp: filter_empty_conv)
  moreover have "filter (\<lambda>s. b \<le> cs_time s \<and> cs_time s \<le> e) xm = xm" using assms(2) by (simp add: filter_id_conv)
  ultimately show ?thesis by (simp add: in_range_def)
qed

lemma trace_range:
  assumes ok: "scanner_ok x" and sy: "synced x sc" and new: "\<not> ex_have_group sc"
    and log: "sorted (map fst log)" and hs: "\<forall>h\<in>set hs. Some h \<in> sg_handle ` set (xs_all x)"
    and r: "b0 \<le> b" "b \<le> e" "e \<le> e0" and tr: "expr_trace x (log_changes log hs b0 e0) sc = (xs, None)"
  shows "\<exists>out sa. expr_walk x (map (\<lambda>(t, h, v). (t, h, Some v)) (filter (\<lambda>(t, h, v). h \<in> set hs \<and> b0 \<le> t \<and> t < b) log)) sc
       = (out, Inr sa) \<and> synced x sa \<and> expr_trace x (log_changes log hs b e) (fresh sa) = (in_range b e xs, None)"
proof -
  let ?some = "map (\<lambda>(t, h, v). (t, h, Some v))"
  let ?part = "\<lambda>P. filter (\<lambda>(t, h, v). h \<in> set hs \<and> P t) log"
  define A where "A = ?part (\<lambda>t. b0 \<le> t \<and> t < b)"
  define M where "M = ?part (\<lambda>t. b \<le> t \<and> t \<le> e)"
  define Q where "Q = ?part (\<lambda>t. e < t \<and> t \<le> e0)"
  define L where "L = ?part (\<lambda>t. b0 \<le> t \<and> t \<le> e0)"
  have sL: "sorted (map fst L)" unfolding L_def using log by (rule sorted_filter)
  have "filter (\<lambda>(t, _). t < b) L = A" unfolding L_def A_def filter_filter using r by (intro filter_cong) auto
  moreover have "filter (\<lambda>(t, _). t < Suc e) (filter (\<lambda>(t, _). b \<le> t) L) = M"
    unfolding L_def M_def filter_filter using r by (intro filter_cong) auto
  moreover have "filter (\<lambda>(t, _). Suc e \<le> t) (filter (\<lambda>(t, _). b \<le> t) L) = Q"
    unfolding L_def Q_def filter_filter using r by (intro filter_cong) auto
  ultimately have L: "L = A @ M @ Q"
    using sorted_split [OF sL, of b] sorted_split [OF sorted_filter [OF sL], of "Suc e" "\<lambda>(t, _). b \<le> t"] by simp
  have known: "changes_known x (?some (?part P))" for P using hs by (auto simp: changes_known_def)
  have "expr_trace x (?some A @ ?some M @ ?some Q) sc = (xs, None)"
    using tr L by (simp add: log_changes_def L_def)
  then obtain oa orest o1 sa where 1: "xs = oa @ orest" "expr_trace x (?some A) sc = (oa, None)"
    "expr_walk x (?some A) sc = (o1, Inr sa)" "synced x sa" "expr_trace x (?some M @ ?some Q) (fresh sa) = (orest, None)"
    using trace_split [OF ok _ sy new, of "?some A" "?some M @ ?some Q" xs] known r
    by (fastforce simp: A_def M_def Q_def)
  obtain om oq sm where 2: "orest = om @ oq" "expr_trace x (?some M) (fresh sa) = (om, None)"
    "expr_trace x (?some Q) (fresh sm) = (oq, None)"
    using trace_split [OF ok _ _ _ _ 1(5)] known 1(4) by (fastforce simp: M_def Q_def)
  have "in_range b e xs = om"
    unfolding 1(1) 2(1)
  proof (rule in_range_parts)
    show "\<forall>s\<in>set oa. cs_time s < b"
      using trace_times [OF 1(2) _ new] known by (fastforce simp: A_def)
    show "\<forall>s\<in>set om. b \<le> cs_time s \<and> cs_time s \<le> e"
      using trace_times [OF 2(2)] known by (fastforce simp: M_def)
    show "\<forall>s\<in>set oq. e < cs_time s"
      using trace_times [OF 2(3)] known by (fastforce simp: Q_def)
  qed
  then show ?thesis using 1(3,4) 2(2) by (simp add: A_def M_def log_changes_def)
qed


text \<open>The condition on the clock's evaluation: it reads the values of the clock's signals only.\<close>

definition reads_only :: "'h sample_signal list \<Rightarrow> clock_eval \<Rightarrow> bool" where
  "reads_only signals eval \<longleftrightarrow>
     (\<forall>m m'. (\<forall>s\<in>set signals. omap_get m (sg_alias s) = omap_get m' (sg_alias s)) \<longrightarrow> eval m = eval m')"

lemma handles_of_mem: "Some h \<in> sg_handle ` set signals \<longleftrightarrow> h \<in> set (handles_of signals)"
  by (auto simp: handles_of_def List.map_filter_def image_iff) (metis option.sel)+

lemma handles_of_length: "None \<notin> sg_handle ` set signals \<Longrightarrow> length (handles_of signals) = length signals"
  by (induction signals) (auto simp: handles_of_def List.map_filter_simps split: option.splits)

lemma range_values:
  assumes sorted: "sorted (map fst log)" and r: "b0 \<le> b" and h: "h \<in> set hs"
    and w: "expr_walk x (map (\<lambda>(t, h, v). (t, h, Some v)) (filter (\<lambda>(t, h, v). h \<in> set hs \<and> b0 \<le> t \<and> t < b) log)) sc
              = (out, Inr sa)"
    and start: "ex_by_handle sc h = Some (value_with_prefix (value_of initial log h (init_time b0)) (xs_prefix x))"
  shows "ex_by_handle sa h = Some (value_with_prefix (value_of initial log h (init_time b)) (xs_prefix x))"
proof -
  let ?v0 = "value_of initial log h (init_time b0)"
  have "last_value h (filter (\<lambda>(t, h, v). h \<in> set hs \<and> b0 \<le> t \<and> t < b) log) ?v0
      = last_value h (filter (\<lambda>(t, _). b0 \<le> t \<and> t < b) log) ?v0"
    by (rule last_value_filter [OF h])
  also have "\<dots> = value_of initial log h (init_time b)"
  proof (cases "b = 0")
    case True
    then show ?thesis using r by (simp add: last_value_def)
  next
    case False
    then show ?thesis using value_before [OF sorted r, of initial h] by (simp add: init_time_def)
  qed
  finally show ?thesis using walk_values [OF w start] by simp
qed

text \<open>A start state is settled by the values of its signals.\<close>

lemma start_like:
  assumes d: "distinct (map sg_handle (xs_all x))" "distinct (map sg_alias (xs_all x))" "None \<notin> sg_handle ` set (xs_all x)"
    and sa: "synced x sa" and reads: "reads_only cs (xs_eval x)"
    and known: "\<And>h. h \<in> set (handles_of (xs_all x)) \<Longrightarrow> ex_by_handle sa h = Some (value_with_prefix (g h) (xs_prefix x))"
    and other: "\<And>h. h \<notin> set (handles_of (xs_all x)) \<Longrightarrow> ex_by_handle sa h = None"
  shows "xs_eval x (initial_by_alias (xs_prefix x) (xs_all x) (map g (handles_of (xs_all x)))) =
           Inr (ex_prev_known sa, ex_prev_one sa)" (is "?eval")
    and "alike x (fresh sa) (start_scan (initial_by_handle (xs_prefix x) (xs_all x) (map g (handles_of (xs_all x))))
           (initial_by_alias (xs_prefix x) (xs_all x) (map g (handles_of (xs_all x)))) (ex_prev_known sa, ex_prev_one sa))"
proof -
  let ?m = "initial_by_alias (xs_prefix x) (xs_all x) (map g (handles_of (xs_all x)))"
  have same: "omap_get ?m a = omap_get (ex_by_alias sa) a" for a
  proof (cases "a \<in> aliases_of (xs_all x)")
    case True
    then obtain s h where s: "s \<in> set (xs_all x)" "sg_alias s = a" "sg_handle s = Some h"
      using d(3) unfolding aliases_of_def by (metis (no_types) imageE imageI not_Some_eq)
    then have "omap_get (ex_by_alias sa) a = ex_by_handle sa h" using sa by (auto simp: synced_def)
    moreover have "h \<in> set (handles_of (xs_all x))" using handles_of_mem s by (metis imageI)
    ultimately show ?thesis using initial_by_alias_value(1) [OF d(2,3) s(1,3)] s(2) known by simp
  next
    case False
    then show ?thesis using sa initial_by_alias_value(2) [OF d(2,3)] by (simp add: synced_def)
  qed
  have "xs_eval x ?m = xs_eval x (ex_by_alias sa)" using reads same unfolding reads_only_def by blast
  then show ?eval using sa by (simp add: synced_def)
  have "initial_by_handle (xs_prefix x) (xs_all x) (map g (handles_of (xs_all x))) = ex_by_handle sa"
    using initial_by_handle_value [OF d(1,3)] known other by (simp add: fun_eq_iff handles_of_mem)
  then show "alike x (fresh sa) (start_scan (initial_by_handle (xs_prefix x) (xs_all x) (map g (handles_of (xs_all x)))) ?m
      (ex_prev_known sa, ex_prev_one sa))"
    using same by (auto simp: alike_def same_values_def fresh_def start_scan_def fun_eq_iff)
qed

lemma scanned_range:
  assumes f: "fsdb_replays f initial log" and r: "b0 \<le> b" "b \<le> e" "e \<le> e0"
    and con: "consistent_aliases (cs @ ss)" and reads: "reads_only cs eval"
    and full: "scanned f edge point cs ss b0 e0 prefix eval = Inr (xs, None)"
  shows "scanned f edge point cs ss b e prefix eval = Inr (in_range b e xs, None)"
proof -
  have sorted: "sorted (map fst log)" and at: "\<And>hs t. values_at f hs t = Some (map (\<lambda>h. value_of initial log h t) hs)"
    and changes: "\<And>hs b e. value_changes f hs b e = log_changes log hs b e"
    using f by (simp_all add: fsdb_replays_def)
  obtain all where all: "cs \<noteq> []" "unique_signals (cs @ ss) [] = Inr all"
    using full by (auto simp: scanned_def split: if_splits sum.splits)
  have u: "None \<notin> sg_handle ` set all" "distinct (map sg_handle all)" "set all \<subseteq> set (cs @ ss)"
    using unique_signals_ok [OF all(2)] by simp_all
  note d = distinct_aliases [OF con u(3,2)]
  define hs where "hs = handles_of all"
  have hs: "Some h \<in> sg_handle ` set all \<longleftrightarrow> h \<in> set hs" for h by (simp add: hs_def handles_of_mem)
  define x where "x = scanner_of edge point cs ss prefix eval all"
  have x [simp]: "xs_all x = all" "xs_prefix x = prefix" "xs_eval x = eval" "xs_clock_handles x = handles_of cs"
    by (simp_all add: x_def scanner_of_def)
  define g where "g t = (\<lambda>h. value_of initial log h (init_time t))" for t
  define m where "m t = initial_by_alias prefix all (map (g t) hs)" for t
  define bh where "bh t = initial_by_handle prefix all (map (g t) hs)" for t
  have scan: "scanned f edge point cs ss b' e' prefix eval =
      (case eval (m b') of Inl msg \<Rightarrow> Inl msg
       | Inr cur \<Rightarrow> Inr (expr_trace x (log_changes log hs b' e') (start_scan (bh b') (m b') cur)))" for b' e'
    using all at changes handles_of_length [OF u(1)]
    by (auto simp: scanned_def x_def hs_def m_def bh_def g_def Let_def split: sum.split)
  obtain cur where cur: "eval (m b0) = Inr cur" "expr_trace x (log_changes log hs b0 e0) (start_scan (bh b0) (m b0) cur) = (xs, None)"
    using full scan [of b0 e0] by (auto split: sum.splits)
  have ok: "scanner_ok x"
    using u(2) d clock_reads_signals [OF _ con u(3,1)] reads by (simp add: scanner_ok_def reads_only_def)
  have sy: "synced x (start_scan (bh t) (m t) c)" if "eval (m t) = Inr c" for t c
    using synced_start [of x "g t" c] u d that by (simp add: bh_def m_def hs_def)
  obtain out sa where w: "expr_walk x (map (\<lambda>(t, h, v). (t, h, Some v)) (filter (\<lambda>(t, h, v). h \<in> set hs \<and> b0 \<le> t \<and> t < b) log))
        (start_scan (bh b0) (m b0) cur) = (out, Inr sa)"
    and sa: "synced x sa" and tr: "expr_trace x (log_changes log hs b e) (fresh sa) = (in_range b e xs, None)"
    using trace_range [OF ok sy [OF cur(1)] _ sorted _ r cur(2)] hs by (auto simp: start_scan_def)
  have bh: "bh t h = (if h \<in> set hs then Some (value_with_prefix (g t h) prefix) else None)" for t h
    using initial_by_handle_value [OF u(2,1), of prefix "g t" h] hs by (simp add: bh_def hs_def)
  have known: "ex_by_handle sa h = Some (value_with_prefix (g b h) (xs_prefix x))" if "h \<in> set (handles_of (xs_all x))" for h
    using range_values [OF sorted r(1) _ w, of h initial] that bh by (simp add: g_def start_scan_def hs_def)
  have other: "ex_by_handle sa h = None" if "h \<notin> set (handles_of (xs_all x))" for h
    using walk_other_values [OF w, of h] bh that hs by (auto simp: start_scan_def changes_known_def hs_def)
  have like: "eval (m b) = Inr (ex_prev_known sa, ex_prev_one sa)"
    "alike x (fresh sa) (start_scan (bh b) (m b) (ex_prev_known sa, ex_prev_one sa))"
    using start_like [of x sa cs "g b"] u d sa reads known other by (simp_all add: m_def bh_def hs_def)
  then show ?thesis
    using trace_alike [OF ok _ like(2) _ sy [OF like(1)] tr] hs sa scan [of b e]
    by (auto simp: changes_known_def log_changes_def)
qed


text \<open>Samples come in the order of time.\<close>

lemma walk_stop:
  "expr_walk x ((t, h, v) # changes) sc = (out, r) \<Longrightarrow>
   expr_change x h v (if new_group t sc then expr_open_group (xs_before x) t sc else sc) = Inl e \<Longrightarrow>
   out = (if ex_have_group sc \<and> t \<noteq> ex_time sc then flush x sc else []) \<and> r = Inl e"
  by (simp only: expr_walk.simps Let_def sum.case prod.inject)

lemma walk_go:
  "expr_walk x ((t, h, v) # changes) sc = (out, r) \<Longrightarrow>
   expr_change x h v (if new_group t sc then expr_open_group (xs_before x) t sc else sc) = Inr sc1 \<Longrightarrow>
   \<exists>out'. expr_walk x changes sc1 = (out', r) \<and>
     out = (if ex_have_group sc \<and> t \<noteq> ex_time sc then flush x sc else []) @ out'"
  by (cases "expr_walk x changes sc1") (simp only: expr_walk.simps Let_def sum.case prod.case prod.inject, blast)

lemma walk_sorted:
  "expr_walk x changes sc = (out, r) \<Longrightarrow> sorted (map fst changes) \<Longrightarrow> changes_known x changes \<Longrightarrow>
   (ex_have_group sc \<Longrightarrow> \<forall>c\<in>set changes. ex_time sc \<le> fst c) \<Longrightarrow>
   sorted_wrt (<) (map cs_time out) \<and> (\<forall>s\<in>set out. ex_have_group sc \<longrightarrow> ex_time sc \<le> cs_time s) \<and>
   (\<forall>s1. r = Inr s1 \<longrightarrow> ex_have_group s1 \<longrightarrow> (\<forall>s\<in>set out. cs_time s < ex_time s1) \<and> (ex_have_group sc \<longrightarrow> ex_time sc \<le> ex_time s1))"
proof (induction changes arbitrary: sc out)
  case Nil
  then show ?case by auto
next
  case (Cons p changes)
  obtain t h v where p: "p = (t, h, v)" by (metis prod_cases3)
  obtain v' where v: "v = Some v'" using Cons.prems(3) p by auto
  let ?o = "if new_group t sc then expr_open_group (xs_before x) t sc else sc"
  define now where "now = (if ex_have_group sc \<and> t \<noteq> ex_time sc then flush x sc else [])"
  have le: "ex_have_group sc \<Longrightarrow> ex_time sc \<le> t" using Cons.prems(4) p by auto
  have now: "ex_have_group sc \<and> cs_time s = ex_time sc \<and> cs_time s < t" if "s \<in> set now" for s
  proof (cases "ex_have_group sc \<and> t \<noteq> ex_time sc")
    case True
    then show ?thesis using that flush_time [of s x sc] le by (simp add: now_def)
  next
    case False
    then have "now = []" by (simp only: now_def if_False)
    then show ?thesis using that by simp
  qed
  have "length now \<le> 1" by (simp add: now_def flush_def option_list_def split: option.split)
  then have n: "sorted_wrt (<) (map cs_time now)" by (cases now) auto
  show ?case
  proof (cases "expr_change x h v ?o")
    case (Inl e)
    then have "out = now \<and> r = Inl e" using walk_stop [OF Cons.prems(1) [unfolded p] Inl] by (simp only: now_def)
    then show ?thesis using n now by auto
  next
    case (Inr sc1)
    then obtain out' where rest: "expr_walk x changes sc1 = (out', r)" and out: "out = now @ out'"
      using walk_go [OF Cons.prems(1) [unfolded p] Inr] unfolding now_def by blast
    have g: "ex_have_group sc1 \<and> ex_time sc1 = t"
      using expr_change_fields(2,3) [of x h v' ?o sc1] Inr v by (auto simp: expr_open_group_def new_group_def split: if_splits)
    have "\<forall>c\<in>set changes. ex_time sc1 \<le> fst c" using Cons.prems(2) p g by auto
    then have i: "sorted_wrt (<) (map cs_time out')" "\<And>s. s \<in> set out' \<Longrightarrow> t \<le> cs_time s"
        "\<And>s1 s. r = Inr s1 \<Longrightarrow> ex_have_group s1 \<Longrightarrow> t \<le> ex_time s1 \<and> (s \<in> set out' \<longrightarrow> cs_time s < ex_time s1)"
      using Cons.IH [OF rest] Cons.prems(2,3) p g by auto
    have "\<forall>a\<in>set now. \<forall>b\<in>set out'. cs_time a < cs_time b" using now i(2) by (meson less_le_trans)
    then have "sorted_wrt (<) (map cs_time out)" using n i(1) by (simp add: out sorted_wrt_append)
    moreover have "ex_have_group sc \<longrightarrow> ex_time sc \<le> cs_time s" if "s \<in> set out" for s
      using that out now i(2) le by (metis Un_iff le_trans order_refl set_append)
    moreover have "cs_time s < ex_time s1 \<and> t \<le> ex_time s1" if "r = Inr s1" "ex_have_group s1" "s \<in> set out" for s1 s
      using i(3) [OF that(1,2)] that(3) out now by (metis Un_iff less_le_trans set_append)
    moreover have "ex_time sc \<le> ex_time s1" if "r = Inr s1" "ex_have_group s1" "ex_have_group sc" for s1
      using i(3) [OF that(1,2)] le [OF that(3)] by (meson le_trans)
    ultimately show ?thesis by blast
  qed
qed

lemma trace_sorted:
  assumes "expr_trace x changes sc = (out, r)" "sorted (map fst changes)" "changes_known x changes" "\<not> ex_have_group sc"
  shows "sorted_wrt (<) (map cs_time out)"
proof -
  obtain o1 z where w: "expr_walk x changes sc = (o1, z)" by fastforce
  have s: "sorted_wrt (<) (map cs_time o1) \<and>
      (\<forall>s1. z = Inr s1 \<longrightarrow> ex_have_group s1 \<longrightarrow> (\<forall>s\<in>set o1. cs_time s < ex_time s1))"
    using walk_sorted [OF w assms(2,3)] assms(4) by simp
  show ?thesis
  proof (cases z)
    case (Inl e)
    then show ?thesis using assms(1,4) w s by (simp add: expr_trace_def)
  next
    case (Inr s1)
    then have "out = o1 @ flush x s1" using assms(1) w by (simp add: expr_trace_def)
    moreover have "flush x s1 = [] \<or> (\<exists>y. flush x s1 = [y])" by (simp add: flush_def option_list_def split: option.split)
    ultimately consider "out = o1" | y where "out = o1 @ [y]" "ex_have_group s1" "cs_time y = ex_time s1"
      using flush_time [of _ x s1] by auto
    then show ?thesis
    proof cases
      case 2
      then have "\<forall>s\<in>set o1. cs_time s < cs_time y" using s Inr by simp
      then show ?thesis using s 2(1) by (simp add: sorted_wrt_append)
    qed (use s in simp)
  qed
qed

lemma scanned_sorted:
  assumes f: "fsdb_replays f initial log" and s: "scanned f edge point cs ss b e prefix eval = Inr (xs, r)"
  shows "sorted_wrt (<) (map cs_time xs)"
proof -
  obtain all where all: "unique_signals (cs @ ss) [] = Inr all"
    using s by (auto simp: scanned_def split: if_splits sum.splits)
  obtain sc where t: "expr_trace (scanner_of edge point cs ss prefix eval all)
      (value_changes f (handles_of all) b e) sc = (xs, r)" "\<not> ex_have_group sc"
    using s all by (fastforce simp: scanned_def Let_def start_scan_def split: if_splits sum.splits option.splits)
  have c: "value_changes f (handles_of all) b e = log_changes log (handles_of all) b e" "sorted (map fst log)"
    using f by (simp_all add: fsdb_replays_def)
  have "sorted (map fst (log_changes log (handles_of all) b e))"
    using sorted_filter [OF c(2)] by (simp add: log_changes_def o_def split_def)
  moreover have "changes_known (scanner_of edge point cs ss prefix eval all) (log_changes log (handles_of all) b e)"
    by (auto simp: changes_known_def log_changes_def scanner_of_def handles_of_mem)
  ultimately show ?thesis using trace_sorted t c(1) by metis
qed

section \<open>A range sees the samples of the whole file\<close>

definition collect :: "clock_sample list sample_callback" where
  "collect s err u = (True, err, u @ [s])"

lemma feed_collect: "feed collect xs ct err u = (True, ct\<lparr>ct_count := ct_count ct + int (length xs)\<rparr>, err, u @ xs)"
  by (induction xs arbitrary: ct u) (simp_all add: collect_def)

text \<open>
  C29: scanning a range of a recorded file delivers, in increasing order of time, exactly the samples
  that a scan of a larger range delivers in it: the values and the clock level the scan starts from at
  the time before the range are those the larger scan has reached there.
\<close>

theorem clock_samples_of_range:
  assumes f: "fsdb_replays f initial log" and r: "b0 \<le> b" "b \<le> e" "e \<le> e0"
    and con: "consistent_aliases (cs @ ss)" and reads: "reads_only cs eval"
    and full: "expression_scanner_scan f edge point cs ss b0 e0 prefix (-1) eval collect [] [] = (r0, xs)" "sr_ok r0"
  shows "expression_scanner_scan f edge point cs ss b e prefix (-1) eval collect [] [] =
           (\<lparr>sr_ok = True, sr_count = int (length (in_range b e xs)), sr_truncated = False, sr_error = []\<rparr>, in_range b e xs)
         \<and> sorted_wrt (<) (map cs_time xs)"
proof -
  have s: "scanned f edge point cs ss b0 e0 prefix eval = Inr (xs, None)"
    using full by (auto simp: expression_scan_fed scan_failed_def fed_def fed_result_def feed_collect
        split: sum.splits option.splits)
  show ?thesis
    using scanned_range [OF f r con reads s] scanned_sorted [OF f s]
    by (simp add: expression_scan_fed fed_def fed_result_def feed_collect)
qed

definition demo_log :: "(nat \<times> string \<times> string) list" where
  "demo_log = [(2, ''d'', ''1''), (5, ''clk'', ''1''), (10, ''clk'', ''0''), (12, ''d'', ''0''), (15, ''clk'', ''1'')]"

definition demo_fsdb :: "string fsdb" where
  "demo_fsdb =
     \<lparr>sig_by_name = Some, sig_width = (\<lambda>_. Some 1),
      values_at = (\<lambda>hs t. Some (map (\<lambda>h. value_of (\<lambda>_. ''0'') demo_log h t) hs)),
      value_changes = log_changes demo_log, min_time = 0, max_time = 20\<rparr>"

definition demo_signals :: "string list \<Rightarrow> string sample_signal list" where
  "demo_signals names = map (\<lambda>n. \<lparr>sg_alias = n, sg_path = n, sg_handle = Some n\<rparr>) names"

definition demo_clock :: clock_eval where
  "demo_clock m = Inr (True, omap_get m ''clk'' = Some ''1'')"

lemma demo_fsdb_replays: "fsdb_replays demo_fsdb (\<lambda>_. ''0'') demo_log"
  by (simp add: fsdb_replays_def demo_fsdb_def demo_log_def)

theorem clock_samples_of_range_witness:
  "expression_scanner_scan demo_fsdb Posedge Before (demo_signals [''clk'']) (demo_signals [''d'']) 11 20
     (CHR 0x00) (-1) demo_clock collect [] []
   = (\<lparr>sr_ok = True, sr_count = 1, sr_truncated = False, sr_error = []\<rparr>,
      [\<lparr>cs_time = 15, cs_edge = Posedge, cs_values = [''0'']\<rparr>])"
proof -
  let ?xs = "[\<lparr>cs_time = 5, cs_edge = Posedge, cs_values = [''1'']\<rparr>,
    \<lparr>cs_time = 15, cs_edge = Posedge, cs_values = [''0'']\<rparr>]"
  have full: "expression_scanner_scan demo_fsdb Posedge Before (demo_signals [''clk'']) (demo_signals [''d'']) 0 20
      (CHR 0x00) (-1) demo_clock collect [] []
      = (\<lparr>sr_ok = True, sr_count = 2, sr_truncated = False, sr_error = []\<rparr>, ?xs)"
    by code_simp
  have con: "consistent_aliases (demo_signals [''clk''] @ demo_signals [''d''])" by code_simp
  have reads: "reads_only (demo_signals [''clk'']) demo_clock"
    by (simp add: reads_only_def demo_signals_def demo_clock_def)
  show ?thesis
    using clock_samples_of_range [OF demo_fsdb_replays _ _ _ con reads full, of 11 20] by (simp add: in_range_def)
qed

end
