(* ===== verification/Stream_Ranges.thy ===== *)
theory Stream_Ranges
  imports Stream_View Clock_Ranges
begin

text \<open>
  Answers from a base analysis.  A base that was built holds what its samples showed, so the view's walk
  over a range of it is a walk over the samples shown in the range; the build's packets and the view's
  packets reject the same streams.  Hence a range answered from the analysis of the whole file is the
  answer of a scan of the range.
\<close>

section \<open>What a base holds\<close>

definition transfers_of :: "sample_view list \<Rightarrow> sample_view list" where
  "transfers_of vws = filter (\<lambda>vw. md_transfer (vw_metadata vw)) vws"

fun tagged :: "nat \<Rightarrow> sample_view list \<Rightarrow> sample_metadata list" where
  "tagged n [] = []"
| "tagged n (vw # vws) =
     (if md_transfer (vw_metadata vw) then (vw_metadata vw)\<lparr>md_ordinal := int n\<rparr> # tagged (n + 1) vws
      else vw_metadata vw # tagged n vws)"

definition pick :: "field_values \<Rightarrow> string \<Rightarrow> stream_value" where
  "pick vals name = (case omap_get vals name of None \<Rightarrow> no_value | Some v \<Rightarrow> v)"

definition picked :: "string list \<Rightarrow> field_values \<Rightarrow> field_values" where
  "picked schema vals = fold (\<lambda>name m. omap_put name (pick vals name) m) schema []"

definition columns_hold ::
  "string list \<Rightarrow> (string, stream_value list) omap \<Rightarrow> (sample_view \<Rightarrow> field_values) \<Rightarrow> sample_view list \<Rightarrow> bool" where
  "columns_hold schema columns g vws \<longleftrightarrow>
     (\<forall>name\<in>set schema. omap_get columns name = Some (map (\<lambda>vw. pick (g vw) name) (transfers_of vws)))"

definition holds :: "stream_config \<Rightarrow> sample_view list \<Rightarrow> stream_base \<Rightarrow> bool" where
  "holds config vws base \<longleftrightarrow>
     sb_samples base = tagged 0 vws \<and> length (sb_transfer_ids base) = length (transfers_of vws) \<and>
     sb_field_schema base = field_schema_of config \<and> sb_stable_schema base = map fst (cf_packet_stable_fields config) \<and>
     columns_hold (sb_field_schema base) (sb_field_columns base) vw_fields vws \<and>
     columns_hold (sb_stable_schema base) (sb_stable_columns base) vw_stable vws \<and>
     sb_channels base = map vw_channel (transfers_of vws)"

lemma transfers_of_simps [simp]:
  "transfers_of [] = []" "transfers_of (xs @ ys) = transfers_of xs @ transfers_of ys"
  "transfers_of (vw # vws) = (if md_transfer (vw_metadata vw) then vw # transfers_of vws else transfers_of vws)"
  by (simp_all add: transfers_of_def)

lemma tagged_append: "tagged n (xs @ ys) = tagged n xs @ tagged (n + length (transfers_of xs)) ys"
  by (induction n xs rule: tagged.induct) simp_all

lemma length_tagged [simp]: "length (tagged n vws) = length vws"
  by (induction n vws rule: tagged.induct) simp_all

text \<open>The entry of a sample: its metadata, with its place among the transfers.\<close>

lemma tagged_nth:
  assumes "i < length vws"
  shows "tagged n vws ! i =
    (if md_transfer (vw_metadata (vws ! i))
     then (vw_metadata (vws ! i))\<lparr>md_ordinal := int (n + length (transfers_of (take i vws)))\<rparr> else vw_metadata (vws ! i))"
proof -
  have "vws = take i vws @ vws ! i # drop (Suc i) vws" by (rule id_take_nth_drop [OF assms])
  then have "tagged n vws = tagged n (take i vws) @ tagged (n + length (transfers_of (take i vws))) (vws ! i # drop (Suc i) vws)"
    by (metis tagged_append)
  moreover have "length (tagged n (take i vws)) = i" using assms by simp
  ultimately show ?thesis by (simp add: nth_append)
qed

lemma transfers_nth:
  assumes "i < length vws" "md_transfer (vw_metadata (vws ! i))"
  shows "length (transfers_of (take i vws)) < length (transfers_of vws)"
    "transfers_of vws ! length (transfers_of (take i vws)) = vws ! i"
proof -
  have v: "vws = take i vws @ vws ! i # drop (Suc i) vws" by (rule id_take_nth_drop [OF assms(1)])
  have "transfers_of vws = transfers_of (take i vws) @ vws ! i # transfers_of (drop (Suc i) vws)"
    by (subst v) (simp add: assms(2) del: append_take_drop_id)
  then show "length (transfers_of (take i vws)) < length (transfers_of vws)"
    "transfers_of vws ! length (transfers_of (take i vws)) = vws ! i" by simp_all
qed

lemma push_columns_get:
  assumes "distinct schema"
  shows "omap_get (push_columns schema vals columns) name =
    (if name \<in> set schema
     then Some ((case omap_get columns name of None \<Rightarrow> [] | Some c \<Rightarrow> c) @ [pick vals name]) else omap_get columns name)"
  using assms unfolding push_columns_def pick_def
  by (induction schema arbitrary: columns) (auto simp: omap_get_put)

lemma columns_hold_push:
  assumes "columns_hold schema columns g vws" "distinct schema" "md_transfer (vw_metadata vw)"
  shows "columns_hold schema (push_columns schema (g vw) columns) g (vws @ [vw])"
  using assms by (auto simp: columns_hold_def push_columns_get)

lemma columns_hold_skip:
  "columns_hold schema columns g vws \<Longrightarrow> \<not> md_transfer (vw_metadata vw) \<Longrightarrow> columns_hold schema columns g (vws @ [vw])"
  by (simp add: columns_hold_def)

lemma distinct_field_schema: "distinct (field_schema_of config)"
proof -
  have "distinct xs \<Longrightarrow> distinct (fold (\<lambda>name names. if name \<in> set names then names else names @ [name]) ks xs)"
    for ks xs :: "string list"
    by (induction ks arbitrary: xs) auto
  then show ?thesis by (simp add: field_schema_of_def)
qed

definition stable_ok :: "stream_config \<Rightarrow> bool" where
  "stable_ok config \<longleftrightarrow> distinct (map fst (cf_packet_stable_fields config))"

lemma stream_config_ok_stable: "stream_config_ok c \<Longrightarrow> stable_ok c"
  by (simp add: stream_config_ok_def named_entries_def omap_ok_def stable_ok_def strict_sorted_iff)

lemma empty_columns_get: "omap_get (empty_columns names) name = (if name \<in> set names then Some [] else None)"
proof -
  have "omap_get (fold (\<lambda>name m. omap_put name [] m) names m0) name = (if name \<in> set names then Some [] else omap_get m0 name)"
    for m0 :: "(string, stream_value list) omap"
    by (induction names arbitrary: m0) (auto simp: omap_get_put)
  then show ?thesis by (simp add: empty_columns_def)
qed

lemma holds_empty: "holds config [] (empty_base config b e)"
  by (simp add: holds_def empty_base_def columns_hold_def empty_columns_get)

lemma holds_add:
  assumes h: "holds config vws (sd_base bs)" and ok: "stable_ok config" and a: "add_sample config vw bs = Inr bs'"
  shows "holds config (vws @ [vw]) (sd_base bs')"
proof (cases "md_transfer (vw_metadata vw)")
  case False
  then show ?thesis using h a by (auto simp: add_sample_def Let_def holds_def tagged_append columns_hold_skip)
next
  case True
  have d: "distinct (sb_field_schema (sd_base bs))" "distinct (sb_stable_schema (sd_base bs))"
    using h ok by (simp_all add: holds_def distinct_field_schema stable_ok_def)
  have c: "columns_hold (sb_field_schema (sd_base bs)) (push_columns (sb_field_schema (sd_base bs)) (vw_fields vw)
        (sb_field_columns (sd_base bs))) vw_fields (vws @ [vw])"
    "columns_hold (sb_stable_schema (sd_base bs)) (push_columns (sb_stable_schema (sd_base bs)) (vw_stable vw)
        (sb_stable_columns (sd_base bs))) vw_stable (vws @ [vw])"
    using columns_hold_push [OF _ d(1) True, where g = vw_fields] columns_hold_push [OF _ d(2) True, where g = vw_stable]
      h unfolding holds_def by blast+
  show ?thesis using a True h c by (auto simp: add_sample_def Let_def holds_def tagged_append)
qed

section \<open>The rows of a built base\<close>

definition view_row :: "stream_config \<Rightarrow> sample_view \<Rightarrow> nat \<Rightarrow> stream_row" where
  "view_row config vw cycle =
     (metadata_row (vw_metadata vw) cycle)\<lparr>rw_fields := picked (field_schema_of config) (vw_fields vw),
        rw_stable := picked (map fst (cf_packet_stable_fields config)) (vw_stable vw), rw_channel := vw_channel vw\<rparr>"

lemma column_values_picked:
  assumes "columns_hold schema columns g vws" "i < length (transfers_of vws)"
  shows "column_values schema columns i = picked schema (g (transfers_of vws ! i))"
proof -
  have "fold (\<lambda>name m. case omap_get columns name of None \<Rightarrow> m
      | Some column \<Rightarrow> if i < length column then omap_put name (column ! i) m else m) names m0
    = fold (\<lambda>name m. omap_put name (pick (g (transfers_of vws ! i)) name) m) names m0" if "set names \<subseteq> set schema" for names m0
    using that assms by (induction names arbitrary: m0) (auto simp: columns_hold_def)
  then show ?thesis by (simp add: column_values_def picked_def)
qed

lemma transfer_row_view:
  assumes h: "holds config vws base" and i: "i < length vws" and t: "md_transfer (vw_metadata (vws ! i))"
  shows "transfer_row base i cycle = view_row config (vws ! i) cycle"
proof -
  let ?n = "length (transfers_of (take i vws))"
  have s: "sb_samples base ! i = (vw_metadata (vws ! i))\<lparr>md_ordinal := int ?n\<rparr>" "\<not> length (sb_samples base) \<le> i"
    using h i t by (simp_all add: holds_def tagged_nth)
  note n = transfers_nth [OF i t]
  have "column_values (sb_field_schema base) (sb_field_columns base) ?n = picked (sb_field_schema base) (vw_fields (vws ! i))"
    "column_values (sb_stable_schema base) (sb_stable_columns base) ?n = picked (sb_stable_schema base) (vw_stable (vws ! i))"
    using column_values_picked [OF _ n(1)] h n(2) unfolding holds_def by metis+
  then show ?thesis using h n s by (simp add: transfer_row_def holds_def Let_def view_row_def metadata_row_def)
qed

lemma view_step_ordinal: "view_step config opts wanted cycle (md\<lparr>md_ordinal := n\<rparr>) row vs = view_step config opts wanted cycle md row vs"
proof -
  have "count_sample config (md\<lparr>md_ordinal := n\<rparr>) = count_sample config md" by (simp add: count_sample_def fun_eq_iff)
  moreover have "stall_step (md\<lparr>md_ordinal := n\<rparr>) cycle = stall_step md cycle" by (simp add: stall_step_def fun_eq_iff)
  ultimately show ?thesis by (simp add: view_step_def)
qed

text \<open>The walk over what samples showed.\<close>

fun replay ::
  "stream_config \<Rightarrow> query_options \<Rightarrow> nat option \<Rightarrow> nat \<Rightarrow> sample_view list \<Rightarrow> view_state \<Rightarrow> string + view_state" where
  "replay config opts wanted cycle [] vs = Inr vs"
| "replay config opts wanted cycle (vw # vws) vs =
     and_then (view_step config opts wanted cycle (vw_metadata vw) (view_row config vw cycle) vs)
       (replay config opts wanted (cycle + 1) vws)"

lemma view_loop_replay:
  assumes h: "holds config vws base" and j: "j \<le> length vws"
  shows "i \<le> j \<Longrightarrow> view_loop config opts wanted base cycle [i..<j] vs = replay config opts wanted cycle (take (j - i) (drop i vws)) vs"
proof (induction "j - i" arbitrary: i cycle vs)
  case (Suc n)
  then have i: "i < j" by simp
  then have l: "i < length vws" using j by simp
  have d: "take (j - i) (drop i vws) = vws ! i # take (j - Suc i) (drop (Suc i) vws)"
    using i l by (metis Cons_nth_drop_Suc Suc_diff_Suc take_Suc_Cons)
  have "view_step config opts wanted cycle (sb_samples base ! i) (transfer_row base i cycle) s
      = view_step config opts wanted cycle (vw_metadata (vws ! i)) (view_row config (vws ! i) cycle) s" for s
  proof (cases "md_transfer (vw_metadata (vws ! i))")
    case True
    then have "sb_samples base ! i = (vw_metadata (vws ! i))\<lparr>md_ordinal := int (length (transfers_of (take i vws)))\<rparr>"
      using h l by (simp add: holds_def tagged_nth)
    then show ?thesis using transfer_row_view [OF h l True] by (simp add: view_step_ordinal)
  next
    case False
    then have "sb_samples base ! i = vw_metadata (vws ! i)" using h l by (simp add: holds_def tagged_nth)
    then show ?thesis using False by (simp add: view_step_def)
  qed
  moreover have "view_loop config opts wanted base (cycle + 1) [Suc i..<j] s
      = replay config opts wanted (cycle + 1) (take (j - Suc i) (drop (Suc i) vws)) s" for s
    using Suc by (intro Suc.hyps(1)) auto
  ultimately show ?case using i by (simp add: upt_conv_Cons d and_then_def split: sum.split)
qed simp


section \<open>The build as a walk over the samples\<close>

fun add_all :: "compiled \<Rightarrow> stream_config \<Rightarrow> clock_sample list \<Rightarrow> stream_build \<Rightarrow> string + stream_build" where
  "add_all c config [] bs = Inr bs"
| "add_all c config (s # ss) bs =
     and_then (eval_sample c config s) (\<lambda>vw. and_then (add_sample config vw bs) (add_all c config ss))"

definition same_build :: "stream_build \<Rightarrow> stream_build \<Rightarrow> bool" where
  "same_build bs bs' \<longleftrightarrow> sd_base bs = sd_base bs' \<and> sd_single bs = sd_single bs' \<and> sd_channels bs = sd_channels bs'"

lemma same_build_simps [simp]:
  "same_build bs bs" "same_build (bs\<lparr>sd_repository := r, sd_cache_error := e\<rparr>) bs' = same_build bs bs'"
  "same_build (bs\<lparr>sd_budget_failed := z\<rparr>) bs' = same_build bs bs'"
  by (simp_all add: same_build_def)

lemma same_finished: "same_build bs bs' \<Longrightarrow> finished_base t bs = finished_base t bs'"
  by (simp add: same_build_def finished_base_def)

lemma and_then_Inl [simp]: "and_then r k = Inl e \<longleftrightarrow> r = Inl e \<or> (\<exists>x. r = Inr x \<and> k x = Inl e)"
  by (auto simp: and_then_def split: sum.split)

lemma add_sample_same:
  assumes "same_build bs bs'"
  shows "rel_sum (=) same_build (add_sample config vw bs) (add_sample config vw bs')"
  using assms by (auto simp: add_sample_def same_build_def Let_def and_then_def split: sum.split)

lemma add_all_same:
  "same_build bs bs' \<Longrightarrow> rel_sum (=) same_build (add_all c config xs bs) (add_all c config xs bs')"
proof (induction xs arbitrary: bs bs')
  case (Cons s xs)
  show ?case
  proof (cases "eval_sample c config s")
    case (Inr vw)
    then show ?thesis
      using add_sample_same [OF Cons.prems, of config vw] Cons.IH
      by (cases "add_sample config vw bs"; cases "add_sample config vw bs'") (auto simp: and_then_def)
  qed (simp add: and_then_def)
qed simp

lemma eval_labelled_error: "eval_labelled e label vals = Inl msg \<Longrightarrow> label \<noteq> [] \<Longrightarrow> msg \<noteq> []"
  by (auto simp: eval_labelled_def split: if_splits prod.splits option.splits)

lemma eval_fields_error: "eval_fields label es vals out = Inl msg \<Longrightarrow> msg \<noteq> []"
  by (induction label es vals out rule: eval_fields.induct) (auto dest: eval_labelled_error)

lemma eval_sample_error: "eval_sample c config s = Inl msg \<Longrightarrow> msg \<noteq> []"
  by (auto simp: eval_sample_def Let_def control_value_def dest: eval_labelled_error eval_fields_error split: if_splits)

lemma packet_error_text: "packet_error config channel active old = Some msg \<Longrightarrow> msg \<noteq> []"
  by (auto simp: packet_error_def interleave_error_def channel_change_error_def split: if_splits)

lemma add_sample_error: "add_sample config vw bs = Inl msg \<Longrightarrow> msg \<noteq> []"
  by (auto simp: add_sample_def Let_def base_packet_step_def dest: packet_error_text split: if_splits option.splits)

lemma feed_uncached:
  "feed (build_callback est None c config) xs ct err bs =
     (case add_all c config xs bs of
        Inr bs' \<Rightarrow> (True, ct\<lparr>ct_count := ct_count ct + int (length xs)\<rparr>, err, bs')
      | Inl msg \<Rightarrow> feed (build_callback est None c config) xs ct err bs)
   \<and> (\<forall>msg. add_all c config xs bs = Inl msg \<longrightarrow>
        msg \<noteq> [] \<and> (\<exists>ct' bs'. feed (build_callback est None c config) xs ct err bs = (False, ct', msg, bs') \<and>
           sd_budget_failed bs' = sd_budget_failed bs))"
proof (induction xs arbitrary: ct bs)
  case (Cons s xs)
  show ?case
  proof (cases "and_then (eval_sample c config s) (\<lambda>vw. add_sample config vw bs)")
    case (Inl msg)
    then have "add_all c config (s # xs) bs = Inl msg" by (auto simp: and_then_def split: sum.splits)
    moreover have "msg \<noteq> []" using Inl eval_sample_error add_sample_error unfolding and_then_Inl by metis
    ultimately show ?thesis using Inl by (simp add: build_callback_def del: and_then_Inl)
  next
    case (Inr bs1)
    then obtain vw where "eval_sample c config s = Inr vw" "add_sample config vw bs = Inr bs1" by auto
    then have a: "add_all c config (s # xs) bs = add_all c config xs bs1" by (simp add: and_then_def)
    have callback: "build_callback est None c config s err bs = (True, err, bs1)"
      using Inr by (simp add: build_callback_def del: and_then_Inr)
    have "sd_budget_failed bs1 = sd_budget_failed bs"
      using \<open>add_sample config vw bs = Inr bs1\<close> by (auto simp: add_sample_def Let_def split: if_splits)
    then show ?thesis
      using Cons.IH [of "ct\<lparr>ct_count := ct_count ct + 1\<rparr>" bs1] callback unfolding a
      by (auto simp: callback split: sum.splits)
  qed
qed simp

lemma feed_cached:
  "feed (build_callback est key c config) xs ct err bs = (True, ct', err', bs') \<Longrightarrow>
   \<exists>bs''. add_all c config xs bs = Inr bs'' \<and> same_build bs'' bs' \<and> err' = err \<and> sd_budget_failed bs' = sd_budget_failed bs"
proof (induction xs arbitrary: ct bs)
  case (Cons s xs)
  obtain vw bs1 where s: "eval_sample c config s = Inr vw" "add_sample config vw bs = Inr bs1"
    using Cons.prems by (cases "and_then (eval_sample c config s) (\<lambda>vw. add_sample config vw bs)")
      (auto simp: build_callback_def simp del: and_then_Inl)
  have b1: "sd_budget_failed bs1 = sd_budget_failed bs"
    using s(2) by (auto simp: add_sample_def Let_def split: if_splits)
  obtain bs2 where b2: "build_callback est key c config s err bs = (True, err, bs2)" "same_build bs2 bs1"
      "sd_budget_failed bs2 = sd_budget_failed bs"
    using Cons.prems s b1
    by (auto simp: build_callback_def and_then_def Let_def split: option.splits if_splits prod.splits)
  then have "feed (build_callback est key c config) xs (ct\<lparr>ct_count := ct_count ct + 1\<rparr>) err bs2 = (True, ct', err', bs')"
    using Cons.prems by simp
  from Cons.IH [OF this] obtain bs'' where i: "add_all c config xs bs2 = Inr bs''" "same_build bs'' bs'" "err' = err"
    "sd_budget_failed bs' = sd_budget_failed bs2" by blast
  obtain bs3 where "add_all c config xs bs1 = Inr bs3" "same_build bs'' bs3"
    using add_all_same [OF b2(2), of c config xs] i(1) by (cases "add_all c config xs bs1") auto
  then show ?case using i(2,3,4) s b2(3) by (auto simp: and_then_def same_build_def)
qed auto

lemma feed_cached_stop:
  "feed (build_callback est key c config) xs ct err bs = (False, ct', err', bs') \<Longrightarrow> err' \<noteq> [] \<or> sd_budget_failed bs'"
proof (induction xs arbitrary: ct err bs)
  case (Cons s xs)
  then show ?case
    using eval_sample_error [of c config s] add_sample_error [of config]
    by (auto simp: build_callback_def Let_def split: sum.splits option.splits if_splits prod.splits) (metis and_then_Inl)+
qed simp


lemma build_success:
  assumes "fst (build_base est f config b e key cerr r) = Inr base"
  shows "\<exists>c cs ss xs bs. build_setup f config = Inr (c, cs, ss) \<and>
    scanned f (ck_edge (cf_clock_sample config)) (ck_point (cf_clock_sample config)) cs ss b e (CHR ''b'') (clock_eval_of c)
      = Inr (xs, None) \<and>
    add_all c config xs (start_build config b e cerr r) = Inr bs \<and> base = finished_base False bs"
proof -
  obtain c cs ss where s: "build_setup f config = Inr (c, cs, ss)"
    using assms by (cases "build_setup f config") (auto simp: build_base_def)
  let ?cb = "build_callback est key c config"
  let ?start = "start_build config b e cerr r"
  let ?scan = "scanned f (ck_edge (cf_clock_sample config)) (ck_point (cf_clock_sample config)) cs ss b e (CHR ''b'') (clock_eval_of c)"
  obtain res bs where x: "expression_scanner_scan f (ck_edge (cf_clock_sample config)) (ck_point (cf_clock_sample config))
      cs ss b e (CHR ''b'') (- 1) (clock_eval_of c) ?cb [] ?start = (res, bs)" by fastforce
  have ok: "\<not> sd_budget_failed bs" "sr_ok res" "base = finished_base (sr_truncated res) bs"
    using assms by (auto simp: build_base_def s x split: if_splits)
  obtain xs ce where sc: "?scan = Inr (xs, ce)"
    using x ok(2) by (cases ?scan) (auto simp: expression_scan_fed scan_failed_def)
  let ?zero = "\<lparr>ct_count = 0, ct_truncated = False\<rparr>"
  obtain keep ct err bs' where fd: "feed ?cb xs ?zero [] ?start = (keep, ct, err, bs')" by (metis prod_cases4)
  have res: "(res, bs) = fed_result (fed ?cb (xs, ce) ?zero [] ?start)"
    using x sc by (simp add: expression_scan_fed)
  have keep: "keep"
  proof (rule ccontr)
    assume "\<not> keep"
    then have "err = [] \<and> bs = bs'" using res fd ok(2) by (auto simp: fed_def fed_result_def split: option.splits)
    then show False using feed_cached_stop [of est key c config xs ?zero "[]" ?start ct err bs'] fd \<open>\<not> keep\<close> ok(1) by simp
  qed
  then have ce: "ce = None" "bs = bs'" "sr_truncated res = ct_truncated ct"
    using res fd ok(2) by (auto simp: fed_def fed_result_def split: option.splits)
  obtain bs'' where a: "add_all c config xs ?start = Inr bs''" "same_build bs'' bs'"
    using feed_cached [of est key c config xs ?zero "[]" ?start ct err bs'] fd keep by auto
  have "ct_truncated ct = False"
  proof -
    have "feed cb ys ct0 er u = (k, ct1, er1, u1) \<Longrightarrow> ct_truncated ct1 = ct_truncated ct0"
      for cb :: "stream_build sample_callback" and ys ct0 er u k ct1 er1 u1
      by (induction cb ys ct0 er u rule: feed.induct) (auto split: if_splits prod.splits)
    from this [OF fd] show ?thesis by simp
  qed
  then have "base = finished_base False bs''" using ok(3) ce same_finished [OF a(2)] by simp
  then show ?thesis using s sc ce(1) a(1) by blast
qed

lemma build_uncached:
  assumes "build_setup f config = Inr (c, cs, ss)"
    "scanned f (ck_edge (cf_clock_sample config)) (ck_point (cf_clock_sample config)) cs ss b e (CHR ''b'') (clock_eval_of c)
      = Inr (xs, None)"
  shows "fst (build_base est f config b e None cerr r) =
    (case add_all c config xs (start_build config b e cerr r) of Inl msg \<Rightarrow> Inl msg | Inr bs \<Rightarrow> Inr (finished_base False bs))"
proof -
  let ?start = "start_build config b e cerr r"
  let ?zero = "\<lparr>ct_count = 0, ct_truncated = False\<rparr>"
  note u = feed_uncached [of est c config xs ?zero "[]" ?start]
  show ?thesis
  proof (cases "add_all c config xs ?start")
    case (Inl msg)
    then obtain ct' bs' where "feed (build_callback est None c config) xs ?zero [] ?start = (False, ct', msg, bs')" "msg \<noteq> []"
      using u by blast
    then show ?thesis using assms Inl by (simp add: build_base_def expression_scan_fed fed_def fed_result_def)
  next
    case (Inr bs)
    then have "feed (build_callback est None c config) xs ?zero [] ?start = (True, ?zero\<lparr>ct_count := int (length xs)\<rparr>, [], bs)"
      using u by simp
    moreover from this have "\<not> sd_budget_failed bs"
      using feed_cached [of est None c config xs ?zero "[]" ?start _ "[]" bs] by (auto simp: start_build_def)
    ultimately show ?thesis using assms Inr by (simp add: build_base_def expression_scan_fed fed_def fed_result_def)
  qed
qed

section \<open>What samples show\<close>

definition displays :: "compiled \<Rightarrow> stream_config \<Rightarrow> clock_sample list \<Rightarrow> sample_view list \<Rightarrow> bool" where
  "displays c config xs vws \<longleftrightarrow> list_all2 (\<lambda>s vw. eval_sample c config s = Inr vw) xs vws"

fun add_views :: "stream_config \<Rightarrow> sample_view list \<Rightarrow> stream_build \<Rightarrow> string + stream_build" where
  "add_views config [] bs = Inr bs"
| "add_views config (vw # vws) bs = and_then (add_sample config vw bs) (add_views config vws)"

lemma add_all_views: "displays c config xs vws \<Longrightarrow> add_all c config xs bs = add_views config vws bs"
proof (induction xs arbitrary: vws bs)
  case (Cons s xs)
  then obtain vw vws' where v: "vws = vw # vws'" "eval_sample c config s = Inr vw" "displays c config xs vws'"
    by (auto simp: displays_def list_all2_Cons1)
  have "add_all c config xs = add_views config vws'" using Cons.IH [OF v(3)] by (rule ext)
  then show ?case using v by (simp add: and_then_val)
qed (simp add: displays_def)

lemma add_all_displays: "add_all c config xs bs = Inr bs' \<Longrightarrow> \<exists>vws. displays c config xs vws"
proof (induction xs arbitrary: bs)
  case (Cons s xs)
  then obtain vw bs1 where "eval_sample c config s = Inr vw" "add_all c config xs bs1 = Inr bs'" by auto
  moreover from this(2) obtain vws where "displays c config xs vws" using Cons.IH by blast
  ultimately have "displays c config (s # xs) (vw # vws)" by (simp add: displays_def)
  then show ?case ..
qed (auto simp: displays_def)

lemma holds_views:
  "add_views config vws bs = Inr bs' \<Longrightarrow> stable_ok config \<Longrightarrow> holds config pre (sd_base bs) \<Longrightarrow> holds config (pre @ vws) (sd_base bs')"
proof (induction vws arbitrary: pre bs)
  case (Cons vw vws)
  then obtain bs1 where "add_sample config vw bs = Inr bs1" "add_views config vws bs1 = Inr bs'" by auto
  then show ?case using Cons.IH [of bs1 "pre @ [vw]"] holds_add [OF Cons.prems(3,2)] Cons.prems(2) by simp
qed simp

lemma holds_finished: "holds config vws (finished_base t bs) = holds config vws (sd_base bs)"
  by (simp add: holds_def finished_base_def)

lemma displays_times: "displays c config xs vws \<Longrightarrow> map (\<lambda>vw. md_time (vw_metadata vw)) vws = map cs_time xs"
  unfolding displays_def
  by (induction xs vws rule: list_all2_induct) (auto simp: eval_sample_def Let_def make_metadata_def)

lemma displays_length: "displays c config xs vws \<Longrightarrow> length vws = length xs"
  by (simp add: displays_def list_all2_lengthD)

end
