(* ===== verification/Stream_Answers.thy ===== *)
theory Stream_Answers
  imports Stream_Ranges
begin

text \<open>
  A range answered from the analysis of a larger range.  The samples of a range are a contiguous part of
  those of the larger one, the packets a build opens in the range are the packets the larger build has
  open there, so the range's build fails only if the larger one does; and the view walks over the same
  samples in both.
\<close>

section \<open>The samples of a range\<close>

abbreviation view_time :: "sample_view \<Rightarrow> nat" where
  "view_time vw \<equiv> md_time (vw_metadata vw)"

definition views_in :: "nat \<Rightarrow> nat \<Rightarrow> sample_view list \<Rightarrow> sample_view list" where
  "views_in b e vws = filter (\<lambda>vw. b \<le> view_time vw \<and> view_time vw \<le> e) vws"

lemma takeWhile_none: "\<forall>x\<in>set xs. \<not> P x \<Longrightarrow> takeWhile P xs = []"
  by (cases xs) simp_all

lemma filter_between_sorted:
  fixes f :: "'a \<Rightarrow> nat"
  assumes "sorted (map f xs)" "lo \<le> hi"
  shows "filter (\<lambda>x. lo \<le> f x \<and> f x \<le> hi) xs =
     take (length (takeWhile (\<lambda>x. f x \<le> hi) xs) - length (takeWhile (\<lambda>x. f x < lo) xs))
       (drop (length (takeWhile (\<lambda>x. f x < lo) xs)) xs)"
    (is "?filter xs = ?part xs")
  using assms(1)
proof (induction xs)
  case (Cons x xs)
  then have IH: "?filter xs = ?part xs" and above: "\<forall>y\<in>set xs. f x \<le> f y" by simp_all
  consider "f x < lo" | "lo \<le> f x" "f x \<le> hi" | "hi < f x" by linarith
  then show ?case
  proof cases
    case 2
    then have none: "takeWhile (\<lambda>x. f x < lo) xs = []" using above by (intro takeWhile_none) auto
    show ?thesis using 2 IH unfolding none by simp
  next
    case 3
    then have "?filter xs = []" using above by (auto simp: filter_empty_conv)
    then show ?thesis using 3 assms(2) by simp
  qed (use IH assms(2) in simp)
qed simp

lemma takeWhile_between:
  fixes f :: "'a \<Rightarrow> nat"
  assumes "lo \<le> hi"
  shows "length (takeWhile (\<lambda>x. f x < lo) xs) \<le> length (takeWhile (\<lambda>x. f x \<le> hi) xs)"
  using assms by (induction xs) auto

lemma takeWhile_length_map: "length (takeWhile (\<lambda>x. P (f x)) xs) = length (takeWhile P (map f xs))"
  by (simp add: takeWhile_map comp_def)

lemma tagged_times: "map md_time (tagged n vws) = map view_time vws"
  by (induction n vws rule: tagged.induct) simp_all

text \<open>What a view does with a base that holds what its samples showed.\<close>

definition answer :: "stream_config \<Rightarrow> query_options \<Rightarrow> bool \<Rightarrow> sample_view list \<Rightarrow> string + stream_analysis" where
  "answer config opts whole vws =
     and_then (wanted_channel opts) (\<lambda>wanted.
     and_then (replay config opts wanted 0 vws (start_view opts whole)) (\<lambda>vs.
     Inr (finish_view opts wanted (if vws = [] then qo_end opts else view_time (last vws)) (length vws) vs)))"

lemma answer_cases [code]:
  "answer config opts whole vws =
     (case wanted_channel opts of
        Inl e \<Rightarrow> Inl e
      | Inr wanted \<Rightarrow> (case replay config opts wanted 0 vws (start_view opts whole) of
          Inl e \<Rightarrow> Inl e
        | Inr vs \<Rightarrow> Inr (finish_view opts wanted (if vws = [] then qo_end opts else view_time (last vws)) (length vws) vs)))"
  by (simp add: answer_def and_then_def)

lemma materialize_answer:
  assumes h: "holds config vws base" and s: "sorted (map view_time vws)" and r: "qo_begin opts \<le> qo_end opts"
  shows "materialize base config opts = answer config opts (sb_complete base) (views_in (qo_begin opts) (qo_end opts) vws)"
proof -
  let ?b = "begin_index base (qo_begin opts)" and ?e = "end_index base (qo_end opts)"
  let ?ws = "views_in (qo_begin opts) (qo_end opts) vws"
  have times: "map md_time (sb_samples base) = map view_time vws" using h by (simp add: holds_def tagged_times)
  have samples: "length (sb_samples base) = length vws" using h by (simp add: holds_def)
  have b: "?b = length (takeWhile (\<lambda>vw. view_time vw < qo_begin opts) vws)"
    and e: "?e = length (takeWhile (\<lambda>vw. view_time vw \<le> qo_end opts) vws)"
    using takeWhile_length_map [where P = "\<lambda>t. t < qo_begin opts"] takeWhile_length_map [where P = "\<lambda>t. t \<le> qo_end opts"]
    by (metis begin_index_def times, metis end_index_def times)
  have le: "?b \<le> ?e" "?e \<le> length vws"
    using takeWhile_between [OF r] length_takeWhile_le by (simp_all add: b e)
  have ws: "?ws = take (?e - ?b) (drop ?b vws)"
    using filter_between_sorted [OF s r] by (simp add: views_in_def b e)
  have len: "length ?ws = ?e - ?b" using le by (simp add: ws)
  have finish: "(if ?b = ?e then qo_end opts else md_time (sb_samples base ! (?e - 1)))
      = (if ?ws = [] then qo_end opts else view_time (last ?ws))"
  proof (cases "?b = ?e")
    case True
    then show ?thesis using ws by simp
  next
    case False
    then have ne: "?ws \<noteq> []" using le len by auto
    then have "last ?ws = ?ws ! (?e - ?b - 1)" by (simp add: last_conv_nth len)
    also have "\<dots> = vws ! (?e - 1)" using False le by (simp add: ws)
    also have "view_time \<dots> = map view_time vws ! (?e - 1)" using False le by simp
    also have "\<dots> = md_time (sb_samples base ! (?e - 1))"
      using False le samples unfolding times [symmetric] by simp
    finally show ?thesis using False ne by simp
  qed
  show ?thesis
    using view_loop_replay [OF h le(2,1)] finish len unfolding materialize_def answer_def ws by (simp add: Let_def)
qed

section \<open>The builds of a range and of a larger one\<close>

text \<open>The channel of the single open packet, as the check of a transfer reads it.\<close>

definition open_channel :: "packet_build \<Rightarrow> stream_value" where
  "open_channel b =
     (if pk_index (pb_single b) < length (pb_packets b) then bp_channel (pb_packets b ! pk_index (pb_single b)) else no_value)"

definition covered :: "packet_build \<Rightarrow> packet_build \<Rightarrow> bool" where
  "covered b' b \<longleftrightarrow>
     (pk_active (pb_single b') \<longrightarrow>
      pk_active (pb_single b) \<and> pk_index (pb_single b') < length (pb_packets b') \<and>
      pk_index (pb_single b) < length (pb_packets b) \<and> open_channel b' = open_channel b)"

definition channel_at_start :: "stream_config \<Rightarrow> stream_value \<Rightarrow> stream_value" where
  "channel_at_start config channel =
     (if cf_channel_id_valid config = ''sop'' \<or> cf_channel_id_valid config = ''every_beat'' then channel else no_value)"

lemma length_at_index [simp]: "length (at_index i f xs) = length xs"
  by (simp add: at_index_def)

lemma start_single:
  "pk_active (pb_single (base_start_packet config None stables channel partial b))"
  "pk_index (pb_single (base_start_packet config None stables channel partial b))
     < length (pb_packets (base_start_packet config None stables channel partial b))"
  "open_channel (base_start_packet config None stables channel partial b) = channel_at_start config channel"
  by (simp_all add: base_start_packet_def Let_def set_build_state_def open_channel_def channel_at_start_def)

lemma append_single:
  "pk_active (pb_single (base_append_packet config None ordinal eop channel stables b)) = pk_active (pb_single b)"
  "pk_index (pb_single (base_append_packet config None ordinal eop channel stables b)) = pk_index (pb_single b)"
  "length (pb_packets (base_append_packet config None ordinal eop channel stables b)) = length (pb_packets b)"
  "pk_index (pb_single b) < length (pb_packets b) \<Longrightarrow>
     open_channel (base_append_packet config None ordinal eop channel stables b)
     = packet_channel config eop channel (open_channel b)"
  by (simp_all add: base_append_packet_def build_state_def set_build_state_def open_channel_def at_index_def
      Let_def split: prod.split)

lemma finish_single: "\<not> pk_active (pb_single (base_finish_packet None partial b))"
  by (simp add: base_finish_packet_def Let_def build_state_def set_build_state_def idle_packet_def)

lemma covered_append:
  "covered b' b \<Longrightarrow> covered (base_append_packet config None n' eop channel stables' b')
     (base_append_packet config None n eop channel stables b)"
  by (simp add: covered_def append_single)

lemma covered_start:
  "covered (base_start_packet config None stables' channel p' b') (base_start_packet config None stables channel p b)"
  by (simp add: covered_def start_single)

lemma covered_idle: "\<not> pk_active (pb_single b') \<Longrightarrow> covered b' b"
  by (simp add: covered_def)

text \<open>What a build does with a transfer it accepts.\<close>

definition accepted ::
  "stream_config \<Rightarrow> string option \<Rightarrow> sample_metadata \<Rightarrow> nat \<Rightarrow> field_values \<Rightarrow> stream_value \<Rightarrow> packet_build \<Rightarrow> packet_build" where
  "accepted config slot md ordinal stables channel b =
     (let b1 = (if md_sop md then base_start_packet config slot stables channel False b
                else if \<not> pk_active (build_state slot b) \<and> md_eop md
                then base_start_packet config slot stables channel True b else b)
      in if \<not> pk_active (build_state slot b1) then b1
         else if md_eop md
         then base_finish_packet slot False (base_append_packet config slot ordinal True channel stables b1)
         else base_append_packet config slot ordinal False channel stables b1)"

lemma packet_step_accepted:
  "base_packet_step config md ordinal stables channel b =
     (case packet_error config channel (pk_active (pb_single b)) (open_channel b) of
        Some err \<Rightarrow> Inl err
      | None \<Rightarrow> Inr (accepted config (packet_slot config channel) md ordinal stables channel b))"
  by (simp add: base_packet_step_def open_channel_def accepted_def Let_def split: option.split)

lemma accepted_covered:
  assumes w: "covered b' b" and same: "md_sop md' = md_sop md" "md_eop md' = md_eop md"
  shows "covered (accepted config None md' n' stables channel b') (accepted config None md n stables channel b)"
proof (cases "md_eop md")
  case True
  have "\<not> pk_active (pb_single (accepted config None md' n' stables channel b'))"
    using True same finish_single by (simp add: accepted_def Let_def build_state_def)
  then show ?thesis by (rule covered_idle)
next
  case False
  show ?thesis
  proof (cases "md_sop md")
    case True
    then show ?thesis using False same covered_append [OF covered_start]
      by (simp add: accepted_def Let_def build_state_def start_single)
  next
    case nosop: False
    show ?thesis
    proof (cases "pk_active (pb_single b')")
      case True
      then have "pk_active (pb_single b)" using w by (simp add: covered_def)
      then show ?thesis using True False nosop same covered_append [OF w] by (simp add: accepted_def Let_def build_state_def)
    next
      case idle: False
      then show ?thesis using False nosop same by (simp add: accepted_def Let_def build_state_def covered_idle)
    qed
  qed
qed

text \<open>A transfer that a build accepts is accepted by the build of a part of its samples.\<close>

lemma packet_step_covered:
  assumes w: "cf_allow_interleaving config \<or> covered b' b" and same: "md_sop md' = md_sop md" "md_eop md' = md_eop md"
    and ok: "base_packet_step config md n stables channel b = Inr b1"
  shows "\<exists>b1'. base_packet_step config md' n' stables channel b' = Inr b1' \<and> (cf_allow_interleaving config \<or> covered b1' b1)"
proof -
  have err0: "packet_error config channel (pk_active (pb_single b)) (open_channel b) = None"
    and b1: "b1 = accepted config (packet_slot config channel) md n stables channel b"
    using ok by (auto simp: packet_step_accepted split: option.splits)
  then have err: "packet_error config channel (pk_active (pb_single b')) (open_channel b') = None"
    using w by (auto simp: packet_error_def covered_def split: if_splits)
  show ?thesis
  proof (cases "cf_allow_interleaving config")
    case True
    then show ?thesis using err by (simp add: packet_step_accepted)
  next
    case False
    then have "packet_slot config channel = None" by (simp add: packet_slot_def)
    then show ?thesis using accepted_covered [OF _ same] w False err b1 by (simp add: packet_step_accepted)
  qed
qed

definition build_covered :: "stream_config \<Rightarrow> stream_build \<Rightarrow> stream_build \<Rightarrow> bool" where
  "build_covered config bs' bs \<longleftrightarrow>
     cf_allow_interleaving config \<or>
     covered \<lparr>pb_packets = sb_packets (sd_base bs'), pb_single = sd_single bs', pb_channels = sd_channels bs'\<rparr>
       \<lparr>pb_packets = sb_packets (sd_base bs), pb_single = sd_single bs, pb_channels = sd_channels bs\<rparr>"

lemma add_sample_covered:
  assumes w: "build_covered config bs' bs" and ok: "add_sample config vw bs = Inr bs1"
  shows "\<exists>bs1'. add_sample config vw bs' = Inr bs1' \<and> build_covered config bs1' bs1"
proof (cases "md_transfer (vw_metadata vw)")
  case False
  then show ?thesis using assms by (auto simp: add_sample_def Let_def build_covered_def)
next
  case t: True
  show ?thesis
  proof (cases "stream_packet_enabled config")
    case False
    then show ?thesis using t assms by (auto simp: add_sample_def Let_def build_covered_def and_then_val)
  next
    case True
    obtain b1 where b1: "base_packet_step config ((vw_metadata vw)\<lparr>md_ordinal := int (length (sb_transfer_ids (sd_base bs)))\<rparr>)
        (length (sb_transfer_ids (sd_base bs))) (vw_stable vw) (vw_channel vw)
        \<lparr>pb_packets = sb_packets (sd_base bs), pb_single = sd_single bs, pb_channels = sd_channels bs\<rparr> = Inr b1"
      "bs1 = bs\<lparr>sd_base := sd_base bs1, sd_single := pb_single b1, sd_channels := pb_channels b1\<rparr>"
      "sb_packets (sd_base bs1) = pb_packets b1"
      using ok t True by (auto simp: add_sample_def Let_def)
    from packet_step_covered [OF w [unfolded build_covered_def] _ _ b1(1), of
        "(vw_metadata vw)\<lparr>md_ordinal := int (length (sb_transfer_ids (sd_base bs')))\<rparr>" "length (sb_transfer_ids (sd_base bs'))"]
    obtain b1' where b1': "base_packet_step config ((vw_metadata vw)\<lparr>md_ordinal := int (length (sb_transfer_ids (sd_base bs')))\<rparr>)
        (length (sb_transfer_ids (sd_base bs'))) (vw_stable vw) (vw_channel vw)
        \<lparr>pb_packets = sb_packets (sd_base bs'), pb_single = sd_single bs', pb_channels = sd_channels bs'\<rparr> = Inr b1'"
      "cf_allow_interleaving config \<or> covered b1' b1" by auto
    have "sd_single bs1 = pb_single b1" "sd_channels bs1 = pb_channels b1"
      by (subst b1(2), simp)+
    then show ?thesis using b1' b1(3) t True
      by (auto simp: add_sample_def Let_def build_covered_def and_then_val covered_def open_channel_def)
  qed
qed

lemma add_views_covered:
  "build_covered config bs' bs \<Longrightarrow> add_views config vws bs = Inr bs1 \<Longrightarrow> \<exists>bs1'. add_views config vws bs' = Inr bs1'"
proof (induction vws arbitrary: bs bs')
  case (Cons vw vws)
  then obtain bs2 where "add_sample config vw bs = Inr bs2" "add_views config vws bs2 = Inr bs1" by auto
  then show ?case using add_sample_covered [OF Cons.prems(1)] Cons.IH by (metis add_views.simps(2) and_then_Inr)
qed simp

lemma add_views_append: "add_views config (xs @ ys) bs = and_then (add_views config xs bs) (add_views config ys)"
  by (induction xs arbitrary: bs) (auto simp: and_then_def split: sum.split)

lemma start_covered: "build_covered config (start_build config' b e cerr r) bs"
  by (simp add: build_covered_def start_build_def covered_def idle_packet_def)

section \<open>The signals of a build\<close>

lemma dep_signals_ok:
  "dep_signals f kind c sigs = Inr ss \<Longrightarrow>
     map sg_alias ss = sigs \<and>
     (\<forall>s\<in>set ss. \<exists>path. omap_get (cp_dep_paths c) (sg_alias s) = Some path \<and> sg_handle s = sig_by_name f path)"
  by (induction sigs arbitrary: ss) (auto split: option.splits)

lemma setup_signals:
  assumes "build_setup f config = Inr (c, cs, ss)"
  shows "consistent_aliases (cs @ ss)" "map sg_alias cs = se_signals (cp_clock c)"
proof -
  have d: "dep_signals f ''clock'' c (se_signals (cp_clock c)) = Inr cs" "dep_signals f ''sample'' c (cp_deps c) = Inr ss"
    using assms by (auto simp: build_setup_def)
  have "\<exists>path. omap_get (cp_dep_paths c) (sg_alias s) = Some path \<and> sg_handle s = sig_by_name f path"
    if "s \<in> set (cs @ ss)" for s
    using that dep_signals_ok [OF d(1)] dep_signals_ok [OF d(2)] by auto
  then show "consistent_aliases (cs @ ss)" unfolding consistent_aliases_def by (metis option.inject)
  show "map sg_alias cs = se_signals (cp_clock c)" using dep_signals_ok [OF d(1)] by simp
qed

lemma clock_reads_only:
  assumes "map sg_alias cs = se_signals (cp_clock c)"
  shows "reads_only cs (clock_eval_of c)"
  unfolding reads_only_def
proof (intro allI impI)
  fix m m' :: "(string, string) omap"
  assume eq: "\<forall>s\<in>set cs. omap_get m (sg_alias s) = omap_get m' (sg_alias s)"
  have same: "omap_get m s = omap_get m' s" if "s \<in> set (se_signals (cp_clock c))" for s
    using that eq unfolding assms [symmetric] by auto
  have "List.find (\<lambda>s. omap_get m s = None) (se_signals (cp_clock c)) = List.find (\<lambda>s. omap_get m' s = None) (se_signals (cp_clock c))"
    by (rule find_cong) (simp_all add: same)
  moreover have "map (\<lambda>s. (s, raw_value (the (omap_get m s)))) (se_signals (cp_clock c))
      = map (\<lambda>s. (s, raw_value (the (omap_get m' s)))) (se_signals (cp_clock c))"
    by (simp add: same)
  ultimately show "clock_eval_of c m = clock_eval_of c m'" unfolding clock_eval_of_def by (simp only:)
qed

section \<open>Ranges\<close>

lemma displays_in_range:
  "displays c config xs vws \<Longrightarrow> displays c config (in_range b e xs) (views_in b e vws)"
proof (induction xs arbitrary: vws)
  case (Cons s xs)
  then obtain vw vws' where v: "vws = vw # vws'" "eval_sample c config s = Inr vw" "displays c config xs vws'"
    by (auto simp: displays_def list_all2_Cons1)
  then have "displays c config [s] [vw]" by (simp add: displays_def)
  then have "view_time vw = cs_time s" using displays_times by fastforce
  then show ?case using v Cons.IH [OF v(3)] by (simp add: displays_def in_range_def views_in_def)
qed (simp add: displays_def in_range_def views_in_def)

lemma views_in_part:
  assumes "sorted (map view_time vws)" "b \<le> e"
  shows "\<exists>pre post. vws = pre @ views_in b e vws @ post"
proof -
  let ?b = "length (takeWhile (\<lambda>vw. view_time vw < b) vws)" and ?e = "length (takeWhile (\<lambda>vw. view_time vw \<le> e) vws)"
  have "views_in b e vws = take (?e - ?b) (drop ?b vws)"
    using filter_between_sorted [OF assms] by (simp add: views_in_def)
  then have "vws = take ?b vws @ views_in b e vws @ drop (?e - ?b) (drop ?b vws)"
    by (simp only: append_take_drop_id)
  then show ?thesis by blast
qed

lemma views_in_all:
  assumes "sorted (map view_time vws)"
  shows "views_in b e (views_in b e vws) = views_in b e vws" "sorted (map view_time (views_in b e vws))"
  using assms sorted_filter by (auto simp: views_in_def)

lemma cached_range_any:
  assumes f: "fsdb_replays f initial changes" and ok: "stream_config_ok config"
    and full: "fst (build_base est0 f config b0 e0 key cerr r) = Inr full"
    and range: "b0 \<le> qo_begin opts" "qo_begin opts \<le> qo_end opts" "qo_end opts \<le> e0"
  shows "analyze est f config opts r' = materialize full config opts"
proof -
  let ?b = "qo_begin opts" and ?e = "qo_end opts"
  let ?scan = "\<lambda>c cs ss b e. scanned f (ck_edge (cf_clock_sample config)) (ck_point (cf_clock_sample config)) cs ss b e (CHR ''b'') (clock_eval_of c)"
  have uniq: "stable_ok config" using ok by (rule stream_config_ok_stable)
  obtain c cs ss xs bs where prep: "build_setup f config = Inr (c, cs, ss)" and scan: "?scan c cs ss b0 e0 = Inr (xs, None)"
    and add: "add_all c config xs (start_build config b0 e0 cerr r) = Inr bs" and base: "full = finished_base False bs"
    using build_success [OF full] by blast
  obtain vws where vws: "displays c config xs vws" using add_all_displays [OF add] by blast
  have sorted: "sorted (map view_time vws)"
    using scanned_sorted [OF f scan] displays_times [OF vws] by (simp add: strict_sorted_iff)
  let ?ws = "views_in ?b ?e vws"
  have views: "add_views config vws (start_build config b0 e0 cerr r) = Inr bs" using add add_all_views [OF vws] by simp
  obtain bs' where range_build: "add_views config ?ws (start_build config ?b ?e no_error r') = Inr bs'"
  proof -
    obtain pre post where v: "vws = pre @ ?ws @ post" using views_in_part [OF sorted range(2)] by blast
    then obtain bs1 bs2 where "add_views config ?ws bs1 = Inr bs2"
      using views by (metis add_views_append and_then_Inr)
    from add_views_covered [OF start_covered this] show ?thesis using that by blast
  qed
  have "?scan c cs ss ?b ?e = Inr (in_range ?b ?e xs, None)"
    by (rule scanned_range [OF f range setup_signals(1) [OF prep] clock_reads_only [OF setup_signals(2) [OF prep]] scan])
  from build_uncached [OF prep this, of est no_error r']
  have part: "fst (build_base est f config ?b ?e None no_error r') = Inr (finished_base False bs')"
    using range_build add_all_views [OF displays_in_range [OF vws]] by simp
  have holds: "holds config vws full" "holds config ?ws (finished_base False bs')"
    using holds_views [OF views uniq, of "[]"] holds_views [OF range_build uniq, of "[]"]
    by (simp_all add: base holds_finished start_build_def holds_empty)
  have "materialize (finished_base False bs') config opts = answer config opts True ?ws"
    using materialize_answer [OF holds(2) views_in_all(2) [OF sorted] range(2)] views_in_all(1) [OF sorted]
    by (simp add: finished_base_def)
  moreover have "materialize full config opts = answer config opts True ?ws"
    using materialize_answer [OF holds(1) sorted range(2)] by (simp add: base finished_base_def)
  ultimately show ?thesis using part by (simp add: analyze_def and_then_val)
qed

text \<open>
  C30: the base analysis of a part of the file answers every query of a range in it, whatever the view's
  filter and limits: what a scan of the range alone would answer, errors of the query included.  The base
  may have been built for the cache.
\<close>

theorem cached_range_answer:
  assumes f: "fsdb_replays f initial changes" and ok: "stream_config_ok config"
    and full: "fst (build_base est f config b0 e0 key cerr r) = Inr full"
    and range: "b0 \<le> qo_begin opts" "qo_begin opts \<le> qo_end opts" "qo_end opts \<le> e0"
  shows "analyze est f config opts r' = materialize full config opts"
  by (rule cached_range_any [OF f ok full range])

text \<open>A packet of three beats, and a query of the range of its last two.\<close>

definition packet_log :: "(nat \<times> string \<times> string) list" where
  "packet_log = [(2, ''v'', ''1''), (2, ''s'', ''1''), (5, ''clk'', ''1''), (10, ''clk'', ''0''), (11, ''s'', ''0''),
     (15, ''clk'', ''1''), (20, ''clk'', ''0''), (21, ''e'', ''1''), (25, ''clk'', ''1'')]"

definition packet_fsdb :: "string fsdb" where
  "packet_fsdb =
     \<lparr>sig_by_name = Some, sig_width = (\<lambda>_. Some 1),
      values_at = (\<lambda>hs t. Some (map (\<lambda>h. value_of (\<lambda>_. ''0'') packet_log h t) hs)),
      value_changes = log_changes packet_log, min_time = 0, max_time = 30\<rparr>"

definition packet_config :: stream_config where
  "packet_config =
     sample_stream_config\<lparr>cf_signals := [(''clk'', ''clk''), (''d'', ''d''), (''e'', ''e''), (''s'', ''s''), (''v'', ''v'')],
       cf_sop := ''s'', cf_eop := ''e''\<rparr>"

definition packet_query :: query_options where
  "packet_query =
     \<lparr>qo_begin = 10, qo_end = 30, qo_limit = 10, qo_retain_limit = 0, qo_channel_filter = [],
      qo_filter = \<lparr>fl_enabled = False, fl_position = [], fl_fields = []\<rparr>, qo_query_kind = [], qo_packet_index = 0\<rparr>"

lemma packet_fsdb_replays: "fsdb_replays packet_fsdb (\<lambda>_. ''0'') packet_log"
  by (simp add: fsdb_replays_def packet_fsdb_def packet_log_def)

lemma packet_config_ok: "stream_config_ok packet_config"
  by code_simp

definition plain_expression :: "string \<Rightarrow> stream_expression" where
  "plain_expression s =
     \<lparr>se_text = s, se_root = (if s = [] then None else Some (Signal s)), se_signals = (if s = [] then [] else [s]),
      se_plain_signal = (s \<noteq> [])\<rparr>"

definition packet_compiled :: compiled where
  "packet_compiled =
     \<lparr>cp_clock = plain_expression ''clk'', cp_vld = plain_expression ''v'', cp_rdy = plain_expression [],
      cp_bp = plain_expression [], cp_sop = plain_expression ''s'', cp_eop = plain_expression ''e'',
      cp_data = plain_expression ''d'', cp_channel = plain_expression [], cp_stable_fields = [], cp_beat_fields = [],
      cp_deps = [''clk'', ''d'', ''e'', ''s'', ''v''],
      cp_dep_paths = [(''clk'', ''clk''), (''d'', ''d''), (''e'', ''e''), (''s'', ''s''), (''v'', ''v'')]\<rparr>"

lemma packet_setup:
  "build_setup packet_fsdb packet_config =
     Inr (packet_compiled, demo_signals [''clk''], demo_signals [''clk'', ''d'', ''e'', ''s'', ''v''])"
  by code_simp

definition packet_samples :: "clock_sample list" where
  "packet_samples =
     map (\<lambda>(t, bits). \<lparr>cs_time = t, cs_edge = Posedge, cs_values = map (\<lambda>c. [CHR 0x27, CHR ''b'', c]) bits\<rparr>)
       [(5, ''00011''), (15, ''00001''), (25, ''00101'')]"

definition packet_views :: "sample_view list" where
  "packet_views =
     map (\<lambda>(t, sop, eop).
        \<lparr>vw_metadata = \<lparr>md_time = t, md_reset = False, md_vld = True, md_rdy = True, md_bp = False, md_sop = sop,
           md_eop = eop, md_transfer = True, md_stall = False, md_stall_reason = [], md_control_xz = 0, md_data_xz = 0,
           md_ordinal = - 1\<rparr>,
         vw_fields = [(''data'', StreamValue ''0'' True True)], vw_stable = [], vw_channel = no_value\<rparr>)
       [(5, True, False), (15, False, False), (25, False, True)]"

lemma packet_scan:
  "scanned packet_fsdb Posedge Before (demo_signals [''clk'']) (demo_signals [''clk'', ''d'', ''e'', ''s'', ''v'']) 0 30
     (CHR ''b'') (clock_eval_of packet_compiled) = Inr (packet_samples, None)"
  by code_simp

lemma packet_displays: "displays packet_compiled packet_config packet_samples packet_views"
  by code_simp

definition packet_base :: stream_base where
  "packet_base =
     (case add_views packet_config packet_views (start_build packet_config 0 30 no_error (new_repository cache_config_default)) of
        Inl _ \<Rightarrow> empty_base packet_config 0 30 | Inr bs \<Rightarrow> finished_base False bs)"

lemma packet_build_ok:
  "case add_views packet_config packet_views (start_build packet_config 0 30 no_error (new_repository cache_config_default)) of
     Inl _ \<Rightarrow> False | Inr bs \<Rightarrow> True"
  by code_simp

lemma packet_built:
  "fst (build_base (\<lambda>_. 0) packet_fsdb packet_config 0 30 None no_error (new_repository cache_config_default)) = Inr packet_base"
  "holds packet_config packet_views packet_base"
proof -
  let ?start = "start_build packet_config 0 30 no_error (new_repository cache_config_default)"
  obtain bs where bs: "add_views packet_config packet_views ?start = Inr bs"
    using packet_build_ok by (auto split: sum.splits)
  then have base: "packet_base = finished_base False bs" by (simp add: packet_base_def)
  have clock: "ck_edge (cf_clock_sample packet_config) = Posedge" "ck_point (cf_clock_sample packet_config) = Before"
    by (simp_all add: packet_config_def sample_stream_config_def)
  show "fst (build_base (\<lambda>_. 0) packet_fsdb packet_config 0 30 None no_error (new_repository cache_config_default)) = Inr packet_base"
    using build_uncached [OF packet_setup, of 0 30 packet_samples] packet_scan bs
    by (simp add: clock base add_all_views [OF packet_displays])
  show "holds packet_config packet_views packet_base"
    using holds_views [OF bs stream_config_ok_stable [OF packet_config_ok], of "[]"]
    by (simp add: base holds_finished start_build_def holds_empty)
qed

lemma packet_counts:
  "case answer packet_config packet_query True (views_in 10 30 packet_views) of
     Inl _ \<Rightarrow> False | Inr a \<Rightarrow> (an_transfer_count a, an_complete_packets a, an_partial_packets a) = (2, 0, 1)"
  by code_simp

lemma packet_answer:
  "case materialize packet_base packet_config packet_query of
     Inl _ \<Rightarrow> False | Inr a \<Rightarrow> (an_transfer_count a, an_complete_packets a, an_partial_packets a) = (2, 0, 1)"
proof -
  have "sb_complete packet_base = True"
    using packet_build_ok by (auto simp: packet_base_def finished_base_def split: sum.splits)
  then have "materialize packet_base packet_config packet_query = answer packet_config packet_query True (views_in 10 30 packet_views)"
    using materialize_answer [OF packet_built(2), of packet_query] by (simp add: packet_views_def packet_query_def)
  then show ?thesis using packet_counts by simp
qed

theorem cached_range_answer_witness:
  "case analyze (\<lambda>_. 0) packet_fsdb packet_config packet_query (new_repository cache_config_default) of
     Inl _ \<Rightarrow> False | Inr a \<Rightarrow> (an_transfer_count a, an_complete_packets a, an_partial_packets a) = (2, 0, 1)"
  using cached_range_answer [OF packet_fsdb_replays packet_config_ok packet_built(1), of packet_query "new_repository cache_config_default"]
    packet_answer by (simp add: packet_query_def)

end
