(* ===== verification/Cached_Builds.thy ===== *)
theory Cached_Builds
  imports Repository_Contract
begin

text \<open>
  What the users of the analysis cache rely on: a memory that may lose values, and that gains one only by
  its publication.  Whatever was published for its key and valid for it stays valid, so a user that
  publishes only valid values reads only valid values.
\<close>

section \<open>Forgetful memories\<close>

definition kept :: "('m \<Rightarrow> 'k \<Rightarrow> 'v option) \<Rightarrow> ('k \<Rightarrow> 'v \<Rightarrow> bool) \<Rightarrow> 'm \<Rightarrow> bool" where
  "kept view valid m \<longleftrightarrow> (\<forall>k v. view m k = Some v \<longrightarrow> valid k v)"

locale forgetful_memory =
  fixes view :: "'m \<Rightarrow> 'k \<Rightarrow> 'v option" and loses :: "'m \<Rightarrow> 'm \<Rightarrow> bool" and gains :: "'k \<Rightarrow> 'v \<Rightarrow> 'm \<Rightarrow> 'm \<Rightarrow> bool"
  assumes loses_view: "loses m m' \<Longrightarrow> view m' k = Some v \<Longrightarrow> view m k = Some v"
    and gains_view: "gains key x m m' \<Longrightarrow> view m' k = Some v \<Longrightarrow> view m k = Some v \<or> (k = key \<and> v = x)"
begin

lemma kept_loses: "kept view valid m \<Longrightarrow> loses m m' \<Longrightarrow> kept view valid m'"
  unfolding kept_def using loses_view by blast

lemma kept_gains: "kept view valid m \<Longrightarrow> gains key x m m' \<Longrightarrow> valid key x \<Longrightarrow> kept view valid m'"
  unfolding kept_def using gains_view by blast

lemma kept_both: "kept view valid m \<Longrightarrow> loses m m1 \<Longrightarrow> gains key x m1 m2 \<Longrightarrow> valid key x \<Longrightarrow> kept view valid m2"
  using kept_loses kept_gains by blast

end

section \<open>The repository as a forgetful memory\<close>

text \<open>The value of the ready object of a key; \<open>Some None\<close> would be a ready object without a value.\<close>

definition value_view :: "'v repository \<Rightarrow> cache_key \<Rightarrow> 'v option option" where
  "value_view r k = (case ready_view r k of None \<Rightarrow> None | Some (t, v, g) \<Rightarrow> Some v)"

text \<open>Objects may be lost; a new ready object is that of the given key, with the given value.\<close>

definition learns :: "cache_key \<Rightarrow> 'v option \<Rightarrow> 'v repository \<Rightarrow> 'v repository \<Rightarrow> bool" where
  "learns key x r r' \<longleftrightarrow> (\<forall>k v. value_view r' k = Some v \<longrightarrow> value_view r k = Some v \<or> (k = key \<and> v = x))"

lemma value_view_Some: "value_view r k = Some v \<longleftrightarrow> (\<exists>t g. ready_view r k = Some (t, v, g))"
  by (simp add: value_view_def split: option.split prod.split)

lemma fades_value: "fades r r' \<Longrightarrow> value_view r' k = Some v \<Longrightarrow> value_view r k = Some v"
  unfolding fades_def value_view_Some by blast

interpretation memory: forgetful_memory value_view fades learns
proof unfold_locales
  show "value_view m k = Some v" if "fades m m'" "value_view m' k = Some v" for m m' :: "'v repository" and k v
    using that by (rule fades_value)
  show "value_view m k = Some v \<or> (k = key \<and> v = x)" if "learns key x m m'" "value_view m' k = Some v"
    for m m' :: "'v repository" and k v key x
    using that unfolding learns_def by blast
qed

lemma fades_learns: "fades r r' \<Longrightarrow> learns key x r r'"
  unfolding learns_def by (blast intro: fades_value)

lemma fades_then_learns: "fades r r1 \<Longrightarrow> learns key x r1 r' \<Longrightarrow> learns key x r r'"
  unfolding learns_def by (blast intro: fades_value)

lemma learns_then_fades: "learns key x r r1 \<Longrightarrow> fades r1 r' \<Longrightarrow> learns key x r r'"
  unfolding learns_def by (blast intro: fades_value)

lemma learns_put:
  assumes "canonical_store_for_protocol (protocol key) \<noteq> None" "ob_value ob = v"
    "\<And>k. k \<noteq> key \<Longrightarrow> find_entry r1 k = find_entry r k"
  shows "learns key v r (put_entry key ob r1)"
  using assms by (auto simp: learns_def value_view_def ready_view_def find_put_entry split: if_splits option.splits)

lemma learns_settle:
  assumes "find_entry r key = Some ob"
  shows "learns key (Some v) r (settle_canonical key v n r)"
proof -
  let ?ob = "ob\<lparr>ob_state := Ready, ob_value := Some v, ob_resident := n\<rparr>"
  define r2 where "r2 = on_stats (\<lambda>s. s\<lparr>st_canonical := st_canonical s + 1\<rparr>) (add_resident_bytes n (put_entry key ?ob r))"
  define m where "m = fst (next_access_sequence r2)"
  define r4 where "r4 = put_entry key (?ob\<lparr>ob_access := m\<rparr>) (r2\<lparr>r_sequence := m\<rparr>)"
  have st: "canonical_store_for_protocol (protocol key) \<noteq> None" using find_entry_store [OF assms] by auto
  have "find_entry (r2\<lparr>r_sequence := m\<rparr>) k = find_entry r k" if "k \<noteq> key" for k
    using that st by (simp add: r2_def byte_counters find_put_entry)
  then have l: "learns key (Some v) r r4" unfolding r4_def by (intro learns_put st) simp_all
  have "\<exists>e c e'. settle_canonical key v n r
      = drop_tombstone key (emit e (if c then emit e' (enforce_soft_budget (Some key) None r4) else enforce_soft_budget (Some key) None r4))"
    unfolding settle_canonical_def assms option.case Let_def next_access_sequence_def case_prod_conv r4_def m_def r2_def fst_conv
    by (intro exI) (rule refl)
  then have "fades (enforce_soft_budget (Some key) None r4) (settle_canonical key v n r)" by (auto intro!: fades_then)
  then show ?thesis by (rule learns_then_fades [OF learns_then_fades [OF l fades_soft]])
qed

lemma learns_settle_any: "learns key (Some v) r (settle_canonical key v n r)"
proof (cases "find_entry r key")
  case None
  then have "settle_canonical key v n r = r" by (simp add: settle_canonical_def)
  then show ?thesis by (simp add: fades_learns)
qed (rule learns_settle)

lemma learns_publish: "learns key (Some v) r (snd (snd (publish_canonical key t (Some v) n err r)))"
proof (cases "fst (publish_canonical key t (Some v) n err r)")
  case False
  then show ?thesis by (intro fades_learns publish_rejected) simp
next
  case True
  then obtain ob where f: "find_entry r key = Some ob" and b: "ob_state ob = Building" and tt: "ob_type ob = t"
    by (auto simp: publish_canonical_def Let_def split: option.splits if_splits)
  define excl where "excl = (if protocol key = ''stream'' \<and> scope key = Scope_Full then Some key else None)"
  obtain ok e r1 where m: "make_hard_room (charge (r_config r) n) (Some key) None err key excl (return_build key ob r) = (ok, e, r1)"
    by (metis prod_cases3)
  obtain st where st: "canonical_store_for_protocol (protocol key) = Some st" using find_entry_store [OF f] by blast
  define r2 where "r2 = (if excl \<noteq> None then erase_stream_sibling_ranges key r1 else r1)"
  have "publish_canonical key t (Some v) n err r = (if ok then (True, e, settle_canonical key v n r2)
      else (False, e, abandon_canonical key ''hard_limit'' n r1))"
    using m by (simp add: publish_canonical_def f b tt st r2_def split: bool.split flip: excl_def)
  then have r': "snd (snd (publish_canonical key t (Some v) n err r)) = settle_canonical key v n r2"
    using True by (auto split: if_splits)
  have "fades r r1" using fades_trans [OF fades_return [OF b] fades_hard_room] m by (metis snd_conv)
  moreover have "fades r1 r2" by (simp add: r2_def erase_stream_sibling_ranges_def fades_fold)
  ultimately show ?thesis unfolding r' by (intro fades_then_learns [OF fades_trans learns_settle_any])
qed

section \<open>Publishing\<close>

text \<open>What is published stays: the room made for it and the soft budget protect it.\<close>

lemma evict_keeps_protected: "find_entry (evict_to_budget bound nc (Some key) pind reason preserve excluded r) key = find_entry r key"
proof -
  obtain early q where q: "evict_indexes bound nc excluded reason (index_candidates pind preserve r) r = (early, q)" by fastforce
  have "find_entry q key = find_entry r key"
    using evict_indexes_find [of bound nc excluded reason "index_candidates pind preserve r" r key] q by simp
  moreover have "key \<notin> set (canonical_candidates (Some key) preserve q)" by (auto simp: canonical_candidates_def)
  ultimately show ?thesis by (simp add: evict_to_budget_def q evict_canonicals_find split: bool.split)
qed

lemma room_keeps_protected: "find_entry (snd (snd (make_hard_room nc (Some key) pind err rk excluded r))) key = find_entry r key"
  by (simp add: make_hard_room_def Let_def evict_keeps_protected release_keeps)

lemma settle_ready:
  assumes "find_entry r key = Some ob"
  shows "\<exists>g. ready_view (settle_canonical key v n r) key = Some (ob_type ob, Some v, g)"
proof -
  let ?ob = "ob\<lparr>ob_state := Ready, ob_value := Some v, ob_resident := n\<rparr>"
  define r2 where "r2 = on_stats (\<lambda>s. s\<lparr>st_canonical := st_canonical s + 1\<rparr>) (add_resident_bytes n (put_entry key ?ob r))"
  define m where "m = fst (next_access_sequence r2)"
  define r4 where "r4 = put_entry key (?ob\<lparr>ob_access := m\<rparr>) (r2\<lparr>r_sequence := m\<rparr>)"
  have st: "canonical_store_for_protocol (protocol key) \<noteq> None" using find_entry_store [OF assms] by auto
  have f4: "find_entry r4 key = Some (?ob\<lparr>ob_access := m\<rparr>)" unfolding r4_def using st by (simp add: find_put_entry)
  let ?r5 = "enforce_soft_budget (Some key) None r4"
  have "\<exists>e c e'. settle_canonical key v n r = drop_tombstone key (emit e (if c then emit e' ?r5 else ?r5))"
    unfolding settle_canonical_def assms option.case Let_def next_access_sequence_def case_prod_conv r4_def m_def r2_def fst_conv
    by (intro exI) (rule refl)
  then have "find_entry (settle_canonical key v n r) key = find_entry ?r5 key" by (auto simp: repo_simps)
  also have "\<dots> = find_entry r4 key" by (simp add: enforce_soft_budget_def evict_keeps_protected)
  finally show ?thesis by (simp add: ready_view_def f4)
qed

lemma publish_ready:
  assumes p: "publish_canonical key t (Some v) n err r = (True, e, r')"
  shows "\<exists>g. ready_view r' key = Some (t, Some v, g)"
proof -
  obtain ob where f: "find_entry r key = Some ob" and b: "ob_state ob = Building" and tt: "ob_type ob = t"
    using p by (auto simp: publish_canonical_def Let_def split: option.splits if_splits)
  define excl where "excl = (if protocol key = ''stream'' \<and> scope key = Scope_Full then Some key else None)"
  obtain ok e1 r1 where m: "make_hard_room (charge (r_config r) n) (Some key) None err key excl (return_build key ob r) = (ok, e1, r1)"
    by (metis prod_cases3)
  obtain st where st: "canonical_store_for_protocol (protocol key) = Some st" using find_entry_store [OF f] by blast
  define r2 where "r2 = (if excl \<noteq> None then erase_stream_sibling_ranges key r1 else r1)"
  have "publish_canonical key t (Some v) n err r = (if ok then (True, e1, settle_canonical key v n r2)
      else (False, e1, abandon_canonical key ''hard_limit'' n r1))"
    using m by (simp add: publish_canonical_def f b tt st r2_def split: bool.split flip: excl_def)
  then have r': "r' = settle_canonical key v n r2" using p by (auto split: if_splits)
  have "find_entry (return_build key ob r) key = Some (ob\<lparr>ob_build := 0\<rparr>)"
    using st by (simp add: return_build_def find_put_entry byte_counters)
  then have "find_entry r1 key = Some (ob\<lparr>ob_build := 0\<rparr>)"
    using room_keeps_protected [of "charge (r_config r) n" key None err key excl "return_build key ob r"] m by simp
  then have "find_entry r2 key = Some (ob\<lparr>ob_build := 0\<rparr>)" by (simp add: r2_def siblings_find_self)
  from settle_ready [OF this, of v n] show ?thesis by (simp add: r' tt)
qed

section \<open>Reading\<close>

text \<open>\<open>peek_canonical\<close>: the ready object of a key, its access not recorded.\<close>

definition peek_canonical :: "cache_key \<Rightarrow> string \<Rightarrow> 'v repository \<Rightarrow> 'v option" where
  "peek_canonical key type_tag r = (case fst (find_canonical key type_tag False r) of None \<Rightarrow> None | Some (v, _) \<Rightarrow> v)"

lemma peek_view: "peek_canonical key t r = (case ready_view r key of None \<Rightarrow> None | Some (t', v, g) \<Rightarrow> if t' = t then v else None)"
  by (auto simp: peek_canonical_def find_from_view split: option.split)

lemma peek_value: "peek_canonical key t r = Some v \<Longrightarrow> value_view r key = Some (Some v)"
  by (auto simp: peek_view value_view_Some split: option.splits if_splits)

lemma peek_kept: "kept value_view valid r \<Longrightarrow> peek_canonical key t r = Some v \<Longrightarrow> valid key (Some v)"
  unfolding kept_def by (drule peek_value) simp

lemma hit_peek:
  assumes "ready_view r key = Some (t, v, g)"
  shows "fst (begin_canonical key t n r) = Hit" "peek_canonical key t (snd (snd (begin_canonical key t n r))) = v"
proof -
  obtain c where c: "find_entry r key = Some c" "ob_state c = Ready" "ob_type c = t" "ob_value c = v"
    using assms by (auto simp: ready_view_def split: option.splits if_splits)
  show h: "fst (begin_canonical key t n r) = Hit" using published_begin [OF c(1,2)] c(3) by simp
  obtain st where st: "canonical_store_for_protocol (protocol key) = Some st" using find_entry_store [OF c(1)] by blast
  then show "peek_canonical key t (snd (snd (begin_canonical key t n r))) = v"
    using c by (simp add: begin_canonical_def Let_def next_access_sequence_def peek_view ready_view_def find_put_entry repo_simps)
qed

lemma kept_new: "kept value_view valid (new_repository cfg)"
  by (simp add: kept_def value_view_def ready_view_def find_entry_def new_repository_def split: option.split)

end
