(* ===== verification/Stream_Cache.thy ===== *)
theory Stream_Cache
  imports Stream_Answers Cached_Builds
begin

text \<open>
  The stream analyzer with its cache, \<open>waveform/stream/stream_analyzer.cpp\<close>, last part, on top of the
  analysis repository: the base analysis of the whole file or of the queried range is looked up under
  the key of the configuration's meaning, or built and published, and the query answered from it.  The
  size of a base analysis and of its empty object are parameters, and so is whether memory runs out in a
  build.  The proofs show that what the repository keeps for the analyzer stays what a build of the
  configuration gives, so that every answer from the cache is the answer without it.
\<close>

section \<open>The analyzer\<close>

record stream_analyzer =
  az_repository :: "stream_base repository option"
  az_session :: string
  az_identity :: fsdb_identity
  az_cache_error :: cache_error

definition stream_base_tag :: string where
  "stream_base_tag = ''stream_base_analysis.v1''"

definition stream_fingerprint_version :: nat where
  "stream_fingerprint_version = 1"

definition configure_repository ::
  "stream_base repository option \<Rightarrow> string \<Rightarrow> fsdb_identity \<Rightarrow> stream_analyzer \<Rightarrow> stream_analyzer" where
  "configure_repository repo sess identity az =
     \<lparr>az_repository = repo, az_session = sess, az_identity = identity, az_cache_error = no_error\<rparr>"

definition stream_cache_key ::
  "(json \<Rightarrow> string) \<Rightarrow> stream_analyzer \<Rightarrow> stream_config \<Rightarrow> cache_scope \<Rightarrow> nat \<Rightarrow> nat \<Rightarrow> cache_key" where
  "stream_cache_key dump az config sc b e =
     make_analysis_cache_key ''stream'' (az_session az) (az_identity az) stream_fingerprint_version
       (normalized_stream_config_semantics dump config) sc b e"

text \<open>The build of a base analysis for the repository: the base if it is there, an error, and what the repository becomes.\<close>

definition build_for_cache ::
  "(stream_base \<Rightarrow> nat) \<Rightarrow> bool \<Rightarrow> 'h fsdb \<Rightarrow> stream_config \<Rightarrow> nat \<Rightarrow> nat \<Rightarrow> cache_key \<Rightarrow> cache_error \<Rightarrow>
   stream_base repository \<Rightarrow> (string + stream_base option) \<times> cache_error \<times> stream_base repository" where
  "build_for_cache estimate out_of_memory f config b e key err r =
     (case build_base estimate f config b e (Some key) err r of
        (built, err1, r1) \<Rightarrow>
          if out_of_memory then
            (case fail_canonical_bad_alloc key r1 of (err2, r2) \<Rightarrow> (Inl (ce_message err2), err2, r2))
          else (case built of
            Inl msg \<Rightarrow> (Inl msg, err1, fail_canonical key ''scan_failed'' r1)
          | Inr base \<Rightarrow>
              (case update_canonical_build_bytes key (estimate base) err1 r1 of
                 (False, err2, r2) \<Rightarrow> (Inl (ce_message err2), err2, r2)
               | (True, err2, r2) \<Rightarrow>
                   (case publish_canonical key stream_base_tag (Some base) (estimate base) err2 r2 of
                      (False, err3, r3) \<Rightarrow> (Inl (ce_message err3), err3, r3)
                    | (True, err3, r3) \<Rightarrow> (Inr (peek_canonical key stream_base_tag r3), err3, r3)))))"

definition acquire_base ::
  "(stream_base \<Rightarrow> nat) \<Rightarrow> nat \<Rightarrow> bool \<Rightarrow> 'h fsdb \<Rightarrow> stream_config \<Rightarrow> nat \<Rightarrow> nat \<Rightarrow> cache_key \<Rightarrow>
   stream_base repository \<Rightarrow> (string + stream_base option) \<times> cache_error \<times> stream_base repository" where
  "acquire_base estimate empty_bytes out_of_memory f config b e key r =
     (case begin_canonical key stream_base_tag empty_bytes r of
        (status, err, r1) \<Rightarrow>
          if status = Hit then (Inr (peek_canonical key stream_base_tag r1), err, r1)
          else if status = Build_Started
          then build_for_cache estimate out_of_memory f config b e key err r1
          else (Inl (ce_message err), err, r1))"

definition unavailable_error :: cache_error where
  "unavailable_error =
     code_error ''ANALYSIS_REPOSITORY_UNAVAILABLE'' ''stream analysis repository is not configured'' no_error"

text \<open>The range of a base analysis: the whole file, or the range of the query.\<close>

definition scope_range :: "'h fsdb \<Rightarrow> cache_scope \<Rightarrow> nat \<Rightarrow> nat \<Rightarrow> nat \<times> nat" where
  "scope_range f sc b e = (if sc = Scope_Full then (min_time f, max_time f) else (b, e))"

definition analyze_cached ::
  "(stream_base \<Rightarrow> nat) \<Rightarrow> nat \<Rightarrow> (json \<Rightarrow> string) \<Rightarrow> bool \<Rightarrow> 'h fsdb \<Rightarrow> stream_config \<Rightarrow> query_options \<Rightarrow> cache_scope \<Rightarrow>
   stream_analyzer \<Rightarrow> (string + stream_analysis) \<times> stream_analyzer" where
  "analyze_cached estimate empty_bytes dump out_of_memory f config opts sc az =
     (case az_repository az of
        None \<Rightarrow> (Inl (ce_message unavailable_error), az\<lparr>az_cache_error := unavailable_error\<rparr>)
      | Some r \<Rightarrow>
          let (b, e) = scope_range f sc (qo_begin opts) (qo_end opts);
              key = stream_cache_key dump az config sc b e
          in case acquire_base estimate empty_bytes out_of_memory f config b e key r of
               (found, err, r') \<Rightarrow>
                 (and_then found (\<lambda>found.
                    case found of
                      None \<Rightarrow> Inl ''stream analysis cache entry is unavailable after build''
                    | Some base \<Rightarrow> materialize base config opts),
                  az\<lparr>az_repository := Some r', az_cache_error := err\<rparr>))"

section \<open>What a build reads of a configuration\<close>

definition renamed :: "string \<Rightarrow> string \<Rightarrow> bool \<Rightarrow> stream_config \<Rightarrow> stream_config" where
  "renamed n d p c = c\<lparr>cf_name := n, cf_description := d, cf_clock_sample := (cf_clock_sample c)\<lparr>ck_has_point := p\<rparr>\<rparr>"

lemma renamed_fields [simp]:
  "cf_signals (renamed n d p c) = cf_signals c" "cf_has_reset (renamed n d p c) = cf_has_reset c"
  "cf_reset (renamed n d p c) = cf_reset c" "cf_vld (renamed n d p c) = cf_vld c" "cf_rdy (renamed n d p c) = cf_rdy c"
  "cf_bp (renamed n d p c) = cf_bp c" "cf_sop (renamed n d p c) = cf_sop c" "cf_eop (renamed n d p c) = cf_eop c"
  "cf_data (renamed n d p c) = cf_data c" "cf_packet_stable_fields (renamed n d p c) = cf_packet_stable_fields c"
  "cf_beat_fields (renamed n d p c) = cf_beat_fields c" "cf_channel_id (renamed n d p c) = cf_channel_id c"
  "cf_channel_id_valid (renamed n d p c) = cf_channel_id_valid c"
  "cf_allow_interleaving (renamed n d p c) = cf_allow_interleaving c"
  "ck_clock (cf_clock_sample (renamed n d p c)) = ck_clock (cf_clock_sample c)"
  "ck_edge (cf_clock_sample (renamed n d p c)) = ck_edge (cf_clock_sample c)"
  "ck_point (cf_clock_sample (renamed n d p c)) = ck_point (cf_clock_sample c)"
  "stream_packet_enabled (renamed n d p c) = stream_packet_enabled c"
  by (simp_all add: renamed_def stream_packet_enabled_def)

lemma same_meaning_renamed:
  assumes "semantic_part c = semantic_part c'"
  shows "\<exists>n d p. c' = renamed n d p c"
proof -
  have "c' = renamed (cf_name c') (cf_description c') (ck_has_point (cf_clock_sample c')) c"
    using assms
    by (cases c; cases c'; cases "cf_clock_sample c"; cases "cf_clock_sample c'")
      (simp add: semantic_part_def point_given_def renamed_def)
  then show ?thesis by blast
qed

lemma dep_path_renamed: "dep_path f c sig paths = Inr paths' \<Longrightarrow> dep_path f (renamed n d p c) sig paths = Inr paths'"
  by (auto simp: dep_path_def split: if_splits option.splits)

lemma dep_paths_renamed: "dep_paths_loop f c sigs paths = Inr paths' \<Longrightarrow> dep_paths_loop f (renamed n d p c) sigs paths = Inr paths'"
  by (induction sigs arbitrary: paths) (auto simp: dep_path_renamed and_then_val)

lemma compile_renamed: "compile_stream f c = Inr x \<Longrightarrow> compile_stream f (renamed n d p c) = Inr x"
  unfolding compile_stream_def renamed_fields Let_def and_then_Inr split_paired_Ex case_prod_conv
  by (elim exE conjE) (intro exI conjI, (assumption | erule dep_paths_renamed)+)

lemma setup_renamed: "build_setup f c = Inr x \<Longrightarrow> build_setup f (renamed n d p c) = Inr x"
  using compile_renamed by (auto simp: build_setup_def and_then_val)

lemma eval_renamed: "eval_sample cp (renamed n d p c) s = eval_sample cp c s"
  by (simp only: eval_sample_def make_metadata_def stall_of_def renamed_fields)

lemma packet_parts_renamed:
  "packet_channel (renamed n d p c) = packet_channel c" "packet_slot (renamed n d p c) = packet_slot c"
  "packet_error (renamed n d p c) = packet_error c" "base_start_packet (renamed n d p c) = base_start_packet c"
  by (intro ext, simp add: packet_channel_def packet_slot_def packet_error_def base_start_packet_def)+

lemma append_renamed: "base_append_packet (renamed n d p c) = base_append_packet c"
  by (intro ext) (simp only: base_append_packet_def packet_parts_renamed)

lemma packet_step_renamed: "base_packet_step (renamed n d p c) = base_packet_step c"
  by (intro ext) (simp only: base_packet_step_def packet_parts_renamed append_renamed)

lemma add_renamed: "add_sample (renamed n d p c) vw bs = add_sample c vw bs"
  by (simp only: add_sample_def packet_step_renamed renamed_fields)

lemma add_all_renamed: "add_all cp (renamed n d p c) xs bs = add_all cp c xs bs"
proof (induction xs arbitrary: bs)
  case (Cons s xs)
  then have "add_all cp (renamed n d p c) xs = add_all cp c xs" by (rule ext)
  then show ?case by (simp add: eval_renamed add_renamed)
qed simp

lemma start_renamed: "start_build (renamed n d p c) b e err r = start_build c b e err r"
  by (simp add: start_build_def empty_base_def field_schema_of_def)

text \<open>Neither the names, nor the cache, nor the size estimate matter to the base a build gives.\<close>

definition built :: "'h fsdb \<Rightarrow> stream_config \<Rightarrow> nat \<times> nat \<Rightarrow> stream_base \<Rightarrow> bool" where
  "built f c bounds base \<longleftrightarrow>
     fst (build_base (\<lambda>_. 0) f c (fst bounds) (snd bounds) None no_error (new_repository cache_config_default)) = Inr base"

lemma start_build_same: "same_build (start_build c b e err r) (start_build c b e err' r')"
  by (simp add: same_build_def start_build_def)

lemma built_any:
  assumes "fst (build_base est f c b e key err r) = Inr base"
  shows "built f (renamed n d p c) (b, e) base"
proof -
  let ?start = "start_build c b e no_error (new_repository cache_config_default)"
  obtain cp cs ss xs bs where s: "build_setup f c = Inr (cp, cs, ss)"
    and x: "scanned f (ck_edge (cf_clock_sample c)) (ck_point (cf_clock_sample c)) cs ss b e (CHR ''b'') (clock_eval_of cp) = Inr (xs, None)"
    and a: "add_all cp c xs (start_build c b e err r) = Inr bs" and base: "base = finished_base False bs"
    using build_success [OF assms] by blast
  have "rel_sum (=) same_build (add_all cp c xs (start_build c b e err r)) (add_all cp c xs ?start)"
    by (rule add_all_same [OF start_build_same])
  then obtain bs' where "add_all cp c xs ?start = Inr bs'" "same_build bs bs'"
    using a by (cases "add_all cp c xs ?start") auto
  then show ?thesis
    using build_uncached [OF setup_renamed [OF s, of n d p], where b = b and e = e and xs = xs] x base same_finished [of bs bs' False]
    by (simp add: built_def add_all_renamed start_renamed)
qed

section \<open>Builds and the repository\<close>

text \<open>A build reports its size to the repository, and leaves nothing ready in it.\<close>

lemma callback_fades:
  assumes "build_callback est key c config s err bs = (keep, err', bs')"
  shows "fades (sd_repository bs) (sd_repository bs')"
proof (cases "and_then (eval_sample c config s) (\<lambda>vw. add_sample config vw bs)")
  case (Inl msg)
  then show ?thesis using assms by (simp add: build_callback_def del: and_then_Inl)
next
  case (Inr bs1)
  then obtain vw where a: "add_sample config vw bs = Inr bs1" by auto
  have r: "sd_repository bs1 = sd_repository bs" using a by (auto simp: add_sample_def Let_def split: if_splits)
  show ?thesis
  proof (cases key)
    case None
    then show ?thesis using assms Inr r by (simp add: build_callback_def del: and_then_Inr)
  next
    case (Some k)
    obtain ok cerr q where u: "update_canonical_build_bytes k (est (sd_base bs1)) (sd_cache_error bs1) (sd_repository bs1) = (ok, cerr, q)"
      by (metis prod_cases3)
    then have "fades (sd_repository bs1) q" using fades_update by (metis snd_conv)
    then show ?thesis using assms Inr r Some u by (auto simp: build_callback_def Let_def simp del: and_then_Inr split: if_splits)
  qed
qed

lemma feed_fades:
  "feed (build_callback est key c config) xs ct err bs = (keep, ct', err', bs') \<Longrightarrow> fades (sd_repository bs) (sd_repository bs')"
proof (induction xs arbitrary: ct err bs)
  case (Cons s xs)
  obtain k e bs1 where c: "build_callback est key c config s err bs = (k, e, bs1)" by (metis prod_cases3)
  note f = callback_fades [OF c]
  show ?case using Cons.prems Cons.IH f fades_trans [OF f] by (auto simp: c split: if_splits)
qed auto

lemma build_fades: "fades r (snd (snd (build_base est f config b e key err r)))"
proof (cases "build_setup f config")
  case (Inr x)
  obtain c cs ss where x: "x = (c, cs, ss)" by (metis prod_cases3)
  let ?cb = "build_callback est key c config" and ?start = "start_build config b e err r"
  let ?scan = "scanned f (ck_edge (cf_clock_sample config)) (ck_point (cf_clock_sample config)) cs ss b e (CHR ''b'') (clock_eval_of c)"
  obtain res bs where y: "expression_scanner_scan f (ck_edge (cf_clock_sample config)) (ck_point (cf_clock_sample config))
      cs ss b e (CHR ''b'') (- 1) (clock_eval_of c) ?cb [] ?start = (res, bs)" by fastforce
  have start: "sd_repository ?start = r" by (simp add: start_build_def)
  have "fades (sd_repository ?start) (sd_repository bs)"
  proof (cases ?scan)
    case (Inl msg)
    then show ?thesis using y by (simp add: expression_scan_fed)
  next
    case (Inr tr)
    obtain k ct er bs1 where fd: "feed ?cb (fst tr) \<lparr>ct_count = 0, ct_truncated = False\<rparr> [] ?start = (k, ct, er, bs1)"
      by (metis prod_cases4)
    then have "bs = bs1" using y Inr by (cases tr) (auto simp: expression_scan_fed fed_def fed_result_def split: option.splits if_splits)
    then show ?thesis using feed_fades [OF fd] by simp
  qed
  then show ?thesis using Inr x y start by (simp add: build_base_def)
qed (simp add: build_base_def)

section \<open>Answers from the repository\<close>

text \<open>The invariant: what is ready under a key of a configuration is what building the configuration gives.\<close>

definition base_valid :: "(json \<Rightarrow> string) \<Rightarrow> 'h fsdb \<Rightarrow> stream_analyzer \<Rightarrow> cache_key \<Rightarrow> stream_base option \<Rightarrow> bool" where
  "base_valid dump f az key v \<longleftrightarrow>
     (\<forall>c sc b e. stream_config_ok c \<longrightarrow> key = stream_cache_key dump az c sc b e \<longrightarrow>
        (\<exists>base. v = Some base \<and> built f c (scope_range f sc b e) base))"

definition bases_kept :: "(json \<Rightarrow> string) \<Rightarrow> 'h fsdb \<Rightarrow> stream_analyzer \<Rightarrow> stream_base repository \<Rightarrow> bool" where
  "bases_kept dump f az r \<longleftrightarrow> kept value_view (base_valid dump f az) r"

lemma kept_fades: "bases_kept dump f az r \<Longrightarrow> fades r r' \<Longrightarrow> bases_kept dump f az r'"
  unfolding bases_kept_def by (rule memory.kept_loses)

lemma same_key_built:
  assumes inj: "inj dump" and ok: "stream_config_ok c" "stream_config_ok c'"
    and key: "stream_cache_key dump az c sc b e = stream_cache_key dump az c' sc' b' e'"
    and b: "built f c' (scope_range f sc' b' e') base"
  shows "built f c (scope_range f sc b e) base"
proof -
  have same: "normalized_stream_config_semantics dump c' = normalized_stream_config_semantics dump c" "sc = sc'"
    "sc = Scope_Range \<longrightarrow> b = b' \<and> e = e'"
    using key by (auto simp: stream_cache_key_def make_analysis_cache_key_def Let_def)
  then have "scope_range f sc' b' e' = scope_range f sc b e" by (cases sc) (auto simp: scope_range_def)
  moreover obtain n d p where "c = renamed n d p c'"
    using same_meaning_renamed [OF semantics_decide [OF inj ok(2,1) same(1)]] by blast
  ultimately show ?thesis using b built_any unfolding built_def by (metis built_def prod.collapse)
qed

lemma built_valid:
  assumes "inj dump" "stream_config_ok c" "built f c (scope_range f sc b e) base"
  shows "base_valid dump f az (stream_cache_key dump az c sc b e) (Some base)"
  unfolding base_valid_def using same_key_built [OF assms(1) _ assms(2) _ assms(3)] by metis

lemma kept_learns:
  assumes "inj dump" "bases_kept dump f az r" "stream_config_ok c"
    and "built f c (scope_range f sc b e) base" "learns (stream_cache_key dump az c sc b e) (Some base) r r'"
  shows "bases_kept dump f az r'"
  using memory.kept_gains [OF assms(2) [unfolded bases_kept_def] assms(5) built_valid [OF assms(1,3,4)]] by (simp add: bases_kept_def)

lemma peek_built:
  "bases_kept dump f az r \<Longrightarrow> stream_config_ok c \<Longrightarrow> peek_canonical (stream_cache_key dump az c sc b e) stream_base_tag r = Some base \<Longrightarrow>
     built f c (scope_range f sc b e) base"
  using peek_kept [of "base_valid dump f az" r "stream_cache_key dump az c sc b e" stream_base_tag base]
  unfolding bases_kept_def base_valid_def by simp

text \<open>Whether found or built, the base is what a build of the configuration gives, and the invariant is kept.\<close>

lemma build_for_cache_kept:
  assumes inj: "inj dump" and ok: "stream_config_ok c" and k: "bases_kept dump f az r"
    and bounds: "scope_range f sc b0 e0 = (b, e)"
    and a: "build_for_cache est oom f c b e (stream_cache_key dump az c sc b0 e0) err r = (found, err', r')"
  shows "bases_kept dump f az r' \<and> (\<forall>base. found = Inr (Some base) \<longrightarrow> built f c (b, e) base)"
proof -
  let ?key = "stream_cache_key dump az c sc b0 e0"
  obtain res err1 r1 where b: "build_base est f c b e (Some ?key) err r = (res, err1, r1)" by (metis prod_cases3)
  have f1: "fades r r1" using build_fades b by (metis snd_conv)
  show ?thesis
  proof (cases "oom \<or> (\<exists>msg. res = Inl msg)")
    case True
    then have "fades r1 r'" "\<nexists>x. found = Inr x"
      using a b fades_fail by (auto simp: build_for_cache_def fail_canonical_bad_alloc_def Let_def split: sum.splits if_splits)
    then show ?thesis using kept_fades [OF kept_fades [OF k f1]] by auto
  next
    case False
    then obtain base where res: "res = Inr base" "\<not> oom" by (cases res) auto
    have built: "built f c (b, e) base"
    proof -
      have "renamed (cf_name c) (cf_description c) (ck_has_point (cf_clock_sample c)) c = c" by (simp add: renamed_def)
      then show ?thesis using built_any [of est f c b e "Some ?key" err r base "cf_name c"] b res by (metis fst_conv)
    qed
    obtain ok2 err2 r2 where u: "update_canonical_build_bytes ?key (est base) err1 r1 = (ok2, err2, r2)" by (metis prod_cases3)
    have f2: "fades r r2" using fades_trans [OF f1 fades_update] u by (metis snd_conv)
    obtain ok3 err3 r3 where p: "publish_canonical ?key stream_base_tag (Some base) (est base) err2 r2 = (ok3, err3, r3)" by (metis prod_cases3)
    have "learns ?key (Some base) r2 r3" using learns_publish p by (metis snd_conv)
    then have k3: "bases_kept dump f az r3"
      by (rule kept_learns [OF inj kept_fades [OF k f2] ok, of sc b0 e0 base r3, rotated]) (simp add: bounds built)
    have "(r' = r2 \<and> (\<exists>msg. found = Inl msg)) \<or> (r' = r3 \<and> (\<forall>x. found = Inr x \<longrightarrow> x = peek_canonical ?key stream_base_tag r3))"
      using a b res u p by (cases ok2; cases ok3) (auto simp: build_for_cache_def)
    then show ?thesis using kept_fades [OF k f2] k3 peek_built [OF k3 ok, of sc b0 e0] bounds by auto
  qed
qed

lemma acquire_kept:
  assumes inj: "inj dump" and ok: "stream_config_ok c" and k: "bases_kept dump f az r"
    and bounds: "scope_range f sc b0 e0 = (b, e)"
    and a: "acquire_base est n oom f c b e (stream_cache_key dump az c sc b0 e0) r = (found, err', r')"
  shows "bases_kept dump f az r' \<and> (\<forall>base. found = Inr (Some base) \<longrightarrow> built f c (b, e) base)"
proof -
  let ?key = "stream_cache_key dump az c sc b0 e0"
  obtain status err r1 where g: "begin_canonical ?key stream_base_tag n r = (status, err, r1)" by (metis prod_cases3)
  have k1: "bases_kept dump f az r1" using kept_fades [OF k fades_begin] g by (metis snd_conv)
  consider "status = Hit" | "status = Build_Started" | "status \<noteq> Hit" "status \<noteq> Build_Started" by blast
  then show ?thesis
  proof cases
    case 1
    then show ?thesis using a g k1 peek_built [OF k1 ok, of sc b0 e0] bounds by (auto simp: acquire_base_def)
  next
    case 2
    then show ?thesis using a g build_for_cache_kept [OF inj ok k1 bounds] by (simp add: acquire_base_def)
  next
    case 3
    then show ?thesis using a g k1 by (auto simp: acquire_base_def)
  qed
qed

lemma scope_range_twice: "scope_range f sc b0 e0 = (b, e) \<Longrightarrow> scope_range f sc b e = (b, e)"
  by (auto simp: scope_range_def split: if_splits)

lemma kept_key: "az_session az' = az_session az \<Longrightarrow> az_identity az' = az_identity az \<Longrightarrow> bases_kept dump f az' r = bases_kept dump f az r"
  by (simp add: bases_kept_def base_valid_def [abs_def] stream_cache_key_def)

lemma built_answers:
  assumes "fsdb_replays f initial changes" "stream_config_ok config" "built f config (b, e) base"
    and "b \<le> qo_begin opts" "qo_begin opts \<le> qo_end opts" "qo_end opts \<le> e"
  shows "materialize base config opts = analyze est f config opts r"
  using cached_range_any [OF assms(1,2) assms(3) [unfolded built_def fst_conv snd_conv] assms(4-6)] by simp

lemma analyze_acquired:
  assumes f: "fsdb_replays f initial changes" and inj: "inj dump" and ok: "stream_config_ok config"
    and range: "qo_begin opts \<le> qo_end opts" "sc = Scope_Full \<Longrightarrow> min_time f \<le> qo_begin opts \<and> qo_end opts \<le> max_time f"
    and k: "bases_kept dump f az r" and bounds: "scope_range f sc (qo_begin opts) (qo_end opts) = (b, e)"
    and a: "acquire_base est n oom f config b e (stream_cache_key dump az config sc b e) r = (Inr (Some base), err, r')"
  shows "materialize base config opts = analyze est f config opts r0"
proof -
  have "built f config (b, e) base" using acquire_kept [OF inj ok k scope_range_twice [OF bounds] a] by simp
  moreover have "b \<le> qo_begin opts" "qo_end opts \<le> e" using bounds range by (auto simp: scope_range_def split: if_splits)
  ultimately show ?thesis using built_answers [OF f ok _ _ range(1)] by blast
qed

text \<open>
  C31: an answer through the cache is the answer without it.  Whatever the repository lost or rejected in
  between, when what it holds for the analyzer came from builds, an analysis that answers gives the answer
  of a scan of the queried range; the repository still holds only what builds give; and when the base
  analysis is there, the answer, an error of the query included, is that of the scan.
\<close>

theorem cached_analysis:
  assumes f: "fsdb_replays f initial changes" and inj: "inj dump" and ok: "stream_config_ok config"
    and range: "qo_begin opts \<le> qo_end opts" "sc = Scope_Full \<Longrightarrow> min_time f \<le> qo_begin opts \<and> qo_end opts \<le> max_time f"
    and r: "az_repository az = Some r" and k: "bases_kept dump f az r"
    and bounds: "scope_range f sc (qo_begin opts) (qo_end opts) = (b, e)"
    and a: "analyze_cached est n dump oom f config opts sc az = (res, az')"
  shows "(\<exists>r'. az_repository az' = Some r' \<and> bases_kept dump f az' r') \<and>
    (\<forall>answer. res = Inr answer \<longrightarrow> analyze est f config opts r = Inr answer) \<and>
    ((\<exists>base g. ready_view r (stream_cache_key dump az config sc b e) = Some (stream_base_tag, Some base, g)) \<longrightarrow>
       res = analyze est f config opts r)"
proof -
  let ?key = "stream_cache_key dump az config sc b e"
  obtain found err r' where q: "acquire_base est n oom f config b e ?key r = (found, err, r')" by (metis prod_cases3)
  have az': "az' = az\<lparr>az_repository := Some r', az_cache_error := err\<rparr>"
    and res: "res = and_then found (\<lambda>found. case found of
        None \<Rightarrow> Inl ''stream analysis cache entry is unavailable after build'' | Some base \<Rightarrow> materialize base config opts)"
    using a q r bounds by (auto simp: analyze_cached_def)
  have "bases_kept dump f az' r'"
    using acquire_kept [OF inj ok k scope_range_twice [OF bounds] q]
    by (subst kept_key [of az' az]) (simp_all add: az')
  then have kept: "\<exists>r'. az_repository az' = Some r' \<and> bases_kept dump f az' r'" by (simp add: az')
  note answers = analyze_acquired [OF f inj ok range k bounds]
  have sound: "analyze est f config opts r = Inr answer" if "res = Inr answer" for answer
    using that q answers by (auto simp: res split: option.splits)
  have "res = analyze est f config opts r" if h: "ready_view r ?key = Some (stream_base_tag, Some base, g)" for base g
  proof -
    have "found = Inr (Some base)" using hit_peek [OF h, of n] q by (auto simp: acquire_base_def split: prod.splits if_splits)
    then show ?thesis using q answers by (simp add: res and_then_val)
  qed
  then show ?thesis using kept sound by blast
qed

text \<open>A repository that holds the base of the packet stream of the last example.\<close>

definition packet_analyzer :: stream_analyzer where
  "packet_analyzer =
     configure_repository None ''session'' (Fsdb_Identity 1 2 3 4)
       \<lparr>az_repository = None, az_session = [], az_identity = Fsdb_Identity 0 0 0 0, az_cache_error = no_error\<rparr>"

definition packet_key :: cache_key where
  "packet_key = stream_cache_key unary_dump packet_analyzer packet_config Scope_Full 0 30"

definition packet_repository :: "stream_base repository" where
  "packet_repository =
     put_entry packet_key
       \<lparr>ob_state = Ready, ob_type = stream_base_tag, ob_value = Some packet_base, ob_resident = 0, ob_build = 0,
        ob_access = 1, ob_generation = 1\<rparr> (new_repository cache_config_default)"

lemma packet_ready: "ready_view packet_repository k = (if k = packet_key then Some (stream_base_tag, Some packet_base, 1) else None)"
proof -
  have "protocol packet_key = ''stream''"
    by (simp add: packet_key_def stream_cache_key_def make_analysis_cache_key_def Let_def)
  then have "find_entry packet_repository k = (if k = packet_key then
      Some \<lparr>ob_state = Ready, ob_type = stream_base_tag, ob_value = Some packet_base, ob_resident = 0, ob_build = 0,
        ob_access = 1, ob_generation = 1\<rparr> else find_entry (new_repository cache_config_default) k)"
    by (simp add: packet_repository_def find_put_entry canonical_store_for_protocol_def)
  then show ?thesis by (simp add: ready_view_def find_entry_def new_repository_def split: option.split)
qed

lemma packet_kept: "bases_kept unary_dump packet_fsdb packet_analyzer packet_repository"
proof -
  have bounds: "scope_range packet_fsdb Scope_Full 0 30 = (0, 30)" by (simp add: scope_range_def packet_fsdb_def)
  have base: "built packet_fsdb packet_config (scope_range packet_fsdb Scope_Full 0 30) packet_base"
    using packet_built(1) by (simp add: built_def bounds)
  have view: "value_view packet_repository k = Some v \<longleftrightarrow> k = packet_key \<and> v = Some packet_base" for k v
    by (auto simp: value_view_Some packet_ready)
  show ?thesis
    unfolding bases_kept_def kept_def view using built_valid [OF unary_dump_inj packet_config_ok base] by (simp add: packet_key_def)
qed

theorem cached_analysis_witness:
  "case fst (analyze_cached (\<lambda>_. 0) 200 unary_dump False packet_fsdb packet_config packet_query Scope_Full
          (packet_analyzer\<lparr>az_repository := Some packet_repository\<rparr>)) of
     Inl _ \<Rightarrow> False | Inr a \<Rightarrow> (an_transfer_count a, an_complete_packets a, an_partial_packets a) = (2, 0, 1)"
proof -
  let ?az = "packet_analyzer\<lparr>az_repository := Some packet_repository\<rparr>"
  obtain res az' where a: "analyze_cached (\<lambda>_. 0) 200 unary_dump False packet_fsdb packet_config packet_query Scope_Full ?az = (res, az')"
    by fastforce
  have bounds: "scope_range packet_fsdb Scope_Full (qo_begin packet_query) (qo_end packet_query) = (0, 30)"
    by (simp add: scope_range_def packet_fsdb_def)
  have kept: "bases_kept unary_dump packet_fsdb ?az packet_repository"
    using packet_kept by (subst kept_key [of ?az packet_analyzer]) simp_all
  have ready: "ready_view packet_repository (stream_cache_key unary_dump ?az packet_config Scope_Full 0 30)
      = Some (stream_base_tag, Some packet_base, 1)"
    by (simp add: packet_ready packet_key_def stream_cache_key_def)
  have range: "qo_begin packet_query \<le> qo_end packet_query"
    "Scope_Full = Scope_Full \<Longrightarrow> min_time packet_fsdb \<le> qo_begin packet_query \<and> qo_end packet_query \<le> max_time packet_fsdb"
    "az_repository ?az = Some packet_repository"
    by (simp_all add: packet_query_def packet_fsdb_def)
  have "res = analyze (\<lambda>_. 0) packet_fsdb packet_config packet_query packet_repository"
    using cached_analysis [OF packet_fsdb_replays unary_dump_inj packet_config_ok range kept bounds a] ready by blast
  moreover have "analyze (\<lambda>_. 0) packet_fsdb packet_config packet_query packet_repository
      = materialize packet_base packet_config packet_query"
    by (rule cached_range_any [OF packet_fsdb_replays packet_config_ok packet_built(1)]) (simp_all add: packet_query_def)
  ultimately show ?thesis using packet_answer a by simp
qed

end
