(* ===== verification/Apb_Config.thy ===== *)
theory Apb_Config
  imports Stream_Config
begin

text \<open>
  APB descriptions, \<open>waveform/apb/apb_config.h\<close> with the JSON form kept on disk
  (\<open>waveform/apb/apb_manager.cpp\<close>) and the normalised form that names an APB analysis in the cache
  (\<open>waveform/apb/apb_analyzer.cpp\<close>).  The serialiser of the JSON library is a parameter.
\<close>

record apb_config =
  ac_name :: string
  ac_paddr :: string
  ac_pwdata :: string
  ac_prdata :: string
  ac_pwrite :: string
  ac_penable :: string
  ac_psel :: string
  ac_pready :: string
  ac_pslverr :: string
  ac_clock_sample :: clock_spec
  ac_reset :: reset_config

section \<open>The JSON form\<close>

definition sample_point_member :: "clock_spec \<Rightarrow> (string \<times> json) list" where
  "sample_point_member spec =
     (if ck_edge spec \<noteq> Negedge then [(''sample_point'', JString (clock_sample_point_text (ck_point spec)))] else [])"

definition apb_members :: "apb_config \<Rightarrow> (string \<times> json) list" where
  "apb_members c =
     [(''name'', JString (ac_name c)), (''paddr'', JString (ac_paddr c)), (''pwdata'', JString (ac_pwdata c)),
      (''prdata'', JString (ac_prdata c)), (''pwrite'', JString (ac_pwrite c)), (''penable'', JString (ac_penable c)),
      (''psel'', JString (ac_psel c)), (''clock'', JString (ck_clock (ac_clock_sample c))),
      (''reset'', reset_config_json (ac_reset c)), (''edge'', JString (clock_edge_kind_text (ck_edge (ac_clock_sample c))))] @
     string_member ''pready'' (ac_pready c) @ string_member ''pslverr'' (ac_pslverr c) @
     sample_point_member (ac_clock_sample c)"

definition apb_to_json :: "apb_config \<Rightarrow> json" where
  "apb_to_json c = JObject (apb_members c)"

text \<open>The members every description has, in the order of the set that holds them.\<close>

definition apb_base_fields :: "string list" where
  "apb_base_fields = [''clock'', ''edge'', ''name'', ''paddr'', ''penable'', ''prdata'', ''psel'', ''pwdata'', ''pwrite'', ''reset'']"

definition nonempty_string :: "json option \<Rightarrow> bool" where
  "nonempty_string v = (case v of Some (JString s) \<Rightarrow> s \<noteq> [] | _ \<Rightarrow> False)"

text \<open>The text of a string member; the checks before have made sure it is one.\<close>

definition text_of :: "(string \<times> json) list \<Rightarrow> string \<Rightarrow> string" where
  "text_of item key = (case map_of item key of Some (JString s) \<Rightarrow> s | _ \<Rightarrow> [])"

definition with_prefix :: "string \<Rightarrow> string + 'a \<Rightarrow> string + 'a" where
  "with_prefix prefix r = (case r of Inl e \<Rightarrow> Inl (prefix @ e) | Inr x \<Rightarrow> Inr x)"

text \<open>The reset and the clock of a stored description; \<open>kind\<close> is the protocol named in the messages.\<close>

definition stored_clock :: "string \<Rightarrow> (string \<times> json) list \<Rightarrow> string + clock_spec" where
  "stored_clock kind item =
     and_then (with_prefix (kind @ '' edge is invalid: '') (parse_clock_edge_kind (text_of item ''edge''))) (\<lambda>edge.
     if edge = Negedge then
       and_then (require (map_of item ''sample_point'' = None) (kind @ '' negedge config must not contain sample_point'')) (\<lambda>_.
       Inr (default_clock_spec\<lparr>ck_clock := text_of item ''clock'', ck_edge := edge, ck_has_point := False\<rparr>))
     else
       case map_of item ''sample_point'' of
         Some (JString text) \<Rightarrow>
           and_then (with_prefix (kind @ '' sample_point is invalid: '') (parse_clock_sample_point_kind text)) (\<lambda>point.
           Inr (default_clock_spec\<lparr>ck_clock := text_of item ''clock'', ck_edge := edge, ck_has_point := True, ck_point := point\<rparr>))
       | _ \<Rightarrow> Inl (kind @ '' non-negedge config requires sample_point''))"

definition stored_reset :: "string \<Rightarrow> (string \<times> json) list \<Rightarrow> string + reset_config" where
  "stored_reset kind item =
     with_prefix (kind @ '' reset is invalid: '')
       (parse_reset_config (case map_of item ''reset'' of Some r \<Rightarrow> r | None \<Rightarrow> JNull))"

definition json_to_apb :: "json \<Rightarrow> string + apb_config" where
  "json_to_apb value =
     (case value of
        JObject item \<Rightarrow>
          let has = (\<lambda>key. map_of item key \<noteq> None);
              optional = (\<lambda>key. if has key then 1 else 0)
          in and_then (require (length item =
                          length apb_base_fields + optional ''pready'' + optional ''pslverr'' + optional ''sample_point'')
                        ''APB config contains unknown or missing fields'') (\<lambda>_.
             and_then (case List.find (\<lambda>key. \<not> has key) apb_base_fields of
                         Some key \<Rightarrow> Inl (''APB config is missing field: '' @ key) | None \<Rightarrow> Inr ()) (\<lambda>_.
             and_then (case List.find (\<lambda>key. \<not> nonempty_string (map_of item key))
                              [''name'', ''paddr'', ''pwdata'', ''prdata'', ''pwrite'', ''penable'', ''psel'', ''clock'', ''edge''] of
                         Some key \<Rightarrow> Inl (''APB config field must be a non-empty string: '' @ key) | None \<Rightarrow> Inr ()) (\<lambda>_.
             and_then (case List.find (\<lambda>key. has key \<and> \<not> nonempty_string (map_of item key)) [''pready'', ''pslverr''] of
                         Some key \<Rightarrow> Inl (''APB optional config field must be a non-empty string: '' @ key)
                       | None \<Rightarrow> Inr ()) (\<lambda>_.
             and_then (stored_reset ''APB'' item) (\<lambda>reset.
             and_then (stored_clock ''APB'' item) (\<lambda>spec.
             Inr \<lparr>ac_name = text_of item ''name'', ac_paddr = text_of item ''paddr'', ac_pwdata = text_of item ''pwdata'',
                  ac_prdata = text_of item ''prdata'', ac_pwrite = text_of item ''pwrite'',
                  ac_penable = text_of item ''penable'', ac_psel = text_of item ''psel'',
                  ac_pready = text_of item ''pready'', ac_pslverr = text_of item ''pslverr'',
                  ac_clock_sample = spec, ac_reset = reset\<rparr>))))))
      | _ \<Rightarrow> Inl ''APB config must be an object'')"

section \<open>The normalised form\<close>

definition apb_semantic_members :: "apb_config \<Rightarrow> (string \<times> json) list" where
  "apb_semantic_members c =
     [(''paddr'', JString (ac_paddr c)), (''psel'', JString (ac_psel c)), (''penable'', JString (ac_penable c)),
      (''pwrite'', JString (ac_pwrite c)), (''pwdata'', JString (ac_pwdata c)), (''prdata'', JString (ac_prdata c)),
      (''pready'', JString (ac_pready c)), (''pslverr'', JString (ac_pslverr c)),
      (''clock'', JString (ck_clock (ac_clock_sample c))),
      (''edge'', JString (clock_edge_kind_text (ck_edge (ac_clock_sample c))))] @
     sample_point_member (ac_clock_sample c) @ [(''reset'', reset_config_json (ac_reset c))]"

definition normalized_apb_config_semantics :: "(json \<Rightarrow> string) \<Rightarrow> apb_config \<Rightarrow> string" where
  "normalized_apb_config_semantics dump c = dump (JObject (apb_semantic_members c))"

section \<open>The trip through JSON\<close>

definition stored_clock_ok :: "clock_spec \<Rightarrow> bool" where
  "stored_clock_ok spec \<longleftrightarrow> ck_clock spec \<noteq> [] \<and> ck_has_point spec = (ck_edge spec \<noteq> Negedge) \<and> (ck_edge spec = Negedge \<longrightarrow> ck_point spec = Before)"

definition apb_config_ok :: "apb_config \<Rightarrow> bool" where
  "apb_config_ok c \<longleftrightarrow> stored_clock_ok (ac_clock_sample c) \<and> reset_signal (ac_reset c) \<noteq> [] \<and>
     (\<forall>s\<in>{ac_name c, ac_paddr c, ac_pwdata c, ac_prdata c, ac_pwrite c, ac_penable c, ac_psel c}. s \<noteq> [])"

lemma with_prefix_Inr [simp]: "with_prefix p r = Inr x \<longleftrightarrow> r = Inr x"
  by (cases r) (simp_all add: with_prefix_def)

lemma nonempty_text: "nonempty_string (map_of item key) \<Longrightarrow> text_of item key \<noteq> []"
  by (auto simp: nonempty_string_def text_of_def split: option.splits json.splits)

lemma find_step [simp]: "(case List.find P xs of Some k \<Rightarrow> Inl (f k) | None \<Rightarrow> Inr ()) = Inr u \<longleftrightarrow> (\<forall>x\<in>set xs. \<not> P x)"
  by (auto simp: find_None_iff find_Some_iff dest: nth_mem split: option.split)

lemma stored_clock_fields:
  "stored_clock kind item = Inr spec \<Longrightarrow> text_of item ''clock'' \<noteq> [] \<Longrightarrow> stored_clock_ok spec"
  by (auto simp: stored_clock_def stored_clock_ok_def default_clock_spec_def split: if_splits option.splits json.splits)

lemma json_to_apb_ok:
  assumes "json_to_apb j = Inr c"
  shows "apb_config_ok c"
proof -
  obtain item where j: "j = JObject item" using assms by (cases j) (auto simp: json_to_apb_def)
  have texts: "nonempty_string (map_of item key)"
    if "key \<in> {''name'', ''paddr'', ''pwdata'', ''prdata'', ''pwrite'', ''penable'', ''psel'', ''clock'', ''edge''}" for key
    using assms that unfolding j json_to_apb_def json.case Let_def and_then_Inr find_step by simp blast
  obtain reset spec where rs: "stored_reset ''APB'' item = Inr reset" "stored_clock ''APB'' item = Inr spec"
    and c: "c = \<lparr>ac_name = text_of item ''name'', ac_paddr = text_of item ''paddr'', ac_pwdata = text_of item ''pwdata'',
        ac_prdata = text_of item ''prdata'', ac_pwrite = text_of item ''pwrite'', ac_penable = text_of item ''penable'',
        ac_psel = text_of item ''psel'', ac_pready = text_of item ''pready'', ac_pslverr = text_of item ''pslverr'',
        ac_clock_sample = spec, ac_reset = reset\<rparr>"
    using assms unfolding j json_to_apb_def json.case Let_def and_then_Inr by auto
  show ?thesis
    using texts [THEN nonempty_text] stored_clock_fields [OF rs(2)] rs(1) parse_reset_ok
    by (simp add: c apb_config_ok_def stored_reset_def)
qed

lemma apb_lookups:
  "map_of (apb_members c) ''name'' = Some (JString (ac_name c))"
  "map_of (apb_members c) ''paddr'' = Some (JString (ac_paddr c))"
  "map_of (apb_members c) ''pwdata'' = Some (JString (ac_pwdata c))"
  "map_of (apb_members c) ''prdata'' = Some (JString (ac_prdata c))"
  "map_of (apb_members c) ''pwrite'' = Some (JString (ac_pwrite c))"
  "map_of (apb_members c) ''penable'' = Some (JString (ac_penable c))"
  "map_of (apb_members c) ''psel'' = Some (JString (ac_psel c))"
  "map_of (apb_members c) ''clock'' = Some (JString (ck_clock (ac_clock_sample c)))"
  "map_of (apb_members c) ''reset'' = Some (reset_config_json (ac_reset c))"
  "map_of (apb_members c) ''edge'' = Some (JString (clock_edge_kind_text (ck_edge (ac_clock_sample c))))"
  "map_of (apb_members c) ''pready'' = (if ac_pready c \<noteq> [] then Some (JString (ac_pready c)) else None)"
  "map_of (apb_members c) ''pslverr'' = (if ac_pslverr c \<noteq> [] then Some (JString (ac_pslverr c)) else None)"
  "map_of (apb_members c) ''sample_point'' = (if ck_edge (ac_clock_sample c) \<noteq> Negedge
     then Some (JString (clock_sample_point_text (ck_point (ac_clock_sample c)))) else None)"
  by (simp_all add: apb_members_def sample_point_member_def map_add_def member_lookups split: option.split)

lemma stored_clock_members:
  assumes "stored_clock_ok spec" "map_of item ''clock'' = Some (JString (ck_clock spec))"
    "map_of item ''edge'' = Some (JString (clock_edge_kind_text (ck_edge spec)))"
    "map_of item ''sample_point'' = (if ck_edge spec \<noteq> Negedge then Some (JString (clock_sample_point_text (ck_point spec))) else None)"
  shows "stored_clock kind item = Inr spec"
  using assms
  by (cases spec; cases "ck_edge spec = Negedge")
    (auto simp: stored_clock_def text_of_def parse_edge_text parse_point_text stored_clock_ok_def default_clock_spec_def
      with_prefix_def and_then_def require_def)

lemma stored_reset_members:
  "reset_signal rc \<noteq> [] \<Longrightarrow> map_of item ''reset'' = Some (reset_config_json rc) \<Longrightarrow> stored_reset kind item = Inr rc"
  by (simp add: stored_reset_def parse_reset_json)

text \<open>A valid description is read back as it was written.\<close>

lemma apb_json_roundtrip:
  assumes "apb_config_ok c"
  shows "json_to_apb (apb_to_json c) = Inr c"
proof -
  have len: "length (apb_members c) = 10 + (if ac_pready c \<noteq> [] then 1 else 0) + (if ac_pslverr c \<noteq> [] then 1 else 0) +
      (if ck_edge (ac_clock_sample c) \<noteq> Negedge then 1 else 0)"
    by (simp add: apb_members_def string_member_def sample_point_member_def)
  have "stored_clock ''APB'' (apb_members c) = Inr (ac_clock_sample c)"
    using assms by (intro stored_clock_members) (simp_all add: apb_lookups apb_config_ok_def)
  moreover have "stored_reset ''APB'' (apb_members c) = Inr (ac_reset c)"
    using assms by (intro stored_reset_members) (simp_all add: apb_lookups apb_config_ok_def)
  ultimately show ?thesis
    using assms len
    by (cases c) (simp add: json_to_apb_def apb_to_json_def and_then_val require_def apb_lookups apb_base_fields_def
        nonempty_string_def text_of_def apb_config_ok_def stored_clock_ok_def texts_nonempty)
qed

section \<open>What the normalised form decides\<close>

text \<open>The description without what its analysis does not depend on.\<close>

definition apb_meaning :: "apb_config \<Rightarrow> apb_config" where
  "apb_meaning c = c\<lparr>ac_name := [], ac_clock_sample := (ac_clock_sample c)\<lparr>ck_has_point := False,
     ck_point := (if ck_edge (ac_clock_sample c) = Negedge then Before else ck_point (ac_clock_sample c))\<rparr>\<rparr>"

lemma apb_semantics_decide:
  assumes inj: "inj dump" and eq: "normalized_apb_config_semantics dump c = normalized_apb_config_semantics dump c'"
  shows "apb_meaning c = apb_meaning c'"
proof -
  have m: "apb_semantic_members c = apb_semantic_members c'"
    using eq injD [OF inj] by (auto simp: normalized_apb_config_semantics_def)
  then show ?thesis
    by (cases c; cases c'; cases "ac_clock_sample c"; cases "ac_clock_sample c'")
      (auto simp: apb_semantic_members_def sample_point_member_def apb_meaning_def edge_text_inject point_text_inject
        reset_json_inject split: if_splits)
qed

end
