(* ===== verification/Clock_Samples.thy ===== *)
theory Clock_Samples
  imports Clock_Ranges
begin

text \<open>
  The samples of a scan by a clock signal as a list: a scan hands its callback the samples of the trace
  of its changes, until the callback stops it, and their times strictly increase.
\<close>

section \<open>The trace of a scan\<close>

definition clock_flush :: "bool \<Rightarrow> clock_scan \<Rightarrow> clock_sample list" where
  "clock_flush pre sc =
     (if cl_have_group sc \<and> cl_changed sc \<and> cl_target sc
      then [\<lparr>cs_time = cl_time sc, cs_edge = cl_kind sc, cs_values = (if pre then cl_start sc else cl_values sc)\<rparr>] else [])"

definition clock_next ::
  "edge_kind \<Rightarrow> bool \<Rightarrow> 'h \<Rightarrow> 'h sample_signal list \<Rightarrow> char \<Rightarrow> nat \<Rightarrow> 'h \<Rightarrow> string option \<Rightarrow> clock_scan \<Rightarrow> clock_scan" where
  "clock_next edge pre clk signals prefix t h value sc =
     (let sc2 = (if \<not> cl_have_group sc \<or> t \<noteq> cl_time sc then clock_open_group pre t sc else sc)
      in case value of None \<Rightarrow> sc2 | Some v \<Rightarrow> clock_apply_change edge clk signals h (value_with_prefix v prefix) sc2)"

fun clock_trace ::
  "edge_kind \<Rightarrow> bool \<Rightarrow> 'h \<Rightarrow> 'h sample_signal list \<Rightarrow> char \<Rightarrow> (nat \<times> 'h \<times> string option) list \<Rightarrow> clock_scan \<Rightarrow> clock_sample list" where
  "clock_trace edge pre clk signals prefix [] sc = clock_flush pre sc"
| "clock_trace edge pre clk signals prefix ((t, h, value) # changes) sc =
     (if cl_have_group sc \<and> t \<noteq> cl_time sc then clock_flush pre sc else []) @
     clock_trace edge pre clk signals prefix changes (clock_next edge pre clk signals prefix t h value sc)"

definition counted :: "int \<Rightarrow> clock_scan \<Rightarrow> clock_scan" where
  "counted n sc = sc\<lparr>cl_count := n\<rparr>"

lemma counted_simps [simp]:
  "clock_flush pre (counted n sc) = clock_flush pre sc" "cl_have_group (counted n sc) = cl_have_group sc"
  "cl_time (counted n sc) = cl_time sc" "cl_count (counted n sc) = n" "cl_truncated (counted n sc) = cl_truncated sc"
  by (simp_all add: counted_def clock_flush_def)

lemma next_counted:
  "clock_next edge pre clk signals prefix t h value (counted n sc) = counted n (clock_next edge pre clk signals prefix t h value sc)"
  by (auto simp: clock_next_def counted_def clock_open_group_def clock_apply_change_def Let_def split: option.split prod.split)

lemma trace_counted [simp]:
  "clock_trace edge pre clk signals prefix changes (counted n sc) = clock_trace edge pre clk signals prefix changes sc"
  by (induction edge pre clk signals prefix changes sc rule: clock_trace.induct) (simp_all add: next_counted)

lemma next_fields:
  "cl_have_group (clock_next edge pre clk signals prefix t h value sc)"
  "cl_time (clock_next edge pre clk signals prefix t h value sc) = t"
  "cl_count (clock_next edge pre clk signals prefix t h value sc) = cl_count sc"
  "cl_truncated (clock_next edge pre clk signals prefix t h value sc) = cl_truncated sc"
  by (auto simp: clock_next_def clock_open_group_def clock_apply_change_def Let_def split: option.split prod.split)

definition counters :: "clock_scan \<Rightarrow> scan_counters" where
  "counters sc = \<lparr>ct_count = cl_count sc, ct_truncated = cl_truncated sc\<rparr>"

lemma finish_feed:
  assumes "m < 0"
  shows "(case clock_finish_group pre m callback sc err u of (k, sc', e, u') \<Rightarrow> (k, counters sc', e, u')) =
      feed callback (clock_flush pre sc) (counters sc) err u"
    "\<exists>n. fst (snd (clock_finish_group pre m callback sc err u)) = counted n sc"
proof -
  have "counted (cl_count sc) sc = sc" by (simp add: counted_def)
  then have "\<exists>n. sc = counted n sc" by metis
  then show "\<exists>n. fst (snd (clock_finish_group pre m callback sc err u)) = counted n sc"
    using assms by (auto simp: clock_finish_group_def counted_def Let_def split: prod.split)
  show "(case clock_finish_group pre m callback sc err u of (k, sc', e, u') \<Rightarrow> (k, counters sc', e, u')) =
      feed callback (clock_flush pre sc) (counters sc) err u"
    using assms by (auto simp: clock_finish_group_def clock_flush_def counters_def Let_def split: prod.split)
qed

lemma clock_loop_feed:
  assumes m: "m < 0"
  shows "(case clock_scan_loop edge pre clk signals prefix m callback changes sc err u of (sc', e, u') \<Rightarrow> (counters sc', e, u')) =
    snd (feed callback (clock_trace edge pre clk signals prefix changes sc) (counters sc) err u)"
proof (induction changes arbitrary: sc err u)
  case Nil
  then show ?case
    using arg_cong [OF finish_feed(1) [OF m, of pre callback sc err u], of snd] by (auto split: prod.splits)
next
  case (Cons c changes)
  obtain t h v0 where c: "c = (t, h, v0)" by (metis prod_cases3)
  let ?next = "clock_next edge pre clk signals prefix t h v0" and ?trace = "clock_trace edge pre clk signals prefix changes"
  show ?case
  proof (cases "cl_have_group sc \<and> t \<noteq> cl_time sc")
    case True
    obtain k sc1 e1 u1 where f: "clock_finish_group pre m callback sc err u = (k, sc1, e1, u1)" by (metis prod_cases4)
    obtain n where n: "sc1 = counted n sc" using finish_feed(2) [OF m, of pre callback sc err u] f by auto
    have fd: "feed callback (clock_flush pre sc) (counters sc) err u = (k, counters sc1, e1, u1)"
      using finish_feed(1) [OF m, of pre callback sc err u] f by simp
    have nx: "(case v0 of None \<Rightarrow> clock_open_group pre t sc1
        | Some v \<Rightarrow> clock_apply_change edge clk signals h (value_with_prefix v prefix) (clock_open_group pre t sc1)) = ?next sc1"
      using True unfolding n by (simp add: clock_next_def Let_def)
    have ct: "counters (?next sc1) = counters sc1" by (simp add: counters_def next_fields)
    have tr: "?trace (?next sc1) = ?trace (?next sc)" by (simp add: n next_counted)
    show ?thesis
      using True f fd Cons.IH [of "?next sc1" e1 u1] by (simp add: c feed_append ct tr nx)
  next
    case False
    have ct: "counters (?next sc) = counters sc" by (simp add: counters_def next_fields)
    show ?thesis
      using False Cons.IH [of "?next sc" err u] ct by (auto simp: c clock_next_def Let_def split: option.split)
  qed
qed

text \<open>The times of a trace.\<close>

lemma flush_times: "s \<in> set (clock_flush pre sc) \<Longrightarrow> cl_have_group sc \<and> cs_time s = cl_time sc"
  by (auto simp: clock_flush_def split: if_splits)

lemma trace_times_from:
  assumes "sorted (map fst changes)" "\<forall>c\<in>set changes. n \<le> fst c" "cl_have_group sc \<longrightarrow> cl_time sc = n"
  shows "\<forall>s\<in>set (clock_trace edge pre clk signals prefix changes sc). n \<le> cs_time s"
    "sorted_wrt (<) (map cs_time (clock_trace edge pre clk signals prefix changes sc))"
proof -
  have "(\<forall>s\<in>set (clock_trace edge pre clk signals prefix changes sc). n \<le> cs_time s) \<and>
      sorted_wrt (<) (map cs_time (clock_trace edge pre clk signals prefix changes sc))"
    using assms
  proof (induction changes arbitrary: sc n)
    case Nil
    then show ?case by (auto simp: clock_flush_def)
  next
    case (Cons c changes)
    obtain t h v0 where c: "c = (t, h, v0)" by (metis prod_cases3)
    have nt: "n \<le> t" using Cons.prems(2) c by simp
    have later: "(\<forall>s\<in>set (clock_trace edge pre clk signals prefix changes (clock_next edge pre clk signals prefix t h v0 sc)). t \<le> cs_time s) \<and>
        sorted_wrt (<) (map cs_time (clock_trace edge pre clk signals prefix changes (clock_next edge pre clk signals prefix t h v0 sc)))"
      using Cons.prems by (intro Cons.IH) (auto simp: c next_fields)
    show ?case
    proof (cases "cl_have_group sc \<and> t \<noteq> cl_time sc")
      case True
      then have "cl_time sc = n" "n < t" using Cons.prems(3) nt by auto
      then have "\<forall>s\<in>set (clock_flush pre sc). cs_time s = n" "sorted_wrt (<) (map cs_time (clock_flush pre sc))"
        by (auto simp: clock_flush_def)
      then show ?thesis using later nt \<open>n < t\<close> True by (fastforce simp: c sorted_wrt_append)
    next
      case False
      then show ?thesis using later nt by (auto simp: c)
    qed
  qed
  then show "\<forall>s\<in>set (clock_trace edge pre clk signals prefix changes sc). n \<le> cs_time s"
    "sorted_wrt (<) (map cs_time (clock_trace edge pre clk signals prefix changes sc))" by simp_all
qed

section \<open>A scan as a list of samples\<close>

definition first_scan :: "string list \<Rightarrow> char \<Rightarrow> clock_scan" where
  "first_scan texts prefix =
     \<lparr>cl_prev_clk = value_with_prefix (hd texts) prefix, cl_values = map (\<lambda>v. value_with_prefix v prefix) (tl texts),
      cl_have_group = False, cl_changed = False, cl_target = False, cl_kind = Negedge, cl_time = 0, cl_start = [],
      cl_count = 0, cl_truncated = False\<rparr>"

definition clock_samples :: "'h fsdb \<Rightarrow> clock_spec \<Rightarrow> 'h sample_signal list \<Rightarrow> nat \<Rightarrow> nat \<Rightarrow> char \<Rightarrow> string + clock_sample list" where
  "clock_samples f spec signals b e prefix =
     (case sig_by_name f (ck_clock spec) of
        None \<Rightarrow> Inl (''Clock signal not found: '' @ ck_clock spec)
      | Some clk \<Rightarrow>
          (case List.find (\<lambda>s. sg_handle s = None) signals of
             Some s \<Rightarrow> Inl (''Signal handle not resolved: '' @ sg_path s)
           | None \<Rightarrow>
               (case values_at f (clk # map (the \<circ> sg_handle) signals) (init_time b) of
                  None \<Rightarrow> Inl ''Failed to read initial sampled values''
                | Some texts \<Rightarrow>
                    if length texts \<noteq> length (clk # map (the \<circ> sg_handle) signals)
                    then Inl ''Failed to read initial sampled values''
                    else Inr (clock_trace (ck_edge spec) (sample_before_edge (ck_edge spec) (ck_point spec)) clk signals prefix
                                (value_changes f (clk # map (the \<circ> sg_handle) signals) b e) (first_scan texts prefix)))))"

lemma clock_scan_samples:
  assumes "m < 0"
  shows "clock_scanner_scan f spec signals b e prefix m callback [] u =
    (case clock_samples f spec signals b e prefix of
       Inl msg \<Rightarrow> (scan_failed msg, u)
     | Inr xs \<Rightarrow> (case feed callback xs \<lparr>ct_count = 0, ct_truncated = False\<rparr> [] u of
         (keep, ct, err, u') \<Rightarrow> (\<lparr>sr_ok = (err = []), sr_count = ct_count ct, sr_truncated = ct_truncated ct, sr_error = err\<rparr>, u')))"
proof -
  have step: "(case clock_scan_loop edge pre clk signals prefix m callback changes (first_scan texts prefix) [] u of (sc, err', u') \<Rightarrow>
      (\<lparr>sr_ok = (err' = []), sr_count = cl_count sc, sr_truncated = cl_truncated sc, sr_error = err'\<rparr>, u')) =
    (case feed callback (clock_trace edge pre clk signals prefix changes (first_scan texts prefix)) \<lparr>ct_count = 0, ct_truncated = False\<rparr> [] u of
         (keep, ct, err, u') \<Rightarrow> (\<lparr>sr_ok = (err = []), sr_count = ct_count ct, sr_truncated = ct_truncated ct, sr_error = err\<rparr>, u'))"
    for edge pre clk changes texts
  proof -
    have "counters (first_scan texts prefix) = \<lparr>ct_count = 0, ct_truncated = False\<rparr>" by (simp add: counters_def first_scan_def)
    then show ?thesis
      using clock_loop_feed [OF assms, of edge pre clk signals prefix callback changes "first_scan texts prefix" "[]" u]
      by (auto simp: counters_def split: prod.splits)
  qed
  show ?thesis
    by (simp add: clock_scanner_scan_def clock_samples_def Let_def step [unfolded first_scan_def] first_scan_def comp_def split: option.split)
qed

lemma clock_samples_increase:
  assumes "fsdb_replays f initial changes" "clock_samples f spec signals b e prefix = Inr xs"
  shows "sorted_wrt (<) (map cs_time xs)"
proof -
  obtain clk texts where x: "xs = clock_trace (ck_edge spec) (sample_before_edge (ck_edge spec) (ck_point spec)) clk signals prefix
      (value_changes f (clk # map (the \<circ> sg_handle) signals) b e) (first_scan texts prefix)"
    using assms(2) by (auto simp: clock_samples_def Let_def split: option.splits if_splits)
  have "sorted (map fst (value_changes f hs b e))" for hs
    using assms(1) by (auto simp: fsdb_replays_def log_changes_def comp_def case_prod_beta intro: sorted_filter)
  then show ?thesis unfolding x by (intro trace_times_from [where n = 0]) (auto simp: first_scan_def)
qed

end
