(* ===== verification/Apb_Analyzer.thy ===== *)
theory Apb_Analyzer
  imports Apb_Config Clock_Samples Cached_Builds Stream_Base
begin

text \<open>
  The APB analyzer, \<open>waveform/apb/apb_analyzer.{h,cpp}\<close>: the transactions of a recorded bus, found in one
  scan by its clock, and their analysis through the cache.  The waveform file, the size estimates and
  the serialiser are parameters, and so is the sample at which memory runs out.
\<close>

section \<open>Transactions\<close>

record apb_transaction =
  at_time :: nat
  at_addr :: string
  at_data :: string
  at_is_write :: bool
  at_has_error :: bool
  at_has_numeric_addr :: bool
  at_numeric_addr :: nat
  at_addr_width :: int
  at_data_width :: int
  at_addr_signal :: string
  at_data_signal :: string

text \<open>A pointer into the writes or the reads of a result.\<close>

datatype apb_ref = Write_Ref nat | Read_Ref nat

record apb_diagnostics =
  ad_sample_count :: nat
  ad_full_scan_count :: nat
  ad_analysis_complete :: bool
  ad_scan_begin :: nat
  ad_scan_end :: nat

record apb_result =
  ar_all :: "apb_ref list"
  ar_writes :: "apb_transaction list"
  ar_reads :: "apb_transaction list"
  ar_diagnostics :: apb_diagnostics

definition empty_apb_result :: apb_result where
  "empty_apb_result = \<lparr>ar_all = [], ar_writes = [], ar_reads = [],
     ar_diagnostics = \<lparr>ad_sample_count = 0, ad_full_scan_count = 0, ad_analysis_complete = True, ad_scan_begin = 0, ad_scan_end = 0\<rparr>\<rparr>"

definition transaction_of :: "apb_result \<Rightarrow> apb_ref \<Rightarrow> apb_transaction" where
  "transaction_of result p = (case p of Write_Ref i \<Rightarrow> ar_writes result ! i | Read_Ref i \<Rightarrow> ar_reads result ! i)"

text \<open>Whether the text is a number, and the number (0 for an empty text).\<close>

definition parse_hex_value :: "string \<Rightarrow> bool \<times> nat" where
  "parse_hex_value hex_str =
     (if hex_str = [] then (False, 0)
      else case c_strtoull 16 hex_str of (value, rest) \<Rightarrow> (rest \<noteq> c_str hex_str, value))"

text \<open>A control level that does not count as 1.\<close>

definition level_low :: "string \<Rightarrow> bool" where
  "level_low v \<longleftrightarrow> v = [] \<or> v = ''0'' \<or> v = ''X'' \<or> v = ''Z''"

definition fsdb_signal_width :: "'h fsdb \<Rightarrow> 'h \<Rightarrow> int" where
  "fsdb_signal_width f h = (case sig_width f h of Some w \<Rightarrow> if 0 < w then w else 0 | None \<Rightarrow> 0)"

section \<open>The scan\<close>

definition apb_signals :: "apb_config \<Rightarrow> string list" where
  "apb_signals c =
     [reset_signal (ac_reset c), ac_psel c, ac_penable c, ac_pwrite c, ac_paddr c, ac_pwdata c, ac_prdata c] @
     (if ac_pready c \<noteq> [] then [ac_pready c] else []) @ (if ac_pslverr c \<noteq> [] then [ac_pslverr c] else [])"

text \<open>The places of the optional signals among the sampled values.\<close>

definition pready_index :: "apb_config \<Rightarrow> nat option" where
  "pready_index c = (if ac_pready c \<noteq> [] then Some 7 else None)"

definition pslverr_index :: "apb_config \<Rightarrow> nat option" where
  "pslverr_index c = (if ac_pslverr c \<noteq> [] then Some (if ac_pready c \<noteq> [] then 8 else 7) else None)"

definition resolve_apb_signals :: "'h fsdb \<Rightarrow> apb_config \<Rightarrow> string + 'h sample_signal list" where
  "resolve_apb_signals f c =
     (case List.find (\<lambda>p. sig_by_name f p = None) (apb_signals c) of
        Some p \<Rightarrow> Inl (''APB signal not found: '' @ p)
      | None \<Rightarrow> Inr (map (\<lambda>p. \<lparr>sg_alias = p, sg_path = p, sg_handle = sig_by_name f p\<rparr>) (apb_signals c)))"

record apb_widths =
  aw_addr :: int
  aw_wdata :: int
  aw_rdata :: int

definition apb_widths_of :: "'h fsdb \<Rightarrow> 'h sample_signal list \<Rightarrow> apb_widths" where
  "apb_widths_of f signals =
     (let width = (\<lambda>i. fsdb_signal_width f (the (sg_handle (signals ! i))))
      in \<lparr>aw_addr = width 4, aw_wdata = width 5, aw_rdata = width 6\<rparr>)"

definition make_apb_transaction :: "apb_config \<Rightarrow> apb_widths \<Rightarrow> nat \<Rightarrow> string list \<Rightarrow> apb_transaction" where
  "make_apb_transaction c w t vals =
     (let is_write = (\<not> level_low (vals ! 3));
          (numeric, addr) = parse_hex_value (vals ! 4)
      in \<lparr>at_time = t, at_addr = vals ! 4, at_data = (if is_write then vals ! 5 else vals ! 6), at_is_write = is_write,
          at_has_error = (case pslverr_index c of None \<Rightarrow> False | Some i \<Rightarrow> \<not> level_low (vals ! i)),
          at_has_numeric_addr = numeric, at_numeric_addr = addr, at_addr_width = aw_addr w,
          at_data_width = (if is_write then aw_wdata w else aw_rdata w), at_addr_signal = ac_paddr c,
          at_data_signal = (if is_write then ac_pwdata c else ac_prdata c)\<rparr>)"

definition push_transaction :: "apb_transaction \<Rightarrow> apb_result \<Rightarrow> apb_result" where
  "push_transaction txn result =
     (if at_is_write txn then result\<lparr>ar_writes := ar_writes result @ [txn]\<rparr>
      else result\<lparr>ar_reads := ar_reads result @ [txn]\<rparr>)"

text \<open>One clock edge: the result, and whether the access under way has completed already.\<close>

definition process_edge :: "apb_config \<Rightarrow> apb_widths \<Rightarrow> clock_sample \<Rightarrow> apb_result \<times> bool \<Rightarrow> apb_result \<times> bool" where
  "process_edge c w sample st =
     (case st of (result, completion_seen) \<Rightarrow>
        let vals = cs_values sample in
        if length vals < length (apb_signals c) then (result, completion_seen)
        else if reset_is_active (ac_reset c) (vals ! 0) then (result, False)
        else if level_low (vals ! 1) then (result, False)
        else if level_low (vals ! 2) then (result, False)
        else if (case pready_index c of None \<Rightarrow> False | Some i \<Rightarrow> level_low (vals ! i)) then (result, completion_seen)
        else if completion_seen then (result, True)
        else (push_transaction (make_apb_transaction c w (cs_time sample) vals) result, True))"

text \<open>
  The callback of the scan: the edge is processed, and the size of the result reported to the cache at
  every power of two of samples.  \<open>oom\<close> is the number of the sample whose processing runs out of memory.
\<close>

record address_bucket =
  ab_all :: "nat list"
  ab_writes :: "nat list"
  ab_reads :: "nat list"

type_synonym address_index = "(nat, address_bucket) omap"

datatype apb_value = Apb_Value apb_result | Apb_Index address_index

record apb_build =
  bd_result :: apb_result
  bd_completion_seen :: bool
  bd_observed :: nat
  bd_budget_failed :: bool
  bd_out_of_memory :: bool
  bd_repository :: "apb_value repository"
  bd_cache_error :: cache_error

definition apb_callback ::
  "(apb_result \<Rightarrow> nat) \<Rightarrow> nat option \<Rightarrow> apb_config \<Rightarrow> apb_widths \<Rightarrow> cache_key \<Rightarrow> apb_build sample_callback" where
  "apb_callback estimate oom c w key sample err bd =
     (if oom = Some (bd_observed bd) then (False, err, bd\<lparr>bd_out_of_memory := True\<rparr>)
      else case process_edge c w sample (bd_result bd, bd_completion_seen bd) of
        (result, seen) \<Rightarrow>
          let bd1 = bd\<lparr>bd_result := result, bd_completion_seen := seen, bd_observed := bd_observed bd + 1\<rparr>
          in if \<not> power_of_two (bd_observed bd1) then (True, err, bd1)
             else case update_canonical_build_bytes key (estimate result) (bd_cache_error bd1) (bd_repository bd1) of
                    (ok, cerr, r) \<Rightarrow>
                      let bd2 = bd1\<lparr>bd_repository := r, bd_cache_error := cerr\<rparr>
                      in if ok then (True, err, bd2) else (False, err, bd2\<lparr>bd_budget_failed := True\<rparr>))"

text \<open>The merge of the writes and the reads by time, a write before a read of the same time.\<close>

fun merge_refs :: "apb_transaction list \<Rightarrow> apb_transaction list \<Rightarrow> nat \<Rightarrow> nat \<Rightarrow> apb_ref list" where
  "merge_refs [] [] wi ri = []"
| "merge_refs (w # ws) [] wi ri = Write_Ref wi # merge_refs ws [] (wi + 1) ri"
| "merge_refs [] (r # rs) wi ri = Read_Ref ri # merge_refs [] rs wi (ri + 1)"
| "merge_refs (w # ws) (r # rs) wi ri =
     (if at_time w \<le> at_time r then Write_Ref wi # merge_refs ws (r # rs) (wi + 1) ri
      else Read_Ref ri # merge_refs (w # ws) rs wi (ri + 1))"

text \<open>The sort by time; no two transactions of a list have the same time, so it is the only one.\<close>

definition finish_apb_result :: "'h fsdb \<Rightarrow> int \<Rightarrow> bool \<Rightarrow> apb_result \<Rightarrow> apb_result" where
  "finish_apb_result f sample_count truncated result =
     (let writes = sort_key at_time (ar_writes result); reads = sort_key at_time (ar_reads result)
      in \<lparr>ar_all = merge_refs writes reads 0 0, ar_writes = writes, ar_reads = reads,
          ar_diagnostics = \<lparr>ad_sample_count = nat sample_count, ad_full_scan_count = 1, ad_analysis_complete = (\<not> truncated),
            ad_scan_begin = min_time f, ad_scan_end = max_time f\<rparr>\<rparr>)"

section \<open>The analysis through the cache\<close>

record apb_analyzer =
  aa_repository :: "apb_value repository option"
  aa_session :: string
  aa_identity :: fsdb_identity
  aa_keys :: "(string, cache_key) omap"
  aa_cache_error :: cache_error

definition apb_fingerprint_version :: nat where
  "apb_fingerprint_version = 2"

definition apb_result_tag :: string where
  "apb_result_tag = ''apb_result.v1''"

definition configure_apb_repository ::
  "apb_value repository option \<Rightarrow> string \<Rightarrow> fsdb_identity \<Rightarrow> apb_analyzer" where
  "configure_apb_repository repo sess identity =
     \<lparr>aa_repository = repo, aa_session = sess, aa_identity = identity, aa_keys = [], aa_cache_error = no_error\<rparr>"

definition apb_cache_key :: "(json \<Rightarrow> string) \<Rightarrow> apb_analyzer \<Rightarrow> apb_config \<Rightarrow> cache_key" where
  "apb_cache_key dump az c =
     make_analysis_cache_key ''apb'' (aa_session az) (aa_identity az) apb_fingerprint_version
       (normalized_apb_config_semantics dump c) Scope_Full 0 0"

definition as_result :: "apb_value option \<Rightarrow> apb_result option" where
  "as_result v = (case v of Some (Apb_Value r) \<Rightarrow> Some r | _ \<Rightarrow> None)"

text \<open>The result kept for a name, with its generation.\<close>

definition get_result_internal :: "apb_analyzer \<Rightarrow> string \<Rightarrow> (apb_result \<times> nat) option" where
  "get_result_internal az name =
     (case (aa_repository az, omap_get (aa_keys az) name) of
        (Some r, Some key) \<Rightarrow>
          (case fst (find_canonical key apb_result_tag False r) of
             Some (Some (Apb_Value result), generation) \<Rightarrow> Some (result, generation)
           | _ \<Rightarrow> None)
      | _ \<Rightarrow> None)"

definition get_result :: "apb_analyzer \<Rightarrow> string \<Rightarrow> apb_result option" where
  "get_result az name = map_option fst (get_result_internal az name)"

definition filter_name :: "int \<Rightarrow> string" where
  "filter_name flt = (if flt = 1 then ''write'' else if flt = 2 then ''read'' else ''all'')"

definition cursor_id :: "string \<Rightarrow> int \<Rightarrow> string" where
  "cursor_id name flt = ''apb:'' @ name @ '':'' @ filter_name flt"

text \<open>A failed build: the canonical object is given up, and the error has a message.\<close>

definition fail_apb_build ::
  "cache_key \<Rightarrow> string \<Rightarrow> cache_error \<Rightarrow> apb_value repository \<Rightarrow> bool \<times> cache_error \<times> apb_value repository" where
  "fail_apb_build key reason err r =
     (False, (if ce_message err = [] then err\<lparr>ce_message := ''failed to build APB analysis''\<rparr> else err), fail_canonical key reason r)"

definition start_apb_build :: "cache_error \<Rightarrow> apb_value repository \<Rightarrow> apb_build" where
  "start_apb_build err r =
     \<lparr>bd_result = empty_apb_result, bd_completion_seen = False, bd_observed = 0, bd_budget_failed = False,
      bd_out_of_memory = False, bd_repository = r, bd_cache_error = err\<rparr>"

definition publish_apb_result ::
  "(apb_result \<Rightarrow> nat) \<Rightarrow> cache_key \<Rightarrow> apb_result \<Rightarrow> cache_error \<Rightarrow> apb_value repository \<Rightarrow> bool \<times> cache_error \<times> apb_value repository" where
  "publish_apb_result estimate key result err r =
     (case update_canonical_build_bytes key (estimate result) err r of
        (False, err1, r1) \<Rightarrow> (False, err1, r1)
      | (True, err1, r1) \<Rightarrow> publish_canonical key apb_result_tag (Some (Apb_Value result)) (estimate result) err1 r1)"

definition build_apb_result ::
  "(apb_result \<Rightarrow> nat) \<Rightarrow> nat option \<Rightarrow> 'h fsdb \<Rightarrow> apb_config \<Rightarrow> cache_key \<Rightarrow> cache_error \<Rightarrow> apb_value repository \<Rightarrow>
   bool \<times> cache_error \<times> apb_value repository" where
  "build_apb_result estimate oom f c key err r =
     (case resolve_apb_signals f c of
        Inl msg \<Rightarrow> fail_apb_build key ''signal_not_found'' (err\<lparr>ce_message := msg\<rparr>) r
      | Inr signals \<Rightarrow>
          (case clock_scanner_scan f (ac_clock_sample c) signals (min_time f) (max_time f) (CHR 0x00) (- 1)
                  (apb_callback estimate oom c (apb_widths_of f signals) key) [] (start_apb_build err r) of
             (res, bd) \<Rightarrow>
               if bd_out_of_memory bd then (case fail_canonical_bad_alloc key (bd_repository bd) of (e, r') \<Rightarrow> (False, e, r'))
               else if bd_budget_failed bd then (False, bd_cache_error bd, bd_repository bd)
               else if \<not> sr_ok res
               then fail_apb_build key ''scan_failed'' ((bd_cache_error bd)\<lparr>ce_message := sr_error res\<rparr>) (bd_repository bd)
               else if oom \<noteq> None then (case fail_canonical_bad_alloc key (bd_repository bd) of (e, r') \<Rightarrow> (False, e, r'))
               else publish_apb_result estimate key (finish_apb_result f (sr_count res) (sr_truncated res) (bd_result bd))
                      (bd_cache_error bd) (bd_repository bd)))"

definition erase_apb_cursors :: "string \<Rightarrow> apb_value repository \<Rightarrow> apb_value repository" where
  "erase_apb_cursors name r = erase_cursor (cursor_id name 2) (erase_cursor (cursor_id name 1) (erase_cursor (cursor_id name 0) r))"

definition apb_unavailable :: cache_error where
  "apb_unavailable = code_error ''ANALYSIS_REPOSITORY_UNAVAILABLE'' ''APB analysis repository is not configured'' no_error"

definition analyze_apb ::
  "(apb_result \<Rightarrow> nat) \<Rightarrow> nat \<Rightarrow> (json \<Rightarrow> string) \<Rightarrow> nat option \<Rightarrow> string \<Rightarrow> 'h fsdb \<Rightarrow> apb_config \<Rightarrow> apb_analyzer \<Rightarrow>
   bool \<times> apb_analyzer" where
  "analyze_apb estimate empty_bytes dump oom name f c az =
     (case aa_repository az of
        None \<Rightarrow> (False, az\<lparr>aa_cache_error := apb_unavailable\<rparr>)
      | Some r \<Rightarrow>
          let key = apb_cache_key dump az c;
              r0 = (case omap_get (aa_keys az) name of
                      Some previous \<Rightarrow> if previous \<noteq> key then erase_apb_cursors name r else r
                    | None \<Rightarrow> r);
              az1 = az\<lparr>aa_keys := omap_put name key (aa_keys az)\<rparr>
          in case begin_canonical key apb_result_tag empty_bytes r0 of
               (status, err, r1) \<Rightarrow>
                 (case (if status = Hit then (True, err, r1)
                        else if status = Build_Started then build_apb_result estimate oom f c key err r1
                        else (False, err, r1)) of
                    (ok, err', r') \<Rightarrow> (ok, az1\<lparr>aa_repository := Some r', aa_cache_error := err'\<rparr>)))"

end
