(* ===== verification/Apb_Transactions.thy ===== *)
theory Apb_Transactions
  imports Apb_Analyzer
begin

text \<open>
  What an APB analysis finds: the first completing sample of every access phase, in time order, whether
  the analysis scans the file or is found in the cache.
\<close>

section \<open>The reference\<close>

text \<open>
  A sample with all values is idle when the reset is active or the bus is not in an access; an access
  phase is a longest run of samples that are not idle, and completes at its first ready sample.
\<close>

definition complete_sample :: "apb_config \<Rightarrow> clock_sample \<Rightarrow> bool" where
  "complete_sample c s \<longleftrightarrow> length (apb_signals c) \<le> length (cs_values s)"

definition idle_sample :: "apb_config \<Rightarrow> clock_sample \<Rightarrow> bool" where
  "idle_sample c s \<longleftrightarrow> reset_is_active (ac_reset c) (cs_values s ! 0) \<or> level_low (cs_values s ! 1) \<or> level_low (cs_values s ! 2)"

definition ready_sample :: "apb_config \<Rightarrow> clock_sample \<Rightarrow> bool" where
  "ready_sample c s \<longleftrightarrow> (case pready_index c of None \<Rightarrow> True | Some i \<Rightarrow> \<not> level_low (cs_values s ! i))"

function phases :: "('a \<Rightarrow> bool) \<Rightarrow> 'a list \<Rightarrow> 'a list list" where
  "phases idle xs =
     (case dropWhile idle xs of [] \<Rightarrow> []
      | y # ys \<Rightarrow> takeWhile (\<lambda>s. \<not> idle s) (y # ys) # phases idle (dropWhile (\<lambda>s. \<not> idle s) ys))"
  by pat_completeness auto
termination
proof (relation "measure (\<lambda>(idle, xs). length xs)")
  fix idle :: "'a \<Rightarrow> bool" and xs y ys
  assume "dropWhile idle xs = y # ys"
  then have "length (y # ys) \<le> length xs" by (metis length_dropWhile_le)
  moreover have "length (dropWhile (\<lambda>s. \<not> idle s) ys) \<le> length ys" by (rule length_dropWhile_le)
  ultimately show "((idle, dropWhile (\<lambda>s. \<not> idle s) ys), (idle, xs)) \<in> measure (\<lambda>(idle, xs). length xs)" by simp
qed simp

declare phases.simps [simp del]

definition apb_accesses :: "apb_config \<Rightarrow> clock_sample list \<Rightarrow> clock_sample list" where
  "apb_accesses c xs =
     concat (map (\<lambda>phase. option_list (List.find (ready_sample c) phase)) (phases (idle_sample c) (filter (complete_sample c) xs)))"

definition apb_transactions :: "apb_config \<Rightarrow> apb_widths \<Rightarrow> clock_sample list \<Rightarrow> apb_transaction list" where
  "apb_transactions c w xs = map (\<lambda>s. make_apb_transaction c w (cs_time s) (cs_values s)) (apb_accesses c xs)"

section \<open>Access phases\<close>

text \<open>The same, sample by sample.\<close>

fun accesses :: "('a \<Rightarrow> bool) \<Rightarrow> ('a \<Rightarrow> bool) \<Rightarrow> bool \<Rightarrow> 'a list \<Rightarrow> 'a list" where
  "accesses idle rdy seen [] = []"
| "accesses idle rdy seen (s # ss) =
     (if idle s then accesses idle rdy False ss
      else if \<not> rdy s \<or> seen then accesses idle rdy seen ss
      else s # accesses idle rdy True ss)"

lemma accesses_run:
  "accesses idle rdy seen ys =
     (if seen then [] else option_list (List.find rdy (takeWhile (\<lambda>s. \<not> idle s) ys))) @
     accesses idle rdy False (dropWhile (\<lambda>s. \<not> idle s) ys)"
  by (induction idle rdy seen ys rule: accesses.induct) (auto simp: option_list_def)

lemma accesses_idle: "accesses idle rdy False xs = accesses idle rdy False (dropWhile idle xs)"
  by (induction xs) auto

lemma accesses_phases: "accesses idle rdy False xs = concat (map (\<lambda>phase. option_list (List.find rdy phase)) (phases idle xs))"
proof (induction idle xs rule: phases.induct)
  case (1 idle xs)
  show ?case
  proof (cases "dropWhile idle xs")
    case Nil
    show ?thesis unfolding accesses_idle [of idle rdy xs] phases.simps [of idle xs] Nil by simp
  next
    case (Cons y ys)
    then have y: "\<not> idle y" by (metis dropWhile_eq_Cons_conv)
    have "accesses idle rdy False xs = option_list (List.find rdy (takeWhile (\<lambda>s. \<not> idle s) (y # ys))) @
        accesses idle rdy False (dropWhile (\<lambda>s. \<not> idle s) ys)"
      by (subst accesses_idle, subst accesses_run) (simp add: Cons y)
    then show ?thesis using 1 [OF Cons] by (subst phases.simps) (simp add: Cons)
  qed
qed

lemma scan_accesses:
  "fst (fold (process_edge c w) xs (result, seen)) =
     fold push_transaction
       (map (\<lambda>s. make_apb_transaction c w (cs_time s) (cs_values s))
         (accesses (idle_sample c) (ready_sample c) seen (filter (complete_sample c) xs))) result"
proof (induction xs arbitrary: result seen)
  case (Cons s xs)
  have "process_edge c w s (result, seen) =
      (if \<not> complete_sample c s then (result, seen)
       else if idle_sample c s then (result, False)
       else if \<not> ready_sample c s then (result, seen)
       else if seen then (result, True)
       else (push_transaction (make_apb_transaction c w (cs_time s) (cs_values s)) result, True))"
    by (auto simp: process_edge_def complete_sample_def idle_sample_def ready_sample_def Let_def split: option.splits)
  then show ?case using Cons.IH by simp
qed simp

lemma scanned_transactions:
  "fst (fold (process_edge c w) xs (result, False)) = fold push_transaction (apb_transactions c w xs) result"
  by (simp add: scan_accesses accesses_phases apb_transactions_def apb_accesses_def)

section \<open>Writes, reads and their merge\<close>

lemma pushed:
  "ar_writes (fold push_transaction txns r) = ar_writes r @ filter at_is_write txns"
  "ar_reads (fold push_transaction txns r) = ar_reads r @ filter (\<lambda>t. \<not> at_is_write t) txns"
  by (induction txns arbitrary: r) (auto simp: push_transaction_def)

definition deref :: "apb_transaction list \<Rightarrow> apb_transaction list \<Rightarrow> apb_ref \<Rightarrow> apb_transaction" where
  "deref writes reads p = (case p of Write_Ref i \<Rightarrow> writes ! i | Read_Ref i \<Rightarrow> reads ! i)"

lemma merge_in_order:
  assumes "sorted_wrt (<) (map at_time txns)"
    "ws = filter at_is_write txns" "rs = filter (\<lambda>t. \<not> at_is_write t) txns"
  shows "map (deref (wp @ ws) (rp @ rs)) (merge_refs ws rs (length wp) (length rp)) = txns"
  using assms
proof (induction txns arbitrary: ws rs wp rp)
  case (Cons x txns)
  have later: "at_time x < at_time y" if "y \<in> set txns" for y using that Cons.prems(1) by simp
  let ?W = "filter at_is_write txns" and ?R = "filter (\<lambda>t. \<not> at_is_write t) txns"
  have first: "at_time x \<le> at_time y" "\<not> at_time y \<le> at_time x" if "filter P txns = y # ys" for P y ys
  proof -
    have "y \<in> set (filter P txns)" unfolding that by simp
    then show "at_time x \<le> at_time y" "\<not> at_time y \<le> at_time x" using later [of y] by simp_all
  qed
  have sorted: "sorted_wrt (<) (map at_time txns)" using Cons.prems(1) by simp
  show ?case
  proof (cases "at_is_write x")
    case True
    then have ws: "ws = x # ?W" "rs = ?R" using Cons.prems(2,3) by simp_all
    have "merge_refs ws rs (length wp) (length rp) = Write_Ref (length wp) # merge_refs ?W ?R (length (wp @ [x])) (length rp)"
      unfolding ws using first by (cases ?R) simp_all
    then show ?thesis using Cons.IH [OF sorted refl refl, of "wp @ [x]" rp] by (simp add: ws deref_def nth_append)
  next
    case False
    then have rs: "ws = ?W" "rs = x # ?R" using Cons.prems(2,3) by simp_all
    have "merge_refs ws rs (length wp) (length rp) = Read_Ref (length rp) # merge_refs ?W ?R (length wp) (length (rp @ [x]))"
      unfolding rs using first by (cases ?W) simp_all
    then show ?thesis using Cons.IH [OF sorted refl refl, of wp "rp @ [x]"] by (simp add: rs deref_def nth_append)
  qed
qed simp

lemma accesses_sorted:
  "sorted_wrt (<) (map cs_time xs) \<Longrightarrow>
     sorted_wrt (<) (map cs_time (accesses idle rdy seen xs)) \<and> set (accesses idle rdy seen xs) \<subseteq> set xs"
  by (induction idle rdy seen xs rule: accesses.induct) auto

lemma transactions_sorted:
  assumes "sorted_wrt (<) (map cs_time xs)"
  shows "sorted_wrt (<) (map at_time (apb_transactions c w xs))"
proof -
  have "sorted_wrt (<) (map cs_time (filter (complete_sample c) xs))"
    using assms by (induction xs) auto
  then have "sorted_wrt (<) (map cs_time (apb_accesses c xs))"
    using accesses_sorted unfolding apb_accesses_def accesses_phases [symmetric] by blast
  then show ?thesis
    by (simp add: apb_transactions_def comp_def make_apb_transaction_def case_prod_beta Let_def)
qed

lemma finished_lists:
  assumes "sorted_wrt (<) (map at_time txns)"
  shows "map (transaction_of (finish_apb_result f n tr (fold push_transaction txns empty_apb_result)))
      (ar_all (finish_apb_result f n tr (fold push_transaction txns empty_apb_result))) = txns"
    "ar_writes (finish_apb_result f n tr (fold push_transaction txns empty_apb_result)) = filter at_is_write txns"
    "ar_reads (finish_apb_result f n tr (fold push_transaction txns empty_apb_result)) = filter (\<lambda>t. \<not> at_is_write t) txns"
proof -
  have "sorted (map at_time txns)" using assms by (rule strict_sorted_imp_sorted)
  then have "sorted (map at_time (filter P txns))" for P by (rule sorted_filter)
  then have keep: "sort_key at_time (filter P txns) = filter P txns" for P by (rule sort_key_id_if_sorted)
  show lists: "ar_writes (finish_apb_result f n tr (fold push_transaction txns empty_apb_result)) = filter at_is_write txns"
    "ar_reads (finish_apb_result f n tr (fold push_transaction txns empty_apb_result)) = filter (\<lambda>t. \<not> at_is_write t) txns"
    by (simp_all add: finish_apb_result_def Let_def pushed empty_apb_result_def keep)
  have "transaction_of r = deref (ar_writes r) (ar_reads r)" for r
    by (rule ext) (simp add: transaction_of_def deref_def split: apb_ref.split)
  then show "map (transaction_of (finish_apb_result f n tr (fold push_transaction txns empty_apb_result)))
      (ar_all (finish_apb_result f n tr (fold push_transaction txns empty_apb_result))) = txns"
    using merge_in_order [OF assms refl refl, of "[]" "[]"] lists
    by (simp add: finish_apb_result_def Let_def pushed empty_apb_result_def keep)
qed

text \<open>
  C32: one transaction per access.  The edge by edge scan with its completion flag, the two lists sorted
  by time and their merge give exactly this: of every access phase, a longest run of samples with the
  reset inactive and select and enable high, the first sample that is ready, in time order; the writes
  and the reads are the parts of that list.
\<close>

theorem apb_transactions_exact:
  assumes "sorted_wrt (<) (map cs_time xs)"
    and "result = finish_apb_result f n tr (fst (fold (process_edge c w) xs (empty_apb_result, False)))"
  shows "map (transaction_of result) (ar_all result) = apb_transactions c w xs \<and>
    sorted_wrt (<) (map at_time (apb_transactions c w xs)) \<and>
    ar_writes result = filter at_is_write (apb_transactions c w xs) \<and>
    ar_reads result = filter (\<lambda>t. \<not> at_is_write t) (apb_transactions c w xs)"
  using finished_lists [OF transactions_sorted [OF assms(1), of c w], of f n tr] transactions_sorted [OF assms(1), of c w]
  by (simp add: assms(2) scanned_transactions)

text \<open>A bus with an access that waits for ready and is then held, and a second one.\<close>

definition bus_config :: apb_config where
  "bus_config = \<lparr>ac_name = ''bus'', ac_paddr = ''paddr'', ac_pwdata = ''pwdata'', ac_prdata = ''prdata'', ac_pwrite = ''pwrite'',
     ac_penable = ''penable'', ac_psel = ''psel'', ac_pready = ''pready'', ac_pslverr = [],
     ac_clock_sample = default_clock_spec\<lparr>ck_clock := ''clk''\<rparr>, ac_reset = \<lparr>reset_signal = ''rst_n'', reset_polarity = ActiveLow\<rparr>\<rparr>"

definition bus_sample :: "nat \<Rightarrow> string \<Rightarrow> string \<Rightarrow> string \<Rightarrow> string \<Rightarrow> clock_sample" where
  "bus_sample t enable write addr rdy =
     \<lparr>cs_time = t, cs_edge = Negedge, cs_values = [''1'', ''1'', enable, write, addr, ''ab'', ''cd'', rdy]\<rparr>"

definition bus_samples :: "clock_sample list" where
  "bus_samples = [bus_sample 10 ''0'' ''1'' ''10'' ''0'', bus_sample 20 ''1'' ''1'' ''10'' ''0'', bus_sample 30 ''1'' ''1'' ''10'' ''1'',
     bus_sample 40 ''1'' ''1'' ''10'' ''1'', bus_sample 50 ''0'' ''0'' ''20'' ''0'', bus_sample 60 ''1'' ''0'' ''20'' ''1'']"

definition bus_widths :: apb_widths where
  "bus_widths = \<lparr>aw_addr = 8, aw_wdata = 8, aw_rdata = 8\<rparr>"

definition bus_log :: "(nat \<times> string \<times> string) list" where
  "bus_log = [(0, ''rst_n'', ''1''), (0, ''psel'', ''1''), (1, ''pwrite'', ''1''), (1, ''paddr'', ''10''), (1, ''pwdata'', ''ab''),
     (1, ''prdata'', ''cd''), (5, ''clk'', ''1''), (6, ''penable'', ''1''), (8, ''pready'', ''1''), (10, ''clk'', ''0''),
     (12, ''penable'', ''0''), (15, ''clk'', ''1''), (20, ''clk'', ''0''), (22, ''penable'', ''1''), (22, ''pwrite'', ''0''),
     (22, ''paddr'', ''20''), (25, ''clk'', ''1''), (30, ''clk'', ''0'')]"

definition bus_file :: "string fsdb" where
  "bus_file =
     \<lparr>sig_by_name = Some, sig_width = (\<lambda>_. Some 8),
      values_at = (\<lambda>hs t. Some (map (\<lambda>h. value_of (\<lambda>_. ''0'') bus_log h t) hs)),
      value_changes = log_changes bus_log, min_time = 0, max_time = 40\<rparr>"

lemma bus_transactions:
  "map (\<lambda>t. (at_time t, at_is_write t, at_numeric_addr t, at_data t)) (apb_transactions bus_config bus_widths bus_samples) =
     [(30, True, 16, ''ab''), (60, False, 32, ''cd'')]"
  by code_simp

lemma bus_sorted: "sorted_wrt (<) (map cs_time bus_samples)"
  by code_simp

theorem apb_transactions_exact_witness:
  "map (\<lambda>t. (at_time t, at_is_write t, at_numeric_addr t, at_data t))
     (map (transaction_of (finish_apb_result bus_file 6 False
            (fst (fold (process_edge bus_config bus_widths) bus_samples (empty_apb_result, False)))))
       (ar_all (finish_apb_result bus_file 6 False
            (fst (fold (process_edge bus_config bus_widths) bus_samples (empty_apb_result, False)))))) =
   [(30, True, 16, ''ab''), (60, False, 32, ''cd'')]"
  using apb_transactions_exact [OF bus_sorted refl, of bus_file 6 False bus_config bus_widths] bus_transactions by simp

section \<open>The analysis of a file, with and without the cache\<close>

text \<open>The scan of a file as a function of the description, without the cache.\<close>

definition apb_scan :: "'h fsdb \<Rightarrow> apb_config \<Rightarrow> string + apb_result" where
  "apb_scan f c =
     and_then (resolve_apb_signals f c) (\<lambda>signals.
     and_then (clock_samples f (ac_clock_sample c) signals (min_time f) (max_time f) (CHR 0x00)) (\<lambda>xs.
     Inr (finish_apb_result f (int (length xs)) False
            (fst (fold (process_edge c (apb_widths_of f signals)) xs (empty_apb_result, False))))))"

text \<open>Neither the name, nor whether the sample point was given, nor a sample point that is not used matter.\<close>

lemma meaning_fields:
  "apb_signals (apb_meaning c) = apb_signals c" "pready_index (apb_meaning c) = pready_index c"
  "pslverr_index (apb_meaning c) = pslverr_index c" "ac_reset (apb_meaning c) = ac_reset c"
  "ac_paddr (apb_meaning c) = ac_paddr c" "ac_pwdata (apb_meaning c) = ac_pwdata c" "ac_prdata (apb_meaning c) = ac_prdata c"
  "ck_clock (ac_clock_sample (apb_meaning c)) = ck_clock (ac_clock_sample c)"
  "ck_edge (ac_clock_sample (apb_meaning c)) = ck_edge (ac_clock_sample c)"
  "sample_before_edge (ck_edge (ac_clock_sample c)) (ck_point (ac_clock_sample (apb_meaning c))) =
     sample_before_edge (ck_edge (ac_clock_sample c)) (ck_point (ac_clock_sample c))"
  by (simp_all add: apb_meaning_def apb_signals_def pready_index_def pslverr_index_def sample_before_edge_def)

lemma scan_meaning: "apb_scan f (apb_meaning c) = apb_scan f c"
proof -
  have "make_apb_transaction (apb_meaning c) w t vals = make_apb_transaction c w t vals" for w t vals
    unfolding make_apb_transaction_def meaning_fields ..
  then have edge: "process_edge (apb_meaning c) = process_edge c"
    by (intro ext) (simp only: process_edge_def meaning_fields)
  have resolve: "resolve_apb_signals f (apb_meaning c) = resolve_apb_signals f c"
    by (simp only: resolve_apb_signals_def meaning_fields)
  have samples: "clock_samples f (ac_clock_sample (apb_meaning c)) signals b e p = clock_samples f (ac_clock_sample c) signals b e p"
    for signals b e p
    unfolding clock_samples_def meaning_fields ..
  show ?thesis by (simp only: apb_scan_def edge resolve samples)
qed

text \<open>What a scan delivers, with no time twice.\<close>

lemma scan_transactions:
  assumes "fsdb_replays f initial changes" "apb_scan f c = Inr result"
  obtains signals xs where "resolve_apb_signals f c = Inr signals"
    "clock_samples f (ac_clock_sample c) signals (min_time f) (max_time f) (CHR 0x00) = Inr xs"
    "map (transaction_of result) (ar_all result) = apb_transactions c (apb_widths_of f signals) xs"
    "ar_writes result = filter at_is_write (apb_transactions c (apb_widths_of f signals) xs)"
    "ar_reads result = filter (\<lambda>t. \<not> at_is_write t) (apb_transactions c (apb_widths_of f signals) xs)"
    "sorted_wrt (<) (map at_time (apb_transactions c (apb_widths_of f signals) xs))"
proof -
  obtain signals xs where s: "resolve_apb_signals f c = Inr signals"
    "clock_samples f (ac_clock_sample c) signals (min_time f) (max_time f) (CHR 0x00) = Inr xs"
    and r: "result = finish_apb_result f (int (length xs)) False (fst (fold (process_edge c (apb_widths_of f signals)) xs (empty_apb_result, False)))"
    using assms(2) by (auto simp: apb_scan_def)
  note sorted = transactions_sorted [OF clock_samples_increase [OF assms(1) s(2)], of c "apb_widths_of f signals"]
  show ?thesis
    by (rule that [OF s]) (simp_all add: r scanned_transactions finished_lists [OF sorted] sorted)
qed

text \<open>The callback of the scan: the repository at most loses entries, and the edges are processed in order.\<close>

lemma apb_callback_step:
  assumes "apb_callback estimate oom c w key s err bd = (keep, err', bd')"
    and "\<not> bd_budget_failed bd" "\<not> bd_out_of_memory bd"
  shows "err' = err" "fades (bd_repository bd) (bd_repository bd')"
    "keep \<longleftrightarrow> \<not> bd_budget_failed bd' \<and> \<not> bd_out_of_memory bd'"
    "keep \<Longrightarrow> (bd_result bd', bd_completion_seen bd') = process_edge c w s (bd_result bd, bd_completion_seen bd)"
proof -
  have "err' = err \<and> fades (bd_repository bd) (bd_repository bd') \<and>
    (keep \<longleftrightarrow> \<not> bd_budget_failed bd' \<and> \<not> bd_out_of_memory bd') \<and>
    (keep \<longrightarrow> (bd_result bd', bd_completion_seen bd') = process_edge c w s (bd_result bd, bd_completion_seen bd))"
  proof (cases "oom = Some (bd_observed bd)")
    case True
    then show ?thesis using assms by (auto simp: apb_callback_def)
  next
    case False
    obtain result seen where p: "process_edge c w s (bd_result bd, bd_completion_seen bd) = (result, seen)" by fastforce
    obtain ok cerr r where u: "update_canonical_build_bytes key (estimate result) (bd_cache_error bd) (bd_repository bd) = (ok, cerr, r)"
      by (metis prod_cases3)
    have "fades (bd_repository bd) r" using fades_update u by (metis snd_conv)
    then show ?thesis using assms False p u by (auto simp: apb_callback_def Let_def split: if_splits)
  qed
  then show "err' = err" "fades (bd_repository bd) (bd_repository bd')"
    "keep \<longleftrightarrow> \<not> bd_budget_failed bd' \<and> \<not> bd_out_of_memory bd'"
    "keep \<Longrightarrow> (bd_result bd', bd_completion_seen bd') = process_edge c w s (bd_result bd, bd_completion_seen bd)"
    by blast+
qed

lemma feed_apb:
  assumes "feed (apb_callback estimate oom c w key) xs ct err bd = (keep, ct', err', bd')"
    and "\<not> bd_budget_failed bd" "\<not> bd_out_of_memory bd"
  shows "err' = err \<and> fades (bd_repository bd) (bd_repository bd') \<and> ct_truncated ct' = ct_truncated ct \<and>
    (\<not> bd_budget_failed bd' \<and> \<not> bd_out_of_memory bd' \<longrightarrow>
       ct_count ct' = ct_count ct + int (length xs) \<and>
       (bd_result bd', bd_completion_seen bd') = fold (process_edge c w) xs (bd_result bd, bd_completion_seen bd))"
  using assms
proof (induction xs arbitrary: ct err bd)
  case (Cons s xs)
  obtain k e bd1 where c: "apb_callback estimate oom c w key s err bd = (k, e, bd1)" by (metis prod_cases3)
  note step = apb_callback_step [OF c Cons.prems(2,3)]
  show ?case
  proof (cases k)
    case True
    then have rest: "feed (apb_callback estimate oom c w key) xs (ct\<lparr>ct_count := ct_count ct + 1\<rparr>) e bd1 = (keep, ct', err', bd')"
      using Cons.prems(1) c by simp
    have ok: "\<not> bd_budget_failed bd1" "\<not> bd_out_of_memory bd1" using step(3) True by blast+
    show ?thesis
      using Cons.IH [OF rest ok] step(1,2) step(4) [OF True, symmetric] fades_trans [OF step(2)] by auto
  next
    case False
    then show ?thesis using Cons.prems(1) c step by auto
  qed
qed auto

text \<open>A build: nothing but its own result is learnt, and that is the scan of the file.\<close>

lemma build_apb_learns:
  assumes "build_apb_result estimate oom f c key err r = (ok, err', r')"
  shows "if ok then \<exists>result g. apb_scan f c = Inr result \<and> learns key (Some (Apb_Value result)) r r' \<and>
           ready_view r' key = Some (apb_result_tag, Some (Apb_Value result), g)
         else fades r r' \<or> (\<exists>result. apb_scan f c = Inr result \<and> learns key (Some (Apb_Value result)) r r')"
proof (cases "resolve_apb_signals f c")
  case (Inl msg)
  then show ?thesis using assms by (auto simp: build_apb_result_def fail_apb_build_def fades_fail)
next
  case (Inr signals)
  note signals = this
  let ?spec = "ac_clock_sample c" and ?w = "apb_widths_of f signals"
  let ?cb = "apb_callback estimate oom c ?w key" and ?start = "start_apb_build err r"
  let ?samples = "clock_samples f ?spec signals (min_time f) (max_time f) (CHR 0x00)"
  have ok0: "\<not> bd_budget_failed ?start" "\<not> bd_out_of_memory ?start" by (simp_all add: start_apb_build_def)
  have start: "bd_repository ?start = r" "bd_result ?start = empty_apb_result" "\<not> bd_completion_seen ?start"
    by (simp_all add: start_apb_build_def)
  obtain res bd where sc: "clock_scanner_scan f ?spec signals (min_time f) (max_time f) (CHR 0x00) (- 1) ?cb [] ?start = (res, bd)"
    by fastforce
  have failed: "fail_canonical_bad_alloc key q = (e, q') \<Longrightarrow> fades q q'" for q q' :: "apb_value repository" and e
    using fades_fail by (auto simp: fail_canonical_bad_alloc_def Let_def)
  show ?thesis
  proof (cases ?samples)
    case (Inl msg)
    then have "res = scan_failed msg" "bd = ?start" using sc by (simp_all add: clock_scan_samples)
    then show ?thesis
      using assms signals sc ok0 start by (auto simp: build_apb_result_def scan_failed_def fail_apb_build_def fades_fail)
  next
    case (Inr xs)
    obtain k ct e bd1 where fd: "feed ?cb xs \<lparr>ct_count = 0, ct_truncated = False\<rparr> [] ?start = (k, ct, e, bd1)"
      by (metis prod_cases4)
    note fed = feed_apb [OF fd ok0, unfolded start]
    have bd: "bd = bd1" and res: "res = \<lparr>sr_ok = True, sr_count = ct_count ct, sr_truncated = False, sr_error = []\<rparr>"
      using sc Inr fd fed by (auto simp: clock_scan_samples)
    have fades: "fades r (bd_repository bd)" using fed bd by blast
    show ?thesis
    proof (cases "bd_out_of_memory bd \<or> bd_budget_failed bd \<or> oom \<noteq> None")
      case True
      then have "\<not> ok \<and> fades r r'"
        using assms signals sc res fades fades_trans [OF fades] failed
        by (auto simp: build_apb_result_def split: prod.splits if_splits)
      then show ?thesis by simp
    next
      case False
      define result where "result = finish_apb_result f (int (length xs)) False
          (fst (fold (process_edge c ?w) xs (empty_apb_result, False)))"
      have scan: "apb_scan f c = Inr result" using signals Inr by (simp add: apb_scan_def and_then_val result_def)
      have "finish_apb_result f (sr_count res) (sr_truncated res) (bd_result bd) = result"
        using False fed bd start by (auto simp: res result_def dest!: arg_cong [of _ _ fst])
      then have pub: "publish_apb_result estimate key result (bd_cache_error bd) (bd_repository bd) = (ok, err', r')"
        using assms signals sc res False by (simp add: build_apb_result_def)
      obtain ok1 err1 r1 where u: "update_canonical_build_bytes key (estimate result) (bd_cache_error bd) (bd_repository bd) = (ok1, err1, r1)"
        by (metis prod_cases3)
      have f1: "fades r r1" using fades_trans [OF fades fades_update] u by (metis snd_conv)
      show ?thesis
      proof (cases ok1)
        case True
        then have p: "publish_canonical key apb_result_tag (Some (Apb_Value result)) (estimate result) err1 r1 = (ok, err', r')"
          using pub u by (simp add: publish_apb_result_def)
        have "learns key (Some (Apb_Value result)) r1 r'" using learns_publish p by (metis snd_conv)
        then have "learns key (Some (Apb_Value result)) r r'" by (rule fades_then_learns [OF f1])
        then show ?thesis using scan publish_ready p by (cases ok) auto
      next
        case False
        then show ?thesis using pub u f1 by (simp add: publish_apb_result_def)
      qed
    qed
  qed
qed

text \<open>The invariant: what is ready under the key of a description is what scanning the file gives for it.\<close>

definition apb_valid :: "(json \<Rightarrow> string) \<Rightarrow> 'h fsdb \<Rightarrow> apb_analyzer \<Rightarrow> cache_key \<Rightarrow> apb_value option \<Rightarrow> bool" where
  "apb_valid dump f az key v \<longleftrightarrow>
     (\<forall>c. key = apb_cache_key dump az c \<longrightarrow> (\<exists>result. v = Some (Apb_Value result) \<and> apb_scan f c = Inr result))"

definition apb_kept :: "(json \<Rightarrow> string) \<Rightarrow> 'h fsdb \<Rightarrow> apb_analyzer \<Rightarrow> apb_value repository \<Rightarrow> bool" where
  "apb_kept dump f az r \<longleftrightarrow> kept value_view (apb_valid dump f az) r"

lemma same_key_scan:
  assumes "inj dump" "apb_cache_key dump az c = apb_cache_key dump az c'"
  shows "apb_scan f c = apb_scan f c'"
proof -
  have "normalized_apb_config_semantics dump c = normalized_apb_config_semantics dump c'"
    using assms(2) by (auto simp: apb_cache_key_def make_analysis_cache_key_def Let_def)
  from apb_semantics_decide [OF assms(1) this] show ?thesis by (metis scan_meaning)
qed

lemma scan_valid: "inj dump \<Longrightarrow> apb_scan f c = Inr result \<Longrightarrow> apb_valid dump f az (apb_cache_key dump az c) (Some (Apb_Value result))"
  unfolding apb_valid_def by (auto dest!: same_key_scan [of dump az c _ f])

lemma apb_kept_fades: "apb_kept dump f az r \<Longrightarrow> fades r r' \<Longrightarrow> apb_kept dump f az r'"
  unfolding apb_kept_def by (rule memory.kept_loses)

lemma apb_kept_learns:
  "inj dump \<Longrightarrow> apb_kept dump f az r \<Longrightarrow> apb_scan f c = Inr result \<Longrightarrow>
     learns (apb_cache_key dump az c) (Some (Apb_Value result)) r r' \<Longrightarrow> apb_kept dump f az r'"
  unfolding apb_kept_def using memory.kept_gains scan_valid by metis

lemma apb_kept_same: "aa_session az' = aa_session az \<Longrightarrow> aa_identity az' = aa_identity az \<Longrightarrow> apb_kept dump f az' r = apb_kept dump f az r"
  by (simp add: apb_kept_def apb_valid_def [abs_def] apb_cache_key_def)

lemma kept_ready:
  assumes "apb_kept dump f az r" "ready_view r (apb_cache_key dump az c) = Some (t, v, g)"
  shows "\<exists>result. v = Some (Apb_Value result) \<and> apb_scan f c = Inr result"
  using assms unfolding apb_kept_def kept_def apb_valid_def value_view_Some by blast

lemma get_result_view:
  "get_result az name =
     (case (aa_repository az, omap_get (aa_keys az) name) of
        (Some r, Some key) \<Rightarrow>
          (case ready_view r key of Some (t, Some (Apb_Value result), g) \<Rightarrow> if t = apb_result_tag then Some result else None | _ \<Rightarrow> None)
      | _ \<Rightarrow> None)"
  by (auto simp: get_result_def get_result_internal_def find_from_view split: option.split prod.split apb_value.split)

lemma erase_cursors_view: "ready_view (erase_apb_cursors name r) k = ready_view r k"
proof -
  have "find_entry (erase_cursor cid q) k = find_entry q k" for cid and q :: "apb_value repository"
    by (simp add: erase_cursor_def split: option.split)
  then show ?thesis by (simp add: erase_apb_cursors_def ready_view_def)
qed

lemma hit_ready:
  assumes "begin_canonical key t n r = (Hit, err, r')"
  shows "\<exists>v g. ready_view r' key = Some (t, v, g) \<and> ready_view r key = Some (t, v, g)"
proof -
  obtain ob where f: "find_entry r key = Some ob" and s0: "ob_state ob \<noteq> Building" "ob_type ob = t"
    using assms by (auto simp: begin_canonical_def Let_def split: option.splits if_splits prod.splits bool.splits)
  then have s: "ob_state ob = Ready" "ob_type ob = t" by (cases "ob_state ob"; simp)+
  obtain st where st: "canonical_store_for_protocol (protocol key) = Some st" using find_entry_store [OF f] by blast
  have "find_entry r' key = Some (ob\<lparr>ob_access := fst (next_access_sequence r)\<rparr>)"
    using assms f s st by (auto simp: begin_canonical_def Let_def next_access_sequence_def find_put_entry repo_simps)
  then show ?thesis using f s by (simp add: ready_view_def)
qed

text \<open>
  C33: an APB analysis through the cache is the scan of the file.  When what the repository holds for the
  analyzer came from scans, an analysis that succeeds leaves the scan's result under the name, whatever
  was evicted in between and whichever description of the same meaning it was first made for; it succeeds
  when the result is still there; whatever is found under the name afterwards is the scan's; and the
  repository still holds only what scans give.
\<close>

theorem apb_cached_analysis:
  assumes inj: "inj dump" and r: "aa_repository az = Some r" and k: "apb_kept dump f az r"
    and a: "analyze_apb estimate n dump oom name f c az = (ok, az')"
  shows "\<exists>r'. aa_repository az' = Some r' \<and> apb_kept dump f az' r' \<and>
    (ok \<longrightarrow> (\<exists>result. get_result az' name = Some result)) \<and>
    (\<forall>result. get_result az' name = Some result \<longrightarrow> apb_scan f c = Inr result) \<and>
    ((\<exists>v g. ready_view r (apb_cache_key dump az c) = Some (apb_result_tag, v, g)) \<longrightarrow> ok)"
proof -
  let ?key = "apb_cache_key dump az c"
  define r0 where "r0 = (case omap_get (aa_keys az) name of
      Some previous \<Rightarrow> if previous \<noteq> ?key then erase_apb_cursors name r else r | None \<Rightarrow> r)"
  obtain status err r1 where b: "begin_canonical ?key apb_result_tag n r0 = (status, err, r1)" by (metis prod_cases3)
  obtain ok' err' r' where w: "(if status = Hit then (True, err, r1)
      else if status = Build_Started then build_apb_result estimate oom f c ?key err r1 else (False, err, r1)) = (ok', err', r')"
    by (metis prod_cases3)
  have az': "ok' = ok" "az' = az\<lparr>aa_keys := omap_put name ?key (aa_keys az), aa_repository := Some r', aa_cache_error := err'\<rparr>"
    using a r b w by (auto simp: analyze_apb_def Let_def r0_def [symmetric])
  have f0: "fades r r0"
    by (simp add: r0_def fades_def erase_cursors_view split: option.split)
  have k1: "apb_kept dump f az r1"
    using apb_kept_fades [OF apb_kept_fades [OF k f0] fades_begin] b by (metis snd_conv)
  have main: "apb_kept dump f az r' \<and> (ok \<longrightarrow> (\<exists>result g. ready_view r' ?key = Some (apb_result_tag, Some (Apb_Value result), g)))"
  proof (cases "status = Build_Started")
    case True
    then have "build_apb_result estimate oom f c ?key err r1 = (ok, err', r')" using w az'(1) by simp
    from build_apb_learns [OF this] show ?thesis
      using apb_kept_fades [OF k1] apb_kept_learns [OF inj k1] by (auto split: if_splits)
  next
    case False
    then have r': "r' = r1" "ok = (status = Hit)" using w az'(1) by (auto split: if_splits)
    moreover have "\<exists>result g. ready_view r1 ?key = Some (apb_result_tag, Some (Apb_Value result), g)" if "status = Hit"
      using hit_ready b that kept_ready [OF k1] by metis
    ultimately show ?thesis using k1 by simp
  qed
  have keys: "omap_get (aa_keys az') name = Some ?key" "aa_repository az' = Some r'" by (simp_all add: az' omap_get_put)
  have "apb_kept dump f az' r'" using main by (subst apb_kept_same [of az' az]) (simp_all add: az')
  moreover have "\<exists>result. get_result az' name = Some result" if ok using main that by (auto simp: get_result_view keys)
  moreover have "apb_scan f c = Inr result" if "get_result az' name = Some result" for result
    using that main kept_ready [of dump f az r' c]
    by (auto simp: get_result_view keys split: option.splits prod.splits apb_value.splits if_splits)
  moreover have ok if h: "ready_view r ?key = Some (apb_result_tag, v, g)" for v g
  proof -
    have "ready_view r0 ?key = Some (apb_result_tag, v, g)"
      using h by (simp add: r0_def erase_cursors_view split: option.split)
    then have "status = Hit" using hit_peek(1) b by (metis fst_conv)
    then show ok using w az'(1) by simp
  qed
  ultimately show ?thesis using keys(2) by blast
qed

text \<open>An analyzer whose repository holds the result of the example.\<close>

definition bus_result :: apb_result where
  "bus_result = (case apb_scan bus_file bus_config of Inl msg \<Rightarrow> empty_apb_result | Inr result \<Rightarrow> result)"

definition seen_in :: "apb_result \<Rightarrow> (nat \<times> bool \<times> nat \<times> string) list" where
  "seen_in r = map (\<lambda>p. case transaction_of r p of t \<Rightarrow> (at_time t, at_is_write t, at_numeric_addr t, at_data t)) (ar_all r)"

lemma bus_scan: "apb_scan bus_file bus_config = Inr bus_result"
proof -
  have "case apb_scan bus_file bus_config of Inl _ \<Rightarrow> False | Inr _ \<Rightarrow> True" by code_simp
  then show ?thesis by (simp add: bus_result_def split: sum.splits)
qed

lemma bus_seen: "seen_in bus_result = [(10, True, 16, ''ab''), (30, False, 32, ''cd'')]"
  by code_simp

definition bus_analyzer :: apb_analyzer where
  "bus_analyzer = configure_apb_repository None ''session'' (Fsdb_Identity 1 2 3 4)"

definition bus_key :: cache_key where
  "bus_key = apb_cache_key unary_dump bus_analyzer bus_config"

definition bus_repository :: "apb_value repository" where
  "bus_repository =
     put_entry bus_key
       \<lparr>ob_state = Ready, ob_type = apb_result_tag, ob_value = Some (Apb_Value bus_result), ob_resident = 0, ob_build = 0,
        ob_access = 1, ob_generation = 1\<rparr> (new_repository cache_config_default)"

lemma bus_ready: "ready_view bus_repository k = (if k = bus_key then Some (apb_result_tag, Some (Apb_Value bus_result), 1) else None)"
proof -
  have "protocol bus_key = ''apb''"
    by (simp add: bus_key_def apb_cache_key_def make_analysis_cache_key_def Let_def)
  then have "find_entry bus_repository k = (if k = bus_key then
      Some \<lparr>ob_state = Ready, ob_type = apb_result_tag, ob_value = Some (Apb_Value bus_result), ob_resident = 0, ob_build = 0,
        ob_access = 1, ob_generation = 1\<rparr> else find_entry (new_repository cache_config_default) k)"
    by (simp add: bus_repository_def find_put_entry canonical_store_for_protocol_def)
  then show ?thesis by (simp add: ready_view_def find_entry_def new_repository_def split: option.split)
qed

lemma bus_kept: "apb_kept unary_dump bus_file bus_analyzer bus_repository"
proof -
  have view: "value_view bus_repository k = Some v \<longleftrightarrow> k = bus_key \<and> v = Some (Apb_Value bus_result)" for k v
    by (auto simp: value_view_Some bus_ready)
  show ?thesis
    unfolding apb_kept_def kept_def view using scan_valid [OF unary_dump_inj bus_scan, of bus_analyzer] by (simp add: bus_key_def)
qed

theorem apb_cached_analysis_witness:
  "case analyze_apb (\<lambda>_. 0) 100 unary_dump None ''bus'' bus_file bus_config (bus_analyzer\<lparr>aa_repository := Some bus_repository\<rparr>) of
     (ok, az') \<Rightarrow> ok \<and> map_option seen_in (get_result az' ''bus'') = Some [(10, True, 16, ''ab''), (30, False, 32, ''cd'')]"
proof -
  let ?az = "bus_analyzer\<lparr>aa_repository := Some bus_repository\<rparr>"
  obtain ok az' where a: "analyze_apb (\<lambda>_. 0) 100 unary_dump None ''bus'' bus_file bus_config ?az = (ok, az')" by fastforce
  have kept: "apb_kept unary_dump bus_file ?az bus_repository"
    using bus_kept by (subst apb_kept_same [of ?az bus_analyzer]) simp_all
  have ready: "ready_view bus_repository (apb_cache_key unary_dump ?az bus_config) = Some (apb_result_tag, Some (Apb_Value bus_result), 1)"
    by (simp add: bus_ready bus_key_def apb_cache_key_def)
  have repo: "aa_repository ?az = Some bus_repository" by simp
  have "ok" "\<exists>result. get_result az' ''bus'' = Some result"
    "\<forall>result. get_result az' ''bus'' = Some result \<longrightarrow> apb_scan bus_file bus_config = Inr result"
    using apb_cached_analysis [OF unary_dump_inj repo kept a] ready by blast+
  then show ?thesis using a bus_scan bus_seen by auto
qed

end
