(* ===== verification/Cached_Indexes.thy ===== *)
theory Cached_Indexes
  imports Cached_Builds
begin

text \<open>
  The lazy indexes of the analysis cache as a second forgetful memory: the operations on canonical objects
  and on cursors at most lose indexes, and only the publication of an index adds one.
\<close>

definition index_view :: "'v repository \<Rightarrow> index_key \<Rightarrow> 'v option option" where
  "index_view r ik =
     (case omap_get (r_indexes r) ik of None \<Rightarrow> None | Some ob \<Rightarrow> if ob_state ob = Ready then Some (ob_value ob) else None)"

definition index_fades :: "'v repository \<Rightarrow> 'v repository \<Rightarrow> bool" where
  "index_fades r r' \<longleftrightarrow> (\<forall>ik v. index_view r' ik = Some v \<longrightarrow> index_view r ik = Some v)"

definition index_learns :: "index_key \<Rightarrow> 'v option \<Rightarrow> 'v repository \<Rightarrow> 'v repository \<Rightarrow> bool" where
  "index_learns key x r r' \<longleftrightarrow> (\<forall>ik v. index_view r' ik = Some v \<longrightarrow> index_view r ik = Some v \<or> (ik = key \<and> v = x))"

interpretation indexes: forgetful_memory index_view index_fades index_learns
proof unfold_locales
  show "index_view m k = Some v" if "index_fades m m'" "index_view m' k = Some v" for m m' :: "'v repository" and k v
    using that unfolding index_fades_def by blast
  show "index_view m k = Some v \<or> (k = key \<and> v = x)" if "index_learns key x m m'" "index_view m' k = Some v"
    for m m' :: "'v repository" and k v key x
    using that unfolding index_learns_def by blast
qed

lemma index_fades_refl [simp]: "index_fades r r"
  by (simp add: index_fades_def)

lemma index_fades_trans: "index_fades r r1 \<Longrightarrow> index_fades r1 r2 \<Longrightarrow> index_fades r r2"
  unfolding index_fades_def by blast

lemma index_fades_learns: "index_fades r r1 \<Longrightarrow> index_learns key x r1 r2 \<Longrightarrow> index_learns key x r r2"
  unfolding index_fades_def index_learns_def by blast

lemma index_learns_fades: "index_learns key x r r1 \<Longrightarrow> index_fades r1 r2 \<Longrightarrow> index_learns key x r r2"
  unfolding index_fades_def index_learns_def by blast

lemma index_fades_lost:
  "(\<And>ik. omap_get (r_indexes r') ik = None \<or> omap_get (r_indexes r') ik = omap_get (r_indexes r) ik) \<Longrightarrow> index_fades r r'"
  unfolding index_fades_def
proof (intro allI impI)
  fix ik v
  assume lost: "\<And>ik. omap_get (r_indexes r') ik = None \<or> omap_get (r_indexes r') ik = omap_get (r_indexes r) ik"
    and v: "index_view r' ik = Some v"
  from lost [of ik] show "index_view r ik = Some v"
    using v by (elim disjE) (simp_all add: index_view_def)
qed

lemma index_fades_same: "r_indexes r' = r_indexes r \<Longrightarrow> index_fades r r'"
  by (simp add: index_fades_def index_view_def)

text \<open>An index is replaced by one that is not ready, or whose value is the same.\<close>

lemma index_fades_putI:
  assumes "r_indexes r' = omap_put ik ob (r_indexes r)" "ob_state ob \<noteq> Ready \<or> index_view r ik = Some (ob_value ob)"
  shows "index_fades r r'"
  using assms by (auto simp: index_fades_def index_view_def omap_get_put)

lemma index_fades_del: "index_fades r (del_index ik r)"
  by (rule index_fades_lost) (simp add: del_index_def omap_get_del)

section \<open>Room\<close>

lemma lost_trans: "z = None \<or> z = y \<Longrightarrow> y = None \<or> y = x \<Longrightarrow> z = None \<or> z = x"
  by auto

lemma evict_canonicals_lose_index:
  "omap_get (r_indexes (evict_canonicals b nc excluded reason ks q)) ik = None \<or>
   omap_get (r_indexes (evict_canonicals b nc excluded reason ks q)) ik = omap_get (r_indexes q) ik"
proof (induction ks arbitrary: q)
  case (Cons j ks)
  have "omap_get (r_indexes (evict_canonical reason j q)) ik = None \<or>
      omap_get (r_indexes (evict_canonical reason j q)) ik = omap_get (r_indexes q) ik"
    by (simp add: evict_canonical_def erase_canonical_get)
  from lost_trans [OF Cons [of "evict_canonical reason j q"] this] show ?case by (simp only: evict_canonicals.simps split: if_split) simp
qed simp

lemma evict_indexes_lose_index:
  "omap_get (r_indexes (snd (evict_indexes b nc excluded reason iks q))) ik = None \<or>
   omap_get (r_indexes (snd (evict_indexes b nc excluded reason iks q))) ik = omap_get (r_indexes q) ik"
proof (induction iks arbitrary: q)
  case (Cons j iks)
  have "omap_get (r_indexes (evict_index reason j q)) ik = None \<or>
      omap_get (r_indexes (evict_index reason j q)) ik = omap_get (r_indexes q) ik"
    by (simp add: evict_index_get)
  from lost_trans [OF Cons [of "evict_index reason j q"] this] show ?case by (simp only: evict_indexes.simps split: if_split) simp
qed simp

lemma evict_loses_index:
  "omap_get (r_indexes (evict_to_budget b nc pcan pind reason preserve excluded r)) ik = None \<or>
   omap_get (r_indexes (evict_to_budget b nc pcan pind reason preserve excluded r)) ik = omap_get (r_indexes r) ik"
proof -
  obtain early q where q: "evict_indexes b nc excluded reason (index_candidates pind preserve r) r = (early, q)" by fastforce
  have i: "omap_get (r_indexes q) ik = None \<or> omap_get (r_indexes q) ik = omap_get (r_indexes r) ik"
    using evict_indexes_lose_index [of b nc excluded reason "index_candidates pind preserve r" r ik] q by simp
  from lost_trans [OF evict_canonicals_lose_index this, of b nc excluded reason "canonical_candidates pcan preserve q"] i
  show ?thesis unfolding evict_to_budget_def q by (auto split: bool.split if_split)
qed

lemma index_fades_evict [simp]: "index_fades r (evict_to_budget b nc pcan pind reason preserve excluded r)"
  by (rule index_fades_lost) (rule evict_loses_index)

lemma index_fades_room: "index_fades r (snd (snd (make_hard_room nc pcan pind err rk excluded r)))"
proof -
  have "index_fades r (release_metadata n x (evict_to_budget b n pcan pind reason preserve x r))" for b n reason preserve x
    by (rule index_fades_trans [OF index_fades_evict index_fades_same]) (simp add: release_keeps)
  then show ?thesis by (simp add: make_hard_room_def Let_def)
qed

lemma room_fades_index:
  assumes "make_hard_room nc pcan pind err rk excluded r = (ok, err', r1)"
  shows "index_fades r r1"
  using index_fades_room [of r nc pcan pind err rk excluded] unfolding assms by simp

lemma index_fades_soft: "index_fades r (enforce_soft_budget pcan pind r)"
  by (simp add: enforce_soft_budget_def)

section \<open>Canonical objects and cursors\<close>

lemma put_entry_indexes [simp]: "r_indexes (put_entry key ob r) = r_indexes r" "r_indexes (del_entry key r) = r_indexes r"
  by (simp_all add: put_entry_def del_entry_def split: option.split)

lemma canonical_indexes [simp]:
  "r_indexes (start_canonical key t n r) = r_indexes r" "r_indexes (return_build key ob r) = r_indexes r"
  "r_indexes (abandon_canonical key reason n r) = r_indexes r" "r_indexes (fail_canonical key reason r) = r_indexes r"
  by (simp_all add: start_canonical_def return_build_def abandon_canonical_def fail_canonical_def next_access_sequence_def Let_def
      repo_simps split: option.split)

lemma index_fades_begin: "index_fades r (snd (snd (begin_canonical key t n r)))"
proof -
  define nc where "nc = sat_add (charge (r_config r) n) (if omap_get (r_generations r) key = None then charge (r_config r) (key_metadata_bytes key) else 0)"
  obtain ok err r1 where m: "make_hard_room nc None None no_error key None r = (ok, err, r1)" by (metis prod_cases3)
  have "r_indexes (snd (snd (begin_canonical key t n r))) = (if canonical_store_for_protocol (protocol key) = None \<or> find_entry r key \<noteq> None
      then r_indexes r else r_indexes r1)"
    by (simp add: begin_canonical_def nc_def [symmetric] m Let_def next_access_sequence_def repo_simps split: option.split bool.split)
  then show ?thesis
    using index_fades_same [of "snd (snd (begin_canonical key t n r))"] index_fades_trans [OF room_fades_index [OF m] index_fades_same]
    by (auto split: if_splits)
qed

lemma index_fades_returned:
  assumes "make_hard_room nc pcan pind err rk excluded (return_build key ob r) = (ok, err', r1)"
  shows "index_fades r r1"
  by (rule index_fades_trans [OF index_fades_same room_fades_index [OF assms]]) simp

lemma index_fades_update: "index_fades r (snd (snd (update_canonical_build_bytes key n err r)))"
  by (auto simp: update_canonical_build_bytes_def Let_def repo_simps
      intro!: index_fades_trans [OF index_fades_returned index_fades_same] dest: index_fades_returned split: option.split prod.split bool.split)

lemma index_fades_settle: "index_fades r (settle_canonical key v n r)"
proof (cases "find_entry r key")
  case (Some ob)
  define r2 where "r2 = on_stats (\<lambda>s. s\<lparr>st_canonical := st_canonical s + 1\<rparr>)
      (add_resident_bytes n (put_entry key (ob\<lparr>ob_state := Ready, ob_value := Some v, ob_resident := n\<rparr>) r))"
  define m where "m = fst (next_access_sequence r2)"
  define r4 where "r4 = put_entry key (ob\<lparr>ob_state := Ready, ob_value := Some v, ob_resident := n, ob_access := m\<rparr>) (r2\<lparr>r_sequence := m\<rparr>)"
  let ?r5 = "enforce_soft_budget (Some key) None r4"
  have "\<exists>e c e'. settle_canonical key v n r = drop_tombstone key (emit e (if c then emit e' ?r5 else ?r5))"
    unfolding settle_canonical_def Some option.case Let_def next_access_sequence_def case_prod_conv r4_def m_def r2_def fst_conv
    by (intro exI) (rule refl)
  then have "r_indexes (settle_canonical key v n r) = r_indexes ?r5" by (auto simp: repo_simps)
  moreover have "index_fades r r4" by (rule index_fades_same) (simp add: r4_def r2_def repo_simps)
  ultimately show ?thesis using index_fades_trans [OF _ index_fades_trans [OF index_fades_soft index_fades_same]] by metis
qed (simp add: settle_canonical_def)

lemma index_fades_siblings: "index_fades r (erase_stream_sibling_ranges key r)"
proof -
  have "index_fades q (fold (\<lambda>k. erase_canonical_internal k reason cur) ks q)" for ks reason cur and q :: "'v repository"
  proof (induction ks arbitrary: q)
    case (Cons k ks)
    have "index_fades q (erase_canonical_internal k reason cur q)" by (rule index_fades_lost) (simp add: erase_canonical_get)
    then show ?case using Cons index_fades_trans by fastforce
  qed simp
  then show ?thesis by (simp add: erase_stream_sibling_ranges_def)
qed

lemma index_fades_publish: "index_fades r (snd (snd (publish_canonical key t v n err r)))"
proof (cases "\<exists>st ob u. canonical_store_for_protocol (protocol key) = Some st \<and> find_entry r key = Some ob \<and> v = Some u \<and>
    ob_state ob = Building \<and> ob_type ob = t")
  case False
  then have "snd (snd (publish_canonical key t v n err r)) = r"
    by (auto simp: publish_canonical_def Let_def split: option.split)
  then show ?thesis by simp
next
  case True
  then obtain st ob u where f: "canonical_store_for_protocol (protocol key) = Some st" "find_entry r key = Some ob" "v = Some u"
    "ob_state ob = Building" "ob_type ob = t" by blast
  define excl where "excl = (if protocol key = ''stream'' \<and> scope key = Scope_Full then Some key else None)"
  obtain ok e1 r1 where m: "make_hard_room (charge (r_config r) n) (Some key) None err key excl (return_build key ob r) = (ok, e1, r1)"
    by (metis prod_cases3)
  note r1 = index_fades_returned [OF m]
  let ?r2 = "if excl \<noteq> None then erase_stream_sibling_ranges key r1 else r1"
  have "publish_canonical key t v n err r = (if ok then (True, e1, settle_canonical key u n ?r2)
      else (False, e1, abandon_canonical key ''hard_limit'' n r1))"
    using m by (simp add: publish_canonical_def f split: bool.split flip: excl_def)
  moreover have "index_fades r (settle_canonical key u n ?r2)"
    by (rule index_fades_trans [OF _ index_fades_settle]) (simp add: r1 index_fades_trans [OF r1 index_fades_siblings])
  moreover have "index_fades r (abandon_canonical key ''hard_limit'' n r1)" by (rule index_fades_trans [OF r1 index_fades_same]) simp
  ultimately show ?thesis by (cases ok) simp_all
qed

lemma cursor_indexes [simp]:
  "r_indexes (touch_cursor cid r) = r_indexes r" "r_indexes (erase_cursor cid r) = r_indexes r"
  "r_indexes (snd (resume_cursor cid key g r)) = r_indexes r"
  by (simp_all add: erase_cursor_def resume_cursor_def touch_cursor_def next_access_sequence_def Let_def split: option.split)

lemma index_fades_put_cursor: "index_fades r (snd (put_cursor c r))"
proof (cases "gc_id c = []")
  case False
  define old where "old = (case omap_get (r_cursors r) (gc_id c) of None \<Rightarrow> 0 | Some old \<Rightarrow> cursor_metadata_bytes old)"
  obtain ok err r1 where m: "(if old < cursor_metadata_bytes c
      then make_hard_room (charge (r_config r) (cursor_metadata_bytes c - old)) (Some (gc_key c)) None no_error (gc_key c) None r
      else (True, no_error, r)) = (ok, err, r1)" by (metis prod_cases3)
  then have f: "index_fades r r1" by (auto split: if_splits intro: room_fades_index)
  have "r_indexes (snd (put_cursor c r)) = r_indexes r1"
    using False m by (auto simp: put_cursor_def Let_def old_def [symmetric] repo_simps split: option.split)
  then show ?thesis by (rule index_fades_trans [OF f index_fades_same])
qed (simp add: put_cursor_def)

section \<open>Indexes\<close>

lemma touch_entry_indexes [simp]: "r_indexes (touch_entry key n r) = r_indexes r"
  by (simp add: touch_entry_def split: option.split)

lemma hit_index_indexes: "r_indexes (hit_index ik ob r) = omap_put ik (ob\<lparr>ob_access := fst (next_access_sequence r)\<rparr>) (r_indexes r)"
  by (simp add: hit_index_def put_index_def next_access_sequence_def Let_def repo_simps)

lemma start_index_indexes:
  "r_indexes (start_index ik t n r) = omap_put ik
     \<lparr>ob_state = Building, ob_type = t, ob_value = None, ob_resident = 0, ob_build = n, ob_access = fst (next_access_sequence r)\<rparr> (r_indexes r)"
  by (simp add: start_index_def put_index_def next_access_sequence_def Let_def repo_simps)

lemma index_fades_hit: "omap_get (r_indexes r) ik = Some ob \<Longrightarrow> index_fades r (hit_index ik ob r)"
  by (rule index_fades_putI [OF hit_index_indexes]) (simp add: index_view_def)

lemma index_fades_start: "index_fades r (start_index ik t n r)"
  by (rule index_fades_putI [OF start_index_indexes]) simp

lemma index_fades_begin_index: "index_fades r (snd (snd (begin_index ik t n r)))"
  by (auto simp: begin_index_def Let_def index_fades_hit split: option.split prod.split bool.split
      intro: room_fades_index index_fades_trans [OF room_fades_index index_fades_start])

lemma index_fades_returned_index:
  assumes "ob_state ob = Building" "make_hard_room nc pcan pind err rk excluded (return_index_build ik ob r) = (ok, err', r1)"
  shows "index_fades r r1"
proof -
  have "index_fades r (return_index_build ik ob r)"
    using assms(1) by (intro index_fades_putI [where ik = ik and ob = "ob\<lparr>ob_build := 0\<rparr>"])
      (simp_all add: return_index_build_def put_index_def repo_simps)
  then show ?thesis by (rule index_fades_trans [OF _ room_fades_index [OF assms(2)]])
qed

lemma index_learns_refl [simp]: "index_learns key x r r"
  by (simp add: index_learns_def)

lemma index_fades_update_index: "index_fades r (snd (snd (update_index_build_bytes ik n err r)))"
proof (cases "\<exists>ob. omap_get (r_indexes r) ik = Some ob \<and> ob_state ob = Building")
  case False
  then have "snd (snd (update_index_build_bytes ik n err r)) = r"
    by (auto simp: update_index_build_bytes_def Let_def split: option.split)
  then show ?thesis by simp
next
  case True
  then obtain ob where f: "omap_get (r_indexes r) ik = Some ob" and b: "ob_state ob = Building" by blast
  obtain ok e r1 where m: "make_hard_room (charge (r_config r) n) (Some (index_owner ik)) (Some ik) err (index_owner ik) None
      (return_index_build ik ob r) = (ok, e, r1)" by (metis prod_cases3)
  note r1 = index_fades_returned_index [OF b m]
  let ?put = "case omap_get (r_indexes r1) ik of None \<Rightarrow> r1 | Some ob1 \<Rightarrow> add_build_bytes n (put_index ik (ob1\<lparr>ob_build := n\<rparr>) r1)"
  have "update_index_build_bytes ik n err r = (if ok then (True, e, ?put)
      else (False, e, emit (index_event ''build_failed'' ik ''hard_limit'' n 0 0 0 0) (del_index ik r1)))"
    using m by (simp add: update_index_build_bytes_def f b split: bool.split)
  moreover have "index_fades r1 ?put"
  proof (cases "omap_get (r_indexes r1) ik")
    case (Some ob1)
    then show ?thesis
      by (intro index_fades_putI [where ik = ik and ob = "ob1\<lparr>ob_build := n\<rparr>"]) (simp_all add: put_index_def repo_simps index_view_def)
  qed simp
  moreover have "index_fades r (emit ev (del_index ik r1))" for ev
    by (rule index_fades_trans [OF index_fades_trans [OF r1 index_fades_del] index_fades_same]) (simp add: repo_simps)
  ultimately show ?thesis using index_fades_trans [OF r1] by simp
qed

lemma index_learns_settle: "index_learns ik (Some v) r (settle_index ik v n r)"
proof (cases "omap_get (r_indexes r) ik")
  case (Some ob)
  let ?ob = "ob\<lparr>ob_state := Ready, ob_value := Some v, ob_resident := n\<rparr>"
  define r2 where "r2 = on_stats (\<lambda>s. s\<lparr>st_index := st_index s + 1\<rparr>) (add_resident_bytes n (put_index ik ?ob r))"
  define m where "m = fst (next_access_sequence r2)"
  define r4 where "r4 = touch_entry (index_owner ik) m (put_index ik (?ob\<lparr>ob_access := m\<rparr>) (r2\<lparr>r_sequence := m\<rparr>))"
  let ?r5 = "enforce_soft_budget (Some (index_owner ik)) (Some ik) r4"
  have "\<exists>e c e'. settle_index ik v n r = emit e (if c then emit e' ?r5 else ?r5)"
    unfolding settle_index_def Some option.case Let_def next_access_sequence_def case_prod_conv r4_def m_def r2_def fst_conv
    by (intro exI) (rule refl)
  then have s: "index_fades ?r5 (settle_index ik v n r)" by (intro index_fades_same) (auto simp: repo_simps)
  have "index_learns ik (Some v) r r4"
    by (auto simp: r4_def r2_def index_learns_def index_view_def put_index_def omap_get_put repo_simps split: if_splits)
  then show ?thesis by (rule index_learns_fades [OF index_learns_fades [OF _ index_fades_soft] s])
qed (simp add: settle_index_def)

lemma index_learns_publish: "index_learns ik (Some v) r (snd (snd (publish_index ik t (Some v) n err r)))"
proof (cases "\<exists>ob. omap_get (r_indexes r) ik = Some ob \<and> ob_state ob = Building \<and> ob_type ob = t")
  case False
  then have "snd (snd (publish_index ik t (Some v) n err r)) = r"
    by (auto simp: publish_index_def Let_def split: option.split)
  then show ?thesis by simp
next
  case True
  then obtain ob where f: "omap_get (r_indexes r) ik = Some ob" and b: "ob_state ob = Building" "ob_type ob = t" by blast
  obtain ok e r1 where m: "make_hard_room (charge (r_config r) n) (Some (index_owner ik)) (Some ik) err (index_owner ik) None
      (return_index_build ik ob r) = (ok, e, r1)" by (metis prod_cases3)
  note r1 = index_fades_returned_index [OF b(1) m]
  have "publish_index ik t (Some v) n err r = (if ok then (True, e, settle_index ik v n r1) else (False, e, del_index ik r1))"
    using m by (simp add: publish_index_def f b split: bool.split)
  moreover have "index_learns ik (Some v) r (settle_index ik v n r1)" by (rule index_fades_learns [OF r1 index_learns_settle])
  moreover have "index_learns ik (Some v) r (del_index ik r1)"
    by (rule index_learns_fades [OF index_learns_refl index_fades_trans [OF r1 index_fades_del]])
  ultimately show ?thesis by (cases ok) simp_all
qed

lemma index_fades_fail_index: "index_fades r (fail_index ik reason r)"
proof (cases "omap_get (r_indexes r) ik")
  case (Some ob)
  have "index_fades r (emit ev (del_index ik (remove_build_bytes n r)))" for ev n
    by (rule index_fades_lost) (simp add: del_index_def omap_get_del repo_simps)
  then show ?thesis by (simp add: fail_index_def Some)
qed (simp add: fail_index_def)

text \<open>The canonical objects when an index build fails.\<close>

lemma fades_fail_index: "fades r (fail_index ik reason r)"
  by (rule fades_same) (auto simp: fail_index_def del_index_def repo_simps intro!: find_entry_cong split: option.split)

text \<open>What a lookup of an index returns is in the memory.\<close>

lemma peek_index_view: "peek_index ik t r = Some v \<Longrightarrow> index_view r ik = Some (Some v)"
  by (auto simp: peek_index_def usable_index_def index_view_def Option.bind_eq_Some_conv split: option.splits if_splits)

end
