(* ===== verification/Apb_Queries.thy ===== *)
theory Apb_Queries
  imports Apb_Transactions Cached_Indexes
begin

text \<open>
  The queries of the APB analyzer, \<open>waveform/apb/apb_analyzer.cpp\<close>, second part: counts and positions, the
  lazy index of the transactions by address with the lookups through it, the cursors that walk a result
  across rebuilds, and the transactions of a time range.  A filter of 1 selects the writes, 2 the reads,
  any other number all transactions.
\<close>

section \<open>Counts and positions\<close>

definition transaction_count :: "apb_result \<Rightarrow> int \<Rightarrow> nat" where
  "transaction_count result flt =
     (if flt = 1 then length (ar_writes result) else if flt = 2 then length (ar_reads result) else length (ar_all result))"

definition transaction_at :: "apb_result \<Rightarrow> int \<Rightarrow> nat \<Rightarrow> apb_transaction option" where
  "transaction_at result flt index =
     (if transaction_count result flt \<le> index then None
      else if flt = 1 then Some (ar_writes result ! index)
      else if flt = 2 then Some (ar_reads result ! index)
      else Some (transaction_of result (ar_all result ! index)))"

definition get_write_count :: "apb_analyzer \<Rightarrow> string \<Rightarrow> nat" where
  "get_write_count az name = (case get_result az name of None \<Rightarrow> 0 | Some r \<Rightarrow> length (ar_writes r))"

definition get_read_count :: "apb_analyzer \<Rightarrow> string \<Rightarrow> nat" where
  "get_read_count az name = (case get_result az name of None \<Rightarrow> 0 | Some r \<Rightarrow> length (ar_reads r))"

definition get_count :: "apb_analyzer \<Rightarrow> string \<Rightarrow> int \<Rightarrow> nat" where
  "get_count az name flt = (case get_result az name of None \<Rightarrow> 0 | Some r \<Rightarrow> transaction_count r flt)"

definition get_by_num :: "apb_analyzer \<Rightarrow> string \<Rightarrow> int \<Rightarrow> nat \<Rightarrow> apb_transaction option" where
  "get_by_num az name flt num =
     (if num = 0 then None else case get_result az name of None \<Rightarrow> None | Some r \<Rightarrow> transaction_at r flt (num - 1))"

definition get_last :: "apb_analyzer \<Rightarrow> string \<Rightarrow> int \<Rightarrow> apb_transaction option" where
  "get_last az name flt =
     (case get_result az name of None \<Rightarrow> None
      | Some r \<Rightarrow> if transaction_count r flt = 0 then None else transaction_at r flt (transaction_count r flt - 1))"

definition get_write_by_num :: "apb_analyzer \<Rightarrow> string \<Rightarrow> nat \<Rightarrow> apb_transaction option" where
  "get_write_by_num az name num =
     (case get_result az name of None \<Rightarrow> None
      | Some r \<Rightarrow> if num = 0 \<or> length (ar_writes r) < num then None else Some (ar_writes r ! (num - 1)))"

definition get_write_last :: "apb_analyzer \<Rightarrow> string \<Rightarrow> apb_transaction option" where
  "get_write_last az name =
     (case get_result az name of None \<Rightarrow> None
      | Some r \<Rightarrow> if ar_writes r = [] then None else Some (last (ar_writes r)))"

definition get_read_by_num :: "apb_analyzer \<Rightarrow> string \<Rightarrow> nat \<Rightarrow> apb_transaction option" where
  "get_read_by_num az name num =
     (case get_result az name of None \<Rightarrow> None
      | Some r \<Rightarrow> if num = 0 \<or> length (ar_reads r) < num then None else Some (ar_reads r ! (num - 1)))"

definition get_read_last :: "apb_analyzer \<Rightarrow> string \<Rightarrow> apb_transaction option" where
  "get_read_last az name =
     (case get_result az name of None \<Rightarrow> None
      | Some r \<Rightarrow> if ar_reads r = [] then None else Some (last (ar_reads r)))"

section \<open>The index by address\<close>

datatype lane = All_Lane | Write_Lane | Read_Lane

definition empty_bucket :: address_bucket where
  "empty_bucket = \<lparr>ab_all = [], ab_writes = [], ab_reads = []\<rparr>"

definition push_position :: "lane \<Rightarrow> nat \<Rightarrow> address_bucket \<Rightarrow> address_bucket" where
  "push_position lane i b =
     (case lane of
        All_Lane \<Rightarrow> b\<lparr>ab_all := ab_all b @ [i]\<rparr>
      | Write_Lane \<Rightarrow> b\<lparr>ab_writes := ab_writes b @ [i]\<rparr>
      | Read_Lane \<Rightarrow> b\<lparr>ab_reads := ab_reads b @ [i]\<rparr>)"

definition add_position :: "nat \<times> lane \<times> nat \<Rightarrow> address_index \<Rightarrow> address_index" where
  "add_position entry index =
     (case entry of (addr, lane, i) \<Rightarrow>
        omap_put addr (push_position lane i (case omap_get index addr of None \<Rightarrow> empty_bucket | Some b \<Rightarrow> b)) index)"

text \<open>What the three loops insert: the transactions with a numeric address, by lane and position.\<close>

definition lane_entries :: "lane \<Rightarrow> apb_transaction list \<Rightarrow> (nat \<times> lane \<times> nat) list" where
  "lane_entries lane txns =
     map (\<lambda>(i, t). (at_numeric_addr t, lane, i)) (filter (\<lambda>(i, t). at_has_numeric_addr t) (enumerate 0 txns))"

definition index_entries :: "apb_result \<Rightarrow> (nat \<times> lane \<times> nat) list" where
  "index_entries result =
     lane_entries All_Lane (map (transaction_of result) (ar_all result)) @
     lane_entries Write_Lane (ar_writes result) @ lane_entries Read_Lane (ar_reads result)"

text \<open>
  The loops, with the size reported at every power of two of insertions; \<open>None\<close> is the return when a
  report fails, and \<open>oom\<close> the insertion that runs out of memory.
\<close>

datatype fill_outcome = Filled address_index | Fill_Rejected | Fill_Bad_Alloc

fun fill_index ::
  "(address_index \<Rightarrow> nat) \<Rightarrow> nat option \<Rightarrow> index_key \<Rightarrow> (nat \<times> lane \<times> nat) list \<Rightarrow> nat \<Rightarrow> address_index \<Rightarrow>
   cache_error \<Rightarrow> apb_value repository \<Rightarrow> fill_outcome \<times> cache_error \<times> apb_value repository" where
  "fill_index estimate oom ik [] inserted index err r = (if oom \<noteq> None then Fill_Bad_Alloc else Filled index, err, r)"
| "fill_index estimate oom ik (entry # entries) inserted index err r =
     (if oom = Some inserted then (Fill_Bad_Alloc, err, r)
      else let index' = add_position entry index in
        if \<not> power_of_two (inserted + 1) then fill_index estimate oom ik entries (inserted + 1) index' err r
        else case update_index_build_bytes ik (estimate index') err r of
               (ok, err', r') \<Rightarrow>
                 if ok then fill_index estimate oom ik entries (inserted + 1) index' err' r'
                 else (Fill_Rejected, err', r'))"

definition apb_index_tag :: string where
  "apb_index_tag = ''apb_address_index.v1''"

definition as_index :: "apb_value option \<Rightarrow> address_index option" where
  "as_index v = (case v of Some (Apb_Index index) \<Rightarrow> Some index | _ \<Rightarrow> None)"

definition build_address_index ::
  "(address_index \<Rightarrow> nat) \<Rightarrow> nat option \<Rightarrow> index_key \<Rightarrow> apb_result \<Rightarrow> cache_error \<Rightarrow> apb_value repository \<Rightarrow>
   address_index option \<times> cache_error \<times> apb_value repository" where
  "build_address_index estimate oom ik result err r =
     (case fill_index estimate oom ik (index_entries result) 0 [] err r of
        (Fill_Bad_Alloc, _, r1) \<Rightarrow> (case fail_index_bad_alloc ik r1 of (err', r') \<Rightarrow> (None, err', r'))
      | (Fill_Rejected, err1, r1) \<Rightarrow> (None, err1, r1)
      | (Filled index, err1, r1) \<Rightarrow>
          (case update_index_build_bytes ik (estimate index) err1 r1 of
             (False, err2, r2) \<Rightarrow> (None, err2, r2)
           | (True, err2, r2) \<Rightarrow>
               (case publish_index ik apb_index_tag (Some (Apb_Index index)) (estimate index) err2 r2 of
                  (False, err3, r3) \<Rightarrow> (None, err3, r3)
                | (True, err3, r3) \<Rightarrow> (as_index (peek_index ik apb_index_tag r3), err3, r3))))"

definition address_index ::
  "(address_index \<Rightarrow> nat) \<Rightarrow> nat \<Rightarrow> nat option \<Rightarrow> string \<Rightarrow> bool \<Rightarrow> apb_analyzer \<Rightarrow> address_index option \<times> apb_analyzer" where
  "address_index estimate empty_bytes oom name record_access az =
     (let az0 = az\<lparr>aa_cache_error := no_error\<rparr> in
      case (get_result_internal az name, omap_get (aa_keys az) name, aa_repository az) of
        (Some (result, generation), Some key, Some r) \<Rightarrow>
          let ik = Index_Key key generation ''address'' in
          (case (if record_access then None else as_index (peek_index ik apb_index_tag r)) of
             Some cached \<Rightarrow> (Some cached, az0)
           | None \<Rightarrow>
               (case begin_index ik apb_index_tag empty_bytes r of
                  (status, err, r1) \<Rightarrow>
                    (case (if status = Hit then (as_index (peek_index ik apb_index_tag r1), err, r1)
                           else if status = Build_Started then build_address_index estimate oom ik result err r1
                           else (None, err, r1)) of
                       (found, err', r') \<Rightarrow> (found, az0\<lparr>aa_repository := Some r', aa_cache_error := err'\<rparr>))))
      | _ \<Rightarrow> (None, az0))"

definition ensure_address_index ::
  "(address_index \<Rightarrow> nat) \<Rightarrow> nat \<Rightarrow> nat option \<Rightarrow> string \<Rightarrow> apb_analyzer \<Rightarrow> bool \<times> apb_analyzer" where
  "ensure_address_index estimate empty_bytes oom name az =
     (case address_index estimate empty_bytes oom name True az of (found, az') \<Rightarrow> (found \<noteq> None, az'))"

text \<open>The positions of an address in the lane of a filter.\<close>

definition address_positions :: "int \<Rightarrow> nat \<Rightarrow> address_index \<Rightarrow> nat list option" where
  "address_positions flt addr index =
     map_option (\<lambda>b. if flt = 1 then ab_writes b else if flt = 2 then ab_reads b else ab_all b) (omap_get index addr)"

definition get_by_addr_num ::
  "(address_index \<Rightarrow> nat) \<Rightarrow> nat \<Rightarrow> nat option \<Rightarrow> string \<Rightarrow> int \<Rightarrow> nat \<Rightarrow> nat \<Rightarrow> apb_analyzer \<Rightarrow>
   apb_transaction option \<times> apb_analyzer" where
  "get_by_addr_num estimate empty_bytes oom name flt addr num az =
     (case address_index estimate empty_bytes oom name False az of
        (index, az') \<Rightarrow>
          ((case (get_result az name, index) of
              (Some result, Some index) \<Rightarrow>
                if num = 0 then None
                else (case address_positions flt addr index of
                        None \<Rightarrow> None
                      | Some positions \<Rightarrow>
                          if length positions < num then None else transaction_at result flt (positions ! (num - 1)))
            | _ \<Rightarrow> None), az'))"

definition get_by_addr ::
  "(address_index \<Rightarrow> nat) \<Rightarrow> nat \<Rightarrow> nat option \<Rightarrow> string \<Rightarrow> int \<Rightarrow> nat \<Rightarrow> apb_analyzer \<Rightarrow> apb_transaction option \<times> apb_analyzer" where
  "get_by_addr estimate empty_bytes oom name flt addr az = get_by_addr_num estimate empty_bytes oom name flt addr 1 az"

definition get_by_addr_last ::
  "(address_index \<Rightarrow> nat) \<Rightarrow> nat \<Rightarrow> nat option \<Rightarrow> string \<Rightarrow> int \<Rightarrow> nat \<Rightarrow> apb_analyzer \<Rightarrow> apb_transaction option \<times> apb_analyzer" where
  "get_by_addr_last estimate empty_bytes oom name flt addr az =
     (case address_index estimate empty_bytes oom name False az of
        (index, az') \<Rightarrow>
          ((case (get_result az name, index) of
              (Some result, Some index) \<Rightarrow>
                (case address_positions flt addr index of
                   None \<Rightarrow> None
                 | Some positions \<Rightarrow> if positions = [] then None else transaction_at result flt (last positions))
            | _ \<Rightarrow> None), az'))"

definition get_write_by_addr ::
  "(address_index \<Rightarrow> nat) \<Rightarrow> nat \<Rightarrow> nat option \<Rightarrow> string \<Rightarrow> nat \<Rightarrow> apb_analyzer \<Rightarrow> apb_transaction option \<times> apb_analyzer" where
  "get_write_by_addr estimate empty_bytes oom name addr az = get_by_addr estimate empty_bytes oom name 1 addr az"

definition get_write_by_addr_num ::
  "(address_index \<Rightarrow> nat) \<Rightarrow> nat \<Rightarrow> nat option \<Rightarrow> string \<Rightarrow> nat \<Rightarrow> nat \<Rightarrow> apb_analyzer \<Rightarrow> apb_transaction option \<times> apb_analyzer" where
  "get_write_by_addr_num estimate empty_bytes oom name addr num az = get_by_addr_num estimate empty_bytes oom name 1 addr num az"

definition get_write_by_addr_last ::
  "(address_index \<Rightarrow> nat) \<Rightarrow> nat \<Rightarrow> nat option \<Rightarrow> string \<Rightarrow> nat \<Rightarrow> apb_analyzer \<Rightarrow> apb_transaction option \<times> apb_analyzer" where
  "get_write_by_addr_last estimate empty_bytes oom name addr az = get_by_addr_last estimate empty_bytes oom name 1 addr az"

definition get_read_by_addr ::
  "(address_index \<Rightarrow> nat) \<Rightarrow> nat \<Rightarrow> nat option \<Rightarrow> string \<Rightarrow> nat \<Rightarrow> apb_analyzer \<Rightarrow> apb_transaction option \<times> apb_analyzer" where
  "get_read_by_addr estimate empty_bytes oom name addr az = get_by_addr estimate empty_bytes oom name 2 addr az"

definition get_read_by_addr_num ::
  "(address_index \<Rightarrow> nat) \<Rightarrow> nat \<Rightarrow> nat option \<Rightarrow> string \<Rightarrow> nat \<Rightarrow> nat \<Rightarrow> apb_analyzer \<Rightarrow> apb_transaction option \<times> apb_analyzer" where
  "get_read_by_addr_num estimate empty_bytes oom name addr num az = get_by_addr_num estimate empty_bytes oom name 2 addr num az"

definition get_read_by_addr_last ::
  "(address_index \<Rightarrow> nat) \<Rightarrow> nat \<Rightarrow> nat option \<Rightarrow> string \<Rightarrow> nat \<Rightarrow> apb_analyzer \<Rightarrow> apb_transaction option \<times> apb_analyzer" where
  "get_read_by_addr_last estimate empty_bytes oom name addr az = get_by_addr_last estimate empty_bytes oom name 2 addr az"

section \<open>Cursors\<close>

definition fresh_cursor :: "string \<Rightarrow> int \<Rightarrow> cache_key \<Rightarrow> nat \<Rightarrow> nat \<Rightarrow> generation_cursor" where
  "fresh_cursor name flt key generation position =
     \<lparr>gc_id = cursor_id name flt, gc_key = key, gc_generation = generation, gc_direction = filter_name flt,
      gc_position = position\<rparr>"

text \<open>The result, its generation, its key and the repository, if all are there.\<close>

definition cursor_target :: "apb_analyzer \<Rightarrow> string \<Rightarrow> (apb_result \<times> nat \<times> cache_key \<times> apb_value repository) option" where
  "cursor_target az name =
     (case (get_result_internal az name, omap_get (aa_keys az) name, aa_repository az) of
        (Some (result, generation), Some key, Some r) \<Rightarrow> Some (result, generation, key, r)
      | _ \<Rightarrow> None)"

definition store_cursor :: "generation_cursor \<Rightarrow> apb_value repository \<Rightarrow> apb_analyzer \<Rightarrow> apb_analyzer" where
  "store_cursor cursor r az = az\<lparr>aa_repository := Some (snd (put_cursor cursor r))\<rparr>"

definition cursor_begin :: "string \<Rightarrow> int \<Rightarrow> apb_analyzer \<Rightarrow> apb_transaction option \<times> apb_analyzer" where
  "cursor_begin name flt az =
     (case cursor_target az name of
        None \<Rightarrow> (None, az)
      | Some (result, generation, key, r) \<Rightarrow>
          if transaction_count result flt = 0 then (None, az)
          else (transaction_at result flt 0, store_cursor (fresh_cursor name flt key generation 0) r az))"

text \<open>The stored cursor of the generation, resumed if it is of an earlier one; \<open>None\<close> when it cannot be.\<close>

definition current_cursor ::
  "generation_cursor \<Rightarrow> cache_key \<Rightarrow> nat \<Rightarrow> apb_value repository \<Rightarrow> generation_cursor option \<times> apb_value repository" where
  "current_cursor cursor key generation r =
     (if gc_generation cursor \<noteq> generation then resume_cursor (gc_id cursor) key generation r else (Some cursor, r))"

definition cursor_next :: "string \<Rightarrow> int \<Rightarrow> apb_analyzer \<Rightarrow> apb_transaction option \<times> apb_analyzer" where
  "cursor_next name flt az =
     (case cursor_target az name of
        None \<Rightarrow> (None, az)
      | Some (result, generation, key, r) \<Rightarrow>
          (case (case get_cursor (cursor_id name flt) r of
                   None \<Rightarrow> (Some (fresh_cursor name flt key generation 0), r)
                 | Some cursor \<Rightarrow> current_cursor cursor key generation r) of
             (None, r1) \<Rightarrow> (None, az\<lparr>aa_repository := Some r1\<rparr>)
           | (Some cursor, r1) \<Rightarrow>
               if transaction_count result flt \<le> gc_position cursor + 1 then (None, az\<lparr>aa_repository := Some r1\<rparr>)
               else (transaction_at result flt (gc_position cursor + 1),
                     store_cursor (cursor\<lparr>gc_position := gc_position cursor + 1\<rparr>) r1 az)))"

definition cursor_prev :: "string \<Rightarrow> int \<Rightarrow> apb_analyzer \<Rightarrow> apb_transaction option \<times> apb_analyzer" where
  "cursor_prev name flt az =
     (case cursor_target az name of
        None \<Rightarrow> (None, az)
      | Some (result, generation, key, r) \<Rightarrow>
          (case get_cursor (cursor_id name flt) r of
             None \<Rightarrow> (None, az)
           | Some stored \<Rightarrow>
               (case current_cursor stored key generation r of
                  (None, r1) \<Rightarrow> (None, az\<lparr>aa_repository := Some r1\<rparr>)
                | (Some cursor, r1) \<Rightarrow>
                    if gc_position cursor = 0 then (None, az\<lparr>aa_repository := Some r1\<rparr>)
                    else (transaction_at result flt (gc_position cursor - 1),
                          store_cursor (cursor\<lparr>gc_position := gc_position cursor - 1\<rparr>) r1 az))))"

definition cursor_last :: "string \<Rightarrow> int \<Rightarrow> apb_analyzer \<Rightarrow> apb_transaction option \<times> apb_analyzer" where
  "cursor_last name flt az =
     (case cursor_target az name of
        None \<Rightarrow> (None, az)
      | Some (result, generation, key, r) \<Rightarrow>
          if transaction_count result flt = 0 then (None, az)
          else (transaction_at result flt (transaction_count result flt - 1),
                store_cursor (fresh_cursor name flt key generation (transaction_count result flt - 1)) r az))"

text \<open>The index, from 1, and the number of transactions.\<close>

definition cursor_state :: "string \<Rightarrow> int \<Rightarrow> apb_analyzer \<Rightarrow> (nat \<times> nat) option \<times> apb_analyzer" where
  "cursor_state name flt az =
     (case cursor_target az name of
        None \<Rightarrow> (None, az)
      | Some (result, generation, key, r) \<Rightarrow>
          let total = transaction_count result flt in
          (case get_cursor (cursor_id name flt) r of
             None \<Rightarrow> (Some (if total = 0 then 0 else 1, total), az)
           | Some stored \<Rightarrow>
               (case current_cursor stored key generation r of
                  (None, r1) \<Rightarrow> (None, az\<lparr>aa_repository := Some r1\<rparr>)
                | (Some cursor, r1) \<Rightarrow>
                    (Some (if total = 0 then 0 else gc_position cursor + 1, total), az\<lparr>aa_repository := Some r1\<rparr>))))"

section \<open>Time ranges\<close>

text \<open>The loop from the first transaction not before the range; \<open>lower_bound\<close> finds it on the sorted list.\<close>

fun range_loop :: "nat \<Rightarrow> int \<Rightarrow> apb_transaction list \<Rightarrow> nat \<Rightarrow> apb_transaction list" where
  "range_loop e max_results [] taken = []"
| "range_loop e max_results (t # ts) taken =
     (if e < at_time t then []
      else if 0 \<le> max_results \<and> max_results \<le> int taken then []
      else t # range_loop e max_results ts (taken + 1))"

definition get_transactions_in_range :: "string \<Rightarrow> nat \<Rightarrow> nat \<Rightarrow> int \<Rightarrow> apb_analyzer \<Rightarrow> bool \<times> apb_transaction list" where
  "get_transactions_in_range name b e max_results az =
     (case get_result az name of
        None \<Rightarrow> (False, [])
      | Some r \<Rightarrow>
          (True, range_loop e max_results (dropWhile (\<lambda>t. at_time t < b) (map (transaction_of r) (ar_all r))) 0))"

end
