(* ===== verification/Apb_Lookups.thy ===== *)
theory Apb_Lookups
  imports Apb_Queries
begin

text \<open>
  What the queries of the APB analyzer answer: a time range and an address select from the transactions of
  the scan, whether the result and the index by address were cached or built for the query.
\<close>

section \<open>Time ranges\<close>

lemma range_loop_take:
  "range_loop e m ts n = (if 0 \<le> m then take (nat m - n) else id) (takeWhile (\<lambda>t. at_time t \<le> e) ts)"
proof (induction e m ts n rule: range_loop.induct)
  case (2 e m t ts n)
  show ?case
  proof (cases "0 \<le> m \<and> m \<le> int n")
    case True
    then have "nat m \<le> n" by linarith
    then show ?thesis using True by simp
  next
    case False
    have "nat m - n = Suc (nat m - (n + 1))" if "0 \<le> m" using False that by linarith
    then show ?thesis using 2 False by auto
  qed
qed simp

lemma sorted_range:
  assumes "sorted_wrt (<) (map at_time ts)"
  shows "takeWhile (\<lambda>t. at_time t \<le> e) (dropWhile (\<lambda>t. at_time t < b) ts) = filter (\<lambda>t. b \<le> at_time t \<and> at_time t \<le> e) ts"
  using assms
proof (induction ts)
  case (Cons t ts)
  have later: "at_time t < at_time u" if "u \<in> set ts" for u using that Cons.prems by simp
  have sorted: "sorted_wrt (<) (map at_time ts)" using Cons.prems by simp
  show ?case
  proof (cases "at_time t < b")
    case True
    then show ?thesis using Cons.IH [OF sorted] by simp
  next
    case False
    then have from_b: "filter (\<lambda>u. b \<le> at_time u \<and> at_time u \<le> e) ts = filter (\<lambda>u. at_time u \<le> e) ts"
      using False by (intro filter_cong) (auto dest!: later)
    have "dropWhile (\<lambda>u. at_time u < b) ts = ts" using later False by (cases ts) fastforce+
    then have upto: "takeWhile (\<lambda>u. at_time u \<le> e) ts = filter (\<lambda>u. at_time u \<le> e) ts"
      using Cons.IH [OF sorted] from_b by simp
    show ?thesis
    proof (cases "at_time t \<le> e")
      case True
      then show ?thesis using False upto from_b by simp
    next
      case early: False
      then have "filter (\<lambda>u. b \<le> at_time u \<and> at_time u \<le> e) ts = []" using later by (fastforce simp: filter_empty_conv)
      then show ?thesis using False early by simp
    qed
  qed
qed simp

text \<open>
  C34: a range query answers with the transactions of the scan in the range, in time order, at most as many
  as asked for: when what the repository holds for the analyzer came from scans and the name is that of the
  description, the query succeeds exactly when the result is there, and the binary search and the loop
  with its limit select the accesses of the file whose time is in the closed range.
\<close>

theorem apb_range_query:
  assumes f: "fsdb_replays f initial changes" and r: "aa_repository az = Some r" and k: "apb_kept dump f az r"
    and name: "omap_get (aa_keys az) name = Some (apb_cache_key dump az c)"
    and q: "get_transactions_in_range name b e max_results az = (ok, out)"
  shows "(ok \<longleftrightarrow> get_result az name \<noteq> None) \<and>
    (ok \<longrightarrow> (\<exists>signals xs. resolve_apb_signals f c = Inr signals \<and>
       clock_samples f (ac_clock_sample c) signals (min_time f) (max_time f) (CHR 0x00) = Inr xs \<and>
       out = (if 0 \<le> max_results then take (nat max_results) else id)
               (filter (\<lambda>t. b \<le> at_time t \<and> at_time t \<le> e) (apb_transactions c (apb_widths_of f signals) xs))))"
proof (cases "get_result az name")
  case None
  then show ?thesis using q by (simp add: get_transactions_in_range_def)
next
  case (Some result)
  then have ok: ok and out: "out = range_loop e max_results
      (dropWhile (\<lambda>t. at_time t < b) (map (transaction_of result) (ar_all result))) 0"
    using q by (simp_all add: get_transactions_in_range_def)
  have "apb_scan f c = Inr result"
    using Some kept_ready [OF k, of c] by (auto simp: get_result_view r name split: option.splits prod.splits apb_value.splits if_splits)
  from scan_transactions [OF f this] obtain signals xs where "resolve_apb_signals f c = Inr signals"
    "clock_samples f (ac_clock_sample c) signals (min_time f) (max_time f) (CHR 0x00) = Inr xs"
    "map (transaction_of result) (ar_all result) = apb_transactions c (apb_widths_of f signals) xs"
    "sorted_wrt (<) (map at_time (apb_transactions c (apb_widths_of f signals) xs))" by metis
  then show ?thesis using ok Some by (auto simp: out range_loop_take sorted_range)
qed

lemma bus_replays: "fsdb_replays bus_file (\<lambda>_. ''0'') bus_log"
  by (simp add: fsdb_replays_def bus_file_def bus_log_def)

text \<open>The analyzer of the example after its analysis.\<close>

definition bus_analyzed :: apb_analyzer where
  "bus_analyzed = bus_analyzer\<lparr>aa_repository := Some bus_repository, aa_keys := [(''bus'', bus_key)]\<rparr>"

lemma bus_analyzed_facts:
  "aa_repository bus_analyzed = Some bus_repository" "apb_kept unary_dump bus_file bus_analyzed bus_repository"
  "omap_get (aa_keys bus_analyzed) ''bus'' = Some (apb_cache_key unary_dump bus_analyzed bus_config)"
  "get_result bus_analyzed ''bus'' = Some bus_result"
proof -
  show r: "aa_repository bus_analyzed = Some bus_repository" by (simp add: bus_analyzed_def)
  show "apb_kept unary_dump bus_file bus_analyzed bus_repository"
    using bus_kept by (subst apb_kept_same [of bus_analyzed bus_analyzer]) (simp_all add: bus_analyzed_def)
  show k: "omap_get (aa_keys bus_analyzed) ''bus'' = Some (apb_cache_key unary_dump bus_analyzed bus_config)"
    by (simp add: bus_analyzed_def bus_key_def apb_cache_key_def)
  show "get_result bus_analyzed ''bus'' = Some bus_result"
    by (simp add: get_result_view r bus_analyzed_def bus_ready)
qed

theorem apb_range_query_witness:
  "fst (get_transactions_in_range ''bus'' 5 30 1 bus_analyzed) \<and>
   map at_time (snd (get_transactions_in_range ''bus'' 5 30 1 bus_analyzed)) = [10]"
proof -
  obtain ok out where q: "get_transactions_in_range ''bus'' 5 30 1 bus_analyzed = (ok, out)" by fastforce
  have "(ok \<longleftrightarrow> get_result bus_analyzed ''bus'' \<noteq> None) \<and>
    (ok \<longrightarrow> (\<exists>signals xs. resolve_apb_signals bus_file bus_config = Inr signals \<and>
       clock_samples bus_file (ac_clock_sample bus_config) signals (min_time bus_file) (max_time bus_file) (CHR 0x00) = Inr xs \<and>
       out = take 1 (filter (\<lambda>t. 5 \<le> at_time t \<and> at_time t \<le> 30) (apb_transactions bus_config (apb_widths_of bus_file signals) xs))))"
    using apb_range_query [OF bus_replays bus_analyzed_facts(1-3) q] by simp
  then obtain signals xs where ok and s: "resolve_apb_signals bus_file bus_config = Inr signals"
    "clock_samples bus_file (ac_clock_sample bus_config) signals (min_time bus_file) (max_time bus_file) (CHR 0x00) = Inr xs"
    and out: "out = take 1 (filter (\<lambda>t. 5 \<le> at_time t \<and> at_time t \<le> 30) (apb_transactions bus_config (apb_widths_of bus_file signals) xs))"
    using bus_analyzed_facts(4) by auto
  have "case resolve_apb_signals bus_file bus_config of Inl _ \<Rightarrow> False | Inr signals \<Rightarrow>
      (case clock_samples bus_file (ac_clock_sample bus_config) signals (min_time bus_file) (max_time bus_file) (CHR 0x00) of
         Inl _ \<Rightarrow> False | Inr xs \<Rightarrow> map at_time (apb_transactions bus_config (apb_widths_of bus_file signals) xs) = [10, 30])"
    by code_simp
  then have times: "map at_time (apb_transactions bus_config (apb_widths_of bus_file signals) xs) = [10, 30]" by (simp add: s)
  then obtain x y where "apb_transactions bus_config (apb_widths_of bus_file signals) xs = [x, y]" "at_time x = 10" by auto
  then show ?thesis using q \<open>ok\<close> by (simp add: out)
qed

section \<open>Lookups by address\<close>

text \<open>The transactions a filter selects, those of an address, and the n-th of a list from 1.\<close>

definition lane_transactions :: "apb_result \<Rightarrow> int \<Rightarrow> apb_transaction list" where
  "lane_transactions result flt =
     (if flt = 1 then ar_writes result else if flt = 2 then ar_reads result else map (transaction_of result) (ar_all result))"

definition at_address :: "nat \<Rightarrow> apb_transaction \<Rightarrow> bool" where
  "at_address addr t \<longleftrightarrow> at_has_numeric_addr t \<and> at_numeric_addr t = addr"

definition nth_from_1 :: "'a list \<Rightarrow> nat \<Rightarrow> 'a option" where
  "nth_from_1 xs n = (if n = 0 \<or> length xs < n then None else Some (xs ! (n - 1)))"

lemma transaction_at_lane:
  "transaction_at result flt i = (if i < length (lane_transactions result flt) then Some (lane_transactions result flt ! i) else None)"
  by (simp add: transaction_at_def transaction_count_def lane_transactions_def)

definition lane_of :: "int \<Rightarrow> lane" where
  "lane_of flt = (if flt = 1 then Write_Lane else if flt = 2 then Read_Lane else All_Lane)"

definition lane_positions :: "lane \<Rightarrow> address_bucket \<Rightarrow> nat list" where
  "lane_positions lane b = (case lane of All_Lane \<Rightarrow> ab_all b | Write_Lane \<Rightarrow> ab_writes b | Read_Lane \<Rightarrow> ab_reads b)"

definition positions_in :: "lane \<Rightarrow> nat \<Rightarrow> address_index \<Rightarrow> nat list" where
  "positions_in lane addr index = (case omap_get index addr of None \<Rightarrow> [] | Some b \<Rightarrow> lane_positions lane b)"

lemma address_positions_in:
  "(case address_positions flt addr index of None \<Rightarrow> [] | Some ps \<Rightarrow> ps) = positions_in (lane_of flt) addr index"
  by (simp add: address_positions_def positions_in_def lane_of_def lane_positions_def split: option.split)

lemma positions_add:
  "positions_in lane addr (add_position (a, l, i) index) = positions_in lane addr index @ (if a = addr \<and> l = lane then [i] else [])"
  by (cases l; cases lane)
    (auto simp: positions_in_def add_position_def omap_get_put push_position_def lane_positions_def empty_bucket_def split: option.split)

lemma positions_fold:
  "positions_in lane addr (fold add_position entries index) =
     positions_in lane addr index @ map (\<lambda>(a, l, i). i) (filter (\<lambda>(a, l, i). a = addr \<and> l = lane) entries)"
  by (induction entries arbitrary: index) (auto simp: positions_add split: if_splits)

definition found_positions :: "nat \<Rightarrow> apb_transaction list \<Rightarrow> nat list" where
  "found_positions addr txns = map fst (filter (\<lambda>(i, t). at_address addr t) (enumerate 0 txns))"

lemma lane_entries_positions:
  "map (\<lambda>(a, l, i). i) (filter (\<lambda>(a, l, i). a = addr \<and> l = lane) (lane_entries lane' txns)) =
     (if lane' = lane then found_positions addr txns else [])"
proof -
  have "map (\<lambda>(a, l, i). i) (filter (\<lambda>(a, l, i). a = addr \<and> l = lane)
      (map (\<lambda>(i, t). (at_numeric_addr t, lane', i)) (filter (\<lambda>(i, t). at_has_numeric_addr t) ps))) =
    (if lane' = lane then map fst (filter (\<lambda>(i, t). at_address addr t) ps) else [])" for ps
    unfolding at_address_def by (induction ps) auto
  then show ?thesis unfolding lane_entries_def found_positions_def .
qed

lemma index_positions:
  "positions_in (lane_of flt) addr (fold add_position (index_entries result) []) = found_positions addr (lane_transactions result flt)"
proof -
  have "positions_in lane addr [] = []" for lane by (simp add: positions_in_def)
  then show ?thesis
    unfolding positions_fold index_entries_def filter_append map_append lane_entries_positions
    by (simp add: lane_of_def lane_transactions_def)
qed

lemma found_nth:
  "map (\<lambda>i. txns ! i) (found_positions addr txns) = filter (at_address addr) txns"
  "\<forall>i\<in>set (found_positions addr txns). i < length txns"
proof -
  have shift: "map fst (filter (\<lambda>(i, t). P t) (enumerate (Suc n) xs)) = map Suc (map fst (filter (\<lambda>(i, t). P t) (enumerate n xs)))"
    for P and xs :: "apb_transaction list" and n
    by (induction xs arbitrary: n) auto
  show "map (\<lambda>i. txns ! i) (found_positions addr txns) = filter (at_address addr) txns"
    unfolding found_positions_def
  proof (induction txns)
    case (Cons t txns)
    have "map (\<lambda>i. (t # txns) ! i) (map fst (filter (\<lambda>(i, t). at_address addr t) (enumerate (Suc 0) txns))) =
        map (\<lambda>i. txns ! i) (map fst (filter (\<lambda>(i, t). at_address addr t) (enumerate 0 txns)))"
      unfolding shift by (simp add: comp_def)
    then show ?case using Cons by (cases "at_address addr t") simp_all
  qed simp
  show "\<forall>i\<in>set (found_positions addr txns). i < length txns"
    by (auto simp: found_positions_def in_set_enumerate_eq)
qed

text \<open>A lookup through the index of a result selects from its transactions of the address.\<close>

lemma index_lookup:
  assumes "index = fold add_position (index_entries result) []"
  shows "(if num = 0 then None
          else case address_positions flt addr index of
            None \<Rightarrow> None
          | Some ps \<Rightarrow> if length ps < num then None else transaction_at result flt (ps ! (num - 1))) =
         nth_from_1 (filter (at_address addr) (lane_transactions result flt)) num"
proof -
  let ?ts = "lane_transactions result flt" and ?ps = "found_positions addr (lane_transactions result flt)"
  have len: "length (filter (at_address addr) ?ts) = length ?ps" by (metis found_nth(1) length_map)
  have nth: "transaction_at result flt (?ps ! i) = Some (filter (at_address addr) ?ts ! i)" if "i < length ?ps" for i
  proof -
    have "?ps ! i \<in> set ?ps" using that by simp
    then have "?ps ! i < length ?ts" using found_nth(2) by blast
    moreover have "filter (at_address addr) ?ts ! i = ?ts ! (?ps ! i)"
      by (simp only: found_nth(1) [symmetric] nth_map [OF that])
    ultimately show ?thesis by (simp add: transaction_at_lane)
  qed
  have ps: "(case address_positions flt addr index of None \<Rightarrow> [] | Some ps \<Rightarrow> ps) = ?ps"
    by (simp only: address_positions_in assms index_positions)
  show ?thesis
  proof (cases "address_positions flt addr index")
    case None
    then show ?thesis using ps len by (auto simp: nth_from_1_def)
  next
    case (Some qs)
    then have "qs = ?ps" using ps by simp
    then show ?thesis using Some nth [of "num - 1"] by (auto simp: nth_from_1_def len)
  qed
qed

section \<open>The index in the cache\<close>

text \<open>The index of a result; the invariant: what is ready as an address index is the index of the scan's result.\<close>

definition index_of_result :: "apb_result \<Rightarrow> address_index" where
  "index_of_result result = fold add_position (index_entries result) []"

definition index_valid :: "(json \<Rightarrow> string) \<Rightarrow> 'h fsdb \<Rightarrow> apb_analyzer \<Rightarrow> index_key \<Rightarrow> apb_value option \<Rightarrow> bool" where
  "index_valid dump f az ik v \<longleftrightarrow>
     (\<forall>c result. index_owner ik = apb_cache_key dump az c \<longrightarrow> index_kind ik = ''address'' \<longrightarrow> apb_scan f c = Inr result \<longrightarrow>
        v = Some (Apb_Index (index_of_result result)))"

definition indexes_kept :: "(json \<Rightarrow> string) \<Rightarrow> 'h fsdb \<Rightarrow> apb_analyzer \<Rightarrow> apb_value repository \<Rightarrow> bool" where
  "indexes_kept dump f az r \<longleftrightarrow> kept index_view (index_valid dump f az) r"

lemma indexes_kept_fades: "indexes_kept dump f az r \<Longrightarrow> index_fades r r' \<Longrightarrow> indexes_kept dump f az r'"
  unfolding indexes_kept_def by (rule indexes.kept_loses)

lemma indexes_kept_learns:
  assumes "inj dump" "indexes_kept dump f az r" "apb_scan f c = Inr result"
    "index_learns (Index_Key (apb_cache_key dump az c) g kind) (Some (Apb_Index (index_of_result result))) r r'"
  shows "indexes_kept dump f az r'"
proof -
  have "index_valid dump f az (Index_Key (apb_cache_key dump az c) g kind) (Some (Apb_Index (index_of_result result)))"
    unfolding index_valid_def using same_key_scan [OF assms(1), of az c _ f] assms(3) by fastforce
  then show ?thesis using indexes.kept_gains assms(2,4) unfolding indexes_kept_def by blast
qed

lemma kept_index:
  assumes "indexes_kept dump f az r" "apb_scan f c = Inr result"
    "as_index (peek_index (Index_Key (apb_cache_key dump az c) g ''address'') t r) = Some index"
  shows "index = index_of_result result"
proof -
  obtain v where v: "peek_index (Index_Key (apb_cache_key dump az c) g ''address'') t r = Some v" "v = Apb_Index index"
    using assms(3) by (auto simp: as_index_def split: option.splits apb_value.splits)
  from peek_index_view [OF v(1)] show ?thesis
    using assms(1,2) v(2) unfolding indexes_kept_def kept_def index_valid_def by fastforce
qed

lemma fill_step:
  assumes "fill_index estimate oom ik entries n index err r = (outcome, err', r')"
  shows "fades r r' \<and> index_fades r r' \<and> (\<forall>index'. outcome = Filled index' \<longrightarrow> index' = fold add_position entries index)"
  using assms
proof (induction estimate oom ik entries n index err r rule: fill_index.induct)
  case (2 estimate oom ik entry entries n index err r)
  let ?index = "add_position entry index"
  consider "oom = Some n" | "oom \<noteq> Some n" "\<not> power_of_two (n + 1)" | "oom \<noteq> Some n" "power_of_two (n + 1)" by blast
  then show ?case
  proof cases
    case 1
    then show ?thesis using 2(3) by auto
  next
    case 2
    then show ?thesis using "2.IH"(1) [OF _ refl] "2.prems" by (simp add: Let_def)
  next
    case 3
    obtain ok e r1 where u: "update_index_build_bytes ik (estimate ?index) err r = (ok, e, r1)" by (metis prod_cases3)
    have r1: "fades r r1" "index_fades r r1" using fades_update_index index_fades_update_index u by (metis snd_conv)+
    show ?thesis
    proof (cases ok)
      case True
      then have "fill_index estimate oom ik entries (n + 1) ?index e r1 = (outcome, err', r')" using "2.prems" 3 u by (simp add: Let_def)
      from "2.IH"(2) [OF _ refl _ u [symmetric] refl True this] show ?thesis
        using 3 fades_trans [OF r1(1)] index_fades_trans [OF r1(2)] by auto
    next
      case False
      then show ?thesis using "2.prems" 3 u r1 by (auto simp: Let_def)
    qed
  qed
qed (auto split: if_splits)

lemma fail_index_fades: "fail_index_bad_alloc ik r = (err, r') \<Longrightarrow> fades r r' \<and> index_fades r r'"
  using fades_fail_index index_fades_fail_index by (auto simp: fail_index_bad_alloc_def Let_def)

text \<open>The build of an index learns nothing but the index of its result.\<close>

lemma build_index_learns:
  assumes "build_address_index estimate oom ik result err r = (found, err', r')"
  shows "fades r r' \<and> (index_fades r r' \<or> index_learns ik (Some (Apb_Index (index_of_result result))) r r') \<and>
    (found = None \<or> found = as_index (peek_index ik apb_index_tag r'))"
proof -
  obtain outcome err1 r1 where fl: "fill_index estimate oom ik (index_entries result) 0 [] err r = (outcome, err1, r1)" by (metis prod_cases3)
  note s1 = fill_step [OF fl]
  show ?thesis
  proof (cases outcome)
    case (Filled index)
    then have index: "index = index_of_result result" using s1 by (simp add: index_of_result_def)
    obtain ok2 err2 r2 where u: "update_index_build_bytes ik (estimate index) err1 r1 = (ok2, err2, r2)" by (metis prod_cases3)
    have s2: "fades r r2" "index_fades r r2"
      using s1 fades_trans [OF _ fades_update_index] index_fades_trans [OF _ index_fades_update_index] u by (metis snd_conv)+
    obtain ok3 err3 r3 where p: "publish_index ik apb_index_tag (Some (Apb_Index index)) (estimate index) err2 r2 = (ok3, err3, r3)"
      by (metis prod_cases3)
    have s3: "fades r r3" "index_learns ik (Some (Apb_Index index)) r r3"
      using fades_trans [OF s2(1) fades_publish_index] index_fades_learns [OF s2(2) index_learns_publish] p by (metis snd_conv)+
    show ?thesis using assms fl Filled u p s2 s3 index by (cases ok2; cases ok3) (auto simp: build_address_index_def)
  next
    case Fill_Rejected
    then show ?thesis using assms fl s1 by (auto simp: build_address_index_def)
  next
    case Fill_Bad_Alloc
    obtain e q where b: "fail_index_bad_alloc ik r1 = (e, q)" by fastforce
    from fail_index_fades [OF b] show ?thesis
      using assms fl Fill_Bad_Alloc b s1 fades_trans index_fades_trans by (fastforce simp: build_address_index_def)
  qed
qed

text \<open>Asking for the index keeps the caches right, and an index that is answered is that of the result.\<close>

lemma address_index_kept:
  assumes inj: "inj dump" and r: "aa_repository az = Some r" and k: "apb_kept dump f az r" and i: "indexes_kept dump f az r"
    and name: "omap_get (aa_keys az) name = Some (apb_cache_key dump az c)"
    and p: "get_result_internal az name = Some (result, g)" and scan: "apb_scan f c = Inr result"
    and a: "address_index estimate n oom name False az = (index, az1)"
  shows "(\<exists>q. aa_repository az1 = Some q \<and> apb_kept dump f az1 q \<and> indexes_kept dump f az1 q) \<and>
    (\<forall>x. index = Some x \<longrightarrow> x = index_of_result result)"
proof -
  let ?key = "apb_cache_key dump az c"
  let ?ik = "Index_Key ?key g ''address''"
  obtain status err r1 where b: "begin_index ?ik apb_index_tag n r = (status, err, r1)" by (metis prod_cases3)
  have r1: "fades r r1" "index_fades r r1" using fades_begin_index index_fades_begin_index b by (metis snd_conv)+
  obtain fnd e r' where w: "(if status = Hit then (as_index (peek_index ?ik apb_index_tag r1), err, r1)
      else if status = Build_Started then build_address_index estimate oom ?ik result err r1 else (None, err, r1)) = (fnd, e, r')"
    by (metis prod_cases3)
  have built: "fades r r' \<and> (index_fades r r' \<or> index_learns ?ik (Some (Apb_Index (index_of_result result))) r r') \<and>
      (fnd = None \<or> fnd = as_index (peek_index ?ik apb_index_tag r'))"
  proof (cases "status = Build_Started")
    case True
    then have "build_address_index estimate oom ?ik result err r1 = (fnd, e, r')" using w by simp
    from build_index_learns [OF this] show ?thesis
      using fades_trans [OF r1(1)] index_fades_trans [OF r1(2)] index_fades_learns [OF r1(2)] by blast
  next
    case False
    then show ?thesis using w r1 by (auto split: if_splits)
  qed
  have k': "apb_kept dump f az r'" using apb_kept_fades [OF k] built by blast
  have i': "indexes_kept dump f az r'" using indexes_kept_fades [OF i] indexes_kept_learns [OF inj i scan] built by blast
  have az1: "(aa_repository az1 = Some r \<or> aa_repository az1 = Some r') \<and> aa_session az1 = aa_session az \<and> aa_identity az1 = aa_identity az"
    and index: "index = None \<or> index = as_index (peek_index ?ik apb_index_tag r) \<or> index = as_index (peek_index ?ik apb_index_tag r')"
    using a p name r b w built by (auto simp: address_index_def Let_def split: option.splits)
  have same: "apb_kept dump f az1 q = apb_kept dump f az q" "indexes_kept dump f az1 q = indexes_kept dump f az q" for q
    using az1 by (simp_all add: apb_kept_def apb_valid_def [abs_def] indexes_kept_def index_valid_def [abs_def] apb_cache_key_def)
  have "x = index_of_result result" if "index = Some x" for x
    using index that kept_index [OF i scan] kept_index [OF i' scan] by auto
  moreover have "\<exists>q. aa_repository az1 = Some q \<and> apb_kept dump f az1 q \<and> indexes_kept dump f az1 q"
    using az1 k i k' i' by (auto simp: same)
  ultimately show ?thesis by blast
qed

text \<open>
  C35: a lookup by address is a selection from the scan.  When what the repository holds for the analyzer
  came from scans, the same is true after the lookup; a transaction that is found is the n-th, from 1, of
  those with the address among the writes, the reads or all; and whenever the index can be had, from the
  cache or built for the lookup with every report of its size, nothing is found only when there is no
  n-th such transaction.
\<close>

theorem apb_address_lookup:
  assumes inj: "inj dump" and r: "aa_repository az = Some r" and k: "apb_kept dump f az r" and i: "indexes_kept dump f az r"
    and name: "omap_get (aa_keys az) name = Some (apb_cache_key dump az c)"
    and q: "get_by_addr_num estimate n oom name flt addr num az = (found, az')"
  shows "(\<exists>r'. aa_repository az' = Some r' \<and> apb_kept dump f az' r' \<and> indexes_kept dump f az' r') \<and>
    (\<forall>t. found = Some t \<longrightarrow> (\<exists>result. apb_scan f c = Inr result \<and>
       nth_from_1 (filter (at_address addr) (lane_transactions result flt)) num = Some t)) \<and>
    (fst (address_index estimate n oom name False az) \<noteq> None \<longrightarrow> (\<exists>result. apb_scan f c = Inr result \<and>
       found = nth_from_1 (filter (at_address addr) (lane_transactions result flt)) num))"
proof (cases "get_result_internal az name")
  case None
  then have "found = None" "fst (address_index estimate n oom name False az) = None" "az' = az\<lparr>aa_cache_error := no_error\<rparr>"
    using q by (auto simp: get_by_addr_num_def address_index_def get_result_def)
  moreover have "apb_kept dump f (az\<lparr>aa_cache_error := no_error\<rparr>) r" "indexes_kept dump f (az\<lparr>aa_cache_error := no_error\<rparr>) r"
    using k i by (simp_all add: apb_kept_def apb_valid_def [abs_def] indexes_kept_def index_valid_def [abs_def] apb_cache_key_def)
  ultimately show ?thesis using r by simp
next
  case (Some p)
  obtain result g where p: "get_result_internal az name = Some (result, g)" using Some by (cases p) auto
  have get: "get_result az name = Some result" by (simp add: get_result_def p)
  have scan: "apb_scan f c = Inr result"
    using get kept_ready [OF k, of c] by (auto simp: get_result_view r name split: option.splits prod.splits apb_value.splits if_splits)
  obtain index az1 where a: "address_index estimate n oom name False az = (index, az1)" by fastforce
  have kept: "\<exists>q. aa_repository az1 = Some q \<and> apb_kept dump f az1 q \<and> indexes_kept dump f az1 q"
    and is_index: "\<And>x. index = Some x \<Longrightarrow> x = index_of_result result"
    using address_index_kept [OF inj r k i name p scan a] by blast+
  have az': "az' = az1" using q a by (auto simp: get_by_addr_num_def)
  show ?thesis
  proof (cases index)
    case None
    then show ?thesis using q a get kept az' by (simp add: get_by_addr_num_def)
  next
    case (Some x)
    have "found = (if num = 0 then None else case address_positions flt addr x of None \<Rightarrow> None
        | Some ps \<Rightarrow> if length ps < num then None else transaction_at result flt (ps ! (num - 1)))"
      using q a get Some by (simp add: get_by_addr_num_def)
    then have "found = nth_from_1 (filter (at_address addr) (lane_transactions result flt)) num"
      using index_lookup [of x result num flt addr] is_index [OF Some] by (simp add: index_of_result_def)
    then show ?thesis using kept az' scan by auto
  qed
qed

text \<open>The example with its index ready in the repository.\<close>

definition bus_indexed :: apb_analyzer where
  "bus_indexed = bus_analyzed\<lparr>aa_repository := Some (bus_repository\<lparr>r_indexes :=
     [(Index_Key bus_key 1 ''address'', \<lparr>ob_state = Ready, ob_type = apb_index_tag,
       ob_value = Some (Apb_Index (index_of_result bus_result)), ob_resident = 0, ob_build = 0, ob_access = 2\<rparr>)]\<rparr>)\<rparr>"

lemma bus_indexed_facts:
  fixes r defines "r \<equiv> the (aa_repository bus_indexed)"
  shows "aa_repository bus_indexed = Some r" "apb_kept unary_dump bus_file bus_indexed r" "indexes_kept unary_dump bus_file bus_indexed r"
    "omap_get (aa_keys bus_indexed) ''bus'' = Some (apb_cache_key unary_dump bus_indexed bus_config)"
    "fst (address_index (\<lambda>_. 0) 0 None ''bus'' False bus_indexed) \<noteq> None"
proof -
  show repo: "aa_repository bus_indexed = Some r" by (simp add: r_def bus_indexed_def)
  have find: "find_entry r k = find_entry bus_repository k" for k
    by (simp add: r_def bus_indexed_def find_entry_def split: option.split)
  then have ready: "ready_view r k = (if k = bus_key then Some (apb_result_tag, Some (Apb_Value bus_result), 1) else None)" for k
    using bus_ready by (simp add: ready_view_def)
  have key: "apb_cache_key unary_dump bus_indexed c = apb_cache_key unary_dump bus_analyzer c" for c
    by (simp add: bus_indexed_def bus_analyzed_def apb_cache_key_def)
  show name: "omap_get (aa_keys bus_indexed) ''bus'' = Some (apb_cache_key unary_dump bus_indexed bus_config)"
    unfolding key by (simp add: bus_indexed_def bus_analyzed_def bus_key_def)
  have "apb_kept unary_dump bus_file bus_analyzer r"
    using bus_kept by (simp add: apb_kept_def kept_def value_view_Some ready bus_ready)
  then show "apb_kept unary_dump bus_file bus_indexed r"
    by (subst apb_kept_same [of bus_indexed bus_analyzer]) (simp_all add: bus_indexed_def bus_analyzed_def)
  have view: "index_view r ik = Some v \<longleftrightarrow> ik = Index_Key bus_key 1 ''address'' \<and> v = Some (Apb_Index (index_of_result bus_result))" for ik v
    by (auto simp: index_view_def r_def bus_indexed_def)
  have "v = Some (Apb_Index (index_of_result result))"
    if "index_view r ik = Some v" "index_owner ik = apb_cache_key unary_dump bus_indexed c" "apb_scan bus_file c = Inr result" for ik v c result
    using that same_key_scan [OF unary_dump_inj, of bus_analyzer bus_config c bus_file] bus_scan
    by (auto simp: view key bus_key_def)
  then show "indexes_kept unary_dump bus_file bus_indexed r" unfolding indexes_kept_def kept_def index_valid_def by blast
  have target: "get_result_internal bus_indexed ''bus'' = Some (bus_result, 1)"
    using name by (simp add: get_result_internal_def repo key find_from_view ready bus_key_def)
  have "ob_generation owner = 1" if "find_entry r bus_key = Some owner" for owner
    using that ready [of bus_key] by (simp add: ready_view_def split: if_splits)
  moreover obtain owner where "find_entry r bus_key = Some owner"
    using ready [of bus_key] by (auto simp: ready_view_def split: option.splits)
  ultimately have "peek_index (Index_Key bus_key 1 ''address'') apb_index_tag r = Some (Apb_Index (index_of_result bus_result))"
    by (simp add: peek_index_def usable_index_def r_def bus_indexed_def)
  then show "fst (address_index (\<lambda>_. 0) 0 None ''bus'' False bus_indexed) \<noteq> None"
    using name by (simp add: address_index_def target repo as_index_def key bus_key_def)
qed

theorem apb_address_lookup_witness:
  "map_option at_time (fst (get_by_addr_num (\<lambda>_. 0) 0 None ''bus'' 2 32 1 bus_indexed)) = Some 30"
proof -
  obtain found az' where q: "get_by_addr_num (\<lambda>_. 0) 0 None ''bus'' 2 32 1 bus_indexed = (found, az')" by fastforce
  obtain result where "apb_scan bus_file bus_config = Inr result"
    "found = nth_from_1 (filter (at_address 32) (lane_transactions result 2)) 1"
    using apb_address_lookup [OF unary_dump_inj bus_indexed_facts(1-4) q] bus_indexed_facts(5) by blast
  then have "found = nth_from_1 (filter (at_address 32) (lane_transactions bus_result 2)) 1" using bus_scan by simp
  moreover have "map_option at_time (nth_from_1 (filter (at_address 32) (lane_transactions bus_result 2)) 1) = Some 30"
    by code_simp
  ultimately show ?thesis using q by simp
qed

section \<open>Two texts that are read as they should not\<close>

text \<open>An address with unknown digits is indexed by the number its known prefix spells; a level in lower case counts as high.\<close>

lemma unknown_address_indexed: "parse_hex_value ''1xxx'' = (True, 1)"
  by code_simp

lemma lower_case_unknown_high: "level_low ''X'' \<and> \<not> level_low ''x''"
  by code_simp

end
