(* ===== verification/Config_Store.thy ===== *)
theory Config_Store
  imports Stream_Config "HOL-Library.Word"
begin

text \<open>
  Named descriptions kept in a file: the versioned store \<open>waveform/common/versioned_json_store.{h,cpp}\<close> and
  the steps that the managers of buses, streams, events and signal lists share, over the reader and the
  printer of a description.  The managers are the theories \<open>Bus_Managers\<close>, \<open>Stream_Manager\<close>,
  \<open>Event_Manager\<close> and \<open>List_Manager\<close>.
  A file is missing, unreadable, not JSON, or holds a JSON value: reading back what the JSON library
  printed gives the value printed.  How a write ends is a parameter.
\<close>

section \<open>The store\<close>

datatype store_status = Not_Found | Store_Invalid | Io_Error | Conflict

record store_error =
  se_status :: store_status
  se_code :: string
  se_message :: string

definition store_failure :: "store_status \<Rightarrow> string \<Rightarrow> string \<Rightarrow> store_error" where
  "store_failure status code what = \<lparr>se_status = status, se_code = code, se_message = what\<rparr>"

definition store_not_found :: "string \<Rightarrow> store_error" where
  "store_not_found what = store_failure Not_Found ''CONFIG_NOT_FOUND'' what"

definition store_conflict :: "string \<Rightarrow> store_error" where
  "store_conflict what = store_failure Conflict ''CONFIG_ALREADY_EXISTS'' what"

definition store_invalid :: "string \<Rightarrow> store_error" where
  "store_invalid what = store_failure Store_Invalid ''CONFIG_STORE_INVALID'' what"

definition store_error_text :: "store_error \<Rightarrow> string" where
  "store_error_text e =
     (if se_code e = [] then ''CONFIG_STORE_IO_ERROR'' else se_code e) @ '': '' @
     (if se_message e = [] then ''configuration store operation failed'' else se_message e)"

text \<open>The content of the file, and how writing it ends: a write whose directory could not be synced has replaced it.\<close>

datatype store_file = Missing | Unreadable | Unparsable string | Stored json

datatype write_outcome = Written | Not_Written | Not_Synced

record store_place =
  sp_path :: string
  sp_collection :: string

text \<open>The version is read as a 32-bit number.\<close>

definition store_version_ok :: "json option \<Rightarrow> bool" where
  "store_version_ok v = (case v of Some (JInt n) \<Rightarrow> (word_of_int n :: 32 word) = 1 | _ \<Rightarrow> False)"

definition store_load :: "store_place \<Rightarrow> store_file \<Rightarrow> store_error + json list" where
  "store_load place file =
     (case file of
        Missing \<Rightarrow> Inr []
      | Unreadable \<Rightarrow> Inl (store_failure Io_Error ''CONFIG_STORE_IO_ERROR'' (''cannot read config store: '' @ sp_path place))
      | Unparsable what \<Rightarrow> Inl (store_invalid (''cannot parse config store '' @ sp_path place @ '': '' @ what))
      | Stored root \<Rightarrow>
          (let mismatch = Inl (store_invalid (''config store does not match version 1 contract: '' @ sp_path place)) in
           case root of
             JObject ms \<Rightarrow>
               if length ms \<noteq> 2 \<or> \<not> store_version_ok (map_of ms ''version'') then mismatch
               else (case map_of ms (sp_collection place) of Some (JArray items) \<Rightarrow> Inr items | _ \<Rightarrow> mismatch)
           | _ \<Rightarrow> mismatch))"

definition store_root :: "store_place \<Rightarrow> json list \<Rightarrow> json" where
  "store_root place items = JObject [(''version'', JInt 1), (sp_collection place, JArray items)]"

definition store_save :: "store_place \<Rightarrow> write_outcome \<Rightarrow> json list \<Rightarrow> store_file \<Rightarrow> (store_error + unit) \<times> store_file" where
  "store_save place outcome items file =
     (let failed = Inl (store_failure Io_Error ''CONFIG_STORE_IO_ERROR'' (''cannot atomically write config store: '' @ sp_path place)) in
      case outcome of
        Written \<Rightarrow> (Inr (), Stored (store_root place items))
      | Not_Written \<Rightarrow> (failed, file)
      | Not_Synced \<Rightarrow> (failed, Stored (store_root place items)))"

text \<open>A mutation gives the new items and what its caller wants to know.\<close>

definition store_update ::
  "store_place \<Rightarrow> write_outcome \<Rightarrow> (json list \<Rightarrow> store_error + json list \<times> 'x) \<Rightarrow> store_file \<Rightarrow> (store_error + 'x) \<times> store_file" where
  "store_update place outcome mutation file =
     (case store_load place file of
        Inl e \<Rightarrow> (Inl e, file)
      | Inr items \<Rightarrow>
          (case mutation items of
             Inl e \<Rightarrow> (Inl e, file)
           | Inr (items', x) \<Rightarrow>
               (case store_save place outcome items' file of
                  (Inl e, file') \<Rightarrow> (Inl e, file')
                | (Inr _, file') \<Rightarrow> (Inr x, file'))))"

section \<open>Lists of named descriptions\<close>

text \<open>
  What a manager brings: the reader of the item at an index, which names the index in its message, the
  printer, what tells two descriptions apart with the message for two that agree, and the noun of the
  other messages.
\<close>

record ('c, 'k) codec =
  cd_read :: "nat \<Rightarrow> json \<Rightarrow> string + 'c"
  cd_print :: "'c \<Rightarrow> json"
  cd_key :: "'c \<Rightarrow> 'k"
  cd_duplicate :: "'c \<Rightarrow> string"
  cd_noun :: string

text \<open>The codec of descriptions with a name; \<open>label\<close> is the collection in the messages.\<close>

definition named_codec :: "string \<Rightarrow> string \<Rightarrow> (json \<Rightarrow> string + 'c) \<Rightarrow> ('c \<Rightarrow> json) \<Rightarrow> ('c \<Rightarrow> string) \<Rightarrow> ('c, string) codec" where
  "named_codec label noun read print name_of =
     \<lparr>cd_read = (\<lambda>index item. case read item of Inl error \<Rightarrow> Inl (label @ ''['' @ dec_digits index @ '']: '' @ error) | Inr c \<Rightarrow> Inr c),
      cd_print = print, cd_key = name_of, cd_duplicate = (\<lambda>c. ''duplicate '' @ noun @ '' name: '' @ name_of c), cd_noun = noun\<rparr>"

lemma named_codec_sel [simp]:
  "cd_read (named_codec label noun read print name_of) i item = Inr c \<longleftrightarrow> read item = Inr c"
  "cd_print (named_codec label noun read print name_of) = print"
  "cd_key (named_codec label noun read print name_of) = name_of"
  "cd_noun (named_codec label noun read print name_of) = noun"
  by (simp_all add: named_codec_def split: sum.split)

text \<open>The items are read in order; \<open>seen\<close> are the keys read already.\<close>

fun parse_from :: "('c, 'k) codec \<Rightarrow> nat \<Rightarrow> 'k list \<Rightarrow> json list \<Rightarrow> store_error + 'c list" where
  "parse_from cd index seen [] = Inr []"
| "parse_from cd index seen (item # items) =
     (case cd_read cd index item of
        Inl error \<Rightarrow> Inl (store_invalid error)
      | Inr c \<Rightarrow>
          if cd_key cd c \<in> set seen then Inl (store_invalid (cd_duplicate cd c))
          else (case parse_from cd (index + 1) (cd_key cd c # seen) items of Inl e \<Rightarrow> Inl e | Inr cs \<Rightarrow> Inr (c # cs)))"

definition parse_configs :: "('c, 'k) codec \<Rightarrow> json list \<Rightarrow> store_error + 'c list" where
  "parse_configs cd items = parse_from cd 0 [] items"

definition serialize_configs :: "('c, 'k) codec \<Rightarrow> 'c list \<Rightarrow> json list" where
  "serialize_configs cd configs = map (cd_print cd) configs"

definition bind_store :: "store_error + 'a \<Rightarrow> ('a \<Rightarrow> store_error + 'b) \<Rightarrow> store_error + 'b" where
  "bind_store r k = (case r of Inl e \<Rightarrow> Inl e | Inr x \<Rightarrow> k x)"

definition load_session :: "('c, 'k) codec \<Rightarrow> store_place \<Rightarrow> store_file \<Rightarrow> store_error + 'c list" where
  "load_session cd place file = bind_store (store_load place file) (parse_configs cd)"

text \<open>A mutation of the descriptions as one of the items.\<close>

definition on_configs :: "('c, 'k) codec \<Rightarrow> ('c list \<Rightarrow> store_error + 'c list \<times> 'x) \<Rightarrow> json list \<Rightarrow> store_error + json list \<times> 'x" where
  "on_configs cd mutation items =
     bind_store (parse_configs cd items) (\<lambda>configs.
     bind_store (mutation configs) (\<lambda>(configs', x). Inr (serialize_configs cd configs', x)))"

definition update_configs ::
  "('c, 'k) codec \<Rightarrow> store_place \<Rightarrow> write_outcome \<Rightarrow> ('c list \<Rightarrow> store_error + 'c list \<times> 'x) \<Rightarrow> store_file
   \<Rightarrow> (store_error + 'x) \<times> store_file" where
  "update_configs cd place outcome mutation file = store_update place outcome (on_configs cd mutation) file"

section \<open>Steps of the managers\<close>

definition append_new :: "('c, 'k) codec \<Rightarrow> string \<Rightarrow> 'c \<Rightarrow> 'c list \<Rightarrow> store_error + 'c list \<times> unit" where
  "append_new cd name config configs =
     (if list_ex (\<lambda>c. cd_key cd c = cd_key cd config) configs then Inl (store_conflict (cd_noun cd @ '' already exists: '' @ name))
      else Inr (configs @ [config], ()))"

definition remove_named :: "('c, 'k) codec \<Rightarrow> string \<Rightarrow> 'k \<Rightarrow> 'c list \<Rightarrow> store_error + 'c list \<times> unit" where
  "remove_named cd name key configs =
     (if \<not> list_ex (\<lambda>c. cd_key cd c = key) configs then Inl (store_not_found (cd_noun cd @ '' not found: '' @ name))
      else Inr (filter (\<lambda>c. cd_key cd c \<noteq> key) configs, ()))"

definition find_named :: "('c, 'k) codec \<Rightarrow> string \<Rightarrow> 'k \<Rightarrow> 'c list \<Rightarrow> store_error + 'c" where
  "find_named cd name key configs =
     (case List.find (\<lambda>c. cd_key cd c = key) configs of
        None \<Rightarrow> Inl (store_not_found (cd_noun cd @ '' not found: '' @ name))
      | Some c \<Rightarrow> Inr c)"

definition latest_named :: "('c, string) codec \<Rightarrow> 'c list \<Rightarrow> store_error + string" where
  "latest_named cd configs =
     (if configs = [] then Inl (store_not_found (''no '' @ cd_noun cd @ ''s are loaded'')) else Inr (cd_key cd (last configs)))"

text \<open>The first of the new descriptions whose name is taken ends an append; a replace puts all in the order of the names.\<close>

fun append_all :: "('c, string) codec \<Rightarrow> 'c list \<Rightarrow> 'c list \<Rightarrow> store_error + 'c list" where
  "append_all cd configs [] = Inr configs"
| "append_all cd configs (c # new) =
     (if list_ex (\<lambda>old. cd_key cd old = cd_key cd c) configs then Inl (store_conflict (cd_noun cd @ '' already exists: '' @ cd_key cd c))
      else append_all cd (configs @ [c]) new)"

definition by_name :: "('c, string) codec \<Rightarrow> 'c list \<Rightarrow> (string \<times> 'c) list" where
  "by_name cd configs = fold (\<lambda>c. omap_put (cd_key cd c) c) configs []"

definition replace_all :: "('c, string) codec \<Rightarrow> 'c list \<Rightarrow> 'c list \<Rightarrow> 'c list" where
  "replace_all cd configs new = map snd (by_name cd (configs @ new))"

text \<open>The two modes of a load.\<close>

definition load_all :: "('c, string) codec \<Rightarrow> string \<Rightarrow> 'c list \<Rightarrow> 'c list \<Rightarrow> store_error + 'c list" where
  "load_all cd mode configs new = (if mode = ''append'' then append_all cd configs new else Inr (replace_all cd configs new))"

definition directory_error :: "string \<Rightarrow> store_error" where
  "directory_error kind = store_failure Io_Error ''CONFIG_STORE_IO_ERROR'' (''cannot create '' @ kind @ '' session directory'')"

definition delete_named :: "('c, string) codec \<Rightarrow> store_place \<Rightarrow> write_outcome \<Rightarrow> string \<Rightarrow> store_file \<Rightarrow> (store_error + unit) \<times> store_file" where
  "delete_named cd place outcome name file = update_configs cd place outcome (remove_named cd name name) file"

definition get_named :: "('c, string) codec \<Rightarrow> store_place \<Rightarrow> string \<Rightarrow> store_file \<Rightarrow> store_error + 'c" where
  "get_named cd place name file = bind_store (load_session cd place file) (find_named cd name name)"

definition get_latest :: "('c, string) codec \<Rightarrow> store_place \<Rightarrow> store_file \<Rightarrow> store_error + string" where
  "get_latest cd place file = bind_store (load_session cd place file) (latest_named cd)"

section \<open>What a manager may rely on\<close>

definition write_failed :: "store_place \<Rightarrow> store_error" where
  "write_failed place = store_failure Io_Error ''CONFIG_STORE_IO_ERROR'' (''cannot atomically write config store: '' @ sp_path place)"

lemma bind_store_simps [simp]: "bind_store (Inl e) k = Inl e" "bind_store (Inr x) k = k x"
  by (simp_all add: bind_store_def)

lemma bind_store_Inr: "bind_store r k = Inr y \<longleftrightarrow> (\<exists>x. r = Inr x \<and> k x = Inr y)"
  by (cases r) simp_all

lemma store_load_root [simp]: "sp_collection place \<noteq> ''version'' \<Longrightarrow> store_load place (Stored (store_root place items)) = Inr items"
  by (simp add: store_load_def store_root_def store_version_ok_def Let_def)

definition configs_sound :: "('c \<Rightarrow> bool) \<Rightarrow> ('c, 'k) codec \<Rightarrow> 'c list \<Rightarrow> bool" where
  "configs_sound ok cd cs \<longleftrightarrow> list_all ok cs \<and> distinct (map (cd_key cd) cs)"

text \<open>The descriptions by their keys.\<close>

definition registry :: "('c, 'k) codec \<Rightarrow> 'c list \<Rightarrow> 'k \<rightharpoonup> 'c" where
  "registry cd cs = map_of (map (\<lambda>c. (cd_key cd c, c)) cs)"

text \<open>What users see of a file: the keys in their order and the description of each.\<close>

type_synonym ('k, 'c) listing = "'k list \<times> ('k \<rightharpoonup> 'c)"

definition listing_of :: "('c, 'k) codec \<Rightarrow> 'c list \<Rightarrow> ('k, 'c) listing" where
  "listing_of cd cs = (map (cd_key cd) cs, registry cd cs)"

definition presents :: "('c, 'k) codec \<Rightarrow> store_place \<Rightarrow> store_file \<Rightarrow> ('k, 'c) listing \<Rightarrow> bool" where
  "presents cd place file s \<longleftrightarrow> (\<exists>cs. load_session cd place file = Inr cs \<and> s = listing_of cd cs)"

text \<open>A change of the listing as far as it could be written, with the answer when it succeeds.\<close>

definition written :: "write_outcome \<Rightarrow> ('s \<times> 'x) option \<Rightarrow> 's \<Rightarrow> 'x option \<times> 's" where
  "written outcome change s =
     (case change of
        None \<Rightarrow> (None, s)
      | Some (s', x) \<Rightarrow> (if outcome = Written then Some x else None, if outcome = Not_Written then s else s'))"

definition answer_of :: "store_error + 'x \<Rightarrow> 'x option" where
  "answer_of r = (case r of Inl e \<Rightarrow> None | Inr x \<Rightarrow> Some x)"

lemma answer_of_simps [simp]: "answer_of (Inl e) = None" "answer_of (Inr x) = Some x"
  by (simp_all add: answer_of_def)

text \<open>Requests to a manager one after the other, with their answers, on the file and on what it presents.\<close>

fun run_requests :: "('r \<Rightarrow> store_file \<Rightarrow> (store_error + 'x) \<times> store_file) \<Rightarrow> 'r list \<Rightarrow> store_file \<Rightarrow> 'x option list \<times> store_file" where
  "run_requests step [] file = ([], file)"
| "run_requests step (r # rs) file =
     (let (x, file') = step r file; (xs, file'') = run_requests step rs file' in (answer_of x # xs, file''))"

fun run_spec :: "('r \<Rightarrow> 's \<Rightarrow> 'x option \<times> 's) \<Rightarrow> 'r list \<Rightarrow> 's \<Rightarrow> 'x option list \<times> 's" where
  "run_spec spec [] s = ([], s)"
| "run_spec spec (r # rs) s = (let (x, s') = spec r s; (xs, s'') = run_spec spec rs s' in (x # xs, s''))"

text \<open>A manager whose steps do what a listing says keeps presenting it.\<close>

locale manager_refinement =
  fixes step :: "'r \<Rightarrow> store_file \<Rightarrow> (store_error + 'x) \<times> store_file"
    and spec :: "'r \<Rightarrow> 's \<Rightarrow> 'x option \<times> 's"
    and rel :: "store_file \<Rightarrow> 's \<Rightarrow> bool"
    and start :: 's
  assumes start: "rel Missing start"
    and simulates: "rel file s \<Longrightarrow> answer_of (fst (step r file)) = fst (spec r s) \<and> rel (snd (step r file)) (snd (spec r s))"
begin

lemma run_simulates:
  "rel f s \<Longrightarrow> fst (run_requests step rs f) = fst (run_spec spec rs s) \<and> rel (snd (run_requests step rs f)) (snd (run_spec spec rs s))"
proof (induction rs arbitrary: f s)
  case (Cons r rs)
  show ?case
    using Cons.IH simulates [OF Cons.prems, of r] by (simp add: case_prod_unfold Let_def)
qed simp

lemma run_from_start:
  "fst (run_requests step rs Missing) = fst (run_spec spec rs start) \<and> rel (snd (run_requests step rs Missing)) (snd (run_spec spec rs start))"
  using run_simulates [OF start] .

end

text \<open>
  A codec reads what it prints of what it may read, and \<open>ok\<close> holds of what it reads.
\<close>

locale config_codec =
  fixes cd :: "('c, 'k) codec" and ok :: "'c \<Rightarrow> bool"
  assumes read_ok: "cd_read cd i j = Inr c \<Longrightarrow> ok c"
    and read_print: "ok c \<Longrightarrow> cd_read cd i (cd_print cd c) = Inr c"
begin

lemma parse_from_sound:
  "parse_from cd i seen items = Inr cs \<Longrightarrow> configs_sound ok cd cs \<and> cd_key cd ` set cs \<inter> set seen = {}"
proof (induction items arbitrary: i seen cs)
  case (Cons item items)
  then obtain c cs' where c: "cd_read cd i item = Inr c" "cd_key cd c \<notin> set seen"
    and cs: "parse_from cd (i + 1) (cd_key cd c # seen) items = Inr cs'" "cs = c # cs'"
    by (auto split: sum.splits if_splits)
  show ?case
    using c(2) read_ok [OF c(1)] Cons.IH [OF cs(1)] by (auto simp: cs(2) configs_sound_def)
qed (simp add: configs_sound_def)

lemma parse_from_printed:
  "configs_sound ok cd cs \<Longrightarrow> cd_key cd ` set cs \<inter> set seen = {} \<Longrightarrow> parse_from cd i seen (map (cd_print cd) cs) = Inr cs"
proof (induction cs arbitrary: i seen)
  case (Cons c cs)
  then have "parse_from cd (i + 1) (cd_key cd c # seen) (map (cd_print cd) cs) = Inr cs"
    by (intro Cons.IH) (auto simp: configs_sound_def)
  then show ?case using Cons.prems by (simp add: configs_sound_def read_print)
qed simp

lemma parse_serialized: "configs_sound ok cd cs \<Longrightarrow> parse_configs cd (serialize_configs cd cs) = Inr cs"
  by (simp add: parse_configs_def serialize_configs_def parse_from_printed)

lemma load_sound: "load_session cd place file = Inr cs \<Longrightarrow> configs_sound ok cd cs"
  using parse_from_sound by (auto simp: load_session_def bind_store_Inr parse_configs_def)

lemma load_saved:
  "configs_sound ok cd cs \<Longrightarrow> sp_collection place \<noteq> ''version'' \<Longrightarrow>
    load_session cd place (Stored (store_root place (serialize_configs cd cs))) = Inr cs"
  by (simp add: load_session_def parse_serialized)

lemma update_rejected:
  "load_session cd place file = Inr cs \<Longrightarrow> mutation cs = Inl e \<Longrightarrow> update_configs cd place outcome mutation file = (Inl e, file)"
  by (auto simp: load_session_def bind_store_Inr update_configs_def store_update_def on_configs_def)

lemma update_unreadable:
  "load_session cd place file = Inl e \<Longrightarrow> update_configs cd place outcome mutation file = (Inl e, file)"
  by (auto simp: load_session_def bind_store_def update_configs_def store_update_def on_configs_def split: sum.splits)

text \<open>
  A mutation that keeps the descriptions sound is what the file holds afterwards, unless it could not be
  written; only a file that was written and synced is reported as success.
\<close>

lemma update_accepted:
  assumes "load_session cd place file = Inr cs" "mutation cs = Inr (cs', x)"
    "sp_collection place \<noteq> ''version''" "serialize_configs cd cs' = serialize_configs cd cs''" "configs_sound ok cd cs''"
  shows "fst (update_configs cd place outcome mutation file) = (if outcome = Written then Inr x else Inl (write_failed place))"
    and "load_session cd place (snd (update_configs cd place outcome mutation file)) = Inr (if outcome = Not_Written then cs else cs'')"
  using assms
  by (auto simp: load_session_def bind_store_Inr update_configs_def store_update_def on_configs_def store_save_def
      write_failed_def parse_serialized Let_def split: write_outcome.split)

end

section \<open>The steps on the descriptions\<close>

lemma registry_simps [simp]:
  "registry cd [] = Map.empty"
  "registry cd (c # cs) = (registry cd cs)(cd_key cd c \<mapsto> c)"
  by (simp_all add: registry_def)

lemma dom_registry: "dom (registry cd cs) = cd_key cd ` set cs"
  by (simp add: registry_def dom_map_of_conv_image_fst image_image)

lemma registry_append: "registry cd (cs @ ds) = registry cd ds ++ registry cd cs"
  by (simp add: registry_def)

lemma registry_snoc: "cd_key cd c \<notin> cd_key cd ` set cs \<Longrightarrow> registry cd (cs @ [c]) = (registry cd cs)(cd_key cd c \<mapsto> c)"
  using dom_registry [of cd cs] by (auto simp: registry_append map_add_def fun_eq_iff split: option.split)

lemma registry_filter: "registry cd (filter (\<lambda>c. cd_key cd c \<noteq> k) cs) = (registry cd cs)(k := None)"
  by (induction cs) auto

lemma find_registry: "List.find (\<lambda>c. cd_key cd c = k) cs = registry cd cs k"
  by (induction cs) auto

lemma list_ex_registry: "list_ex (\<lambda>c. cd_key cd c = k) cs \<longleftrightarrow> k \<in> dom (registry cd cs)"
  by (induction cs) auto

lemma find_named_registry:
  "find_named cd name k cs =
     (case registry cd cs k of None \<Rightarrow> Inl (store_not_found (cd_noun cd @ '' not found: '' @ name)) | Some c \<Rightarrow> Inr c)"
  by (simp add: find_named_def find_registry)

lemma sound_remove: "configs_sound ok cd cs \<Longrightarrow> configs_sound ok cd (filter P cs)"
  by (auto simp: configs_sound_def list_all_iff distinct_map_filter)

lemma sound_snoc: "configs_sound ok cd cs \<Longrightarrow> ok c \<Longrightarrow> cd_key cd c \<notin> dom (registry cd cs) \<Longrightarrow> configs_sound ok cd (cs @ [c])"
  by (auto simp: configs_sound_def dom_registry)

lemma append_all_Inr:
  "append_all cd cs new = Inr cs' \<longleftrightarrow>
     cs' = cs @ new \<and> distinct (map (cd_key cd) new) \<and> (\<forall>c\<in>set new. cd_key cd c \<notin> dom (registry cd cs))"
proof (induction new arbitrary: cs)
  case (Cons c new)
  show ?case
    by (auto simp: list_ex_registry Cons.IH registry_append dom_registry dest: image_eqI [where f = "cd_key cd", OF sym])
qed auto

text \<open>A replace keeps the names in order; the new descriptions win.\<close>

lemma by_name_fold:
  "omap_get (fold (\<lambda>c. omap_put (cd_key cd c) c) cs m) = omap_get m ++ registry cd (rev cs)"
  by (induction cs arbitrary: m) (simp_all add: registry_append map_add_def fun_eq_iff omap_get_put split: option.split)

lemma by_name_ok: "omap_ok m \<Longrightarrow> omap_ok (fold (\<lambda>c. omap_put (cd_key cd c) c) cs m)"
  by (induction cs arbitrary: m) (simp_all add: omap_ok_put)

lemma registry_rev: "distinct (map (cd_key cd) cs) \<Longrightarrow> registry cd (rev cs) = registry cd cs"
proof (induction cs)
  case (Cons c cs)
  then show ?case using dom_registry [of cd cs] by (auto simp: registry_append map_add_def fun_eq_iff split: option.split)
qed simp

lemma get_by_name:
  assumes "distinct (map (cd_key cd) cs)" "distinct (map (cd_key cd) new)"
  shows "omap_get (by_name cd (cs @ new)) = registry cd cs ++ registry cd new"
  using assms unfolding by_name_def by_name_fold rev_append registry_append by (simp add: registry_rev)

lemma in_by_name: "(k, c) \<in> set (by_name cd cs) \<Longrightarrow> cd_key cd c = k \<and> c \<in> set cs"
proof -
  assume "(k, c) \<in> set (by_name cd cs)"
  then have "omap_get (by_name cd cs) k = Some c"
    by (simp add: by_name_def omap_get_in by_name_ok)
  then have "registry cd (rev cs) k = Some c" by (simp add: by_name_def by_name_fold)
  then show ?thesis by (auto simp: registry_def dest: map_of_SomeD)
qed

lemma keys_replace_all: "map (cd_key cd) (replace_all cd cs new) = map fst (by_name cd (cs @ new))"
  by (auto simp: replace_all_def dest: in_by_name)

lemma sorted_replace_all: "sorted_wrt (<) (map (cd_key cd) (replace_all cd cs new))"
  unfolding keys_replace_all by_name_def omap_ok_def [symmetric] by (rule by_name_ok) simp

lemma registry_replace_all:
  assumes "distinct (map (cd_key cd) cs)" "distinct (map (cd_key cd) new)"
  shows "registry cd (replace_all cd cs new) = registry cd cs ++ registry cd new"
proof -
  have "map (\<lambda>c. (cd_key cd c, c)) (replace_all cd cs new) = by_name cd (cs @ new)"
    by (auto simp: replace_all_def dest: in_by_name intro!: map_idI)
  then show ?thesis using get_by_name [OF assms] by (simp add: registry_def)
qed

lemma sound_replace_all:
  assumes "configs_sound ok cd cs" "configs_sound ok cd new"
  shows "configs_sound ok cd (replace_all cd cs new)"
proof -
  have "distinct (map (cd_key cd) (replace_all cd cs new))"
    using sorted_replace_all strict_sorted_iff by blast
  moreover have "list_all ok (replace_all cd cs new)"
    using assms by (auto simp: configs_sound_def list_all_iff replace_all_def dest!: in_by_name)
  ultimately show ?thesis by (simp add: configs_sound_def)
qed

text \<open>What a load makes of a listing: an append fails on a name that is taken, a replace sorts the names.\<close>

definition listing_loaded :: "('c \<Rightarrow> string) \<Rightarrow> string \<Rightarrow> 'c list \<Rightarrow> (string, 'c) listing \<Rightarrow> (string, 'c) listing option" where
  "listing_loaded name_of mode new s =
     (let names = map name_of new; all = snd s ++ map_of (zip names new) in
      if mode = ''append'' then (if set names \<inter> dom (snd s) = {} then Some (fst s @ names, all) else None)
      else Some (sorted_list_of_set (set (fst s) \<union> set names), all))"

lemma registry_zip: "registry cd cs = map_of (zip (map (cd_key cd) cs) cs)"
  by (induction cs) simp_all

lemma listing_append_all:
  assumes "configs_sound ok cd cs" "configs_sound ok cd new"
  shows "case append_all cd cs new of
      Inl e \<Rightarrow> listing_loaded (cd_key cd) ''append'' new (listing_of cd cs) = None
    | Inr all \<Rightarrow> configs_sound ok cd all \<and> listing_loaded (cd_key cd) ''append'' new (listing_of cd cs) = Some (listing_of cd all)"
proof (cases "append_all cd cs new")
  case (Inl e)
  then have "\<not> (\<forall>c\<in>set new. cd_key cd c \<notin> dom (registry cd cs))"
    using append_all_Inr [of cd cs new "cs @ new"] assms(2) by (auto simp: configs_sound_def)
  with Inl show ?thesis by (auto simp: listing_loaded_def listing_of_def Let_def)
next
  case (Inr all)
  then have all: "all = cs @ new" "\<forall>c\<in>set new. cd_key cd c \<notin> dom (registry cd cs)"
    using append_all_Inr [of cd cs new all] by auto
  have "dom (registry cd new) \<inter> dom (registry cd cs) = {}"
    using all(2) by (auto simp: dom_registry)
  then have "registry cd all = registry cd cs ++ registry cd new"
    unfolding all(1) registry_append by (rule map_add_comm)
  moreover have "configs_sound ok cd all"
    using assms all by (auto simp: configs_sound_def dom_registry) (metis image_eqI)
  ultimately show ?thesis
    using all Inr by (auto simp: listing_loaded_def listing_of_def registry_zip [symmetric] Let_def)
qed

lemma listing_replace_all:
  assumes "configs_sound ok cd cs" "configs_sound ok cd new" "mode \<noteq> ''append''"
  shows "configs_sound ok cd (replace_all cd cs new) \<and>
    listing_loaded (cd_key cd) mode new (listing_of cd cs) = Some (listing_of cd (replace_all cd cs new))"
proof -
  let ?all = "replace_all cd cs new"
  have reg: "registry cd ?all = registry cd cs ++ registry cd new"
    using assms by (intro registry_replace_all) (simp_all add: configs_sound_def)
  have "cd_key cd ` set ?all = cd_key cd ` set cs \<union> cd_key cd ` set new"
    using arg_cong [OF reg, of dom] by (auto simp: dom_registry)
  then have "map (cd_key cd) ?all = sorted_list_of_set (set (map (cd_key cd) cs) \<union> set (map (cd_key cd) new))"
    using sorted_replace_all [of cd cs new]
    by (intro sorted_distinct_set_unique) (simp_all add: strict_sorted_iff)
  then show ?thesis
    using reg sound_replace_all [OF assms(1,2)] assms(3) by (simp add: listing_loaded_def listing_of_def registry_zip [symmetric] Let_def)
qed

lemma listing_load_all:
  assumes "configs_sound ok cd cs" "configs_sound ok cd new"
  shows "case load_all cd mode cs new of
      Inl e \<Rightarrow> listing_loaded (cd_key cd) mode new (listing_of cd cs) = None
    | Inr all \<Rightarrow> configs_sound ok cd all \<and> listing_loaded (cd_key cd) mode new (listing_of cd cs) = Some (listing_of cd all)"
proof (cases "mode = ''append''")
  case True
  show ?thesis unfolding True load_all_def using listing_append_all [OF assms] by simp
next
  case False
  then show ?thesis using listing_replace_all [OF assms False] by (simp add: load_all_def)
qed

section \<open>Changes of a listing\<close>

text \<open>How a mutation changes the listing of sound descriptions, as far as a file can show it.\<close>

definition relists ::
  "('c \<Rightarrow> bool) \<Rightarrow> ('c, 'k) codec \<Rightarrow> ('c list \<Rightarrow> store_error + 'c list \<times> 'x) \<Rightarrow> 'c list \<Rightarrow> (('k, 'c) listing \<times> 'x) option \<Rightarrow> bool" where
  "relists ok cd mutation cs change \<longleftrightarrow>
     (case mutation cs of
        Inl e \<Rightarrow> change = None
      | Inr (cs', x) \<Rightarrow> \<exists>cs''. serialize_configs cd cs' = serialize_configs cd cs'' \<and> configs_sound ok cd cs'' \<and>
          change = Some (listing_of cd cs'', x))"

lemma listing_sel: "(ns, m) = listing_of cd cs \<longleftrightarrow> ns = map (cd_key cd) cs \<and> m = registry cd cs"
  by (auto simp: listing_of_def)

lemma changes_append_new:
  assumes "configs_sound ok cd cs" "(ns, m) = listing_of cd cs"
    "ok c'" "cd_print cd c' = cd_print cd c" "cd_key cd c' = cd_key cd c"
  shows "relists ok cd (append_new cd name c) cs
    (if m (cd_key cd c) = None then Some ((ns @ [cd_key cd c], m(cd_key cd c \<mapsto> c')), ()) else None)"
proof (cases "registry cd cs (cd_key cd c)")
  case None
  then have new: "cd_key cd c' \<notin> dom (registry cd cs)" using assms(5) by auto
  show ?thesis
    using None sound_snoc [OF assms(1,3) new] new assms(2,4,5)
    by (auto simp: relists_def append_new_def list_ex_registry serialize_configs_def listing_of_def dom_registry registry_snoc
        intro!: exI [of _ "cs @ [c']"])
next
  case (Some old)
  then show ?thesis using assms(2) by (auto simp: relists_def append_new_def list_ex_registry listing_of_def)
qed

lemma changes_remove_named:
  assumes "configs_sound ok cd cs" "(ns, m) = listing_of cd cs"
  shows "relists ok cd (remove_named cd name k) cs (if m k = None then None else Some ((filter (\<lambda>n. n \<noteq> k) ns, m(k := None)), ()))"
  using sound_remove [OF assms(1), of "\<lambda>c. cd_key cd c \<noteq> k"] assms(2)
  by (auto simp: relists_def remove_named_def list_ex_registry listing_of_def registry_filter filter_map o_def)

context config_codec begin

text \<open>Updates of a file as changes of its listing.\<close>

lemma update_presents:
  assumes "presents cd place file s" and col: "sp_collection place \<noteq> ''version''"
    and mut: "\<And>cs. configs_sound ok cd cs \<Longrightarrow> s = listing_of cd cs \<Longrightarrow>
      relists ok cd mutation cs change"
  shows "answer_of (fst (update_configs cd place outcome mutation file)) = fst (written outcome change s) \<and>
    presents cd place (snd (update_configs cd place outcome mutation file)) (snd (written outcome change s))"
proof -
  obtain cs where load: "load_session cd place file = Inr cs" and s: "s = listing_of cd cs"
    using assms(1) by (auto simp: presents_def)
  note m = mut [OF load_sound [OF load] s]
  show ?thesis
  proof (cases "mutation cs")
    case (Inl e)
    then show ?thesis using m load s by (simp add: relists_def update_rejected written_def presents_def)
  next
    case (Inr r)
    obtain cs' x where r: "r = (cs', x)" by (cases r) blast
    with Inr m obtain cs'' where c: "serialize_configs cd cs' = serialize_configs cd cs''" "configs_sound ok cd cs''"
      "change = Some (listing_of cd cs'', x)" by (auto simp: relists_def)
    note u = update_accepted [where mutation = mutation, OF load Inr [unfolded r] col c(1,2)]
    show ?thesis unfolding presents_def u c(3) written_def by (auto simp: s)
  qed
qed

lemma presents_sound:
  assumes "presents cd place f (ns, m)"
  shows "distinct ns \<and> set ns = dom m"
proof -
  obtain cs where load: "load_session cd place f = Inr cs" and s: "ns = map (cd_key cd) cs" "m = registry cd cs"
    using assms by (auto simp: presents_def listing_sel)
  show ?thesis using load_sound [OF load] by (simp add: s configs_sound_def dom_registry)
qed

end

text \<open>What the questions about a file show of the listing.\<close>

lemma presents_missing: "presents cd place Missing ([], Map.empty)"
  by (simp add: presents_def listing_of_def load_session_def store_load_def parse_configs_def)

lemma get_named_presents:
  "presents cd place f (ns, m) \<Longrightarrow>
    get_named cd place name f = (case m name of None \<Rightarrow> Inl (store_not_found (cd_noun cd @ '' not found: '' @ name)) | Some c \<Rightarrow> Inr c)"
  by (auto simp: presents_def listing_of_def get_named_def find_named_registry)

lemma get_latest_presents:
  "presents cd place f (ns, m) \<Longrightarrow>
    get_latest cd place f = (if ns = [] then Inl (store_not_found (''no '' @ cd_noun cd @ ''s are loaded'')) else Inr (last ns))"
  unfolding presents_def listing_of_def get_latest_def latest_named_def prod.inject
  by (elim exE conjE, hypsubst) (simp add: last_map)

end
