(* ===== verification/Bus_Managers.thy ===== *)
theory Bus_Managers
  imports Apb_Config Config_Store
begin

text \<open>
  AXI descriptions, \<open>waveform/axi/axi_config.h\<close>, with their JSON form, and the managers that keep the
  descriptions of APB and AXI buses, \<open>waveform/apb/apb_manager.cpp\<close> and \<open>waveform/axi/axi_manager.cpp\<close>,
  which are the same but for the descriptions.  A file of descriptions behaves as a map from names, with
  the order in which they were made, whatever requests came before.
\<close>

section \<open>AXI descriptions\<close>

record axi_config =
  ax_name :: string
  ax_awaddr :: string
  ax_awid :: string
  ax_awlen :: string
  ax_awsize :: string
  ax_awburst :: string
  ax_awvalid :: string
  ax_awready :: string
  ax_wdata :: string
  ax_wstrb :: string
  ax_wlast :: string
  ax_wvalid :: string
  ax_wready :: string
  ax_bid :: string
  ax_bresp :: string
  ax_bvalid :: string
  ax_bready :: string
  ax_araddr :: string
  ax_arid :: string
  ax_arlen :: string
  ax_arsize :: string
  ax_arburst :: string
  ax_arvalid :: string
  ax_arready :: string
  ax_rid :: string
  ax_rdata :: string
  ax_rresp :: string
  ax_rlast :: string
  ax_rvalid :: string
  ax_rready :: string
  ax_clock_sample :: clock_spec
  ax_reset :: reset_config

definition axi_signal_fields :: "string list" where
  "axi_signal_fields =
     [''awaddr'', ''awid'', ''awlen'', ''awsize'', ''awburst'', ''awvalid'', ''awready'', ''wdata'', ''wstrb'',
     ''wlast'', ''wvalid'', ''wready'', ''bid'', ''bresp'', ''bvalid'', ''bready'', ''araddr'', ''arid'',
     ''arlen'', ''arsize'', ''arburst'', ''arvalid'', ''arready'', ''rid'', ''rdata'', ''rresp'', ''rlast'',
     ''rvalid'', ''rready'']"

definition axi_signals :: "axi_config \<Rightarrow> (string \<times> string) list" where
  "axi_signals c =
     [(''awaddr'', ax_awaddr c), (''awid'', ax_awid c), (''awlen'', ax_awlen c), (''awsize'', ax_awsize c),
     (''awburst'', ax_awburst c), (''awvalid'', ax_awvalid c), (''awready'', ax_awready c),
     (''wdata'', ax_wdata c), (''wstrb'', ax_wstrb c), (''wlast'', ax_wlast c), (''wvalid'', ax_wvalid c),
     (''wready'', ax_wready c), (''bid'', ax_bid c), (''bresp'', ax_bresp c), (''bvalid'', ax_bvalid c),
     (''bready'', ax_bready c), (''araddr'', ax_araddr c), (''arid'', ax_arid c), (''arlen'', ax_arlen c),
     (''arsize'', ax_arsize c), (''arburst'', ax_arburst c), (''arvalid'', ax_arvalid c),
     (''arready'', ax_arready c), (''rid'', ax_rid c), (''rdata'', ax_rdata c), (''rresp'', ax_rresp c),
     (''rlast'', ax_rlast c), (''rvalid'', ax_rvalid c), (''rready'', ax_rready c)]"

definition axi_members :: "axi_config \<Rightarrow> (string \<times> json) list" where
  "axi_members c =
     (''name'', JString (ax_name c)) # map (\<lambda>(field, s). (field, JString s)) (axi_signals c) @
     [(''clock'', JString (ck_clock (ax_clock_sample c))), (''reset'', reset_config_json (ax_reset c)),
      (''edge'', JString (clock_edge_kind_text (ck_edge (ax_clock_sample c))))] @
     sample_point_member (ax_clock_sample c)"

definition axi_to_json :: "axi_config \<Rightarrow> json" where
  "axi_to_json c = JObject (axi_members c)"

definition json_to_axi :: "json \<Rightarrow> string + axi_config" where
  "json_to_axi j =
     (case j of
        JObject item \<Rightarrow>
          let has = (\<lambda>key. map_of item key \<noteq> None);
              missing = (\<lambda>key. ''AXI config is missing field: '' @ key);
              blank = (\<lambda>key. ''AXI config field must be a non-empty string: '' @ key);
              first_bad = (\<lambda>bad report keys. case List.find bad keys of Some key \<Rightarrow> Inl (report key) | None \<Rightarrow> Inr ())
          in and_then (require (length item = 1 + length axi_signal_fields + 3 + (if has ''sample_point'' then 1 else 0))
                        ''AXI config contains unknown or missing fields'') (\<lambda>_.
             and_then (first_bad (\<lambda>key. \<not> has key) missing [''name'', ''clock'', ''reset'', ''edge'']) (\<lambda>_.
             and_then (first_bad (\<lambda>key. \<not> has key) missing axi_signal_fields) (\<lambda>_.
             and_then (first_bad (\<lambda>key. \<not> nonempty_string (map_of item key)) blank [''name'', ''clock'', ''edge'']) (\<lambda>_.
             and_then (first_bad (\<lambda>key. \<not> nonempty_string (map_of item key)) blank axi_signal_fields) (\<lambda>_.
             and_then (stored_reset ''AXI'' item) (\<lambda>reset.
             and_then (stored_clock ''AXI'' item) (\<lambda>spec.
             Inr \<lparr>ax_name = text_of item ''name'', ax_awaddr = text_of item ''awaddr'',
                  ax_awid = text_of item ''awid'', ax_awlen = text_of item ''awlen'',
                  ax_awsize = text_of item ''awsize'', ax_awburst = text_of item ''awburst'',
                  ax_awvalid = text_of item ''awvalid'', ax_awready = text_of item ''awready'',
                  ax_wdata = text_of item ''wdata'', ax_wstrb = text_of item ''wstrb'',
                  ax_wlast = text_of item ''wlast'', ax_wvalid = text_of item ''wvalid'',
                  ax_wready = text_of item ''wready'', ax_bid = text_of item ''bid'',
                  ax_bresp = text_of item ''bresp'', ax_bvalid = text_of item ''bvalid'',
                  ax_bready = text_of item ''bready'', ax_araddr = text_of item ''araddr'',
                  ax_arid = text_of item ''arid'', ax_arlen = text_of item ''arlen'',
                  ax_arsize = text_of item ''arsize'', ax_arburst = text_of item ''arburst'',
                  ax_arvalid = text_of item ''arvalid'', ax_arready = text_of item ''arready'',
                  ax_rid = text_of item ''rid'', ax_rdata = text_of item ''rdata'',
                  ax_rresp = text_of item ''rresp'', ax_rlast = text_of item ''rlast'',
                  ax_rvalid = text_of item ''rvalid'', ax_rready = text_of item ''rready'',
                  ax_clock_sample = spec, ax_reset = reset\<rparr>)))))))
      | _ \<Rightarrow> Inl ''AXI config must be an object'')"

definition axi_config_ok :: "axi_config \<Rightarrow> bool" where
  "axi_config_ok c \<longleftrightarrow> stored_clock_ok (ax_clock_sample c) \<and> reset_signal (ax_reset c) \<noteq> [] \<and> ax_name c \<noteq> [] \<and>
     list_all (\<lambda>p. snd p \<noteq> []) (axi_signals c)"

section \<open>The trip of AXI descriptions through JSON\<close>

lemma axi_member_keys:
  "map fst (axi_members c) = ''name'' # axi_signal_fields @ [''clock'', ''reset'', ''edge''] @
     (if ck_edge (ax_clock_sample c) \<noteq> Negedge then [''sample_point''] else [])"
  by (simp add: axi_members_def axi_signals_def axi_signal_fields_def sample_point_member_def)

lemma axi_field_names_distinct: "distinct (''name'' # axi_signal_fields @ [''clock'', ''reset'', ''edge'', ''sample_point''])"
  by code_simp

lemma axi_members_distinct: "distinct (map fst (axi_members c))"
  using axi_field_names_distinct unfolding axi_member_keys by (auto split: if_splits)

lemma axi_lookup: "(key, v) \<in> set (axi_members c) \<Longrightarrow> map_of (axi_members c) key = Some v"
  by (simp add: axi_members_distinct)

lemma axi_signal_text: "(key, s) \<in> set (axi_signals c) \<Longrightarrow> map_of (axi_members c) key = Some (JString s)"
  by (rule axi_lookup) (force simp: axi_members_def)

lemma axi_lookups:
  "map_of (axi_members c) ''name'' = Some (JString (ax_name c))"
  "map_of (axi_members c) ''clock'' = Some (JString (ck_clock (ax_clock_sample c)))"
  "map_of (axi_members c) ''reset'' = Some (reset_config_json (ax_reset c))"
  "map_of (axi_members c) ''edge'' = Some (JString (clock_edge_kind_text (ck_edge (ax_clock_sample c))))"
  by (rule axi_lookup, simp add: axi_members_def)+

lemma axi_point_lookup:
  "map_of (axi_members c) ''sample_point'' = (if ck_edge (ax_clock_sample c) \<noteq> Negedge
     then Some (JString (clock_sample_point_text (ck_point (ax_clock_sample c)))) else None)"
proof (cases "ck_edge (ax_clock_sample c) = Negedge")
  case True
  have "''sample_point'' \<notin> fst ` set (axi_members c)"
    using True axi_field_names_distinct unfolding set_map [symmetric] axi_member_keys by simp
  with True show ?thesis by (simp add: map_of_eq_None_iff)
next
  case False
  then have "(''sample_point'', JString (clock_sample_point_text (ck_point (ax_clock_sample c)))) \<in> set (axi_members c)"
    by (simp add: axi_members_def sample_point_member_def)
  with False show ?thesis by (simp add: axi_lookup)
qed

lemma axi_texts:
  "text_of (axi_members c) ''name'' = ax_name c"
  "text_of (axi_members c) ''awaddr'' = ax_awaddr c"
  "text_of (axi_members c) ''awid'' = ax_awid c"
  "text_of (axi_members c) ''awlen'' = ax_awlen c"
  "text_of (axi_members c) ''awsize'' = ax_awsize c"
  "text_of (axi_members c) ''awburst'' = ax_awburst c"
  "text_of (axi_members c) ''awvalid'' = ax_awvalid c"
  "text_of (axi_members c) ''awready'' = ax_awready c"
  "text_of (axi_members c) ''wdata'' = ax_wdata c"
  "text_of (axi_members c) ''wstrb'' = ax_wstrb c"
  "text_of (axi_members c) ''wlast'' = ax_wlast c"
  "text_of (axi_members c) ''wvalid'' = ax_wvalid c"
  "text_of (axi_members c) ''wready'' = ax_wready c"
  "text_of (axi_members c) ''bid'' = ax_bid c"
  "text_of (axi_members c) ''bresp'' = ax_bresp c"
  "text_of (axi_members c) ''bvalid'' = ax_bvalid c"
  "text_of (axi_members c) ''bready'' = ax_bready c"
  "text_of (axi_members c) ''araddr'' = ax_araddr c"
  "text_of (axi_members c) ''arid'' = ax_arid c"
  "text_of (axi_members c) ''arlen'' = ax_arlen c"
  "text_of (axi_members c) ''arsize'' = ax_arsize c"
  "text_of (axi_members c) ''arburst'' = ax_arburst c"
  "text_of (axi_members c) ''arvalid'' = ax_arvalid c"
  "text_of (axi_members c) ''arready'' = ax_arready c"
  "text_of (axi_members c) ''rid'' = ax_rid c"
  "text_of (axi_members c) ''rdata'' = ax_rdata c"
  "text_of (axi_members c) ''rresp'' = ax_rresp c"
  "text_of (axi_members c) ''rlast'' = ax_rlast c"
  "text_of (axi_members c) ''rvalid'' = ax_rvalid c"
  "text_of (axi_members c) ''rready'' = ax_rready c"
  by (simp_all add: text_of_def axi_lookups axi_signal_text axi_signals_def)

lemma axi_member_count:
  "length (axi_members c) = 1 + length axi_signal_fields + 3 + (if map_of (axi_members c) ''sample_point'' \<noteq> None then 1 else 0)"
  by (simp add: axi_point_lookup axi_members_def axi_signals_def axi_signal_fields_def sample_point_member_def)

lemma axi_signal_names: "key \<in> set axi_signal_fields \<Longrightarrow> \<exists>s. (key, s) \<in> set (axi_signals c)"
proof -
  assume "key \<in> set axi_signal_fields"
  moreover have "map fst (axi_signals c) = axi_signal_fields" by (simp add: axi_signal_fields_def axi_signals_def)
  ultimately have "key \<in> fst ` set (axi_signals c)" by (simp only: set_map [symmetric])
  then show ?thesis by auto
qed

lemma axi_json_roundtrip:
  assumes "axi_config_ok c"
  shows "json_to_axi (axi_to_json c) = Inr c"
proof -
  have clock: "stored_clock ''AXI'' (axi_members c) = Inr (ax_clock_sample c)"
    using assms by (intro stored_clock_members) (simp_all add: axi_lookups axi_point_lookup axi_config_ok_def)
  have reset: "stored_reset ''AXI'' (axi_members c) = Inr (ax_reset c)"
    using assms by (intro stored_reset_members) (simp_all add: axi_lookups axi_config_ok_def)
  have signals: "nonempty_string (map_of (axi_members c) key) \<and> map_of (axi_members c) key \<noteq> None"
    if known: "key \<in> set axi_signal_fields" for key
  proof -
    obtain s where "(key, s) \<in> set (axi_signals c)" using axi_signal_names [OF known] by blast
    then show ?thesis using assms by (auto simp: axi_signal_text nonempty_string_def axi_config_ok_def list_all_iff)
  qed
  show ?thesis
    unfolding json_to_axi_def axi_to_json_def json.case Let_def and_then_Inr find_step require_Inr clock reset axi_texts
    using assms signals axi_member_count [of c]
    by (simp add: axi_lookups nonempty_string_def axi_config_ok_def stored_clock_ok_def texts_nonempty)
qed

lemma json_to_axi_ok:
  assumes "json_to_axi j = Inr c"
  shows "axi_config_ok c"
proof -
  obtain item where j: "j = JObject item" using assms by (cases j) (auto simp: json_to_axi_def)
  have filled: "\<forall>key\<in>set [''name'', ''clock'', ''edge'']. nonempty_string (map_of item key)"
      "\<forall>key\<in>set axi_signal_fields. nonempty_string (map_of item key)"
    using assms unfolding j json_to_axi_def json.case Let_def and_then_Inr find_step not_not by blast+
  have texts: "text_of item key \<noteq> []" if "key \<in> {''name'', ''clock'', ''edge''} \<union> set axi_signal_fields" for key
    using that filled by (auto intro!: nonempty_text)
  have parts: "stored_reset ''AXI'' item = Inr (ax_reset c)" "stored_clock ''AXI'' item = Inr (ax_clock_sample c)"
      "ax_name c = text_of item ''name''"
    and signals: "axi_signals c = map (\<lambda>f. (f, text_of item f)) axi_signal_fields"
    using assms unfolding j json_to_axi_def json.case Let_def and_then_Inr
    by (auto simp: axi_signals_def axi_signal_fields_def)
  show ?thesis
    using texts parts(1) stored_clock_fields [OF parts(2)] parse_reset_ok
    by (simp add: axi_config_ok_def parts(3) signals stored_reset_def list_all_iff)
qed

section \<open>Printing what was read\<close>

text \<open>A description that is read back from its own printed form is printed the same way again.\<close>

lemma stored_clock_back:
  assumes "stored_clock kind item = Inr spec"
    "map_of item ''clock'' = Some (JString (ck_clock s))" "map_of item ''edge'' = Some (JString (clock_edge_kind_text (ck_edge s)))"
    "map_of item ''sample_point'' = (if ck_edge s \<noteq> Negedge then Some (JString (clock_sample_point_text (ck_point s))) else None)"
  shows "ck_clock spec = ck_clock s \<and> ck_edge spec = ck_edge s \<and> sample_point_member spec = sample_point_member s"
  using assms
  by (auto simp: stored_clock_def text_of_def parse_edge_text parse_point_text default_clock_spec_def sample_point_member_def
      and_then_Inr split: if_splits)

lemma reset_back: "parse_reset_config (reset_config_json rc) = Inr r \<Longrightarrow> r = rc"
proof (cases "reset_signal rc = []")
  case True
  moreover assume "parse_reset_config (reset_config_json rc) = Inr r"
  ultimately show ?thesis by (simp add: parse_reset_config_def reset_config_json_def)
qed (simp add: parse_reset_json)

lemma stored_reset_back:
  "stored_reset kind item = Inr r \<Longrightarrow> map_of item ''reset'' = Some (reset_config_json rc) \<Longrightarrow> r = rc"
  by (simp add: stored_reset_def reset_back)

lemma axi_print_read:
  assumes "json_to_axi (axi_to_json c) = Inr c'"
  shows "axi_to_json c' = axi_to_json c \<and> ax_name c' = ax_name c"
proof -
  have parts: "stored_reset ''AXI'' (axi_members c) = Inr (ax_reset c')" "stored_clock ''AXI'' (axi_members c) = Inr (ax_clock_sample c')"
    and names: "ax_name c' = ax_name c" "axi_signals c' = axi_signals c"
    using assms unfolding axi_to_json_def json_to_axi_def json.case Let_def and_then_Inr axi_texts
    by (auto simp: axi_signals_def)
  have clock: "ck_clock (ax_clock_sample c') = ck_clock (ax_clock_sample c) \<and> ck_edge (ax_clock_sample c') = ck_edge (ax_clock_sample c) \<and>
      sample_point_member (ax_clock_sample c') = sample_point_member (ax_clock_sample c)"
    by (rule stored_clock_back [OF parts(2)]) (simp_all add: axi_lookups axi_point_lookup)
  have reset: "ax_reset c' = ax_reset c"
    by (rule stored_reset_back [OF parts(1)]) (simp add: axi_lookups axi_point_lookup)
  show ?thesis
    using clock reset names by (simp add: axi_to_json_def axi_members_def)
qed

lemma apb_print_read:
  assumes "json_to_apb (apb_to_json c) = Inr c'"
  shows "apb_to_json c' = apb_to_json c \<and> ac_name c' = ac_name c"
proof -
  have parts: "stored_reset ''APB'' (apb_members c) = Inr (ac_reset c')" "stored_clock ''APB'' (apb_members c) = Inr (ac_clock_sample c')"
    using assms unfolding apb_to_json_def json_to_apb_def json.case Let_def and_then_Inr by auto
  have names: "ac_name c' = ac_name c" "ac_paddr c' = ac_paddr c" "ac_pwdata c' = ac_pwdata c" "ac_prdata c' = ac_prdata c"
      "ac_pwrite c' = ac_pwrite c" "ac_penable c' = ac_penable c" "ac_psel c' = ac_psel c"
      "ac_pready c' = ac_pready c" "ac_pslverr c' = ac_pslverr c"
    using assms unfolding apb_to_json_def json_to_apb_def json.case Let_def and_then_Inr
    by (auto simp: text_of_def apb_lookups)
  have clock: "ck_clock (ac_clock_sample c') = ck_clock (ac_clock_sample c) \<and> ck_edge (ac_clock_sample c') = ck_edge (ac_clock_sample c) \<and>
      sample_point_member (ac_clock_sample c') = sample_point_member (ac_clock_sample c)"
    by (rule stored_clock_back [OF parts(2)]) (simp_all add: apb_lookups)
  have reset: "ac_reset c' = ac_reset c"
    by (rule stored_reset_back [OF parts(1)]) (simp add: apb_lookups)
  show ?thesis
    using clock reset names by (simp add: apb_to_json_def apb_members_def)
qed

section \<open>The managers\<close>

definition apb_codec :: "(apb_config, string) codec" where
  "apb_codec = named_codec ''APB configs'' ''APB config'' json_to_apb apb_to_json ac_name"

definition axi_codec :: "(axi_config, string) codec" where
  "axi_codec = named_codec ''AXI configs'' ''AXI config'' json_to_axi axi_to_json ax_name"

definition configs_store :: "string \<Rightarrow> store_place" where
  "configs_store path = \<lparr>sp_path = path, sp_collection = ''configs''\<rparr>"

text \<open>\<open>read\<close> validates the printed form; \<open>dir\<close> says whether the directory of the session could be created.\<close>

definition create_bus ::
  "('c, string) codec \<Rightarrow> string \<Rightarrow> (json \<Rightarrow> string + 'c) \<Rightarrow> store_place \<Rightarrow> bool \<Rightarrow> write_outcome \<Rightarrow> 'c \<Rightarrow> store_file
   \<Rightarrow> (store_error + unit) \<times> store_file" where
  "create_bus cd kind read place dir outcome config file =
     (case read (cd_print cd config) of
        Inl error \<Rightarrow> (Inl (store_invalid (''cannot persist invalid '' @ cd_noun cd @ '': '' @ error)), file)
      | Inr _ \<Rightarrow>
          if \<not> dir then (Inl (directory_error kind), file)
          else update_configs cd place outcome (append_new cd (cd_key cd config) config) file)"

definition create_apb :: "string \<Rightarrow> bool \<Rightarrow> write_outcome \<Rightarrow> apb_config \<Rightarrow> store_file \<Rightarrow> (store_error + unit) \<times> store_file" where
  "create_apb path dir outcome config file = create_bus apb_codec ''APB'' json_to_apb (configs_store path) dir outcome config file"

definition delete_apb :: "string \<Rightarrow> write_outcome \<Rightarrow> string \<Rightarrow> store_file \<Rightarrow> (store_error + unit) \<times> store_file" where
  "delete_apb path outcome name file = delete_named apb_codec (configs_store path) outcome name file"

definition get_apb :: "string \<Rightarrow> string \<Rightarrow> store_file \<Rightarrow> store_error + apb_config" where
  "get_apb path name file = get_named apb_codec (configs_store path) name file"

definition get_latest_apb :: "string \<Rightarrow> store_file \<Rightarrow> store_error + string" where
  "get_latest_apb path file = get_latest apb_codec (configs_store path) file"

definition create_axi :: "string \<Rightarrow> bool \<Rightarrow> write_outcome \<Rightarrow> axi_config \<Rightarrow> store_file \<Rightarrow> (store_error + unit) \<times> store_file" where
  "create_axi path dir outcome config file = create_bus axi_codec ''AXI'' json_to_axi (configs_store path) dir outcome config file"

definition delete_axi :: "string \<Rightarrow> write_outcome \<Rightarrow> string \<Rightarrow> store_file \<Rightarrow> (store_error + unit) \<times> store_file" where
  "delete_axi path outcome name file = delete_named axi_codec (configs_store path) outcome name file"

definition get_axi :: "string \<Rightarrow> string \<Rightarrow> store_file \<Rightarrow> store_error + axi_config" where
  "get_axi path name file = get_named axi_codec (configs_store path) name file"

definition get_latest_axi :: "string \<Rightarrow> store_file \<Rightarrow> store_error + string" where
  "get_latest_axi path file = get_latest axi_codec (configs_store path) file"

definition list_all_apb :: "string \<Rightarrow> store_file \<Rightarrow> store_error + apb_config list" where
  "list_all_apb path file = load_session apb_codec (configs_store path) file"

definition list_all_axi :: "string \<Rightarrow> store_file \<Rightarrow> store_error + axi_config list" where
  "list_all_axi path file = load_session axi_codec (configs_store path) file"

lemma codec_parts:
  "cd_key apb_codec = ac_name" "cd_print apb_codec = apb_to_json" "cd_noun apb_codec = ''APB config''"
  "cd_key axi_codec = ax_name" "cd_print axi_codec = axi_to_json" "cd_noun axi_codec = ''AXI config''"
  by (simp_all add: apb_codec_def axi_codec_def)

interpretation apb_store: config_codec apb_codec apb_config_ok
  by unfold_locales (simp_all add: apb_codec_def json_to_apb_ok apb_json_roundtrip)

interpretation axi_store: config_codec axi_codec axi_config_ok
  by unfold_locales (simp_all add: axi_codec_def json_to_axi_ok axi_json_roundtrip)

section \<open>Requests\<close>

datatype 'c bus_request = Create_Config bool write_outcome 'c | Delete_Config write_outcome string

fun bus_step ::
  "('c, string) codec \<Rightarrow> string \<Rightarrow> (json \<Rightarrow> string + 'c) \<Rightarrow> string \<Rightarrow> 'c bus_request \<Rightarrow> store_file \<Rightarrow> (store_error + unit) \<times> store_file" where
  "bus_step cd kind read path (Create_Config dir outcome c) file = create_bus cd kind read (configs_store path) dir outcome c file"
| "bus_step cd kind read path (Delete_Config outcome name) file = delete_named cd (configs_store path) outcome name file"

text \<open>
  What the requests mean: a description that reads back (as \<open>c'\<close>) is added under its name if the name is
  free and the directory there; a name that is there is removed.
\<close>

fun bus_spec :: "('c \<Rightarrow> string) \<Rightarrow> ('c \<Rightarrow> string + 'c) \<Rightarrow> 'c bus_request \<Rightarrow> (string, 'c) listing \<Rightarrow> unit option \<times> (string, 'c) listing" where
  "bus_spec name_of check (Create_Config dir outcome c) (ns, m) =
     written outcome
       (case check c of
          Inr c' \<Rightarrow> if dir \<and> m (name_of c) = None then Some ((ns @ [name_of c], m(name_of c \<mapsto> c')), ()) else None
        | Inl _ \<Rightarrow> None) (ns, m)"
| "bus_spec name_of check (Delete_Config outcome name) (ns, m) =
     written outcome (if m name = None then None else Some ((filter (\<lambda>n. n \<noteq> name) ns, m(name := None)), ())) (ns, m)"

text \<open>
  A manager of buses: the validation is the reader of the items, and a description that reads back from
  its printed form is printed the same way again.
\<close>

locale bus_manager = config_codec cd ok for cd :: "('c, string) codec" and ok +
  fixes kind :: string and read :: "json \<Rightarrow> string + 'c"
  assumes read_item: "cd_read cd i j = Inr c \<longleftrightarrow> read j = Inr c"
    and print_read: "read (cd_print cd c) = Inr c' \<Longrightarrow> cd_print cd c' = cd_print cd c \<and> cd_key cd c' = cd_key cd c"
begin

lemma step_simulates:
  assumes "presents cd (configs_store path) f s"
  shows "answer_of (fst (bus_step cd kind read path r f)) = fst (bus_spec (cd_key cd) (\<lambda>c. read (cd_print cd c)) r s) \<and>
    presents cd (configs_store path) (snd (bus_step cd kind read path r f)) (snd (bus_spec (cd_key cd) (\<lambda>c. read (cd_print cd c)) r s))"
proof -
  obtain ns m where s: "s = (ns, m)" by fastforce
  have col: "sp_collection (configs_store path) \<noteq> ''version''" by (simp add: configs_store_def)
  show ?thesis
  proof (cases r)
    case (Delete_Config outcome name)
    show ?thesis
      unfolding s Delete_Config bus_step.simps bus_spec.simps delete_named_def
      by (rule update_presents [OF assms [unfolded s] col]) (rule changes_remove_named)
  next
    case (Create_Config dir outcome c)
    show ?thesis
    proof (cases "read (cd_print cd c)")
      case (Inl e)
      then show ?thesis using assms by (simp add: s Create_Config create_bus_def written_def)
    next
      case (Inr c')
      have c': "ok c'" "cd_print cd c' = cd_print cd c" "cd_key cd c' = cd_key cd c"
        using Inr read_item read_ok print_read [OF Inr] by blast+
      let ?change = "if m (cd_key cd c) = None then Some ((ns @ [cd_key cd c], m(cd_key cd c \<mapsto> c')), ()) else None"
      show ?thesis
      proof (cases dir)
        case False
        then show ?thesis using assms Inr by (simp add: s Create_Config create_bus_def written_def)
      next
        case True
        have u: "answer_of (fst (update_configs cd (configs_store path) outcome (append_new cd (cd_key cd c) c) f)) = fst (written outcome ?change (ns, m)) \<and>
            presents cd (configs_store path) (snd (update_configs cd (configs_store path) outcome (append_new cd (cd_key cd c) c) f))
              (snd (written outcome ?change (ns, m)))"
          by (rule update_presents [OF assms [unfolded s] col]) (erule (1) changes_append_new; rule c')
        show ?thesis
          using u True by (simp only: s Create_Config bus_step.simps bus_spec.simps create_bus_def Inr sum.case simp_thms if_False)
      qed
    qed
  qed
qed

sublocale runs: manager_refinement "bus_step cd kind read path" "bus_spec (cd_key cd) (\<lambda>c. read (cd_print cd c))"
    "presents cd (configs_store path)" "([], Map.empty)" for path
  by unfold_locales (rule presents_missing, rule step_simulates)

lemma run_listing:
  assumes "run_requests (bus_step cd kind read path) reqs Missing = (success, f)"
    "run_spec (bus_spec (cd_key cd) (\<lambda>c. read (cd_print cd c))) reqs ([], Map.empty) = (allowed, ns, m)"
  shows "success = allowed \<and> distinct ns \<and> set ns = dom m \<and>
    get_named cd (configs_store path) name f =
      (case m name of None \<Rightarrow> Inl (store_not_found (cd_noun cd @ '' not found: '' @ name)) | Some c \<Rightarrow> Inr c) \<and>
    get_latest cd (configs_store path) f = (if ns = [] then Inl (store_not_found (''no '' @ cd_noun cd @ ''s are loaded'')) else Inr (last ns))"
proof -
  have "success = allowed" and p: "presents cd (configs_store path) f (ns, m)"
    using runs.run_from_start [of path reqs] assms by auto
  then show ?thesis
    using presents_sound [OF p] get_named_presents [OF p] get_latest_presents [OF p] by simp
qed

end

interpretation apb_manager: bus_manager apb_codec apb_config_ok "''APB''" json_to_apb
  by unfold_locales (simp_all add: apb_codec_def apb_print_read)

interpretation axi_manager: bus_manager axi_codec axi_config_ok "''AXI''" json_to_axi
  by unfold_locales (simp_all add: axi_codec_def axi_print_read)

fun apb_step :: "string \<Rightarrow> apb_config bus_request \<Rightarrow> store_file \<Rightarrow> (store_error + unit) \<times> store_file" where
  "apb_step path (Create_Config dir outcome c) file = create_apb path dir outcome c file"
| "apb_step path (Delete_Config outcome name) file = delete_apb path outcome name file"

fun axi_step :: "string \<Rightarrow> axi_config bus_request \<Rightarrow> store_file \<Rightarrow> (store_error + unit) \<times> store_file" where
  "axi_step path (Create_Config dir outcome c) file = create_axi path dir outcome c file"
| "axi_step path (Delete_Config outcome name) file = delete_axi path outcome name file"

lemma apb_step_bus: "apb_step path = bus_step apb_codec ''APB'' json_to_apb path"
proof (intro ext)
  show "apb_step path r f = bus_step apb_codec ''APB'' json_to_apb path r f" for r f
    by (cases r) (simp_all add: create_apb_def delete_apb_def)
qed

lemma axi_step_bus: "axi_step path = bus_step axi_codec ''AXI'' json_to_axi path"
proof (intro ext)
  show "axi_step path r f = bus_step axi_codec ''AXI'' json_to_axi path r f" for r f
    by (cases r) (simp_all add: create_axi_def delete_axi_def)
qed


end
