(* ===== verification/Event_Manager.thy ===== *)
theory Event_Manager
  imports Bus_Managers
begin

text \<open>
  Descriptions of events, \<open>waveform/event/event_config.h\<close>, with their JSON form, and their manager
  \<open>waveform/event/event_manager.cpp\<close>.  Unlike the other descriptions they belong to a waveform file, and
  creating one replaces the one of the same file and name.  The file of descriptions behaves as a map from
  pairs of waveform and name, whatever requests came before.
\<close>

record event_field =
  ef_signal :: string
  ef_left :: int
  ef_right :: int

record event_config =
  ev_name :: string
  ev_clock_sample :: clock_spec
  ev_has_reset :: bool
  ev_reset :: reset_config
  ev_signals :: "(string, string) omap"
  ev_fields :: "(string, event_field) omap"

section \<open>The JSON form\<close>

definition field_to_json :: "event_field \<Rightarrow> json" where
  "field_to_json e = JObject [(''signal'', JString (ef_signal e)), (''left'', JInt (ef_left e)), (''right'', JInt (ef_right e))]"

definition event_members :: "string \<Rightarrow> event_config \<Rightarrow> (string \<times> json) list" where
  "event_members fsdb_file c =
     [(''fsdb_file'', JString fsdb_file), (''name'', JString (ev_name c)), (''clock'', JString (ck_clock (ev_clock_sample c))),
      (''edge'', JString (clock_edge_kind_text (ck_edge (ev_clock_sample c)))),
      (''signals'', fields_object (ev_signals c)),
      (''fields'', JObject (map (\<lambda>(k, e). (k, field_to_json e)) (ev_fields c)))] @
     (if ev_has_reset c then [(''reset'', reset_config_json (ev_reset c))] else []) @
     (if ck_has_point (ev_clock_sample c)
      then [(''sample_point'', JString (clock_sample_point_text (ck_point (ev_clock_sample c))))] else [])"

definition config_to_json :: "string \<Rightarrow> event_config \<Rightarrow> json" where
  "config_to_json fsdb_file c = JObject (event_members fsdb_file c)"

definition parse_nonnegative_int :: "json option \<Rightarrow> int option" where
  "parse_nonnegative_int v = (case v of Some (JInt n) \<Rightarrow> (if n < 0 \<or> n > 2147483647 then None else Some n) | _ \<Rightarrow> None)"

fun read_event_signals :: "(string \<times> json) list \<Rightarrow> (string, string) omap \<Rightarrow> string + (string, string) omap" where
  "read_event_signals [] m = Inr m"
| "read_event_signals ((k, v) # ms) m =
     (let bad = Inl ''event signal aliases and paths must be non-empty strings'' in
      case v of
        JString path \<Rightarrow> if k = [] \<or> path = [] then bad else read_event_signals ms (omap_put k path m)
      | _ \<Rightarrow> bad)"

definition read_event_field :: "(string, string) omap \<Rightarrow> string \<Rightarrow> json \<Rightarrow> string + event_field" where
  "read_event_field sigs k v =
     (let bad = Inl ''event field entries must match signal/left/right'' in
      case v of
        JObject item \<Rightarrow>
          if k = [] \<or> length item \<noteq> 3 \<or> \<not> nonempty_string (map_of item ''signal'') \<or>
             map_of item ''left'' = None \<or> map_of item ''right'' = None then bad
          else (case (parse_nonnegative_int (map_of item ''left''), parse_nonnegative_int (map_of item ''right'')) of
                  (Some l, Some r) \<Rightarrow>
                    if omap_get sigs (text_of item ''signal'') = None
                    then Inl (''event field references unknown signal alias: '' @ text_of item ''signal'')
                    else Inr \<lparr>ef_signal = text_of item ''signal'', ef_left = l, ef_right = r\<rparr>
                | _ \<Rightarrow> Inl ''event field left/right must be non-negative integers'')
      | _ \<Rightarrow> bad)"

fun read_event_fields ::
  "(string, string) omap \<Rightarrow> (string \<times> json) list \<Rightarrow> (string, event_field) omap \<Rightarrow> string + (string, event_field) omap" where
  "read_event_fields sigs [] m = Inr m"
| "read_event_fields sigs ((k, v) # ms) m =
     and_then (read_event_field sigs k v) (\<lambda>e. read_event_fields sigs ms (omap_put k e m))"

definition event_clock :: "(string \<times> json) list \<Rightarrow> string + clock_spec" where
  "event_clock item =
     and_then (with_prefix ''event edge is invalid: '' (parse_clock_edge_kind (text_of item ''edge''))) (\<lambda>edge.
     let spec = default_clock_spec\<lparr>ck_clock := text_of item ''clock'', ck_edge := edge\<rparr> in
     case map_of item ''sample_point'' of
       None \<Rightarrow> Inr (spec\<lparr>ck_has_point := False\<rparr>)
     | Some (JString text) \<Rightarrow>
         and_then (with_prefix ''event sample_point is invalid: '' (parse_clock_sample_point_kind text)) (\<lambda>point.
         Inr (spec\<lparr>ck_has_point := True, ck_point := point\<rparr>))
     | Some _ \<Rightarrow> Inl ''event sample_point must be before or after'')"

definition json_to_config :: "json \<Rightarrow> string + string \<times> event_config" where
  "json_to_config j =
     (case j of
        JObject item \<Rightarrow>
          let has = (\<lambda>key. map_of item key \<noteq> None);
              optional = (\<lambda>key. if has key then 1 else 0)
          in and_then (require (length item = 6 + optional ''reset'' + optional ''sample_point'')
                        ''event config contains unknown or missing fields'') (\<lambda>_.
             and_then (case List.find (\<lambda>key. \<not> has key) [''fsdb_file'', ''name'', ''clock'', ''edge'', ''signals'', ''fields''] of
                         Some key \<Rightarrow> Inl (''event config is missing field: '' @ key) | None \<Rightarrow> Inr ()) (\<lambda>_.
             and_then (case List.find (\<lambda>key. \<not> nonempty_string (map_of item key)) [''fsdb_file'', ''name'', ''clock'', ''edge''] of
                         Some key \<Rightarrow> Inl (''event config field must be a non-empty string: '' @ key) | None \<Rightarrow> Inr ()) (\<lambda>_.
             and_then (case map_of item ''signals'' of
                         Some (JObject (s # ss)) \<Rightarrow> Inr (s # ss)
                       | _ \<Rightarrow> Inl ''event signals must be a non-empty object'') (\<lambda>sigs.
             and_then (case map_of item ''fields'' of
                         Some (JObject fs) \<Rightarrow> Inr fs | _ \<Rightarrow> Inl ''event fields must be an object'') (\<lambda>fields.
             and_then (if has ''reset'' then stored_reset ''event'' item else Inr default_reset) (\<lambda>reset.
             and_then (event_clock item) (\<lambda>spec.
             and_then (read_event_signals sigs []) (\<lambda>signals.
             and_then (read_event_fields signals fields []) (\<lambda>fs.
             Inr (text_of item ''fsdb_file'',
               \<lparr>ev_name = text_of item ''name'', ev_clock_sample = spec, ev_has_reset = has ''reset'', ev_reset = reset,
                ev_signals = signals, ev_fields = fs\<rparr>))))))))))
      | _ \<Rightarrow> Inl ''event config must be an object'')"

section \<open>The manager\<close>

type_synonym stored_event = "string \<times> event_config"

definition event_codec :: "(stored_event, string \<times> string) codec" where
  "event_codec =
     \<lparr>cd_read = (\<lambda>index item. with_prefix (''events['' @ dec_digits index @ '']: '') (json_to_config item)),
      cd_print = (\<lambda>(fsdb_file, c). config_to_json fsdb_file c), cd_key = (\<lambda>(fsdb_file, c). (fsdb_file, ev_name c)),
      cd_duplicate = (\<lambda>(fsdb_file, c). ''duplicate event config identity: '' @ fsdb_file @ ''#'' @ ev_name c),
      cd_noun = ''event config''\<rparr>"

definition events_store :: "string \<Rightarrow> store_place" where
  "events_store path = \<lparr>sp_path = path, sp_collection = ''events''\<rparr>"

definition replace_event :: "stored_event \<Rightarrow> stored_event list \<Rightarrow> store_error + stored_event list \<times> unit" where
  "replace_event e es = Inr (filter (\<lambda>old. cd_key event_codec old \<noteq> cd_key event_codec e) es @ [e], ())"

definition create_event ::
  "string \<Rightarrow> bool \<Rightarrow> write_outcome \<Rightarrow> string \<Rightarrow> event_config \<Rightarrow> store_file \<Rightarrow> (store_error + unit) \<times> store_file" where
  "create_event path dir outcome fsdb_file config file =
     (case json_to_config (config_to_json fsdb_file config) of
        Inl error \<Rightarrow> (Inl (store_invalid (''cannot persist invalid event config: '' @ error)), file)
      | Inr _ \<Rightarrow>
          if \<not> dir then (Inl (directory_error ''event''), file)
          else update_configs event_codec (events_store path) outcome (replace_event (fsdb_file, config)) file)"

definition delete_event :: "string \<Rightarrow> write_outcome \<Rightarrow> string \<Rightarrow> string \<Rightarrow> store_file \<Rightarrow> (store_error + unit) \<times> store_file" where
  "delete_event path outcome fsdb_file name file =
     update_configs event_codec (events_store path) outcome (remove_named event_codec name (fsdb_file, name)) file"

definition get_event :: "string \<Rightarrow> string \<Rightarrow> string \<Rightarrow> store_file \<Rightarrow> store_error + event_config" where
  "get_event path fsdb_file name file =
     bind_store (load_session event_codec (events_store path) file) (\<lambda>es.
     bind_store (find_named event_codec name (fsdb_file, name) es) (\<lambda>e. Inr (snd e)))"

definition get_latest_event :: "string \<Rightarrow> string \<Rightarrow> store_file \<Rightarrow> store_error + string" where
  "get_latest_event path fsdb_file file =
     bind_store (load_session event_codec (events_store path) file) (\<lambda>es.
       case List.find (\<lambda>e. fst e = fsdb_file) (rev es) of
         None \<Rightarrow> Inl (store_not_found (''no event configs are loaded for waveform: '' @ fsdb_file))
       | Some e \<Rightarrow> Inr (ev_name (snd e)))"

definition list_events :: "string \<Rightarrow> string \<Rightarrow> store_file \<Rightarrow> store_error + string list" where
  "list_events path fsdb_file file =
     bind_store (load_session event_codec (events_store path) file) (\<lambda>es.
       Inr (map (ev_name \<circ> snd) (filter (\<lambda>e. fst e = fsdb_file) es)))"

section \<open>The trip through JSON\<close>

definition event_field_ok :: "(string, string) omap \<Rightarrow> event_field \<Rightarrow> bool" where
  "event_field_ok sigs e \<longleftrightarrow> ef_signal e \<noteq> [] \<and> omap_get sigs (ef_signal e) \<noteq> None \<and>
     0 \<le> ef_left e \<and> ef_left e \<le> 2147483647 \<and> 0 \<le> ef_right e \<and> ef_right e \<le> 2147483647"

definition event_clock_ok :: "clock_spec \<Rightarrow> bool" where
  "event_clock_ok spec \<longleftrightarrow> ck_clock spec \<noteq> [] \<and> (\<not> ck_has_point spec \<longrightarrow> ck_point spec = Before)"

definition event_config_ok :: "event_config \<Rightarrow> bool" where
  "event_config_ok c \<longleftrightarrow> ev_name c \<noteq> [] \<and> event_clock_ok (ev_clock_sample c) \<and>
     (if ev_has_reset c then reset_signal (ev_reset c) \<noteq> [] else ev_reset c = default_reset) \<and>
     named_entries (\<lambda>k. k \<noteq> []) (ev_signals c) \<and> ev_signals c \<noteq> [] \<and>
     omap_ok (ev_fields c) \<and> (\<forall>(k, e)\<in>set (ev_fields c). k \<noteq> [] \<and> event_field_ok (ev_signals c) e)"

lemma read_signals_named:
  "read_event_signals ms m = Inr m' \<Longrightarrow> named_entries (\<lambda>k. k \<noteq> []) m \<Longrightarrow> named_entries (\<lambda>k. k \<noteq> []) m'"
  by (induction ms m rule: read_event_signals.induct) (auto simp: Let_def split: if_splits json.splits intro: named_entries_put)

lemma omap_put_nonempty: "omap_put k v m \<noteq> []"
  using set_omap_put [of k v m] by auto

lemma read_signals_nonempty: "read_event_signals ms m = Inr m' \<Longrightarrow> ms \<noteq> [] \<or> m \<noteq> [] \<Longrightarrow> m' \<noteq> []"
  by (induction ms m rule: read_event_signals.induct) (auto simp: Let_def omap_put_nonempty split: if_splits json.splits)

lemma read_signals_object:
  assumes "omap_ok (m @ n)"
  shows "read_event_signals (map (\<lambda>(k, v). (k, JString v)) n) m = Inr m' \<longleftrightarrow> m' = m @ n \<and> (\<forall>(k, v)\<in>set n. k \<noteq> [] \<and> v \<noteq> [])"
  using assms
proof (induction n arbitrary: m)
  case (Cons p n)
  obtain k v where p: "p = (k, v)" by fastforce
  have "\<forall>q\<in>set m. fst q < k" using Cons.prems p by (auto simp: omap_ok_def sorted_wrt_append)
  then show ?case using Cons.IH [of "m @ [p]"] Cons.prems p omap_put_last [of m k v] by (auto simp: Let_def)
qed auto

lemma event_field_read: "read_event_field sigs k v = Inr e \<Longrightarrow> k \<noteq> [] \<and> event_field_ok sigs e"
  by (auto simp: read_event_field_def event_field_ok_def parse_nonnegative_int_def Let_def dest: nonempty_text
      split: json.splits if_splits option.splits)

lemma event_field_object:
  "read_event_field sigs k (field_to_json e) = Inr e' \<longleftrightarrow> e' = e \<and> k \<noteq> [] \<and> event_field_ok sigs e"
  by (cases e) (auto simp: read_event_field_def field_to_json_def event_field_ok_def parse_nonnegative_int_def Let_def
      nonempty_string_def text_of_def)

lemma set_omap_put_cases: "p \<in> set (omap_put k v m) \<Longrightarrow> p = (k, v) \<or> p \<in> set m"
  using set_omap_put_subset [of k v m] by auto

lemma read_fields_ok:
  "read_event_fields sigs ms m = Inr m' \<Longrightarrow> omap_ok m \<Longrightarrow> (\<forall>(k, e)\<in>set m. k \<noteq> [] \<and> event_field_ok sigs e) \<Longrightarrow>
    omap_ok m' \<and> (\<forall>(k, e)\<in>set m'. k \<noteq> [] \<and> event_field_ok sigs e)"
proof (induction sigs ms m rule: read_event_fields.induct)
  case (2 sigs k v ms m)
  then obtain e where e: "read_event_field sigs k v = Inr e" "read_event_fields sigs ms (omap_put k e m) = Inr m'" by auto
  then show ?case
    using 2 event_field_read [OF e(1)] by (intro 2(1) [OF e(2)]) (auto simp: omap_ok_put dest!: set_omap_put_cases)
qed simp

lemma read_fields_object:
  assumes "omap_ok (m @ n)"
  shows "read_event_fields sigs (map (\<lambda>(k, e). (k, field_to_json e)) n) m = Inr m' \<longleftrightarrow>
    m' = m @ n \<and> (\<forall>(k, e)\<in>set n. k \<noteq> [] \<and> event_field_ok sigs e)"
  using assms
proof (induction n arbitrary: m)
  case (Cons p n)
  obtain k e where p: "p = (k, e)" by fastforce
  have "\<forall>q\<in>set m. fst q < k" using Cons.prems p by (auto simp: omap_ok_def sorted_wrt_append)
  then show ?case using Cons.IH [of "m @ [p]"] Cons.prems p omap_put_last [of m k e] by (auto simp: event_field_object)
qed auto

text \<open>The members of a printed description.\<close>

lemma event_lookups:
  "map_of (event_members f c) ''fsdb_file'' = Some (JString f)"
  "map_of (event_members f c) ''name'' = Some (JString (ev_name c))"
  "map_of (event_members f c) ''clock'' = Some (JString (ck_clock (ev_clock_sample c)))"
  "map_of (event_members f c) ''edge'' = Some (JString (clock_edge_kind_text (ck_edge (ev_clock_sample c))))"
  "map_of (event_members f c) ''signals'' = Some (fields_object (ev_signals c))"
  "map_of (event_members f c) ''fields'' = Some (JObject (map (\<lambda>(k, e). (k, field_to_json e)) (ev_fields c)))"
  "map_of (event_members f c) ''reset'' = (if ev_has_reset c then Some (reset_config_json (ev_reset c)) else None)"
  "map_of (event_members f c) ''sample_point'' = (if ck_has_point (ev_clock_sample c)
     then Some (JString (clock_sample_point_text (ck_point (ev_clock_sample c)))) else None)"
  by (simp_all add: event_members_def)

lemma event_member_count:
  "length (event_members f c) = 6 + (if ev_has_reset c then 1 else 0) + (if ck_has_point (ev_clock_sample c) then 1 else 0)"
  by (simp add: event_members_def)

text \<open>Reading back what was printed: the reset and the point that are not there are the defaults.\<close>

definition settled :: "event_config \<Rightarrow> event_config" where
  "settled c = c\<lparr>ev_reset := (if ev_has_reset c then ev_reset c else default_reset),
     ev_clock_sample := (if ck_has_point (ev_clock_sample c) then ev_clock_sample c else (ev_clock_sample c)\<lparr>ck_point := Before\<rparr>)\<rparr>"

lemma event_clock_members:
  "event_clock (event_members f c) = Inr (ev_clock_sample (settled c))"
  by (cases "ev_clock_sample c") (simp add: event_clock_def event_lookups text_of_def parse_edge_text parse_point_text with_prefix_def
      and_then_val Let_def default_clock_spec_def settled_def)

lemma event_reset_members:
  "(if map_of (event_members f c) ''reset'' \<noteq> None then stored_reset ''event'' (event_members f c) else Inr default_reset) = Inr r \<longleftrightarrow>
    r = ev_reset (settled c) \<and> (ev_has_reset c \<longrightarrow> reset_signal (ev_reset c) \<noteq> [])"
  using parse_reset_ok reset_back [of "ev_reset c"]
  by (auto simp: event_lookups stored_reset_def settled_def parse_reset_json)

lemma event_signal_member:
  "(case map_of (event_members f c) ''signals'' of
      Some (JObject (s # ss)) \<Rightarrow> Inr (s # ss) | _ \<Rightarrow> Inl ''event signals must be a non-empty object'') = Inr sigs \<longleftrightarrow>
    ev_signals c \<noteq> [] \<and> sigs = map (\<lambda>(k, v). (k, JString v)) (ev_signals c)"
  by (cases "ev_signals c") (auto simp: event_lookups fields_object_def)

lemma event_texts:
  "text_of (event_members f c) ''fsdb_file'' = f" "text_of (event_members f c) ''name'' = ev_name c"
  by (simp_all add: text_of_def event_lookups)

lemma event_json_back:
  assumes "omap_ok (ev_signals c)" "omap_ok (ev_fields c)"
  shows "json_to_config (config_to_json f c) = Inr e \<longleftrightarrow> e = (f, settled c) \<and> f \<noteq> [] \<and> event_config_ok (settled c)"
proof -
  have sigs: "read_event_signals (map (\<lambda>(k, v). (k, JString v)) (ev_signals c)) [] = Inr m \<longleftrightarrow>
      m = ev_signals c \<and> (\<forall>(k, v)\<in>set (ev_signals c). k \<noteq> [] \<and> v \<noteq> [])" for m
    using read_signals_object [of "[]" "ev_signals c" m] assms(1) by simp
  have flds: "read_event_fields s (map (\<lambda>(k, e). (k, field_to_json e)) (ev_fields c)) [] = Inr m \<longleftrightarrow>
      m = ev_fields c \<and> (\<forall>(k, e)\<in>set (ev_fields c). k \<noteq> [] \<and> event_field_ok s e)" for m s
    using read_fields_object [of "[]" "ev_fields c" s m] assms(2) by simp
  have c: "\<lparr>ev_name = ev_name c, ev_clock_sample = ev_clock_sample (settled c), ev_has_reset = ev_has_reset c,
      ev_reset = ev_reset (settled c), ev_signals = ev_signals c, ev_fields = ev_fields c\<rparr> = settled c"
    by (simp add: settled_def)
  have ok: "event_config_ok (settled c) \<longleftrightarrow> ev_name c \<noteq> [] \<and> ck_clock (ev_clock_sample c) \<noteq> [] \<and>
      (ev_has_reset c \<longrightarrow> reset_signal (ev_reset c) \<noteq> []) \<and> (\<forall>(k, v)\<in>set (ev_signals c). k \<noteq> [] \<and> v \<noteq> []) \<and> ev_signals c \<noteq> [] \<and>
      (\<forall>(k, e)\<in>set (ev_fields c). k \<noteq> [] \<and> event_field_ok (ev_signals c) e)"
    using assms by (auto simp: event_config_ok_def event_clock_ok_def settled_def named_entries_def)
  have has: "(map_of (event_members f c) ''reset'' \<noteq> None) = ev_has_reset c"
    "(map_of (event_members f c) ''sample_point'' \<noteq> None) = ck_has_point (ev_clock_sample c)"
    by (simp_all add: event_lookups)
  have keys: "\<forall>x\<in>set [''fsdb_file'', ''name'', ''clock'', ''edge'', ''signals'', ''fields'']. \<not> \<not> map_of (event_members f c) x \<noteq> None"
    by (simp add: event_lookups)
  have filled: "(\<forall>x\<in>set [''fsdb_file'', ''name'', ''clock'', ''edge'']. \<not> \<not> nonempty_string (map_of (event_members f c) x)) \<longleftrightarrow>
      f \<noteq> [] \<and> ev_name c \<noteq> [] \<and> ck_clock (ev_clock_sample c) \<noteq> []"
    by (simp add: event_lookups nonempty_string_def texts_nonempty)
  have fm: "(case map_of (event_members f c) ''fields'' of Some (JObject fs) \<Rightarrow> Inr fs | _ \<Rightarrow> Inl ''event fields must be an object'') =
      (Inr (map (\<lambda>(k, e). (k, field_to_json e)) (ev_fields c)) :: string + _)"
    by (simp add: event_lookups)
  show ?thesis
    unfolding config_to_json_def json_to_config_def json.case Let_def and_then_Inr require_Inr find_step fm
      event_signal_member event_reset_members event_clock_members event_texts filled
    using keys c ok has event_member_count [of f c] by (auto simp: sigs flds)
qed

lemma event_clock_read: "event_clock item = Inr spec \<Longrightarrow> ck_clock spec = text_of item ''clock'' \<and> (\<not> ck_has_point spec \<longrightarrow> ck_point spec = Before)"
  unfolding event_clock_def Let_def and_then_Inr default_clock_spec_def
  by (elim exE conjE, cases "map_of item ''sample_point''") (auto simp del: clock_spec.simps simp add: clock_spec.select_convs clock_spec.update_convs split: json.splits)

lemma json_to_config_ok:
  assumes "json_to_config j = Inr (f, c)"
  shows "f \<noteq> [] \<and> event_config_ok c"
proof -
  obtain item where j: "j = JObject item" using assms by (cases j) (auto simp: json_to_config_def)
  have filled: "\<forall>x\<in>set [''fsdb_file'', ''name'', ''clock'', ''edge'']. nonempty_string (map_of item x)"
    using assms unfolding j json_to_config_def json.case Let_def and_then_Inr find_step not_not by blast
  obtain sigs flds where m: "(case map_of item ''signals'' of
        Some (JObject (s # ss)) \<Rightarrow> Inr (s # ss) | _ \<Rightarrow> Inl ''event signals must be a non-empty object'') = Inr sigs"
    and r: "(if map_of item ''reset'' \<noteq> None then stored_reset ''event'' item else Inr default_reset) = Inr (ev_reset c)"
    and s: "event_clock item = Inr (ev_clock_sample c)"
    and rs: "read_event_signals sigs [] = Inr (ev_signals c)" and rf: "read_event_fields (ev_signals c) flds [] = Inr (ev_fields c)"
    and t: "f = text_of item ''fsdb_file''" "ev_name c = text_of item ''name''" "ev_has_reset c = (map_of item ''reset'' \<noteq> None)"
    using assms unfolding j json_to_config_def json.case Let_def and_then_Inr sum.inject prod.inject by fastforce
  have "sigs \<noteq> []" using m by (auto split: option.splits json.splits list.splits)
  then have sigs: "named_entries (\<lambda>k. k \<noteq> []) (ev_signals c) \<and> ev_signals c \<noteq> []"
    using read_signals_named [OF rs] read_signals_nonempty [OF rs] by simp
  have fields: "omap_ok (ev_fields c) \<and> (\<forall>(k, e)\<in>set (ev_fields c). k \<noteq> [] \<and> event_field_ok (ev_signals c) e)"
    using read_fields_ok [OF rf] by simp
  have reset: "if ev_has_reset c then reset_signal (ev_reset c) \<noteq> [] else ev_reset c = default_reset"
    using r parse_reset_ok by (auto simp: t(3) stored_reset_def split: if_splits)
  have texts: "f \<noteq> []" "ev_name c \<noteq> []" "text_of item ''clock'' \<noteq> []"
    using filled by (simp_all add: t nonempty_text)
  show ?thesis
    using texts sigs fields reset event_clock_read [OF s] by (simp add: event_config_ok_def event_clock_ok_def)
qed

lemma event_codec_parts [simp]:
  "cd_read event_codec i j = Inr e \<longleftrightarrow> json_to_config j = Inr e" "cd_print event_codec (f, c) = config_to_json f c"
  "cd_key event_codec (f, c) = (f, ev_name c)" "cd_noun event_codec = ''event config''"
  by (simp_all add: event_codec_def)

definition stored_event_ok :: "stored_event \<Rightarrow> bool" where
  "stored_event_ok e \<longleftrightarrow> fst e \<noteq> [] \<and> event_config_ok (snd e)"

lemma settled_ok: "event_config_ok c \<Longrightarrow> settled c = c"
  by (cases c) (auto simp: event_config_ok_def event_clock_ok_def settled_def)

interpretation event_store: config_codec event_codec stored_event_ok
proof unfold_locales
  show "stored_event_ok e" if "cd_read event_codec i j = Inr e" for i j e
    using that json_to_config_ok by (cases e) (auto simp: stored_event_ok_def)
  show "cd_read event_codec i (cd_print event_codec e) = Inr e" if "stored_event_ok e" for i e
  proof (cases e)
    case (Pair f c)
    have ok: "event_config_ok c" "f \<noteq> []" using that by (simp_all add: Pair stored_event_ok_def)
    then have "omap_ok (ev_signals c)" "omap_ok (ev_fields c)" by (simp_all add: event_config_ok_def named_entries_def)
    from event_json_back [OF this] ok show ?thesis by (simp add: Pair settled_ok)
  qed
qed

section \<open>Requests\<close>

text \<open>
  The maps of a description in a request may be given in any order: a map in the program holds its keys in
  order, the last value given for a key.
\<close>

definition as_map :: "(string \<times> 'a) list \<Rightarrow> (string, 'a) omap" where
  "as_map ps = fold (\<lambda>(k, v). omap_put k v) ps []"

definition with_maps :: "event_config \<Rightarrow> event_config" where
  "with_maps c = c\<lparr>ev_signals := as_map (ev_signals c), ev_fields := as_map (ev_fields c)\<rparr>"

datatype event_request =
    Create_Event bool write_outcome string event_config
  | Delete_Event write_outcome string string

fun event_step :: "string \<Rightarrow> event_request \<Rightarrow> store_file \<Rightarrow> (store_error + unit) \<times> store_file" where
  "event_step path (Create_Event dir outcome f c) file = create_event path dir outcome f (with_maps c) file"
| "event_step path (Delete_Event outcome f name) file = delete_event path outcome f name file"

type_synonym events_view = "(string \<times> string) list \<times> (string \<times> string \<rightharpoonup> stored_event)"

text \<open>A description of the same waveform and name is replaced, and the new one comes last.\<close>

fun event_spec :: "event_request \<Rightarrow> events_view \<Rightarrow> unit option \<times> events_view" where
  "event_spec (Create_Event dir outcome f c) s =
     written outcome
       (if f \<noteq> [] \<and> event_config_ok (settled (with_maps c)) \<and> dir
        then Some ((filter (\<lambda>k. k \<noteq> (f, ev_name c)) (fst s) @ [(f, ev_name c)],
                    (snd s)((f, ev_name c) \<mapsto> (f, settled (with_maps c)))), ())
        else None) s"
| "event_spec (Delete_Event outcome f name) s =
     written outcome
       (if snd s (f, name) = None then None
        else Some ((filter (\<lambda>k. k \<noteq> (f, name)) (fst s), (snd s)((f, name) := None)), ())) s"

lemma as_map_ok: "omap_ok (as_map ps)"
proof -
  have "omap_ok m \<Longrightarrow> omap_ok (fold (\<lambda>(k, v). omap_put k v) ps m)" for m
    by (induction ps arbitrary: m) (auto simp: omap_ok_put)
  then show ?thesis by (simp add: as_map_def)
qed

lemma with_maps_back:
  "json_to_config (config_to_json f (with_maps c)) = Inr e \<longleftrightarrow>
    e = (f, settled (with_maps c)) \<and> f \<noteq> [] \<and> event_config_ok (settled (with_maps c))"
  by (rule event_json_back) (simp_all add: with_maps_def as_map_ok)

lemma settled_printed: "config_to_json f (settled c) = config_to_json f c" "ev_name (settled c) = ev_name c"
  by (simp_all add: config_to_json_def event_members_def settled_def)

lemma relists_replace_event:
  assumes "configs_sound stored_event_ok event_codec es" "s = listing_of event_codec es" "stored_event_ok (f, settled c)"
  shows "relists stored_event_ok event_codec (replace_event (f, c)) es
    (Some ((filter (\<lambda>k. k \<noteq> (f, ev_name c)) (fst s) @ [(f, ev_name c)], (snd s)((f, ev_name c) \<mapsto> (f, settled c))), ()))"
proof -
  let ?kept = "filter (\<lambda>old. cd_key event_codec old \<noteq> (f, ev_name c)) es"
  let ?es = "?kept @ [(f, settled c)]"
  have key: "cd_key event_codec (f, settled c) = (f, ev_name c)" by (simp add: settled_printed)
  have new: "cd_key event_codec (f, settled c) \<notin> cd_key event_codec ` set ?kept" by (auto simp: settled_printed)
  have "serialize_configs event_codec (?kept @ [(f, c)]) = serialize_configs event_codec ?es"
    by (simp add: serialize_configs_def settled_printed)
  moreover have "configs_sound stored_event_ok event_codec ?es"
    using sound_snoc [OF sound_remove [OF assms(1)] assms(3)] new by (simp add: dom_registry)
  moreover have "listing_of event_codec ?es =
      (filter (\<lambda>k. k \<noteq> (f, ev_name c)) (fst s) @ [(f, ev_name c)], (snd s)((f, ev_name c) \<mapsto> (f, settled c)))"
    by (simp add: listing_of_def assms(2) registry_snoc [OF new] key settled_printed registry_filter filter_map o_def)
  ultimately show ?thesis by (auto simp: relists_def replace_event_def)
qed

lemma event_step_simulates:
  assumes p: "presents event_codec (events_store path) file s"
  shows "answer_of (fst (event_step path r file)) = fst (event_spec r s) \<and>
    presents event_codec (events_store path) (snd (event_step path r file)) (snd (event_spec r s))"
proof -
  have col: "sp_collection (events_store path) \<noteq> ''version''" by (simp add: events_store_def)
  show ?thesis
  proof (cases r)
    case (Delete_Event outcome f name)
    show ?thesis
      unfolding Delete_Event event_step.simps event_spec.simps delete_event_def
      by (rule event_store.update_presents [OF p col], rule changes_remove_named) simp_all
  next
    case (Create_Event dir outcome f c)
    show ?thesis
    proof (cases "f \<noteq> [] \<and> event_config_ok (settled (with_maps c)) \<and> dir")
      case True
      have step: "event_step path (Create_Event dir outcome f c) file =
          update_configs event_codec (events_store path) outcome (replace_event (f, with_maps c)) file"
        using True with_maps_back [of f c "(f, settled (with_maps c))"] by (simp add: create_event_def)
      have name: "ev_name c = ev_name (with_maps c)" by (simp add: with_maps_def)
      show ?thesis
        unfolding Create_Event step event_spec.simps if_P [OF True] name
        by (rule event_store.update_presents [OF p col], rule relists_replace_event) (use True in \<open>simp_all add: stored_event_ok_def\<close>)
    next
      case False
      have "\<exists>e. event_step path r file = (Inl e, file)"
        using False with_maps_back [of f c]
        by (cases "json_to_config (config_to_json f (with_maps c))") (auto simp: Create_Event create_event_def)
      then show ?thesis using p unfolding Create_Event event_spec.simps if_not_P [OF False] by (auto simp: written_def)
    qed
  qed
qed

interpretation event_runs: manager_refinement "event_step path" event_spec "presents event_codec (events_store path)" "([], Map.empty)" for path
  by unfold_locales (rule presents_missing, rule event_step_simulates)

section \<open>The file as a map\<close>

lemma get_event_view:
  "presents event_codec (events_store path) file (ns, m) \<Longrightarrow>
    get_event path f name file = (case m (f, name) of None \<Rightarrow> Inl (store_not_found (''event config not found: '' @ name)) | Some e \<Rightarrow> Inr (snd e))"
  by (auto simp: presents_def listing_of_def get_event_def find_named_registry split: option.split)

lemma event_keys: "map (cd_key event_codec) es = map (\<lambda>e. (fst e, ev_name (snd e))) es"
  by (rule map_cong) (auto split: prod.split)

lemma find_last: "List.find P (rev xs) = (if filter P xs = [] then None else Some (last (filter P xs)))"
  by (induction xs rule: rev_induct) auto

lemma get_latest_event_view:
  "presents event_codec (events_store path) file (ns, m) \<Longrightarrow>
    get_latest_event path f file = (if filter (\<lambda>k. fst k = f) ns = [] then Inl (store_not_found (''no event configs are loaded for waveform: '' @ f))
       else Inr (snd (last (filter (\<lambda>k. fst k = f) ns))))"
proof -
  assume "presents event_codec (events_store path) file (ns, m)"
  then obtain es where es: "load_session event_codec (events_store path) file = Inr es" and ns: "ns = map (\<lambda>e. (fst e, ev_name (snd e))) es"
    by (auto simp: presents_def listing_of_def event_keys)
  have "filter (\<lambda>k. fst k = f) ns = map (\<lambda>e. (fst e, ev_name (snd e))) (filter (\<lambda>e. fst e = f) es)"
    by (simp add: ns filter_map o_def)
  then show ?thesis by (simp add: get_latest_event_def es find_last last_map)
qed

lemma list_events_view:
  "presents event_codec (events_store path) file (ns, m) \<Longrightarrow> list_events path f file = Inr (map snd (filter (\<lambda>k. fst k = f) ns))"
  by (auto simp: presents_def listing_of_def list_events_def event_keys filter_map o_def)

text \<open>
  C40: whatever requests came before, with whatever failures of writing, the file of event descriptions behaves
  as a map from pairs of waveform and name, of which a new description replaces the old one and comes last: each
  request succeeds exactly when the map allows it and the file was written and synced, and the questions for a
  description, for the latest of a waveform and for all names of a waveform are answered from the map.
\<close>

theorem event_configs_refine_map:
  "let (answers, file) = run_requests (event_step path) reqs Missing;
       (expected, ns, m) = run_spec event_spec reqs ([], Map.empty)
   in answers = expected \<and> distinct ns \<and> set ns = dom m \<and>
     get_event path f name file =
       (case m (f, name) of None \<Rightarrow> Inl (store_not_found (''event config not found: '' @ name)) | Some e \<Rightarrow> Inr (snd e)) \<and>
     get_latest_event path f file =
       (if filter (\<lambda>k. fst k = f) ns = [] then Inl (store_not_found (''no event configs are loaded for waveform: '' @ f))
        else Inr (snd (last (filter (\<lambda>k. fst k = f) ns)))) \<and>
     list_events path f file = Inr (map snd (filter (\<lambda>k. fst k = f) ns))"
proof -
  obtain answers g where a: "run_requests (event_step path) reqs Missing = (answers, g)" by fastforce
  obtain expected ns m where b: "run_spec event_spec reqs ([], Map.empty) = (expected, ns, m)" using prod_cases3 by blast
  have "answers = expected" and p: "presents event_codec (events_store path) g (ns, m)"
    using event_runs.run_from_start [of path reqs] by (simp_all add: a b)
  then show ?thesis
    unfolding a b Let_def prod.case
    using event_store.presents_sound [OF p] by (simp add: get_event_view [OF p] get_latest_event_view [OF p] list_events_view [OF p])
qed

end
