(* ===== verification/List_Manager.thy ===== *)
theory List_Manager
  imports Config_Store
begin

text \<open>
  The manager of signal lists, \<open>waveform/list/list_manager.cpp\<close> with \<open>signal_list.h\<close>: named lists of
  distinct signal paths kept in a file.  The file behaves as a map from names to lists, whose order is
  that of the last changes, whatever requests came before.
\<close>

record signal_list =
  sl_name :: string
  sl_signals :: "string list"

section \<open>The JSON form\<close>

definition list_to_json :: "signal_list \<Rightarrow> json" where
  "list_to_json l = JObject [(''name'', JString (sl_name l)), (''signals'', JArray (map JString (sl_signals l)))]"

text \<open>The loop over the paths; \<open>seen\<close> are those already read.\<close>

fun read_signals :: "nat \<Rightarrow> string list \<Rightarrow> json list \<Rightarrow> string + string list" where
  "read_signals index seen [] = Inr []"
| "read_signals index seen (j # js) =
     (case j of
        JString path \<Rightarrow>
          if path = [] then Inl (''signals['' @ dec_digits index @ ''] must be a non-empty string'')
          else if path \<in> set seen then Inl (''duplicate signal path: '' @ path)
          else and_then (read_signals (index + 1) (path # seen) js) (\<lambda>paths. Inr (path # paths))
      | _ \<Rightarrow> Inl (''signals['' @ dec_digits index @ ''] must be a non-empty string''))"

definition json_to_list :: "json \<Rightarrow> string + signal_list" where
  "json_to_list j =
     (let bad = Inl ''signal list must contain only non-empty name and signals array'' in
      case j of
        JObject item \<Rightarrow>
          (case (map_of item ''name'', map_of item ''signals'') of
             (Some (JString name), Some (JArray js)) \<Rightarrow>
               if length item \<noteq> 2 \<or> name = [] then bad
               else and_then (read_signals 0 [] js) (\<lambda>paths. Inr \<lparr>sl_name = name, sl_signals = paths\<rparr>)
           | _ \<Rightarrow> bad)
      | _ \<Rightarrow> bad)"

definition list_ok :: "signal_list \<Rightarrow> bool" where
  "list_ok l \<longleftrightarrow> sl_name l \<noteq> [] \<and> distinct (sl_signals l) \<and> [] \<notin> set (sl_signals l)"

lemma read_signals_ok:
  "read_signals i seen js = Inr paths \<Longrightarrow> distinct paths \<and> [] \<notin> set paths \<and> set paths \<inter> set seen = {}"
  by (induction i seen js arbitrary: paths rule: read_signals.induct) (fastforce split: json.splits if_splits)+

lemma read_signals_printed:
  "distinct paths \<Longrightarrow> [] \<notin> set paths \<Longrightarrow> set paths \<inter> set seen = {} \<Longrightarrow> read_signals i seen (map JString paths) = Inr paths"
  by (induction paths arbitrary: i seen) auto

lemma read_signals_back: "read_signals i seen (map JString paths) = Inr paths' \<Longrightarrow> paths' = paths"
  by (induction paths arbitrary: i seen paths') (auto split: if_splits)

lemma json_to_list_ok: "json_to_list j = Inr l \<Longrightarrow> list_ok l"
  by (auto simp: json_to_list_def list_ok_def Let_def dest: read_signals_ok split: json.splits option.splits if_splits)

lemma list_json_roundtrip: "list_ok l \<Longrightarrow> json_to_list (list_to_json l) = Inr l"
  by (cases l) (simp add: json_to_list_def list_to_json_def list_ok_def Let_def and_then_val read_signals_printed)

lemma list_print_read: "json_to_list (list_to_json l) = Inr l' \<Longrightarrow> l' = l"
  by (cases l) (auto simp: json_to_list_def list_to_json_def Let_def and_then_Inr dest: read_signals_back split: if_splits)

definition list_codec :: "(signal_list, string) codec" where
  "list_codec = named_codec ''lists'' ''signal list'' json_to_list list_to_json sl_name"

interpretation list_store: config_codec list_codec list_ok
  by unfold_locales (simp_all add: list_codec_def json_to_list_ok list_json_roundtrip)

definition lists_store :: "string \<Rightarrow> store_place" where
  "lists_store path = \<lparr>sp_path = path, sp_collection = ''lists''\<rparr>"

section \<open>Operations\<close>

text \<open>A change of one list moves it to the end.\<close>

definition update_named_list ::
  "string \<Rightarrow> (signal_list \<Rightarrow> store_error + signal_list \<times> 'x) \<Rightarrow> signal_list list \<Rightarrow> store_error + signal_list list \<times> 'x" where
  "update_named_list name mutation configs =
     (case List.extract (\<lambda>l. sl_name l = name) configs of
        None \<Rightarrow> Inl (store_not_found (''signal list not found: '' @ name))
      | Some (before, l, after) \<Rightarrow>
          bind_store (mutation l) (\<lambda>(modified, x). Inr (before @ after @ [modified], x)))"

definition signal_index_out_of_range :: "string \<Rightarrow> nat \<Rightarrow> nat \<Rightarrow> store_error" where
  "signal_index_out_of_range name index available =
     store_failure Store_Invalid ''PRECONDITION_FAILED''
       (''signal index '' @ dec_digits index @ '' is outside the one-based range for list '' @ name @ '' with '' @
        dec_digits available @ '' signals'')"

definition load_lists :: "string \<Rightarrow> bool \<Rightarrow> write_outcome \<Rightarrow> signal_list list \<Rightarrow> string \<Rightarrow> store_file \<Rightarrow> (store_error + unit) \<times> store_file" where
  "load_lists path dir outcome incoming mode file =
     (if mode \<noteq> ''replace'' \<and> mode \<noteq> ''append'' then (Inl (store_invalid ''list.load mode must be replace or append''), file)
      else case parse_configs list_codec (serialize_configs list_codec incoming) of
        Inl e \<Rightarrow> (Inl (e\<lparr>se_message := ''cannot persist invalid signal list config: '' @ se_message e\<rparr>), file)
      | Inr validated \<Rightarrow>
          if validated = [] then (Inl (store_invalid ''list.load requires at least one list''), file)
          else if \<not> dir then (Inl (directory_error ''signal-list''), file)
          else update_configs list_codec (lists_store path) outcome
            (\<lambda>current. bind_store (load_all list_codec mode current validated) (\<lambda>all. Inr (all, ()))) file)"

text \<open>The loop over the signals of a new list.\<close>

fun check_signals :: "string \<Rightarrow> string list \<Rightarrow> string list \<Rightarrow> store_error + unit" where
  "check_signals name seen [] = Inr ()"
| "check_signals name seen (s # ss) =
     (if s = [] then Inl (store_invalid ''signal list paths must be non-empty'')
      else if s \<in> set seen then Inl (store_conflict (''duplicate signal in new list '' @ name @ '': '' @ s))
      else check_signals name (s # seen) ss)"

definition create_list :: "string \<Rightarrow> bool \<Rightarrow> write_outcome \<Rightarrow> string \<Rightarrow> string list \<Rightarrow> store_file \<Rightarrow> (store_error + unit) \<times> store_file" where
  "create_list path dir outcome name ss file =
     (if name = [] then (Inl (store_invalid ''signal list name must be non-empty''), file)
      else case check_signals name [] ss of
        Inl e \<Rightarrow> (Inl e, file)
      | Inr _ \<Rightarrow>
          if \<not> dir then (Inl (directory_error ''signal-list''), file)
          else update_configs list_codec (lists_store path) outcome
            (append_new list_codec name \<lparr>sl_name = name, sl_signals = ss\<rparr>) file)"

definition delete_list :: "string \<Rightarrow> write_outcome \<Rightarrow> string \<Rightarrow> store_file \<Rightarrow> (store_error + unit) \<times> store_file" where
  "delete_list path outcome name file = delete_named list_codec (lists_store path) outcome name file"

definition blank_name_or_path :: store_error where
  "blank_name_or_path = store_invalid ''signal list name and signal path must be non-empty''"

definition add_signal :: "string \<Rightarrow> write_outcome \<Rightarrow> string \<Rightarrow> string \<Rightarrow> store_file \<Rightarrow> (store_error + unit) \<times> store_file" where
  "add_signal path outcome name s file =
     (if name = [] \<or> s = [] then (Inl blank_name_or_path, file)
      else update_configs list_codec (lists_store path) outcome
        (update_named_list name (\<lambda>l.
           if s \<in> set (sl_signals l) then Inl (store_conflict (''signal is already present in list '' @ name @ '': '' @ s))
           else Inr (l\<lparr>sl_signals := sl_signals l @ [s]\<rparr>, ()))) file)"

definition delete_signal_by_path :: "string \<Rightarrow> write_outcome \<Rightarrow> string \<Rightarrow> string \<Rightarrow> store_file \<Rightarrow> (store_error + unit) \<times> store_file" where
  "delete_signal_by_path path outcome name s file =
     (if name = [] \<or> s = [] then (Inl blank_name_or_path, file)
      else update_configs list_codec (lists_store path) outcome
        (update_named_list name (\<lambda>l.
           if s \<notin> set (sl_signals l) then Inl (store_not_found (''signal is not present in list '' @ name @ '': '' @ s))
           else Inr (l\<lparr>sl_signals := remove1 s (sl_signals l)\<rparr>, ()))) file)"

text \<open>The answer is the signal removed.\<close>

definition delete_signal_by_index :: "string \<Rightarrow> write_outcome \<Rightarrow> string \<Rightarrow> nat \<Rightarrow> store_file \<Rightarrow> (store_error + string) \<times> store_file" where
  "delete_signal_by_index path outcome name index file =
     (if name = [] then (Inl (store_invalid ''signal list name must be non-empty''), file)
      else update_configs list_codec (lists_store path) outcome
        (update_named_list name (\<lambda>l.
           let ss = sl_signals l in
           if index = 0 \<or> index > length ss then Inl (signal_index_out_of_range name index (length ss))
           else Inr (l\<lparr>sl_signals := take (index - 1) ss @ drop index ss\<rparr>, ss ! (index - 1)))) file)"

definition get_list :: "string \<Rightarrow> string \<Rightarrow> store_file \<Rightarrow> store_error + signal_list" where
  "get_list path name file = get_named list_codec (lists_store path) name file"

definition get_latest_list :: "string \<Rightarrow> store_file \<Rightarrow> store_error + string" where
  "get_latest_list path file = get_latest list_codec (lists_store path) file"

definition list_all_lists :: "string \<Rightarrow> store_file \<Rightarrow> store_error + signal_list list" where
  "list_all_lists path file = load_session list_codec (lists_store path) file"

section \<open>Requests\<close>

datatype list_request =
    Load_Lists bool write_outcome "signal_list list" string
  | Create_List bool write_outcome string "string list"
  | Delete_List write_outcome string
  | Add_Signal write_outcome string string
  | Delete_Path write_outcome string string
  | Delete_Index write_outcome string nat

text \<open>The answer of a request is the signal it removed, and nothing for the others.\<close>

definition no_answer :: "(store_error + unit) \<times> store_file \<Rightarrow> (store_error + string) \<times> store_file" where
  "no_answer r = (bind_store (fst r) (\<lambda>_. Inr []), snd r)"

fun list_step :: "string \<Rightarrow> list_request \<Rightarrow> store_file \<Rightarrow> (store_error + string) \<times> store_file" where
  "list_step path (Load_Lists dir outcome incoming mode) file = no_answer (load_lists path dir outcome incoming mode file)"
| "list_step path (Create_List dir outcome name ss) file = no_answer (create_list path dir outcome name ss file)"
| "list_step path (Delete_List outcome name) file = no_answer (delete_list path outcome name file)"
| "list_step path (Add_Signal outcome name s) file = no_answer (add_signal path outcome name s file)"
| "list_step path (Delete_Path outcome name s) file = no_answer (delete_signal_by_path path outcome name s file)"
| "list_step path (Delete_Index outcome name index) file = delete_signal_by_index path outcome name index file"

text \<open>
  What the requests mean for a map from names to the signals of the lists, with the order of the names.
  A change of a list puts its name last.
\<close>

type_synonym lists_view = "string list \<times> (string \<rightharpoonup> signal_list)"

definition change_list ::
  "string \<Rightarrow> (string list \<Rightarrow> (string list \<times> 'x) option) \<Rightarrow> lists_view \<Rightarrow> (lists_view \<times> 'x) option" where
  "change_list name f s =
     (case snd s name of
        None \<Rightarrow> None
      | Some l \<Rightarrow>
          (case f (sl_signals l) of
             None \<Rightarrow> None
           | Some (ss, x) \<Rightarrow> Some ((filter (\<lambda>n. n \<noteq> name) (fst s) @ [name], (snd s)(name \<mapsto> \<lparr>sl_name = name, sl_signals = ss\<rparr>)), x)))"

fun list_spec :: "list_request \<Rightarrow> lists_view \<Rightarrow> string option \<times> lists_view" where
  "list_spec (Load_Lists dir outcome incoming mode) s =
     written outcome
       (if mode \<in> {''replace'', ''append''} \<and> incoming \<noteq> [] \<and> list_all list_ok incoming \<and> distinct (map sl_name incoming) \<and> dir
        then map_option (\<lambda>s'. (s', [])) (listing_loaded sl_name mode incoming s) else None) s"
| "list_spec (Create_List dir outcome name ss) s =
     written outcome
       (if list_ok \<lparr>sl_name = name, sl_signals = ss\<rparr> \<and> dir \<and> snd s name = None
        then Some ((fst s @ [name], (snd s)(name \<mapsto> \<lparr>sl_name = name, sl_signals = ss\<rparr>)), []) else None) s"
| "list_spec (Delete_List outcome name) s =
     written outcome
       (if snd s name = None then None else Some ((filter (\<lambda>n. n \<noteq> name) (fst s), (snd s)(name := None)), [])) s"
| "list_spec (Add_Signal outcome name sig) s =
     written outcome
       (change_list name (\<lambda>ss. if sig = [] \<or> sig \<in> set ss then None else Some (ss @ [sig], [])) s) s"
| "list_spec (Delete_Path outcome name sig) s =
     written outcome
       (change_list name (\<lambda>ss. if sig \<notin> set ss then None else Some (remove1 sig ss, [])) s) s"
| "list_spec (Delete_Index outcome name index) s =
     written outcome
       (change_list name (\<lambda>ss. if index = 0 \<or> index > length ss then None
          else Some (take (index - 1) ss @ drop index ss, ss ! (index - 1))) s) s"

text \<open>The change of one list.\<close>

lemma list_codec_parts [simp]: "cd_key list_codec = sl_name" "cd_noun list_codec = ''signal list''"
  by (simp_all add: list_codec_def)

lemma filter_other: "name \<notin> sl_name ` set ls \<Longrightarrow> filter (\<lambda>n. n \<noteq> name) (map sl_name ls) = map sl_name ls"
  by (induction ls) auto

lemma changes_named_list:
  assumes sound: "configs_sound list_ok list_codec cs" and s: "s = listing_of list_codec cs"
    and f: "\<And>l. list_ok l \<Longrightarrow> sl_name l = name \<Longrightarrow>
      (case mutation l of
         Inl e \<Rightarrow> f (sl_signals l) = None
       | Inr (l', x) \<Rightarrow> f (sl_signals l) = Some (sl_signals l', x) \<and> sl_name l' = name \<and> list_ok l')"
  shows "relists list_ok list_codec (update_named_list name mutation) cs (change_list name f s)"
proof (cases "List.extract (\<lambda>l. sl_name l = name) cs")
  case None
  then have "registry list_codec cs name = None"
    by (auto simp: extract_None_iff registry_def list_codec_def map_of_eq_None_iff)
  with None show ?thesis by (simp add: relists_def update_named_list_def change_list_def s listing_of_def)
next
  case (Some r)
  obtain before l after where r: "r = (before, l, after)" by (cases r) blast
  have cs: "cs = before @ l # after" "sl_name l = name" using Some [unfolded r] by (auto simp: extract_Some_iff)
  have ok: "list_ok l" "list_all list_ok (before @ after)" "distinct (map sl_name (before @ after))"
      "name \<notin> sl_name ` set (before @ after)"
    using sound cs by (auto simp: configs_sound_def list_codec_def)
  have l: "snd s name = Some l"
    using ok(4) cs dom_registry [of list_codec before]
    by (auto simp: s listing_of_def registry_append list_codec_def map_add_def split: option.split)
  show ?thesis
  proof (cases "mutation l")
    case (Inl e)
    then show ?thesis using f [OF ok(1) cs(2)] l Some r by (simp add: relists_def update_named_list_def change_list_def)
  next
    case (Inr p)
    obtain l' x where p: "p = (l', x)" by fastforce
    have l': "f (sl_signals l) = Some (sl_signals l', x)" "sl_name l' = name" "list_ok l'"
      using f [OF ok(1) cs(2)] Inr p by auto
    have "configs_sound list_ok list_codec (before @ after @ [l'])"
      using ok l' by (auto simp: configs_sound_def list_codec_def)
    moreover have "listing_of list_codec (before @ after @ [l']) =
        (filter (\<lambda>n. n \<noteq> name) (fst s) @ [name], (snd s)(name \<mapsto> \<lparr>sl_name = name, sl_signals = sl_signals l'\<rparr>))"
    proof -
      have "filter (\<lambda>n. n \<noteq> name) (map sl_name cs) = map sl_name (before @ after)"
        using ok(4) cs filter_other [of name before] filter_other [of name after] by (simp add: image_Un)
      moreover have "registry list_codec (before @ after @ [l']) = (registry list_codec cs)(name \<mapsto> l')"
        using ok(4) cs l'(2) dom_registry [of list_codec "before @ after"]
        by (auto simp: registry_append map_add_def fun_eq_iff split: option.split)
      ultimately show ?thesis using l'(2) by (cases l') (simp add: s listing_of_def)
    qed
    ultimately show ?thesis
      using l l' Inr p Some r
      by (auto simp: relists_def update_named_list_def change_list_def intro!: exI [of _ "before @ after @ [l']"])
  qed
qed

lemma blank_name_absent: "configs_sound list_ok list_codec cs \<Longrightarrow> registry list_codec cs [] = None"
proof -
  assume "configs_sound list_ok list_codec cs"
  then have "[] \<notin> dom (registry list_codec cs)"
    unfolding dom_registry by (auto simp: configs_sound_def list_all_iff list_ok_def)
  then show ?thesis by auto
qed

lemma check_signals_Inr: "check_signals name seen ss = Inr u \<longleftrightarrow> distinct ss \<and> [] \<notin> set ss \<and> set ss \<inter> set seen = {}"
  by (induction name seen ss rule: check_signals.induct) auto

lemma parse_printed_lists:
  "parse_configs list_codec (serialize_configs list_codec ls) = Inr ls' \<longleftrightarrow> ls' = ls \<and> list_all list_ok ls \<and> distinct (map sl_name ls)"
proof
  assume r: "parse_configs list_codec (serialize_configs list_codec ls) = Inr ls'"
  have "configs_sound list_ok list_codec ls'"
    using list_store.parse_from_sound r unfolding parse_configs_def by blast
  moreover have "parse_from list_codec i seen (map list_to_json ls) = Inr ls' \<Longrightarrow> ls' = ls" for i seen
    by (induction ls arbitrary: i seen ls') (auto simp: list_codec_def named_codec_def dest: list_print_read split: sum.splits if_splits)
  ultimately show "ls' = ls \<and> list_all list_ok ls \<and> distinct (map sl_name ls)"
    using r by (auto simp: configs_sound_def parse_configs_def serialize_configs_def list_codec_def)
next
  assume "ls' = ls \<and> list_all list_ok ls \<and> distinct (map sl_name ls)"
  then show "parse_configs list_codec (serialize_configs list_codec ls) = Inr ls'"
    by (simp add: list_store.parse_serialized configs_sound_def)
qed

section \<open>Every request does what it means\<close>

definition simulated :: "string \<Rightarrow> (store_error + 'x) \<times> store_file \<Rightarrow> 'x option \<times> lists_view \<Rightarrow> bool" where
  "simulated path r q \<longleftrightarrow> answer_of (fst r) = fst q \<and> presents list_codec (lists_store path) (snd r) (snd q)"

definition silent :: "(lists_view \<times> unit) option \<Rightarrow> (lists_view \<times> string) option" where
  "silent change = map_option (\<lambda>(s, _). (s, [])) change"

lemma silent_simps [simp]: "silent None = None" "silent (Some (s, u)) = Some (s, [])"
  by (simp_all add: silent_def)

lemma simulated_silent: "simulated path r (written outcome change s) \<Longrightarrow> simulated path (no_answer r) (written outcome (silent change) s)"
  by (cases "fst r"; cases change) (auto simp: simulated_def no_answer_def written_def split: if_splits)

lemma simulated_fail: "presents list_codec (lists_store path) f s \<Longrightarrow> simulated path (Inl e, f) (written outcome None s)"
  by (simp add: simulated_def written_def)

lemma simulated_update:
  assumes "presents list_codec (lists_store path) f s"
    "\<And>cs. configs_sound list_ok list_codec cs \<Longrightarrow> s = listing_of list_codec cs \<Longrightarrow> relists list_ok list_codec mutation cs change"
  shows "simulated path (update_configs list_codec (lists_store path) outcome mutation f) (written outcome change s)"
  unfolding simulated_def by (rule list_store.update_presents [OF assms(1) _ assms(2)]) (simp add: lists_store_def)

lemma simulated_named:
  assumes "presents list_codec (lists_store path) f s"
    "\<And>l. list_ok l \<Longrightarrow> sl_name l = name \<Longrightarrow>
      (case mutation l of
         Inl e \<Rightarrow> g (sl_signals l) = None
       | Inr (l', x) \<Rightarrow> g (sl_signals l) = Some (sl_signals l', x) \<and> sl_name l' = name \<and> list_ok l')"
  shows "simulated path (update_configs list_codec (lists_store path) outcome (update_named_list name mutation) f)
    (written outcome (change_list name g s) s)"
  by (rule simulated_update [OF assms(1)]) (erule (1) changes_named_list, rule assms(2))

lemma silent_change_list: "silent (change_list name g s) = change_list name (\<lambda>ss. map_option (\<lambda>(l, _). (l, [])) (g ss)) s"
  by (auto simp: change_list_def split: option.split)

lemma blank_name: "presents list_codec (lists_store path) f s \<Longrightarrow> snd s [] = None"
  using blank_name_absent list_store.load_sound by (fastforce simp: presents_def listing_of_def)

lemma blank_change: "presents list_codec (lists_store path) f s \<Longrightarrow> change_list [] g s = None"
  by (simp add: blank_name change_list_def)

lemma add_signal_simulated:
  assumes p: "presents list_codec (lists_store path) f s"
  shows "simulated path (add_signal path outcome name sig f)
    (written outcome (change_list name (\<lambda>ss. if sig = [] \<or> sig \<in> set ss then None else Some (ss @ [sig], ())) s) s)"
proof (cases "name = [] \<or> sig = []")
  case True
  then have "change_list name (\<lambda>ss. if sig = [] \<or> sig \<in> set ss then None else Some (ss @ [sig], ())) s = None"
    using blank_name [OF p] by (auto simp: change_list_def split: option.split)
  with True show ?thesis using simulated_fail [OF p] by (simp add: add_signal_def)
next
  case False
  then show ?thesis
    unfolding add_signal_def if_not_P [OF False]
    by (intro simulated_named [OF p]) (auto simp: list_ok_def)
qed

lemma delete_path_simulated:
  assumes p: "presents list_codec (lists_store path) f s"
  shows "simulated path (delete_signal_by_path path outcome name sig f)
    (written outcome (change_list name (\<lambda>ss. if sig \<notin> set ss then None else Some (remove1 sig ss, ())) s) s)"
proof (cases "name = [] \<or> sig = []")
  case True
  have "change_list name (\<lambda>ss. if sig \<notin> set ss then None else Some (remove1 sig ss, ())) s = None"
  proof (cases "name = []")
    case True
    then show ?thesis by (simp add: blank_change [OF p])
  next
    case False
    with True have "sig = []" by simp
    then show ?thesis
      using p list_store.load_sound
      by (fastforce simp: presents_def change_list_def listing_of_def registry_def configs_sound_def list_all_iff list_ok_def
          dest: map_of_SomeD split: option.split)
  qed
  with True show ?thesis using simulated_fail [OF p] by (simp add: delete_signal_by_path_def)
next
  case False
  then show ?thesis
    unfolding delete_signal_by_path_def if_not_P [OF False]
    by (intro simulated_named [OF p]) (auto simp: list_ok_def dest: notin_set_remove1)
qed

lemma delete_index_simulated:
  assumes p: "presents list_codec (lists_store path) f s"
  shows "simulated path (delete_signal_by_index path outcome name index f)
    (written outcome (change_list name (\<lambda>ss. if index = 0 \<or> index > length ss then None
       else Some (take (index - 1) ss @ drop index ss, ss ! (index - 1))) s) s)"
proof (cases "name = []")
  case True
  then show ?thesis using simulated_fail [OF p] by (simp add: delete_signal_by_index_def blank_change [OF p])
next
  case False
  have kept: "distinct (take (index - 1) ss @ drop index ss) \<and> set (take (index - 1) ss @ drop index ss) \<subseteq> set ss"
    if "distinct ss" for ss :: "string list"
    using that set_take_disj_set_drop_if_distinct [of ss "index - 1" index] set_take_subset set_drop_subset by fastforce
  show ?thesis
    unfolding delete_signal_by_index_def if_not_P [OF False]
    by (intro simulated_named [OF p]) (use kept in \<open>auto simp: list_ok_def Let_def\<close>)
qed

lemma changes_load_all:
  assumes "configs_sound list_ok list_codec cs" "s = listing_of list_codec cs" "configs_sound list_ok list_codec new"
  shows "relists list_ok list_codec (\<lambda>current. bind_store (load_all list_codec mode current new) (\<lambda>all. Inr (all, ()))) cs
    (map_option (\<lambda>s'. (s', ())) (listing_loaded sl_name mode new s))"
  using listing_load_all [OF assms(1,3), of mode]
  by (cases "load_all list_codec mode cs new") (auto simp: relists_def assms(2) simp del: split_paired_Ex)

lemma load_lists_simulated:
  assumes p: "presents list_codec (lists_store path) f s"
  shows "simulated path (no_answer (load_lists path dir outcome incoming mode f)) (list_spec (Load_Lists dir outcome incoming mode) s)"
proof (cases "mode \<in> {''replace'', ''append''} \<and> incoming \<noteq> [] \<and> list_all list_ok incoming \<and> distinct (map sl_name incoming) \<and> dir")
  case False
  then have "\<exists>e. load_lists path dir outcome incoming mode f = (Inl e, f)"
    using parse_printed_lists [of incoming] by (auto simp: load_lists_def split: sum.split)
  then show ?thesis
    using simulated_silent [OF simulated_fail [OF p]] False unfolding list_spec.simps if_not_P [OF False] by (metis silent_simps(1))
next
  case True
  have parsed: "parse_configs list_codec (serialize_configs list_codec incoming) = Inr incoming"
    using True by (simp add: parse_printed_lists)
  have "load_lists path dir outcome incoming mode f = update_configs list_codec (lists_store path) outcome
      (\<lambda>current. bind_store (load_all list_codec mode current incoming) (\<lambda>all. Inr (all, ()))) f"
    using True parsed by (auto simp: load_lists_def)
  moreover have "map_option (\<lambda>s'. (s', [])) (listing_loaded sl_name mode incoming s) =
      silent (map_option (\<lambda>s'. (s', ())) (listing_loaded sl_name mode incoming s))"
    by (simp add: silent_def option.map_comp o_def)
  ultimately show ?thesis
    using True unfolding list_spec.simps if_P [OF True]
    by (simp only:) (intro simulated_silent simulated_update [OF p] changes_load_all; simp add: configs_sound_def)
qed

lemma create_list_simulated:
  assumes p: "presents list_codec (lists_store path) f s"
  shows "simulated path (no_answer (create_list path dir outcome name ss f)) (list_spec (Create_List dir outcome name ss) s)"
proof (cases "list_ok \<lparr>sl_name = name, sl_signals = ss\<rparr> \<and> dir")
  case False
  then have "\<exists>e. create_list path dir outcome name ss f = (Inl e, f)"
    using check_signals_Inr [of name "[]" ss] by (cases "check_signals name [] ss") (auto simp: create_list_def list_ok_def)
  then obtain e where e: "create_list path dir outcome name ss f = (Inl e, f)" ..
  have "list_spec (Create_List dir outcome name ss) s = written outcome (silent None) s" using False by auto
  then show ?thesis unfolding e by (simp only: simulated_silent [OF simulated_fail [OF p]])
next
  case True
  let ?l = "\<lparr>sl_name = name, sl_signals = ss\<rparr>"
  let ?change = "if snd s (cd_key list_codec ?l) = None
    then Some ((fst s @ [cd_key list_codec ?l], (snd s)(cd_key list_codec ?l \<mapsto> ?l)), ()) else None"
  have "create_list path dir outcome name ss f = update_configs list_codec (lists_store path) outcome (append_new list_codec name ?l) f"
    using True check_signals_Inr [of name "[]" ss "()"] by (simp add: create_list_def list_ok_def)
  moreover have "simulated path (update_configs list_codec (lists_store path) outcome (append_new list_codec name ?l) f)
      (written outcome ?change s)"
    by (rule simulated_update [OF p], rule changes_append_new) (use True in simp_all)
  moreover have "list_spec (Create_List dir outcome name ss) s = written outcome (silent ?change) s" using True by simp
  ultimately show ?thesis by (simp only: simulated_silent)
qed

lemma delete_list_simulated:
  assumes p: "presents list_codec (lists_store path) f s"
  shows "simulated path (no_answer (delete_list path outcome name f)) (list_spec (Delete_List outcome name) s)"
proof -
  have "simulated path (delete_list path outcome name f)
      (written outcome (if snd s name = None then None else Some ((filter (\<lambda>n. n \<noteq> name) (fst s), (snd s)(name := None)), ())) s)"
    unfolding delete_list_def delete_named_def by (rule simulated_update [OF p], rule changes_remove_named) simp_all
  from simulated_silent [OF this] show ?thesis by (cases "snd s name") simp_all
qed

lemma list_step_simulated:
  assumes p: "presents list_codec (lists_store path) f s"
  shows "simulated path (list_step path r f) (list_spec r s)"
proof (cases r)
  case (Add_Signal outcome name sig)
  show ?thesis
    using simulated_silent [OF add_signal_simulated [OF p]]
    by (simp add: Add_Signal silent_change_list if_distrib [of "map_option _"] cong: if_cong)
next
  case (Delete_Path outcome name sig)
  show ?thesis
    using simulated_silent [OF delete_path_simulated [OF p]]
    by (simp add: Delete_Path silent_change_list if_distrib [of "map_option _"] cong: if_cong)
qed (use load_lists_simulated [OF p] create_list_simulated [OF p] delete_list_simulated [OF p] delete_index_simulated [OF p] in simp_all)

interpretation list_runs: manager_refinement "list_step path" list_spec "presents list_codec (lists_store path)" "([], Map.empty)" for path
  by unfold_locales (rule presents_missing, rule list_step_simulated [unfolded simulated_def])


end
