(* ===== verification/Stream_Manager.thy ===== *)
theory Stream_Manager
  imports Config_Store Repository_Properties
begin

text \<open>
  The manager of stream descriptions, \<open>waveform/stream/stream_manager.cpp\<close>: the document of a load, the
  descriptions kept in a file in their canonical form, and the load that adds to them and tells the
  analysis cache whose meaning changed (\<open>engine/service/actions/stream/stream_config_load.cpp\<close>).  The
  serialiser behind the digest of a description is a parameter, as in \<open>Stream_Config\<close>.
\<close>

section \<open>The document of a load\<close>

text \<open>The content of a file at a path is a parameter; a member of the wrong type makes the JSON library throw.\<close>

datatype stream_document = Document json | Document_Error string | Document_Throws

definition load_stream_config_arg :: "(string \<Rightarrow> store_file) \<Rightarrow> json \<Rightarrow> stream_document" where
  "load_stream_config_arg files args =
     (case args of
        JObject item \<Rightarrow>
          (case map_of item ''config'' of
             Some (JObject ms) \<Rightarrow> Document (JObject ms)
           | Some _ \<Rightarrow> Document_Error ''args.config must be an object''
           | None \<Rightarrow>
               (case map_of item ''config_path'' of
                  None \<Rightarrow> Document_Error ''stream.config.load requires args.config or args.config_path''
                | Some (JString path) \<Rightarrow>
                    if path = [] then Document_Error ''stream.config.load requires args.config or args.config_path''
                    else (case files path of
                            Missing \<Rightarrow> Document_Error (''config file not found: '' @ path)
                          | Unreadable \<Rightarrow> Document_Error (''config file not found: '' @ path)
                          | Unparsable what \<Rightarrow> Document_Error (''invalid JSON in stream config file: '' @ what)
                          | Stored (JObject ms) \<Rightarrow> Document (JObject ms)
                          | Stored _ \<Rightarrow> Document_Error ''stream config file must contain a JSON object'')
                | Some _ \<Rightarrow> Document_Throws))
      | _ \<Rightarrow> Document_Throws)"

fun parse_stream_items :: "string list \<Rightarrow> json list \<Rightarrow> string + stream_config list" where
  "parse_stream_items seen [] = Inr []"
| "parse_stream_items seen (item # items) =
     and_then (parse_stream_config_json item) (\<lambda>c.
     and_then (require (cf_name c \<notin> set seen) (''duplicate stream name in config: '' @ cf_name c)) (\<lambda>_.
     and_then (parse_stream_items (cf_name c # seen) items) (\<lambda>cs. Inr (c # cs))))"

definition parse_stream_config_list :: "json \<Rightarrow> string + stream_config list" where
  "parse_stream_config_list document =
     (let bad = Inl ''stream config document must contain exactly one root field: streams'' in
      case document of
        JObject [(key, streams)] \<Rightarrow>
          if key \<noteq> ''streams'' then bad
          else (case streams of
                  JArray (item # items) \<Rightarrow> parse_stream_items [] (item # items)
                | _ \<Rightarrow> Inl ''stream config streams must be a non-empty array'')
      | _ \<Rightarrow> bad)"

section \<open>The file of descriptions\<close>

text \<open>An item of the file must be exactly what printing its description gives.\<close>

definition read_stored_stream :: "nat \<Rightarrow> json \<Rightarrow> string + stream_config" where
  "read_stored_stream index item =
     (case parse_stream_config_json item of
        Inl error \<Rightarrow> Inl (''streams['' @ dec_digits index @ '']: '' @ error)
      | Inr c \<Rightarrow>
          if stream_config_json c \<noteq> item then Inl (''streams['' @ dec_digits index @ ''] is not in canonical stream config form'')
          else Inr c)"

definition stream_codec :: "(stream_config, string) codec" where
  "stream_codec =
     \<lparr>cd_read = read_stored_stream, cd_print = stream_config_json, cd_key = cf_name,
      cd_duplicate = (\<lambda>c. ''duplicate stream config name: '' @ cf_name c), cd_noun = ''stream config''\<rparr>"

definition streams_store :: "string \<Rightarrow> store_place" where
  "streams_store path = \<lparr>sp_path = path, sp_collection = ''streams''\<rparr>"

record stream_change =
  sc_name :: string
  sc_old :: string
  sc_new :: string

definition stream_changes :: "(json \<Rightarrow> string) \<Rightarrow> stream_config list \<Rightarrow> stream_config list \<Rightarrow> stream_change list" where
  "stream_changes dump current out =
     map (\<lambda>c. \<lparr>sc_name = cf_name c,
               sc_old = (case omap_get (by_name stream_codec current) (cf_name c) of
                           Some old \<Rightarrow> stream_config_semantic_fingerprint dump old | None \<Rightarrow> []),
               sc_new = stream_config_semantic_fingerprint dump c\<rparr>) out"

definition load_configs ::
  "(json \<Rightarrow> string) \<Rightarrow> string \<Rightarrow> bool \<Rightarrow> write_outcome \<Rightarrow> stream_config list \<Rightarrow> string \<Rightarrow> store_file
   \<Rightarrow> (store_error + stream_change list) \<times> store_file" where
  "load_configs dump path dir outcome incoming mode file =
     (if mode \<noteq> ''replace'' \<and> mode \<noteq> ''append''
      then (Inl (store_failure Store_Invalid ''INVALID_ARGUMENT'' ''stream.config.load mode must be replace or append''), file)
      else case parse_configs stream_codec (serialize_configs stream_codec incoming) of
        Inl e \<Rightarrow> (Inl (e\<lparr>se_message := ''cannot persist invalid stream config: '' @ se_message e\<rparr>), file)
      | Inr validated \<Rightarrow>
          if \<not> dir then (Inl (directory_error ''stream config''), file)
          else update_configs stream_codec (streams_store path) outcome
            (\<lambda>current. bind_store (load_all stream_codec mode current validated)
               (\<lambda>out. Inr (out, stream_changes dump current out))) file)"

definition get_stream :: "string \<Rightarrow> string \<Rightarrow> store_file \<Rightarrow> store_error + stream_config" where
  "get_stream path name file = get_named stream_codec (streams_store path) name file"

definition list_streams :: "string \<Rightarrow> store_file \<Rightarrow> store_error + stream_config list" where
  "list_streams path file = load_session stream_codec (streams_store path) file"

text \<open>A load that succeeded tells the cache.\<close>

definition stream_config_load ::
  "(json \<Rightarrow> string) \<Rightarrow> string \<Rightarrow> string \<Rightarrow> bool \<Rightarrow> write_outcome \<Rightarrow> stream_config list \<Rightarrow> string \<Rightarrow> store_file \<times> 'v repository
   \<Rightarrow> (store_error + stream_change list) \<times> store_file \<times> 'v repository" where
  "stream_config_load dump sess path dir outcome streams mode st =
     (case load_configs dump path dir outcome streams mode (fst st) of
        (Inl e, file) \<Rightarrow> (Inl e, file, snd st)
      | (Inr cs, file) \<Rightarrow>
          (Inr cs, file, notify_stream_config_changes sess (map (\<lambda>c. (sc_name c, sc_old c, sc_new c)) cs) (snd st)))"

section \<open>What the file holds\<close>

definition stored_stream_ok :: "stream_config \<Rightarrow> bool" where
  "stored_stream_ok c \<longleftrightarrow> stream_config_ok c \<and> point_given c = c"

lemma stream_codec_parts [simp]:
  "cd_read stream_codec = read_stored_stream" "cd_print stream_codec = stream_config_json" "cd_key stream_codec = cf_name"
  "cd_noun stream_codec = ''stream config''"
  by (simp_all add: stream_codec_def)

lemma read_stored_Inr: "read_stored_stream i j = Inr c \<longleftrightarrow> parse_stream_config_json j = Inr c \<and> stream_config_json c = j"
  by (cases "parse_stream_config_json j") (auto simp: read_stored_stream_def)

lemma stored_stream_read:
  assumes "read_stored_stream i j = Inr c"
  shows "stored_stream_ok c"
proof -
  have p: "parse_stream_config_json j = Inr c" "stream_config_json c = j" using assms by (simp_all add: read_stored_Inr)
  have "Inr c = (Inr (point_given c) :: string + stream_config)"
    using parse_json_form [OF parse_config_ok [OF p(1)]] p by simp
  then show ?thesis using parse_config_ok [OF p(1)] by (simp add: stored_stream_ok_def)
qed

interpretation stream_store: config_codec stream_codec stored_stream_ok
proof unfold_locales
  show "stored_stream_ok c" if "cd_read stream_codec i j = Inr c" for i j c
    using that stored_stream_read by simp
  show "cd_read stream_codec i (cd_print stream_codec c) = Inr c" if "stored_stream_ok c" for c i
    using that parse_json_form [of c] by (simp add: stored_stream_ok_def read_stored_Inr)
qed

section \<open>What a load means\<close>

text \<open>The descriptions of a load as they read back, if they can be kept.\<close>

definition kept_streams :: "stream_config list \<Rightarrow> stream_config list option" where
  "kept_streams incoming =
     (case parse_configs stream_codec (serialize_configs stream_codec incoming) of Inl e \<Rightarrow> None | Inr cs \<Rightarrow> Some cs)"

text \<open>
  A load changes the listing as its mode says, and reports for every name what its description meant
  before and means now.
\<close>

type_synonym streams_view = "string list \<times> (string \<rightharpoonup> stream_config)"

definition reported :: "(json \<Rightarrow> string) \<Rightarrow> streams_view \<Rightarrow> streams_view \<Rightarrow> stream_change list" where
  "reported dump s s' =
     map (\<lambda>n. \<lparr>sc_name = n,
               sc_old = (case snd s n of Some c \<Rightarrow> stream_config_semantic_fingerprint dump c | None \<Rightarrow> []),
               sc_new = (case snd s' n of Some c \<Rightarrow> stream_config_semantic_fingerprint dump c | None \<Rightarrow> [])\<rparr>) (fst s')"

datatype stream_request = Load_Streams bool write_outcome "stream_config list" string

fun stream_step :: "(json \<Rightarrow> string) \<Rightarrow> string \<Rightarrow> stream_request \<Rightarrow> store_file \<Rightarrow> (store_error + stream_change list) \<times> store_file" where
  "stream_step dump path (Load_Streams dir outcome incoming mode) file = load_configs dump path dir outcome incoming mode file"

fun stream_spec :: "(json \<Rightarrow> string) \<Rightarrow> stream_request \<Rightarrow> streams_view \<Rightarrow> stream_change list option \<times> streams_view" where
  "stream_spec dump (Load_Streams dir outcome incoming mode) s =
     written outcome
       (case kept_streams incoming of
          Some cs \<Rightarrow>
            if mode \<in> {''replace'', ''append''} \<and> dir
            then map_option (\<lambda>s'. (s', reported dump s s')) (listing_loaded cf_name mode cs s) else None
        | None \<Rightarrow> None) s"

lemma stream_changes_reported:
  assumes "configs_sound ok stream_codec current" "configs_sound ok' stream_codec out"
  shows "stream_changes dump current out = reported dump (listing_of stream_codec current) (listing_of stream_codec out)"
proof -
  have old: "omap_get (by_name stream_codec current) = registry stream_codec current"
    using get_by_name [of stream_codec current "[]"] assms(1) by (simp add: configs_sound_def)
  have new: "registry stream_codec out (cf_name c) = Some c" if "c \<in> set out" for c
    using assms(2) that by (auto simp: configs_sound_def registry_def map_of_eq_Some_iff o_def)
  show ?thesis
    by (simp add: stream_changes_def reported_def listing_of_def old new)
qed

lemma changes_stream_load:
  assumes "configs_sound stored_stream_ok stream_codec cs" "s = listing_of stream_codec cs" "configs_sound stored_stream_ok stream_codec new"
  shows "relists stored_stream_ok stream_codec
    (\<lambda>current. bind_store (load_all stream_codec mode current new) (\<lambda>out. Inr (out, stream_changes dump current out))) cs
    (map_option (\<lambda>s'. (s', reported dump s s')) (listing_loaded cf_name mode new s))"
  using listing_load_all [OF assms(1,3), of mode] stream_changes_reported [OF assms(1)]
  by (cases "load_all stream_codec mode cs new") (auto simp: relists_def assms(2) simp del: split_paired_Ex)

lemma load_configs_simulated:
  assumes p: "presents stream_codec (streams_store path) f s"
  shows "answer_of (fst (stream_step dump path r f)) = fst (stream_spec dump r s) \<and>
    presents stream_codec (streams_store path) (snd (stream_step dump path r f)) (snd (stream_spec dump r s))"
proof -
  obtain dir outcome incoming mode where r: "r = Load_Streams dir outcome incoming mode" by (cases r)
  show ?thesis
  proof (cases "mode \<in> {''replace'', ''append''} \<and> dir \<and> (\<exists>cs. kept_streams incoming = Some cs)")
    case True
    then obtain cs where kept: "kept_streams incoming = Some cs" by blast
    then have parsed: "parse_configs stream_codec (serialize_configs stream_codec incoming) = Inr cs"
      by (simp add: kept_streams_def split: sum.splits)
    have sound: "configs_sound stored_stream_ok stream_codec cs"
      using parsed stream_store.parse_from_sound unfolding parse_configs_def by blast
    have step: "stream_step dump path r f = update_configs stream_codec (streams_store path) outcome
        (\<lambda>current. bind_store (load_all stream_codec mode current cs) (\<lambda>out. Inr (out, stream_changes dump current out))) f"
      using True parsed by (auto simp: r load_configs_def)
    have spec: "stream_spec dump r s = written outcome (map_option (\<lambda>s'. (s', reported dump s s')) (listing_loaded cf_name mode cs s)) s"
      using True kept by (auto simp: r)
    show ?thesis
      unfolding step spec
      by (rule stream_store.update_presents [OF p]) (simp add: streams_store_def, erule (1) changes_stream_load, rule sound)
  next
    case False
    then have "\<exists>e. stream_step dump path r f = (Inl e, f)"
      by (auto simp: r load_configs_def kept_streams_def split: sum.split)
    moreover have "stream_spec dump r s = (None, s)"
      using False by (auto simp: r written_def split: option.split)
    ultimately show ?thesis using p by auto
  qed
qed

interpretation stream_runs: manager_refinement "stream_step dump path" "stream_spec dump" "presents stream_codec (streams_store path)"
    "([], Map.empty)" for dump path
  by unfold_locales (rule presents_missing, rule load_configs_simulated)

end
