(* ===== verification/Stream_Loads.thy ===== *)
theory Stream_Loads
  imports Stream_Manager
begin

text \<open>
  Loads of stream descriptions together with the analysis cache: the file behaves as a map from names
  whatever loads came before, and a load leaves no analysis in the cache that belongs to a meaning no
  description has any more.  The cache keeps, for every session, the digests of its names; it may lose
  some of them when memory is short, and otherwise they are those of the file.
\<close>

section \<open>Digests of names in the cache\<close>

text \<open>Making room only loses them.\<close>

definition fewer_bindings :: "'v repository \<Rightarrow> 'v repository \<Rightarrow> bool" where
  "fewer_bindings r q \<longleftrightarrow> (bindings_ok r \<longrightarrow>
     bindings_ok q \<and> (\<forall>sess. set (session_bindings sess q) \<subseteq> set (session_bindings sess r)))"

lemma fewer_same: "r_bindings q = r_bindings r \<Longrightarrow> fewer_bindings r q"
  by (simp add: fewer_bindings_def bindings_ok_def session_bindings_def)

lemma fewer_trans: "fewer_bindings r q \<Longrightarrow> fewer_bindings q p \<Longrightarrow> fewer_bindings r p"
  unfolding fewer_bindings_def by blast

lemma evict_index_bindings [simp]: "r_bindings (evict_index reason ik r) = r_bindings r"
  by (simp add: evict_index_def repo_simps split: option.split)

lemma evict_canonical_bindings [simp]: "r_bindings (evict_canonical reason key r) = r_bindings r"
proof -
  have "r_bindings (fold drop_index xs q) = r_bindings q" for xs and q :: "'a repository"
    by (induction xs arbitrary: q) simp_all
  then show ?thesis
    by (simp add: evict_canonical_def add_tombstone_def next_access_sequence_def erase_canonical_internal_def erase_owned_indexes_def
        Let_def repo_simps split: option.split)
qed

lemma evict_bindings [simp]: "r_bindings (evict_to_budget b n pcan pind reason preserve excluded r) = r_bindings r"
proof -
  have i: "r_bindings (snd (evict_indexes b n excluded reason iks q)) = r_bindings q" for iks and q :: "'a repository"
    by (induction iks arbitrary: q) simp_all
  have c: "r_bindings (evict_canonicals b n excluded reason ks q) = r_bindings q" for ks and q :: "'a repository"
    by (induction ks arbitrary: q) simp_all
  obtain early q where q: "evict_indexes b n excluded reason (index_candidates pind preserve r) r = (early, q)" by fastforce
  then have "r_bindings q = r_bindings r" using i [of "index_candidates pind preserve r" r] by simp
  then show ?thesis by (simp add: evict_to_budget_def q c split: bool.split)
qed

lemma fewer_drop_first: "drop_first_binding r = Some q \<Longrightarrow> fewer_bindings r q"
  unfolding fewer_bindings_def
proof (intro impI conjI allI)
  assume q: "drop_first_binding r = Some q" and ok: "bindings_ok r"
  obtain s n d bs rest where b: "r_bindings r = (s, (n, d) # bs) # rest"
    and b': "r_bindings q = (if bs = [] then rest else (s, bs) # rest)"
    using q by (auto simp: drop_first_binding_def Let_def repo_simps split: list.splits prod.splits)
  have rest: "omap_get rest s = None"
    using ok b omap_ok_less [of s "(n, d) # bs" rest s] by (cases "omap_get rest s") (auto simp: bindings_ok_def)
  show "set (session_bindings sess q) \<subseteq> set (session_bindings sess r)" for sess
    using rest by (auto simp: session_bindings_def b b' split: option.splits if_splits)
  have entry: "omap_get (r_bindings r) j = Some us" if "omap_get rest j = Some us" for j us
    using that rest by (auto simp: b)
  have others: "omap_ok us \<and> us \<noteq> []" if "omap_get rest j = Some us" for j us
    using ok entry [OF that] unfolding bindings_ok_def by blast
  have "omap_get (r_bindings r) s = Some ((n, d) # bs)" by (simp add: b)
  then have "omap_ok ((n, d) # bs)" using ok unfolding bindings_ok_def by blast
  moreover have "omap_ok (r_bindings r)" using ok by (simp add: bindings_ok_def)
  ultimately show "bindings_ok q"
    using others unfolding bindings_ok_def b' by (simp add: b omap_ok_Cons)
qed

lemma fewer_erase_one: "erase_one_releasable_metadata r = Some q \<Longrightarrow> fewer_bindings r q"
  by (auto simp: erase_one_releasable_metadata_def Let_def dest: fewer_drop_first intro: fewer_same split: if_splits option.splits)

lemma fewer_release: "fewer_bindings r (release_metadata n excluded r)"
proof (induction n excluded r rule: release_metadata.induct)
  case (1 n excluded r)
  show ?case
  proof (cases "fits_limit (hard_max_bytes (r_config r)) n excluded r")
    case True
    then show ?thesis by (subst release_metadata.simps) (simp add: fewer_same)
  next
    case False
    show ?thesis
    proof (cases "erase_one_releasable_metadata r")
      case None
      with False show ?thesis by (subst release_metadata.simps) (simp add: fewer_same)
    next
      case (Some q)
      with False 1 show ?thesis
        by (subst release_metadata.simps) (simp add: fewer_trans [OF fewer_erase_one [OF Some]])
    qed
  qed
qed

text \<open>Binding a name replaces its digest.\<close>

lemma bind_config_bindings:
  assumes ok: "bindings_ok r"
  shows "bindings_ok (bind_config sess name dig r)"
    and "set (session_bindings sess (bind_config sess name dig r)) \<subseteq>
      insert (name, dig) {b \<in> set (session_bindings sess r). fst b \<noteq> name}"
proof -
  let ?bs = "session_bindings sess r"
  define r1 where "r1 = (case omap_get ?bs name of
                  Some old \<Rightarrow> remove_metadata_bytes (binding_metadata_bytes sess name old) r
                | None \<Rightarrow> on_stats (\<lambda>s. s\<lparr>st_binding := st_binding s + 1\<rparr>) r)"
  define r3 where "r3 = add_metadata_bytes (binding_metadata_bytes sess name dig)
    (r1\<lparr>r_bindings := omap_put sess (omap_put name dig ?bs) (r_bindings r1)\<rparr>)"
  have b: "r_bindings r3 = omap_put sess (omap_put name dig ?bs) (r_bindings r)"
    by (simp add: r3_def r1_def repo_simps split: option.split)
  have bs: "omap_ok ?bs" using ok by (auto simp: bindings_ok_def session_bindings_def split: option.split)
  have ok3: "bindings_ok r3"
    using ok bs by (auto simp: bindings_ok_def b omap_ok_put omap_get_put)
  have eq: "bind_config sess name dig r = release_metadata 0 None
      (evict_to_budget (hard_max_bytes (r_config r3)) 0 None None ''hard_limit'' None None r3)"
    by (simp add: bind_config_def Let_def r3_def r1_def)
  have fewer: "fewer_bindings r3 (bind_config sess name dig r)"
    unfolding eq by (rule fewer_trans [OF fewer_same fewer_release]) simp
  then show "bindings_ok (bind_config sess name dig r)" using ok3 by (simp add: fewer_bindings_def)
  have put: "session_bindings sess r3 = omap_put name dig ?bs"
    by (simp add: session_bindings_def b omap_get_put)
  have entry: "b \<in> insert (name, dig) {b \<in> set ?bs. fst b \<noteq> name}" if "b \<in> set (omap_put name dig ?bs)" for b
  proof -
    obtain n d where nd: "b = (n, d)" by fastforce
    have "omap_get (omap_put name dig ?bs) n = Some d"
      using that bs by (simp add: nd omap_get_in omap_ok_put)
    then show ?thesis using bs by (auto simp: nd omap_get_put omap_get_in split: if_splits)
  qed
  have "set (session_bindings sess (bind_config sess name dig r)) \<subseteq> set (session_bindings sess r3)"
    using fewer ok3 by (simp add: fewer_bindings_def)
  then show "set (session_bindings sess (bind_config sess name dig r)) \<subseteq> insert (name, dig) {b \<in> set ?bs. fst b \<noteq> name}"
    unfolding put by (rule order_trans) (rule subsetI, rule entry)
qed

lemma bind_all_bindings:
  assumes "bindings_ok r" "distinct (map fst changes)"
  shows "bindings_ok (fold (\<lambda>(name, old, new). bind_config sess name new) changes r) \<and>
    set (session_bindings sess (fold (\<lambda>(name, old, new). bind_config sess name new) changes r)) \<subseteq>
      (\<lambda>(name, old, new). (name, new)) ` set changes \<union> {b \<in> set (session_bindings sess r). fst b \<notin> fst ` set changes}"
  using assms
proof (induction changes arbitrary: r)
  case (Cons ch changes)
  obtain name old new where ch: "ch = (name, old, new)" by (cases ch) blast
  let ?r = "bind_config sess name new r"
  note b = bind_config_bindings [OF Cons.prems(1), of sess name new]
  have "distinct (map fst changes)" using Cons.prems(2) by simp
  note ih = Cons.IH [OF b(1) this]
  show ?case
  proof
    show "bindings_ok (fold (\<lambda>(name, old, new). bind_config sess name new) (ch # changes) r)"
      using ih by (simp add: ch)
    show "set (session_bindings sess (fold (\<lambda>(name, old, new). bind_config sess name new) (ch # changes) r)) \<subseteq>
      (\<lambda>(name, old, new). (name, new)) ` set (ch # changes) \<union>
      {b \<in> set (session_bindings sess r). fst b \<notin> fst ` set (ch # changes)}"
      using ih b(2) by (auto simp: ch)
  qed
qed simp

lemma notify_bindings:
  assumes "bindings_ok r" "distinct (map fst changes)"
  shows "bindings_ok (notify_stream_config_changes sess changes r) \<and>
    set (session_bindings sess (notify_stream_config_changes sess changes r)) \<subseteq>
      (\<lambda>(name, old, new). (name, new)) ` set changes \<union> {b \<in> set (session_bindings sess r). fst b \<notin> fst ` set changes}"
proof -
  have "r_bindings (fold (drop_unbound sess) ds q) = r_bindings q" for ds and q :: "'a repository"
    by (induction ds arbitrary: q) simp_all
  then have "r_bindings (notify_stream_config_changes sess changes r) =
      r_bindings (fold (\<lambda>(name, old, new). bind_config sess name new) changes r)"
    by (simp add: notify_stream_config_changes_def)
  then show ?thesis
    using bind_all_bindings [OF assms, of sess] by (simp add: bindings_ok_def session_bindings_def)
qed

section \<open>Loads\<close>

lemma get_stream_view:
  "presents stream_codec (streams_store path) f (ns, m) \<Longrightarrow> get_stream path n f = Inr c \<longleftrightarrow> m n = Some c"
  by (simp add: get_stream_def get_named_presents split: option.split)

lemma get_stream_name:
  assumes "presents stream_codec (streams_store path) f (ns, m)" "m n = Some c"
  shows "cf_name c = n"
  using assms by (auto simp: presents_def listing_of_def registry_def dest: map_of_SomeD)

text \<open>
  C39: whatever loads came before, with whatever failures of writing, the file of stream descriptions behaves
  as a map from names: each load succeeds exactly when the map allows it and the file was written and synced,
  it then reports for every name the digest of its meaning before and after, and a question for a name gives
  the description the map holds, under that name.
\<close>

theorem stream_configs_refine_map:
  "let (answers, file) = run_requests (stream_step dump path) reqs Missing;
       (expected, ns, m) = run_spec (stream_spec dump) reqs ([], Map.empty)
   in answers = expected \<and> distinct ns \<and> set ns = dom m \<and>
     (case m name of
        None \<Rightarrow> get_stream path name file = Inl (store_not_found (''stream config not found: '' @ name))
      | Some c \<Rightarrow> get_stream path name file = Inr c \<and> cf_name c = name)"
proof -
  obtain answers f where a: "run_requests (stream_step dump path) reqs Missing = (answers, f)" by fastforce
  obtain expected ns m where b: "run_spec (stream_spec dump) reqs ([], Map.empty) = (expected, ns, m)" using prod_cases3 by blast
  have "answers = expected" and p: "presents stream_codec (streams_store path) f (ns, m)"
    using stream_runs.run_from_start [of dump path reqs] by (simp_all add: a b)
  then show ?thesis
    unfolding a b Let_def prod.case
    using stream_store.presents_sound [OF p] get_named_presents [OF p] get_stream_name [OF p]
    by (simp add: get_stream_def split: option.split)
qed

text \<open>The digests the cache keeps for the names of a session are those of the file.\<close>

definition bindings_current :: "(json \<Rightarrow> string) \<Rightarrow> string \<Rightarrow> string \<Rightarrow> store_file \<Rightarrow> 'v repository \<Rightarrow> bool" where
  "bindings_current dump path sess f r \<longleftrightarrow>
     (\<forall>(n, d)\<in>set (session_bindings sess r). \<exists>c. get_stream path n f = Inr c \<and> d = stream_config_semantic_fingerprint dump c)"

lemma fingerprint_nonempty: "stream_config_semantic_fingerprint dump c \<noteq> []"
proof -
  have "length (sha256_text t) = 64" for t
    unfolding sha256_text_def finish_reference [OF tracked_update [OF tracked_init]] by (rule reference_digest_text)
  then show ?thesis unfolding stream_config_semantic_fingerprint_def by (metis list.size(3) zero_neq_numeral)
qed

lemma spec_answer:
  "stream_spec dump (Load_Streams dir outcome streams mode) s = (Some chs, t) \<Longrightarrow>
    \<exists>cs. listing_loaded cf_name mode cs s = Some t \<and> chs = reported dump s t"
  by (auto simp: written_def split: option.splits if_splits)

lemma loaded_keeps_names: "listing_loaded name_of mode cs s = Some t \<Longrightarrow> dom (snd s) \<subseteq> dom (snd t)"
  by (auto simp: listing_loaded_def Let_def map_add_def split: if_splits option.splits)

text \<open>A load of a file and what it tells the cache.\<close>

lemma load_reports:
  assumes p: "presents stream_codec (streams_store path) f (ns, m)"
    and load: "load_configs dump path dir outcome streams mode f = (Inr chs, f')"
  obtains ns' m' where "presents stream_codec (streams_store path) f' (ns', m')" "distinct ns'" "set ns' = dom m'"
    "dom m \<subseteq> dom m'" "chs = reported dump (ns, m) (ns', m')"
proof -
  obtain t where t: "stream_spec dump (Load_Streams dir outcome streams mode) (ns, m) = (Some chs, t)"
      "presents stream_codec (streams_store path) f' t"
    using load_configs_simulated [OF p, of dump "Load_Streams dir outcome streams mode"] load
    by (cases "stream_spec dump (Load_Streams dir outcome streams mode) (ns, m)") simp
  obtain ns' m' where s: "t = (ns', m')" by fastforce
  obtain cs where "listing_loaded cf_name mode cs (ns, m) = Some (ns', m')" "chs = reported dump (ns, m) (ns', m')"
    using spec_answer [OF t(1)] s by blast
  then show thesis
    using that [OF t(2) [unfolded s]] loaded_keeps_names [of cf_name mode cs "(ns, m)" "(ns', m')"]
      stream_store.presents_sound [OF t(2) [unfolded s]] by simp
qed

text \<open>
  C36: when a description is stored and a load succeeds, the cache holds no stream analysis of the session
  with the meaning the description had, unless some stored description still has that meaning; and the
  digests the cache keeps for the names of the session are again those of the file.
\<close>

theorem stream_load_drops_stale:
  assumes load: "stream_config_load dump sess path dir outcome streams mode (f, r) = (Inr chs, f', r')"
    and stored: "get_stream path n f = Inr c"
    and bound: "bindings_ok r" "bindings_current dump path sess f r"
    and key: "protocol key = ''stream''" "session_id key = sess" "semantic_digest key = stream_config_semantic_fingerprint dump c"
  shows "(find_entry r' key = None \<or>
      (\<exists>n' c'. get_stream path n' f' = Inr c' \<and> stream_config_semantic_fingerprint dump c' = stream_config_semantic_fingerprint dump c)) \<and>
    bindings_ok r' \<and> bindings_current dump path sess f' r'"
proof -
  let ?fp = "stream_config_semantic_fingerprint dump"
  define changes where "changes = map (\<lambda>c. (sc_name c, sc_old c, sc_new c)) chs"
  have l: "load_configs dump path dir outcome streams mode f = (Inr chs, f')" and r': "r' = notify_stream_config_changes sess changes r"
    using load by (auto simp: stream_config_load_def changes_def split: prod.splits sum.splits)
  obtain ns m where p: "presents stream_codec (streams_store path) f (ns, m)"
    using stored by (auto simp: get_stream_def get_named_def bind_store_Inr presents_def listing_of_def)
  obtain ns' m' where p': "presents stream_codec (streams_store path) f' (ns', m')" and ns': "distinct ns'" "set ns' = dom m'"
    and dom: "dom m \<subseteq> dom m'" and chs: "chs = reported dump (ns, m) (ns', m')"
    by (rule load_reports [OF p l])
  have names: "map fst changes = ns'" by (simp add: changes_def chs reported_def o_def)
  have change: "(n', old, new) \<in> set changes \<longleftrightarrow> n' \<in> set ns' \<and>
      old = (case m n' of Some c \<Rightarrow> ?fp c | None \<Rightarrow> []) \<and> new = (case m' n' of Some c \<Rightarrow> ?fp c | None \<Rightarrow> [])" for n' old new
    by (auto simp: changes_def chs reported_def)
  have "distinct (map fst changes)" using ns'(1) names by simp
  note after = notify_bindings [OF bound(1) this, of sess, folded r']
  have current: "\<exists>c'. m' n' = Some c' \<and> d = ?fp c'" if "(n', d) \<in> set (session_bindings sess r')" for n' d
  proof -
    have "(n', d) \<in> (\<lambda>(name, old, new). (name, new)) ` set changes \<or>
        (n', d) \<in> set (session_bindings sess r) \<and> n' \<notin> fst ` set changes"
      using subsetD [OF conjunct2 [OF after] that] by auto
    moreover have "n' \<in> fst ` set changes" if "(n', d) \<in> set (session_bindings sess r)"
    proof -
      have "n' \<in> dom m" using bound(2) that get_stream_view [OF p] by (fastforce simp: bindings_current_def)
      then show ?thesis using dom ns'(2) names by (metis image_set subsetD)
    qed
    ultimately show ?thesis using ns'(2) by (auto simp: change)
  qed
  have "find_entry r' key = None" if none: "\<forall>n' c'. m' n' = Some c' \<longrightarrow> ?fp c' \<noteq> ?fp c"
  proof -
    have "m n = Some c" using stored get_stream_view [OF p] by blast
    then obtain c2 where c2: "m' n = Some c2" using dom by blast
    then have "(n, ?fp c, ?fp c2) \<in> set changes" using \<open>m n = Some c\<close> ns'(2) by (auto simp: change)
    moreover have "?fp c \<noteq> ?fp c2" using none c2 by metis
    moreover have "\<forall>b\<in>set (session_bindings sess r'). snd b \<noteq> ?fp c" using none current by fastforce
    ultimately show ?thesis
      using notify_find [OF _ fingerprint_nonempty _ _ key] unfolding r' by blast
  qed
  then show ?thesis
    using after current get_stream_view [OF p'] unfolding bindings_current_def by blast
qed

text \<open>A description whose sample point changes, with an analysis of the old meaning in the cache.\<close>

definition early_stream :: stream_config where
  "early_stream = point_given sample_stream_config"

definition late_stream :: stream_config where
  "late_stream = early_stream\<lparr>cf_clock_sample := (cf_clock_sample early_stream)\<lparr>ck_point := After\<rparr>\<rparr>"

definition early_file :: store_file where
  "early_file = Stored (store_root (streams_store ''p'') (serialize_configs stream_codec [early_stream]))"

definition early_key :: cache_key where
  "early_key = make_analysis_cache_key ''stream'' ''case'' (fsdb sample_key) 1
     (normalized_stream_config_semantics unary_dump early_stream) Scope_Full 0 0"

definition early_repository :: "unit repository" where
  "early_repository = put_entry early_key
     \<lparr>ob_state = Ready, ob_type = ''t'', ob_value = Some (), ob_resident = 0, ob_build = 0, ob_access = 1, ob_generation = 1\<rparr>
     (new_repository cache_config_default)"

lemma early_streams_ok: "stored_stream_ok early_stream" "stored_stream_ok late_stream"
  unfolding stored_stream_ok_def by code_simp+

lemma early_loads:
  "load_session stream_codec (streams_store ''p'') early_file = Inr [early_stream]"
  "load_session stream_codec (streams_store ''p'') (Stored (store_root (streams_store ''p'') (serialize_configs stream_codec [late_stream]))) =
     Inr [late_stream]"
  unfolding early_file_def
  by (rule stream_store.load_saved, simp add: configs_sound_def early_streams_ok, simp add: streams_store_def)+

lemma early_names: "cf_name early_stream = ''s''" "cf_name late_stream = ''s''"
  by (simp_all add: early_stream_def late_stream_def point_given_def sample_stream_config_def)

lemma late_load:
  "load_configs dump ''p'' True Written [late_stream] ''replace'' early_file =
    (Inr (stream_changes dump [early_stream] [late_stream]),
     Stored (store_root (streams_store ''p'') (serialize_configs stream_codec [late_stream])))"
proof -
  have new: "parse_configs stream_codec (serialize_configs stream_codec [late_stream]) = Inr [late_stream]"
    by (rule stream_store.parse_serialized) (simp add: configs_sound_def early_streams_ok)
  have old: "parse_configs stream_codec (serialize_configs stream_codec [early_stream]) = Inr [early_stream]"
    by (rule stream_store.parse_serialized) (simp add: configs_sound_def early_streams_ok)
  have "load_all stream_codec ''replace'' [early_stream] [late_stream] = Inr [late_stream]"
    by (simp add: load_all_def replace_all_def by_name_def early_names)
  then show ?thesis
    using new old
    by (simp add: load_configs_def update_configs_def store_update_def early_file_def on_configs_def store_save_def streams_store_def)
qed

lemma early_views:
  "get_stream ''p'' n early_file = (if n = ''s'' then Inr early_stream else Inl (store_not_found (''stream config not found: '' @ n)))"
  "get_stream ''p'' n (Stored (store_root (streams_store ''p'') (serialize_configs stream_codec [late_stream]))) =
    (if n = ''s'' then Inr late_stream else Inl (store_not_found (''stream config not found: '' @ n)))"
  by (auto simp: get_stream_def get_named_def early_loads find_named_registry early_names)

theorem stream_load_drops_stale_witness:
  "let (result, f', r') = stream_config_load unary_dump ''case'' ''p'' True Written [late_stream] ''replace'' (early_file, early_repository)
   in isl result = False \<and>
     (find_entry r' early_key = None \<or>
      stream_config_semantic_fingerprint unary_dump late_stream = stream_config_semantic_fingerprint unary_dump early_stream)"
proof -
  obtain r' where l: "stream_config_load unary_dump ''case'' ''p'' True Written [late_stream] ''replace'' (early_file, early_repository) =
      (Inr (stream_changes unary_dump [early_stream] [late_stream]),
       Stored (store_root (streams_store ''p'') (serialize_configs stream_codec [late_stream])), r')"
    by (simp add: stream_config_load_def late_load)
  have b: "r_bindings early_repository = []"
    by (simp add: early_repository_def put_entry_def early_key_def new_repository_def make_analysis_cache_key_def
        canonical_store_for_protocol_def Let_def)
  have bound: "bindings_ok early_repository" "bindings_current unary_dump ''p'' ''case'' early_file early_repository"
    by (simp_all add: bindings_ok_def bindings_current_def session_bindings_def b)
  have key: "protocol early_key = ''stream''" "session_id early_key = ''case''"
      "semantic_digest early_key = stream_config_semantic_fingerprint unary_dump early_stream"
    by (simp_all add: early_key_def make_analysis_cache_key_def stream_config_semantic_fingerprint_def Let_def)
  have stored: "get_stream ''p'' ''s'' early_file = Inr early_stream" by (simp add: early_views)
  show ?thesis
    using stream_load_drops_stale [OF l stored bound key] unfolding l by (auto simp: early_views split: if_splits)
qed

end
