(* ===== verification/Spec2Isabelle.thy ===== *)
theory Spec2Isabelle
  imports Expression Axi_Tracker Repository_Properties Stream_Cache Apb_Lookups Event_Manager List_Manager Stream_Loads
begin

text \<open>
  A model of the core logic of xdebug, a debugger for recorded simulations of digital designs
  (\<open>src/xdebug/src\<close>), with the theorems that make it correct.

  \<^bold>\<open>The program.\<close>  A session opens a waveform file and answers questions about it.  The values of signals
  come from the file as texts of four-state digits (\<open>core/value/logic_value.cpp\<close>).  Users give literals,
  value filters (\<open>waveform/filter\<close>), reset levels (\<open>waveform/common/reset_config.cpp\<close>) and logic
  expressions over named signals (\<open>waveform/stream/stream_expr.cpp\<close>, wrapped by
  \<open>waveform/common/expression.cpp\<close>, read as event conditions by \<open>waveform/event/event_expr.cpp\<close>).  A clock
  scan (\<open>waveform/common/clock_sampling.cpp\<close>) walks over the value changes of the file and gives one sample
  per clock edge to an analyzer: the AXI transaction tracker (\<open>waveform/axi/axi_transaction_tracker.cpp\<close>),
  the stream analyzer (\<open>waveform/stream\<close>), which finds the transfers, stalls and packets of a configured
  handshake, or the APB analyzer (\<open>waveform/apb\<close>), which finds the reads and writes of a bus.  An analysis is built once and kept in the analysis cache (\<open>waveform/cache\<close>) under a key that
  contains a SHA-256 digest of the configuration's meaning (\<open>core/common/sha256.cpp\<close>); queries of ranges are
  answered from the kept analysis.

  \<^bold>\<open>The theories.\<close>
  \<^item> \<open>Prelude\<close>, \<open>Json_Value\<close>, \<open>Std_Containers\<close>: the C and C++ library functions, JSON values and containers
    the code uses, the containers behind locales (a key map, a map with a measure, a sort, a priority
    queue), each interpreted on the model the components use.
  \<^item> \<open>Logic_Value\<close>: literals, radix conversion, declared widths, rendering, comparison keys.  Conversions are
    exact at any width; every value the program builds is well formed; equal keys mean equal numbers.
  \<^item> \<open>Value_Filter\<close>: parsing and matching of filters, reset levels.  A decision on unknown bits stays for
    every way the bits turn out; on known bits it is the comparison of numbers.
  \<^item> \<open>Stream_Expr\<close>, \<open>Expression\<close>: the recursive descent parser, the evaluator and its users.  The parser
    returns on every text; evaluation is monotone in the unknown bits, agrees with arithmetic on known
    values and fails only for a select out of range.
  \<^item> \<open>Axi_Tracker\<close>: every handler of a sample, the final result and the bounded selection of latency outliers.
    Handshakes are conserved, counters exact, responses of one identifier in order.
  \<^item> \<open>Sha256\<close>: the streaming digest equals the padded reference hash; the digest of a directory tree does not
    depend on the order of its listing.
  \<^item> \<open>Cache_Key\<close>, \<open>Analysis_Repository\<close>: keys, limits and every operation of the cache.
    \<open>Repository_Accounting\<close> and \<open>Repository_Runs\<close> show that its byte counters are the sums over its maps in
    every run of requests, \<open>Repository_Owners\<close> that indexes belong to ready objects, \<open>Repository_Contract\<close>
    that it refines a map that may forget, and \<open>Repository_Properties\<close> states these and the limits, the
    order of eviction and the effect of a configuration change as properties.
  \<^item> \<open>Clock_Sampling\<close>: the two scanners, with the callback and the evaluation of the clock as arguments and
    the caller's data as state; \<open>Clock_Ranges\<close>: a scan of a range delivers what a larger scan delivers in it;
    \<open>Clock_Samples\<close>: a scan is the fold of its callback over a list of samples in increasing time.
  \<^item> \<open>Stream_Config\<close>: parsing, printing and the normalised form of a stream's configuration.
  \<^item> \<open>Stream_Base\<close>, \<open>Stream_View\<close>: the two halves of the analyzer, the base analysis (samples, columns of the
    transfers' fields, packets) built by the scan, and the view that answers a query from a range of it.
  \<^item> \<open>Stream_Ranges\<close>, \<open>Stream_Answers\<close>: a base holds what its samples showed, so a view of a range of a larger
    base is the answer of a scan of the range; the range's build fails only if the larger one does.
  \<^item> \<open>Cached_Builds\<close>, \<open>Cached_Indexes\<close>: the contract of a client of the cache, a locale of a memory that may
    forget, with the objects and with the indexes of the cache as its interpretations.
  \<^item> \<open>Stream_Cache\<close>: the stream analyzer on top of the cache.  What the cache holds for it is always what a build of
    the configuration gives, whatever the cache evicts or rejects, so a cached answer is the plain answer.
  \<^item> \<open>Apb_Config\<close>, \<open>Apb_Analyzer\<close>: the configuration of an APB bus, read, printed and normalised, and the scan
    that collects its transactions.  \<open>Apb_Transactions\<close>: the transactions are the accesses of a simple
    protocol automaton over the samples, and the cached analysis is the plain one.
  \<^item> \<open>Apb_Queries\<close>, \<open>Apb_Lookups\<close>: counts, cursors, the index of addresses and the query of a range; the
    binary searches and the index give what a search of the whole list gives.
  \<^item> \<open>Config_Store\<close>: the versioned file of named descriptions (\<open>waveform/common/versioned_json_store.cpp\<close>) and
    the steps of its users, with a locale of readers and printers and a locale of managers whose file behaves
    as a map.  \<open>Bus_Managers\<close> (\<open>apb_manager.cpp\<close>, \<open>axi_manager.cpp\<close>), \<open>Event_Manager\<close>
    (\<open>event_manager.cpp\<close>), \<open>List_Manager\<close> (\<open>list_manager.cpp\<close>) and \<open>Stream_Manager\<close>
    (\<open>stream_manager.cpp\<close>) interpret both: after any run of requests, with any failures of writing, the file
    shows what a map from names holds.
  \<^item> \<open>Stream_Loads\<close>: a load of stream descriptions with the cache.  No analysis of a meaning that no stored
    description has any more is left.

  \<^bold>\<open>How the code is written down.\<close>  Structs are records, enumerations datatypes, \<open>std::map\<close> an ordered
  association list, an output argument with a boolean result a sum of an error and a value.  Counters of
  64 bits are natural numbers with the saturation the code writes out; SHA-256 works on 32-bit words.
  Lambdas that share variables of their function are functions on a record of those variables.  Loops are
  structural recursion on what is left of their input; the parser of expressions and the loops that empty a
  store have fuel, the length of the text and of the store, and are shown to need no more.

  \<^bold>\<open>Parameters.\<close>  The waveform library is a record of functions (\<open>fsdb\<close>: lookup of signals, widths, values at
  a time, value changes of a range).  \<open>fsdb_replays\<close> states the documented behaviour the range theorems rely
  on: values and changes come from one recorded sequence of changes, ordered by time.  The text of a JSON
  value is a parameter, injective where a key must decide a configuration.  The sizes of analyses, which
  depend on the capacities of containers, are parameters, and so are whether memory runs out in a build, whether
  the directory of a session can be made, and how the writing of a file ends.

  \<^bold>\<open>Not modelled.\<close>  Request deadlines (an exception raised between steps), the debug probe, thread-local
  render options and the re-rendering of whole responses; the one-pass stream analysis that is compiled only
  to test against; \<open>ExprParser\<close> of \<open>event_expr.cpp\<close>, which nothing calls.  Outside the model are the sessions
  and transports (processes, sockets, files), the dispatch and the validation of requests against schemas
  read at run time, the service handlers that turn JSON into calls and back, the tracing through the design
  data base, whose meaning is that of the vendor's interface, and the time texts, which go through floating
  point and the library's conversions.  The analyzers of AXI and of events are modelled only in the parts named
  above: their scans fill the tracker and the outcome functions that are modelled.
\<close>

end
